(* ===== verification/Prelude.thy ===== *)
theory Prelude
  imports Main "HOL-Library.Word"
begin

text \<open>
  The vocabulary the components share.

  \<^item> Machine integers of the C code: \<open>u8\<close>, \<open>u16\<close>, \<open>u32\<close> and \<open>u64\<close>.
  \<^item> Error codes: \<open>errno\<close> has the constants of \<open>include/lib/libc/errno.h\<close> which the
    components return. A C function that returns a negative code or a value is modelled with
    the sum type \<open>errno + 'a\<close>, a function that returns 0 or a negative code with
    \<open>errno option\<close> where \<open>None\<close> is the 0.
  \<^item> The allocator as its clients see it: \<open>malloc\<close> of \<open>lib/libc/stdlib.c\<close> (Doug Lea's
    allocator, vendored) either hands out a block or returns NULL. \<open>heap_st\<close> holds an
    arbitrary predicate saying which calls succeed, the number of calls made so far and the
    number of live blocks, so every theorem covers every pattern of allocation failures,
    and leaks are visible as a changed number of live blocks.
  \<^item> Generic lemmas on lists, maps and options.
\<close>

unbundle bit_operations_syntax

subsection \<open>Types\<close>

type_synonym u8 = "8 word"
type_synonym u16 = "16 word"
type_synonym u32 = "32 word"
type_synonym u64 = "64 word"

text \<open>An address of an object in one of the explicit stores; a pointer is \<open>addr option\<close>.\<close>

type_synonym addr = nat

subsection \<open>Error codes\<close>

datatype errno =
    ENOENT | EIO | EBADF | ENOMEM | EBUSY | EEXIST | ENODEV | ENOTDIR | EISDIR | EINVAL
  | EMFILE | ENOSYS | ENOTEMPTY | ETIMEDOUT | EOTHER nat

fun errno_val :: "errno \<Rightarrow> int" where
  "errno_val ENOENT = 2"
| "errno_val EIO = 5"
| "errno_val EBADF = 9"
| "errno_val ENOMEM = 12"
| "errno_val EBUSY = 16"
| "errno_val EEXIST = 17"
| "errno_val ENODEV = 19"
| "errno_val ENOTDIR = 20"
| "errno_val EISDIR = 21"
| "errno_val EINVAL = 22"
| "errno_val EMFILE = 24"
| "errno_val ENOSYS = 78"
| "errno_val ENOTEMPTY = 66"
| "errno_val ETIMEDOUT = 60"
| "errno_val (EOTHER n) = int n"

subsection \<open>The allocator seen from its clients\<close>

record heap_st =
  h_ok :: "nat \<Rightarrow> bool"
  h_calls :: nat
  h_live :: nat

definition malloc :: "heap_st \<Rightarrow> bool \<times> heap_st" where
  "malloc h =
     (if h_ok h (h_calls h)
      then (True, h\<lparr>h_calls := Suc (h_calls h), h_live := Suc (h_live h)\<rparr>)
      else (False, h\<lparr>h_calls := Suc (h_calls h)\<rparr>))"

definition mfree :: "heap_st \<Rightarrow> heap_st" where
  "mfree h = h\<lparr>h_live := h_live h - 1\<rparr>"

named_theorems heap_simps

lemma malloc_live [heap_simps]:
  "malloc h = (True, h') \<Longrightarrow> h_live h' = Suc (h_live h)"
  by (auto simp: malloc_def split: if_splits)

lemma malloc_live_fail [heap_simps]:
  "malloc h = (False, h') \<Longrightarrow> h_live h' = h_live h"
  by (auto simp: malloc_def split: if_splits)

lemma mfree_live [heap_simps]: "h_live (mfree h) = h_live h - 1"
  by (simp add: mfree_def)

text \<open>An allocator that never fails: the one the concrete witnesses use.\<close>

definition heap_init :: heap_st where
  "heap_init = \<lparr>h_ok = (\<lambda>_. True), h_calls = 0, h_live = 0\<rparr>"

subsection \<open>Lists\<close>

lemma length_dropWhile_less:
  assumes "xs \<noteq> []"
  shows "length (tl (dropWhile P xs)) < length xs"
proof -
  have "length (dropWhile P xs) \<le> length xs" by (rule length_dropWhile_le)
  with assms show ?thesis by (cases xs) auto
qed

lemma takeWhile_neq_append_sep:
  "c \<notin> set xs \<Longrightarrow> takeWhile (\<lambda>x. x \<noteq> c) (xs @ c # ys) = xs"
  by (induction xs) auto

lemma dropWhile_neq_append_sep:
  "c \<notin> set xs \<Longrightarrow> dropWhile (\<lambda>x. x \<noteq> c) (xs @ c # ys) = c # ys"
  by (induction xs) auto

lemma takeWhile_neq_all: "c \<notin> set xs \<Longrightarrow> takeWhile (\<lambda>x. x \<noteq> c) xs = xs"
  by (induction xs) auto

lemma dropWhile_neq_all: "c \<notin> set xs \<Longrightarrow> dropWhile (\<lambda>x. x \<noteq> c) xs = []"
  by (induction xs) auto

lemmas sep_simps =
  takeWhile_neq_append_sep dropWhile_neq_append_sep takeWhile_neq_all dropWhile_neq_all

lemma find_Some_iff_mem:
  "List.find P xs = Some x \<Longrightarrow> x \<in> set xs \<and> P x"
  by (induction xs) (auto split: if_splits)

lemma find_None_ball: "List.find P xs = None \<longleftrightarrow> (\<forall>x \<in> set xs. \<not> P x)"
  by (induction xs) auto

lemma find_unique:
  assumes "x \<in> set xs" "P x" and uniq: "\<And>y. y \<in> set xs \<Longrightarrow> P y \<Longrightarrow> y = x"
  shows "List.find P xs = Some x"
proof (cases "List.find P xs")
  case None
  with assms(1,2) show ?thesis by (simp add: find_None_ball)
next
  case (Some y)
  then have "y = x" by (auto dest: find_Some_iff_mem intro: uniq)
  with Some show ?thesis by simp
qed

end
