(* ===== verification/Vfs_Tree.thy ===== *)
theory Vfs_Tree
  imports Prelude
begin

text \<open>
  The node tree of \<open>common/vfs.c\<close>: nodes in an explicit store, allocation, creation,
  \<open>vfs_mkdir_p\<close>, freeing of a subtree, the \<open>vfstree\<close> listing.

  A \<open>struct vfs_node\<close> is the record \<open>vfs_node\<close>. Its \<open>child\<close>/\<open>sibling\<close> chain is
  the list \<open>n_children\<close>, in chain order (the most recently created child first). A table of
  function pointers is a record of optional functions, NULL being \<open>None\<close>; what a file
  operation may change besides its \<open>struct vfs_file\<close> is the environment \<open>env\<close>: the
  allocator and the world (devices, the FatFs library). Nodes get fresh addresses in increasing
  order, as no address is reused by the model.
\<close>

subsection \<open>Data\<close>

datatype vfs_node_type =
  VFS_NODE_UNSPEC | VFS_NODE_REG | VFS_NODE_DIR | VFS_NODE_CHR | VFS_NODE_BLK

record 'w env =
  e_heap :: heap_st
  e_world :: 'w

record 'p vfs_file =
  f_node :: addr
  f_pos :: u64
  f_flags :: u32
  f_private :: "'p option"

text \<open>
  \<open>struct vfs_file_ops\<close>. The second argument of every operation is \<open>file->node->priv\<close>.
  A read returns the bytes it stored in the buffer, so the C return value is their number.
  What an \<open>open\<close> operation changes in the file is \<open>private_data\<close>, whose new value it returns.
\<close>

record ('p, 'w) vfs_file_ops =
  fo_open :: "('w env \<Rightarrow> 'p option \<Rightarrow> 'p vfs_file \<Rightarrow> errno option \<times> 'p option \<times> 'w env) option"
  fo_read :: "('w env \<Rightarrow> 'p option \<Rightarrow> 'p vfs_file \<Rightarrow> u64 \<Rightarrow> (errno + u8 list) \<times> 'w env) option"
  fo_write :: "('w env \<Rightarrow> 'p option \<Rightarrow> 'p vfs_file \<Rightarrow> u8 list \<Rightarrow> (errno + u64) \<times> 'w env) option"
  fo_ioctl :: "('w env \<Rightarrow> 'p option \<Rightarrow> 'p vfs_file \<Rightarrow> u64 \<Rightarrow> 'p option \<Rightarrow> (errno + int) \<times> 'w env) option"
  fo_close :: "('w env \<Rightarrow> 'p option \<Rightarrow> 'p vfs_file \<Rightarrow> errno option \<times> 'w env) option"

record ('p, 'w) vfs_node =
  n_name :: string
  n_type :: vfs_node_type
  n_fops :: "('p, 'w) vfs_file_ops option"
  n_priv :: "'p option"
  n_parent :: "addr option"
  n_children :: "addr list"
  n_mnt :: "addr option"

record ('p, 'w) vfs_tree =
  t_nodes :: "addr \<Rightarrow> ('p, 'w) vfs_node option"
  t_next :: addr
  t_root :: "addr option"
  t_ready :: bool
  t_env :: "'w env"

definition t_malloc :: "('p, 'w) vfs_tree \<Rightarrow> bool \<times> ('p, 'w) vfs_tree" where
  "t_malloc t =
     (case malloc (e_heap (t_env t)) of
        (b, h) \<Rightarrow> (b, t\<lparr>t_env := (t_env t)\<lparr>e_heap := h\<rparr>\<rparr>))"

definition t_free :: "('p, 'w) vfs_tree \<Rightarrow> ('p, 'w) vfs_tree" where
  "t_free t = t\<lparr>t_env := (t_env t)\<lparr>e_heap := mfree (e_heap (t_env t))\<rparr>\<rparr>"

abbreviation t_live :: "('p, 'w) vfs_tree \<Rightarrow> nat" where
  "t_live t \<equiv> h_live (e_heap (t_env t))"

subsection \<open>Lookup of a child and the syntax of names\<close>

definition child_named :: "('p, 'w) vfs_tree \<Rightarrow> string \<Rightarrow> addr \<Rightarrow> bool" where
  "child_named t name c =
     (case t_nodes t c of None \<Rightarrow> False | Some m \<Rightarrow> n_name m = name)"

definition vfs_find_child_by_name :: "('p, 'w) vfs_tree \<Rightarrow> addr option \<Rightarrow> string \<Rightarrow> addr option" where
  "vfs_find_child_by_name t parent name =
     (case Option.bind parent (t_nodes t) of
        None \<Rightarrow> None
      | Some n \<Rightarrow> List.find (child_named t name) (n_children n))"

definition vfs_is_path_valid :: "string option \<Rightarrow> bool" where
  "vfs_is_path_valid path =
     (case path of
        None \<Rightarrow> False
      | Some [] \<Rightarrow> False
      | Some (c # _) \<Rightarrow> c = CHR ''/'')"

definition vfs_name_valid :: "string \<Rightarrow> bool" where
  "vfs_name_valid name \<longleftrightarrow> name \<noteq> [] \<and> CHR ''/'' \<notin> set name"

subsection \<open>Creating nodes\<close>

definition new_node ::
  "string \<Rightarrow> vfs_node_type \<Rightarrow> ('p, 'w) vfs_file_ops option \<Rightarrow> 'p option \<Rightarrow> ('p, 'w) vfs_node" where
  "new_node name type fops priv =
     \<lparr>n_name = name, n_type = type, n_fops = fops, n_priv = priv,
      n_parent = None, n_children = [], n_mnt = None\<rparr>"

text \<open>Two blocks are allocated for a node: the item and the copy of its name.\<close>

definition vfs_alloc_node ::
  "string \<Rightarrow> vfs_node_type \<Rightarrow> ('p, 'w) vfs_file_ops option \<Rightarrow> 'p option \<Rightarrow>
   ('p, 'w) vfs_tree \<Rightarrow> addr option \<times> ('p, 'w) vfs_tree" where
  "vfs_alloc_node name type fops priv t =
     (case t_malloc t of
        (False, t1) \<Rightarrow> (None, t1)
      | (True, t1) \<Rightarrow>
          (case t_malloc t1 of
             (False, t2) \<Rightarrow> (None, t_free t2)
           | (True, t2) \<Rightarrow>
               (Some (t_next t2),
                t2\<lparr>t_nodes := (t_nodes t2)(t_next t2 \<mapsto> new_node name type fops priv),
                   t_next := Suc (t_next t2)\<rparr>)))"

text \<open>Linking a fresh node \<open>c\<close> in front of the children of \<open>p\<close>.\<close>

definition link_child :: "addr \<Rightarrow> addr \<Rightarrow> ('p, 'w) vfs_tree \<Rightarrow> ('p, 'w) vfs_tree" where
  "link_child p c t =
     (case (t_nodes t p, t_nodes t c) of
        (Some pn, Some cn) \<Rightarrow>
          t\<lparr>t_nodes := (t_nodes t)(c \<mapsto> cn\<lparr>n_parent := Some p\<rparr>,
                                    p \<mapsto> pn\<lparr>n_children := c # n_children pn\<rparr>)\<rparr>
      | _ \<Rightarrow> t)"

definition vfs_create_node ::
  "addr option \<Rightarrow> string \<Rightarrow> vfs_node_type \<Rightarrow> ('p, 'w) vfs_file_ops option \<Rightarrow> 'p option \<Rightarrow>
   ('p, 'w) vfs_tree \<Rightarrow> addr option \<times> ('p, 'w) vfs_tree" where
  "vfs_create_node parent name type fops priv t =
     (if \<not> t_ready t \<or> t_root t = None then (None, t)
      else (case parent of
        None \<Rightarrow> (None, t)
      | Some p \<Rightarrow>
          (if \<not> vfs_name_valid name then (None, t)
           else (case t_nodes t p of
             None \<Rightarrow> (None, t)
           | Some pn \<Rightarrow>
               (if n_type pn \<noteq> VFS_NODE_DIR then (None, t)
                else if vfs_find_child_by_name t (Some p) name \<noteq> None then (None, t)
                else if type \<noteq> VFS_NODE_DIR \<and> fops = None then (None, t)
                else
                  (case vfs_alloc_node name type fops priv t of
                     (None, t1) \<Rightarrow> (None, t1)
                   | (Some c, t1) \<Rightarrow> (Some c, link_child p c t1)))))))"

definition vfs_mkdir ::
  "addr option \<Rightarrow> string \<Rightarrow> ('p, 'w) vfs_tree \<Rightarrow> addr option \<times> ('p, 'w) vfs_tree" where
  "vfs_mkdir parent name t = vfs_create_node parent name VFS_NODE_DIR None None t"

definition vfs_mknod ::
  "addr option \<Rightarrow> string \<Rightarrow> vfs_node_type \<Rightarrow> ('p, 'w) vfs_file_ops option \<Rightarrow> 'p option \<Rightarrow>
   ('p, 'w) vfs_tree \<Rightarrow> addr option \<times> ('p, 'w) vfs_tree" where
  "vfs_mknod parent name type fops priv t = vfs_create_node parent name type fops priv t"

definition vfs_alloc_dir_node ::
  "string \<Rightarrow> ('p, 'w) vfs_tree \<Rightarrow> addr option \<times> ('p, 'w) vfs_tree" where
  "vfs_alloc_dir_node name t =
     (if \<not> vfs_name_valid name then (None, t)
      else vfs_alloc_node name VFS_NODE_DIR None None t)"

definition vfs_root :: "('p, 'w) vfs_tree \<Rightarrow> addr option" where
  "vfs_root t = t_root t"

subsection \<open>Creating every directory of a path\<close>

lemma mkdir_p_rest_shorter:
  assumes "dropWhile (\<lambda>c. c = CHR ''/'') p \<noteq> []"
  shows "length (dropWhile (\<lambda>c. c \<noteq> CHR ''/'') (dropWhile (\<lambda>c. c = CHR ''/'') p)) < length p"
proof -
  let ?q = "dropWhile (\<lambda>c. c = CHR ''/'') p"
  obtain x xs where q: "?q = x # xs" using assms by (cases ?q) auto
  then have "x \<noteq> CHR ''/''" by (metis (mono_tags, lifting) dropWhile_eq_Cons_conv)
  then have "length (dropWhile (\<lambda>c. c \<noteq> CHR ''/'') ?q) \<le> length xs"
    using q length_dropWhile_le[of "\<lambda>c. c \<noteq> CHR ''/''" xs] by simp
  also have "\<dots> < length ?q" using q by simp
  also have "\<dots> \<le> length p" by (rule length_dropWhile_le)
  finally show ?thesis .
qed

function mkdir_p_loop ::
  "string \<Rightarrow> addr \<Rightarrow> ('p, 'w) vfs_tree \<Rightarrow> addr option \<times> ('p, 'w) vfs_tree" where
  "mkdir_p_loop p cur t =
     (let p1 = dropWhile (\<lambda>c. c = CHR ''/'') p in
      if p1 = [] then (Some cur, t)
      else
        let seg = takeWhile (\<lambda>c. c \<noteq> CHR ''/'') p1;
            rest = dropWhile (\<lambda>c. c \<noteq> CHR ''/'') p1
        in case t_malloc t of
             (False, t1) \<Rightarrow> (None, t1)
           | (True, t1) \<Rightarrow>
               (case vfs_find_child_by_name t1 (Some cur) seg of
                  Some c \<Rightarrow>
                    (if map_option n_type (t_nodes t1 c) \<noteq> Some VFS_NODE_DIR
                     then (None, t_free t1)
                     else mkdir_p_loop rest c (t_free t1))
                | None \<Rightarrow>
                    (case vfs_mkdir (Some cur) seg t1 of
                       (None, t2) \<Rightarrow> (None, t_free t2)
                     | (Some c, t2) \<Rightarrow> mkdir_p_loop rest c (t_free t2))))"
  by pat_completeness auto

termination
  by (relation "measure (\<lambda>(p, _, _). length p)") (auto simp: mkdir_p_rest_shorter)

declare mkdir_p_loop.simps [simp del]

definition vfs_mkdir_p :: "string option \<Rightarrow> ('p, 'w) vfs_tree \<Rightarrow> addr option \<times> ('p, 'w) vfs_tree" where
  "vfs_mkdir_p path t =
     (if \<not> vfs_is_path_valid path then (None, t)
      else (case vfs_root t of
        None \<Rightarrow> (None, t)
      | Some cur \<Rightarrow> mkdir_p_loop (the path) cur t))"

subsection \<open>Freeing a subtree\<close>

definition free_node :: "addr \<Rightarrow> ('p, 'w) vfs_tree \<Rightarrow> ('p, 'w) vfs_tree" where
  "free_node a t = t_free (t_free (t\<lparr>t_nodes := (t_nodes t)(a := None)\<rparr>))"

text \<open>
  \<open>vfs_free_subtree\<close> frees the children first, then the node. The first argument bounds the
  depth of the recursion; a tree whose children have larger addresses than their parents is
  never deeper than \<open>t_next\<close>.
\<close>

fun free_subtree_upto :: "nat \<Rightarrow> addr \<Rightarrow> ('p, 'w) vfs_tree \<Rightarrow> ('p, 'w) vfs_tree" where
  "free_subtree_upto 0 a t = t"
| "free_subtree_upto (Suc k) a t =
     (case t_nodes t a of
        None \<Rightarrow> t
      | Some n \<Rightarrow> free_node a (fold (free_subtree_upto k) (n_children n) t))"

definition vfs_free_subtree :: "addr option \<Rightarrow> ('p, 'w) vfs_tree \<Rightarrow> ('p, 'w) vfs_tree" where
  "vfs_free_subtree node t =
     (case node of None \<Rightarrow> t | Some a \<Rightarrow> free_subtree_upto (t_next t) a t)"

subsection \<open>Walking towards the root\<close>

text \<open>
  \<open>vfs_node_under_root\<close> follows the parent links; its first argument bounds the number of
  links. Parents have smaller addresses, so \<open>Suc node\<close> is enough.
\<close>

fun under_root_upto :: "nat \<Rightarrow> ('p, 'w) vfs_tree \<Rightarrow> addr option \<Rightarrow> addr option \<Rightarrow> bool" where
  "under_root_upto 0 t node root = False"
| "under_root_upto (Suc k) t node root =
     (case node of
        None \<Rightarrow> False
      | Some a \<Rightarrow>
          if node = root then True
          else under_root_upto k t (Option.bind (t_nodes t a) n_parent) root)"

definition vfs_node_under_root :: "('p, 'w) vfs_tree \<Rightarrow> addr \<Rightarrow> addr option \<Rightarrow> bool" where
  "vfs_node_under_root t node root = under_root_upto (Suc (Suc node)) t (Some node) root"

definition vfs_child_count :: "('p, 'w) vfs_tree \<Rightarrow> addr \<Rightarrow> nat" where
  "vfs_child_count t a = (case t_nodes t a of None \<Rightarrow> 0 | Some n \<Rightarrow> length (n_children n))"

end
