(* ===== verification/Vfs.thy ===== *)
theory Vfs
  imports Vfs_Tree
begin

text \<open>
  The operations of \<open>common/vfs.c\<close> on the whole state: path resolution across mounts,
  \<open>vfs_unlink\<close>, the file descriptor table and the file operations, registration of
  filesystem types, mounting and unmounting, and the shell commands \<open>vfstree\<close>, \<open>ls\<close> and
  \<open>cat\<close> (their output is a list of printed strings).

  The callbacks of a filesystem type only see the node tree and their own mount: they never
  call \<open>vfs_mount\<close>, \<open>vfs_open\<close> or another function on the global tables, which is why they
  are functions on \<open>vfs_tree\<close> stored in the state, as the C pointers are.
\<close>

subsection \<open>State\<close>

record ('p, 'w) vfs_super_ops =
  so_lookup :: "(('p, 'w) vfs_tree \<Rightarrow> 'p option \<Rightarrow> addr \<Rightarrow> string \<Rightarrow> addr option \<times> ('p, 'w) vfs_tree) option"
  so_iterate :: "(('p, 'w) vfs_tree \<Rightarrow> 'p option \<Rightarrow> addr \<Rightarrow> errno option \<times> ('p, 'w) vfs_tree) option"
  so_umount :: "(('p, 'w) vfs_tree \<Rightarrow> 'p option \<Rightarrow> errno option \<times> ('p, 'w) vfs_tree) option"

record ('p, 'w) vfs_mount =
  m_mountpoint :: addr
  m_root :: "addr option"
  m_type :: "string option"
  m_sops :: "('p, 'w) vfs_super_ops option"
  m_priv :: "'p option"

type_synonym ('p, 'w) mount_fun =
  "('p, 'w) vfs_tree \<Rightarrow> ('p, 'w) vfs_mount \<Rightarrow> string option \<Rightarrow> 'p option \<Rightarrow>
   errno option \<times> ('p, 'w) vfs_mount \<times> ('p, 'w) vfs_tree"

record ('p, 'w) vfs_fs_type =
  fs_name :: "string option"
  fs_flags :: u32
  fs_mount :: "('p, 'w) mount_fun option"

record ('p, 'w) vfs =
  v_tree :: "('p, 'w) vfs_tree"
  v_mounts :: "addr \<Rightarrow> ('p, 'w) vfs_mount option"
  v_next_mnt :: addr
  v_files :: "(int \<times> 'p vfs_file) list"
  v_fs_types :: "('p, 'w) vfs_fs_type list"
  v_next_fd :: int

definition VFS_FS_REQUIRES_DEV :: u32 where
  "VFS_FS_REQUIRES_DEV = push_bit 0 1"

abbreviation v_node :: "('p, 'w) vfs \<Rightarrow> addr \<Rightarrow> ('p, 'w) vfs_node option" where
  "v_node v a \<equiv> t_nodes (v_tree v) a"

definition v_malloc :: "('p, 'w) vfs \<Rightarrow> bool \<times> ('p, 'w) vfs" where
  "v_malloc v = (case t_malloc (v_tree v) of (b, t) \<Rightarrow> (b, v\<lparr>v_tree := t\<rparr>))"

definition v_mfree :: "('p, 'w) vfs \<Rightarrow> ('p, 'w) vfs" where
  "v_mfree v = v\<lparr>v_tree := t_free (v_tree v)\<rparr>"

subsection \<open>Path resolution\<close>

text \<open>
  \<open>vfs_follow_mount_mnt\<close>: from a covered directory to the root of what is mounted on it, as
  long as there is a mount. The fuel bounds the number of mounts crossed in a row.
\<close>

fun follow_mount_upto ::
  "nat \<Rightarrow> ('p, 'w) vfs \<Rightarrow> addr option \<Rightarrow> addr option \<Rightarrow> addr option \<times> addr option" where
  "follow_mount_upto 0 v node mnt = (node, mnt)"
| "follow_mount_upto (Suc k) v node mnt =
     (case Option.bind node (v_node v) of
        None \<Rightarrow> (node, mnt)
      | Some n \<Rightarrow>
          (case n_mnt n of
             None \<Rightarrow> (node, mnt)
           | Some m \<Rightarrow> follow_mount_upto k v (Option.bind (v_mounts v m) m_root) (Some m)))"

definition vfs_follow_mount_mnt ::
  "('p, 'w) vfs \<Rightarrow> addr option \<Rightarrow> addr option \<Rightarrow> addr option \<times> addr option" where
  "vfs_follow_mount_mnt v node mnt = follow_mount_upto (Suc (v_next_mnt v)) v node mnt"

definition vfs_follow_mount :: "('p, 'w) vfs \<Rightarrow> addr option \<Rightarrow> addr option" where
  "vfs_follow_mount v node = fst (vfs_follow_mount_mnt v node None)"

text \<open>The on-demand lookup of the mounted filesystem, when it has one.\<close>

definition sops_lookup ::
  "('p, 'w) vfs \<Rightarrow> addr option \<Rightarrow> addr option \<Rightarrow> string \<Rightarrow> addr option \<times> ('p, 'w) vfs" where
  "sops_lookup v mnt dir name =
     (case (Option.bind mnt (v_mounts v), dir) of
        (Some m, Some d) \<Rightarrow>
          (case Option.bind (m_sops m) so_lookup of
             Some f \<Rightarrow> (case f (v_tree v) (m_priv m) d name of (r, t) \<Rightarrow> (r, v\<lparr>v_tree := t\<rparr>))
           | None \<Rightarrow> (None, v))
      | _ \<Rightarrow> (None, v))"

definition find_or_lookup ::
  "('p, 'w) vfs \<Rightarrow> addr option \<Rightarrow> addr option \<Rightarrow> string \<Rightarrow> addr option \<times> ('p, 'w) vfs" where
  "find_or_lookup v mnt cur name =
     (case vfs_find_child_by_name (v_tree v) cur name of
        Some c \<Rightarrow> (Some c, v)
      | None \<Rightarrow> sops_lookup v mnt cur name)"

function lookup_walk ::
  "string \<Rightarrow> bool \<Rightarrow> addr option \<Rightarrow> addr option \<Rightarrow> ('p, 'w) vfs \<Rightarrow>
   (addr option \<times> addr option) \<times> ('p, 'w) vfs" where
  "lookup_walk cursor follow_last cur mnt v =
     (if cursor = [] then ((cur, mnt), v)
      else
        let seg = takeWhile (\<lambda>c. c \<noteq> CHR ''/'') cursor;
            slash = dropWhile (\<lambda>c. c \<noteq> CHR ''/'') cursor;
            last = (slash = [] \<or> tl slash = [])
        in if seg = [] then ((None, None), v)
           else case v_malloc v of
             (False, v1) \<Rightarrow> ((None, None), v1)
           | (True, v1) \<Rightarrow>
               (case find_or_lookup v1 mnt cur seg of
                  (None, v2) \<Rightarrow> ((None, None), v_mfree v2)
                | (Some c, v2) \<Rightarrow>
                    (let v3 = v_mfree v2 in
                     if last
                     then (if follow_last
                           then (vfs_follow_mount_mnt v3 (Some c) mnt, v3)
                           else ((Some c, mnt), v3))
                     else (case vfs_follow_mount_mnt v3 (Some c) mnt of
                             (cur', mnt') \<Rightarrow> lookup_walk (tl slash) follow_last cur' mnt' v3))))"
  by pat_completeness auto

termination
  by (relation "measure (\<lambda>(cursor, _). length cursor)") (auto simp: length_dropWhile_less simp del: length_tl)

declare lookup_walk.simps [simp del]

definition vfs_lookup_node_ex ::
  "('p, 'w) vfs \<Rightarrow> string \<Rightarrow> bool \<Rightarrow> (addr option \<times> addr option) \<times> ('p, 'w) vfs" where
  "vfs_lookup_node_ex v path follow_last =
     (case t_root (v_tree v) of
        None \<Rightarrow> ((None, None), v)
      | Some r \<Rightarrow>
          (if path = ''/''
           then ((if follow_last then vfs_follow_mount_mnt v (Some r) None else (Some r, None)), v)
           else (case vfs_follow_mount_mnt v (Some r) None of
                   (cur, mnt) \<Rightarrow> lookup_walk (tl path) follow_last cur mnt v)))"

definition vfs_lookup :: "('p, 'w) vfs \<Rightarrow> string option \<Rightarrow> addr option \<times> ('p, 'w) vfs" where
  "vfs_lookup v path =
     (if \<not> vfs_is_path_valid path then (None, v)
      else case vfs_lookup_node_ex v (the path) True of ((node, _), v') \<Rightarrow> (node, v'))"

subsection \<open>Removing a node\<close>

definition chain_remove :: "addr \<Rightarrow> addr \<Rightarrow> ('p, 'w) vfs_tree \<Rightarrow> ('p, 'w) vfs_tree" where
  "chain_remove q c t =
     t\<lparr>t_nodes := (t_nodes t)(q := map_option (n_children_update (remove1 c)) (t_nodes t q))\<rparr>"

text \<open>The part of \<open>vfs_unlink\<close> after the child has been found.\<close>

definition unlink_child :: "('p, 'w) vfs \<Rightarrow> addr \<Rightarrow> errno option \<times> ('p, 'w) vfs" where
  "unlink_child v c =
     (case v_node v c of
        None \<Rightarrow> (Some ENOENT, v)
      | Some cn \<Rightarrow>
        (if n_children cn \<noteq> [] then (Some ENOTEMPTY, v)
         else if \<exists>(fd, f) \<in> set (v_files v). f_node f = c then (Some EBUSY, v)
         else (case n_parent cn of
            None \<Rightarrow> (Some EINVAL, v)
          | Some q \<Rightarrow>
            (case v_node v q of
               None \<Rightarrow> (Some ENOENT, v)
             | Some qn \<Rightarrow>
               (if c \<notin> set (n_children qn) then (Some ENOENT, v)
                else (None, v\<lparr>v_tree := free_node c (chain_remove q c (v_tree v))\<rparr>))))))"

definition vfs_unlink ::
  "('p, 'w) vfs \<Rightarrow> addr option \<Rightarrow> string \<Rightarrow> errno option \<times> ('p, 'w) vfs" where
  "vfs_unlink v parent name =
     (case Option.bind parent (v_node v) of
        None \<Rightarrow> (Some EINVAL, v)
      | Some pn \<Rightarrow>
        (if \<not> vfs_name_valid name then (Some EINVAL, v)
         else if n_type pn \<noteq> VFS_NODE_DIR then (Some ENOTDIR, v)
         else (case vfs_find_child_by_name (v_tree v) parent name of
            None \<Rightarrow> (Some ENOENT, v)
          | Some c \<Rightarrow> unlink_child v c)))"

subsection \<open>File descriptors\<close>

definition INT_MAX :: int where
  "INT_MAX = 2147483647"

text \<open>\<open>vfs_next_fd++\<close> and the reset to 0 when the counter turned negative.\<close>

definition bump_fd :: "int \<Rightarrow> int" where
  "bump_fd fd = (if fd = INT_MAX then 0 else fd + 1)"

definition vfs_find_file :: "('p, 'w) vfs \<Rightarrow> int \<Rightarrow> 'p vfs_file option" where
  "vfs_find_file v fd = map_of (v_files v) fd"

text \<open>
  The search loop of \<open>vfs_alloc_fd\<close>: the result and the new \<open>vfs_next_fd\<close>. The loop runs once
  around all non-negative fds; it stops at the first free one, so one step more than there are
  open files is as good as the full circle (\<open>alloc_fd_loop_finds\<close> in \<open>Vfs_Contracts\<close>).
\<close>

fun alloc_fd_loop :: "nat \<Rightarrow> ('p, 'w) vfs \<Rightarrow> int \<Rightarrow> int \<Rightarrow> int option \<times> int" where
  "alloc_fd_loop 0 v start_fd next = (None, next)"
| "alloc_fd_loop (Suc k) v start_fd next =
     (if vfs_find_file v next = None then (Some next, bump_fd next)
      else if bump_fd next = start_fd then (None, bump_fd next)
      else alloc_fd_loop k v start_fd (bump_fd next))"

definition vfs_alloc_fd :: "('p, 'w) vfs \<Rightarrow> (errno + int) \<times> ('p, 'w) vfs" where
  "vfs_alloc_fd v =
     (let start_fd = (if v_next_fd v < 0 then 0 else v_next_fd v) in
      case alloc_fd_loop (Suc (length (v_files v))) v start_fd start_fd of
        (Some fd, next) \<Rightarrow> (Inr fd, v\<lparr>v_next_fd := next\<rparr>)
      | (None, next) \<Rightarrow> (Inl EMFILE, v\<lparr>v_next_fd := next\<rparr>))"

definition new_file :: "addr \<Rightarrow> u32 \<Rightarrow> 'p option \<Rightarrow> 'p vfs_file" where
  "new_file node flags priv = \<lparr>f_node = node, f_pos = 0, f_flags = flags, f_private = priv\<rparr>"

definition set_env :: "('p, 'w) vfs \<Rightarrow> 'w env \<Rightarrow> ('p, 'w) vfs" where
  "set_env v e = v\<lparr>v_tree := (v_tree v)\<lparr>t_env := e\<rparr>\<rparr>"

abbreviation v_env :: "('p, 'w) vfs \<Rightarrow> 'w env" where
  "v_env v \<equiv> t_env (v_tree v)"

definition call_open ::
  "('p, 'w) vfs_node \<Rightarrow> 'p vfs_file \<Rightarrow> ('p, 'w) vfs \<Rightarrow> errno option \<times> 'p vfs_file \<times> ('p, 'w) vfs" where
  "call_open n file v =
     (case Option.bind (n_fops n) fo_open of
        None \<Rightarrow> (None, file, v)
      | Some f \<Rightarrow> (case f (v_env v) (n_priv n) file of
                       (r, priv, e) \<Rightarrow> (r, file\<lparr>f_private := priv\<rparr>, set_env v e)))"

definition vfs_open :: "('p, 'w) vfs \<Rightarrow> string option \<Rightarrow> u32 \<Rightarrow> (errno + int) \<times> ('p, 'w) vfs" where
  "vfs_open v path flags =
     (case vfs_lookup v path of
        (None, v1) \<Rightarrow> (Inl ENOENT, v1)
      | (Some a, v1) \<Rightarrow>
        (case v_node v1 a of
           None \<Rightarrow> (Inl ENOENT, v1)
         | Some n \<Rightarrow>
           (if n_type n = VFS_NODE_DIR then (Inl EISDIR, v1)
            else (case vfs_alloc_fd v1 of
              (Inl e, v2) \<Rightarrow> (Inl e, v2)
            | (Inr fd, v2) \<Rightarrow>
              (case v_malloc v2 of
                 (False, v3) \<Rightarrow> (Inl ENOMEM, v3)
               | (True, v3) \<Rightarrow>
                 (case call_open n (new_file a flags (n_priv n)) v3 of
                    (Some e, _, v4) \<Rightarrow> (Inl e, v_mfree v4)
                  | (None, file, v4) \<Rightarrow>
                      (Inr fd, v4\<lparr>v_files := (fd, file) # v_files v4\<rparr>)))))))"

text \<open>Changing the entry of one fd, in place.\<close>

definition set_file :: "int \<Rightarrow> 'p vfs_file \<Rightarrow> ('p, 'w) vfs \<Rightarrow> ('p, 'w) vfs" where
  "set_file fd file v =
     v\<lparr>v_files := map (\<lambda>(k, f). if k = fd then (k, file) else (k, f)) (v_files v)\<rparr>"

text \<open>The node of an open file and its operations table, \<open>file->node->fops\<close>.\<close>

definition file_op ::
  "('p, 'w) vfs \<Rightarrow> 'p vfs_file \<Rightarrow> (('p, 'w) vfs_file_ops \<Rightarrow> 'f option) \<Rightarrow> ('p option \<times> 'f) option" where
  "file_op v file sel =
     (case v_node v (f_node file) of
        None \<Rightarrow> None
      | Some n \<Rightarrow> map_option (Pair (n_priv n)) (Option.bind (n_fops n) sel))"

definition vfs_read :: "('p, 'w) vfs \<Rightarrow> int \<Rightarrow> bool \<Rightarrow> u64 \<Rightarrow> (errno + u8 list) \<times> ('p, 'w) vfs" where
  "vfs_read v fd buf_null len =
     (case vfs_find_file v fd of
        None \<Rightarrow> (Inl EBADF, v)
      | Some file \<Rightarrow>
        (if buf_null \<and> len \<noteq> 0 then (Inl EINVAL, v)
         else (case file_op v file fo_read of
           None \<Rightarrow> (Inl ENOSYS, v)
         | Some (priv, f) \<Rightarrow>
           (case f (v_env v) priv file len of
              (Inl e, env) \<Rightarrow> (Inl e, set_env v env)
            | (Inr bs, env) \<Rightarrow>
                (Inr bs, set_file fd (file\<lparr>f_pos := f_pos file + of_nat (length bs)\<rparr>)
                           (set_env v env))))))"

definition vfs_write ::
  "('p, 'w) vfs \<Rightarrow> int \<Rightarrow> u8 list option \<Rightarrow> u64 \<Rightarrow> (errno + u64) \<times> ('p, 'w) vfs" where
  "vfs_write v fd buf len =
     (case vfs_find_file v fd of
        None \<Rightarrow> (Inl EBADF, v)
      | Some file \<Rightarrow>
        (if buf = None \<and> len \<noteq> 0 then (Inl EINVAL, v)
         else (case file_op v file fo_write of
           None \<Rightarrow> (Inl ENOSYS, v)
         | Some (priv, f) \<Rightarrow>
           (case f (v_env v) priv file (case buf of None \<Rightarrow> [] | Some bs \<Rightarrow> take (unat len) bs) of
              (Inl e, env) \<Rightarrow> (Inl e, set_env v env)
            | (Inr ret, env) \<Rightarrow>
                (Inr ret, set_file fd (file\<lparr>f_pos := f_pos file + ret\<rparr>) (set_env v env))))))"

definition SEEK_SET :: int where "SEEK_SET = 0"
definition SEEK_CUR :: int where "SEEK_CUR = 1"
definition SEEK_END :: int where "SEEK_END = 2"

text \<open>\<open>off_t\<close> is a signed 64-bit integer: the offset is a word whose sign bit is its sign.\<close>

definition vfs_lseek :: "('p, 'w) vfs \<Rightarrow> int \<Rightarrow> u64 \<Rightarrow> int \<Rightarrow> (errno + u64) \<times> ('p, 'w) vfs" where
  "vfs_lseek v fd off whence =
     (case vfs_find_file v fd of
        None \<Rightarrow> (Inl EBADF, v)
      | Some file \<Rightarrow>
        (if whence \<noteq> SEEK_SET \<and> whence \<noteq> SEEK_CUR
         then (Inl (if whence = SEEK_END then ENOSYS else EINVAL), v)
         else
           (let base = (if whence = SEEK_SET then 0 else f_pos file);
                npos = base + off
            in if npos <s 0 then (Inl EINVAL, v)
               else (Inr npos, set_file fd (file\<lparr>f_pos := npos\<rparr>) v))))"

definition vfs_ioctl ::
  "('p, 'w) vfs \<Rightarrow> int \<Rightarrow> u64 \<Rightarrow> 'p option \<Rightarrow> (errno + int) \<times> ('p, 'w) vfs" where
  "vfs_ioctl v fd cmd arg =
     (case vfs_find_file v fd of
        None \<Rightarrow> (Inl EBADF, v)
      | Some file \<Rightarrow>
        (case file_op v file fo_ioctl of
           None \<Rightarrow> (Inl ENOSYS, v)
         | Some (priv, f) \<Rightarrow>
             (case f (v_env v) priv file cmd arg of (r, env) \<Rightarrow> (r, set_env v env))))"

text \<open>Unlinking the first entry of an fd.\<close>

fun remove_fd :: "int \<Rightarrow> (int \<times> 'p vfs_file) list \<Rightarrow> (int \<times> 'p vfs_file) list" where
  "remove_fd fd [] = []"
| "remove_fd fd ((k, f) # fs) = (if k = fd then fs else (k, f) # remove_fd fd fs)"

definition vfs_close :: "('p, 'w) vfs \<Rightarrow> int \<Rightarrow> errno option \<times> ('p, 'w) vfs" where
  "vfs_close v fd =
     (case vfs_find_file v fd of
        None \<Rightarrow> (Some EBADF, v)
      | Some file \<Rightarrow>
        (case (case file_op v file fo_close of
                 None \<Rightarrow> (None, v_env v)
               | Some (priv, f) \<Rightarrow> f (v_env v) priv file) of
           (ret, env) \<Rightarrow>
             (ret, v_mfree ((set_env v env)\<lparr>v_files := remove_fd fd (v_files v)\<rparr>))))"

subsection \<open>Filesystem types and mounting\<close>

definition vfs_find_filesystem :: "('p, 'w) vfs \<Rightarrow> string \<Rightarrow> ('p, 'w) vfs_fs_type option" where
  "vfs_find_filesystem v name = List.find (\<lambda>ty. fs_name ty = Some name) (v_fs_types v)"

definition vfs_register_filesystem ::
  "('p, 'w) vfs \<Rightarrow> ('p, 'w) vfs_fs_type option \<Rightarrow> errno option \<times> ('p, 'w) vfs" where
  "vfs_register_filesystem v type =
     (case type of
        None \<Rightarrow> (Some EINVAL, v)
      | Some ty \<Rightarrow>
        (case (fs_name ty, fs_mount ty) of
           (Some name, Some _) \<Rightarrow>
             (if vfs_find_filesystem v name \<noteq> None then (Some EEXIST, v)
              else (None, v\<lparr>v_fs_types := ty # v_fs_types v\<rparr>))
         | _ \<Rightarrow> (Some EINVAL, v)))"

definition new_mount :: "addr \<Rightarrow> ('p, 'w) vfs_fs_type \<Rightarrow> ('p, 'w) vfs_mount" where
  "new_mount mp ty =
     \<lparr>m_mountpoint = mp, m_root = None, m_type = fs_name ty, m_sops = None, m_priv = None\<rparr>"

text \<open>\<open>mp->mnt = mnt\<close>, the mount object being stored at a fresh address.\<close>

definition attach_mount :: "addr \<Rightarrow> ('p, 'w) vfs_mount \<Rightarrow> ('p, 'w) vfs \<Rightarrow> ('p, 'w) vfs" where
  "attach_mount mp mnt v =
     (let m = v_next_mnt v; t = v_tree v in
      v\<lparr>v_tree := t\<lparr>t_nodes := (t_nodes t)(mp := map_option (n_mnt_update (\<lambda>_. Some m)) (t_nodes t mp))\<rparr>,
        v_mounts := (v_mounts v)(m \<mapsto> mnt),
        v_next_mnt := Suc m\<rparr>)"

definition vfs_try_mount ::
  "addr \<Rightarrow> ('p, 'w) vfs_fs_type \<Rightarrow> string option \<Rightarrow> 'p option \<Rightarrow> ('p, 'w) vfs \<Rightarrow>
   errno option \<times> ('p, 'w) vfs" where
  "vfs_try_mount mp ty source data v =
     (case v_malloc v of
        (False, v1) \<Rightarrow> (Some ENOMEM, v1)
      | (True, v1) \<Rightarrow>
        (case fs_mount ty of
           None \<Rightarrow> (Some EINVAL, v_mfree v1)
         | Some f \<Rightarrow>
           (case f (v_tree v1) (new_mount mp ty) source data of
              (Some e, _, t) \<Rightarrow> (Some e, v_mfree (v1\<lparr>v_tree := t\<rparr>))
            | (None, mnt, t) \<Rightarrow>
                (if m_root mnt = None then (Some EINVAL, v_mfree (v1\<lparr>v_tree := t\<rparr>))
                 else (None, attach_mount mp mnt (v1\<lparr>v_tree := t\<rparr>))))))"

text \<open>The auto-detection loop over the registered types.\<close>

fun try_types ::
  "addr \<Rightarrow> ('p, 'w) vfs_fs_type list \<Rightarrow> string option \<Rightarrow> 'p option \<Rightarrow> ('p, 'w) vfs \<Rightarrow>
   errno option \<times> ('p, 'w) vfs" where
  "try_types mp [] source data v = (Some ENODEV, v)"
| "try_types mp (ty # tys) source data v =
     (if fs_flags ty AND VFS_FS_REQUIRES_DEV = 0 then try_types mp tys source data v
      else case vfs_try_mount mp ty source data v of
             (None, v') \<Rightarrow> (None, v')
           | (Some _, v') \<Rightarrow> try_types mp tys source data v')"

definition vfs_mount ::
  "('p, 'w) vfs \<Rightarrow> string option \<Rightarrow> string option \<Rightarrow> string option \<Rightarrow> 'p option \<Rightarrow>
   errno option \<times> ('p, 'w) vfs" where
  "vfs_mount v source target fstype data =
     (if \<not> vfs_is_path_valid target then (Some EINVAL, v)
      else case vfs_lookup_node_ex v (the target) False of
        ((None, _), v1) \<Rightarrow> (Some ENOENT, v1)
      | ((Some mp, _), v1) \<Rightarrow>
        (case v_node v1 mp of
           None \<Rightarrow> (Some ENOENT, v1)
         | Some n \<Rightarrow>
           (if n_type n \<noteq> VFS_NODE_DIR then (Some ENOTDIR, v1)
            else if n_mnt n \<noteq> None then (Some EBUSY, v1)
            else (case fstype of
              Some name \<Rightarrow>
                (case vfs_find_filesystem v1 name of
                   None \<Rightarrow> (Some ENODEV, v1)
                 | Some ty \<Rightarrow> vfs_try_mount mp ty source data v1)
            | None \<Rightarrow> try_types mp (v_fs_types v1) source data v1))))"

definition clear_mnt :: "addr \<Rightarrow> ('p, 'w) vfs_tree \<Rightarrow> ('p, 'w) vfs_tree" where
  "clear_mnt mp t =
     t\<lparr>t_nodes := (t_nodes t)(mp := map_option (n_mnt_update (\<lambda>_. None)) (t_nodes t mp))\<rparr>"

definition vfs_umount :: "('p, 'w) vfs \<Rightarrow> string option \<Rightarrow> errno option \<times> ('p, 'w) vfs" where
  "vfs_umount v target =
     (if \<not> vfs_is_path_valid target then (Some EINVAL, v)
      else case vfs_lookup_node_ex v (the target) False of
        ((None, _), v1) \<Rightarrow> (Some ENOENT, v1)
      | ((Some mp, _), v1) \<Rightarrow>
        (case Option.bind (v_node v1 mp) n_mnt of
           None \<Rightarrow> (Some EINVAL, v1)
         | Some m \<Rightarrow>
           (case v_mounts v1 m of
              None \<Rightarrow> (Some EINVAL, v1)
            | Some mnt \<Rightarrow>
              (if \<exists>(fd, f) \<in> set (v_files v1). vfs_node_under_root (v_tree v1) (f_node f) (m_root mnt)
               then (Some EBUSY, v1)
               else
                (let t1 = (case Option.bind (m_sops mnt) so_umount of
                             None \<Rightarrow> v_tree v1
                           | Some f \<Rightarrow> snd (f (v_tree v1) (m_priv mnt)));
                     t2 = vfs_free_subtree (m_root mnt) (clear_mnt mp t1)
                 in (None, v_mfree (v1\<lparr>v_tree := t2, v_mounts := (v_mounts v1)(m := None)\<rparr>)))))))"

subsection \<open>Initialisation\<close>

text \<open>
  \<open>vfs_init\<close> frees what an earlier call built. The file list is replaced only at the end, so
  after a failed allocation \<open>vfs_file_head\<close> still points to the freed entries: the model
  leaves them in \<open>v_files\<close>. The name of the root is stored without the check that created
  nodes undergo.
\<close>

definition free_files :: "('p, 'w) vfs \<Rightarrow> ('p, 'w) vfs" where
  "free_files v = fold (\<lambda>_ v. v_mfree v) (v_files v) v"

definition vfs_init :: "('p, 'w) vfs \<Rightarrow> errno option \<times> ('p, 'w) vfs" where
  "vfs_init v =
     (let v1 = v\<lparr>v_tree := (vfs_free_subtree (t_root (v_tree v)) (v_tree v))\<lparr>t_root := None\<rparr>\<rparr>;
          v2 = free_files v1
      in case vfs_alloc_node ''/'' VFS_NODE_DIR None None (v_tree v2) of
           (None, t) \<Rightarrow> (Some ENOMEM, v2\<lparr>v_tree := t\<rparr>)
         | (Some r, t) \<Rightarrow>
             (None, v2\<lparr>v_tree := t\<lparr>t_root := Some r, t_ready := True\<rparr>,
                       v_files := [], v_next_fd := 0\<rparr>))"

text \<open>The static variables before \<open>vfs_init\<close> runs.\<close>

definition vfs_boot :: "'w env \<Rightarrow> ('p, 'w) vfs" where
  "vfs_boot e =
     \<lparr>v_tree = \<lparr>t_nodes = (\<lambda>_. None), t_next = 0, t_root = None, t_ready = False, t_env = e\<rparr>,
      v_mounts = (\<lambda>_. None), v_next_mnt = 0, v_files = [], v_fs_types = [], v_next_fd = 0\<rparr>"

end
