(* ===== verification/Vfs_Inv.thy ===== *)
theory Vfs_Inv
  imports Vfs
begin

text \<open>
  Well-formedness of the node tree and its preservation.

  \<open>nodes_inv\<close> relates the pointers: a child names its parent, a parent lists its child once,
  names of siblings differ, only directories have children, and a child is younger than its
  parent (so there is no cycle). \<open>tree_ext t t'\<close> says that \<open>t'\<close> only has nodes added: this is
  all a filesystem callback does to the tree. The descendants of a node, \<open>desc\<close>, are the
  specification of \<open>vfs_free_subtree\<close> and of \<open>vfs_node_under_root\<close>.
\<close>

named_theorems tree_simps

type_synonym ('p, 'w) nodes = "addr \<Rightarrow> ('p, 'w) vfs_node option"

subsection \<open>The invariant of the tree\<close>

definition name_at :: "('p, 'w) nodes \<Rightarrow> addr \<Rightarrow> string option" where
  "name_at N c = map_option n_name (N c)"

definition node_ok :: "('p, 'w) nodes \<Rightarrow> addr \<Rightarrow> addr \<Rightarrow> ('p, 'w) vfs_node \<Rightarrow> bool" where
  "node_ok N nxt a n \<longleftrightarrow>
     a < nxt \<and> distinct (n_children n) \<and>
     (\<forall>c \<in> set (n_children n). a < c \<and> (\<exists>m. N c = Some m \<and> n_parent m = Some a)) \<and>
     (\<forall>p. n_parent n = Some p \<longrightarrow> (\<exists>q. N p = Some q \<and> a \<in> set (n_children q))) \<and>
     inj_on (name_at N) (set (n_children n)) \<and>
     (n_children n \<noteq> [] \<longrightarrow> n_type n = VFS_NODE_DIR) \<and>
     (n_parent n \<noteq> None \<longrightarrow> vfs_name_valid (n_name n)) \<and>
     (n_type n \<noteq> VFS_NODE_DIR \<longrightarrow> n_fops n \<noteq> None)"

definition nodes_inv :: "('p, 'w) nodes \<Rightarrow> addr \<Rightarrow> bool" where
  "nodes_inv N nxt \<longleftrightarrow> (\<forall>a n. N a = Some n \<longrightarrow> node_ok N nxt a n)"

definition root_ok :: "('p, 'w) nodes \<Rightarrow> addr option \<Rightarrow> bool" where
  "root_ok N r \<longleftrightarrow>
     (\<forall>a. r = Some a \<longrightarrow>
        (\<exists>n. N a = Some n \<and> n_parent n = None \<and> n_type n = VFS_NODE_DIR))"

definition tree_inv :: "('p, 'w) vfs_tree \<Rightarrow> bool" where
  "tree_inv t \<longleftrightarrow> nodes_inv (t_nodes t) (t_next t) \<and> root_ok (t_nodes t) (t_root t)"

lemma nodes_invD: "nodes_inv N nxt \<Longrightarrow> N a = Some n \<Longrightarrow> node_ok N nxt a n"
  by (simp add: nodes_inv_def)

lemma tree_invD:
  assumes "tree_inv t" "t_nodes t a = Some n"
  shows "node_ok (t_nodes t) (t_next t) a n"
  using assms by (simp add: tree_inv_def nodes_inv_def)

lemma node_ok_child:
  assumes "node_ok N nxt a n" "c \<in> set (n_children n)"
  shows "a < c" "\<exists>m. N c = Some m \<and> n_parent m = Some a"
  using assms by (auto simp: node_ok_def)

lemma tree_inv_rootD:
  assumes "tree_inv t" "t_root t = Some r"
  obtains n where "t_nodes t r = Some n" "n_parent n = None" "n_type n = VFS_NODE_DIR"
  using assms by (auto simp: tree_inv_def root_ok_def)

lemma parent_less:
  assumes "nodes_inv N nxt" "N a = Some n" "n_parent n = Some p"
  shows "p < a" "\<exists>q. N p = Some q \<and> a \<in> set (n_children q)"
proof -
  from nodes_invD[OF assms(1,2)] assms(3)
  obtain q where q: "N p = Some q" "a \<in> set (n_children q)"
    by (auto simp: node_ok_def)
  with node_ok_child(1)[OF nodes_invD[OF assms(1) q(1)] q(2)]
  show "p < a" "\<exists>q. N p = Some q \<and> a \<in> set (n_children q)" by auto
qed

subsection \<open>The allocator leaves the tree alone\<close>

lemma t_malloc_frame [tree_simps]:
  assumes "t_malloc t = (b, t')"
  shows "t_nodes t' = t_nodes t" "t_next t' = t_next t" "t_root t' = t_root t"
    "t_ready t' = t_ready t" "e_world (t_env t') = e_world (t_env t)"
  using assms by (auto simp: t_malloc_def split: prod.splits)

lemma t_free_frame [simp]:
  "t_nodes (t_free t) = t_nodes t" "t_next (t_free t) = t_next t"
  "t_root (t_free t) = t_root t" "t_ready (t_free t) = t_ready t"
  by (auto simp: t_free_def)

lemma tree_inv_cong:
  "t_nodes t' = t_nodes t \<Longrightarrow> t_next t' = t_next t \<Longrightarrow> t_root t' = t_root t \<Longrightarrow>
   tree_inv t' = tree_inv t"
  by (simp add: tree_inv_def)

lemma tree_inv_free [simp]: "tree_inv (t_free t) = tree_inv t"
  by (rule tree_inv_cong) simp_all

lemma t_malloc_True_live: "t_malloc t = (True, t') \<Longrightarrow> t_live t' = Suc (t_live t)"
  by (auto simp: t_malloc_def heap_simps split: prod.splits)

lemma t_malloc_False_live: "t_malloc t = (False, t') \<Longrightarrow> t_live t' = t_live t"
  by (auto simp: t_malloc_def heap_simps split: prod.splits)

lemma t_free_live: "t_live (t_free t) = t_live t - 1"
  by (simp add: t_free_def heap_simps)

lemmas live_simps = t_malloc_True_live t_malloc_False_live t_free_live

subsection \<open>Extension of a tree\<close>

definition node_ext :: "('p, 'w) vfs_node \<Rightarrow> ('p, 'w) vfs_node \<Rightarrow> bool" where
  "node_ext n n' \<longleftrightarrow>
     n'\<lparr>n_children := []\<rparr> = n\<lparr>n_children := []\<rparr> \<and> set (n_children n) \<subseteq> set (n_children n')"

definition tree_ext :: "('p, 'w) vfs_tree \<Rightarrow> ('p, 'w) vfs_tree \<Rightarrow> bool" where
  "tree_ext t t' \<longleftrightarrow>
     (\<forall>a n. t_nodes t a = Some n \<longrightarrow> (\<exists>n'. t_nodes t' a = Some n' \<and> node_ext n n')) \<and>
     (\<forall>a n'. t_nodes t a = None \<longrightarrow> t_nodes t' a = Some n' \<longrightarrow> t_next t \<le> a \<and> n_mnt n' = None) \<and>
     t_next t \<le> t_next t' \<and> t_root t' = t_root t \<and> t_ready t' = t_ready t"

lemma node_ext_refl [simp]: "node_ext n n"
  by (simp add: node_ext_def)

lemma node_extD:
  assumes "node_ext n n'"
  shows "n_name n' = n_name n" "n_type n' = n_type n" "n_fops n' = n_fops n"
    "n_priv n' = n_priv n" "n_parent n' = n_parent n" "n_mnt n' = n_mnt n"
    "set (n_children n) \<subseteq> set (n_children n')"
  using assms unfolding node_ext_def by (cases n; cases n'; simp)+

lemma node_ext_trans: "node_ext n n' \<Longrightarrow> node_ext n' n'' \<Longrightarrow> node_ext n n''"
  by (auto simp: node_ext_def)

lemma tree_ext_refl [simp]: "tree_ext t t"
  by (auto simp: tree_ext_def)

lemma tree_ext_same_nodes:
  "t_nodes t' = t_nodes t \<Longrightarrow> t_next t' = t_next t \<Longrightarrow> t_root t' = t_root t \<Longrightarrow>
   t_ready t' = t_ready t \<Longrightarrow> tree_ext t t'"
  by (auto simp: tree_ext_def)

lemma tree_ext_free [simp]: "tree_ext t (t_free t)"
  by (rule tree_ext_same_nodes) simp_all

lemma tree_ext_malloc: "t_malloc t = (b, t') \<Longrightarrow> tree_ext t t'"
  by (rule tree_ext_same_nodes) (simp_all add: tree_simps)

lemma tree_extD:
  assumes "tree_ext t t'" "t_nodes t a = Some n"
  obtains n' where "t_nodes t' a = Some n'" "node_ext n n'"
  using assms unfolding tree_ext_def by blast

lemma tree_ext_new:
  assumes "tree_ext t t'" "t_nodes t a = None" "t_nodes t' a = Some n'"
  shows "t_next t \<le> a" "n_mnt n' = None"
  using assms by (auto simp: tree_ext_def)

lemma tree_ext_fields:
  assumes "tree_ext t t'"
  shows "t_next t \<le> t_next t'" "t_root t' = t_root t" "t_ready t' = t_ready t"
  using assms by (auto simp: tree_ext_def)

lemma tree_extI:
  assumes "\<And>a n. t_nodes t a = Some n \<Longrightarrow> \<exists>n'. t_nodes t' a = Some n' \<and> node_ext n n'"
    "\<And>a n'. t_nodes t a = None \<Longrightarrow> t_nodes t' a = Some n' \<Longrightarrow> t_next t \<le> a \<and> n_mnt n' = None"
    "t_next t \<le> t_next t'" "t_root t' = t_root t" "t_ready t' = t_ready t"
  shows "tree_ext t t'"
  using assms unfolding tree_ext_def by blast

lemma tree_ext_trans:
  assumes 1: "tree_ext t1 t2" and 2: "tree_ext t2 t3"
  shows "tree_ext t1 t3"
proof (rule tree_extI)
  fix a n assume "t_nodes t1 a = Some n"
  then obtain n2 where n2: "t_nodes t2 a = Some n2" "node_ext n n2" by (rule tree_extD[OF 1])
  from n2(1) obtain n3 where "t_nodes t3 a = Some n3" "node_ext n2 n3" by (rule tree_extD[OF 2])
  with n2 show "\<exists>n'. t_nodes t3 a = Some n' \<and> node_ext n n'" by (auto intro: node_ext_trans)
next
  fix a n' assume a: "t_nodes t1 a = None" "t_nodes t3 a = Some n'"
  show "t_next t1 \<le> a \<and> n_mnt n' = None"
  proof (cases "t_nodes t2 a")
    case None
    with tree_ext_new[OF 2 None a(2)] tree_ext_fields(1)[OF 1] show ?thesis by simp
  next
    case (Some n2)
    then obtain n3 where "t_nodes t3 a = Some n3" "node_ext n2 n3" by (rule tree_extD[OF 2])
    with a Some tree_ext_new[OF 1] show ?thesis by (auto simp: node_extD)
  qed
next
  show "t_next t1 \<le> t_next t3" "t_root t3 = t_root t1" "t_ready t3 = t_ready t1"
    using tree_ext_fields[OF 1] tree_ext_fields[OF 2] by auto
qed

text \<open>Fresh addresses are unused.\<close>

lemma nodes_inv_fresh:
  assumes "nodes_inv N nxt" "nxt \<le> a"
  shows "N a = None"
proof (cases "N a")
  case (Some n)
  from nodes_invD[OF assms(1) this] assms(2) show ?thesis by (simp add: node_ok_def)
qed

lemma tree_inv_next_fresh: "tree_inv t \<Longrightarrow> t_next t \<le> a \<Longrightarrow> t_nodes t a = None"
  by (auto simp: tree_inv_def nodes_inv_fresh)

subsection \<open>Creation\<close>

text \<open>A fresh node without parent or children keeps the tree well formed.\<close>

lemma nodes_inv_insert:
  assumes inv: "nodes_inv N nxt" and n: "n_parent n = None" "n_children n = []"
    and fops: "n_type n \<noteq> VFS_NODE_DIR \<longrightarrow> n_fops n \<noteq> None"
  shows "nodes_inv (N(nxt \<mapsto> n)) (Suc nxt)"
  unfolding nodes_inv_def
proof (intro allI impI)
  fix a m assume a: "(N(nxt \<mapsto> n)) a = Some m"
  show "node_ok (N(nxt \<mapsto> n)) (Suc nxt) a m"
  proof (cases "a = nxt")
    case True
    with a n fops show ?thesis by (auto simp: node_ok_def)
  next
    case False
    with a have m: "N a = Some m" by simp
    from nodes_invD[OF inv m] have ok: "node_ok N nxt a m" .
    have fresh: "N nxt = None" using nodes_inv_fresh[OF inv] by simp
    have ch: "c \<noteq> nxt" if "c \<in> set (n_children m)" for c
      using node_ok_child(2)[OF ok that] fresh by auto
    have par: "p \<noteq> nxt" if "n_parent m = Some p" for p
      using parent_less[OF inv m that] fresh by auto
    have "inj_on (name_at (N(nxt \<mapsto> n))) (set (n_children m)) = inj_on (name_at N) (set (n_children m))"
      using ch by (intro inj_on_cong) (simp add: name_at_def)
    with ok ch par show ?thesis by (auto simp: node_ok_def)
  qed
qed

lemma vfs_alloc_node_Some:
  assumes "vfs_alloc_node name ty fops priv t = (Some a, t')"
  shows "a = t_next t" "t_nodes t' = (t_nodes t)(a \<mapsto> new_node name ty fops priv)"
    "t_next t' = Suc (t_next t)" "t_root t' = t_root t" "t_ready t' = t_ready t"
    "t_live t' = Suc (Suc (t_live t))" "e_world (t_env t') = e_world (t_env t)"
  using assms
  by (auto simp: vfs_alloc_node_def tree_simps live_simps split: prod.splits bool.splits)

lemma vfs_alloc_node_None:
  assumes "vfs_alloc_node name ty fops priv t = (None, t')"
  shows "t_nodes t' = t_nodes t" "t_next t' = t_next t" "t_root t' = t_root t"
    "t_ready t' = t_ready t" "t_live t' = t_live t"
  using assms
  by (auto simp: vfs_alloc_node_def tree_simps live_simps split: prod.splits bool.splits)

lemma vfs_alloc_node_inv:
  assumes inv: "tree_inv t" and r: "vfs_alloc_node name ty fops priv t = (r, t')"
    and fops: "ty \<noteq> VFS_NODE_DIR \<longrightarrow> fops \<noteq> None"
  shows "tree_inv t' \<and> tree_ext t t'"
proof (cases r)
  case None
  with r have "vfs_alloc_node name ty fops priv t = (None, t')" by simp
  note n = vfs_alloc_node_None[OF this]
  show ?thesis
    using inv n by (auto simp: tree_inv_cong[OF n(1,2,3)] intro: tree_ext_same_nodes)
next
  case (Some a)
  with r have "vfs_alloc_node name ty fops priv t = (Some a, t')" by simp
  note n = vfs_alloc_node_Some[OF this]
  have fresh: "t_nodes t a = None" using tree_inv_next_fresh[OF inv] n(1) by simp
  have "nodes_inv (t_nodes t') (t_next t')"
    unfolding n(1,2,3) using inv fops
    by (intro nodes_inv_insert) (auto simp: tree_inv_def new_node_def)
  moreover have "root_ok (t_nodes t') (t_root t')"
    using inv fresh by (auto simp: n(2,4) tree_inv_def root_ok_def)
  moreover have "tree_ext t t'"
    using fresh n by (auto simp: tree_ext_def new_node_def)
  ultimately show ?thesis by (simp add: tree_inv_def)
qed

lemma find_child_None:
  assumes "vfs_find_child_by_name t (Some p) name = None" "t_nodes t p = Some pn"
    "d \<in> set (n_children pn)"
  shows "name_at (t_nodes t) d \<noteq> Some name"
  using assms
  by (auto simp: vfs_find_child_by_name_def find_None_ball child_named_def name_at_def
      split: option.splits)

lemma find_child_Some:
  assumes "vfs_find_child_by_name t parent name = Some c"
  obtains p pn cn where "parent = Some p" "t_nodes t p = Some pn" "c \<in> set (n_children pn)"
    "t_nodes t c = Some cn" "n_name cn = name"
  using assms
  by (cases parent)
     (auto simp: vfs_find_child_by_name_def child_named_def
       dest!: find_Some_iff_mem split: option.splits)

text \<open>Names of siblings differ, so the child found is the child with that name.\<close>

lemma find_child_unique:
  assumes "tree_inv t" "t_nodes t p = Some pn" "c \<in> set (n_children pn)"
    "t_nodes t c = Some cn" "n_name cn = name"
  shows "vfs_find_child_by_name t (Some p) name = Some c"
proof -
  from tree_invD[OF assms(1,2)]
  have inj: "inj_on (name_at (t_nodes t)) (set (n_children pn))" by (simp add: node_ok_def)
  have "List.find (child_named t name) (n_children pn) = Some c"
  proof (rule find_unique)
    fix y assume "y \<in> set (n_children pn)" "child_named t name y"
    then show "y = c"
      using inj_onD[OF inj, of y c] assms(3,4,5)
      by (auto simp: child_named_def name_at_def split: option.splits)
  qed (use assms in \<open>auto simp: child_named_def\<close>)
  with assms(2) show ?thesis by (simp add: vfs_find_child_by_name_def)
qed

lemma nodes_inv_link:
  assumes inv: "nodes_inv N nxt" and p: "N p = Some pn" and c: "N c = Some cn"
    and pc: "p < c" and par: "n_parent cn = None" and dir: "n_type pn = VFS_NODE_DIR"
    and valid: "vfs_name_valid (n_name cn)"
    and new: "\<And>d. d \<in> set (n_children pn) \<Longrightarrow> name_at N d \<noteq> Some (n_name cn)"
  shows "nodes_inv (N(c \<mapsto> cn\<lparr>n_parent := Some p\<rparr>, p \<mapsto> pn\<lparr>n_children := c # n_children pn\<rparr>)) nxt"
    (is "nodes_inv ?N nxt")
  unfolding nodes_inv_def
proof (intro allI impI)
  fix a m assume a: "?N a = Some m"
  have name: "name_at ?N = name_at N"
    using p c by (auto simp: name_at_def fun_eq_iff)
  from nodes_invD[OF inv p] have okp: "node_ok N nxt p pn" .
  from nodes_invD[OF inv c] have okc: "node_ok N nxt c cn" .
  have not_ch: "c \<notin> set (n_children k)" if "N b = Some k" for b k
    using node_ok_child(2)[OF nodes_invD[OF inv that], of c] c par by auto
  show "node_ok ?N nxt a m"
  proof (cases "a = p")
    case True
    with a have m: "m = pn\<lparr>n_children := c # n_children pn\<rparr>" by simp
    have "name_at N c = Some (n_name cn)" using c by (simp add: name_at_def)
    with new have "name_at N c \<notin> name_at N ` set (n_children pn)" by fastforce
    then have "inj_on (name_at N) (insert c (set (n_children pn)))"
      using okp by (auto simp: node_ok_def)
    then show ?thesis
      using okp pc dir p c not_ch[OF p] True
      unfolding node_ok_def name m by (auto dest: parent_less[OF inv p])
  next
    case False
    show ?thesis
    proof (cases "a = c")
      case True
      with a False have m: "m = cn\<lparr>n_parent := Some p\<rparr>" by simp
      from okc par valid p pc show ?thesis
        unfolding node_ok_def name m True by (auto simp: not_ch[OF p])
    next
      case neq: False
      with a False have m: "N a = Some m" by simp
      from nodes_invD[OF inv m] have ok: "node_ok N nxt a m" .
      have ch: "d \<noteq> c" if "d \<in> set (n_children m)" for d using that not_ch[OF m] by auto
      from ok show ?thesis
        unfolding node_ok_def name using p c ch by auto
    qed
  qed
qed

lemma link_child_frame [simp]:
  "t_next (link_child p c t) = t_next t" "t_root (link_child p c t) = t_root t"
  "t_ready (link_child p c t) = t_ready t" "t_env (link_child p c t) = t_env t"
  by (auto simp: link_child_def split: option.splits)

text \<open>The state \<open>vfs_create_node\<close> reaches when it succeeds.\<close>

definition created ::
  "addr \<Rightarrow> ('p, 'w) vfs_node \<Rightarrow> ('p, 'w) vfs_node \<Rightarrow> ('p, 'w) vfs_tree \<Rightarrow> ('p, 'w) vfs_tree \<Rightarrow> bool" where
  "created p pn cn t t' \<longleftrightarrow>
     t_nodes t' = (t_nodes t)(t_next t \<mapsto> cn\<lparr>n_parent := Some p\<rparr>,
                              p \<mapsto> pn\<lparr>n_children := t_next t # n_children pn\<rparr>) \<and>
     t_next t' = Suc (t_next t) \<and> t_root t' = t_root t \<and> t_ready t' = t_ready t \<and>
     t_live t' = Suc (Suc (t_live t))"

lemma vfs_create_node_Some:
  assumes "vfs_create_node parent name ty fops priv t = (Some c, t')" "tree_inv t"
  obtains p pn where "parent = Some p" "t_nodes t p = Some pn" "c = t_next t"
    "created p pn (new_node name ty fops priv) t t'"
    "vfs_name_valid name" "n_type pn = VFS_NODE_DIR"
    "vfs_find_child_by_name t (Some p) name = None"
    "ty \<noteq> VFS_NODE_DIR \<longrightarrow> fops \<noteq> None"
proof -
  from assms(1) obtain p pn t1 where
    p: "parent = Some p" "t_nodes t p = Some pn" and
    al: "vfs_alloc_node name ty fops priv t = (Some c, t1)" "t' = link_child p c t1" and
    ok: "vfs_name_valid name" "n_type pn = VFS_NODE_DIR"
      "vfs_find_child_by_name t (Some p) name = None" "ty \<noteq> VFS_NODE_DIR \<longrightarrow> fops \<noteq> None"
    by (auto simp: vfs_create_node_def split: option.splits if_splits prod.splits)
  note n = vfs_alloc_node_Some[OF al(1)]
  have "p \<noteq> t_next t" using tree_inv_next_fresh[OF assms(2), of p] p by auto
  then have "created p pn (new_node name ty fops priv) t t'"
    using p n unfolding created_def al(2)
    by (auto simp: link_child_def fun_upd_twist)
  with p n(1) ok that show thesis by blast
qed

lemma created_inv:
  assumes inv: "tree_inv t" and p: "t_nodes t p = Some pn" and dir: "n_type pn = VFS_NODE_DIR"
    and cr: "created p pn cn t t'" and cn: "n_parent cn = None" "n_children cn = []" "n_mnt cn = None"
    and name: "vfs_name_valid (n_name cn)" "vfs_find_child_by_name t (Some p) (n_name cn) = None"
    and fops: "n_type cn \<noteq> VFS_NODE_DIR \<longrightarrow> n_fops cn \<noteq> None"
  shows "tree_inv t' \<and> tree_ext t t'"
proof -
  let ?c = "t_next t"
  note fresh = tree_inv_next_fresh[OF inv, of ?c, simplified]
  have pc: "p < ?c" using tree_invD[OF inv p] by (simp add: node_ok_def)
  let ?N1 = "(t_nodes t)(?c \<mapsto> cn)"
  have N1: "nodes_inv ?N1 (Suc ?c)"
    using inv cn fops by (intro nodes_inv_insert) (auto simp: tree_inv_def)
  have new: "name_at ?N1 d \<noteq> Some (n_name cn)" if "d \<in> set (n_children pn)" for d
  proof -
    have "d \<noteq> ?c" using node_ok_child(2)[OF tree_invD[OF inv p] that] fresh by auto
    with find_child_None[OF name(2) p that] show ?thesis by (simp add: name_at_def)
  qed
  have "nodes_inv (?N1(?c \<mapsto> cn\<lparr>n_parent := Some p\<rparr>, p \<mapsto> pn\<lparr>n_children := ?c # n_children pn\<rparr>)) (Suc ?c)"
    by (rule nodes_inv_link[OF N1]) (use p pc cn dir name new in auto)
  then have "nodes_inv (t_nodes t') (t_next t')"
    using cr by (simp add: created_def)
  moreover have "root_ok (t_nodes t') (t_root t')"
    using inv cr p fresh by (auto simp: created_def tree_inv_def root_ok_def)
  moreover have "tree_ext t t'"
  proof (rule tree_extI)
    fix a n assume a: "t_nodes t a = Some n"
    with fresh have "a \<noteq> ?c" by auto
    with a p cr show "\<exists>n'. t_nodes t' a = Some n' \<and> node_ext n n'"
      by (auto simp: created_def node_ext_def)
  qed (use cr cn p in \<open>auto simp: created_def split: if_splits\<close>)
  ultimately show ?thesis by (simp add: tree_inv_def)
qed

lemma new_node_sel [simp]:
  "n_name (new_node name ty fops priv) = name" "n_type (new_node name ty fops priv) = ty"
  "n_fops (new_node name ty fops priv) = fops" "n_priv (new_node name ty fops priv) = priv"
  "n_parent (new_node name ty fops priv) = None" "n_children (new_node name ty fops priv) = []"
  "n_mnt (new_node name ty fops priv) = None"
  by (simp_all add: new_node_def)

lemma vfs_create_node_None:
  assumes "vfs_create_node parent name ty fops priv t = (None, t')"
  shows "t_nodes t' = t_nodes t" "t_next t' = t_next t" "t_root t' = t_root t"
    "t_ready t' = t_ready t" "t_live t' = t_live t"
  using assms
  by (auto simp: vfs_create_node_def vfs_alloc_node_None
      split: option.splits if_splits prod.splits)

lemma vfs_create_node_inv:
  assumes inv: "tree_inv t" and r: "vfs_create_node parent name ty fops priv t = (r, t')"
  shows "tree_inv t' \<and> tree_ext t t'"
proof (cases r)
  case None
  with r have "vfs_create_node parent name ty fops priv t = (None, t')" by simp
  note n = vfs_create_node_None[OF this]
  with inv show ?thesis
    by (auto simp: tree_inv_cong[OF n(1,2,3)] intro: tree_ext_same_nodes)
next
  case (Some c)
  with r have "vfs_create_node parent name ty fops priv t = (Some c, t')" by simp
  from vfs_create_node_Some[OF this inv] obtain p pn where
    "t_nodes t p = Some pn" "created p pn (new_node name ty fops priv) t t'"
    "vfs_name_valid name" "n_type pn = VFS_NODE_DIR"
    "vfs_find_child_by_name t (Some p) name = None" "ty \<noteq> VFS_NODE_DIR \<longrightarrow> fops \<noteq> None"
    by metis
  then show ?thesis by (intro created_inv[OF inv]) auto
qed

text \<open>The node a successful creation returns: present, with the given attributes, listed first.\<close>

lemma created_lookup:
  assumes "tree_inv t" "t_nodes t p = Some pn" "created p pn cn t t'"
  shows "t_nodes t' (t_next t) = Some (cn\<lparr>n_parent := Some p\<rparr>)"
    "t_nodes t' p = Some (pn\<lparr>n_children := t_next t # n_children pn\<rparr>)"
proof -
  have "p \<noteq> t_next t" using tree_inv_next_fresh[OF assms(1), of p] assms(2) by auto
  with assms(3) show "t_nodes t' (t_next t) = Some (cn\<lparr>n_parent := Some p\<rparr>)"
    "t_nodes t' p = Some (pn\<lparr>n_children := t_next t # n_children pn\<rparr>)"
    by (auto simp: created_def)
qed

lemma vfs_create_node_result:
  assumes inv: "tree_inv t" and r: "vfs_create_node parent name ty fops priv t = (Some c, t')"
  obtains n where "t_nodes t' c = Some n" "n_type n = ty" "n_parent n = parent" "n_mnt n = None"
    "n_name n = name" "n_fops n = fops" "n_priv n = priv" "n_children n = []" "c = t_next t"
proof -
  from vfs_create_node_Some[OF r inv] obtain p pn where
    *: "parent = Some p" "t_nodes t p = Some pn" "c = t_next t"
      "created p pn (new_node name ty fops priv) t t'" by metis
  with created_lookup(1)[OF inv *(2,4)] that[of "(new_node name ty fops priv)\<lparr>n_parent := Some p\<rparr>"]
  show thesis by simp
qed

lemma vfs_mkdir_inv:
  "tree_inv t \<Longrightarrow> vfs_mkdir parent name t = (r, t') \<Longrightarrow> tree_inv t' \<and> tree_ext t t'"
  unfolding vfs_mkdir_def by (rule vfs_create_node_inv)

lemma vfs_mknod_inv:
  "tree_inv t \<Longrightarrow> vfs_mknod parent name ty fops priv t = (r, t') \<Longrightarrow> tree_inv t' \<and> tree_ext t t'"
  unfolding vfs_mknod_def by (rule vfs_create_node_inv)

lemma vfs_alloc_dir_node_inv:
  assumes "tree_inv t" "vfs_alloc_dir_node name t = (r, t')"
  shows "tree_inv t' \<and> tree_ext t t'"
  using assms by (auto simp: vfs_alloc_dir_node_def vfs_alloc_node_inv split: if_splits)

lemma mkdir_p_loop_done:
  assumes "dropWhile (\<lambda>c. c = CHR ''/'') p = []"
  shows "mkdir_p_loop p cur t = (Some cur, t)"
  by (subst mkdir_p_loop.simps) (simp only: assms Let_def if_True simp_thms)

lemma mkdir_p_loop_step:
  assumes p1: "dropWhile (\<lambda>c. c = CHR ''/'') p = p1" and ne: "p1 \<noteq> []"
    and seg: "takeWhile (\<lambda>c. c \<noteq> CHR ''/'') p1 = seg"
    and rest: "dropWhile (\<lambda>c. c \<noteq> CHR ''/'') p1 = rest"
  shows "mkdir_p_loop p cur t =
    (case t_malloc t of
       (False, t1) \<Rightarrow> (None, t1)
     | (True, t1) \<Rightarrow>
         (case vfs_find_child_by_name t1 (Some cur) seg of
            Some c \<Rightarrow>
              (if map_option n_type (t_nodes t1 c) \<noteq> Some VFS_NODE_DIR
               then (None, t_free t1)
               else mkdir_p_loop rest c (t_free t1))
          | None \<Rightarrow>
              (case vfs_mkdir (Some cur) seg t1 of
                 (None, t2) \<Rightarrow> (None, t_free t2)
               | (Some c, t2) \<Rightarrow> mkdir_p_loop rest c (t_free t2))))"
  by (subst mkdir_p_loop.simps) (simp only: p1 ne seg rest Let_def if_False simp_thms)

lemma mkdir_p_loop_inv:
  assumes "tree_inv t" "mkdir_p_loop p cur t = (r, t')"
  shows "tree_inv t' \<and> tree_ext t t'"
  using assms
proof (induction p cur t arbitrary: r t' rule: mkdir_p_loop.induct)
  case (1 p cur t)
  let ?p1 = "dropWhile (\<lambda>c. c = CHR ''/'') p"
  let ?seg = "takeWhile (\<lambda>c. c \<noteq> CHR ''/'') ?p1"
  show ?case
  proof (cases "?p1 = []")
    case True
    with "1.prems" show ?thesis by (simp add: mkdir_p_loop_done)
  next
    case ne: False
    note step = mkdir_p_loop_step[OF refl ne refl refl, of cur t]
    obtain b t1 where m: "t_malloc t = (b, t1)" by fastforce
    note ext1 = tree_ext_malloc[OF m]
    have inv1: "tree_inv t1"
      using "1.prems"(1) tree_inv_cong[OF t_malloc_frame(1,2,3)[OF m]] by simp
    show ?thesis
    proof (cases b)
      case False
      with "1.prems"(2) step m inv1 ext1 show ?thesis by simp
    next
      case True
      with m have m': "t_malloc t = (True, t1)" by simp
      show ?thesis
      proof (cases "vfs_find_child_by_name t1 (Some cur) ?seg")
        case (Some c)
        have ext: "tree_ext t (t_free t1)" using ext1 tree_ext_free tree_ext_trans by blast
        show ?thesis
        proof (cases "map_option n_type (t_nodes t1 c) = Some VFS_NODE_DIR")
          case True
          have "mkdir_p_loop (dropWhile (\<lambda>c. c \<noteq> CHR ''/'') ?p1) c (t_free t1) = (r, t')"
            using "1.prems"(2) step m' Some True by simp
          with "1.IH"(2)[OF refl ne refl refl m'[symmetric] refl Some] True inv1 ext
          show ?thesis by (auto intro: tree_ext_trans)
        next
          case False
          with "1.prems"(2) step m' Some inv1 ext show ?thesis by auto
        qed
      next
        case None
        obtain r2 t2 where mk: "vfs_mkdir (Some cur) ?seg t1 = (r2, t2)" by fastforce
        note i2 = vfs_mkdir_inv[OF inv1 mk]
        then have ext: "tree_ext t (t_free t2)" using ext1 tree_ext_free tree_ext_trans by blast
        show ?thesis
        proof (cases r2)
          case None2: None
          with "1.prems"(2) step m' None mk i2 ext show ?thesis by auto
        next
          case (Some c)
          have "mkdir_p_loop (dropWhile (\<lambda>c. c \<noteq> CHR ''/'') ?p1) c (t_free t2) = (r, t')"
            using "1.prems"(2) step m' None mk Some by simp
          with "1.IH"(1)[OF refl ne refl refl m'[symmetric] refl None mk[symmetric] Some] i2 ext
          show ?thesis by (auto intro: tree_ext_trans)
        qed
      qed
    qed
  qed
qed

lemma vfs_mkdir_p_inv:
  assumes "tree_inv t" "vfs_mkdir_p path t = (r, t')"
  shows "tree_inv t' \<and> tree_ext t t'"
  using assms by (auto simp: vfs_mkdir_p_def mkdir_p_loop_inv split: if_splits option.splits)

end
