(* ===== verification/Vfs_Free.thy ===== *)
theory Vfs_Free
  imports Vfs_Inv
begin

text \<open>
  Removal of nodes: \<open>vfs_unlink\<close> on a leaf, \<open>vfs_free_subtree\<close> on a whole subtree, and the
  test \<open>vfs_node_under_root\<close>, against the descendant relation \<open>desc\<close>.
\<close>

subsection \<open>Descendants\<close>

inductive desc :: "('p, 'w) nodes \<Rightarrow> addr \<Rightarrow> addr \<Rightarrow> bool" for N a where
  desc_refl: "desc N a a"
| desc_step: "desc N a b \<Longrightarrow> N c = Some m \<Longrightarrow> n_parent m = Some b \<Longrightarrow> desc N a c"

inductive_cases desc_elim: "desc N a b"

lemma desc_le: "desc N a b \<Longrightarrow> nodes_inv N nxt \<Longrightarrow> a \<le> b"
  by (induction rule: desc.induct) (auto dest: parent_less(1))

lemma desc_parent: "desc N a b \<Longrightarrow> b \<noteq> a \<Longrightarrow> N b = Some m \<Longrightarrow> \<exists>q. n_parent m = Some q \<and> desc N a q"
  by (auto elim: desc_elim)

lemma desc_live: "desc N a b \<Longrightarrow> b \<noteq> a \<Longrightarrow> \<exists>m. N b = Some m"
  by (auto elim: desc_elim)

lemma desc_trans: "desc N b c \<Longrightarrow> desc N a b \<Longrightarrow> desc N a c"
  by (induction rule: desc.induct) (auto intro: desc_step)

lemma desc_top:
  assumes inv: "nodes_inv N nxt" and a: "N a = Some n"
  shows "desc N a b \<longleftrightarrow> b = a \<or> (\<exists>c \<in> set (n_children n). desc N c b)"
proof
  assume "desc N a b"
  then show "b = a \<or> (\<exists>c \<in> set (n_children n). desc N c b)"
  proof (induction rule: desc.induct)
    case (desc_step b c m)
    show ?case
    proof (cases "b = a")
      case True
      with parent_less(2)[OF inv desc_step.hyps(2,3)] a have "c \<in> set (n_children n)" by auto
      then show ?thesis by (auto intro: desc.desc_refl)
    qed (use desc_step in \<open>auto intro: desc.desc_step\<close>)
  qed simp
next
  assume "b = a \<or> (\<exists>c \<in> set (n_children n). desc N c b)"
  moreover have "desc N a c" if "c \<in> set (n_children n)" for c
    using node_ok_child(2)[OF nodes_invD[OF inv a] that] by (auto intro: desc.intros)
  ultimately show "desc N a b" by (auto intro: desc_trans desc_refl)
qed

text \<open>Two ancestors of a node are comparable; so the subtrees of two siblings are disjoint.\<close>

lemma desc_comparable: "desc N a x \<Longrightarrow> desc N b x \<Longrightarrow> desc N a b \<or> desc N b a"
proof (induction arbitrary: b rule: desc.induct)
  case (desc_step x y m)
  show ?case
  proof (cases "b = y")
    case True
    with desc_step.hyps show ?thesis by (auto intro: desc.desc_step)
  next
    case False
    with desc_parent[OF desc_step.prems] desc_step.hyps have "desc N b x" by auto
    then show ?thesis by (rule desc_step.IH)
  qed
qed simp

lemma desc_sibling_disjoint:
  assumes inv: "nodes_inv N nxt" and a: "N a = Some n"
    and c: "c \<in> set (n_children n)" "d \<in> set (n_children n)" "c \<noteq> d"
  shows "\<not> (desc N c x \<and> desc N d x)"
proof
  have no: False if "desc N c d" "c \<in> set (n_children n)" "d \<in> set (n_children n)" "c \<noteq> d" for c d
  proof -
    from node_ok_child[OF nodes_invD[OF inv a] that(3)]
    obtain m where "N d = Some m" "n_parent m = Some a" by auto
    with desc_parent[OF that(1)] that(4) have "desc N c a" by auto
    with desc_le[OF _ inv] node_ok_child(1)[OF nodes_invD[OF inv a] that(2)] show False by fastforce
  qed
  assume "desc N c x \<and> desc N d x"
  then show False using desc_comparable[of N c x d] no c by metis
qed

lemma desc_bound:
  assumes "nodes_inv N nxt" "N a = Some n" "desc N a b"
  shows "b < nxt"
  using assms(3)
  by (rule desc_elim) (use assms(1,2) in \<open>auto simp: nodes_inv_def node_ok_def\<close>)

lemma finite_desc: "nodes_inv N nxt \<Longrightarrow> N a = Some n \<Longrightarrow> finite {b. desc N a b}"
  by (rule finite_subset[of _ "{..<nxt}"]) (auto dest: desc_bound)

subsection \<open>Freeing a subtree\<close>

lemma free_node_frame [simp]:
  "t_nodes (free_node a t) = (t_nodes t)(a := None)" "t_next (free_node a t) = t_next t"
  "t_root (free_node a t) = t_root t" "t_ready (free_node a t) = t_ready t"
  "t_live (free_node a t) = t_live t - 2"
  by (simp_all add: free_node_def t_free_live)

definition freed :: "('p, 'w) nodes \<Rightarrow> addr set \<Rightarrow> ('p, 'w) vfs_tree \<Rightarrow> ('p, 'w) vfs_tree \<Rightarrow> bool" where
  "freed N A t t' \<longleftrightarrow>
     t_nodes t' = (\<lambda>b. if b \<in> A then None else t_nodes t b) \<and>
     t_next t' = t_next t \<and> t_root t' = t_root t \<and> t_ready t' = t_ready t \<and>
     t_live t' = t_live t - 2 * card A"

lemma freed_trans:
  assumes "freed N A t t1" "freed N B t1 t2" "A \<inter> B = {}" "finite A" "finite B"
  shows "freed N (A \<union> B) t t2"
  using assms by (auto simp: freed_def card_Un_disjoint fun_eq_iff)

definition subtrees :: "('p, 'w) nodes \<Rightarrow> addr set \<Rightarrow> addr set" where
  "subtrees N C = {b. \<exists>c \<in> C. desc N c b}"

lemma free_children_freed:
  assumes inv: "nodes_inv N nxt" and a: "N a = Some n"
    and step: "\<And>c t. c \<in> set (n_children n) \<Longrightarrow> \<forall>b. desc N c b \<longrightarrow> t_nodes t b = N b \<Longrightarrow>
      freed N {b. desc N c b} t (f c t)"
    and cs: "set cs \<subseteq> set (n_children n)" "distinct cs"
    and agree: "\<forall>b \<in> subtrees N (set cs). t_nodes t b = N b"
  shows "freed N (subtrees N (set cs)) t (fold f cs t)"
  using cs agree
proof (induction cs arbitrary: t)
  case Nil
  show ?case by (simp add: freed_def subtrees_def)
next
  case (Cons c cs)
  have c: "c \<in> set (n_children n)" using Cons.prems(1) by simp
  have 1: "freed N {b. desc N c b} t (f c t)"
    by (rule step[OF c]) (use Cons.prems(3) in \<open>auto simp: subtrees_def\<close>)
  have disj: "{b. desc N c b} \<inter> subtrees N (set cs) = {}"
    using desc_sibling_disjoint[OF inv a c] Cons.prems(1,2) by (auto simp: subtrees_def)
  have 2: "freed N (subtrees N (set cs)) (f c t) (fold f cs (f c t))"
  proof (rule Cons.IH)
    show "\<forall>b \<in> subtrees N (set cs). t_nodes (f c t) b = N b"
      using 1 disj Cons.prems(3) by (auto simp: freed_def subtrees_def)
  qed (use Cons.prems in auto)
  have fin: "finite {b. desc N d b}" if "d \<in> set (n_children n)" for d
    using node_ok_child(2)[OF nodes_invD[OF inv a] that] finite_desc[OF inv] by auto
  have "subtrees N (set cs) = (\<Union>d \<in> set cs. {b. desc N d b})" by (auto simp: subtrees_def)
  then have "finite (subtrees N (set cs))" using Cons.prems(1) fin by (auto intro!: finite_UN_I)
  moreover have "{b. desc N c b} \<union> subtrees N (set cs) = subtrees N (set (c # cs))"
    by (auto simp: subtrees_def)
  ultimately show ?case
    using freed_trans[OF 1 2 disj fin[OF c]] by simp
qed

lemma free_subtree_upto_freed:
  fixes N :: "('p, 'w) nodes"
  assumes inv: "nodes_inv N nxt"
  shows "N a = Some n \<Longrightarrow> nxt \<le> a + k \<Longrightarrow> \<forall>b. desc N a b \<longrightarrow> t_nodes t b = N b \<Longrightarrow>
    freed N {b. desc N a b} t (free_subtree_upto k a t)"
proof (induction k arbitrary: a n t)
  case 0
  with nodes_invD[OF inv 0(1)] show ?case by (simp add: node_ok_def)
next
  case (Suc k)
  note ok = nodes_invD[OF inv Suc.prems(1)]
  have ta: "t_nodes t a = Some n" using Suc.prems(1,3) desc_refl[of N a] by auto
  let ?S = "subtrees N (set (n_children n))"
  have S: "{b. desc N a b} = insert a ?S"
    using desc_top[OF inv Suc.prems(1)] by (auto simp: subtrees_def)
  have "freed N ?S t (fold (free_subtree_upto k) (n_children n) t)"
  proof (rule free_children_freed[OF inv Suc.prems(1)])
    fix c :: addr and u :: "('p, 'w) vfs_tree"
    assume c: "c \<in> set (n_children n)" and u: "\<forall>b. desc N c b \<longrightarrow> t_nodes u b = N b"
    from node_ok_child[OF ok c] obtain m where "N c = Some m" "a < c" by auto
    then show "freed N {b. desc N c b} u (free_subtree_upto k c u)"
      using Suc.prems(2) u by (intro Suc.IH) auto
  qed (use Suc.prems(3) ok S in \<open>auto simp: node_ok_def\<close>)
  moreover have "a \<notin> ?S"
    using node_ok_child(1)[OF ok] by (fastforce simp: subtrees_def dest!: desc_le[OF _ inv])
  moreover have "finite ?S"
    using finite_desc[OF inv Suc.prems(1)] unfolding S by simp
  ultimately show ?case
    using ta unfolding S by (auto simp: freed_def fun_eq_iff)
qed

text \<open>
  What \<open>vfs_free_subtree\<close> does: exactly the descendants disappear, and two blocks are returned
  for each.
\<close>

lemma vfs_free_subtree_freed:
  assumes "nodes_inv (t_nodes t) (t_next t)" "t_nodes t a = Some n"
  shows "freed (t_nodes t) {b. desc (t_nodes t) a b} t (vfs_free_subtree (Some a) t)"
  using free_subtree_upto_freed[OF assms(1), of a n "t_next t" t] assms
  by (simp add: vfs_free_subtree_def)

text \<open>A tree stays well formed when a detached subtree goes.\<close>

lemma nodes_inv_remove_subtree:
  assumes inv: "nodes_inv N nxt" and a: "N a = Some n" and root: "n_parent n = None"
  shows "nodes_inv (\<lambda>b. if desc N a b then None else N b) nxt" (is "nodes_inv ?N nxt")
  unfolding nodes_inv_def
proof (intro allI impI)
  fix b m assume "?N b = Some m"
  then have b: "N b = Some m" "\<not> desc N a b" by (auto split: if_splits)
  note ok = nodes_invD[OF inv b(1)]
  have ch: "\<not> desc N a c" if "c \<in> set (n_children m)" for c
  proof
    assume "desc N a c"
    moreover from node_ok_child(2)[OF ok that]
    obtain k where k: "N c = Some k" "n_parent k = Some b" by auto
    moreover have "c \<noteq> a" using k a root by auto
    ultimately show False using desc_parent[of N a c k] b(2) by auto
  qed
  have par: "\<not> desc N a p" if "n_parent m = Some p" for p
    using desc_step[of N a p b m] b that by blast
  have "inj_on (name_at ?N) (set (n_children m)) = inj_on (name_at N) (set (n_children m))"
    by (intro inj_on_cong) (simp add: name_at_def ch)
  with ok ch par show "node_ok ?N nxt b m" by (auto simp: node_ok_def)
qed

subsection \<open>Being under a root\<close>

lemma under_root_upto_desc:
  assumes inv: "nodes_inv N nxt" and N: "t_nodes t = N"
  shows "N b = Some m \<Longrightarrow> b < k \<Longrightarrow> under_root_upto (Suc k) t (Some b) (Some a) = desc N a b"
proof (induction k arbitrary: b m)
  case 0
  then show ?case by simp
next
  case (Suc k)
  show ?case
  proof (cases "b = a")
    case True
    then show ?thesis by (simp add: desc_refl)
  next
    case False
    show ?thesis
    proof (cases "n_parent m")
      case None
      with False Suc.prems(1) show ?thesis by (auto simp: N dest: desc_parent)
    next
      case (Some q)
      from parent_less[OF inv Suc.prems(1) Some] obtain qn where q: "q < b" "N q = Some qn" by auto
      have "under_root_upto (Suc (Suc k)) t (Some b) (Some a) = under_root_upto (Suc k) t (Some q) (Some a)"
        using False Suc.prems(1) Some N by simp
      also have "\<dots> = desc N a q" using Suc.IH[OF q(2)] q(1) Suc.prems(2) by simp
      also have "\<dots> = desc N a b"
        using False Some Suc.prems(1) by (auto dest: desc_parent intro: desc_step)
      finally show ?thesis .
    qed
  qed
qed

lemma vfs_node_under_root_desc:
  assumes "tree_inv t" "t_nodes t b = Some m"
  shows "vfs_node_under_root t b (Some a) \<longleftrightarrow> desc (t_nodes t) a b"
  using under_root_upto_desc[of "t_nodes t" "t_next t" t b m "Suc b" a] assms
  by (simp add: vfs_node_under_root_def tree_inv_def)

subsection \<open>Removing a leaf\<close>

lemma nodes_inv_remove_leaf:
  assumes inv: "nodes_inv N nxt" and c: "N c = Some cn" "n_children cn = []" "n_parent cn = Some p"
    and p: "N p = Some pn"
  shows "nodes_inv (N(p \<mapsto> pn\<lparr>n_children := remove1 c (n_children pn)\<rparr>, c := None)) nxt"
    (is "nodes_inv ?N nxt")
  unfolding nodes_inv_def
proof (intro allI impI)
  fix b m assume b: "?N b = Some m"
  note okp = nodes_invD[OF inv p]
  have neq: "p \<noteq> c" using parent_less(1)[OF inv c(1,3)] by simp
  have name: "name_at ?N d = name_at N d" if "d \<noteq> c" for d
    using p that by (simp add: name_at_def)
  have rm: "set (remove1 c (n_children pn)) = set (n_children pn) - {c}"
    using okp by (simp add: node_ok_def)
  show "node_ok ?N nxt b m"
  proof (cases "b = p")
    case True
    with b neq have m: "m = pn\<lparr>n_children := remove1 c (n_children pn)\<rparr>" by simp
    have "inj_on (name_at ?N) (set (n_children pn) - {c}) = inj_on (name_at N) (set (n_children pn) - {c})"
      by (intro inj_on_cong) (simp add: name)
    moreover have "inj_on (name_at N) (set (n_children pn) - {c})"
      using okp by (auto simp: node_ok_def intro: inj_on_diff)
    moreover have "q \<noteq> c \<and> p \<noteq> q" if "n_parent pn = Some q" for q
      using parent_less[OF inv p that] c by auto
    ultimately show ?thesis
      using okp p neq unfolding True m node_ok_def
      by (auto simp: rm name distinct_remove1)
  next
    case False
    with b have m: "N b = Some m" "b \<noteq> c" by (auto split: if_splits)
    note ok = nodes_invD[OF inv m(1)]
    have ch: "d \<noteq> c" if "d \<in> set (n_children m)" for d
      using node_ok_child(2)[OF ok that] c False by auto
    have par: "q \<noteq> c" if "n_parent m = Some q" for q
      using parent_less(2)[OF inv m(1) that] c by auto
    have "inj_on (name_at ?N) (set (n_children m)) = inj_on (name_at N) (set (n_children m))"
      by (intro inj_on_cong) (simp add: name ch)
    with ok ch par m(2) p show ?thesis by (auto simp: node_ok_def rm)
  qed
qed

end
