(* ===== verification/Vfs_Props.thy ===== *)
theory Vfs_Props
  imports Vfs_Free
begin

text \<open>
  The invariant of the whole VFS state and its preservation by every operation.

  What the core asks of a filesystem type is the contract \<open>good_fs_type\<close>: its callbacks only
  add nodes, keep the tree well formed, and \<open>mount\<close> returns a fresh detached root directory.
  The locale \<open>vfs_filesystem\<close> of \<open>Fs_Props\<close> states the same contract for one \<open>mount\<close> callback; the
  filesystems of \<open>fs/\<close> interpret it there.
\<close>

subsection \<open>The contract of a filesystem\<close>

definition keeps_tree :: "('p, 'w) vfs_tree \<Rightarrow> ('p, 'w) vfs_tree \<Rightarrow> bool" where
  "keeps_tree t t' \<longleftrightarrow> (tree_inv t \<longrightarrow> tree_inv t' \<and> tree_ext t t')"

lemma keeps_tree_refl [intro, simp]: "keeps_tree t t"
  by (simp add: keeps_tree_def)

lemma keeps_tree_trans [trans]: "keeps_tree t u \<Longrightarrow> keeps_tree u w \<Longrightarrow> keeps_tree t w"
  by (auto simp: keeps_tree_def intro: tree_ext_trans)

lemma keeps_tree_free [intro, simp]: "keeps_tree t (t_free t)"
  by (simp add: keeps_tree_def)

lemma keeps_tree_same:
  "t_nodes t' = t_nodes t \<Longrightarrow> t_next t' = t_next t \<Longrightarrow> t_root t' = t_root t \<Longrightarrow>
   t_ready t' = t_ready t \<Longrightarrow> keeps_tree t t'"
  unfolding keeps_tree_def tree_inv_def by (simp add: tree_ext_same_nodes)

lemma keeps_tree_malloc [intro]: "t_malloc t = (b, t') \<Longrightarrow> keeps_tree t t'"
  by (rule keeps_tree_same) (rule t_malloc_frame; assumption)+

lemma keeps_tree_mknod [intro]: "vfs_mknod parent name ty fops priv t = (r, t') \<Longrightarrow> keeps_tree t t'"
  by (auto simp: keeps_tree_def dest: vfs_mknod_inv)

lemma keeps_tree_mkdir [intro]: "vfs_mkdir parent name t = (r, t') \<Longrightarrow> keeps_tree t t'"
  by (auto simp: keeps_tree_def dest: vfs_mkdir_inv)

lemma keeps_tree_mkdir_p [intro]: "vfs_mkdir_p path t = (r, t') \<Longrightarrow> keeps_tree t t'"
  by (auto simp: keeps_tree_def dest: vfs_mkdir_p_inv)

lemma keeps_tree_alloc_dir [intro]: "vfs_alloc_dir_node name t = (r, t') \<Longrightarrow> keeps_tree t t'"
  by (auto simp: keeps_tree_def dest: vfs_alloc_dir_node_inv)

text \<open>A live node that is not a root.\<close>

definition child_node :: "('p, 'w) vfs_tree \<Rightarrow> addr \<Rightarrow> bool" where
  "child_node t c \<longleftrightarrow> (\<exists>n. t_nodes t c = Some n \<and> n_parent n \<noteq> None)"

lemma child_node_live: "child_node t c \<Longrightarrow> t_nodes t c \<noteq> None"
  by (auto simp: child_node_def)

lemma child_node_mfree [simp]: "child_node (v_tree (v_mfree v)) c = child_node (v_tree v) c"
  by (simp add: child_node_def v_mfree_def)

definition good_sops :: "('p, 'w) vfs_super_ops \<Rightarrow> bool" where
  "good_sops s \<longleftrightarrow>
     (\<forall>f t priv d name r t'. so_lookup s = Some f \<longrightarrow> f t priv d name = (r, t') \<longrightarrow>
        keeps_tree t t' \<and> (tree_inv t \<longrightarrow> (\<forall>c. r = Some c \<longrightarrow> child_node t' c))) \<and>
     (\<forall>f t priv d r t'. so_iterate s = Some f \<longrightarrow> f t priv d = (r, t') \<longrightarrow> keeps_tree t t') \<and>
     (\<forall>f t priv r t'. so_umount s = Some f \<longrightarrow> f t priv = (r, t') \<longrightarrow> keeps_tree t t')"

definition fresh_root :: "('p, 'w) vfs_tree \<Rightarrow> ('p, 'w) vfs_tree \<Rightarrow> addr \<Rightarrow> bool" where
  "fresh_root t t' r \<longleftrightarrow> t_nodes t r = None \<and>
     (\<exists>n. t_nodes t' r = Some n \<and> n_parent n = None \<and> n_type n = VFS_NODE_DIR)"

definition good_mount :: "('p, 'w) mount_fun \<Rightarrow> bool" where
  "good_mount f \<longleftrightarrow>
     (\<forall>t mnt source data r mnt' t'.
        m_root mnt = None \<longrightarrow> m_sops mnt = None \<longrightarrow> f t mnt source data = (r, mnt', t') \<longrightarrow>
        keeps_tree t t' \<and>
        (tree_inv t \<longrightarrow> r = None \<longrightarrow>
          (\<forall>root. m_root mnt' = Some root \<longrightarrow> fresh_root t t' root) \<and>
          (\<forall>s. m_sops mnt' = Some s \<longrightarrow> good_sops s)))"

definition good_fs_type :: "('p, 'w) vfs_fs_type \<Rightarrow> bool" where
  "good_fs_type ty \<longleftrightarrow> (\<forall>f. fs_mount ty = Some f \<longrightarrow> good_mount f)"

subsection \<open>The invariant\<close>

definition files_ok :: "('p, 'w) nodes \<Rightarrow> (int \<times> 'p vfs_file) list \<Rightarrow> bool" where
  "files_ok N fs \<longleftrightarrow>
     distinct (map fst fs) \<and>
     (\<forall>(fd, f) \<in> set fs. 0 \<le> fd \<and> fd \<le> INT_MAX \<and>
        (\<exists>n. N (f_node f) = Some n \<and> n_type n \<noteq> VFS_NODE_DIR))"

definition mount_ok :: "('p, 'w) vfs_tree \<Rightarrow> ('p, 'w) vfs_mount \<Rightarrow> bool" where
  "mount_ok t mt \<longleftrightarrow>
     (\<exists>r n. m_root mt = Some r \<and> t_nodes t r = Some n \<and> n_parent n = None \<and>
        n_type n = VFS_NODE_DIR \<and> n_mnt n = None \<and> t_root t \<noteq> Some r) \<and>
     (\<forall>s. m_sops mt = Some s \<longrightarrow> good_sops s)"

definition mounts_ok ::
  "('p, 'w) vfs_tree \<Rightarrow> (addr \<Rightarrow> ('p, 'w) vfs_mount option) \<Rightarrow> addr \<Rightarrow> bool" where
  "mounts_ok t M nm \<longleftrightarrow>
     (\<forall>m mt. M m = Some mt \<longrightarrow> m < nm \<and> mount_ok t mt) \<and>
     (\<forall>m m' mt mt'. M m = Some mt \<longrightarrow> M m' = Some mt' \<longrightarrow> m_root mt = m_root mt' \<longrightarrow> m = m') \<and>
     (\<forall>a n m. t_nodes t a = Some n \<longrightarrow> n_mnt n = Some m \<longrightarrow>
        n_type n = VFS_NODE_DIR \<and> M m \<noteq> None) \<and>
     (\<forall>a b n k m. t_nodes t a = Some n \<longrightarrow> t_nodes t b = Some k \<longrightarrow>
        n_mnt n = Some m \<longrightarrow> n_mnt k = Some m \<longrightarrow> a = b)"

definition vfs_inv :: "('p, 'w) vfs \<Rightarrow> bool" where
  "vfs_inv v \<longleftrightarrow>
     tree_inv (v_tree v) \<and> files_ok (t_nodes (v_tree v)) (v_files v) \<and>
     mounts_ok (v_tree v) (v_mounts v) (v_next_mnt v) \<and>
     (\<forall>ty \<in> set (v_fs_types v). good_fs_type ty) \<and> v_next_fd v \<le> INT_MAX"

lemma files_ok_ext:
  assumes "files_ok (t_nodes t) fs" "tree_ext t t'"
  shows "files_ok (t_nodes t') fs"
  unfolding files_ok_def
proof (intro conjI ballI)
  show "distinct (map fst fs)" using assms(1) by (simp add: files_ok_def)
next
  fix x assume "x \<in> set fs"
  then obtain fd f n where x: "x = (fd, f)" "0 \<le> fd" "fd \<le> INT_MAX"
    "t_nodes t (f_node f) = Some n" "n_type n \<noteq> VFS_NODE_DIR"
    using assms(1) by (fastforce simp: files_ok_def)
  from x(4) obtain n' where "t_nodes t' (f_node f) = Some n'" "node_ext n n'"
    by (rule tree_extD[OF assms(2)])
  with x show "case x of (fd, f) \<Rightarrow> 0 \<le> fd \<and> fd \<le> INT_MAX \<and>
      (\<exists>n. t_nodes t' (f_node f) = Some n \<and> n_type n \<noteq> VFS_NODE_DIR)"
    by (auto simp: node_extD)
qed

lemma mount_ok_ext:
  assumes "mount_ok t mt" "tree_ext t t'"
  shows "mount_ok t' mt"
proof -
  from assms(1) obtain r n where r: "m_root mt = Some r" "t_nodes t r = Some n" "n_parent n = None"
    "n_type n = VFS_NODE_DIR" "n_mnt n = None" "t_root t \<noteq> Some r"
    by (auto simp: mount_ok_def)
  from r(2) obtain n' where "t_nodes t' r = Some n'" "node_ext n n'"
    by (rule tree_extD[OF assms(2)])
  with r assms show ?thesis by (auto simp: mount_ok_def node_extD tree_ext_fields)
qed

lemma tree_ext_mnt_back:
  assumes "tree_ext t t'" "t_nodes t' a = Some n'" "n_mnt n' = Some m"
  obtains n where "t_nodes t a = Some n" "n_mnt n = Some m" "n_type n = n_type n'"
proof (cases "t_nodes t a")
  case None
  with tree_ext_new[OF assms(1) None assms(2)] assms(3) show ?thesis by simp
next
  case (Some n)
  then obtain k where "t_nodes t' a = Some k" "node_ext n k" by (rule tree_extD[OF assms(1)])
  with Some assms(2,3) that show ?thesis by (auto simp: node_extD)
qed

lemma mounts_ok_ext:
  assumes ok: "mounts_ok t M nm" and ext: "tree_ext t t'"
  shows "mounts_ok t' M nm"
  unfolding mounts_ok_def
proof (intro conjI allI impI)
  fix m mt assume "M m = Some mt"
  with ok ext show "m < nm" "mount_ok t' mt"
    by (auto simp: mounts_ok_def intro: mount_ok_ext)
next
  fix m m' mt mt' assume "M m = Some mt" "M m' = Some mt'" "m_root mt = m_root mt'"
  with ok show "m = m'" unfolding mounts_ok_def by blast
next
  fix a n m assume "t_nodes t' a = Some n" "n_mnt n = Some m"
  then obtain k where "t_nodes t a = Some k" "n_mnt k = Some m" "n_type k = n_type n"
    by (rule tree_ext_mnt_back[OF ext])
  with ok show "n_type n = VFS_NODE_DIR" "M m \<noteq> None" unfolding mounts_ok_def by metis+
next
  fix a b n k m
  assume *: "t_nodes t' a = Some n" "t_nodes t' b = Some k" "n_mnt n = Some m" "n_mnt k = Some m"
  from *(1,3) obtain n0 where "t_nodes t a = Some n0" "n_mnt n0 = Some m"
    by (rule tree_ext_mnt_back[OF ext])
  moreover from *(2,4) obtain k0 where "t_nodes t b = Some k0" "n_mnt k0 = Some m"
    by (rule tree_ext_mnt_back[OF ext])
  ultimately show "a = b" using ok unfolding mounts_ok_def by metis
qed

lemma vfs_inv_ext:
  assumes "vfs_inv v" "keeps_tree (v_tree v) t'"
  shows "vfs_inv (v\<lparr>v_tree := t'\<rparr>)"
  using assms by (auto simp: vfs_inv_def keeps_tree_def intro: files_ok_ext mounts_ok_ext)

lemma vfs_inv_env:
  assumes "vfs_inv v" shows "vfs_inv (set_env v e)"
  unfolding set_env_def
  by (rule vfs_inv_ext[OF assms]) (rule keeps_tree_same; simp)

lemma vfs_inv_mfree: "vfs_inv v \<Longrightarrow> vfs_inv (v_mfree v)"
  unfolding v_mfree_def by (erule vfs_inv_ext) simp

lemma vfs_inv_malloc: "vfs_inv v \<Longrightarrow> v_malloc v = (b, v') \<Longrightarrow> vfs_inv v'"
  by (auto simp: v_malloc_def intro: vfs_inv_ext split: prod.splits)

lemma vfs_inv_mount:
  assumes "vfs_inv v" "v_mounts v m = Some mt"
  shows "m < v_next_mnt v" "mount_ok (v_tree v) mt"
  using assms by (auto simp: vfs_inv_def mounts_ok_def)

subsection \<open>Path resolution\<close>

text \<open>
  Following mounts from a live node takes at most one step, as the root of a mounted filesystem
  is never a mountpoint itself; the fuel is enough and the result is not covered by a mount.
\<close>

lemma follow_mount_done:
  assumes inv: "vfs_inv v" and a: "v_node v a = Some n"
  obtains b k where "fst (vfs_follow_mount_mnt v (Some a) mnt) = Some b" "v_node v b = Some k"
    "n_mnt k = None" "n_mnt n = None \<longrightarrow> b = a"
proof (cases "n_mnt n")
  case None
  with a that show ?thesis by (simp add: vfs_follow_mount_mnt_def)
next
  case (Some m)
  with inv a obtain mt where mt: "v_mounts v m = Some mt"
    by (fastforce simp: vfs_inv_def mounts_ok_def)
  from vfs_inv_mount[OF inv mt] obtain r k where
    r: "m < v_next_mnt v" "m_root mt = Some r" "v_node v r = Some k" "n_mnt k = None"
    by (auto simp: mount_ok_def)
  then obtain i where "v_next_mnt v = Suc i" by (cases "v_next_mnt v") auto
  with Some a mt r that show ?thesis by (simp add: vfs_follow_mount_mnt_def)
qed

lemma follow_mount_live:
  assumes "vfs_inv v" "\<forall>a. node = Some a \<longrightarrow> v_node v a \<noteq> None"
    "vfs_follow_mount_mnt v node mnt = (node', mnt')" "node' = Some b"
  shows "v_node v b \<noteq> None"
proof (cases node)
  case None
  with assms show ?thesis by (simp add: vfs_follow_mount_mnt_def)
next
  case (Some a)
  with assms(2) obtain n where "v_node v a = Some n" by auto
  from follow_mount_done[OF assms(1) this, of mnt] assms(3,4) Some show ?thesis by auto
qed

text \<open>What a step that only adds nodes keeps of the rest of the state.\<close>

definition tree_step :: "('p, 'w) vfs \<Rightarrow> ('p, 'w) vfs \<Rightarrow> bool" where
  "tree_step v v' \<longleftrightarrow> vfs_inv v' \<and> tree_ext (v_tree v) (v_tree v') \<and> (\<exists>t. v' = v\<lparr>v_tree := t\<rparr>)"

lemma tree_step_refl [simp]: "vfs_inv v \<Longrightarrow> tree_step v v"
  by (auto simp: tree_step_def intro: exI[of _ "v_tree v"])

lemma tree_step_trans: "tree_step u v \<Longrightarrow> tree_step v w \<Longrightarrow> tree_step u w"
  by (auto simp: tree_step_def intro: tree_ext_trans)

lemma tree_step_inv: "tree_step v v' \<Longrightarrow> vfs_inv v'"
  by (simp add: tree_step_def)

lemma tree_step_ext: "tree_step v v' \<Longrightarrow> tree_ext (v_tree v) (v_tree v')"
  by (simp add: tree_step_def)

lemma tree_step_frame:
  assumes "tree_step v v'"
  shows "v_files v' = v_files v" "v_mounts v' = v_mounts v" "v_fs_types v' = v_fs_types v"
    "v_next_mnt v' = v_next_mnt v" "v_next_fd v' = v_next_fd v"
  using assms by (auto simp: tree_step_def)

lemma tree_step_keeps:
  "vfs_inv v \<Longrightarrow> keeps_tree (v_tree v) t' \<Longrightarrow> tree_step v (v\<lparr>v_tree := t'\<rparr>)"
  unfolding tree_step_def using vfs_inv_ext[of v t']
  by (auto simp: keeps_tree_def vfs_inv_def)

lemma tree_step_malloc: "vfs_inv v \<Longrightarrow> v_malloc v = (b, v') \<Longrightarrow> tree_step v v'"
  by (auto simp: v_malloc_def intro: tree_step_keeps split: prod.splits)

lemma tree_step_mfree: "vfs_inv v \<Longrightarrow> tree_step v (v_mfree v)"
  unfolding v_mfree_def by (erule tree_step_keeps) simp

lemma sops_lookup_step:
  assumes inv: "vfs_inv v" and r: "sops_lookup v mnt dir name = (r, v')"
  shows "tree_step v v' \<and> (\<forall>c. r = Some c \<longrightarrow> child_node (v_tree v') c)"
proof (cases "\<exists>m d s f. Option.bind mnt (v_mounts v) = Some m \<and> dir = Some d \<and>
    m_sops m = Some s \<and> so_lookup s = Some f")
  case True
  then obtain i m d s f where m: "mnt = Some i" "v_mounts v i = Some m" "dir = Some d"
    "m_sops m = Some s" "so_lookup s = Some f"
    by (auto simp: bind_eq_Some_conv)
  obtain q t' where q: "f (v_tree v) (m_priv m) d name = (q, t')" by fastforce
  from vfs_inv_mount(2)[OF inv m(2)] m(4) have "good_sops s" by (simp add: mount_ok_def)
  with m(5) q inv have "keeps_tree (v_tree v) t'" "\<forall>c. q = Some c \<longrightarrow> child_node t' c"
    unfolding good_sops_def vfs_inv_def by metis+
  moreover have "r = q" "v' = v\<lparr>v_tree := t'\<rparr>"
    using r m q by (auto simp: sops_lookup_def)
  ultimately show ?thesis using tree_step_keeps[OF inv] by simp
next
  case False
  with r have "r = None \<and> v' = v"
    by (auto simp: sops_lookup_def bind_eq_Some_conv split: option.splits prod.splits)
  with inv show ?thesis by simp
qed

lemma find_or_lookup_step:
  assumes inv: "vfs_inv v" and r: "find_or_lookup v mnt cur name = (r, v')"
  shows "tree_step v v' \<and> (\<forall>c. r = Some c \<longrightarrow> child_node (v_tree v') c)"
proof (cases "vfs_find_child_by_name (v_tree v) cur name")
  case None
  with r sops_lookup_step[OF inv] show ?thesis by (simp add: find_or_lookup_def)
next
  case (Some c)
  with r have "r = Some c" "v' = v" by (auto simp: find_or_lookup_def)
  moreover from Some obtain p pn where "v_node v p = Some pn" "c \<in> set (n_children pn)"
    by (rule find_child_Some)
  with inv have "child_node (v_tree v) c"
    unfolding child_node_def vfs_inv_def by (metis node_ok_child(2) tree_invD option.distinct(1))
  ultimately show ?thesis using inv by simp
qed

lemma lookup_walk_done: "lookup_walk [] fl cur mnt v = ((cur, mnt), v)"
  by (subst lookup_walk.simps) simp

lemma lookup_walk_step:
  assumes ne: "cursor \<noteq> []"
    and seg: "takeWhile (\<lambda>c. c \<noteq> CHR ''/'') cursor = seg"
    and slash: "dropWhile (\<lambda>c. c \<noteq> CHR ''/'') cursor = slash"
  shows "lookup_walk cursor fl cur mnt v =
    (if seg = [] then ((None, None), v)
     else case v_malloc v of
       (False, v1) \<Rightarrow> ((None, None), v1)
     | (True, v1) \<Rightarrow>
         (case find_or_lookup v1 mnt cur seg of
            (None, v2) \<Rightarrow> ((None, None), v_mfree v2)
          | (Some c, v2) \<Rightarrow>
              (if slash = [] \<or> tl slash = []
               then (if fl then (vfs_follow_mount_mnt (v_mfree v2) (Some c) mnt, v_mfree v2)
                     else ((Some c, mnt), v_mfree v2))
               else (case vfs_follow_mount_mnt (v_mfree v2) (Some c) mnt of
                       (cur', mnt') \<Rightarrow> lookup_walk (tl slash) fl cur' mnt' (v_mfree v2)))))"
  by (subst lookup_walk.simps) (simp only: ne seg slash Let_def if_False simp_thms)

lemma lookup_walk_inv:
  assumes "vfs_inv v" "\<forall>a. cur = Some a \<longrightarrow> v_node v a \<noteq> None"
    "lookup_walk cursor fl cur mnt v = ((r, mnt'), v')"
  shows "tree_step v v' \<and> (\<forall>c. r = Some c \<longrightarrow> v_node v' c \<noteq> None \<and>
    (cursor \<noteq> [] \<longrightarrow> \<not> fl \<longrightarrow> child_node (v_tree v') c))"
  using assms
proof (induction "length cursor" arbitrary: cursor cur mnt v rule: less_induct)
  case less
  let ?seg = "takeWhile (\<lambda>c. c \<noteq> CHR ''/'') cursor"
  let ?slash = "dropWhile (\<lambda>c. c \<noteq> CHR ''/'') cursor"
  consider "cursor = []" | "cursor \<noteq> []" "?seg = []" | "cursor \<noteq> []" "?seg \<noteq> []" by blast
  then show ?case
  proof cases
    case 1
    with less.prems show ?thesis by (auto simp: lookup_walk_done)
  next
    case 2
    with less.prems show ?thesis by (auto simp: lookup_walk_step[OF 2(1) 2(2) refl])
  next
    case 3
    note step = lookup_walk_step[OF 3(1) refl refl, of fl cur mnt v, unfolded if_not_P[OF 3(2)]]
    obtain b v1 where m: "v_malloc v = (b, v1)" by fastforce
    note s1 = tree_step_malloc[OF less.prems(1) m]
    show ?thesis
    proof (cases b)
      case False
      with m have "v_malloc v = (False, v1)" by simp
      with less.prems(3) s1 show ?thesis unfolding step by simp
    next
      case True
      with m have m: "v_malloc v = (True, v1)" by simp
      obtain q v2 where q: "find_or_lookup v1 mnt cur ?seg = (q, v2)" by fastforce
      from find_or_lookup_step[OF tree_step_inv[OF s1] q]
      have s2: "tree_step v (v_mfree v2)" and
        ch: "\<forall>c. q = Some c \<longrightarrow> child_node (v_tree (v_mfree v2)) c"
        using s1 tree_step_mfree[of v2] by (auto intro: tree_step_trans dest: tree_step_inv)
      from ch have live: "\<forall>c. q = Some c \<longrightarrow> v_node (v_mfree v2) c \<noteq> None"
        by (fastforce simp: child_node_def)
      show ?thesis
      proof (cases q)
        case None
        with less.prems(3) m q s2 show ?thesis unfolding step by simp
      next
        case (Some c)
        obtain d mn where f: "vfs_follow_mount_mnt (v_mfree v2) (Some c) mnt = (d, mn)" by fastforce
        have dl: "\<forall>a. d = Some a \<longrightarrow> v_node (v_mfree v2) a \<noteq> None"
          using follow_mount_live[OF tree_step_inv[OF s2] _ f] live Some by auto
        show ?thesis
        proof (cases "?slash = [] \<or> tl ?slash = []")
          case True
          have res: "(if fl then ((d, mn), v_mfree v2) else ((Some c, mnt), v_mfree v2)) = ((r, mnt'), v')"
            using less.prems(3) q Some unfolding step m
            by (simp only: True f if_True option.case prod.case bool.case simp_thms)
          show ?thesis
          proof (cases fl)
            case True
            with res s2 dl show ?thesis by auto
          next
            case False
            with res s2 ch live Some show ?thesis by auto
          qed
        next
          case False
          have rec: "lookup_walk (tl ?slash) fl d mn (v_mfree v2) = ((r, mnt'), v')"
            using less.prems(3) q Some unfolding step m
            by (simp only: False f if_False option.case prod.case bool.case simp_thms)
          have "tree_step (v_mfree v2) v' \<and> (\<forall>c. r = Some c \<longrightarrow> v_node v' c \<noteq> None \<and>
              (tl ?slash \<noteq> [] \<longrightarrow> \<not> fl \<longrightarrow> child_node (v_tree v') c))"
            by (rule less.hyps[OF _ tree_step_inv[OF s2] dl rec]) (rule length_dropWhile_less[OF 3(1)])
          with s2 False show ?thesis by (auto intro: tree_step_trans)
        qed
      qed
    qed
  qed
qed

text \<open>Without following the last mount, the result is the root or a child, never a mounted root.\<close>

lemma lookup_node_ex_step:
  assumes inv: "vfs_inv v" and r: "vfs_lookup_node_ex v path fl = ((r, mnt), v')"
    and path: "vfs_is_path_valid (Some path)"
  shows "tree_step v v' \<and> (\<forall>c. r = Some c \<longrightarrow> v_node v' c \<noteq> None \<and>
    (\<not> fl \<longrightarrow> t_root (v_tree v') = Some c \<or> child_node (v_tree v') c))"
proof (cases "t_root (v_tree v)")
  case None
  with inv r show ?thesis by (auto simp: vfs_lookup_node_ex_def)
next
  case (Some rt)
  have ti: "tree_inv (v_tree v)" using inv by (simp add: vfs_inv_def)
  from ti Some have rl: "\<forall>a. Some rt = Some a \<longrightarrow> v_node v a \<noteq> None"
    by (auto elim: tree_inv_rootD)
  obtain cur mn where f: "vfs_follow_mount_mnt v (Some rt) None = (cur, mn)" by fastforce
  note fl = follow_mount_live[OF inv rl f]
  show ?thesis
  proof (cases "path = ''/''")
    case True
    with Some r f fl rl inv show ?thesis
      by (auto simp: vfs_lookup_node_ex_def split: if_splits)
  next
    case False
    with Some r f have "lookup_walk (tl path) fl cur mn v = ((r, mnt), v')"
      by (simp add: vfs_lookup_node_ex_def)
    moreover have "tl path \<noteq> []"
      using False path by (cases path) (auto simp: vfs_is_path_valid_def)
    ultimately show ?thesis using lookup_walk_inv[OF inv _, of cur "tl path"] fl by auto
  qed
qed

lemma vfs_lookup_step:
  assumes "vfs_inv v" "vfs_lookup v path = (r, v')"
  shows "tree_step v v' \<and> (\<forall>c. r = Some c \<longrightarrow> v_node v' c \<noteq> None)"
  using assms lookup_node_ex_step[of v "the path" True]
  by (cases path) (auto simp: vfs_lookup_def vfs_is_path_valid_def split: if_splits prod.splits list.splits)

subsection \<open>File descriptors\<close>

lemma vfs_find_file_mem: "vfs_find_file v fd = Some f \<Longrightarrow> (fd, f) \<in> set (v_files v)"
  by (simp add: vfs_find_file_def map_of_SomeD)

lemma vfs_find_file_None: "vfs_find_file v fd = None \<longleftrightarrow> fd \<notin> fst ` set (v_files v)"
  by (simp add: vfs_find_file_def map_of_eq_None_iff)

lemma alloc_fd_loop_free:
  assumes "alloc_fd_loop k v s n = (Some fd, n')" "0 \<le> n" "n \<le> INT_MAX"
  shows "vfs_find_file v fd = None \<and> 0 \<le> fd \<and> fd \<le> INT_MAX \<and> n' = bump_fd fd"
  using assms
proof (induction k v s n rule: alloc_fd_loop.induct)
  case (2 k v s n)
  have "0 \<le> bump_fd n \<and> bump_fd n \<le> INT_MAX"
    using "2.prems"(2,3) by (auto simp: bump_fd_def INT_MAX_def)
  with "2" show ?case by (auto split: if_splits)
qed simp

lemma vfs_alloc_fd_frame:
  assumes "vfs_alloc_fd v = (r, v')"
  shows "v_tree v' = v_tree v" "v_files v' = v_files v" "v_mounts v' = v_mounts v"
    "v_fs_types v' = v_fs_types v" "v_next_mnt v' = v_next_mnt v"
  using assms by (auto simp: vfs_alloc_fd_def Let_def split: prod.splits option.splits)

lemma alloc_fd_loop_next:
  "alloc_fd_loop k v s n = (r, n') \<Longrightarrow> n \<le> INT_MAX \<Longrightarrow> n' \<le> INT_MAX"
proof (induction k v s n rule: alloc_fd_loop.induct)
  case (2 k v s n)
  have "bump_fd n \<le> INT_MAX" using "2.prems"(2) by (auto simp: bump_fd_def INT_MAX_def)
  with "2" show ?case by (auto split: if_splits)
qed simp

lemma vfs_alloc_fd_inv:
  assumes inv: "vfs_inv v" and r: "vfs_alloc_fd v = (r, v')"
  shows "vfs_inv v'"
proof -
  let ?s = "if v_next_fd v < 0 then 0 else v_next_fd v"
  obtain q n where q: "alloc_fd_loop (Suc (length (v_files v))) v ?s ?s = (q, n)" by fastforce
  have "?s \<le> INT_MAX" using inv by (simp add: vfs_inv_def INT_MAX_def)
  from alloc_fd_loop_next[OF q this] have "n \<le> INT_MAX" .
  with r q have "v_next_fd v' \<le> INT_MAX"
    by (auto simp: vfs_alloc_fd_def Let_def simp del: alloc_fd_loop.simps split: option.splits)
  with inv show ?thesis by (auto simp: vfs_inv_def vfs_alloc_fd_frame[OF r])
qed

text \<open>The fd is not in use; the counter never leaves the non-negative integers.\<close>

lemma vfs_alloc_fd_fresh:
  assumes r: "vfs_alloc_fd v = (Inr fd, v')" and inv: "vfs_inv v"
  shows "vfs_find_file v fd = None \<and> 0 \<le> fd \<and> fd \<le> INT_MAX \<and> v_next_fd v' = bump_fd fd"
proof -
  let ?s = "if v_next_fd v < 0 then 0 else v_next_fd v"
  obtain q n where q: "alloc_fd_loop (Suc (length (v_files v))) v ?s ?s = (q, n)" by fastforce
  with r have "q = Some fd" "v_next_fd v' = n"
    by (auto simp: vfs_alloc_fd_def Let_def simp del: alloc_fd_loop.simps split: option.splits)
  moreover have "0 \<le> ?s" "?s \<le> INT_MAX" using inv by (auto simp: vfs_inv_def INT_MAX_def)
  ultimately show ?thesis using alloc_fd_loop_free[OF q[unfolded \<open>q = Some fd\<close>]] by simp
qed

end
