(* ===== verification/Vfs_Reach.thy ===== *)
theory Vfs_Reach
  imports Vfs_Props
begin

text \<open>
  Every operation of the VFS keeps \<open>vfs_inv\<close>, and the states reachable by any sequence of
  operations satisfy it. The theorems on the file table, mounting and unmounting follow.
\<close>

named_theorems op_inv

subsection \<open>File operations\<close>

lemma set_env_frame [simp]:
  "v_files (set_env v e) = v_files v" "v_mounts (set_env v e) = v_mounts v"
  "t_nodes (v_tree (set_env v e)) = t_nodes (v_tree v)" "v_next_fd (set_env v e) = v_next_fd v"
  "v_fs_types (set_env v e) = v_fs_types v" "v_next_mnt (set_env v e) = v_next_mnt v"
  by (simp_all add: set_env_def)

lemma v_mfree_frame [simp]:
  "v_files (v_mfree v) = v_files v" "v_mounts (v_mfree v) = v_mounts v"
  "t_nodes (v_tree (v_mfree v)) = t_nodes (v_tree v)" "v_next_fd (v_mfree v) = v_next_fd v"
  "v_fs_types (v_mfree v) = v_fs_types v" "v_next_mnt (v_mfree v) = v_next_mnt v"
  by (simp_all add: v_mfree_def)

lemma vfs_inv_files:
  "vfs_inv v \<Longrightarrow> files_ok (t_nodes (v_tree v)) fs \<Longrightarrow> vfs_inv (v\<lparr>v_files := fs\<rparr>)"
  by (simp add: vfs_inv_def)

lemma map_fst_set_file:
  "map fst (map (\<lambda>(k, f). if k = fd then (k, file) else (k, f)) fs) = map fst fs"
  by (induction fs) auto

lemma set_file_inv:
  assumes inv: "vfs_inv v" and f: "vfs_find_file v fd = Some f" and node: "f_node f' = f_node f"
  shows "vfs_inv (set_file fd f' v)"
  unfolding set_file_def
proof (rule vfs_inv_files[OF inv])
  have ok: "files_ok (t_nodes (v_tree v)) (v_files v)" using inv by (simp add: vfs_inv_def)
  with vfs_find_file_mem[OF f] node
  show "files_ok (t_nodes (v_tree v)) (map (\<lambda>(k, g). if k = fd then (k, f') else (k, g)) (v_files v))"
    unfolding files_ok_def map_fst_set_file by (fastforce split: if_splits)
qed

lemma set_file_env: "set_file fd f (set_env v e) = set_env (set_file fd f v) e"
  by (simp add: set_file_def set_env_def)

lemma remove_fd_subset: "set (remove_fd fd fs) \<subseteq> set fs"
  by (induction fd fs rule: remove_fd.induct) auto

lemma remove_fd_fst: "distinct (map fst fs) \<Longrightarrow> fst ` set (remove_fd fd fs) = fst ` set fs - {fd}"
  by (induction fd fs rule: remove_fd.induct) auto

lemma remove_fd_distinct: "distinct (map fst fs) \<Longrightarrow> distinct (map fst (remove_fd fd fs))"
proof (induction fd fs rule: remove_fd.induct)
  case (2 fd k f fs)
  then show ?case using remove_fd_subset[of fd fs] by auto
qed simp

lemma files_ok_remove:
  assumes "files_ok N fs" shows "files_ok N (remove_fd fd fs)"
  using assms remove_fd_subset[of fd fs] remove_fd_distinct[of fs fd]
  unfolding files_ok_def by blast

lemma call_open_frame:
  assumes "call_open n file v = (r, file', v')"
  shows "(\<exists>e. v' = set_env v e) \<and> f_node file' = f_node file \<and> f_pos file' = f_pos file"
proof -
  have "v = set_env v (v_env v)" by (simp add: set_env_def)
  with assms show ?thesis by (auto simp: call_open_def split: option.splits prod.splits)
qed

text \<open>
  What a successful \<open>vfs_open\<close> did: the path resolved to a live node that is no directory, and
  exactly one entry, with an fd that was not in use, was added to the file table.
\<close>

lemma vfs_open_ok:
  assumes inv: "vfs_inv v" and r: "vfs_open v path flags = (Inr fd, v')"
  obtains v1 a n fi where "vfs_lookup v path = (Some a, v1)" "tree_step v v1"
    "v_node v1 a = Some n" "n_type n \<noteq> VFS_NODE_DIR" "fd \<notin> fst ` set (v_files v)"
    "0 \<le> fd" "fd \<le> INT_MAX" "v_files v' = (fd, fi) # v_files v" "f_node fi = a" "f_pos fi = 0"
    "t_nodes (v_tree v') = t_nodes (v_tree v1)" "vfs_inv v'"
proof -
  obtain la v1 where l: "vfs_lookup v path = (la, v1)" by fastforce
  from r l obtain a where la: "la = Some a" by (auto simp: vfs_open_def split: option.splits)
  from r l la obtain n where n: "v_node v1 a = Some n" "n_type n \<noteq> VFS_NODE_DIR"
    by (auto simp: vfs_open_def split: option.splits if_splits)
  from r l la n obtain fd' v2 where a2: "vfs_alloc_fd v1 = (Inr fd', v2)"
    by (auto simp: vfs_open_def split: sum.splits prod.splits)
  from r l la n a2 obtain v3 where m: "v_malloc v2 = (True, v3)"
    by (cases "v_malloc v2") (auto simp: vfs_open_def split: bool.splits)
  from r l la n a2 m obtain fi v4 where
    o: "call_open n (new_file a flags (n_priv n)) v3 = (None, fi, v4)"
      "v' = v4\<lparr>v_files := (fd, fi) # v_files v4\<rparr>" "fd' = fd"
    by (auto simp: vfs_open_def split: option.splits prod.splits)
  from vfs_lookup_step[OF inv l] have s1: "tree_step v v1" by simp
  note i1 = tree_step_inv[OF s1] and fr1 = tree_step_frame[OF s1]
  note fresh = vfs_alloc_fd_fresh[OF a2 i1] and fr2 = vfs_alloc_fd_frame[OF a2]
  have s3: "tree_step v2 v3" by (rule tree_step_malloc[OF vfs_alloc_fd_inv[OF i1 a2] m])
  note i3 = tree_step_inv[OF s3] and fr3 = tree_step_frame[OF s3]
  from call_open_frame[OF o(1)] obtain e where e: "v4 = set_env v3 e" "f_node fi = a" "f_pos fi = 0"
    by (auto simp: new_file_def)
  have nodes3: "t_nodes (v_tree v3) = t_nodes (v_tree v1)"
    using m fr2(1) t_malloc_frame(1) by (fastforce simp: v_malloc_def split: prod.splits)
  have files4: "v_files v4 = v_files v" by (simp add: e fr3 fr2 fr1)
  have fdn: "fd \<notin> fst ` set (v_files v)" "0 \<le> fd" "fd \<le> INT_MAX"
    using fresh vfs_find_file_None[of v1 fd] o(3) by (auto simp: fr1)
  have i4: "vfs_inv v4" unfolding e by (rule vfs_inv_env[OF i3])
  have "files_ok (t_nodes (v_tree v4)) ((fd, fi) # v_files v4)"
    using i4 fdn n e nodes3 unfolding vfs_inv_def files_ok_def files4 by auto
  then have "vfs_inv v'" unfolding o(2) by (rule vfs_inv_files[OF i4])
  with that[OF l[unfolded la] s1 n fdn _ e(2,3) _ this] o(2) files4 nodes3 e show thesis by simp
qed

lemma vfs_open_inv [op_inv]:
  assumes inv: "vfs_inv v" and r: "vfs_open v path flags = (r, v')"
  shows "vfs_inv v'"
proof (cases r)
  case (Inr fd)
  with r vfs_open_ok[OF inv] show ?thesis by metis
next
  case (Inl e)
  obtain la v1 where l: "vfs_lookup v path = (la, v1)" by fastforce
  have i1: "vfs_inv v1" using vfs_lookup_step[OF inv l] by (auto dest: tree_step_inv)
  obtain ra v2 where a: "vfs_alloc_fd v1 = (ra, v2)" by fastforce
  have i2: "vfs_inv v2" by (rule vfs_alloc_fd_inv[OF i1 a])
  obtain b v3 where m: "v_malloc v2 = (b, v3)" by fastforce
  have i3: "vfs_inv v3" by (rule vfs_inv_malloc[OF i2 m])
  have "vfs_inv (v_mfree v4)" if "call_open n fi v3 = (q, fi', v4)" for n fi q fi' v4
    using call_open_frame[OF that] vfs_inv_env[OF i3] vfs_inv_mfree by auto
  with r[unfolded Inl] l a m i1 i2 i3 show ?thesis
    by (auto simp: vfs_open_def split: option.splits if_splits sum.splits prod.splits bool.splits)
qed

lemma vfs_read_inv [op_inv]:
  "vfs_inv v \<Longrightarrow> vfs_read v fd b len = (r, v') \<Longrightarrow> vfs_inv v'"
  by (auto simp: vfs_read_def set_file_env intro!: vfs_inv_env set_file_inv
      split: option.splits if_splits prod.splits sum.splits)

lemma vfs_write_inv [op_inv]:
  "vfs_inv v \<Longrightarrow> vfs_write v fd b len = (r, v') \<Longrightarrow> vfs_inv v'"
  by (auto simp: vfs_write_def set_file_env intro!: vfs_inv_env set_file_inv
      split: option.splits if_splits prod.splits sum.splits)

lemma vfs_lseek_inv [op_inv]:
  "vfs_inv v \<Longrightarrow> vfs_lseek v fd off wh = (r, v') \<Longrightarrow> vfs_inv v'"
  by (auto simp: vfs_lseek_def Let_def intro!: set_file_inv split: option.splits if_splits)

lemma vfs_ioctl_inv [op_inv]:
  "vfs_inv v \<Longrightarrow> vfs_ioctl v fd cmd arg = (r, v') \<Longrightarrow> vfs_inv v'"
  by (auto simp: vfs_ioctl_def intro!: vfs_inv_env split: option.splits prod.splits)

lemma vfs_close_inv [op_inv]:
  assumes inv: "vfs_inv v" and r: "vfs_close v fd = (r, v')"
  shows "vfs_inv v'"
proof (cases "vfs_find_file v fd")
  case None
  with inv r show ?thesis by (simp add: vfs_close_def)
next
  case (Some f)
  from r Some obtain e where v': "v' = v_mfree ((set_env v e)\<lparr>v_files := remove_fd fd (v_files v)\<rparr>)"
    by (auto simp: vfs_close_def split: option.splits prod.splits)
  have "files_ok (t_nodes (v_tree (set_env v e))) (remove_fd fd (v_files v))"
    using inv by (auto simp: vfs_inv_def intro: files_ok_remove)
  from vfs_inv_mfree[OF vfs_inv_files[OF vfs_inv_env[OF inv] this]] v' show ?thesis by simp
qed

subsection \<open>Operations on the tree\<close>

lemma tree_op_inv [op_inv]:
  "vfs_inv v \<Longrightarrow> vfs_mknod p name ty fops priv (v_tree v) = (r, t) \<Longrightarrow> vfs_inv (v\<lparr>v_tree := t\<rparr>)"
  "vfs_inv v \<Longrightarrow> vfs_mkdir p name (v_tree v) = (r, t) \<Longrightarrow> vfs_inv (v\<lparr>v_tree := t\<rparr>)"
  "vfs_inv v \<Longrightarrow> vfs_mkdir_p path (v_tree v) = (r, t) \<Longrightarrow> vfs_inv (v\<lparr>v_tree := t\<rparr>)"
  "vfs_inv v \<Longrightarrow> vfs_alloc_dir_node name (v_tree v) = (r, t) \<Longrightarrow> vfs_inv (v\<lparr>v_tree := t\<rparr>)"
  by (auto intro: vfs_inv_ext)

lemma unlink_child_None:
  assumes "unlink_child v c = (None, v')"
  obtains cn q qn where "v_node v c = Some cn" "n_children cn = []" "n_parent cn = Some q"
    "v_node v q = Some qn" "c \<in> set (n_children qn)" "c \<notin> f_node ` snd ` set (v_files v)"
    "v' = v\<lparr>v_tree := free_node c (chain_remove q c (v_tree v))\<rparr>"
  using assms by (force simp: unlink_child_def split: option.splits if_splits)

text \<open>Removing nodes keeps the mount table in order as long as no mounted root is removed.\<close>

lemma mounts_ok_shrink:
  assumes ok: "mounts_ok t M nm"
    and bwd: "\<And>a n'. t_nodes t' a = Some n' \<Longrightarrow>
      \<exists>n. t_nodes t a = Some n \<and> n_mnt n = n_mnt n' \<and> n_type n = n_type n'"
    and roots: "\<And>m mt. M m = Some mt \<Longrightarrow> mount_ok t mt \<Longrightarrow> mount_ok t' mt"
  shows "mounts_ok t' M nm"
  unfolding mounts_ok_def
proof (intro conjI allI impI)
  fix m mt assume "M m = Some mt"
  with ok roots show "m < nm" "mount_ok t' mt" unfolding mounts_ok_def by blast+
next
  fix m m' mt mt' assume "M m = Some mt" "M m' = Some mt'" "m_root mt = m_root mt'"
  with ok show "m = m'" unfolding mounts_ok_def by blast
next
  fix a n m assume "t_nodes t' a = Some n" "n_mnt n = Some m"
  with bwd[of a n] ok show "n_type n = VFS_NODE_DIR" "M m \<noteq> None"
    unfolding mounts_ok_def by metis+
next
  fix a b n k m
  assume "t_nodes t' a = Some n" "t_nodes t' b = Some k" "n_mnt n = Some m" "n_mnt k = Some m"
  with bwd[of a n] bwd[of b k] ok show "a = b" unfolding mounts_ok_def by metis
qed

lemma unlink_child_inv:
  assumes inv: "vfs_inv v" and r: "unlink_child v c = (None, v')"
  shows "vfs_inv v'"
proof -
  from unlink_child_None[OF r] obtain cn q qn where
    c: "v_node v c = Some cn" "n_children cn = []" "n_parent cn = Some q" "v_node v q = Some qn"
      "c \<notin> f_node ` snd ` set (v_files v)"
      "v' = v\<lparr>v_tree := free_node c (chain_remove q c (v_tree v))\<rparr>" by metis
  let ?t = "v_tree v" and ?t' = "free_node c (chain_remove q c (v_tree v))"
  have ti: "tree_inv ?t" and fok: "files_ok (t_nodes ?t) (v_files v)"
    and mok: "mounts_ok ?t (v_mounts v) (v_next_mnt v)" using inv by (auto simp: vfs_inv_def)
  have fr: "t_next ?t' = t_next ?t" "t_root ?t' = t_root ?t" by (simp_all add: chain_remove_def)
  have N: "t_nodes ?t' = (t_nodes ?t)(q \<mapsto> qn\<lparr>n_children := remove1 c (n_children qn)\<rparr>, c := None)"
    using c(4) by (auto simp: chain_remove_def)
  have same: "\<exists>n'. t_nodes ?t' a = Some n' \<and> n_type n' = n_type n \<and> n_parent n' = n_parent n \<and> n_mnt n' = n_mnt n"
    if "a \<noteq> c" "t_nodes ?t a = Some n" for a n
    using that c(4) unfolding N by auto
  have "nodes_inv (t_nodes ?t') (t_next ?t')"
    unfolding N fr using ti c by (intro nodes_inv_remove_leaf) (auto simp: tree_inv_def)
  moreover have "root_ok (t_nodes ?t') (t_root ?t')"
    using ti c(1,3) same unfolding fr tree_inv_def root_ok_def by fastforce
  moreover have "files_ok (t_nodes ?t') (v_files v)"
    unfolding files_ok_def
  proof (intro conjI ballI)
    show "distinct (map fst (v_files v))" using fok by (simp add: files_ok_def)
    fix x assume x: "x \<in> set (v_files v)"
    with c(5) have "f_node (snd x) \<noteq> c" by auto
    with x fok same show "case x of (fd, f) \<Rightarrow> 0 \<le> fd \<and> fd \<le> INT_MAX \<and>
        (\<exists>n. t_nodes ?t' (f_node f) = Some n \<and> n_type n \<noteq> VFS_NODE_DIR)"
      unfolding files_ok_def by fastforce
  qed
  moreover have "mounts_ok ?t' (v_mounts v) (v_next_mnt v)"
  proof (rule mounts_ok_shrink[OF mok])
    fix m mt assume "mount_ok ?t mt"
    with c(1,3) same show "mount_ok ?t' mt" unfolding mount_ok_def fr by fastforce
  next
    fix a n' assume "t_nodes ?t' a = Some n'"
    then show "\<exists>n. t_nodes ?t a = Some n \<and> n_mnt n = n_mnt n' \<and> n_type n = n_type n'"
      unfolding N using c(4) by (auto split: if_splits)
  qed
  ultimately show ?thesis using inv by (simp add: vfs_inv_def tree_inv_def c(6))
qed

lemma unlink_child_error: "unlink_child v c = (Some e, v') \<Longrightarrow> v' = v"
  by (auto simp: unlink_child_def split: option.splits if_splits)

lemma vfs_unlink_inv [op_inv]:
  assumes "vfs_inv v" "vfs_unlink v p name = (r, v')"
  shows "vfs_inv v'"
  using assms unlink_child_inv unlink_child_error
  by (cases r) (force simp: vfs_unlink_def split: option.splits if_splits)+

subsection \<open>Mounting\<close>

lemma vfs_register_inv [op_inv]:
  assumes "vfs_inv v" "\<forall>ty. type = Some ty \<longrightarrow> good_fs_type ty"
    "vfs_register_filesystem v type = (r, v')"
  shows "vfs_inv v'"
  using assms
  by (auto simp: vfs_register_filesystem_def vfs_inv_def split: option.splits if_splits)

lemma nodes_inv_set_mnt:
  assumes inv: "nodes_inv N nxt"
  shows "nodes_inv (N(a := map_option (n_mnt_update f) (N a))) nxt" (is "nodes_inv ?N nxt")
  unfolding nodes_inv_def
proof (intro allI impI)
  fix b n' assume b: "?N b = Some n'"
  then obtain n where n: "N b = Some n" by (auto split: if_splits)
  with b have eq: "n_type n' = n_type n" "n_parent n' = n_parent n" "n_fops n' = n_fops n"
    "n_children n' = n_children n" "n_name n' = n_name n" by (auto split: if_splits)
  have nm: "name_at ?N = name_at N"
    by (auto simp: name_at_def fun_eq_iff option.map_comp comp_def)
  have look: "\<exists>k'. ?N c = Some k' \<and> n_parent k' = n_parent k \<and> n_children k' = n_children k"
    if "N c = Some k" for c k
    using that by (cases "c = a") auto
  note ok = nodes_invD[OF inv n]
  have "\<forall>c \<in> set (n_children n). b < c \<and> (\<exists>m. ?N c = Some m \<and> n_parent m = Some b)"
    using node_ok_child[OF ok] look by metis
  moreover have "\<forall>p. n_parent n = Some p \<longrightarrow> (\<exists>q. ?N p = Some q \<and> b \<in> set (n_children q))"
    using parent_less(2)[OF inv n] look by metis
  ultimately show "node_ok ?N nxt b n'"
    using ok unfolding node_ok_def eq nm by blast
qed

lemma mounts_ok_mnt:
  assumes "mounts_ok t M nm" "t_nodes t a = Some n" "n_mnt n = Some m"
  shows "n_type n = VFS_NODE_DIR" "\<exists>mt. M m = Some mt"
  using assms unfolding mounts_ok_def by blast+

lemma attach_mount_inv:
  assumes inv: "vfs_inv v" and mp: "v_node v mp = Some n" "n_type n = VFS_NODE_DIR" "n_mnt n = None"
    and t: "keeps_tree (v_tree v) t" and r: "m_root mnt = Some r" "fresh_root (v_tree v) t r"
    and s: "\<forall>s. m_sops mnt = Some s \<longrightarrow> good_sops s"
    and place: "t_root (v_tree v) = Some mp \<or> child_node (v_tree v) mp"
  shows "vfs_inv (attach_mount mp mnt (v\<lparr>v_tree := t\<rparr>))"
proof -
  let ?m = "v_next_mnt v"
  let ?N = "(t_nodes t)(mp := map_option (n_mnt_update (\<lambda>_. Some ?m)) (t_nodes t mp))"
  let ?t = "t\<lparr>t_nodes := ?N\<rparr>"
  have inv': "vfs_inv (v\<lparr>v_tree := t\<rparr>)" by (rule vfs_inv_ext[OF inv t])
  then have ti: "tree_inv t" and fok: "files_ok (t_nodes t) (v_files v)"
    and mok: "mounts_ok t (v_mounts v) ?m" by (auto simp: vfs_inv_def)
  have ext: "tree_ext (v_tree v) t" using t inv by (simp add: keeps_tree_def vfs_inv_def)
  from mp(1) obtain n1 where n1: "t_nodes t mp = Some n1" "node_ext n n1" by (rule tree_extD[OF ext])
  from r(2) obtain k where k: "v_node v r = None" "t_nodes t r = Some k" "n_parent k = None"
    "n_type k = VFS_NODE_DIR" by (auto simp: fresh_root_def)
  have kn: "n_mnt k = None" using tree_ext_new(2)[OF ext k(1,2)] .
  have rmp: "r \<noteq> mp" using k(1) mp(1) by auto
  have same: "\<exists>k'. ?N b = Some k' \<and> n_type k' = n_type k \<and> n_parent k' = n_parent k \<and>
      (b \<noteq> mp \<longrightarrow> n_mnt k' = n_mnt k)" if "t_nodes t b = Some k" for b k
    using that by auto
  have mntk: "\<exists>k. t_nodes t b = Some k \<and> n_type k' = n_type k \<and>
      n_mnt k' = (if b = mp then Some ?m else n_mnt k)" if "?N b = Some k'" for b k'
    using that by (auto split: if_splits)
  have old_root: "r' \<noteq> r \<and> r' \<noteq> mp" if mt: "v_mounts v m = Some mt" "m_root mt = Some r'" for m mt r'
    using vfs_inv_mount(2)[OF inv mt(1)] mt(2) k(1) mp place
    by (auto simp: mount_ok_def child_node_def)
  have troot: "t_root t \<noteq> Some r"
    using inv k(1) tree_ext_fields(2)[OF ext] by (auto simp: vfs_inv_def elim: tree_inv_rootD)
  have "tree_inv ?t"
    using ti nodes_inv_set_mnt[of "t_nodes t" "t_next t" mp] same
    unfolding tree_inv_def root_ok_def by fastforce
  moreover have "files_ok ?N (v_files v)"
    using fok same unfolding files_ok_def by fastforce
  moreover have "mounts_ok ?t ((v_mounts v)(?m \<mapsto> mnt)) (Suc ?m)"
    unfolding mounts_ok_def
  proof (intro conjI allI impI)
    fix m mt assume m: "((v_mounts v)(?m \<mapsto> mnt)) m = Some mt"
    show "m < Suc ?m"
      using m mok by (auto simp: mounts_ok_def less_Suc_eq split: if_splits)
    show "mount_ok ?t mt"
    proof (cases "m = ?m")
      case True
      with m k kn rmp r(1) s troot show ?thesis by (auto simp: mount_ok_def)
    next
      case False
      with m have m: "v_mounts v m = Some mt" by simp
      with mok have "mount_ok t mt" by (auto simp: mounts_ok_def)
      with old_root[OF m] show ?thesis by (auto simp: mount_ok_def)
    qed
  next
    fix m m' mt mt'
    assume "((v_mounts v)(?m \<mapsto> mnt)) m = Some mt" "((v_mounts v)(?m \<mapsto> mnt)) m' = Some mt'"
      "m_root mt = m_root mt'"
    with mok old_root r(1) show "m = m'" unfolding mounts_ok_def
      by (auto split: if_splits)
  next
    fix a k' m assume a: "t_nodes ?t a = Some k'" "n_mnt k' = Some m"
    then obtain k0 where k0: "t_nodes t a = Some k0" "n_type k' = n_type k0"
      "Some m = (if a = mp then Some ?m else n_mnt k0)" using mntk[of a k'] by auto
    have "n_type k0 = VFS_NODE_DIR \<and> (a \<noteq> mp \<longrightarrow> v_mounts v m \<noteq> None)"
    proof (cases "a = mp")
      case True
      with k0 n1 mp(2) show ?thesis by (simp add: node_extD)
    next
      case False
      with k0(3) have "n_mnt k0 = Some m" by simp
      from mounts_ok_mnt[OF mok k0(1) this] show ?thesis by auto
    qed
    with k0 show "n_type k' = VFS_NODE_DIR" "((v_mounts v)(?m \<mapsto> mnt)) m \<noteq> None"
      by (auto split: if_splits)
  next
    fix a b ka kb m
    assume *: "t_nodes ?t a = Some ka" "t_nodes ?t b = Some kb" "n_mnt ka = Some m" "n_mnt kb = Some m"
    obtain k1 where k1: "t_nodes t a = Some k1" "Some m = (if a = mp then Some ?m else n_mnt k1)"
      using mntk[of a ka] * by auto
    obtain k2 where k2: "t_nodes t b = Some k2" "Some m = (if b = mp then Some ?m else n_mnt k2)"
      using mntk[of b kb] * by auto
    have old: "n_mnt k \<noteq> Some ?m" if "t_nodes t c = Some k" for c k
    proof
      assume "n_mnt k = Some ?m"
      with that mok obtain mt where "v_mounts v ?m = Some mt" unfolding mounts_ok_def by blast
      with mok show False unfolding mounts_ok_def by blast
    qed
    have uniq: "a = b" if "n_mnt k1 = Some m" "n_mnt k2 = Some m"
      using mok k1(1) k2(1) that unfolding mounts_ok_def by metis
    show "a = b"
      using k1(2)[symmetric] k2(2)[symmetric] old[OF k1(1)] old[OF k2(1)] uniq
      by (simp split: if_splits)
  qed
  ultimately show ?thesis using inv by (simp add: vfs_inv_def attach_mount_def Let_def)
qed

lemma new_mount_sel [simp]:
  "m_root (new_mount mp ty) = None" "m_sops (new_mount mp ty) = None"
  by (simp_all add: new_mount_def)

lemma v_malloc_nodes: "v_malloc v = (b, v') \<Longrightarrow> t_nodes (v_tree v') = t_nodes (v_tree v) \<and> t_root (v_tree v') = t_root (v_tree v)"
  by (auto simp: v_malloc_def t_malloc_frame split: prod.splits)

text \<open>A place where a filesystem may be mounted: a free directory that is no mounted root.\<close>

definition mount_place :: "('p, 'w) vfs_tree \<Rightarrow> addr \<Rightarrow> bool" where
  "mount_place t mp \<longleftrightarrow>
     (\<exists>n. t_nodes t mp = Some n \<and> n_type n = VFS_NODE_DIR \<and> n_mnt n = None) \<and>
     (t_root t = Some mp \<or> child_node t mp)"

lemma mount_place_ext:
  assumes "mount_place t mp" "tree_ext t t'" shows "mount_place t' mp"
proof -
  from assms(1) obtain n where n: "t_nodes t mp = Some n" "n_type n = VFS_NODE_DIR" "n_mnt n = None"
    "t_root t = Some mp \<or> n_parent n \<noteq> None"
    by (auto simp: mount_place_def child_node_def)
  from n(1) obtain n' where "t_nodes t' mp = Some n'" "node_ext n n'" by (rule tree_extD[OF assms(2)])
  with n tree_ext_fields(2)[OF assms(2)] show ?thesis
    by (auto simp: mount_place_def child_node_def node_extD)
qed

lemma vfs_try_mount_inv:
  assumes inv: "vfs_inv v" and mp: "mount_place (v_tree v) mp" and ty: "good_fs_type ty"
    and r: "vfs_try_mount mp ty source data v = (r, v')"
  shows "vfs_inv v'" "r \<noteq> None \<Longrightarrow> tree_step v v'"
proof -
  obtain b v1 where m: "v_malloc v = (b, v1)" by fastforce
  note s1 = tree_step_malloc[OF inv m] and i1 = tree_step_inv[OF tree_step_malloc[OF inv m]]
  have "vfs_inv v' \<and> (r \<noteq> None \<longrightarrow> tree_step v v')"
  proof (cases "b \<and> fs_mount ty \<noteq> None")
    case False
    with r m s1 i1 tree_step_trans[OF s1 tree_step_mfree[OF i1]] show ?thesis
      by (cases b) (auto simp: vfs_try_mount_def dest: tree_step_inv)
  next
    case True
    then obtain f where f: "fs_mount ty = Some f" "v_malloc v = (True, v1)" using m by auto
    obtain q mnt t where q: "f (v_tree v1) (new_mount mp ty) source data = (q, mnt, t)" by (metis prod_cases3)
    from ty f(1) have "good_mount f" by (simp add: good_fs_type_def)
    with q i1 have k: "keeps_tree (v_tree v1) t" and
      g: "q = None \<Longrightarrow> (\<forall>root. m_root mnt = Some root \<longrightarrow> fresh_root (v_tree v1) t root) \<and>
          (\<forall>s. m_sops mnt = Some s \<longrightarrow> good_sops s)"
      unfolding good_mount_def vfs_inv_def by (metis new_mount_sel)+
    note s2 = tree_step_keeps[OF i1 k]
    have s3: "tree_step v (v_mfree (v1\<lparr>v_tree := t\<rparr>))"
      using tree_step_trans[OF s1 tree_step_trans[OF s2 tree_step_mfree[OF tree_step_inv[OF s2]]]] .
    show ?thesis
    proof (cases "q = None \<and> m_root mnt \<noteq> None")
      case False
      with r f q s3 show ?thesis
        by (auto simp: vfs_try_mount_def dest: tree_step_inv split: option.splits if_splits)
    next
      case True
      then obtain root where root: "q = None" "m_root mnt = Some root" by auto
      have res: "r = None" "v' = attach_mount mp mnt (v1\<lparr>v_tree := t\<rparr>)"
        using r f q root by (auto simp: vfs_try_mount_def)
      from mount_place_ext[OF mp tree_step_ext[OF s1]] obtain n where
        n: "v_node v1 mp = Some n" "n_type n = VFS_NODE_DIR" "n_mnt n = None"
          "t_root (v_tree v1) = Some mp \<or> child_node (v_tree v1) mp"
        by (auto simp: mount_place_def)
      have "vfs_inv v'" unfolding res(2)
        by (rule attach_mount_inv[OF i1 n(1-3) k root(2)]) (use g root n in auto)
      with res show ?thesis by simp
    qed
  qed
  then show "vfs_inv v'" "r \<noteq> None \<Longrightarrow> tree_step v v'" by auto
qed

lemma try_types_inv:
  assumes "vfs_inv v" "mount_place (v_tree v) mp" "\<forall>ty \<in> set tys. good_fs_type ty"
    "try_types mp tys source data v = (r, v')"
  shows "vfs_inv v'"
  using assms
proof (induction mp tys source data v rule: try_types.induct)
  case (2 mp ty tys source data v)
  obtain q v1 where q: "vfs_try_mount mp ty source data v = (q, v1)" by fastforce
  have t: "good_fs_type ty" using "2.prems"(3) by simp
  note i = vfs_try_mount_inv[OF "2.prems"(1,2) t q]
  show ?case
  proof (cases "fs_flags ty AND VFS_FS_REQUIRES_DEV = 0")
    case True
    with 2 show ?thesis by simp
  next
    case False
    show ?thesis
    proof (cases q)
      case None
      with 2 q False i show ?thesis by simp
    next
      case (Some e)
      with i have s: "tree_step v v1" by simp
      have "try_types mp tys source data v1 = (r, v')" using "2.prems"(4) q False Some by simp
      with "2.IH"(2)[OF False _ Some i(1) mount_place_ext[OF "2.prems"(2) tree_step_ext[OF s]]] q "2.prems"(3)
      show ?thesis by simp
    qed
  qed
qed simp

lemma vfs_mount_inv [op_inv]:
  assumes inv: "vfs_inv v" and r: "vfs_mount v source target fstype data = (r, v')"
  shows "vfs_inv v'"
proof (cases "vfs_is_path_valid target")
  case False
  with r inv show ?thesis by (simp add: vfs_mount_def)
next
  case True
  then have pv: "vfs_is_path_valid (Some (the target))" by (cases target) (auto simp: vfs_is_path_valid_def)
  obtain q mn v1 where l: "vfs_lookup_node_ex v (the target) False = ((q, mn), v1)" by (metis prod.exhaust)
  from lookup_node_ex_step[OF inv l pv] have s: "tree_step v v1" and
    live: "\<forall>c. q = Some c \<longrightarrow> v_node v1 c \<noteq> None \<and> (t_root (v_tree v1) = Some c \<or> child_node (v_tree v1) c)"
    by auto
  note i1 = tree_step_inv[OF s]
  have tys: "\<forall>ty \<in> set (v_fs_types v1). good_fs_type ty" using i1 by (simp add: vfs_inv_def)
  show ?thesis
  proof (cases "\<exists>mp n. q = Some mp \<and> v_node v1 mp = Some n \<and> n_type n = VFS_NODE_DIR \<and> n_mnt n = None")
    case False
    with r True l live i1 show ?thesis
      by (auto simp: vfs_mount_def split: option.splits if_splits)
  next
    case True
    then obtain mp n where n: "q = Some mp" "v_node v1 mp = Some n" "n_type n = VFS_NODE_DIR" "n_mnt n = None"
      by auto
    with live have place: "mount_place (v_tree v1) mp" by (auto simp: mount_place_def)
    show ?thesis
    proof (cases fstype)
      case None
      with r \<open>vfs_is_path_valid target\<close> l n have "try_types mp (v_fs_types v1) source data v1 = (r, v')"
        by (simp add: vfs_mount_def)
      then show ?thesis by (rule try_types_inv[OF i1 place tys])
    next
      case (Some name)
      show ?thesis
      proof (cases "vfs_find_filesystem v1 name")
        case None
        with r \<open>vfs_is_path_valid target\<close> l n Some i1 show ?thesis by (simp add: vfs_mount_def)
      next
        case (Some ty)
        with tys have "good_fs_type ty"
          by (auto simp: vfs_find_filesystem_def dest: find_Some_iff_mem)
        moreover have "vfs_try_mount mp ty source data v1 = (r, v')"
          using r \<open>vfs_is_path_valid target\<close> l n \<open>fstype = Some name\<close> Some by (simp add: vfs_mount_def)
        ultimately show ?thesis by (rule vfs_try_mount_inv(1)[OF i1 place])
      qed
    qed
  qed
qed

end
