(* ===== verification/Vfs_Safety.thy ===== *)
theory Vfs_Safety
  imports Vfs_Reach
begin

text \<open>
  Unmounting, initialisation, the reachable states of the VFS, and its safety properties: no
  open file ever refers to a freed node, no two entries of the file table share an fd, mounts
  never stack.
\<close>

subsection \<open>Unmounting\<close>

lemma clear_mnt_frame [simp]:
  "t_next (clear_mnt mp t) = t_next t" "t_root (clear_mnt mp t) = t_root t"
  "t_ready (clear_mnt mp t) = t_ready t" "t_env (clear_mnt mp t) = t_env t"
  by (simp_all add: clear_mnt_def)

text \<open>What \<open>vfs_umount\<close> did when it returned 0.\<close>

definition umounted ::
  "('p, 'w) vfs \<Rightarrow> addr \<Rightarrow> addr \<Rightarrow> addr \<Rightarrow> ('p, 'w) vfs_tree \<Rightarrow> ('p, 'w) vfs \<Rightarrow> bool" where
  "umounted v mp m r t v' \<longleftrightarrow>
     (\<exists>n. v_node v mp = Some n \<and> n_mnt n = Some m) \<and>
     (\<exists>mt. v_mounts v m = Some mt \<and> m_root mt = Some r) \<and>
     keeps_tree (v_tree v) t \<and>
     (\<forall>(fd, f) \<in> set (v_files v). \<not> vfs_node_under_root (v_tree v) (f_node f) (Some r)) \<and>
     v' = v_mfree (v\<lparr>v_tree := vfs_free_subtree (Some r) (clear_mnt mp t),
                     v_mounts := (v_mounts v)(m := None)\<rparr>)"

lemma vfs_umount_None:
  assumes inv: "vfs_inv v" and r: "vfs_umount v target = (None, v')"
  obtains v1 mp mn m root t where "vfs_lookup_node_ex v (the target) False = ((Some mp, mn), v1)"
    "tree_step v v1" "umounted v1 mp m root t v'"
proof -
  from r have valid: "vfs_is_path_valid target" by (auto simp: vfs_umount_def split: if_splits)
  then have pv: "vfs_is_path_valid (Some (the target))"
    by (cases target) (auto simp: vfs_is_path_valid_def)
  obtain q mn v1 where l: "vfs_lookup_node_ex v (the target) False = ((q, mn), v1)" by (metis prod.exhaust)
  from lookup_node_ex_step[OF inv l pv] have s: "tree_step v v1" by simp
  note i1 = tree_step_inv[OF s]
  from r valid l obtain mp n m where mp: "q = Some mp" "v_node v1 mp = Some n" "n_mnt n = Some m"
    by (auto simp: vfs_umount_def bind_eq_Some_conv split: option.splits)
  with r valid l obtain mt where mt: "v_mounts v1 m = Some mt"
    by (auto simp: vfs_umount_def split: option.splits)
  from vfs_inv_mount(2)[OF i1 mt] obtain root where root: "m_root mt = Some root"
    and gs: "\<forall>s. m_sops mt = Some s \<longrightarrow> good_sops s" by (auto simp: mount_ok_def)
  define t where "t = (case Option.bind (m_sops mt) so_umount of
    None \<Rightarrow> v_tree v1 | Some f \<Rightarrow> snd (f (v_tree v1) (m_priv mt)))"
  have k: "keeps_tree (v_tree v1) t"
  proof (cases "Option.bind (m_sops mt) so_umount")
    case (Some f)
    then obtain s where "m_sops mt = Some s" "so_umount s = Some f" by (auto simp: bind_eq_Some_conv)
    with gs Some show ?thesis
      unfolding t_def good_sops_def by (cases "f (v_tree v1) (m_priv mt)") auto
  qed (simp add: t_def)
  have "\<forall>(fd, f) \<in> set (v_files v1). \<not> vfs_node_under_root (v_tree v1) (f_node f) (Some root)"
    "v' = v_mfree (v1\<lparr>v_tree := vfs_free_subtree (Some root) (clear_mnt mp t),
                     v_mounts := (v_mounts v1)(m := None)\<rparr>)"
    using r valid l mp mt root unfolding t_def
    by (auto simp: vfs_umount_def Let_def split: if_splits)
  with that[OF l[unfolded mp(1)] s] mp mt root k show thesis by (auto simp: umounted_def)
qed

lemma clear_mnt_at:
  "t_nodes (clear_mnt mp t) a = map_option (\<lambda>n. if a = mp then n\<lparr>n_mnt := None\<rparr> else n) (t_nodes t a)"
  by (cases "t_nodes t a") (auto simp: clear_mnt_def)

lemma clear_mnt_node:
  assumes "t_nodes t a = Some n"
  obtains n' where "t_nodes (clear_mnt mp t) a = Some n'" "n_type n' = n_type n"
    "n_parent n' = n_parent n" "n_fops n' = n_fops n" "n_priv n' = n_priv n" "n_name n' = n_name n"
    "n_children n' = n_children n" "n_mnt n' = (if a = mp then None else n_mnt n)"
  by (rule that[of "if a = mp then n\<lparr>n_mnt := None\<rparr> else n"])
     (simp_all add: clear_mnt_at assms)

lemma mounts_ok_uniq:
  assumes ok: "mounts_ok t M nm" and "t_nodes t a = Some n" "t_nodes t b = Some k"
    "n_mnt n = Some m" "n_mnt k = Some m"
  shows "a = b"
  using ok[unfolded mounts_ok_def, THEN conjunct2, THEN conjunct2, THEN conjunct2] assms(2-) by blast

lemma mounts_ok_root_inj:
  assumes ok: "mounts_ok t M nm" and "M m = Some mt" "M m' = Some mt'" "m_root mt = m_root mt'"
  shows "m = m'"
  using ok[unfolded mounts_ok_def, THEN conjunct2, THEN conjunct1] assms(2-) by blast

lemma mounts_ok_root:
  assumes "mounts_ok t M nm" "M m = Some mt" "m_root mt = Some r"
  obtains n where "t_nodes t r = Some n" "n_parent n = None" "n_type n = VFS_NODE_DIR"
    "n_mnt n = None" "t_root t \<noteq> Some r" "m < nm" "\<forall>s. m_sops mt = Some s \<longrightarrow> good_sops s"
proof -
  from assms(1)[unfolded mounts_ok_def, THEN conjunct1] assms(2)
  have "m < nm" "mount_ok t mt" by blast+
  from this(2) assms(3) obtain n where "t_nodes t r = Some n" "n_parent n = None"
    "n_type n = VFS_NODE_DIR" "n_mnt n = None" "t_root t \<noteq> Some r"
    "\<forall>s. m_sops mt = Some s \<longrightarrow> good_sops s"
    by (auto simp: mount_ok_def)
  with \<open>m < nm\<close> show thesis by (intro that)
qed

lemma desc_mono:
  assumes "\<And>b m q. N' b = Some m \<Longrightarrow> n_parent m = Some q \<Longrightarrow> \<exists>m'. N b = Some m' \<and> n_parent m' = Some q"
  shows "desc N' a b \<Longrightarrow> desc N a b"
proof (induction rule: desc.induct)
  case (desc_step b c m)
  with assms[of c m b] show ?case by (auto intro: desc.desc_step)
qed (rule desc_refl)

lemma desc_clear_mnt: "desc (t_nodes (clear_mnt mp t)) a b \<longleftrightarrow> desc (t_nodes t) a b"
proof
  show "desc (t_nodes (clear_mnt mp t)) a b \<Longrightarrow> desc (t_nodes t) a b"
    by (erule desc_mono[rotated]) (auto simp: clear_mnt_def split: if_splits)
  show "desc (t_nodes t) a b \<Longrightarrow> desc (t_nodes (clear_mnt mp t)) a b"
    by (erule desc_mono[rotated]) (auto simp: clear_mnt_def)
qed

text \<open>An old node is under an old root after an extension only if it was before.\<close>

lemma desc_ext_old:
  assumes "tree_ext t t'" "nodes_inv (t_nodes t) nxt"
  shows "desc (t_nodes t') a b \<Longrightarrow> t_nodes t b \<noteq> None \<Longrightarrow> desc (t_nodes t) a b"
proof (induction rule: desc.induct)
  case (desc_step b c m)
  then obtain n where n: "t_nodes t c = Some n" by auto
  then obtain n' where "t_nodes t' c = Some n'" "node_ext n n'" by (rule tree_extD[OF assms(1)])
  with desc_step have "n_parent n = Some b" by (auto simp: node_extD)
  with parent_less(2)[OF assms(2) n] desc_step n show ?case by (auto intro: desc.desc_step)
qed (rule desc_refl)

text \<open>
  The facts the following lemmas share: \<open>t\<close> is the tree after the \<open>umount\<close> callback, \<open>r\<close> the
  mounted root, \<open>mp\<close> the mountpoint.
\<close>

definition detaching ::
  "('p, 'w) vfs_tree \<Rightarrow> (addr \<Rightarrow> ('p, 'w) vfs_mount option) \<Rightarrow> addr \<Rightarrow> addr \<Rightarrow> addr \<Rightarrow> addr \<Rightarrow> bool" where
  "detaching t M nm mp m r \<longleftrightarrow>
     tree_inv t \<and> mounts_ok t M nm \<and> (\<exists>mt. M m = Some mt \<and> m_root mt = Some r) \<and>
     (\<exists>n. t_nodes t mp = Some n \<and> n_mnt n = Some m)"

abbreviation after_umount :: "addr \<Rightarrow> addr \<Rightarrow> ('p, 'w) vfs_tree \<Rightarrow> ('p, 'w) vfs_tree" where
  "after_umount mp r t \<equiv> vfs_free_subtree (Some r) (clear_mnt mp t)"

lemma umounted_detaching:
  assumes inv: "vfs_inv v" and u: "umounted v mp m r t v'"
  shows "detaching t (v_mounts v) (v_next_mnt v) mp m r"
    "vfs_inv (v\<lparr>v_tree := t\<rparr>)" "tree_ext (v_tree v) t"
proof -
  from u obtain mpn where k: "keeps_tree (v_tree v) t" and mpn: "v_node v mp = Some mpn" "n_mnt mpn = Some m"
    by (auto simp: umounted_def)
  from k inv show ext: "tree_ext (v_tree v) t" by (simp add: keeps_tree_def vfs_inv_def)
  show i: "vfs_inv (v\<lparr>v_tree := t\<rparr>)" by (rule vfs_inv_ext[OF inv k])
  from mpn(1) obtain n where "t_nodes t mp = Some n" "node_ext mpn n" by (rule tree_extD[OF ext])
  with i u mpn(2) show "detaching t (v_mounts v) (v_next_mnt v) mp m r"
    by (auto simp: detaching_def vfs_inv_def umounted_def node_extD)
qed

lemma detaching_root:
  assumes "detaching t M nm mp m r"
  obtains n where "t_nodes t r = Some n" "n_parent n = None" "t_root t \<noteq> Some r"
proof -
  from assms obtain mt where "mounts_ok t M nm" "M m = Some mt" "m_root mt = Some r"
    by (auto simp: detaching_def)
  then show thesis by (rule mounts_ok_root) (rule that)
qed

lemma detaching_freed:
  assumes d: "detaching t M nm mp m r"
  shows "freed (t_nodes (clear_mnt mp t)) {b. desc (t_nodes t) r b} (clear_mnt mp t) (after_umount mp r t)"
proof -
  from d obtain n where "t_nodes t r = Some n" by (rule detaching_root)
  then obtain n' where n': "t_nodes (clear_mnt mp t) r = Some n'" by (rule clear_mnt_node)
  have "nodes_inv (t_nodes (clear_mnt mp t)) (t_next (clear_mnt mp t))"
    using nodes_inv_set_mnt[of "t_nodes t" "t_next t"] d
    by (simp add: clear_mnt_def tree_inv_def detaching_def)
  from vfs_free_subtree_freed[OF this n'] show ?thesis by (simp add: desc_clear_mnt)
qed

lemma detaching_nodes:
  assumes "detaching t M nm mp m r"
  shows "t_nodes (after_umount mp r t) b =
    (if desc (t_nodes t) r b then None else t_nodes (clear_mnt mp t) b)"
  using detaching_freed[OF assms] by (simp add: freed_def)

lemma detaching_frame:
  assumes "detaching t M nm mp m r"
  shows "t_next (after_umount mp r t) = t_next t" "t_root (after_umount mp r t) = t_root t"
  using detaching_freed[OF assms] by (simp_all add: freed_def)

text \<open>Nodes outside the subtree survive, with the mark of the mount cleared at the mountpoint.\<close>

lemma detaching_keep:
  assumes d: "detaching t M nm mp m r" and a: "\<not> desc (t_nodes t) r a" "t_nodes t a = Some n"
  obtains n' where "t_nodes (after_umount mp r t) a = Some n'" "n_type n' = n_type n"
    "n_parent n' = n_parent n" "n_mnt n' = (if a = mp then None else n_mnt n)"
proof -
  from a(2) obtain n' where "t_nodes (clear_mnt mp t) a = Some n'" "n_type n' = n_type n"
    "n_parent n' = n_parent n" "n_mnt n' = (if a = mp then None else n_mnt n)" by (rule clear_mnt_node)
  with a(1) detaching_nodes[OF d] that show thesis by auto
qed

lemma detaching_back:
  assumes d: "detaching t M nm mp m r" and a: "t_nodes (after_umount mp r t) a = Some n'"
  obtains n where "t_nodes t a = Some n" "n_type n = n_type n'"
    "n_mnt n' = (if a = mp then None else n_mnt n)"
proof -
  from a have "t_nodes (clear_mnt mp t) a = Some n'"
    unfolding detaching_nodes[OF d] by (simp split: if_splits)
  then obtain n where n: "t_nodes t a = Some n" "n' = (if a = mp then n\<lparr>n_mnt := None\<rparr> else n)"
    by (auto simp: clear_mnt_at)
  show thesis by (rule that[OF n(1)]) (simp_all add: n(2))
qed

lemma detached_keeps:
  assumes "n_parent n = None" "t_nodes t a = Some n" "a \<noteq> r"
  shows "\<not> desc (t_nodes t) r a"
  using desc_parent[of "t_nodes t" r a n] assms by auto

lemma detaching_tree_inv:
  assumes d: "detaching t M nm mp m r"
  shows "tree_inv (after_umount mp r t)"
  unfolding tree_inv_def
proof
  from d have ti: "tree_inv t" by (simp add: detaching_def)
  from d obtain rn where rn: "t_nodes t r = Some rn" "n_parent rn = None" "t_root t \<noteq> Some r"
    by (rule detaching_root)
  from rn(1) obtain rn' where rn': "t_nodes (clear_mnt mp t) r = Some rn'" "n_parent rn' = n_parent rn"
    by (rule clear_mnt_node)
  have ci: "nodes_inv (t_nodes (clear_mnt mp t)) (t_next t)"
    using nodes_inv_set_mnt[of "t_nodes t" "t_next t"] ti by (simp add: clear_mnt_def tree_inv_def)
  have "t_nodes (after_umount mp r t) =
      (\<lambda>b. if desc (t_nodes (clear_mnt mp t)) r b then None else t_nodes (clear_mnt mp t) b)"
    by (simp add: fun_eq_iff detaching_nodes[OF d] desc_clear_mnt)
  then show "nodes_inv (t_nodes (after_umount mp r t)) (t_next (after_umount mp r t))"
    using nodes_inv_remove_subtree[OF ci rn'(1)] rn'(2) rn(2) by (simp add: detaching_frame[OF d])
  show "root_ok (t_nodes (after_umount mp r t)) (t_root (after_umount mp r t))"
    unfolding root_ok_def detaching_frame[OF d]
  proof (intro allI impI)
    fix a assume a: "t_root t = Some a"
    with ti obtain n where n: "t_nodes t a = Some n" "n_parent n = None" "n_type n = VFS_NODE_DIR"
      by (rule tree_inv_rootD)
    have "a \<noteq> r" using a rn(3) by auto
    from detached_keeps[OF n(2,1) this] obtain n' where
      "t_nodes (after_umount mp r t) a = Some n'" "n_type n' = n_type n" "n_parent n' = n_parent n"
      using detaching_keep[OF d _ n(1)] by metis
    with n show "\<exists>n. t_nodes (after_umount mp r t) a = Some n \<and> n_parent n = None \<and> n_type n = VFS_NODE_DIR"
      by auto
  qed
qed

lemma detaching_files_ok:
  assumes d: "detaching t M nm mp m r" and ok: "files_ok (t_nodes t) fs"
    and out: "\<forall>(fd, f) \<in> set fs. \<not> desc (t_nodes t) r (f_node f)"
  shows "files_ok (t_nodes (after_umount mp r t)) fs"
  unfolding files_ok_def
proof (intro conjI ballI)
  show "distinct (map fst fs)" using ok by (simp add: files_ok_def)
  fix x assume x: "x \<in> set fs"
  obtain fd fi where xf: "x = (fd, fi)" by (cases x)
  from ok x xf obtain n where n: "0 \<le> fd" "fd \<le> INT_MAX" "t_nodes t (f_node fi) = Some n"
    "n_type n \<noteq> VFS_NODE_DIR" by (auto simp: files_ok_def)
  from out x xf have "\<not> desc (t_nodes t) r (f_node fi)" by auto
  then obtain n' where "t_nodes (after_umount mp r t) (f_node fi) = Some n'" "n_type n' = n_type n"
    by (rule detaching_keep[OF d _ n(3)])
  with n xf show "case x of (fd, f) \<Rightarrow> 0 \<le> fd \<and> fd \<le> INT_MAX \<and>
      (\<exists>n. t_nodes (after_umount mp r t) (f_node f) = Some n \<and> n_type n \<noteq> VFS_NODE_DIR)"
    by auto
qed

lemma detaching_mount_ok:
  assumes d: "detaching t M nm mp m r" and m': "M m' = Some mt'" "m' \<noteq> m"
  shows "mount_ok (after_umount mp r t) mt'"
proof -
  from d obtain mt where mok: "mounts_ok t M nm" and mt: "M m = Some mt" "m_root mt = Some r"
    by (auto simp: detaching_def)
  from mok[unfolded mounts_ok_def, THEN conjunct1] m'(1) have ok: "mount_ok t mt'" by blast
  then obtain r' where r': "m_root mt' = Some r'" by (auto simp: mount_ok_def)
  from mok m'(1) r' obtain n where n: "t_nodes t r' = Some n" "n_parent n = None"
    "n_type n = VFS_NODE_DIR" "n_mnt n = None" "t_root t \<noteq> Some r'" by (rule mounts_ok_root)
  have "r' \<noteq> r" using mounts_ok_root_inj[OF mok m'(1) mt(1)] m'(2) mt(2) r' by auto
  from detaching_keep[OF d detached_keeps[OF n(2,1) this] n(1)] obtain n' where
    "t_nodes (after_umount mp r t) r' = Some n'" "n_type n' = n_type n" "n_parent n' = n_parent n"
    "n_mnt n' = (if r' = mp then None else n_mnt n)" .
  with n r' ok show ?thesis by (auto simp: mount_ok_def detaching_frame[OF d])
qed

lemma detaching_mounts_ok:
  assumes d: "detaching t M nm mp m r"
  shows "mounts_ok (after_umount mp r t) (M(m := None)) nm"
  unfolding mounts_ok_def
proof (intro conjI allI impI)
  from d have mok: "mounts_ok t M nm" by (simp add: detaching_def)
  { fix m' mt' assume "(M(m := None)) m' = Some mt'"
    then have m': "M m' = Some mt'" "m' \<noteq> m" by (auto split: if_splits)
    from mok[unfolded mounts_ok_def, THEN conjunct1] m'(1) show "m' < nm" by blast
    from detaching_mount_ok[OF d m'] show "mount_ok (after_umount mp r t) mt'" . }
  { fix a b mt1 mt2
    assume "(M(m := None)) a = Some mt1" "(M(m := None)) b = Some mt2" "m_root mt1 = m_root mt2"
    with mounts_ok_root_inj[OF mok] show "a = b" by (auto split: if_splits) }
  { fix a n m' assume a: "t_nodes (after_umount mp r t) a = Some n" "n_mnt n = Some m'"
    from detaching_back[OF d a(1)] a(2) obtain k where
      k: "t_nodes t a = Some k" "n_type k = n_type n" "n_mnt k = Some m'" "a \<noteq> mp"
      by (metis option.distinct(1))
    from d obtain n0 where "t_nodes t mp = Some n0" "n_mnt n0 = Some m" by (auto simp: detaching_def)
    with mounts_ok_uniq[OF mok k(1) _ k(3)] k(4) have "m' \<noteq> m" by blast
    with mounts_ok_mnt[OF mok k(1,3)] k(2)
    show "n_type n = VFS_NODE_DIR" "(M(m := None)) m' \<noteq> None" by auto }
  { fix a b n k m'
    assume *: "t_nodes (after_umount mp r t) a = Some n" "t_nodes (after_umount mp r t) b = Some k"
      "n_mnt n = Some m'" "n_mnt k = Some m'"
    from detaching_back[OF d *(1)] *(3) obtain n1 where n1: "t_nodes t a = Some n1" "n_mnt n1 = Some m'"
      by (metis option.distinct(1))
    from detaching_back[OF d *(2)] *(4) obtain k1 where k1: "t_nodes t b = Some k1" "n_mnt k1 = Some m'"
      by (metis option.distinct(1))
    from mounts_ok_uniq[OF mok n1(1) k1(1) n1(2) k1(2)] show "a = b" . }
qed

text \<open>The check for open files covers exactly the files of the subtree.\<close>

lemma umounted_files_outside:
  assumes inv: "vfs_inv v" and u: "umounted v mp m r t v'"
  shows "\<forall>(fd, f) \<in> set (v_files v). \<not> desc (t_nodes t) r (f_node f)"
proof (intro ballI)
  fix x assume x: "x \<in> set (v_files v)"
  obtain fd fi where xf: "x = (fd, fi)" by (cases x)
  have ti: "tree_inv (v_tree v)" using inv by (simp add: vfs_inv_def)
  from inv x xf obtain n where n: "v_node v (f_node fi) = Some n"
    by (fastforce simp: vfs_inv_def files_ok_def)
  from u x xf have "\<not> vfs_node_under_root (v_tree v) (f_node fi) (Some r)"
    by (auto simp: umounted_def)
  with vfs_node_under_root_desc[OF ti n] have "\<not> desc (t_nodes (v_tree v)) r (f_node fi)" by simp
  with desc_ext_old[OF umounted_detaching(3)[OF assms]] ti n xf
  show "case x of (fd, f) \<Rightarrow> \<not> desc (t_nodes t) r (f_node f)" by (auto simp: tree_inv_def)
qed

lemma umounted_inv:
  assumes inv: "vfs_inv v" and u: "umounted v mp m r t v'"
  shows "vfs_inv v'"
proof -
  note d = umounted_detaching[OF assms]
  have fok: "files_ok (t_nodes t) (v_files v)" using d(2) by (simp add: vfs_inv_def)
  have "vfs_inv (v\<lparr>v_tree := after_umount mp r t, v_mounts := (v_mounts v)(m := None)\<rparr>)"
    using inv detaching_tree_inv[OF d(1)] detaching_mounts_ok[OF d(1)]
      detaching_files_ok[OF d(1) fok umounted_files_outside[OF assms]]
    by (simp add: vfs_inv_def)
  from vfs_inv_mfree[OF this] u show ?thesis by (auto simp: umounted_def)
qed

lemma vfs_umount_inv [op_inv]:
  assumes inv: "vfs_inv v" and r: "vfs_umount v target = (r, v')"
  shows "vfs_inv v'"
proof (cases r)
  case None
  with r vfs_umount_None[OF inv, of target v'] show ?thesis by (metis tree_step_inv umounted_inv)
next
  case (Some e)
  obtain q mn v1 where l: "vfs_lookup_node_ex v (the target) False = ((q, mn), v1)" by (metis prod.exhaust)
  show ?thesis
  proof (cases "vfs_is_path_valid target")
    case True
    then have "vfs_is_path_valid (Some (the target))"
      by (cases target) (auto simp: vfs_is_path_valid_def)
    from lookup_node_ex_step[OF inv l this] have "vfs_inv v1" by (auto dest: tree_step_inv)
    with r Some True l show ?thesis
      by (auto simp: vfs_umount_def Let_def split: option.splits if_splits)
  qed (use inv r in \<open>simp add: vfs_umount_def\<close>)
qed

lemma vfs_lookup_inv [op_inv]: "vfs_inv v \<Longrightarrow> vfs_lookup v path = (r, v') \<Longrightarrow> vfs_inv v'"
  by (auto dest: vfs_lookup_step tree_step_inv)

subsection \<open>Initialisation\<close>

lemma vfs_init_boot:
  assumes "vfs_init (vfs_boot e) = (None, v)"
  shows "vfs_inv v" "t_root (v_tree v) = Some 0" "t_ready (v_tree v)"
    "v_node v 0 = Some (new_node ''/'' VFS_NODE_DIR None None)" "v_files v = []"
    "v_mounts v = (\<lambda>_. None)" "v_fs_types v = []" "t_next (v_tree v) = 1"
    "\<And>a. a \<noteq> 0 \<Longrightarrow> v_node v a = None"
proof -
  let ?t0 = "v_tree (vfs_boot e)\<lparr>t_root := None\<rparr>"
  from assms obtain r t where t: "vfs_alloc_node ''/'' VFS_NODE_DIR None None ?t0 = (Some r, t)"
    and v: "v = (vfs_boot e)\<lparr>v_tree := t\<lparr>t_root := Some r, t_ready := True\<rparr>, v_files := [], v_next_fd := 0\<rparr>"
    by (auto simp: vfs_init_def Let_def free_files_def vfs_boot_def vfs_free_subtree_def
        split: prod.splits option.splits)
  note n = vfs_alloc_node_Some[OF t]
  show *: "t_root (v_tree v) = Some 0" "t_ready (v_tree v)"
    "v_node v 0 = Some (new_node ''/'' VFS_NODE_DIR None None)" "v_files v = []"
    "v_mounts v = (\<lambda>_. None)" "v_fs_types v = []" "t_next (v_tree v) = 1"
    "\<And>a. a \<noteq> 0 \<Longrightarrow> v_node v a = None"
    using n by (simp_all add: v vfs_boot_def)
  have "node_ok (t_nodes (v_tree v)) 1 0 (new_node ''/'' VFS_NODE_DIR None None)"
    by (simp add: node_ok_def)
  moreover have "a = 0 \<and> m = new_node ''/'' VFS_NODE_DIR None None" if "v_node v a = Some m" for a m
    using *(3) *(8)[of a] that by (cases "a = 0") auto
  ultimately have "nodes_inv (t_nodes (v_tree v)) (t_next (v_tree v))"
    unfolding nodes_inv_def *(7) by blast
  then have ti: "tree_inv (v_tree v)"
    using *(1,3) by (simp add: tree_inv_def root_ok_def)
  have none: "n_mnt m = None" if "v_node v a = Some m" for a m
    using *(3) *(8)[of a] that by (cases "a = 0") auto
  have "mounts_ok (v_tree v) (v_mounts v) (v_next_mnt v)"
    unfolding mounts_ok_def *(5) using none by fastforce
  moreover have "files_ok (t_nodes (v_tree v)) (v_files v)" unfolding *(4) by (simp add: files_ok_def)
  moreover have "v_next_fd v \<le> INT_MAX" by (simp add: v INT_MAX_def)
  ultimately show "vfs_inv v" using ti *(6) by (simp add: vfs_inv_def)
qed

subsection \<open>Reachable states\<close>

text \<open>
  One step is one call of an operation. Filesystem types are registered under the contract
  \<open>good_fs_type\<close>; every other argument is arbitrary, in particular node pointers need not be
  valid.
\<close>

inductive vfs_step :: "('p, 'w) vfs \<Rightarrow> ('p, 'w) vfs \<Rightarrow> bool" where
  step_lookup: "vfs_lookup v path = (l, v') \<Longrightarrow> vfs_step v v'"
| step_mkdir: "vfs_mkdir p name (v_tree v) = (c, t) \<Longrightarrow> vfs_step v (v\<lparr>v_tree := t\<rparr>)"
| step_mkdir_p: "vfs_mkdir_p path (v_tree v) = (c, t) \<Longrightarrow> vfs_step v (v\<lparr>v_tree := t\<rparr>)"
| step_mknod: "vfs_mknod p name ty fops priv (v_tree v) = (c, t) \<Longrightarrow> vfs_step v (v\<lparr>v_tree := t\<rparr>)"
| step_alloc_dir: "vfs_alloc_dir_node name (v_tree v) = (c, t) \<Longrightarrow> vfs_step v (v\<lparr>v_tree := t\<rparr>)"
| step_unlink: "vfs_unlink v p name = (e, v') \<Longrightarrow> vfs_step v v'"
| step_open: "vfs_open v path flags = (r, v') \<Longrightarrow> vfs_step v v'"
| step_read: "vfs_read v fd bnull len = (rr, v') \<Longrightarrow> vfs_step v v'"
| step_write: "vfs_write v fd buf len = (rw, v') \<Longrightarrow> vfs_step v v'"
| step_lseek: "vfs_lseek v fd off wh = (rs, v') \<Longrightarrow> vfs_step v v'"
| step_ioctl: "vfs_ioctl v fd cmd arg = (r, v') \<Longrightarrow> vfs_step v v'"
| step_close: "vfs_close v fd = (e, v') \<Longrightarrow> vfs_step v v'"
| step_register: "\<forall>ty. type = Some ty \<longrightarrow> good_fs_type ty \<Longrightarrow>
    vfs_register_filesystem v type = (e, v') \<Longrightarrow> vfs_step v v'"
| step_mount: "vfs_mount v source target fstype data = (e, v') \<Longrightarrow> vfs_step v v'"
| step_umount: "vfs_umount v target = (e, v') \<Longrightarrow> vfs_step v v'"
| step_world: "vfs_step v (set_env v env)"

inductive vfs_reachable :: "('p, 'w) vfs \<Rightarrow> bool" where
  reach_init: "vfs_init (vfs_boot env) = (None, v) \<Longrightarrow> vfs_reachable v"
| reach_step: "vfs_reachable v \<Longrightarrow> vfs_step v v' \<Longrightarrow> vfs_reachable v'"

lemma vfs_step_inv: "vfs_step v v' \<Longrightarrow> vfs_inv v \<Longrightarrow> vfs_inv v'"
  by (induction rule: vfs_step.induct) (auto intro: op_inv vfs_inv_env)

lemma vfs_reachable_inv: "vfs_reachable v \<Longrightarrow> vfs_inv v"
  by (induction rule: vfs_reachable.induct) (auto intro: vfs_init_boot(1) vfs_step_inv)

end
