(* ===== verification/Vfs_Paths.thy ===== *)
theory Vfs_Paths
  imports Vfs_Safety
begin

text \<open>
  Paths as lists of names, and what \<open>vfs_lookup\<close> finds for them.

  \<open>resolves t cur segs c\<close> is the specification of path resolution inside one filesystem: the
  names \<open>segs\<close> lead from \<open>cur\<close> to \<open>c\<close> through children in memory, no directory on the way
  being a mountpoint. \<open>lookup_walk\<close>, with its cursor into the string, the copy of each name on
  the heap and the mounts it follows, is shown to implement it.
\<close>

subsection \<open>Specification\<close>

definition path_of :: "string list \<Rightarrow> string" where
  "path_of segs = concat (map (\<lambda>s. CHR ''/'' # s) segs)"

fun resolves :: "('p, 'w) vfs_tree \<Rightarrow> addr \<Rightarrow> string list \<Rightarrow> addr \<Rightarrow> bool" where
  "resolves t cur [] c = (c = cur)"
| "resolves t cur (s # segs) c =
     (case vfs_find_child_by_name t (Some cur) s of
        None \<Rightarrow> False
      | Some d \<Rightarrow> (segs = [] \<or> Option.bind (t_nodes t d) n_mnt = None) \<and> resolves t d segs c)"

definition names_valid :: "string list \<Rightarrow> bool" where
  "names_valid segs \<longleftrightarrow> (\<forall>s \<in> set segs. vfs_name_valid s)"

definition mem_ok :: "('p, 'w) vfs \<Rightarrow> bool" where
  "mem_ok v \<longleftrightarrow> (\<forall>n. h_ok (e_heap (v_env v)) n)"

lemma names_valid_simps [simp]:
  "names_valid []" "names_valid (s # segs) \<longleftrightarrow> vfs_name_valid s \<and> names_valid segs"
  by (auto simp: names_valid_def)

lemma path_of_simps [simp]: "path_of [] = []" "path_of (s # segs) = CHR ''/'' # s @ path_of segs"
  by (simp_all add: path_of_def)

lemma seg_split:
  assumes "vfs_name_valid s"
  shows "takeWhile (\<lambda>c. c \<noteq> CHR ''/'') (s @ path_of segs) = s"
    "dropWhile (\<lambda>c. c \<noteq> CHR ''/'') (s @ path_of segs) = path_of segs"
proof -
  have s: "CHR ''/'' \<notin> set s" using assms by (simp add: vfs_name_valid_def)
  then show "takeWhile (\<lambda>c. c \<noteq> CHR ''/'') (s @ path_of segs) = s"
    by (cases segs) (simp_all add: sep_simps)
  from s show "dropWhile (\<lambda>c. c \<noteq> CHR ''/'') (s @ path_of segs) = path_of segs"
    by (cases segs) (simp_all add: sep_simps)
qed

lemma resolves_ext:
  assumes "tree_ext t t'" "tree_inv t'"
  shows "resolves t cur segs c \<Longrightarrow> resolves t' cur segs c"
proof (induction segs arbitrary: cur)
  case (Cons s segs)
  then obtain d where d: "vfs_find_child_by_name t (Some cur) s = Some d"
    "segs = [] \<or> Option.bind (t_nodes t d) n_mnt = None" "resolves t d segs c"
    by (auto split: option.splits)
  from find_child_Some[OF d(1)] obtain pn cn where p: "t_nodes t cur = Some pn" "d \<in> set (n_children pn)"
    "t_nodes t d = Some cn" "n_name cn = s" by (metis option.inject)
  from p(1) obtain pn' where pn': "t_nodes t' cur = Some pn'" "node_ext pn pn'" by (rule tree_extD[OF assms(1)])
  from p(3) obtain cn' where cn': "t_nodes t' d = Some cn'" "node_ext cn cn'" by (rule tree_extD[OF assms(1)])
  have "vfs_find_child_by_name t' (Some cur) s = Some d"
    using find_child_unique[OF assms(2) pn'(1) _ cn'(1), of s] p
      node_extD(7)[OF pn'(2)] node_extD(1)[OF cn'(2)] by auto
  moreover have "segs = [] \<or> Option.bind (t_nodes t' d) n_mnt = None"
    using d(2) p(3) cn' by (auto simp: node_extD)
  ultimately show ?case using Cons.IH[OF d(3)] by simp
qed simp

lemma resolves_greater:
  assumes inv: "tree_inv t"
  shows "resolves t cur segs c \<Longrightarrow> segs \<noteq> [] \<Longrightarrow> cur < c \<and> child_node t c"
proof (induction segs arbitrary: cur)
  case (Cons s segs)
  then obtain d where d: "vfs_find_child_by_name t (Some cur) s = Some d" "resolves t d segs c"
    by (auto split: option.splits)
  from find_child_Some[OF d(1)] obtain pn where p: "t_nodes t cur = Some pn" "d \<in> set (n_children pn)"
    by (metis option.inject)
  from node_ok_child[OF tree_invD[OF inv p(1)] p(2)] have less: "cur < d" and ch: "child_node t d"
    by (auto simp: child_node_def)
  show ?case
  proof (cases "segs = []")
    case True
    with d(2) less ch show ?thesis by simp
  next
    case False
    with Cons.IH[OF d(2)] less show ?thesis by simp
  qed
qed simp

subsection \<open>Lookup implements the specification\<close>

lemma v_malloc_mem_ok:
  assumes "mem_ok v"
  obtains v1 where "v_malloc v = (True, v1)" "v_mfree v1 = set_env v (v_env (v_mfree v1))"
    "mem_ok (v_mfree v1)" "t_live (v_tree (v_mfree v1)) = t_live (v_tree v)"
    "t_nodes (v_tree v1) = t_nodes (v_tree v)"
  using assms
  by (auto simp: v_malloc_def t_malloc_def malloc_def mem_ok_def v_mfree_def t_free_def mfree_def
      set_env_def)

lemma find_child_nodes:
  "t_nodes t' = t_nodes t \<Longrightarrow> vfs_find_child_by_name t' p s = vfs_find_child_by_name t p s"
  by (simp add: vfs_find_child_by_name_def child_named_def [abs_def] split: option.split)

lemma resolves_nodes:
  assumes "t_nodes t' = t_nodes t"
  shows "resolves t' cur segs c = resolves t cur segs c"
  by (induction segs arbitrary: cur)
     (simp_all add: find_child_nodes[OF assms] assms split: option.split)

lemma set_env_twice [simp]: "set_env (set_env v e) e' = set_env v e'"
  by (simp add: set_env_def)

lemma lookup_walk_resolves:
  assumes "segs \<noteq> []" "names_valid segs" "mem_ok v" "resolves (v_tree v) cur segs c"
  obtains e where "mem_ok (set_env v e)" "t_live (v_tree (set_env v e)) = t_live (v_tree v)"
    "lookup_walk (tl (path_of segs)) fl (Some cur) mnt v =
       ((if fl then vfs_follow_mount_mnt (set_env v e) (Some c) mnt else (Some c, mnt)), set_env v e)"
  using assms
proof (induction segs arbitrary: cur v thesis)
  case (Cons s segs)
  from Cons.prems(3) have s: "vfs_name_valid s" "names_valid segs" by auto
  then have ne: "s @ path_of segs \<noteq> []" "s \<noteq> []" by (auto simp: vfs_name_valid_def)
  from v_malloc_mem_ok[OF Cons.prems(4)] obtain v1 where v1: "v_malloc v = (True, v1)"
    "v_mfree v1 = set_env v (v_env (v_mfree v1))" "mem_ok (v_mfree v1)"
    "t_live (v_tree (v_mfree v1)) = t_live (v_tree v)" "t_nodes (v_tree v1) = t_nodes (v_tree v)" .
  define e1 where "e1 = v_env (v_mfree v1)"
  from v1(2-4) have e1: "v_mfree v1 = set_env v e1" "mem_ok (set_env v e1)"
    "t_live (v_tree (set_env v e1)) = t_live (v_tree v)" by (simp_all add: e1_def)
  from Cons.prems(5) obtain d where d: "vfs_find_child_by_name (v_tree v) (Some cur) s = Some d"
    "segs = [] \<or> Option.bind (v_node v d) n_mnt = None" "resolves (v_tree v) d segs c"
    by (auto split: option.splits)
  have f: "find_or_lookup v1 mnt (Some cur) s = (Some d, v1)"
    using d(1) find_child_nodes[OF v1(5)] by (simp add: find_or_lookup_def)
  note step = lookup_walk_step[OF ne(1) seg_split[OF s(1)], of fl "Some cur" mnt v,
      unfolded v1(1) prod.case bool.case f option.case e1(1) if_not_P[OF ne(2)]]
  show ?case
  proof (cases segs)
    case Nil
    with d(3) have "c = d" by simp
    with step Nil have "lookup_walk (tl (path_of (s # segs))) fl (Some cur) mnt v =
      ((if fl then vfs_follow_mount_mnt (set_env v e1) (Some c) mnt else (Some c, mnt)), set_env v e1)"
      by simp
    with e1(2,3) show ?thesis by (rule Cons.prems(1))
  next
    case (Cons s2 segs2)
    with s(2) have more: "\<not> (path_of segs = [] \<or> tl (path_of segs) = [])" "segs \<noteq> []"
      by (auto simp: vfs_name_valid_def)
    with d(2) have "vfs_follow_mount_mnt (set_env v e1) (Some d) mnt = (Some d, mnt)"
      by (auto simp: vfs_follow_mount_mnt_def split: option.splits)
    with step more have go: "lookup_walk (tl (path_of (s # segs))) fl (Some cur) mnt v =
      lookup_walk (tl (path_of segs)) fl (Some d) mnt (set_env v e1)" by simp
    have "resolves (v_tree (set_env v e1)) d segs c"
      using d(3) resolves_nodes[of "v_tree (set_env v e1)" "v_tree v"] by simp
    with Cons.IH[OF _ more(2) s(2) e1(2)] obtain e where e: "mem_ok (set_env (set_env v e1) e)"
      "t_live (v_tree (set_env (set_env v e1) e)) = t_live (v_tree (set_env v e1))"
      "lookup_walk (tl (path_of segs)) fl (Some d) mnt (set_env v e1) =
       ((if fl then vfs_follow_mount_mnt (set_env (set_env v e1) e) (Some c) mnt else (Some c, mnt)),
        set_env (set_env v e1) e)" by metis
    show ?thesis
      by (rule Cons.prems(1)[of e]) (use e e1(3) go in simp_all)
  qed
qed simp

lemma lookup_node_ex_resolves:
  assumes "t_root (v_tree v) = Some r" "Option.bind (v_node v r) n_mnt = None"
    "segs \<noteq> []" "names_valid segs" "mem_ok v" "resolves (v_tree v) r segs c"
  obtains e where "mem_ok (set_env v e)" "t_live (v_tree (set_env v e)) = t_live (v_tree v)"
    "vfs_lookup_node_ex v (path_of segs) fl =
       ((if fl then vfs_follow_mount_mnt (set_env v e) (Some c) None else (Some c, None)), set_env v e)"
proof -
  from lookup_walk_resolves[OF assms(3-6), of fl None] obtain e where e: "mem_ok (set_env v e)"
    "t_live (v_tree (set_env v e)) = t_live (v_tree v)"
    "lookup_walk (tl (path_of segs)) fl (Some r) None v =
       ((if fl then vfs_follow_mount_mnt (set_env v e) (Some c) None else (Some c, None)), set_env v e)" .
  have ne: "path_of segs \<noteq> ''/''"
    using assms(3,4) by (cases segs) (auto simp: vfs_name_valid_def)
  have "vfs_follow_mount_mnt v (Some r) None = (Some r, None)"
    using assms(2) by (auto simp: vfs_follow_mount_mnt_def split: option.splits)
  then have "vfs_lookup_node_ex v (path_of segs) fl = lookup_walk (tl (path_of segs)) fl (Some r) None v"
    unfolding vfs_lookup_node_ex_def using assms(1) ne by simp
  with e that show thesis by simp
qed

lemma path_of_valid: "segs \<noteq> [] \<Longrightarrow> vfs_is_path_valid (Some (path_of segs))"
  by (cases segs) (auto simp: vfs_is_path_valid_def)

lemma vfs_lookup_resolves:
  assumes "t_root (v_tree v) = Some r" "Option.bind (v_node v r) n_mnt = None"
    "segs \<noteq> []" "names_valid segs" "mem_ok v" "resolves (v_tree v) r segs c"
  shows "fst (vfs_lookup v (Some (path_of segs))) = vfs_follow_mount v (Some c)"
proof -
  from lookup_node_ex_resolves[OF assms, of True] obtain e where
    "vfs_lookup_node_ex v (path_of segs) True =
      (vfs_follow_mount_mnt (set_env v e) (Some c) None, set_env v e)" by auto
  moreover have "follow_mount_upto k (set_env v e) n m = follow_mount_upto k v n m" for k n m
    by (induction k arbitrary: n m) (auto split: option.splits)
  ultimately show ?thesis
    using path_of_valid[OF assms(3)]
    by (simp add: vfs_lookup_def vfs_follow_mount_def vfs_follow_mount_mnt_def split: prod.split)
qed
end
