(* ===== verification/Vfs_Contracts.thy ===== *)
theory Vfs_Contracts
  imports Vfs_Paths
begin

text \<open>
  The contracts of single operations that the properties of the VFS state: what a successful
  \<open>vfs_mount\<close> leaves behind, which paths \<open>vfs_mkdir_p\<close> creates, when \<open>vfs_alloc_fd\<close> gives up,
  what \<open>vfs_umount\<close> removes.
\<close>

subsection \<open>The search for a free file descriptor\<close>

abbreviation fd_count :: int where "fd_count \<equiv> INT_MAX + 1"

lemma bump_fd_mod: "0 \<le> n \<Longrightarrow> n \<le> INT_MAX \<Longrightarrow> bump_fd n = (n + 1) mod fd_count"
  by (auto simp: bump_fd_def INT_MAX_def)

lemma alloc_fd_loop_used:
  assumes "alloc_fd_loop k v s n = (None, n')" "0 \<le> n" "n \<le> INT_MAX"
  shows "\<exists>j. (\<forall>i < j. vfs_find_file v ((n + int i) mod fd_count) \<noteq> None) \<and>
    (j = k \<or> 0 < j \<and> (n + int j) mod fd_count = s)"
  using assms
proof (induction k v s n rule: alloc_fd_loop.induct)
  case (2 k v s n)
  from 2(2-) have used: "vfs_find_file v n \<noteq> None" by (auto split: if_splits)
  note b = bump_fd_mod[OF 2(3,4)]
  have here: "n mod fd_count = n" using 2(3,4) by (simp add: INT_MAX_def)
  show ?case
  proof (cases "bump_fd n = s")
    case True
    with b used here have "(\<forall>i < 1. vfs_find_file v ((n + int i) mod fd_count) \<noteq> None) \<and>
      0 < (1::nat) \<and> (n + int 1) mod fd_count = s" by simp
    then show ?thesis by blast
  next
    case False
    with 2(2) used have "alloc_fd_loop k v s (bump_fd n) = (None, n')" by auto
    moreover have "0 \<le> bump_fd n" "bump_fd n \<le> INT_MAX" using 2(3,4) by (auto simp: bump_fd_def)
    ultimately obtain j where
      j: "\<forall>i < j. vfs_find_file v ((bump_fd n + int i) mod fd_count) \<noteq> None"
        "j = k \<or> 0 < j \<and> (bump_fd n + int j) mod fd_count = s"
      using 2(1)[OF used False] by blast
    have shift: "(bump_fd n + int i) mod fd_count = (n + int (Suc i)) mod fd_count" for i
      unfolding b by (simp add: mod_simps algebra_simps)
    have "vfs_find_file v ((n + int i) mod fd_count) \<noteq> None" if "i < Suc j" for i
      using that used here j(1) shift by (cases i) auto
    moreover have "Suc j = Suc k \<or> 0 < Suc j \<and> (n + int (Suc j)) mod fd_count = s"
      using j(2) shift[of j] by auto
    ultimately show ?thesis by blast
  qed
qed (rule exI[of _ "0::nat"], simp)

lemma alloc_fd_loop_finds:
  assumes "int (length (v_files v)) < fd_count" "0 \<le> s" "s \<le> INT_MAX"
  shows "fst (alloc_fd_loop (Suc (length (v_files v))) v s s) \<noteq> None"
proof
  assume "fst (alloc_fd_loop (Suc (length (v_files v))) v s s) = None"
  then obtain n' where "alloc_fd_loop (Suc (length (v_files v))) v s s = (None, n')"
    by (cases "alloc_fd_loop (Suc (length (v_files v))) v s s") auto
  from alloc_fd_loop_used[OF this assms(2,3)] obtain j where
    used: "\<forall>i < j. vfs_find_file v ((s + int i) mod fd_count) \<noteq> None" and
    j: "j = Suc (length (v_files v)) \<or> 0 < j \<and> (s + int j) mod fd_count = s" by auto
  let ?m = "Suc (length (v_files v))"
  have long: "?m \<le> j"
  proof (rule ccontr)
    assume "\<not> ?m \<le> j"
    with j have j: "0 < j" "(s + int j) mod fd_count = s" "int j < fd_count" using assms(1) by auto
    then have "(s + int j) mod fd_count = s mod fd_count" using assms(2,3) by (simp add: INT_MAX_def)
    then have "fd_count dvd int j" by (simp add: mod_eq_dvd_iff)
    with j show False using zdvd_imp_le by fastforce
  qed
  have inj: "inj_on (\<lambda>i. (s + int i) mod fd_count) {..<?m}"
  proof (rule inj_onI)
    fix a b assume ab: "a \<in> {..<?m}" "b \<in> {..<?m}" "(s + int a) mod fd_count = (s + int b) mod fd_count"
    then have "fd_count dvd (int a - int b)" by (simp add: mod_eq_dvd_iff)
    moreover have "\<bar>int a - int b\<bar> < fd_count" using ab(1,2) assms(1) by auto
    ultimately show "a = b" using zdvd_imp_le[of fd_count "\<bar>int a - int b\<bar>"] by fastforce
  qed
  have "(\<lambda>i. (s + int i) mod fd_count) ` {..<?m} \<subseteq> fst ` set (v_files v)"
  proof (rule image_subsetI)
    fix i assume "i \<in> {..<?m}"
    with used long have "vfs_find_file v ((s + int i) mod fd_count) \<noteq> None" by simp
    then show "(s + int i) mod fd_count \<in> fst ` set (v_files v)" by (simp add: vfs_find_file_None)
  qed
  then have "card ((\<lambda>i. (s + int i) mod fd_count) ` {..<?m}) \<le> card (fst ` set (v_files v))"
    by (simp add: card_mono)
  also have "\<dots> \<le> length (v_files v)"
    by (metis card_length length_map list.set_map)
  finally show False using card_image[OF inj] by simp
qed

subsection \<open>Directories created by \<open>vfs_mkdir_p\<close>\<close>

lemma drop_slashes:
  assumes "vfs_name_valid s"
  shows "dropWhile (\<lambda>c. c = CHR ''/'') (CHR ''/'' # s @ rest) = s @ rest" "s @ rest \<noteq> []"
  using assms by (cases s; auto simp: vfs_name_valid_def)+

lemma created_find:
  assumes "tree_inv t" "vfs_create_node (Some p) name ty fops priv t = (Some c, t')"
  shows "vfs_find_child_by_name t' (Some p) name = Some c"
proof -
  from vfs_create_node_Some[OF assms(2,1)] obtain pn where
    *: "t_nodes t p = Some pn" "c = t_next t" "created p pn (new_node name ty fops priv) t t'"
    by (metis option.inject)
  note l = created_lookup[OF assms(1) *(1,3)]
  from vfs_create_node_inv[OF assms] have "tree_inv t'" by simp
  from find_child_unique[OF this l(2) _ l(1)] * show ?thesis by simp
qed

definition no_mounts :: "('p, 'w) vfs_tree \<Rightarrow> bool" where
  "no_mounts t \<longleftrightarrow> (\<forall>a n. t_nodes t a = Some n \<longrightarrow> n_mnt n = None)"

lemma no_mounts_ext:
  assumes "no_mounts t" "tree_ext t t'"
  shows "no_mounts t'"
  unfolding no_mounts_def
proof (intro allI impI)
  fix a n' assume a: "t_nodes t' a = Some n'"
  show "n_mnt n' = None"
  proof (cases "t_nodes t a")
    case None
    with tree_ext_new[OF assms(2) None a] show ?thesis by simp
  next
    case (Some n)
    then obtain k where "t_nodes t' a = Some k" "node_ext n k" by (rule tree_extD[OF assms(2)])
    with a Some assms(1) show ?thesis by (auto simp: no_mounts_def node_extD)
  qed
qed

lemma mkdir_p_loop_resolves:
  assumes "names_valid segs" "tree_inv t" "no_mounts t"
    "mkdir_p_loop (path_of segs) cur t = (Some c, t')"
  shows "resolves t' cur segs c"
  using assms
proof (induction segs arbitrary: cur t)
  case Nil
  then show ?case by (simp add: mkdir_p_loop_done)
next
  case (Cons s segs)
  from Cons.prems(1) have s: "vfs_name_valid s" "names_valid segs" by auto
  note step = mkdir_p_loop_step[OF drop_slashes[OF s(1), of "path_of segs"] seg_split[OF s(1)], of cur t]
  obtain b t1 where m: "t_malloc t = (b, t1)" by fastforce
  have b: "b" using Cons.prems(4) step m by (cases b) auto
  with m have m: "t_malloc t = (True, t1)" by simp
  have t1: "tree_inv t1" "tree_ext t t1"
    using keeps_tree_malloc[OF m] Cons.prems(2) by (auto simp: keeps_tree_def)
  have rec: "resolves t' cur (s # segs) c"
    if d: "vfs_find_child_by_name t2 (Some cur) s = Some d" and t2: "tree_inv t2" "no_mounts t2"
      and r: "mkdir_p_loop (path_of segs) d t2 = (Some c, t')" for d t2
  proof -
    from mkdir_p_loop_inv[OF t2(1) r] have t': "tree_inv t'" "tree_ext t2 t'" by auto
    from find_child_Some[OF d] obtain dn where dn: "t_nodes t2 d = Some dn" by metis
    with t2(2) have "n_mnt dn = None" by (simp add: no_mounts_def)
    with d dn have "resolves t2 cur [s] d" by simp
    from resolves_ext[OF t'(2,1) this] have "vfs_find_child_by_name t' (Some cur) s = Some d"
      by (auto split: option.splits)
    moreover have "Option.bind (t_nodes t' d) n_mnt = None"
      using no_mounts_ext[OF t2(2) t'(2)] by (cases "t_nodes t' d") (auto simp: no_mounts_def)
    ultimately show ?thesis using Cons.IH[OF s(2) t2 r] by simp
  qed
  show ?case
  proof (cases "vfs_find_child_by_name t1 (Some cur) s")
    case (Some d)
    with Cons.prems(4) step m have "mkdir_p_loop (path_of segs) d (t_free t1) = (Some c, t')"
      by (auto split: if_splits)
    moreover have "vfs_find_child_by_name (t_free t1) (Some cur) s = Some d"
      using Some find_child_nodes[of "t_free t1" t1] by simp
    ultimately show ?thesis
      using rec[of "t_free t1" d] t1 no_mounts_ext[OF Cons.prems(3) t1(2)] by (auto simp: no_mounts_def)
  next
    case None
    obtain q t2 where q: "vfs_mkdir (Some cur) s t1 = (q, t2)" by fastforce
    from Cons.prems(4) step m None q obtain d where d: "q = Some d"
      "mkdir_p_loop (path_of segs) d (t_free t2) = (Some c, t')" by (auto split: option.splits)
    from vfs_mkdir_inv[OF t1(1) q] have t2: "tree_inv t2" "tree_ext t1 t2" by auto
    have "vfs_find_child_by_name t2 (Some cur) s = Some d"
      using created_find[OF t1(1)] q d(1) by (simp add: vfs_mkdir_def)
    then have "vfs_find_child_by_name (t_free t2) (Some cur) s = Some d"
      using find_child_nodes[of "t_free t2" t2] by simp
    then show ?thesis
      using rec[of "t_free t2" d] t2 d(2) no_mounts_ext[OF Cons.prems(3) tree_ext_trans[OF t1(2) t2(2)]]
      by (auto simp: no_mounts_def)
  qed
qed

subsection \<open>What a successful mount leaves behind\<close>

definition mounted_by :: "('p, 'w) vfs \<Rightarrow> addr \<Rightarrow> ('p, 'w) vfs \<Rightarrow> bool" where
  "mounted_by v mp v' \<longleftrightarrow>
     (\<exists>v1 t mnt. tree_step v v1 \<and> keeps_tree (v_tree v1) t \<and> m_root mnt \<noteq> None \<and>
        v' = attach_mount mp mnt (v1\<lparr>v_tree := t\<rparr>))"

lemma vfs_try_mount_None:
  assumes inv: "vfs_inv v" and ty: "good_fs_type ty" and r: "vfs_try_mount mp ty source data v = (None, v')"
  shows "mounted_by v mp v'"
proof -
  obtain b v1 where m: "v_malloc v = (b, v1)" by fastforce
  note s1 = tree_step_malloc[OF inv m]
  from r m obtain f mnt t where f: "fs_mount ty = Some f"
    "f (v_tree v1) (new_mount mp ty) source data = (None, mnt, t)" "m_root mnt \<noteq> None"
    "v' = attach_mount mp mnt (v1\<lparr>v_tree := t\<rparr>)"
    by (auto simp: vfs_try_mount_def split: bool.splits option.splits prod.splits if_splits)
  with ty have "keeps_tree (v_tree v1) t"
    using new_mount_sel[of mp ty] unfolding good_fs_type_def good_mount_def by blast
  with s1 f show ?thesis unfolding mounted_by_def by blast
qed

lemma mounted_by_trans: "tree_step u v \<Longrightarrow> mounted_by v mp v' \<Longrightarrow> mounted_by u mp v'"
  unfolding mounted_by_def by (blast intro: tree_step_trans)

lemma vfs_try_mount_Some:
  assumes inv: "vfs_inv v" and ty: "good_fs_type ty" and r: "vfs_try_mount mp ty source data v = (Some e, v')"
  shows "tree_step v v'"
proof -
  obtain b v1 where m: "v_malloc v = (b, v1)" by fastforce
  note s1 = tree_step_malloc[OF inv m]
  note i1 = tree_step_inv[OF s1]
  show ?thesis
  proof (cases "b \<and> fs_mount ty \<noteq> None")
    case False
    with r m s1 tree_step_mfree[OF i1] show ?thesis
      by (auto simp: vfs_try_mount_def intro: tree_step_trans split: bool.splits option.splits)
  next
    case True
    then obtain f where f: "fs_mount ty = Some f" by auto
    obtain q mnt t where q: "f (v_tree v1) (new_mount mp ty) source data = (q, mnt, t)"
      by (metis prod.exhaust)
    with ty f have "keeps_tree (v_tree v1) t"
      using new_mount_sel[of mp ty] unfolding good_fs_type_def good_mount_def by blast
    from tree_step_keeps[OF i1 this] have s2: "tree_step v1 (v1\<lparr>v_tree := t\<rparr>)" .
    from r m True f q have "v' = v_mfree (v1\<lparr>v_tree := t\<rparr>)"
      by (auto simp: vfs_try_mount_def split: option.splits if_splits)
    with s1 s2 tree_step_mfree[OF tree_step_inv[OF s2]] show ?thesis by (auto intro: tree_step_trans)
  qed
qed

lemma try_types_None:
  assumes "vfs_inv v" "\<forall>ty \<in> set tys. good_fs_type ty" "try_types mp tys source data v = (None, v')"
  shows "mounted_by v mp v'"
  using assms
proof (induction mp tys source data v rule: try_types.induct)
  case (2 mp ty tys source data v)
  obtain q v1 where q: "vfs_try_mount mp ty source data v = (q, v1)" by fastforce
  show ?case
  proof (cases "fs_flags ty AND VFS_FS_REQUIRES_DEV = 0")
    case True
    with 2 show ?thesis by simp
  next
    case flag: False
    show ?thesis
    proof (cases q)
      case None
      with 2(4,5) flag q vfs_try_mount_None[OF 2(3)] 2(5) show ?thesis by auto
    next
      case (Some e)
      with q 2(4) have s: "tree_step v v1" by (auto intro: vfs_try_mount_Some[OF 2(3)])
      with 2(4,5) flag q Some have "mounted_by v1 mp v'"
        using 2(2)[OF flag q[symmetric] Some tree_step_inv[OF s]] by auto
      with s show ?thesis by (rule mounted_by_trans)
    qed
  qed
qed simp

lemma vfs_mount_None:
  assumes inv: "vfs_inv v" and r: "vfs_mount v source target fstype data = (None, v')"
  obtains mp mn v1 where "vfs_lookup_node_ex v (the target) False = ((Some mp, mn), v1)"
    "tree_step v v1" "mounted_by v1 mp v'"
proof -
  from r have valid: "vfs_is_path_valid target" by (auto simp: vfs_mount_def split: if_splits)
  then have pv: "vfs_is_path_valid (Some (the target))"
    by (cases target) (auto simp: vfs_is_path_valid_def)
  obtain q mn v1 where l: "vfs_lookup_node_ex v (the target) False = ((q, mn), v1)" by (metis prod.exhaust)
  from lookup_node_ex_step[OF inv l pv] have s: "tree_step v v1" by simp
  note i1 = tree_step_inv[OF s]
  from i1 have good: "\<forall>ty \<in> set (v_fs_types v1). good_fs_type ty" by (simp add: vfs_inv_def)
  from r valid l obtain mp n where mp: "q = Some mp" "v_node v1 mp = Some n" "n_type n = VFS_NODE_DIR"
    "n_mnt n = None"
    by (auto simp: vfs_mount_def split: option.splits if_splits)
  have "mounted_by v1 mp v'"
  proof (cases fstype)
    case None
    with r valid l mp have "try_types mp (v_fs_types v1) source data v1 = (None, v')"
      by (simp add: vfs_mount_def)
    from try_types_None[OF i1 good this] show ?thesis .
  next
    case (Some name)
    with r valid l mp obtain ty where "vfs_find_filesystem v1 name = Some ty"
      "vfs_try_mount mp ty source data v1 = (None, v')"
      by (auto simp: vfs_mount_def split: option.splits)
    with vfs_try_mount_None[OF i1] good show ?thesis
      by (auto simp: vfs_find_filesystem_def dest!: find_Some_iff_mem)
  qed
  with l mp(1) s that show thesis by simp
qed

lemma mounted_by_node:
  assumes inv: "vfs_inv v" and m: "mounted_by v mp v'" and mp: "v_node v mp = Some n" and inv': "vfs_inv v'"
  obtains m mt root where "v_mounts v' m = Some mt" "m_root mt = Some root"
    "vfs_follow_mount v' (Some mp) = Some root" "root \<noteq> mp"
proof -
  from m obtain v1 t mnt root where s: "tree_step v v1" "keeps_tree (v_tree v1) t" "m_root mnt = Some root"
    "v' = attach_mount mp mnt (v1\<lparr>v_tree := t\<rparr>)" unfolding mounted_by_def by auto
  from s(2) tree_step_inv[OF s(1)] have "tree_ext (v_tree v1) t" by (simp add: keeps_tree_def vfs_inv_def)
  with tree_step_ext[OF s(1)] have "tree_ext (v_tree v) t" by (rule tree_ext_trans)
  with mp obtain n1 where n1: "t_nodes t mp = Some n1" by (metis tree_extD)
  define m0 where "m0 = v_next_mnt v1"
  have node: "v_node v' mp = Some (n1\<lparr>n_mnt := Some m0\<rparr>)" and mt: "v_mounts v' m0 = Some mnt"
    and nx: "v_next_mnt v' = Suc m0"
    using n1 by (simp_all add: s(4) attach_mount_def Let_def m0_def)
  from vfs_inv_mount(2)[OF inv' mt] s(3) obtain k where k: "v_node v' root = Some k" "n_mnt k = None"
    by (auto simp: mount_ok_def)
  with node have "root \<noteq> mp" by auto
  moreover have "vfs_follow_mount v' (Some mp) = Some root"
    using node mt k s(3) nx by (simp add: vfs_follow_mount_def vfs_follow_mount_mnt_def)
  ultimately show thesis using that mt s(3) by blast
qed

lemma mounted_by_root:
  assumes inv: "vfs_inv v" and m: "mounted_by v mp v'"
  shows "t_root (v_tree v') = t_root (v_tree v)"
    "a \<noteq> mp \<Longrightarrow> v_node v a \<noteq> None \<Longrightarrow> Option.bind (v_node v' a) n_mnt = Option.bind (v_node v a) n_mnt"
proof -
  from m obtain v1 t mnt where s: "tree_step v v1" "keeps_tree (v_tree v1) t"
    "v' = attach_mount mp mnt (v1\<lparr>v_tree := t\<rparr>)" unfolding mounted_by_def by auto
  from s(2) tree_step_inv[OF s(1)] have "tree_ext (v_tree v1) t" by (simp add: keeps_tree_def vfs_inv_def)
  with tree_step_ext[OF s(1)] have e: "tree_ext (v_tree v) t" by (rule tree_ext_trans)
  then show "t_root (v_tree v') = t_root (v_tree v)"
    by (simp add: s(3) attach_mount_def Let_def tree_ext_fields)
  assume a: "a \<noteq> mp" "v_node v a \<noteq> None"
  then obtain n where n: "v_node v a = Some n" by auto
  then obtain n' where n': "t_nodes t a = Some n'" "node_ext n n'" by (rule tree_extD[OF e])
  have "v_node v' a = t_nodes t a" using a(1) by (simp add: s(3) attach_mount_def Let_def)
  with n n' show "Option.bind (v_node v' a) n_mnt = Option.bind (v_node v a) n_mnt"
    by (simp add: node_extD)
qed

lemma mounted_by_resolves:
  assumes inv: "vfs_inv v" and m: "mounted_by v mp v'" and inv': "vfs_inv v'"
    and r: "resolves (v_tree v) r segs mp" "segs \<noteq> []"
  shows "resolves (v_tree v') r segs mp"
proof -
  from m obtain v1 t mnt where s: "tree_step v v1" "keeps_tree (v_tree v1) t"
    "v' = attach_mount mp mnt (v1\<lparr>v_tree := t\<rparr>)" unfolding mounted_by_def by auto
  from s(2) tree_step_inv[OF s(1)] have e: "tree_ext (v_tree v1) t" "tree_inv t"
    by (auto simp: keeps_tree_def vfs_inv_def)
  with tree_step_ext[OF s(1)] have "tree_ext (v_tree v) t" by (blast intro: tree_ext_trans)
  from resolves_ext[OF this e(2) r(1)] have rt: "resolves t r segs mp" .
  have nodes: "v_node v' a = map_option (\<lambda>n. if a = mp then n\<lparr>n_mnt := Some (v_next_mnt v1)\<rparr> else n) (t_nodes t a)" for a
    by (cases "t_nodes t a") (auto simp: s(3) attach_mount_def Let_def)
  have find_eq: "vfs_find_child_by_name (v_tree v') p q = vfs_find_child_by_name t p q" for p q
  proof -
    have "child_named (v_tree v') q = child_named t q"
      by (rule ext) (auto simp: child_named_def nodes split: option.split)
    then show ?thesis by (cases p) (auto simp: vfs_find_child_by_name_def nodes split: option.split)
  qed
  show ?thesis using rt r(2)
  proof (induction segs arbitrary: r)
    case (Cons s segs)
    then obtain d where d: "vfs_find_child_by_name t (Some r) s = Some d"
      "segs = [] \<or> Option.bind (t_nodes t d) n_mnt = None" "resolves t d segs mp"
      by (auto split: option.splits)
    show ?case
    proof (cases "segs = []")
      case True
      with d show ?thesis by (simp add: find_eq)
    next
      case False
      from resolves_greater[OF e(2) d(3) False] have "d \<noteq> mp" by auto
      with d(2) False have "Option.bind (v_node v' d) n_mnt = None" by (cases "t_nodes t d") (auto simp: nodes)
      with Cons.IH[OF d(3) False] d(1) show ?thesis by (simp add: find_eq)
    qed
  qed simp
qed

subsection \<open>Children after a removal\<close>

lemma n_children_update_eq: "n_children_update f n = n\<lparr>n_children := f (n_children n)\<rparr>"
  by (cases n) simp

lemma find_child_cong:
  assumes "\<And>d. d \<in> set (n_children pn) \<Longrightarrow> t_nodes t' d = t_nodes t d" "t_nodes t p = Some pn" "t_nodes t' p = Some pn'"
    "n_children pn' = n_children pn"
  shows "vfs_find_child_by_name t' (Some p) s = vfs_find_child_by_name t (Some p) s"
  using assms by (simp add: vfs_find_child_by_name_def child_named_def cong: find_cong)

lemma find_child_remove:
  assumes inv: "tree_inv t" and inv': "tree_inv t'" and p: "t_nodes t p = Some pn" "c \<in> set (n_children pn)"
    "t_nodes t c = Some cn" and pc: "p \<noteq> c" and dist: "distinct (n_children pn)"
    and nodes: "t_nodes t' = (t_nodes t)(p \<mapsto> pn\<lparr>n_children := remove1 c (n_children pn)\<rparr>, c := None)"
  shows "vfs_find_child_by_name t' (Some p) s =
    (if s = n_name cn then None else vfs_find_child_by_name t (Some p) s)"
proof -
  have p': "t_nodes t' p = Some (pn\<lparr>n_children := remove1 c (n_children pn)\<rparr>)" using pc by (simp add: nodes)
  have same: "t_nodes t' d = t_nodes t d" if "d \<in> set (n_children pn)" "d \<noteq> c" for d
    using that node_ok_child(1)[OF tree_invD[OF inv p(1)] that(1)] by (simp add: nodes)
  have sub: "d \<in> set (remove1 c (n_children pn)) \<longleftrightarrow> d \<in> set (n_children pn) \<and> d \<noteq> c" for d
    using dist by auto
  show ?thesis
  proof (cases "vfs_find_child_by_name t' (Some p) s")
    case None
    show ?thesis
    proof (cases "s = n_name cn")
      case False
      have "vfs_find_child_by_name t (Some p) s = None"
      proof (rule ccontr)
        assume "vfs_find_child_by_name t (Some p) s \<noteq> None"
        then obtain d dn where d: "d \<in> set (n_children pn)" "t_nodes t d = Some dn" "n_name dn = s"
          using p(1) by (metis find_child_Some not_None_eq option.inject)
        with False p(3) have "d \<noteq> c" by auto
        with d same sub have "d \<in> set (remove1 c (n_children pn))" "t_nodes t' d = Some dn" by auto
        with find_child_None[OF None p'] d(3) show False by (auto simp: name_at_def)
      qed
      with None False show ?thesis by simp
    qed (use None in simp)
  next
    case (Some d)
    then obtain dn where d: "d \<in> set (remove1 c (n_children pn))" "t_nodes t' d = Some dn" "n_name dn = s"
      using p' by (auto elim!: find_child_Some)
    then have d': "d \<in> set (n_children pn)" "d \<noteq> c" "t_nodes t d = Some dn" using sub same by auto
    from find_child_unique[OF inv p(1) d'(1,3) d(3)] have f: "vfs_find_child_by_name t (Some p) s = Some d" .
    moreover have "s \<noteq> n_name cn" using find_child_unique[OF inv p(1,2,3)] f d'(2) by auto
    ultimately show ?thesis using Some by simp
  qed
qed

end
