(* ===== verification/Devices.thy ===== *)
theory Devices
  imports Prelude
begin

text \<open>
  The device registry and the device classes: \<open>drivers/base/device.c\<close>, \<open>drivers/blkdev/blkdev.c\<close>,
  \<open>drivers/mtd/mtd.c\<close>, \<open>drivers/nvmem/nvmem.c\<close>, \<open>drivers/serial/serial.c\<close> and
  \<open>drivers/blkdev/mtdblock/mtdblock.c\<close>.

  Every class struct has its \<open>struct device\<close> as first member, so one address names both: the
  common part is in \<open>k_dev\<close>, the rest in the store of the class. The intrusive lists are lists of
  addresses in list order. Names and aliases are 128-byte arrays, held as the characters before
  the terminating NUL. The operations a driver supplies are tables of functions on the state
  \<open>'h\<close> of the hardware; a driver is free to return fewer bytes than asked, or an error.
\<close>

subsection \<open>Data\<close>

datatype device_status =
  DEVICE_STATUS_NEW | DEVICE_STATUS_BOUND | DEVICE_STATUS_OK | DEVICE_STATUS_ERROR

record device =
  d_name :: string
  d_alias :: string
  d_status :: device_status

definition DEVICE_NAME_MAX :: nat where "DEVICE_NAME_MAX = 128"

text \<open>An operations table: the static table of mtdblock, or the one of a hardware driver.\<close>

datatype ops_ref = Ops_mtdblock | Ops_driver nat

record blkdev =
  bd_ops :: "ops_ref option"
  bd_block_size :: u64
  bd_total_size :: u64
  bd_tmp_buf :: bool
  bd_data :: "addr option"

record mtd =
  mt_ops :: "nat option"
  mt_hwdev :: "addr option"
  mt_block_size :: u64
  mt_total_size :: u64
  mt_data :: "addr option"

record nvmem =
  nv_ops :: "nat option"
  nv_cell_bits :: u32
  nv_cell_count :: u32
  nv_data :: "addr option"

record serial =
  sr_ops :: "nat option"
  sr_baudrate :: u32
  sr_stdio :: bool
  sr_data :: "addr option"

type_synonym 'h read_fun = "addr option \<Rightarrow> u64 \<Rightarrow> u64 \<Rightarrow> 'h \<Rightarrow> (errno + u8 list) \<times> 'h"
type_synonym 'h write_fun = "addr option \<Rightarrow> u64 \<Rightarrow> u8 list \<Rightarrow> 'h \<Rightarrow> (errno + u64) \<times> 'h"

record 'h io_ops =
  io_read :: "'h read_fun option"
  io_write :: "'h write_fun option"

record 'h serial_ops =
  sio_input :: "(addr option \<Rightarrow> 'h \<Rightarrow> int \<times> 'h) option"
  sio_output :: "(addr option \<Rightarrow> u8 \<Rightarrow> 'h \<Rightarrow> int \<times> 'h) option"
  sio_set_speed :: "(addr option \<Rightarrow> u64 \<Rightarrow> 'h \<Rightarrow> int \<times> 'h) option"

record 'h kernel =
  k_heap :: heap_st
  k_next :: addr
  k_dev :: "addr \<Rightarrow> device option"
  k_global :: "addr list"
  k_blk :: "addr \<Rightarrow> blkdev option"
  k_blk_list :: "addr list"
  k_blk_count :: int
  k_mtd :: "addr \<Rightarrow> mtd option"
  k_mtd_list :: "addr list"
  k_mtd_count :: int
  k_nvmem :: "addr \<Rightarrow> nvmem option"
  k_nvmem_list :: "addr list"
  k_nvmem_count :: int
  k_serial :: "addr \<Rightarrow> serial option"
  k_serial_list :: "addr list"
  k_serial_count :: int
  k_serial_stdio :: "addr option"
  k_blk_ops :: "nat \<Rightarrow> 'h io_ops"
  k_mtd_ops :: "nat \<Rightarrow> 'h io_ops"
  k_nvmem_ops :: "nat \<Rightarrow> 'h io_ops"
  k_serial_ops :: "nat \<Rightarrow> 'h serial_ops"
  k_hw :: 'h

definition k_malloc :: "'h kernel \<Rightarrow> bool \<times> 'h kernel" where
  "k_malloc k = (case malloc (k_heap k) of (b, h) \<Rightarrow> (b, k\<lparr>k_heap := h\<rparr>))"

definition k_mfree :: "'h kernel \<Rightarrow> 'h kernel" where
  "k_mfree k = k\<lparr>k_heap := mfree (k_heap k)\<rparr>"

abbreviation k_live :: "'h kernel \<Rightarrow> nat" where
  "k_live k \<equiv> h_live (k_heap k)"

subsection \<open>The global registry\<close>

definition device_matches :: "'h kernel \<Rightarrow> string \<Rightarrow> addr \<Rightarrow> bool" where
  "device_matches k name a =
     (case k_dev k a of None \<Rightarrow> False | Some d \<Rightarrow> d_name d = name \<or> d_alias d = name)"

definition device_find_by_name :: "'h kernel \<Rightarrow> addr list \<Rightarrow> string \<Rightarrow> addr option" where
  "device_find_by_name k device_list name = List.find (device_matches k name) device_list"

text \<open>\<open>snprintf\<close> into a name stores at most 127 characters; \<open>strcpy\<close> copies the alias.\<close>

definition device_set_child_name :: "addr \<Rightarrow> addr \<Rightarrow> string \<Rightarrow> 'h kernel \<Rightarrow> 'h kernel" where
  "device_set_child_name child parent sys k =
     (case (k_dev k child, k_dev k parent) of
        (Some c, Some p) \<Rightarrow>
          k\<lparr>k_dev := (k_dev k)(child \<mapsto>
              c\<lparr>d_name := take (DEVICE_NAME_MAX - 1) (sys @ '':'' @ d_name p), d_alias := d_alias p\<rparr>)\<rparr>
      | _ \<Rightarrow> k)"

definition device_register :: "addr option \<Rightarrow> 'h kernel \<Rightarrow> errno option \<times> 'h kernel" where
  "device_register dev k =
     (case dev of
        None \<Rightarrow> (Some EINVAL, k)
      | Some a \<Rightarrow> (None, k\<lparr>k_global := k_global k @ [a]\<rparr>))"

definition device_unregister :: "addr option \<Rightarrow> 'h kernel \<Rightarrow> 'h kernel" where
  "device_unregister dev k =
     (case dev of None \<Rightarrow> k | Some a \<Rightarrow> k\<lparr>k_global := remove1 a (k_global k)\<rparr>)"

text \<open>
  \<open>list_first_entry_or_null\<close>, and the pair of \<open>list_is_last\<close> and \<open>list_next_entry\<close>: the
  successor of an entry, NULL after the last one.
\<close>

definition first_in :: "addr list \<Rightarrow> addr option" where
  "first_in xs = (case xs of [] \<Rightarrow> None | a # _ \<Rightarrow> Some a)"

fun next_in :: "addr list \<Rightarrow> addr \<Rightarrow> addr option" where
  "next_in [] a = None"
| "next_in (b # bs) a = (if b = a then first_in bs else next_in bs a)"

text \<open>The entries a \<open>for (p = first(); p; p = next(p))\<close> loop visits; the fuel bounds their number.\<close>

fun visit :: "nat \<Rightarrow> addr list \<Rightarrow> addr option \<Rightarrow> addr list" where
  "visit 0 xs p = []"
| "visit (Suc k) xs p = (case p of None \<Rightarrow> [] | Some a \<Rightarrow> a # visit k xs (next_in xs a))"

definition device_global_first :: "'h kernel \<Rightarrow> addr option" where
  "device_global_first k = first_in (k_global k)"

definition device_global_next :: "'h kernel \<Rightarrow> addr \<Rightarrow> addr option" where
  "device_global_next k cur = next_in (k_global k) cur"

definition device_find_global :: "'h kernel \<Rightarrow> string \<Rightarrow> addr option" where
  "device_find_global k name = List.find (device_matches k name) (k_global k)"

text \<open>The rows \<open>lsdev\<close> prints: index, name, alias, status.\<close>

definition command_lsdev :: "'h kernel \<Rightarrow> (nat \<times> string \<times> string \<times> device_status) list" where
  "command_lsdev k =
     (let devs = visit (length (k_global k)) (k_global k) (device_global_first k);
          row = (\<lambda>a. case k_dev k a of
                       None \<Rightarrow> ('''', '''', DEVICE_STATUS_NEW)
                     | Some d \<Rightarrow> (d_name d, d_alias d, d_status d))
      in zip [0..<length devs] (map row devs))"

subsection \<open>Block devices\<close>

text \<open>A zeroed \<open>struct device\<close>; \<open>DEVICE_STATUS_NEW\<close> is 0.\<close>

definition zero_device :: device where
  "zero_device = \<lparr>d_name = [], d_alias = [], d_status = DEVICE_STATUS_NEW\<rparr>"

definition zero_blkdev :: blkdev where
  "zero_blkdev = \<lparr>bd_ops = None, bd_block_size = 0, bd_total_size = 0, bd_tmp_buf = False, bd_data = None\<rparr>"

definition blkdev_alloc :: "'h kernel \<Rightarrow> addr option \<times> 'h kernel" where
  "blkdev_alloc k =
     (case k_malloc k of
        (False, k1) \<Rightarrow> (None, k1)
      | (True, k1) \<Rightarrow>
          (Some (k_next k1),
           k1\<lparr>k_next := Suc (k_next k1), k_dev := (k_dev k1)(k_next k1 \<mapsto> zero_device),
              k_blk := (k_blk k1)(k_next k1 \<mapsto> zero_blkdev)\<rparr>))"

definition blkdev_free :: "addr \<Rightarrow> 'h kernel \<Rightarrow> 'h kernel" where
  "blkdev_free a k =
     k_mfree (k\<lparr>k_blk := (k_blk k)(a := None), k_dev := (k_dev k)(a := None)\<rparr>)"

definition blkdev_add :: "addr \<Rightarrow> 'h kernel \<Rightarrow> 'h kernel" where
  "blkdev_add a k = snd (device_register (Some a) (k\<lparr>k_blk_list := k_blk_list k @ [a]\<rparr>))"

definition blkdev_remove :: "addr \<Rightarrow> 'h kernel \<Rightarrow> 'h kernel" where
  "blkdev_remove a k =
     (let k1 = device_unregister (Some a) k in k1\<lparr>k_blk_list := remove1 a (k_blk_list k1)\<rparr>)"

definition blkdev_count :: "'h kernel \<Rightarrow> nat" where
  "blkdev_count k = length (k_blk_list k)"

definition blkdev_first :: "'h kernel \<Rightarrow> addr option" where
  "blkdev_first k = first_in (k_blk_list k)"

definition blkdev_next :: "'h kernel \<Rightarrow> addr \<Rightarrow> addr option" where
  "blkdev_next k cur = next_in (k_blk_list k) cur"

definition blkdev_find_by_name :: "'h kernel \<Rightarrow> string \<Rightarrow> addr option" where
  "blkdev_find_by_name k name = device_find_by_name k (k_blk_list k) name"

text \<open>
  The fields are checked in the order of the code; \<open>read\<close> and \<open>write\<close> of the mtdblock table are
  both set.
\<close>

definition has_io :: "'h kernel \<Rightarrow> ops_ref \<Rightarrow> bool" where
  "has_io k r =
     (case r of
        Ops_mtdblock \<Rightarrow> True
      | Ops_driver i \<Rightarrow> io_read (k_blk_ops k i) \<noteq> None \<and> io_write (k_blk_ops k i) \<noteq> None)"

definition blkdev_register :: "addr \<Rightarrow> 'h kernel \<Rightarrow> errno option \<times> 'h kernel" where
  "blkdev_register a k =
     (case k_blk k a of
        None \<Rightarrow> (Some EINVAL, k)
      | Some b \<Rightarrow>
        (if bd_block_size b = 0 \<or> bd_total_size b = 0 then (Some EINVAL, k)
         else (case bd_ops b of
           None \<Rightarrow> (Some EINVAL, k)
         | Some r \<Rightarrow>
           (if \<not> has_io k r then (Some EINVAL, k)
            else (case k_malloc k of
              (False, k1) \<Rightarrow> (Some ENOMEM, k1)
            | (True, k1) \<Rightarrow>
                (let k2 = blkdev_add a (k1\<lparr>k_blk := (k_blk k1)(a \<mapsto> b\<lparr>bd_tmp_buf := True\<rparr>)\<rparr>)
                 in (None, k2\<lparr>k_blk_count := k_blk_count k2 + 1\<rparr>)))))))"

definition blkdev_unregister :: "addr \<Rightarrow> 'h kernel \<Rightarrow> 'h kernel" where
  "blkdev_unregister a k =
     (let k1 = blkdev_remove a k
      in k_mfree (k1\<lparr>k_blk := (k_blk k1)(a := map_option (bd_tmp_buf_update (\<lambda>_. False)) (k_blk k1 a))\<rparr>))"

definition blkdev_set_user_data :: "addr \<Rightarrow> addr option \<Rightarrow> 'h kernel \<Rightarrow> 'h kernel" where
  "blkdev_set_user_data a data k =
     k\<lparr>k_blk := (k_blk k)(a := map_option (bd_data_update (\<lambda>_. data)) (k_blk k a))\<rparr>"

definition blkdev_get_user_data :: "'h kernel \<Rightarrow> addr \<Rightarrow> addr option" where
  "blkdev_get_user_data k a = Option.bind (k_blk k a) bd_data"

text \<open>The number \<open>blkdev_list_devices\<close> returns is the number of rows it prints.\<close>

definition blkdev_list_devices :: "'h kernel \<Rightarrow> (string \<times> u64 \<times> u64 \<times> string) list" where
  "blkdev_list_devices k =
     map (\<lambda>a. case (k_dev k a, k_blk k a) of
                (Some d, Some b) \<Rightarrow> (d_name d, bd_block_size b, bd_total_size b, d_alias d)
              | _ \<Rightarrow> ('''', 0, 0, '''')) (k_blk_list k)"

subsection \<open>MTD devices\<close>

definition zero_mtd :: mtd where
  "zero_mtd = \<lparr>mt_ops = None, mt_hwdev = None, mt_block_size = 0, mt_total_size = 0, mt_data = None\<rparr>"

definition mtd_alloc :: "'h kernel \<Rightarrow> addr option \<times> 'h kernel" where
  "mtd_alloc k =
     (case k_malloc k of
        (False, k1) \<Rightarrow> (None, k1)
      | (True, k1) \<Rightarrow>
          (Some (k_next k1),
           k1\<lparr>k_next := Suc (k_next k1), k_dev := (k_dev k1)(k_next k1 \<mapsto> zero_device),
              k_mtd := (k_mtd k1)(k_next k1 \<mapsto> zero_mtd)\<rparr>))"

definition mtd_free :: "addr \<Rightarrow> 'h kernel \<Rightarrow> 'h kernel" where
  "mtd_free a k =
     k_mfree (k\<lparr>k_mtd := (k_mtd k)(a := None), k_dev := (k_dev k)(a := None)\<rparr>)"

definition mtd_add :: "addr \<Rightarrow> 'h kernel \<Rightarrow> 'h kernel" where
  "mtd_add a k = snd (device_register (Some a) (k\<lparr>k_mtd_list := k_mtd_list k @ [a]\<rparr>))"

definition mtd_remove :: "addr \<Rightarrow> 'h kernel \<Rightarrow> 'h kernel" where
  "mtd_remove a k =
     (let k1 = device_unregister (Some a) k in k1\<lparr>k_mtd_list := remove1 a (k_mtd_list k1)\<rparr>)"

definition mtd_count :: "'h kernel \<Rightarrow> nat" where
  "mtd_count k = length (k_mtd_list k)"

definition mtd_first :: "'h kernel \<Rightarrow> addr option" where
  "mtd_first k = first_in (k_mtd_list k)"

definition mtd_next :: "'h kernel \<Rightarrow> addr \<Rightarrow> addr option" where
  "mtd_next k cur = next_in (k_mtd_list k) cur"

definition mtd_find_by_name :: "'h kernel \<Rightarrow> string \<Rightarrow> addr option" where
  "mtd_find_by_name k name = device_find_by_name k (k_mtd_list k) name"

definition mtd_register :: "addr \<Rightarrow> 'h kernel \<Rightarrow> errno option \<times> 'h kernel" where
  "mtd_register a k =
     (case k_mtd k a of
        None \<Rightarrow> (Some EINVAL, k)
      | Some m \<Rightarrow>
        (if mt_block_size m = 0 \<or> mt_total_size m = 0 then (Some EINVAL, k)
         else (case mt_ops m of
           None \<Rightarrow> (Some EINVAL, k)
         | Some i \<Rightarrow>
           (if io_read (k_mtd_ops k i) = None then (Some EINVAL, k)
            else (let k2 = mtd_add a k in (None, k2\<lparr>k_mtd_count := k_mtd_count k2 + 1\<rparr>))))))"

definition mtd_unregister :: "addr \<Rightarrow> 'h kernel \<Rightarrow> 'h kernel" where
  "mtd_unregister a k = mtd_remove a k"

text \<open>
  A read calls the operation without a check, so an MTD that was never registered may have
  none: the call through NULL is the result \<open>None\<close>.
\<close>

definition mtd_read :: "addr \<Rightarrow> u64 \<Rightarrow> u64 \<Rightarrow> 'h kernel \<Rightarrow> ((errno + u8 list) \<times> 'h kernel) option" where
  "mtd_read a offset len k =
     (case k_mtd k a of
        None \<Rightarrow> None
      | Some m \<Rightarrow>
        (case Option.bind (mt_ops m) (\<lambda>i. io_read (k_mtd_ops k i)) of
           None \<Rightarrow> None
         | Some f \<Rightarrow> (case f (mt_data m) offset len (k_hw k) of (r, h) \<Rightarrow> Some (r, k\<lparr>k_hw := h\<rparr>))))"

subsection \<open>mtdblock: an MTD as a block device\<close>

definition mtdblock_read ::
  "addr option \<Rightarrow> u64 \<Rightarrow> u64 \<Rightarrow> 'h kernel \<Rightarrow> ((errno + u8 list) \<times> 'h kernel) option" where
  "mtdblock_read data offset len k =
     (case data of None \<Rightarrow> None | Some m \<Rightarrow> mtd_read m offset len k)"

definition mtdblock_write ::
  "addr option \<Rightarrow> u64 \<Rightarrow> u8 list \<Rightarrow> 'h kernel \<Rightarrow> ((errno + u64) \<times> 'h kernel) option" where
  "mtdblock_write data offset buf k = Some (Inl ENOSYS, k)"

definition blkdev_read ::
  "addr \<Rightarrow> u64 \<Rightarrow> u64 \<Rightarrow> 'h kernel \<Rightarrow> ((errno + u8 list) \<times> 'h kernel) option" where
  "blkdev_read a offset len k =
     (case k_blk k a of
        None \<Rightarrow> None
      | Some b \<Rightarrow>
        (case bd_ops b of
           None \<Rightarrow> None
         | Some Ops_mtdblock \<Rightarrow> mtdblock_read (bd_data b) offset len k
         | Some (Ops_driver i) \<Rightarrow>
             (case io_read (k_blk_ops k i) of
                None \<Rightarrow> None
              | Some f \<Rightarrow> (case f (bd_data b) offset len (k_hw k) of (r, h) \<Rightarrow> Some (r, k\<lparr>k_hw := h\<rparr>)))))"

definition blkdev_write ::
  "addr \<Rightarrow> u64 \<Rightarrow> u8 list \<Rightarrow> 'h kernel \<Rightarrow> ((errno + u64) \<times> 'h kernel) option" where
  "blkdev_write a offset buf k =
     (case k_blk k a of
        None \<Rightarrow> None
      | Some b \<Rightarrow>
        (case bd_ops b of
           None \<Rightarrow> None
         | Some Ops_mtdblock \<Rightarrow> mtdblock_write (bd_data b) offset buf k
         | Some (Ops_driver i) \<Rightarrow>
             (case io_write (k_blk_ops k i) of
                None \<Rightarrow> None
              | Some f \<Rightarrow> (case f (bd_data b) offset buf (k_hw k) of (r, h) \<Rightarrow> Some (r, k\<lparr>k_hw := h\<rparr>)))))"

text \<open>The loop of \<open>mtdblock_find\<close> over \<open>blkdev_first\<close> and \<open>blkdev_next\<close>.\<close>

definition wraps :: "'h kernel \<Rightarrow> addr \<Rightarrow> addr \<Rightarrow> bool" where
  "wraps k m a =
     (case k_blk k a of
        None \<Rightarrow> False
      | Some b \<Rightarrow> bd_ops b = Some Ops_mtdblock \<and> bd_data b = Some m)"

definition mtdblock_find :: "'h kernel \<Rightarrow> addr \<Rightarrow> addr option" where
  "mtdblock_find k m =
     List.find (wraps k m) (visit (length (k_blk_list k)) (k_blk_list k) (blkdev_first k))"

definition mtdblock_create :: "addr \<Rightarrow> 'h kernel \<Rightarrow> addr option \<times> 'h kernel" where
  "mtdblock_create m k =
     (case mtdblock_find k m of
        Some a \<Rightarrow> (Some a, k)
      | None \<Rightarrow>
        (case blkdev_alloc k of
           (None, k1) \<Rightarrow> (None, k1)
         | (Some a, k1) \<Rightarrow>
           (let total = (case k_mtd k1 m of None \<Rightarrow> 0 | Some mt \<Rightarrow> mt_total_size mt);
                b = \<lparr>bd_ops = Some Ops_mtdblock, bd_block_size = 1, bd_total_size = total,
                     bd_tmp_buf = False, bd_data = Some m\<rparr>;
                k2 = device_set_child_name a m ''block'' (k1\<lparr>k_blk := (k_blk k1)(a \<mapsto> b)\<rparr>)
            in (case blkdev_register a k2 of
                  (Some _, k3) \<Rightarrow> (None, blkdev_free a k3)
                | (None, k3) \<Rightarrow> (Some a, k3)))))"

definition mtdblock_setup :: "'h kernel \<Rightarrow> 'h kernel" where
  "mtdblock_setup k =
     fold (\<lambda>m k. snd (mtdblock_create m k)) (visit (length (k_mtd_list k)) (k_mtd_list k) (mtd_first k)) k"

subsection \<open>Non-volatile memories\<close>

definition zero_nvmem :: nvmem where
  "zero_nvmem = \<lparr>nv_ops = None, nv_cell_bits = 0, nv_cell_count = 0, nv_data = None\<rparr>"

definition nvmem_alloc :: "'h kernel \<Rightarrow> addr option \<times> 'h kernel" where
  "nvmem_alloc k =
     (case k_malloc k of
        (False, k1) \<Rightarrow> (None, k1)
      | (True, k1) \<Rightarrow>
          (Some (k_next k1),
           k1\<lparr>k_next := Suc (k_next k1), k_dev := (k_dev k1)(k_next k1 \<mapsto> zero_device),
              k_nvmem := (k_nvmem k1)(k_next k1 \<mapsto> zero_nvmem)\<rparr>))"

definition nvmem_add :: "addr \<Rightarrow> 'h kernel \<Rightarrow> 'h kernel" where
  "nvmem_add a k = snd (device_register (Some a) (k\<lparr>k_nvmem_list := k_nvmem_list k @ [a]\<rparr>))"

definition nvmem_remove :: "addr \<Rightarrow> 'h kernel \<Rightarrow> 'h kernel" where
  "nvmem_remove a k =
     (let k1 = device_unregister (Some a) k in k1\<lparr>k_nvmem_list := remove1 a (k_nvmem_list k1)\<rparr>)"

definition nvmem_find_by_name :: "'h kernel \<Rightarrow> string \<Rightarrow> addr option" where
  "nvmem_find_by_name k name = device_find_by_name k (k_nvmem_list k) name"

definition nvmem_register :: "addr \<Rightarrow> 'h kernel \<Rightarrow> errno option \<times> 'h kernel" where
  "nvmem_register a k =
     (case k_nvmem k a of
        None \<Rightarrow> (Some EINVAL, k)
      | Some n \<Rightarrow>
        (if nv_cell_bits n = 0 \<or> nv_cell_count n = 0 then (Some EINVAL, k)
         else (case nv_ops n of
           None \<Rightarrow> (Some EINVAL, k)
         | Some i \<Rightarrow>
           (if io_read (k_nvmem_ops k i) = None \<or> io_write (k_nvmem_ops k i) = None then (Some EINVAL, k)
            else (let k2 = nvmem_add a k in (None, k2\<lparr>k_nvmem_count := k_nvmem_count k2 + 1\<rparr>))))))"

definition nvmem_op :: "('h io_ops \<Rightarrow> 'f option) \<Rightarrow> addr \<Rightarrow> 'h kernel \<Rightarrow> (nvmem \<times> 'f) option" where
  "nvmem_op sel a k =
     (case k_nvmem k a of
        None \<Rightarrow> None
      | Some n \<Rightarrow> map_option (Pair n) (Option.bind (nv_ops n) (\<lambda>i. sel (k_nvmem_ops k i))))"

definition nvmem_read :: "addr \<Rightarrow> u64 \<Rightarrow> u64 \<Rightarrow> 'h kernel \<Rightarrow> ((errno + u8 list) \<times> 'h kernel) option" where
  "nvmem_read a offset len k =
     (case nvmem_op io_read a k of
        None \<Rightarrow> None
      | Some (n, f) \<Rightarrow> (case f (nv_data n) offset len (k_hw k) of (r, h) \<Rightarrow> Some (r, k\<lparr>k_hw := h\<rparr>)))"

definition nvmem_write :: "addr \<Rightarrow> u64 \<Rightarrow> u8 list \<Rightarrow> 'h kernel \<Rightarrow> ((errno + u64) \<times> 'h kernel) option" where
  "nvmem_write a offset buf k =
     (case nvmem_op io_write a k of
        None \<Rightarrow> None
      | Some (n, f) \<Rightarrow> (case f (nv_data n) offset buf (k_hw k) of (r, h) \<Rightarrow> Some (r, k\<lparr>k_hw := h\<rparr>)))"

subsection \<open>Serial ports\<close>

text \<open>The decimal digits \<open>sprintf\<close> prints for a non-negative number.\<close>

fun dec_digits :: "nat \<Rightarrow> string" where
  "dec_digits n =
     (if n < 10 then [char_of (48 + n)] else dec_digits (n div 10) @ [char_of (48 + n mod 10)])"

declare dec_digits.simps [simp del]

definition serial_add :: "addr \<Rightarrow> 'h kernel \<Rightarrow> 'h kernel" where
  "serial_add a k = snd (device_register (Some a) (k\<lparr>k_serial_list := k_serial_list k @ [a]\<rparr>))"

definition serial_remove :: "addr \<Rightarrow> 'h kernel \<Rightarrow> 'h kernel" where
  "serial_remove a k =
     (let k1 = device_unregister (Some a) k in k1\<lparr>k_serial_list := remove1 a (k_serial_list k1)\<rparr>)"

definition serial_register :: "addr \<Rightarrow> 'h kernel \<Rightarrow> errno option \<times> 'h kernel" where
  "serial_register a k =
     (case k_serial k a of
        None \<Rightarrow> (Some EINVAL, k)
      | Some s \<Rightarrow>
        (case sr_ops s of
           None \<Rightarrow> (Some EINVAL, k)
         | Some i \<Rightarrow>
           (if sio_input (k_serial_ops k i) = None \<or> sio_output (k_serial_ops k i) = None then (Some EINVAL, k)
            else
              (let name = ''s'' @ dec_digits (nat (k_serial_count k));
                   k1 = k\<lparr>k_dev := (k_dev k)(a := map_option (d_name_update (\<lambda>_. name)) (k_dev k a))\<rparr>;
                   k2 = serial_add a k1;
                   k3 = (if sr_stdio s then k2\<lparr>k_serial_stdio := Some a\<rparr> else k2)
               in (None, k3\<lparr>k_serial_count := k_serial_count k3 + 1\<rparr>)))))"

text \<open>\<open>-ENOTSUP\<close> when the driver cannot change the speed; \<open>None\<close> is a call through NULL.\<close>

definition ENOTSUP :: int where "ENOTSUP = 45"

definition serial_set_speed :: "addr \<Rightarrow> u64 \<Rightarrow> 'h kernel \<Rightarrow> (int \<times> 'h kernel) option" where
  "serial_set_speed a baudrate k =
     (case Option.bind (k_serial k a) (\<lambda>s. map_option (Pair s) (sr_ops s)) of
        None \<Rightarrow> None
      | Some (s, i) \<Rightarrow>
          (case sio_set_speed (k_serial_ops k i) of
             None \<Rightarrow> Some (- ENOTSUP, k)
           | Some f \<Rightarrow> (case f (sr_data s) baudrate (k_hw k) of (r, h) \<Rightarrow> Some (r, k\<lparr>k_hw := h\<rparr>))))"

end
