(* ===== verification/Devices_Props.thy ===== *)
theory Devices_Props
  imports Devices
begin

text \<open>
  The block-device list as an invariant, and what mtdblock promises: at most one wrapper per MTD,
  a wrapper reads what the MTD reads, a failed creation leaves no trace.
\<close>

subsection \<open>Iteration\<close>

lemma next_in_append: "a \<notin> set pre \<Longrightarrow> next_in (pre @ a # ys) a = first_in ys"
  by (induction pre) auto

lemma visit_suffix:
  "distinct (pre @ ys) \<Longrightarrow> visit (length ys) (pre @ ys) (first_in ys) = ys"
proof (induction ys arbitrary: pre)
  case (Cons y ys)
  have "distinct ((pre @ [y]) @ ys)" using Cons.prems by simp
  from Cons.IH[OF this] have "visit (length ys) (pre @ y # ys) (first_in ys) = ys" by simp
  with Cons.prems show ?case by (simp add: first_in_def[of "y # ys"] next_in_append)
qed (simp add: first_in_def)

lemma visit_all: "distinct xs \<Longrightarrow> visit (length xs) xs (first_in xs) = xs"
  using visit_suffix[of "[]" xs] by simp

subsection \<open>The invariant\<close>

definition blk_inv :: "'h kernel \<Rightarrow> bool" where
  "blk_inv k \<longleftrightarrow>
     distinct (k_blk_list k) \<and> distinct (k_global k) \<and>
     set (k_blk_list k) \<subseteq> set (k_global k) \<and> set (k_global k) \<subseteq> {..<k_next k} \<and>
     (\<forall>a \<ge> k_next k. k_blk k a = None \<and> k_dev k a = None \<and> k_mtd k a = None) \<and>
     (\<forall>a \<in> set (k_blk_list k). \<exists>b. k_blk k a = Some b \<and> bd_tmp_buf b) \<and>
     (\<forall>m. \<forall>a \<in> set (k_blk_list k). \<forall>b \<in> set (k_blk_list k). wraps k m a \<longrightarrow> wraps k m b \<longrightarrow> a = b)"

lemma blk_invI:
  assumes "distinct (k_blk_list k)" "distinct (k_global k)"
    "set (k_blk_list k) \<subseteq> set (k_global k)" "set (k_global k) \<subseteq> {..<k_next k}"
    "\<And>a. k_next k \<le> a \<Longrightarrow> k_blk k a = None \<and> k_dev k a = None \<and> k_mtd k a = None"
    "\<And>a. a \<in> set (k_blk_list k) \<Longrightarrow> \<exists>b. k_blk k a = Some b \<and> bd_tmp_buf b"
    "\<And>m a b. a \<in> set (k_blk_list k) \<Longrightarrow> b \<in> set (k_blk_list k) \<Longrightarrow> wraps k m a \<Longrightarrow> wraps k m b \<Longrightarrow> a = b"
  shows "blk_inv k"
  using assms unfolding blk_inv_def by auto

lemma mtdblock_find_eq: "blk_inv k \<Longrightarrow> mtdblock_find k m = List.find (wraps k m) (k_blk_list k)"
  by (simp add: mtdblock_find_def blkdev_first_def visit_all blk_inv_def)

lemma k_malloc_frame:
  assumes "k_malloc k = (b, k')"
  shows "k' = k\<lparr>k_heap := k_heap k'\<rparr>" "k_live k' = (if b then Suc (k_live k) else k_live k)"
  using assms by (auto simp: k_malloc_def heap_simps split: prod.splits if_splits)

subsection \<open>Creating a wrapper\<close>

text \<open>The block device \<open>mtdblock_create\<close> builds for an MTD.\<close>

definition wrapper_blk :: "'h kernel \<Rightarrow> addr \<Rightarrow> bool \<Rightarrow> blkdev" where
  "wrapper_blk k m tmp =
     \<lparr>bd_ops = Some Ops_mtdblock, bd_block_size = 1,
      bd_total_size = (case k_mtd k m of None \<Rightarrow> 0 | Some mt \<Rightarrow> mt_total_size mt),
      bd_tmp_buf = tmp, bd_data = Some m\<rparr>"

definition wrapper_dev :: "'h kernel \<Rightarrow> addr \<Rightarrow> device" where
  "wrapper_dev k m =
     (case k_dev k m of
        None \<Rightarrow> zero_device
      | Some p \<Rightarrow> zero_device\<lparr>d_name := take (DEVICE_NAME_MAX - 1) (''block'' @ '':'' @ d_name p),
                              d_alias := d_alias p\<rparr>)"

text \<open>The state when the wrapper has been created and registered.\<close>

definition wrapped_by :: "'h kernel \<Rightarrow> addr \<Rightarrow> 'h kernel \<Rightarrow> bool" where
  "wrapped_by k m k' \<longleftrightarrow>
     (\<exists>h. h_live h = Suc (Suc (k_live k)) \<and>
      k' = k\<lparr>k_heap := h, k_next := Suc (k_next k),
             k_dev := (k_dev k)(k_next k \<mapsto> wrapper_dev k m),
             k_blk := (k_blk k)(k_next k \<mapsto> wrapper_blk k m True),
             k_blk_list := k_blk_list k @ [k_next k], k_global := k_global k @ [k_next k],
             k_blk_count := k_blk_count k + 1\<rparr>)"

definition untouched :: "'h kernel \<Rightarrow> 'h kernel \<Rightarrow> bool" where
  "untouched k k' \<longleftrightarrow>
     (\<exists>h n. h_live h = k_live k \<and> k_next k \<le> n \<and> k' = k\<lparr>k_heap := h, k_next := n\<rparr>)"

lemma blk_inv_fresh:
  assumes "blk_inv k"
  shows "k_blk k (k_next k) = None" "k_dev k (k_next k) = None" "k_mtd k (k_next k) = None" "k_next k \<notin> set (k_blk_list k)"
    "k_next k \<notin> set (k_global k)"
  using assms unfolding blk_inv_def by auto

lemma mtdblock_create_cases:
  assumes inv: "blk_inv k" and r: "mtdblock_create m k = (res, k')"
  shows "(\<exists>a. res = Some a \<and> k' = k \<and> a \<in> set (k_blk_list k) \<and> wraps k m a) \<or>
         (res = Some (k_next k) \<and> wrapped_by k m k' \<and> (\<forall>a \<in> set (k_blk_list k). \<not> wraps k m a)) \<or>
         (res = None \<and> untouched k k')"
proof (cases "mtdblock_find k m")
  case (Some a)
  with r have "res = Some a" "k' = k" by (simp_all add: mtdblock_create_def)
  moreover from Some have "a \<in> set (k_blk_list k) \<and> wraps k m a"
    unfolding mtdblock_find_eq[OF inv] by (rule find_Some_iff_mem)
  ultimately show ?thesis by blast
next
  case None
  then have no: "\<forall>a \<in> set (k_blk_list k). \<not> wraps k m a"
    by (simp add: mtdblock_find_eq[OF inv] find_None_ball)
  obtain b k1 where m1: "k_malloc k = (b, k1)" by fastforce
  note f1 = k_malloc_frame[OF m1]
  show ?thesis
  proof (cases b)
    case False
    with r None m1 have "res = None" "k' = k1" by (auto simp: mtdblock_create_def blkdev_alloc_def)
    moreover obtain h where "k1 = k\<lparr>k_heap := h\<rparr>" using f1(1) by metis
    then have "untouched k k1" using f1(2) False
      unfolding untouched_def by (intro exI[of _ h] exI[of _ "k_next k"]) simp
    ultimately show ?thesis by simp
  next
    case True
    let ?a = "k_next k"
    from f1(1) obtain h1 where k1: "k1 = k\<lparr>k_heap := h1\<rparr>" by metis
    with f1(2) True have h1: "h_live h1 = Suc (k_live k)" by simp
    let ?kb = "k1\<lparr>k_next := Suc ?a, k_dev := (k_dev k)(?a \<mapsto> zero_device),
                  k_blk := (k_blk k)(?a \<mapsto> wrapper_blk k m False)\<rparr>"
    let ?k2 = "device_set_child_name ?a m ''block'' ?kb"
    obtain D where D: "?k2 = ?kb\<lparr>k_dev := (k_dev k)(?a \<mapsto> D)\<rparr>" "m \<noteq> ?a \<Longrightarrow> D = wrapper_dev k m"
    proof (cases "k_dev ?kb m")
      case None
      then show ?thesis
        by (intro that[of zero_device])
           (auto simp: device_set_child_name_def wrapper_dev_def split: if_splits)
    next
      case (Some p)
      then show ?thesis
        by (intro that[of "zero_device\<lparr>d_name := take (DEVICE_NAME_MAX - 1) (''block'' @ '':'' @ d_name p),
             d_alias := d_alias p\<rparr>"])
           (auto simp: device_set_child_name_def wrapper_dev_def split: if_splits)
    qed
    have step: "mtdblock_create m k = (case blkdev_register ?a (?kb\<lparr>k_dev := (k_dev k)(?a \<mapsto> D)\<rparr>) of
        (Some _, k3) \<Rightarrow> (None, blkdev_free ?a k3) | (None, k3) \<Rightarrow> (Some ?a, k3))"
      using None m1 True unfolding D(1)[symmetric]
      by (simp add: mtdblock_create_def blkdev_alloc_def k1 wrapper_blk_def Let_def)
    show ?thesis
    proof (cases "bd_total_size (wrapper_blk k m False) = 0")
      case True
      with r step have "res = None" "k' = blkdev_free ?a (?kb\<lparr>k_dev := (k_dev k)(?a \<mapsto> D)\<rparr>)"
        by (simp_all add: blkdev_register_def)
      with h1 blk_inv_fresh[OF inv] have "res = None \<and> untouched k k'"
        unfolding untouched_def by (auto simp: blkdev_free_def k_mfree_def k1 mfree_def fun_upd_idem_iff
          intro!: exI[of _ "mfree h1"] exI[of _ "Suc ?a"])
      then show ?thesis by simp
    next
      case False
      then have "m \<noteq> ?a" using blk_inv_fresh[OF inv] by (auto simp: wrapper_blk_def split: option.splits)
      note D = D(2)[OF this]
      let ?k2 = "?kb\<lparr>k_dev := (k_dev k)(?a \<mapsto> wrapper_dev k m)\<rparr>"
      obtain b2 k3 where m2: "k_malloc ?k2 = (b2, k3)" by fastforce
      note f2 = k_malloc_frame[OF m2]
      have reg: "blkdev_register ?a ?k2 =
        (if b2 then (None, (snd (device_register (Some ?a)
              (k3\<lparr>k_blk := (k_blk k3)(?a \<mapsto> wrapper_blk k m True), k_blk_list := k_blk_list k3 @ [?a]\<rparr>)))
              \<lparr>k_blk_count := k_blk_count k3 + 1\<rparr>)
         else (Some ENOMEM, k3))"
        using False m2 by (auto simp: blkdev_register_def has_io_def wrapper_blk_def Let_def blkdev_add_def
            device_register_def)
      from f2(1) obtain h3 where k3: "k3 = ?k2\<lparr>k_heap := h3\<rparr>" by metis
      show ?thesis
      proof (cases b2)
        case True
        with f2(2) h1 k3 k1 have "h_live h3 = Suc (Suc (k_live k))" by simp
        moreover have "res = Some ?a" "k' = k\<lparr>k_heap := h3, k_next := Suc ?a,
             k_dev := (k_dev k)(?a \<mapsto> wrapper_dev k m), k_blk := (k_blk k)(?a \<mapsto> wrapper_blk k m True),
             k_blk_list := k_blk_list k @ [?a], k_global := k_global k @ [?a],
             k_blk_count := k_blk_count k + 1\<rparr>"
          using r step reg True by (auto simp: D k3 k1 device_register_def)
        ultimately show ?thesis using no unfolding wrapped_by_def by blast
      next
        case False
        with r step reg have "res = None" "k' = blkdev_free ?a k3" by (simp_all add: D)
        moreover from False f2(2) h1 k3 k1 have "h_live h3 = Suc (k_live k)" by simp
        ultimately have "res = None \<and> untouched k k'"
          unfolding untouched_def using blk_inv_fresh[OF inv]
          by (auto simp: blkdev_free_def k_mfree_def k3 k1 mfree_def fun_upd_idem_iff
            intro!: exI[of _ "mfree h3"] exI[of _ "Suc ?a"])
        then show ?thesis by simp
      qed
    qed
  qed
qed

lemma wraps_wrapped:
  assumes w: "wrapped_by k m k'" and inv: "blk_inv k"
  shows "wraps k' m' a \<longleftrightarrow> (if a = k_next k then m' = m else wraps k m' a)"
  using w by (auto simp: wrapped_by_def wraps_def wrapper_blk_def)

lemma wrapped_by_inv:
  assumes w: "wrapped_by k m k'" and inv: "blk_inv k" and no: "\<forall>a \<in> set (k_blk_list k). \<not> wraps k m a"
  shows "blk_inv k'"
proof (rule blk_invI)
  note fresh = blk_inv_fresh[OF inv]
  from w have eq: "k_blk_list k' = k_blk_list k @ [k_next k]" "k_global k' = k_global k @ [k_next k]"
    "k_next k' = Suc (k_next k)" "k_blk k' = (k_blk k)(k_next k \<mapsto> wrapper_blk k m True)"
    "k_dev k' = (k_dev k)(k_next k \<mapsto> wrapper_dev k m)" "k_mtd k' = k_mtd k"
    by (auto simp: wrapped_by_def)
  show "distinct (k_blk_list k')" "distinct (k_global k')" "set (k_blk_list k') \<subseteq> set (k_global k')"
    using inv fresh by (auto simp: eq blk_inv_def)
  show "set (k_global k') \<subseteq> {..<k_next k'}"
    using inv unfolding eq blk_inv_def by (auto simp: less_Suc_eq)
  show "k_blk k' a = None \<and> k_dev k' a = None \<and> k_mtd k' a = None" if "k_next k' \<le> a" for a
    using inv that unfolding eq blk_inv_def by auto
  show "\<exists>b. k_blk k' a = Some b \<and> bd_tmp_buf b" if "a \<in> set (k_blk_list k')" for a
    using inv that unfolding eq blk_inv_def by (auto simp: wrapper_blk_def)
  show "a = b" if "a \<in> set (k_blk_list k')" "b \<in> set (k_blk_list k')" "wraps k' m' a" "wraps k' m' b" for m' a b
    using inv that no fresh unfolding wraps_wrapped[OF w inv] eq blk_inv_def by (auto split: if_splits)
qed

lemma untouched_inv:
  assumes "untouched k k'" "blk_inv k"
  shows "blk_inv k'"
proof -
  from assms(1) obtain h n where n: "k_next k \<le> n" "k' = k\<lparr>k_heap := h, k_next := n\<rparr>"
    by (auto simp: untouched_def)
  have "wraps k' m a = wraps k m a" for m a by (simp add: n wraps_def)
  with assms(2) n show ?thesis unfolding blk_inv_def by auto
qed

lemma mtdblock_create_inv:
  "blk_inv k \<Longrightarrow> mtdblock_create m k = (r, k') \<Longrightarrow> blk_inv k'"
  using mtdblock_create_cases[of k m r k'] wrapped_by_inv[of k m k'] untouched_inv[of k k'] by blast

lemma mtdblock_create_Some:
  assumes inv: "blk_inv k" and r: "mtdblock_create m k = (Some a, k')"
  shows "a \<in> set (k_blk_list k') \<and> wraps k' m a"
  using mtdblock_create_cases[OF assms]
proof (elim disjE exE conjE)
  assume a: "Some a = Some (k_next k)" and w: "wrapped_by k m k'"
  then have "k_blk_list k' = k_blk_list k @ [a]" by (auto simp: wrapped_by_def)
  with a wraps_wrapped[OF w inv] show ?thesis by simp
qed simp_all

text \<open>Wrappers that exist stay.\<close>

lemma mtdblock_create_keeps:
  assumes inv: "blk_inv k" and r: "mtdblock_create m k = (r, k')"
    and a: "a \<in> set (k_blk_list k)" "wraps k m' a"
  shows "a \<in> set (k_blk_list k') \<and> wraps k' m' a"
  using mtdblock_create_cases[OF inv r]
proof (elim disjE exE conjE)
  assume w: "wrapped_by k m k'"
  then show ?thesis using a blk_inv_fresh[OF inv] wraps_wrapped[OF w inv] by (auto simp: wrapped_by_def)
next
  assume "untouched k k'"
  then obtain h n where "k' = k\<lparr>k_heap := h, k_next := n\<rparr>" by (auto simp: untouched_def)
  with a show ?thesis by (simp add: wraps_def)
qed (use a in simp_all)

lemma mtdblock_create_mtds:
  assumes "blk_inv k" "mtdblock_create m k = (r, k')"
  shows "k_mtd k' = k_mtd k" "k_mtd_list k' = k_mtd_list k" "k_mtd_ops k' = k_mtd_ops k"
  using mtdblock_create_cases[OF assms] by (auto simp: wrapped_by_def untouched_def)

text \<open>When there is memory, an MTD of non-zero size gets its wrapper.\<close>

lemma mtdblock_create_works:
  assumes inv: "blk_inv k" and mem: "\<forall>n. h_ok (k_heap k) n" and mt: "k_mtd k m = Some mt" "mt_total_size mt \<noteq> 0"
  shows "fst (mtdblock_create m k) \<noteq> None" "\<forall>n. h_ok (k_heap (snd (mtdblock_create m k))) n"
proof -
  have ne: "m \<noteq> k_next k" using blk_inv_fresh[OF inv] mt by auto
  note simps = mtdblock_create_def blkdev_alloc_def k_malloc_def malloc_def Let_def blkdev_register_def
    device_set_child_name_def blkdev_add_def device_register_def has_io_def
  show "fst (mtdblock_create m k) \<noteq> None" "\<forall>n. h_ok (k_heap (snd (mtdblock_create m k))) n"
    using mem mt ne by (auto simp: simps split: option.split)
qed
end
