(* ===== verification/Part_Table.thy ===== *)
theory Part_Table
  imports Prelude
begin

text \<open>
  The partition table of the flash, which \<open>fs/sgpart.c\<close> and \<open>lib/sgmtd/sgmtd.c\<close> declare alike: a series
  of records, ended by a record without the magic number.
\<close>

fun le_nat :: "u8 list \<Rightarrow> nat" where
  "le_nat [] = 0"
| "le_nat (b # bs) = unat b + 256 * le_nat bs"

definition le32 :: "u8 list \<Rightarrow> nat \<Rightarrow> u32" where
  "le32 bs i = of_nat (le_nat (take 4 (drop i bs)))"

definition le64 :: "u8 list \<Rightarrow> nat \<Rightarrow> u64" where
  "le64 bs i = of_nat (le_nat (take 8 (drop i bs)))"

definition DPT_MAGIC :: u32 where "DPT_MAGIC = 0x55aa55aa"

definition PART_INFO_SIZE :: nat where "PART_INFO_SIZE = 56"

text \<open>
  The 56 bytes of a record: magic, name, offset, size, reserve, lma. \<open>pi_name\<close> is the whole
  array, which need not hold a NUL.
\<close>

record part_info =
  pi_magic :: u32
  pi_name :: "u8 list"
  pi_offset :: u32
  pi_size :: u32
  pi_reserve :: "u8 list"
  pi_lma :: u64

definition part_info_of :: "u8 list \<Rightarrow> part_info" where
  "part_info_of bs =
     \<lparr>pi_magic = le32 bs 0, pi_name = take 32 (drop 4 bs), pi_offset = le32 bs 36, pi_size = le32 bs 40,
      pi_reserve = take 4 (drop 44 bs), pi_lma = le64 bs 48\<rparr>"

text \<open>The bounded copy of the name, up to its first NUL.\<close>

definition c_string :: "u8 list \<Rightarrow> string" where
  "c_string bs = map (\<lambda>b. char_of (unat b)) (takeWhile (\<lambda>b. b \<noteq> 0) bs)"

text \<open>The first \<open>n\<close> records.\<close>

fun table_of :: "nat \<Rightarrow> u8 list \<Rightarrow> part_info list" where
  "table_of 0 bs = []"
| "table_of (Suc n) bs =
     (if length bs < PART_INFO_SIZE \<or> pi_magic (part_info_of (take PART_INFO_SIZE bs)) \<noteq> DPT_MAGIC then []
      else part_info_of (take PART_INFO_SIZE bs) # table_of n (drop PART_INFO_SIZE bs))"

end
