(* ===== verification/Fs.thy ===== *)
theory Fs
  imports Vfs Devices Part_Table
begin

text \<open>
  The filesystem types \<open>sysfs\<close> (\<open>fs/sysfs.c\<close>) and \<open>sgpart\<close> (\<open>fs/sgpart.c\<close>) as callbacks of the
  VFS, and the mount policies \<open>fs/automount.c\<close> and \<open>fs/flashmount.c\<close>.

  The world of the VFS is here the kernel state of \<open>Devices\<close>; the allocator lives in the
  environment, and \<open>in_kernel\<close> runs a device operation with it. A device operation called
  through a NULL pointer, which a registered device excludes, is the error \<open>null_call\<close>.
\<close>

subsection \<open>Device operations in the environment of the VFS\<close>

datatype fs_priv =
    P_blkdev addr
  | P_sgpart_data "addr option" u64
  | P_sgpart_file addr u64 u64
  | P_path string
  | P_fil addr
  | P_fatfs_mount addr nat

type_synonym 'h fs_env = "'h kernel env"

definition in_kernel :: "('h kernel \<Rightarrow> 'a \<times> 'h kernel) \<Rightarrow> 'h fs_env \<Rightarrow> 'a \<times> 'h fs_env" where
  "in_kernel f e =
     (case f ((e_world e)\<lparr>k_heap := e_heap e\<rparr>) of
        (r, k) \<Rightarrow> (r, e\<lparr>e_heap := k_heap k, e_world := k\<rparr>))"

definition null_call :: errno where "null_call = EOTHER 14"

definition blk_read :: "addr \<Rightarrow> u64 \<Rightarrow> u64 \<Rightarrow> 'h fs_env \<Rightarrow> (errno + u8 list) \<times> 'h fs_env" where
  "blk_read dev offset len e =
     in_kernel (\<lambda>k. case blkdev_read dev offset len k of None \<Rightarrow> (Inl null_call, k) | Some r \<Rightarrow> r) e"

text \<open>The same on the tree, whose environment it changes.\<close>

definition t_blk_read ::
  "addr \<Rightarrow> u64 \<Rightarrow> u64 \<Rightarrow> ('p, 'h kernel) vfs_tree \<Rightarrow> (errno + u8 list) \<times> ('p, 'h kernel) vfs_tree" where
  "t_blk_read dev offset len t =
     (case blk_read dev offset len (t_env t) of (r, e) \<Rightarrow> (r, t\<lparr>t_env := e\<rparr>))"

definition dev_name :: "'h kernel \<Rightarrow> addr \<Rightarrow> string" where
  "dev_name k a = (case k_dev k a of None \<Rightarrow> [] | Some d \<Rightarrow> d_name d)"

subsection \<open>sysfs\<close>

text \<open>One directory per registered device; the result of each \<open>vfs_mkdir\<close> is ignored.\<close>

definition sysfs_add_devices ::
  "addr \<Rightarrow> string list \<Rightarrow> ('p, 'h kernel) vfs_tree \<Rightarrow> ('p, 'h kernel) vfs_tree" where
  "sysfs_add_devices devices names t = fold (\<lambda>name t. snd (vfs_mkdir (Some devices) name t)) names t"

definition sysfs_mount :: "('p, 'h kernel) mount_fun" where
  "sysfs_mount t mnt source data =
     (case vfs_alloc_dir_node ''sysfs'' t of
        (None, t1) \<Rightarrow> (Some ENOMEM, mnt, t1)
      | (Some root, t1) \<Rightarrow>
        (case vfs_mkdir (Some root) ''devices'' t1 of
           (None, t2) \<Rightarrow> (Some ENOMEM, mnt, t2)
         | (Some devices, t2) \<Rightarrow>
             (let k = e_world (t_env t2);
                  names = map (dev_name k) (visit (length (k_global k)) (k_global k) (device_global_first k))
              in (None, mnt\<lparr>m_root := Some root\<rparr>, sysfs_add_devices devices names t2))))"

definition sysfs_type :: "('p, 'h kernel) vfs_fs_type" where
  "sysfs_type = \<lparr>fs_name = Some ''sysfs'', fs_flags = 0, fs_mount = Some sysfs_mount\<rparr>"

definition sysfs_setup :: "('p, 'h kernel) vfs \<Rightarrow> errno option \<times> ('p, 'h kernel) vfs" where
  "sysfs_setup v =
     (case vfs_register_filesystem v (Some sysfs_type) of
        (Some e, v1) \<Rightarrow> (Some e, v1)
      | (None, v1) \<Rightarrow>
        (case vfs_mkdir (vfs_root (v_tree v1)) ''sys'' (v_tree v1) of
           (None, t) \<Rightarrow> (Some ENOMEM, v1\<lparr>v_tree := t\<rparr>)
         | (Some _, t) \<Rightarrow> vfs_mount (v1\<lparr>v_tree := t\<rparr>) None (Some ''/sys'') (Some ''sysfs'') None))"

subsection \<open>sgpart\<close>

definition SGPART_MAX_ENTRIES :: nat where "SGPART_MAX_ENTRIES = 64"

definition sgpart_read ::
  "'h fs_env \<Rightarrow> fs_priv option \<Rightarrow> fs_priv vfs_file \<Rightarrow> u64 \<Rightarrow> (errno + u8 list) \<times> 'h fs_env" where
  "sgpart_read e priv file len =
     (case priv of
        Some (P_sgpart_file dev off psize) \<Rightarrow>
          (if psize \<le> f_pos file then (Inr [], e)
           else blk_read dev (off + f_pos file)
                  (if psize - f_pos file < len then psize - f_pos file else len) e)
      | _ \<Rightarrow> (Inl null_call, e))"

definition sgpart_fops :: "(fs_priv, 'h kernel) vfs_file_ops" where
  "sgpart_fops =
     \<lparr>fo_open = None, fo_read = Some sgpart_read, fo_write = None, fo_ioctl = None, fo_close = None\<rparr>"

definition sgpart_add ::
  "addr \<Rightarrow> part_info \<Rightarrow> addr \<Rightarrow> (fs_priv, 'h kernel) vfs_tree \<Rightarrow>
   errno option \<times> (fs_priv, 'h kernel) vfs_tree" where
  "sgpart_add root pi dev t =
     (let name = c_string (pi_name pi) in
      if name = [] then (Some EINVAL, t)
      else (case t_malloc t of
        (False, t1) \<Rightarrow> (Some ENOMEM, t1)
      | (True, t1) \<Rightarrow>
          (case vfs_mknod (Some root) name VFS_NODE_REG (Some sgpart_fops)
                  (Some (P_sgpart_file dev (ucast (pi_offset pi)) (ucast (pi_size pi)))) t1 of
             (None, t2) \<Rightarrow> (Some EEXIST, t_free t2)
           | (Some _, t2) \<Rightarrow> (None, t2))))"

text \<open>The first argument counts down from \<open>SGPART_MAX_ENTRIES\<close>.\<close>

fun sgpart_loop ::
  "nat \<Rightarrow> addr \<Rightarrow> addr \<Rightarrow> part_info \<Rightarrow> u64 \<Rightarrow> (fs_priv, 'h kernel) vfs_tree \<Rightarrow>
   (fs_priv, 'h kernel) vfs_tree" where
  "sgpart_loop 0 root dev pi a t = t"
| "sgpart_loop (Suc n) root dev pi a t =
     (if pi_magic pi \<noteq> DPT_MAGIC then t
      else
        (let t1 = snd (sgpart_add root pi dev t);
             a1 = a + of_nat PART_INFO_SIZE
         in (case t_blk_read dev a1 (of_nat PART_INFO_SIZE) t1 of
               (Inl _, t2) \<Rightarrow> t2
             | (Inr bs, t2) \<Rightarrow>
                 (if length bs \<noteq> PART_INFO_SIZE then t2
                  else sgpart_loop n root dev (part_info_of bs) a1 t2))))"

definition sgpart_mount :: "(fs_priv, 'h kernel) mount_fun" where
  "sgpart_mount t mnt source data =
     (case data of
        Some (P_sgpart_data (Some dev) offset) \<Rightarrow>
          (case t_blk_read dev offset (of_nat PART_INFO_SIZE) t of
             (Inl _, t1) \<Rightarrow> (Some EIO, mnt, t1)
           | (Inr bs, t1) \<Rightarrow>
               (if length bs \<noteq> PART_INFO_SIZE then (Some EIO, mnt, t1)
                else if pi_magic (part_info_of bs) \<noteq> DPT_MAGIC then (Some ENODEV, mnt, t1)
                else (case vfs_alloc_dir_node ''sgpart'' t1 of
                  (None, t2) \<Rightarrow> (Some ENOMEM, mnt, t2)
                | (Some root, t2) \<Rightarrow>
                    (None, mnt\<lparr>m_root := Some root\<rparr>,
                     sgpart_loop SGPART_MAX_ENTRIES root dev (part_info_of bs) offset t2))))
      | _ \<Rightarrow> (Some EINVAL, mnt, t))"

definition sgpart_type :: "(fs_priv, 'h kernel) vfs_fs_type" where
  "sgpart_type = \<lparr>fs_name = Some ''sgpart'', fs_flags = 0, fs_mount = Some sgpart_mount\<rparr>"

definition sgpart_init ::
  "(fs_priv, 'h kernel) vfs \<Rightarrow> errno option \<times> (fs_priv, 'h kernel) vfs" where
  "sgpart_init v = vfs_register_filesystem v (Some sgpart_type)"

subsection \<open>Automatic mounting of block devices\<close>

text \<open>
  The path buffer has room for \<open>/mnt/\<close> and the longest alias, so \<open>snprintf\<close> truncates nothing.
  A failed \<open>vfs_mkdir_p\<close> returns -1, here \<open>EOTHER 1\<close>.
\<close>

definition mount_named ::
  "addr \<Rightarrow> string \<Rightarrow> (fs_priv, 'h kernel) vfs \<Rightarrow> errno option \<times> (fs_priv, 'h kernel) vfs" where
  "mount_named dev alias v =
     (let path = take (8 + DEVICE_NAME_MAX - 1) (''/mnt/'' @ alias) in
      case vfs_mkdir_p (Some path) (v_tree v) of
        (None, t) \<Rightarrow> (Some (EOTHER 1), v\<lparr>v_tree := t\<rparr>)
      | (Some _, t) \<Rightarrow> vfs_mount (v\<lparr>v_tree := t\<rparr>) None (Some path) None (Some (P_blkdev dev)))"

definition mount_anon ::
  "addr \<Rightarrow> nat \<Rightarrow> (fs_priv, 'h kernel) vfs \<Rightarrow> errno option \<times> (fs_priv, 'h kernel) vfs" where
  "mount_anon dev index v =
     (let name = take 15 (''blk'' @ dec_digits index);
          path = take 23 (''/'' @ name)
      in case vfs_mkdir (vfs_root (v_tree v)) name (v_tree v) of
           (None, t) \<Rightarrow> (Some (EOTHER 1), v\<lparr>v_tree := t\<rparr>)
         | (Some _, t) \<Rightarrow>
             (case vfs_mount (v\<lparr>v_tree := t\<rparr>) None (Some path) None (Some (P_blkdev dev)) of
                (None, v2) \<Rightarrow> (None, v2)
              | (Some _, v2) \<Rightarrow>
                  (Some (EOTHER 1), snd (vfs_unlink v2 (vfs_root (v_tree v2)) name))))"

definition dev_alias :: "'h kernel \<Rightarrow> addr \<Rightarrow> string" where
  "dev_alias k a = (case k_dev k a of None \<Rightarrow> [] | Some d \<Rightarrow> d_alias d)"

text \<open>The devices mounted are those of the list when the loop starts; mounting adds none.\<close>

fun automount_loop :: "addr list \<Rightarrow> nat \<Rightarrow> (fs_priv, 'h kernel) vfs \<Rightarrow> nat \<times> (fs_priv, 'h kernel) vfs" where
  "automount_loop [] anon v = (anon, v)"
| "automount_loop (d # ds) anon v =
     (let alias = dev_alias (e_world (v_env v)) d in
      if alias \<noteq> [] then automount_loop ds anon (snd (mount_named d alias v))
      else (case mount_anon d anon v of
              (None, v1) \<Rightarrow> automount_loop ds (Suc anon) v1
            | (Some _, v1) \<Rightarrow> automount_loop ds anon v1))"

definition automount_setup :: "(fs_priv, 'h kernel) vfs \<Rightarrow> (fs_priv, 'h kernel) vfs" where
  "automount_setup v =
     (let k = e_world (v_env v)
      in snd (automount_loop (visit (length (k_blk_list k)) (k_blk_list k) (blkdev_first k)) 0 v))"

subsection \<open>Mounting the boot flash\<close>

text \<open>
  \<open>prop\<close> stands for libfdt: the bytes of the \<open>sophgo-boot\<close> property of the node of a hardware
  device, if it has one. The 64-bit offset is stored big-endian.
\<close>

definition read_table_offset ::
  "(addr \<Rightarrow> u8 list option) \<Rightarrow> addr \<Rightarrow> 'h kernel \<Rightarrow> errno + u64" where
  "read_table_offset prop m k =
     (case Option.bind (k_mtd k m) mt_hwdev of
        None \<Rightarrow> Inl ENODEV
      | Some hw \<Rightarrow>
        (case prop hw of
           None \<Rightarrow> Inl ENOENT
         | Some bs \<Rightarrow> (if length bs < 8 then Inl EINVAL else Inr (of_nat (le_nat (rev (take 8 bs)))))))"

definition flash_mount_one ::
  "(addr \<Rightarrow> u8 list option) \<Rightarrow> addr \<Rightarrow> (fs_priv, 'h kernel) vfs \<Rightarrow>
   errno option \<times> (fs_priv, 'h kernel) vfs" where
  "flash_mount_one prop m v =
     (case read_table_offset prop m (e_world (v_env v)) of
        Inl e \<Rightarrow> (Some e, v)
      | Inr offset \<Rightarrow>
        (case in_kernel (mtdblock_create m) (v_env v) of
           (None, e) \<Rightarrow> (Some ENOMEM, set_env v e)
         | (Some dev, e) \<Rightarrow>
           (let v1 = set_env v e in
            case vfs_mkdir_p (Some ''/mnt/flash'') (v_tree v1) of
              (None, t) \<Rightarrow> (Some EIO, v1\<lparr>v_tree := t\<rparr>)
            | (Some _, t) \<Rightarrow>
                vfs_mount (v1\<lparr>v_tree := t\<rparr>) (Some (dev_name (e_world e) m)) (Some ''/mnt/flash'')
                  (Some ''sgpart'') (Some (P_sgpart_data (Some dev) offset)))))"

definition flashmount_setup ::
  "(addr \<Rightarrow> u8 list option) \<Rightarrow> (fs_priv, 'h kernel) vfs \<Rightarrow> (fs_priv, 'h kernel) vfs" where
  "flashmount_setup prop v =
     (let k = e_world (v_env v)
      in fold (\<lambda>m v. snd (flash_mount_one prop m v))
           (visit (length (k_mtd_list k)) (k_mtd_list k) (mtd_first k)) v)"

end
