(* ===== verification/Fs_Props.thy ===== *)
theory Fs_Props
  imports Vfs_Contracts Devices_Props Fs
begin

text \<open>
  The filesystem types meet the contract of the VFS, stated as the locale \<open>vfs_filesystem\<close>; the
  files of sgpart are the entries of the partition table, and reading one stays inside its
  partition.
\<close>

subsection \<open>The contract of one \<open>mount\<close> callback\<close>

locale vfs_filesystem =
  fixes mount :: "('p, 'w) mount_fun"
  assumes mount_keeps: "m_root mnt = None \<Longrightarrow> m_sops mnt = None \<Longrightarrow>
      mount t mnt source data = (r, mnt', t') \<Longrightarrow> keeps_tree t t'"
    and mount_fresh: "m_root mnt = None \<Longrightarrow> m_sops mnt = None \<Longrightarrow> tree_inv t \<Longrightarrow>
      mount t mnt source data = (None, mnt', t') \<Longrightarrow> m_root mnt' = Some root \<Longrightarrow> fresh_root t t' root"
    and mount_ops: "m_root mnt = None \<Longrightarrow> m_sops mnt = None \<Longrightarrow> tree_inv t \<Longrightarrow>
      mount t mnt source data = (None, mnt', t') \<Longrightarrow> m_sops mnt' = Some s \<Longrightarrow> good_sops s"
begin

lemma good: "good_mount mount"
  unfolding good_mount_def
proof (intro allI impI)
  fix t mnt source data r mnt' t'
  assume a: "m_root mnt = None" "m_sops mnt = None" "mount t mnt source data = (r, mnt', t')"
  note keep = mount_keeps[OF a]
  have "(\<forall>root. m_root mnt' = Some root \<longrightarrow> fresh_root t t' root) \<and>
      (\<forall>s. m_sops mnt' = Some s \<longrightarrow> good_sops s)" if "tree_inv t" "r = None"
    using mount_fresh[OF a(1,2) that(1)] mount_ops[OF a(1,2) that(1)] a(3) that(2) by simp
  with keep show "keeps_tree t t' \<and> (tree_inv t \<longrightarrow> r = None \<longrightarrow>
      (\<forall>root. m_root mnt' = Some root \<longrightarrow> fresh_root t t' root) \<and>
      (\<forall>s. m_sops mnt' = Some s \<longrightarrow> good_sops s))" by blast
qed

lemma type_good: "fs_mount ty = Some mount \<Longrightarrow> good_fs_type ty"
  using good by (simp add: good_fs_type_def)

lemma register_keeps_reachable:
  assumes "vfs_reachable v" "fs_mount ty = Some mount"
    "vfs_register_filesystem v (Some ty) = (e, v')"
  shows "vfs_reachable v'"
  using assms(2) type_good by (intro reach_step[OF assms(1)] step_register[OF _ assms(3)]) simp

end

subsection \<open>Building blocks of a \<open>mount\<close> callback\<close>

lemma keeps_tree_env [intro, simp]: "keeps_tree t (t\<lparr>t_env := e\<rparr>)"
  by (rule keeps_tree_same) simp_all

lemma t_blk_read_frame:
  assumes "t_blk_read dev off len t = (r, t')"
  shows "t_nodes t' = t_nodes t" "t_next t' = t_next t" "t_root t' = t_root t" "t_ready t' = t_ready t"
    "keeps_tree t t'"
  using assms by (auto simp: t_blk_read_def split: prod.splits)

lemma keeps_tree_fold:
  assumes "\<And>x t. keeps_tree t (f x t)"
  shows "keeps_tree t (fold f xs t)"
  by (induction xs arbitrary: t) (auto intro: keeps_tree_trans assms)

lemma keeps_tree_add_devices: "keeps_tree t (sysfs_add_devices d names t)"
  unfolding sysfs_add_devices_def
proof (rule keeps_tree_fold)
  fix x and t :: "('p, 'h kernel) vfs_tree"
  show "keeps_tree t (snd (vfs_mkdir (Some d) x t))"
    by (cases "vfs_mkdir (Some d) x t") auto
qed

lemma keeps_tree_sgpart_add: "keeps_tree t (snd (sgpart_add root pi dev t))"
proof -
  obtain b t1 where m: "t_malloc t = (b, t1)" by fastforce
  obtain q t2 where q: "vfs_mknod (Some root) (c_string (pi_name pi)) VFS_NODE_REG (Some sgpart_fops)
    (Some (P_sgpart_file dev (ucast (pi_offset pi)) (ucast (pi_size pi)))) t1 = (q, t2)" by fastforce
  note k = keeps_tree_malloc[OF m] keeps_tree_trans[OF keeps_tree_malloc[OF m] keeps_tree_mknod[OF q]]
  then have "keeps_tree t (t_free t2)" by (blast intro: keeps_tree_trans)
  with m q k show ?thesis
    by (auto simp: sgpart_add_def Let_def split: bool.splits option.splits)
qed

lemma keeps_tree_sgpart_loop: "keeps_tree t (sgpart_loop n root dev pi a t)"
proof (induction n root dev pi a t rule: sgpart_loop.induct)
  case (2 n root dev pi a t)
  show ?case
  proof (cases "pi_magic pi = DPT_MAGIC")
    case True
    let ?t1 = "snd (sgpart_add root pi dev t)"
    obtain r t2 where r: "t_blk_read dev (a + of_nat PART_INFO_SIZE) (of_nat PART_INFO_SIZE) ?t1 = (r, t2)"
      by fastforce
    have k2: "keeps_tree t t2"
      using keeps_tree_trans[OF keeps_tree_sgpart_add t_blk_read_frame(5)[OF r]] .
    show ?thesis
    proof (cases r)
      case (Inr bs)
      have "keeps_tree t2 (sgpart_loop n root dev (part_info_of bs) (a + of_nat PART_INFO_SIZE) t2)"
        if "length bs = PART_INFO_SIZE"
        using 2[OF _ refl refl r[symmetric] Inr] True that by simp
      with k2 True r Inr show ?thesis by (auto simp: Let_def intro: keeps_tree_trans)
    qed (use k2 True r in \<open>simp add: Let_def\<close>)
  qed simp
qed simp

lemma alloc_dir_fresh:
  assumes "tree_inv t" "vfs_alloc_dir_node name t = (Some root, t')" "keeps_tree t' t2"
  shows "fresh_root t t2 root"
proof -
  from assms(2) have a: "vfs_alloc_node name VFS_NODE_DIR None None t = (Some root, t')"
    by (simp add: vfs_alloc_dir_node_def split: if_splits)
  note n = vfs_alloc_node_Some[OF a]
  have "tree_inv t'" using vfs_alloc_dir_node_inv[OF assms(1,2)] by simp
  with assms(3) have e: "tree_ext t' t2" by (simp add: keeps_tree_def)
  from n(2) have "t_nodes t' root = Some (new_node name VFS_NODE_DIR None None)" by simp
  then obtain k where "t_nodes t2 root = Some k" "node_ext (new_node name VFS_NODE_DIR None None) k"
    by (rule tree_extD[OF e])
  then show ?thesis using tree_inv_next_fresh[OF assms(1), of root] n(1)
    by (auto simp: fresh_root_def node_extD)
qed

subsection \<open>The filesystem types interpret the contract\<close>

lemma sysfs_mount_cases:
  assumes "sysfs_mount t mnt source data = (r, mnt', t')"
  shows "m_sops mnt' = m_sops mnt \<and> keeps_tree t t' \<and>
    (r = None \<longrightarrow> (\<exists>root t1. vfs_alloc_dir_node ''sysfs'' t = (Some root, t1) \<and>
       m_root mnt' = Some root \<and> keeps_tree t1 t'))"
proof -
  obtain q t1 where q: "vfs_alloc_dir_node ''sysfs'' t = (q, t1)" by fastforce
  then have k1: "keeps_tree t t1" by (rule keeps_tree_alloc_dir)
  show ?thesis
  proof (cases q)
    case None
    with assms q k1 show ?thesis by (auto simp: sysfs_mount_def)
  next
    case (Some root)
    obtain p t2 where p: "vfs_mkdir (Some root) ''devices'' t1 = (p, t2)" by fastforce
    then have k2: "keeps_tree t1 t2" by (rule keeps_tree_mkdir)
    show ?thesis
    proof (cases p)
      case None
      with assms q p k1 k2 Some show ?thesis by (auto simp: sysfs_mount_def intro: keeps_tree_trans)
    next
      case (Some d)
      with assms q p \<open>q = Some root\<close> obtain names where
        "r = None" "mnt' = mnt\<lparr>m_root := Some root\<rparr>" "t' = sysfs_add_devices d names t2"
        by (auto simp: sysfs_mount_def Let_def)
      moreover from this have "keeps_tree t1 t'" using k2 keeps_tree_add_devices by (auto intro: keeps_tree_trans)
      ultimately show ?thesis using q \<open>q = Some root\<close> k1 by (auto intro: keeps_tree_trans)
    qed
  qed
qed

interpretation sysfs: vfs_filesystem sysfs_mount
  by unfold_locales (auto dest!: sysfs_mount_cases intro: alloc_dir_fresh)

lemma sgpart_mount_cases:
  assumes "sgpart_mount t mnt source data = (r, mnt', t')"
  shows "m_sops mnt' = m_sops mnt \<and> keeps_tree t t' \<and>
    (r = None \<longrightarrow> (\<exists>root t1 t2. keeps_tree t t1 \<and> t_nodes t1 = t_nodes t \<and>
       vfs_alloc_dir_node ''sgpart'' t1 = (Some root, t2) \<and> m_root mnt' = Some root \<and> keeps_tree t2 t'))"
proof (cases "\<exists>dev offset. data = Some (P_sgpart_data (Some dev) offset)")
  case True
  then obtain dev offset where data: "data = Some (P_sgpart_data (Some dev) offset)" by blast
  obtain q t1 where q: "t_blk_read dev offset (of_nat PART_INFO_SIZE) t = (q, t1)" by fastforce
  note f1 = t_blk_read_frame[OF q]
  show ?thesis
  proof (cases "\<exists>bs. q = Inr bs \<and> length bs = PART_INFO_SIZE \<and> pi_magic (part_info_of bs) = DPT_MAGIC")
    case False
    with assms data q f1(5) show ?thesis
      by (auto simp: sgpart_mount_def split: sum.splits if_splits)
  next
    case True
    then obtain bs where bs: "q = Inr bs" "length bs = PART_INFO_SIZE" "pi_magic (part_info_of bs) = DPT_MAGIC"
      by blast
    obtain p t2 where p: "vfs_alloc_dir_node ''sgpart'' t1 = (p, t2)" by fastforce
    then have k2: "keeps_tree t1 t2" by (rule keeps_tree_alloc_dir)
    show ?thesis
    proof (cases p)
      case None
      with assms data q bs p k2 f1(5) show ?thesis by (auto simp: sgpart_mount_def intro: keeps_tree_trans)
    next
      case (Some root)
      with assms data q bs p have res: "r = None" "mnt' = mnt\<lparr>m_root := Some root\<rparr>"
        "t' = sgpart_loop SGPART_MAX_ENTRIES root dev (part_info_of bs) offset t2"
        by (auto simp: sgpart_mount_def)
      then have "keeps_tree t2 t'" by (simp add: keeps_tree_sgpart_loop)
      with res p Some k2 f1(1,5) show ?thesis by (auto intro: keeps_tree_trans)
    qed
  qed
next
  case False
  with assms show ?thesis
    by (auto simp: sgpart_mount_def split: option.splits fs_priv.splits)
qed

lemma fresh_root_same: "t_nodes t1 = t_nodes t \<Longrightarrow> fresh_root t1 t' r \<Longrightarrow> fresh_root t t' r"
  by (simp add: fresh_root_def)

interpretation sgpart: vfs_filesystem sgpart_mount
proof unfold_locales
  fix mnt :: "(fs_priv, 'a kernel) vfs_mount" and t source data mnt' t' root
  assume a: "tree_inv t" "sgpart_mount t mnt source data = (None, mnt', t')" "m_root mnt' = Some root"
  from sgpart_mount_cases[OF a(2)] a(3) obtain t1 t2 where
    *: "keeps_tree t t1" "t_nodes t1 = t_nodes t" "vfs_alloc_dir_node ''sgpart'' t1 = (Some root, t2)"
      "keeps_tree t2 t'" by auto
  then have "tree_inv t1" using a(1) by (simp add: keeps_tree_def)
  from fresh_root_same[OF *(2) alloc_dir_fresh[OF this *(3,4)]] show "fresh_root t t' root" .
qed (auto dest!: sgpart_mount_cases)

end
