(* ===== verification/Fs_Table.thy ===== *)
theory Fs_Table
  imports Fs_Props
begin

text \<open>
  What sgpart shows of a partition table: an abstract specification of the table as a list of
  entries, the refinement of \<open>sgpart_mount\<close> to it, and the reads of a partition.
\<close>

subsection \<open>A device whose content does not change\<close>

definition dev_image :: "'h kernel \<Rightarrow> addr \<Rightarrow> u8 list \<Rightarrow> bool" where
  "dev_image k dev img \<longleftrightarrow>
     (\<forall>h off len. blkdev_read dev off len (k\<lparr>k_heap := h\<rparr>) =
        Some (Inr (take (unat len) (drop (unat off) img)), k\<lparr>k_heap := h\<rparr>))"

lemma dev_image_heap: "dev_image k dev img \<Longrightarrow> dev_image (k\<lparr>k_heap := h\<rparr>) dev img"
  by (simp add: dev_image_def)

lemma blk_read_image:
  assumes "dev_image (e_world e) dev img"
  shows "blk_read dev off len e =
    (Inr (take (unat len) (drop (unat off) img)), e\<lparr>e_world := (e_world e)\<lparr>k_heap := e_heap e\<rparr>\<rparr>)"
  using assms by (simp add: blk_read_def in_kernel_def dev_image_def)

subsection \<open>What is shown of the table\<close>

definition entry_of :: "addr \<Rightarrow> part_info \<Rightarrow> string \<times> fs_priv option" where
  "entry_of dev pi =
     (c_string (pi_name pi), Some (P_sgpart_file dev (ucast (pi_offset pi)) (ucast (pi_size pi))))"

text \<open>An entry is shown when its name is a valid one and new; the last one shown comes first.\<close>

fun shown :: "addr \<Rightarrow> part_info list \<Rightarrow> (string \<times> fs_priv option) list \<Rightarrow> (string \<times> fs_priv option) list" where
  "shown dev [] acc = acc"
| "shown dev (pi # pis) acc =
     (let name = c_string (pi_name pi) in
      shown dev pis
        (if vfs_name_valid name \<and> name \<notin> fst ` set acc then entry_of dev pi # acc else acc))"

definition entries :: "('p, 'w) vfs_tree \<Rightarrow> addr \<Rightarrow> (string \<times> 'p option) list" where
  "entries t root =
     (case t_nodes t root of
        None \<Rightarrow> []
      | Some n \<Rightarrow> map (\<lambda>c. case t_nodes t c of None \<Rightarrow> ([], None) | Some m \<Rightarrow> (n_name m, n_priv m)) (n_children n))"

lemma entries_cong:
  assumes "t_nodes t' = t_nodes t"
  shows "entries t' root = entries t root"
  unfolding entries_def assms ..

lemma unat_ucast_u32_u64 [simp]: "unat (ucast (w :: u32) :: u64) = unat w"
proof -
  have "unat w < 2 ^ 32" using unsigned_less[of w, where ?'a = nat] by simp
  then show ?thesis by (simp add: unsigned_ucast_eq take_bit_nat_eq_self)
qed

subsection \<open>Refinement\<close>

definition t_mem_ok :: "('p, 'w) vfs_tree \<Rightarrow> bool" where
  "t_mem_ok t \<longleftrightarrow> (\<forall>n. h_ok (e_heap (t_env t)) n)"

lemma t_malloc_mem_ok:
  assumes "t_mem_ok t"
  obtains t1 where "t_malloc t = (True, t1)" "t_mem_ok t1" "t_nodes t1 = t_nodes t"
    "e_world (t_env t1) = e_world (t_env t)" "t_ready t1 = t_ready t" "t_root t1 = t_root t"
  using assms by (auto simp: t_malloc_def malloc_def t_mem_ok_def)

lemma t_mem_ok_free [simp]: "t_mem_ok (t_free t) = t_mem_ok t"
  by (simp add: t_mem_ok_def t_free_def mfree_def)

lemma e_world_free [simp]: "e_world (t_env (t_free t)) = e_world (t_env t)"
  by (simp add: t_free_def)

text \<open>When \<open>vfs_mknod\<close> succeeds.\<close>

lemma vfs_mknod_works:
  assumes "t_mem_ok t" "t_ready t" "t_root t \<noteq> None" "t_nodes t p = Some pn" "n_type pn = VFS_NODE_DIR"
  shows "(fst (vfs_mknod (Some p) name ty (Some fops) priv t) \<noteq> None \<longleftrightarrow>
      vfs_name_valid name \<and> vfs_find_child_by_name t (Some p) name = None)"
    "t_mem_ok (snd (vfs_mknod (Some p) name ty (Some fops) priv t))"
    "e_world (t_env (snd (vfs_mknod (Some p) name ty (Some fops) priv t))) = e_world (t_env t)"
  using assms
  by (auto simp: vfs_mknod_def vfs_create_node_def vfs_alloc_node_def t_malloc_def malloc_def t_mem_ok_def)

lemma find_child_entries:
  assumes "tree_inv t" "t_nodes t p = Some pn"
  shows "vfs_find_child_by_name t (Some p) name = None \<longleftrightarrow> name \<notin> fst ` set (entries t p)"
proof -
  have live: "\<exists>m. t_nodes t c = Some m" if "c \<in> set (n_children pn)" for c
    using tree_invD[OF assms] that by (auto simp: node_ok_def)
  have "vfs_find_child_by_name t (Some p) name = None \<longleftrightarrow>
      (\<forall>c \<in> set (n_children pn). \<not> child_named t name c)"
    using assms(2) by (simp add: vfs_find_child_by_name_def find_None_ball)
  also have "\<dots> \<longleftrightarrow> (\<forall>c \<in> set (n_children pn). \<forall>m. t_nodes t c = Some m \<longrightarrow> n_name m \<noteq> name)"
    by (auto simp: child_named_def split: option.splits)
  also have "fst ` set (entries t p) =
      (\<lambda>c. case t_nodes t c of None \<Rightarrow> [] | Some m \<Rightarrow> n_name m) ` set (n_children pn)"
    using assms(2) by (auto simp: entries_def image_image split: option.splits intro!: image_cong)
  then have "name \<notin> fst ` set (entries t p) \<longleftrightarrow>
      (\<forall>c \<in> set (n_children pn). (case t_nodes t c of None \<Rightarrow> [] | Some m \<Rightarrow> n_name m) \<noteq> name)"
    by auto
  then have "(\<forall>c \<in> set (n_children pn). \<forall>m. t_nodes t c = Some m \<longrightarrow> n_name m \<noteq> name) \<longleftrightarrow>
      name \<notin> fst ` set (entries t p)"
    using live by fastforce
  finally show ?thesis .
qed

lemma created_entries:
  assumes inv: "tree_inv t" and r: "vfs_mknod (Some p) name ty fops priv t = (Some c, t')"
  shows "entries t' p = (name, priv) # entries t p"
proof -
  from r have r: "vfs_create_node (Some p) name ty fops priv t = (Some c, t')" by (simp add: vfs_mknod_def)
  from vfs_create_node_Some[OF r inv] obtain pn where
    *: "t_nodes t p = Some pn" "c = t_next t" "created p pn (new_node name ty fops priv) t t'"
    by (metis option.inject)
  note l = created_lookup[OF inv *(1,3)]
  have "t_nodes t' d = t_nodes t d" if "d \<in> set (n_children pn)" for d
  proof -
    have "p < d" "\<exists>m. t_nodes t d = Some m" using tree_invD[OF inv *(1)] that by (auto simp: node_ok_def)
    moreover from this tree_inv_next_fresh[OF inv, of d] have "d \<noteq> t_next t" by auto
    ultimately show ?thesis using *(3) by (auto simp: created_def)
  qed
  then show ?thesis using *(1) l by (simp add: entries_def cong: map_cong)
qed

text \<open>The conditions under which the loop works, and that it keeps.\<close>

definition loop_ok :: "addr \<Rightarrow> addr \<Rightarrow> u8 list \<Rightarrow> (fs_priv, 'h kernel) vfs_tree \<Rightarrow> bool" where
  "loop_ok root dev img t \<longleftrightarrow>
     tree_inv t \<and> t_mem_ok t \<and> t_ready t \<and> t_root t \<noteq> None \<and> dev_image (e_world (t_env t)) dev img \<and>
     (\<exists>rn. t_nodes t root = Some rn \<and> n_type rn = VFS_NODE_DIR)"

lemma sgpart_add_entries:
  assumes ok: "loop_ok root dev img t"
  shows "loop_ok root dev img (snd (sgpart_add root pi dev' t)) \<and>
    entries (snd (sgpart_add root pi dev' t)) root =
      (if vfs_name_valid (c_string (pi_name pi)) \<and> c_string (pi_name pi) \<notin> fst ` set (entries t root)
       then entry_of dev' pi # entries t root else entries t root)"
proof (cases "c_string (pi_name pi) = []")
  case True
  with ok show ?thesis by (simp add: sgpart_add_def vfs_name_valid_def)
next
  case False
  let ?name = "c_string (pi_name pi)"
  let ?priv = "Some (P_sgpart_file dev' (ucast (pi_offset pi)) (ucast (pi_size pi)))"
  from ok obtain rn where rn: "t_nodes t root = Some rn" "n_type rn = VFS_NODE_DIR" and
    o: "tree_inv t" "t_mem_ok t" "t_ready t" "t_root t \<noteq> None" "dev_image (e_world (t_env t)) dev img"
    by (auto simp: loop_ok_def)
  obtain t1 where t1: "t_malloc t = (True, t1)" "t_mem_ok t1" "t_nodes t1 = t_nodes t"
    "e_world (t_env t1) = e_world (t_env t)" "t_ready t1 = t_ready t" "t_root t1 = t_root t"
    using t_malloc_mem_ok[OF o(2)] by metis
  have i1: "tree_inv t1" using keeps_tree_malloc[OF t1(1)] o(1) by (simp add: keeps_tree_def)
  have e1: "entries t1 root = entries t root" by (rule entries_cong) (rule t1(3))
  obtain q t2 where q: "vfs_mknod (Some root) ?name VFS_NODE_REG (Some sgpart_fops) ?priv t1 = (q, t2)"
    by fastforce
  note w = vfs_mknod_works[of t1 root rn ?name VFS_NODE_REG sgpart_fops ?priv, unfolded q fst_conv snd_conv]
  have w: "(q \<noteq> None) = (vfs_name_valid ?name \<and> ?name \<notin> fst ` set (entries t root))" "t_mem_ok t2"
    "e_world (t_env t2) = e_world (t_env t)"
    using w t1 o rn find_child_entries[OF i1, of root rn ?name] e1 by auto
  have ext: "tree_inv t2" "tree_ext t1 t2" using vfs_mknod_inv[OF i1 q] by auto
  from rn(1) t1(3) have "t_nodes t1 root = Some rn" by simp
  then obtain rn' where rn': "t_nodes t2 root = Some rn'" "node_ext rn rn'" by (rule tree_extD[OF ext(2)])
  have ok2: "loop_ok root dev img t2"
    using ext w(2,3) o t1 rn rn' by (auto simp: loop_ok_def node_extD tree_ext_fields)
  show ?thesis
  proof (cases q)
    case None
    then have t2: "entries t2 root = entries t root"
      using entries_cong[OF vfs_create_node_None(1)] q e1 by (metis vfs_mknod_def)
    have "loop_ok root dev img (t_free t2)" using ok2 by (simp add: loop_ok_def)
    with False t1(1) q None w(1) t2 entries_cong[of "t_free t2" t2 root] show ?thesis
      by (auto simp: sgpart_add_def Let_def)
  next
    case (Some c)
    with created_entries[OF i1, of root] q e1 have "entries t2 root = (?name, ?priv) # entries t root" by simp
    with False t1(1) q Some w(1) ok2 show ?thesis by (auto simp: sgpart_add_def Let_def entry_of_def)
  qed
qed

lemma t_blk_read_image:
  assumes "loop_ok root dev img t"
  obtains t' where "t_blk_read dev off len t = (Inr (take (unat len) (drop (unat off) img)), t')"
    "loop_ok root dev img t'" "entries t' root = entries t root"
proof -
  let ?t' = "t\<lparr>t_env := (t_env t)\<lparr>e_world := (e_world (t_env t))\<lparr>k_heap := e_heap (t_env t)\<rparr>\<rparr>\<rparr>"
  have "t_blk_read dev off len t = (Inr (take (unat len) (drop (unat off) img)), ?t')"
    using blk_read_image[of "t_env t" dev img] assms by (simp add: t_blk_read_def loop_ok_def)
  moreover have "loop_ok root dev img ?t'"
    using assms by (auto simp: loop_ok_def dev_image_heap t_mem_ok_def tree_inv_def)
  moreover have "entries ?t' root = entries t root" by (rule entries_cong) simp
  ultimately show thesis by (rule that)
qed

lemma part_info_size_word: "unat (of_nat PART_INFO_SIZE :: u64) = PART_INFO_SIZE"
  by (simp add: PART_INFO_SIZE_def)

text \<open>\<open>pi\<close> is the record at \<open>a\<close>; the addresses of the records to come do not wrap around.\<close>

lemma sgpart_loop_entries:
  assumes "loop_ok root dev img t" "unat a + n * PART_INFO_SIZE < 2 ^ 64"
    "PART_INFO_SIZE \<le> length (drop (unat a) img)" "pi = part_info_of (take PART_INFO_SIZE (drop (unat a) img))"
  shows "loop_ok root dev img (sgpart_loop n root dev pi a t) \<and>
    entries (sgpart_loop n root dev pi a t) root = shown dev (table_of n (drop (unat a) img)) (entries t root)"
  using assms
proof (induction n arbitrary: a pi t)
  case (Suc n)
  show ?case
  proof (cases "pi_magic pi = DPT_MAGIC")
    case False
    with Suc.prems show ?thesis by simp
  next
    case True
    let ?t1 = "snd (sgpart_add root pi dev t)"
    let ?a = "a + of_nat PART_INFO_SIZE"
    note add = sgpart_add_entries[OF Suc.prems(1), of pi dev]
    then have ok1: "loop_ok root dev img ?t1" by simp
    obtain t2 where t2: "t_blk_read dev ?a (of_nat PART_INFO_SIZE) ?t1 =
        (Inr (take PART_INFO_SIZE (drop (unat ?a) img)), t2)" "loop_ok root dev img t2"
      "entries t2 root = entries ?t1 root"
      using t_blk_read_image[OF ok1, of ?a "of_nat PART_INFO_SIZE"] part_info_size_word by metis
    have ua: "unat ?a = unat a + PART_INFO_SIZE"
      using Suc.prems(2) part_info_size_word unat_add_lem[of a "of_nat PART_INFO_SIZE"] by simp
    have dr: "drop PART_INFO_SIZE (drop (unat a) img) = drop (unat ?a) img" by (simp add: ua add.commute)
    have tab: "table_of (Suc n) (drop (unat a) img) = pi # table_of n (drop (unat ?a) img)"
      using Suc.prems(3,4) True unfolding dr[symmetric] by simp
    have sh: "shown dev (table_of (Suc n) (drop (unat a) img)) (entries t root) =
      shown dev (table_of n (drop (unat ?a) img)) (entries t2 root)"
      unfolding tab t2(3) using add by (simp add: Let_def)
    show ?thesis
    proof (cases "PART_INFO_SIZE \<le> length (drop (unat ?a) img)")
      case False
      then have "table_of n (drop (unat ?a) img) = []" by (cases n) auto
      with False True t2 sh show ?thesis by (simp add: Let_def)
    next
      case len: True
      have "unat ?a + n * PART_INFO_SIZE < 2 ^ 64" using Suc.prems(2) ua by simp
      from Suc.IH[OF t2(2) this len refl] len True t2(1) sh show ?thesis by (simp add: Let_def)
    qed
  qed
qed simp

lemma sgpart_mount_entries:
  assumes inv: "tree_inv t" and mem: "t_mem_ok t" and ready: "t_ready t" "t_root t \<noteq> None"
    and img: "dev_image (e_world (t_env t)) dev img"
    and off: "unat off + SGPART_MAX_ENTRIES * PART_INFO_SIZE < 2 ^ 64"
    and m: "sgpart_mount t mnt source (Some (P_sgpart_data (Some dev) off)) = (None, mnt', t')"
  shows "\<exists>root. m_root mnt' = Some root \<and>
    entries t' root = shown dev (table_of SGPART_MAX_ENTRIES (drop (unat off) img)) [] \<and> t_mem_ok t'"
proof -
  define e where "e = (t_env t)\<lparr>e_world := (e_world (t_env t))\<lparr>k_heap := e_heap (t_env t)\<rparr>\<rparr>"
  let ?t1 = "t\<lparr>t_env := e\<rparr>"
  let ?bs = "take PART_INFO_SIZE (drop (unat off) img)"
  have r: "t_blk_read dev off (of_nat PART_INFO_SIZE) t = (Inr ?bs, ?t1)"
    using blk_read_image[OF img] by (simp add: t_blk_read_def part_info_size_word e_def)
  from m r have len: "PART_INFO_SIZE \<le> length (drop (unat off) img)"
    by (auto simp: sgpart_mount_def split: if_splits)
  with m r obtain root t2 where a: "vfs_alloc_dir_node ''sgpart'' ?t1 = (Some root, t2)"
    "mnt' = mnt\<lparr>m_root := Some root\<rparr>"
    "t' = sgpart_loop SGPART_MAX_ENTRIES root dev (part_info_of ?bs) off t2"
    by (auto simp: sgpart_mount_def split: if_splits option.splits prod.splits)
  have i1: "tree_inv ?t1" using inv by (simp add: tree_inv_def)
  from vfs_alloc_dir_node_inv[OF i1 a(1)] have i2: "tree_inv t2" by simp
  from a(1) have al: "vfs_alloc_node ''sgpart'' VFS_NODE_DIR None None ?t1 = (Some root, t2)"
    by (simp add: vfs_alloc_dir_node_def split: if_splits)
  note n = vfs_alloc_node_Some[OF al]
  have "t_mem_ok t2"
    using al mem by (auto simp: vfs_alloc_node_def t_malloc_def malloc_def t_mem_ok_def e_def)
  with i2 n ready img have ok: "loop_ok root dev img t2"
    by (auto simp: loop_ok_def e_def dev_image_heap)
  have "entries t2 root = []" using n(2) by (simp add: entries_def)
  with sgpart_loop_entries[OF ok off len refl] a show ?thesis by (simp add: loop_ok_def)
qed

subsection \<open>Reading a partition\<close>

lemma sgpart_read_access:
  fixes o32 s32 :: u32
  assumes "\<not> ucast s32 \<le> f_pos file"
  shows "\<exists>n. n \<le> len \<and> unat (ucast o32 + f_pos file :: u64) = unat o32 + unat (f_pos file) \<and>
    unat (f_pos file) + unat n \<le> unat s32 \<and>
    unat n = min (unat len) (unat s32 - unat (f_pos file)) \<and>
    sgpart_read e (Some (P_sgpart_file dev (ucast o32) (ucast s32))) file len =
      blk_read dev (ucast o32 + f_pos file) n e"
proof -
  let ?s = "ucast s32 :: u64" and ?p = "f_pos file"
  let ?n = "if ?s - ?p < len then ?s - ?p else len"
  have us: "unat ?s = unat s32" "unat (ucast o32 :: u64) = unat o32" by simp_all
  have lt: "?p < ?s" using assms by simp
  then have d: "unat (?s - ?p) = unat s32 - unat ?p" "unat ?p < unat s32"
    using us unat_sub[OF less_imp_le[OF lt]] by (simp_all add: word_less_nat_alt)
  have bound: "unat s32 < 2 ^ 32" "unat o32 < 2 ^ 32" using unsigned_less[of s32, where ?'a = nat] unsigned_less[of o32, where ?'a = nat] by simp_all
  have "unat (ucast o32 + ?p) = unat o32 + unat ?p"
    using bound d(2) us(2) by (simp add: unat_add_lem[THEN iffD1])
  moreover have "unat ?n = min (unat len) (unat s32 - unat ?p)"
    using d by (auto simp: word_less_nat_alt)
  moreover have "?n \<le> len" by auto
  ultimately show ?thesis using assms d by (intro exI[of _ ?n]) (auto simp: sgpart_read_def)
qed

lemma sgpart_read_contents:
  fixes o32 s32 :: u32
  assumes img: "dev_image (e_world e) dev img"
  shows "fst (sgpart_read e (Some (P_sgpart_file dev (ucast o32) (ucast s32))) file len) =
    Inr (take (unat len) (drop (unat (f_pos file)) (take (unat s32) (drop (unat o32) img))))"
proof (cases "ucast s32 \<le> f_pos file")
  case True
  then have "unat s32 \<le> unat (f_pos file)" by (simp add: word_le_nat_alt)
  with True show ?thesis by (simp add: sgpart_read_def)
next
  case False
  from sgpart_read_access[OF False, of len o32 e dev] obtain n where n:
    "unat (ucast o32 + f_pos file :: u64) = unat o32 + unat (f_pos file)"
    "unat n = min (unat len) (unat s32 - unat (f_pos file))"
    "sgpart_read e (Some (P_sgpart_file dev (ucast o32) (ucast s32))) file len =
      blk_read dev (ucast o32 + f_pos file) n e" by blast
  have "take (unat n) (drop (unat o32 + unat (f_pos file)) img) =
    take (unat len) (drop (unat (f_pos file)) (take (unat s32) (drop (unat o32) img)))"
    unfolding n(2) by (simp add: drop_take min.commute add.commute)
  with n blk_read_image[OF img] show ?thesis by simp
qed

end
