(* ===== verification/Vfs_Demo.thy ===== *)
theory Vfs_Demo
  imports Fs_Table
begin

text \<open>
  A concrete machine for the instances of the properties: one block device with a partition
  table of two entries, the VFS after \<open>vfs_init\<close>, with sgpart registered, a file \<open>/f\<close> and a
  directory \<open>/m\<close>.
\<close>

definition demo_record :: "u8 list \<Rightarrow> u8 list" where
  "demo_record name =
     [0xaa, 0x55, 0xaa, 0x55] @ name @ replicate (32 - length name) 0 @
     [112, 0, 0, 0] @ [3, 0, 0, 0] @ replicate 4 0 @ replicate 8 0"

definition demo_img :: "u8 list" where
  "demo_img = demo_record [97] @ demo_record [98] @ [1, 2, 3, 4]"

definition demo_kernel :: "unit kernel" where
  "demo_kernel =
     \<lparr>k_heap = heap_init, k_next = 2,
      k_dev = [0 \<mapsto> zero_device\<lparr>d_name := ''disk''\<rparr>, 1 \<mapsto> zero_device\<lparr>d_name := ''flash''\<rparr>],
      k_global = [0, 1],
      k_blk = [0 \<mapsto> \<lparr>bd_ops = Some (Ops_driver 0), bd_block_size = 1, bd_total_size = 116,
                    bd_tmp_buf = True, bd_data = None\<rparr>],
      k_blk_list = [0], k_blk_count = 1,
      k_mtd = [1 \<mapsto> \<lparr>mt_ops = Some 0, mt_hwdev = Some 1, mt_block_size = 1, mt_total_size = 116,
                    mt_data = None\<rparr>],
      k_mtd_list = [1], k_mtd_count = 1,
      k_nvmem = Map.empty, k_nvmem_list = [], k_nvmem_count = 0,
      k_serial = Map.empty, k_serial_list = [], k_serial_count = 0, k_serial_stdio = None,
      k_blk_ops = (\<lambda>_. \<lparr>io_read = Some (\<lambda>_ off n h. (Inr (take (unat n) (drop (unat off) demo_img)), h)),
                        io_write = Some (\<lambda>_ off bs h. (Inl EIO, h))\<rparr>),
      k_mtd_ops = (\<lambda>_. \<lparr>io_read = Some (\<lambda>_ off n h. (Inr (take (unat n) (drop (unat off) demo_img)), h)),
                        io_write = None\<rparr>),
      k_nvmem_ops = (\<lambda>_. \<lparr>io_read = None, io_write = None\<rparr>),
      k_serial_ops = (\<lambda>_. \<lparr>sio_input = None, sio_output = None, sio_set_speed = None\<rparr>),
      k_hw = ()\<rparr>"

definition demo_env :: "unit fs_env" where
  "demo_env = \<lparr>e_heap = heap_init, e_world = demo_kernel\<rparr>"

definition demo0 :: "(fs_priv, unit kernel) vfs" where
  "demo0 = snd (vfs_init (vfs_boot demo_env))"

definition demo1 :: "(fs_priv, unit kernel) vfs" where
  "demo1 = demo0\<lparr>v_tree := snd (vfs_mknod (Some 0) ''f'' VFS_NODE_REG (Some sgpart_fops)
                                (Some (P_sgpart_file 0 112 3)) (v_tree demo0))\<rparr>"

definition demo2 :: "(fs_priv, unit kernel) vfs" where
  "demo2 = snd (sgpart_init (demo1\<lparr>v_tree := snd (vfs_mkdir (Some 0) ''m'' (v_tree demo1))\<rparr>))"

definition demo3 :: "(fs_priv, unit kernel) vfs" where
  "demo3 = snd (vfs_open demo2 (Some ''/f'') 0)"

text \<open>The same states as explicit records.\<close>

definition heap_at :: "nat \<Rightarrow> nat \<Rightarrow> heap_st" where
  "heap_at calls live = \<lparr>h_ok = (\<lambda>_. True), h_calls = calls, h_live = live\<rparr>"

lemma heap_at_ops [simp]:
  "malloc (heap_at c l) = (True, heap_at (Suc c) (Suc l))" "mfree (heap_at c l) = heap_at c (l - 1)"
  "heap_init = heap_at 0 0" "h_live (heap_at c l) = l" "h_calls (heap_at c l) = c" "h_ok (heap_at c l) n"
  by (simp_all add: heap_at_def malloc_def mfree_def heap_init_def)

lemmas demo_eval =
  vfs_init_def vfs_boot_def vfs_free_subtree_def free_files_def vfs_alloc_node_def t_malloc_def t_free_def
  Let_def new_node_def vfs_mknod_def vfs_mkdir_def vfs_create_node_def vfs_name_valid_def
  vfs_find_child_by_name_def child_named_def link_child_def demo_env_def

definition demo_root :: "addr list \<Rightarrow> (fs_priv, unit kernel) vfs_node" where
  "demo_root cs =
     \<lparr>n_name = ''/'', n_type = VFS_NODE_DIR, n_fops = None, n_priv = None, n_parent = None,
      n_children = cs, n_mnt = None\<rparr>"

definition demo_f :: "(fs_priv, unit kernel) vfs_node" where
  "demo_f =
     \<lparr>n_name = ''f'', n_type = VFS_NODE_REG, n_fops = Some sgpart_fops,
      n_priv = Some (P_sgpart_file 0 112 3), n_parent = Some 0, n_children = [], n_mnt = None\<rparr>"

definition demo_m :: "(fs_priv, unit kernel) vfs_node" where
  "demo_m =
     \<lparr>n_name = ''m'', n_type = VFS_NODE_DIR, n_fops = None, n_priv = None, n_parent = Some 0,
      n_children = [], n_mnt = None\<rparr>"

lemma demo0_eq:
  "demo0 =
     \<lparr>v_tree = \<lparr>t_nodes = [0 \<mapsto> demo_root []], t_next = 1, t_root = Some 0, t_ready = True,
                t_env = \<lparr>e_heap = heap_at 2 2, e_world = demo_kernel\<rparr>\<rparr>,
      v_mounts = Map.empty, v_next_mnt = 0, v_files = [], v_fs_types = [], v_next_fd = 0\<rparr>"
  by (simp add: demo0_def demo_eval demo_root_def numeral_2_eq_2)

lemma demo1_eq:
  "demo1 =
     \<lparr>v_tree = \<lparr>t_nodes = [0 \<mapsto> demo_root [1], 1 \<mapsto> demo_f], t_next = 2, t_root = Some 0, t_ready = True,
                t_env = \<lparr>e_heap = heap_at 4 4, e_world = demo_kernel\<rparr>\<rparr>,
      v_mounts = Map.empty, v_next_mnt = 0, v_files = [], v_fs_types = [], v_next_fd = 0\<rparr>"
  by (simp add: demo1_def demo0_eq demo_eval demo_root_def demo_f_def fun_upd_twist)

lemma demo2_eq:
  "demo2 =
     \<lparr>v_tree = \<lparr>t_nodes = [0 \<mapsto> demo_root [2, 1], 1 \<mapsto> demo_f, 2 \<mapsto> demo_m], t_next = 3,
                t_root = Some 0, t_ready = True,
                t_env = \<lparr>e_heap = heap_at 6 6, e_world = demo_kernel\<rparr>\<rparr>,
      v_mounts = Map.empty, v_next_mnt = 0, v_files = [], v_fs_types = [sgpart_type], v_next_fd = 0\<rparr>"
  by (simp add: demo2_def demo1_eq demo_eval demo_root_def demo_f_def demo_m_def fun_upd_twist
      sgpart_init_def vfs_register_filesystem_def vfs_find_filesystem_def sgpart_type_def)

lemmas path_eval =
  vfs_open_def vfs_lookup_def vfs_is_path_valid_def vfs_lookup_node_ex_def vfs_follow_mount_mnt_def
  lookup_walk.simps v_malloc_def v_mfree_def find_or_lookup_def vfs_alloc_fd_def vfs_find_file_def
  bump_fd_def INT_MAX_def call_open_def new_file_def

lemma demo3_eq:
  "vfs_open demo2 (Some ''/f'') 0 =
    (Inr 0, demo2\<lparr>v_tree := (v_tree demo2)\<lparr>t_env := \<lparr>e_heap = heap_at 8 7, e_world = demo_kernel\<rparr>\<rparr>,
        v_files := [(0, \<lparr>f_node = 1, f_pos = 0, f_flags = 0, f_private = Some (P_sgpart_file 0 112 3)\<rparr>)],
        v_next_fd := 1\<rparr>)"
  by (simp add: path_eval demo2_eq demo_eval demo_root_def demo_f_def demo_m_def sgpart_fops_def)

lemma demo0_reachable: "vfs_reachable demo0"
proof (rule reach_init)
  show "vfs_init (vfs_boot demo_env) = (None, demo0)"
    by (simp add: demo0_eq demo_eval demo_root_def numeral_2_eq_2)
qed

lemma demo1_reachable: "vfs_reachable demo1"
proof -
  obtain c t where r: "vfs_mknod (Some 0) ''f'' VFS_NODE_REG (Some sgpart_fops)
    (Some (P_sgpart_file 0 112 3)) (v_tree demo0) = (c, t)" by fastforce
  from reach_step[OF demo0_reachable step_mknod[OF this]] r show ?thesis by (simp add: demo1_def)
qed

lemma demo2_reachable: "vfs_reachable demo2"
proof -
  obtain c t where r: "vfs_mkdir (Some 0) ''m'' (v_tree demo1) = (c, t)" by fastforce
  note v = reach_step[OF demo1_reachable step_mkdir[OF this]]
  obtain e v' where "vfs_register_filesystem (demo1\<lparr>v_tree := t\<rparr>) (Some sgpart_type) = (e, v')" by fastforce
  from sgpart.register_keeps_reachable[OF v _ this] r \<open>_ = (e, v')\<close> show ?thesis
    by (simp add: demo2_def sgpart_init_def sgpart_type_def)
qed

lemma demo3_reachable: "vfs_reachable demo3"
  using reach_step[OF demo2_reachable step_open[OF demo3_eq]] demo3_eq by (simp add: demo3_def)

text \<open>Mounting sgpart on \<open>/m\<close>: two files appear under a new root.\<close>

definition demo_mount :: "errno option \<times> (fs_priv, unit kernel) vfs" where
  "demo_mount = vfs_mount demo2 None (Some ''/m'') (Some ''sgpart'') (Some (P_sgpart_data (Some 0) 0))"

lemma demo_image: "dev_image demo_kernel 0 demo_img"
  by (simp add: dev_image_def demo_kernel_def blkdev_read_def)

lemma demo_image_length: "length demo_img = 116"
  by code_simp

lemma demo_record_magic: "pi_magic (part_info_of (take 56 demo_img)) = DPT_MAGIC"
  by (simp add: part_info_of_def le32_def demo_img_def demo_record_def DPT_MAGIC_def)

text \<open>The tree \<open>sgpart_mount\<close> is called with: the lookup and the mount object have been paid for.\<close>

definition demo_tree :: "(fs_priv, unit kernel) vfs_tree" where
  "demo_tree = (v_tree demo2)\<lparr>t_env := \<lparr>e_heap = heap_at 8 7, e_world = demo_kernel\<rparr>\<rparr>"

lemma sgpart_type_sel:
  "fs_name sgpart_type = Some ''sgpart''" "fs_flags sgpart_type = 0" "fs_mount sgpart_type = Some sgpart_mount"
  by (simp_all add: sgpart_type_def)

lemma demo_mount_try:
  "demo_mount = (case sgpart_mount demo_tree (new_mount 2 sgpart_type) None (Some (P_sgpart_data (Some 0) 0)) of
     (Some e, _, t) \<Rightarrow> (Some e, v_mfree (demo2\<lparr>v_tree := t\<rparr>))
   | (None, mnt, t) \<Rightarrow>
       (if m_root mnt = None then (Some EINVAL, v_mfree (demo2\<lparr>v_tree := t\<rparr>))
        else (None, attach_mount 2 mnt (demo2\<lparr>v_tree := t\<rparr>))))"
  by (auto simp add: demo_mount_def demo_tree_def vfs_mount_def path_eval demo2_eq demo_eval demo_root_def
      demo_f_def demo_m_def vfs_find_filesystem_def sgpart_type_sel vfs_try_mount_def
      split: option.split prod.split)

lemma demo_sgpart_mount:
  obtains root mnt t where
    "sgpart_mount demo_tree (new_mount 2 sgpart_type) None (Some (P_sgpart_data (Some 0) 0)) = (None, mnt, t)"
    "m_root mnt = Some root" "t_mem_ok t"
    "entries t root = shown 0 (table_of SGPART_MAX_ENTRIES demo_img) []"
proof -
  obtain r mnt t where
    m: "sgpart_mount demo_tree (new_mount 2 sgpart_type) None (Some (P_sgpart_data (Some 0) 0)) = (r, mnt, t)"
    by (metis prod.exhaust)
  then have "r = None"
    by (auto simp: demo_tree_def demo2_eq sgpart_mount_def t_blk_read_def demo_image demo_image_length
        blk_read_image[where img = demo_img] demo_record_magic PART_INFO_SIZE_def vfs_alloc_dir_node_def demo_eval)
  have inv: "tree_inv demo_tree"
    using vfs_reachable_inv[OF demo2_reachable] by (simp add: vfs_inv_def tree_inv_def demo_tree_def)
  have ok: "t_mem_ok demo_tree" "t_ready demo_tree" "t_root demo_tree \<noteq> None"
    "dev_image (e_world (t_env demo_tree)) 0 demo_img"
    "unat (0 :: u64) + SGPART_MAX_ENTRIES * PART_INFO_SIZE < 2 ^ 64"
    by (simp_all add: t_mem_ok_def demo_tree_def demo2_eq demo_image SGPART_MAX_ENTRIES_def PART_INFO_SIZE_def)
  from sgpart_mount_entries[OF inv ok m[unfolded \<open>r = None\<close>]] m \<open>r = None\<close> that show thesis by auto
qed

lemma demo_mount_ok: "fst demo_mount = None" "mem_ok (snd demo_mount)"
  unfolding demo_mount_try
  by (rule demo_sgpart_mount; simp add: mem_ok_def t_mem_ok_def attach_mount_def Let_def)+

lemma demo_mount_reachable: "vfs_reachable (snd demo_mount)"
proof -
  obtain e v' where m: "demo_mount = (e, v')" by fastforce
  from reach_step[OF demo2_reachable step_mount[OF m[unfolded demo_mount_def]]] show ?thesis unfolding m snd_conv .
qed

lemma demo_resolves: "resolves (v_tree demo2) 0 [''m''] 2"
  by (simp add: demo2_eq demo_eval demo_root_def demo_f_def demo_m_def)

text \<open>What the mounted state looks like around the mountpoint.\<close>

lemma demo_mounted:
  obtains mt root n where "v_mounts (snd demo_mount) 0 = Some mt" "m_root mt = Some root" "m_sops mt = None"
    "v_node (snd demo_mount) 2 = Some n" "n_mnt n = Some 0" "v_files (snd demo_mount) = []"
    "t_root (v_tree (snd demo_mount)) = Some 0" "Option.bind (v_node (snd demo_mount) 0) n_mnt = None"
    "resolves (v_tree (snd demo_mount)) 0 [''m''] 2"
proof -
  obtain root mnt t where
    m: "sgpart_mount demo_tree (new_mount 2 sgpart_type) None (Some (P_sgpart_data (Some 0) 0)) = (None, mnt, t)"
    "m_root mnt = Some root" by (rule demo_sgpart_mount)
  have d: "demo_mount = (None, attach_mount 2 mnt (demo2\<lparr>v_tree := t\<rparr>))" using m by (simp add: demo_mount_try)
  from sgpart_mount_cases[OF m(1)] have k: "keeps_tree demo_tree t" "m_sops mnt = None" by simp_all
  have inv: "vfs_inv demo2" by (rule vfs_reachable_inv[OF demo2_reachable])
  have nodes: "t_nodes demo_tree = t_nodes (v_tree demo2)" by (simp add: demo_tree_def)
  have kt: "keeps_tree (v_tree demo2) t"
    using keeps_tree_trans[OF keeps_tree_same k(1)] by (simp add: demo_tree_def)
  have mb: "mounted_by demo2 2 (snd demo_mount)"
    unfolding mounted_by_def d snd_conv using inv kt m(2) by (intro exI[of _ demo2] exI[of _ t] exI[of _ mnt]) auto
  have inv': "vfs_inv (snd demo_mount)" by (rule vfs_reachable_inv[OF demo_mount_reachable])
  from kt inv have ext: "tree_ext (v_tree demo2) t" by (simp add: keeps_tree_def vfs_inv_def)
  have "v_node demo2 2 = Some demo_m" by (simp add: demo2_eq)
  then obtain k where "t_nodes t 2 = Some k" by (rule tree_extD[OF ext])
  then have "v_node (snd demo_mount) 2 = Some (k\<lparr>n_mnt := Some 0\<rparr>)"
    by (simp add: d attach_mount_def Let_def demo2_eq)
  moreover have "v_mounts (snd demo_mount) 0 = Some mnt" "v_files (snd demo_mount) = []"
    by (simp_all add: d attach_mount_def Let_def demo2_eq)
  moreover have "t_root (v_tree (snd demo_mount)) = Some 0" "Option.bind (v_node (snd demo_mount) 0) n_mnt = None"
    using mounted_by_root(1)[OF inv mb] mounted_by_root(2)[OF inv mb, of 0] by (simp_all add: demo2_eq demo_root_def)
  ultimately show thesis
    using mounted_by_resolves[OF inv mb inv' demo_resolves] m(2) k(2) by (intro that) auto
qed

end
