(* ===== verification/Vfs_Theorems.thy ===== *)
theory Vfs_Theorems
  imports Vfs_Demo
begin

text \<open>
  The properties of the VFS and its filesystems. Each is stated over the definitions of the model
  alone; the lemmas of the theories below carry the proofs. A property with hypotheses is followed
  by an instance on the machine of \<open>Vfs_Demo\<close>.
\<close>

subsection \<open>Safety of the reachable states\<close>

text \<open>
  C1: No open file ever refers to a node that has been freed. In every state reachable by the
  VFS operations, whatever fails on the way, the file table has distinct non-negative fds and each
  entry refers to a live node that is not a directory and has operations.
\<close>

theorem vfs_open_files_live:
  assumes "vfs_reachable v"
  shows "distinct (map fst (v_files v)) \<and>
    (\<forall>(fd, f) \<in> set (v_files v). 0 \<le> fd \<and> fd \<le> INT_MAX \<and>
       (\<exists>n. v_node v (f_node f) = Some n \<and> n_type n \<noteq> VFS_NODE_DIR \<and> n_fops n \<noteq> None))"
proof -
  have inv: "vfs_inv v" using assms by (rule vfs_reachable_inv)
  then have ti: "tree_inv (v_tree v)" and fo: "files_ok (t_nodes (v_tree v)) (v_files v)"
    by (simp_all add: vfs_inv_def)
  have "n_fops n \<noteq> None" if "v_node v a = Some n" "n_type n \<noteq> VFS_NODE_DIR" for a n
    using tree_invD[OF ti that(1)] that(2) by (simp add: node_ok_def)
  with fo show ?thesis unfolding files_ok_def by fast
qed

theorem vfs_open_files_live_witness: "\<exists>n. v_node demo3 1 = Some n \<and> n_fops n \<noteq> None"
  using vfs_open_files_live[OF demo3_reachable] demo3_eq by (auto simp: demo3_def)

text \<open>
  C5: The node tree stays well formed. In every reachable state the children of a node are live,
  point back to it, have valid names that differ from each other, so that the lookup of a child by
  its name finds exactly that child; only directories have children.
\<close>

theorem vfs_tree_well_formed:
  assumes "vfs_reachable v" "v_node v p = Some pn" "c \<in> set (n_children pn)"
  shows "n_type pn = VFS_NODE_DIR \<and> (\<exists>cn. v_node v c = Some cn \<and> n_parent cn = Some p \<and>
    vfs_name_valid (n_name cn) \<and> vfs_find_child_by_name (v_tree v) (Some p) (n_name cn) = Some c)"
proof -
  have ti: "tree_inv (v_tree v)" using vfs_reachable_inv[OF assms(1)] by (simp add: vfs_inv_def)
  from node_ok_child(2)[OF tree_invD[OF ti assms(2)] assms(3)]
  obtain cn where cn: "v_node v c = Some cn" "n_parent cn = Some p" by auto
  with find_child_unique[OF ti assms(2,3) cn(1)] tree_invD[OF ti cn(1)] tree_invD[OF ti assms(2)] assms(3)
  show ?thesis by (auto simp: node_ok_def)
qed

theorem vfs_tree_well_formed_witness:
  "vfs_find_child_by_name (v_tree demo2) (Some 0) ''f'' = Some 1"
  using vfs_tree_well_formed[OF demo2_reachable, of 0 "demo_root [2, 1]" 1]
  by (simp add: demo2_eq demo_root_def demo_f_def)

text \<open>
  C6: Mounts never stack and never share. In every reachable state a covered directory leads in
  one step to the root of the mounted filesystem, a live directory without parent that is not
  itself covered, and no other directory is covered by the same mount; so following mounts ends.
\<close>

theorem vfs_mounts_never_stack:
  assumes "vfs_reachable v" "v_node v a = Some n" "n_mnt n = Some m"
  shows "\<exists>mt r rn. v_mounts v m = Some mt \<and> m_root mt = Some r \<and>
    vfs_follow_mount v (Some a) = Some r \<and> v_node v r = Some rn \<and> n_type rn = VFS_NODE_DIR \<and>
    n_parent rn = None \<and> n_mnt rn = None \<and>
    (\<forall>b k. v_node v b = Some k \<longrightarrow> n_mnt k = Some m \<longrightarrow> b = a)"
proof -
  have mok: "mounts_ok (v_tree v) (v_mounts v) (v_next_mnt v)"
    using vfs_reachable_inv[OF assms(1)] by (simp add: vfs_inv_def)
  from mounts_ok_mnt(2)[OF mok assms(2,3)] obtain mt where mt: "v_mounts v m = Some mt" by auto
  from vfs_inv_mount[OF vfs_reachable_inv[OF assms(1)] mt] obtain r rn where
    r: "m < v_next_mnt v" "m_root mt = Some r" "v_node v r = Some rn" "n_parent rn = None"
       "n_type rn = VFS_NODE_DIR" "n_mnt rn = None" by (auto simp: mount_ok_def)
  then obtain i where "v_next_mnt v = Suc i" by (cases "v_next_mnt v") auto
  with assms mt r have "vfs_follow_mount v (Some a) = Some r"
    by (simp add: vfs_follow_mount_def vfs_follow_mount_mnt_def)
  with mt r mounts_ok_uniq[OF mok _ assms(2) _ assms(3)] show ?thesis by blast
qed

theorem vfs_mounts_never_stack_witness:
  "\<exists>r. vfs_follow_mount (snd demo_mount) (Some 2) = Some r \<and> v_node (snd demo_mount) r \<noteq> None"
proof -
  obtain n where "v_node (snd demo_mount) 2 = Some n" "n_mnt n = Some 0" by (rule demo_mounted)
  from vfs_mounts_never_stack[OF demo_mount_reachable this] show ?thesis by auto
qed

subsection \<open>Paths\<close>

text \<open>
  C4: Round trip of directory creation and lookup. When no filesystem is mounted, the node
  \<open>vfs_mkdir_p\<close> returns for a path of valid names is the node \<open>vfs_lookup\<close> finds for that path
  afterwards, whichever of its directories existed before.
\<close>

theorem vfs_mkdir_p_lookup:
  assumes "vfs_reachable v" "no_mounts (v_tree v)" "segs \<noteq> []" "names_valid segs"
    "vfs_mkdir_p (Some (path_of segs)) (v_tree v) = (Some c, t)" "mem_ok (v\<lparr>v_tree := t\<rparr>)"
  shows "fst (vfs_lookup (v\<lparr>v_tree := t\<rparr>) (Some (path_of segs))) = Some c"
proof -
  have ti: "tree_inv (v_tree v)" using vfs_reachable_inv[OF assms(1)] by (simp add: vfs_inv_def)
  from assms(5) path_of_valid[OF assms(3)] obtain r where r: "t_root (v_tree v) = Some r"
    "mkdir_p_loop (path_of segs) r (v_tree v) = (Some c, t)"
    by (auto simp: vfs_mkdir_p_def vfs_root_def split: option.splits)
  from mkdir_p_loop_inv[OF ti r(2)] have t: "tree_inv t" "tree_ext (v_tree v) t" by auto
  note nm = no_mounts_ext[OF assms(2) t(2)]
  have none: "Option.bind (t_nodes t a) n_mnt = None" for a
    using nm by (cases "t_nodes t a") (auto simp: no_mounts_def)
  from mkdir_p_loop_resolves[OF assms(4) ti assms(2) r(2)] have "resolves t r segs c" .
  with vfs_lookup_resolves[of "v\<lparr>v_tree := t\<rparr>" r segs c] assms(3,4,6) r(1) t(2) none
  have "fst (vfs_lookup (v\<lparr>v_tree := t\<rparr>) (Some (path_of segs))) = vfs_follow_mount (v\<lparr>v_tree := t\<rparr>) (Some c)"
    by (simp add: tree_ext_fields)
  also have "\<dots> = Some c"
    using none[of c] by (auto simp: vfs_follow_mount_def vfs_follow_mount_mnt_def split: option.splits)
  finally show ?thesis .
qed

theorem vfs_mkdir_p_lookup_witness:
  "\<exists>t. vfs_mkdir_p (Some ''/m'') (v_tree demo2) = (Some 2, t) \<and>
       fst (vfs_lookup (demo2\<lparr>v_tree := t\<rparr>) (Some ''/m'')) = Some 2"
proof -
  let ?t = "(v_tree demo2)\<lparr>t_env := \<lparr>e_heap = heap_at 7 6, e_world = demo_kernel\<rparr>\<rparr>"
  have m: "vfs_mkdir_p (Some ''/m'') (v_tree demo2) = (Some 2, ?t)"
    by (simp add: vfs_mkdir_p_def vfs_is_path_valid_def vfs_root_def demo2_eq mkdir_p_loop.simps demo_eval
        demo_root_def demo_f_def demo_m_def)
  have "no_mounts (v_tree demo2)"
    by (auto simp: no_mounts_def demo2_eq demo_root_def demo_f_def demo_m_def split: if_splits)
  moreover have "mem_ok (demo2\<lparr>v_tree := ?t\<rparr>)" by (simp add: mem_ok_def)
  ultimately show ?thesis
    using vfs_mkdir_p_lookup[OF demo2_reachable, of "[''m'']"] m
    by (simp add: names_valid_def vfs_name_valid_def)
qed

text \<open>
  C3: A mount is visible at its mountpoint. If a path leads from the root through uncovered
  directories to \<open>mp\<close> and \<open>vfs_mount\<close> on it succeeds, by name or by auto-detection, then
  \<open>vfs_lookup\<close> of the same path finds the root of the mounted filesystem.
\<close>

theorem vfs_mount_crosses:
  assumes "vfs_reachable v" "t_root (v_tree v) = Some r" "Option.bind (v_node v r) n_mnt = None"
    "segs \<noteq> []" "names_valid segs" "mem_ok v" "resolves (v_tree v) r segs mp"
    "vfs_mount v source (Some (path_of segs)) fstype data = (None, v')" "mem_ok v'"
  shows "\<exists>m mt root. v_mounts v' m = Some mt \<and> m_root mt = Some root \<and> root \<noteq> mp \<and>
    fst (vfs_lookup v' (Some (path_of segs))) = Some root"
proof -
  have inv: "vfs_inv v" and inv': "vfs_inv v'"
    using vfs_reachable_inv[OF assms(1)] vfs_mount_inv[OF _ assms(8)] by auto
  from lookup_node_ex_resolves[OF assms(2-7), of False] obtain e where
    l: "vfs_lookup_node_ex v (path_of segs) False = ((Some mp, None), set_env v e)" by auto
  from vfs_mount_None[OF inv assms(8)] l obtain v1 where
    s: "tree_step v v1" "mounted_by v1 mp v'" by auto
  then have m: "mounted_by v mp v'" by (rule mounted_by_trans)
  have ti: "tree_inv (v_tree v)" using inv by (simp add: vfs_inv_def)
  from resolves_greater[OF ti assms(7,4)] obtain n where n: "v_node v mp = Some n" "r < mp"
    by (auto simp: child_node_def)
  from mounted_by_node[OF inv m n(1) inv'] obtain i mt root where
    root: "v_mounts v' i = Some mt" "m_root mt = Some root" "vfs_follow_mount v' (Some mp) = Some root" "root \<noteq> mp" .
  have res: "resolves (v_tree v') r segs mp" by (rule mounted_by_resolves[OF inv m inv' assms(7,4)])
  obtain rn where "v_node v r = Some rn" using ti assms(2) by (rule tree_inv_rootD)
  with mounted_by_root[OF inv m] n(2) assms(2,3) have
    "t_root (v_tree v') = Some r" "Option.bind (v_node v' r) n_mnt = None" by auto
  from vfs_lookup_resolves[OF this assms(4,5,9) res] root show ?thesis by auto
qed

theorem vfs_mount_crosses_witness:
  "\<exists>root. root \<noteq> 2 \<and> fst (vfs_lookup (snd demo_mount) (Some ''/m'')) = Some root"
proof -
  have r: "resolves (v_tree demo2) 0 [''m''] 2"
    by (simp add: demo2_eq demo_eval demo_root_def demo_f_def demo_m_def)
  note demo_mount_mem = demo_mount_ok(2)
  have m: "vfs_mount demo2 None (Some (path_of [''m''])) (Some ''sgpart'') (Some (P_sgpart_data (Some 0) 0)) =
      (None, snd demo_mount)"
    using demo_mount_ok(1) by (simp add: demo_mount_def prod_eq_iff)
  have "t_root (v_tree demo2) = Some 0" "Option.bind (v_node demo2 0) n_mnt = None" "mem_ok demo2"
    by (simp_all add: demo2_eq demo_root_def mem_ok_def)
  from vfs_mount_crosses[OF demo2_reachable this(1,2) _ _ this(3) r m demo_mount_mem]
  show ?thesis by (auto simp: names_valid_def vfs_name_valid_def)
qed

subsection \<open>File descriptors\<close>

text \<open>
  Opening a file adds exactly one entry to the file table, with a descriptor that was free, at
  position 0, for the node the path resolves to.
\<close>

theorem vfs_open_adds_one:
  assumes "vfs_reachable v" "vfs_open v path flags = (Inr fd, v')"
  shows "vfs_find_file v fd = None \<and> 0 \<le> fd \<and> fd \<le> INT_MAX \<and>
    (\<exists>f. v_files v' = (fd, f) # v_files v \<and> f_pos f = 0 \<and> fst (vfs_lookup v path) = Some (f_node f))"
proof -
  from vfs_open_ok[OF vfs_reachable_inv[OF assms(1)] assms(2)] obtain v1 a fi where
    "vfs_lookup v path = (Some a, v1)" "fd \<notin> fst ` set (v_files v)" "0 \<le> fd" "fd \<le> INT_MAX"
    "v_files v' = (fd, fi) # v_files v" "f_node fi = a" "f_pos fi = 0" by metis
  then show ?thesis by (simp add: vfs_find_file_None)
qed

theorem vfs_open_adds_one_witness: "fst (vfs_lookup demo2 (Some ''/f'')) = Some 1"
  using vfs_open_adds_one[OF demo2_reachable demo3_eq] by simp

text \<open>
  C7: \<open>vfs_alloc_fd\<close> fails only when every descriptor is in use: with fewer than 2^31 open files
  its circular search ends at a free one, wherever it starts.
\<close>

theorem vfs_alloc_fd_complete:
  assumes "vfs_reachable v" "length (v_files v) < 2 ^ 31"
  shows "\<exists>fd v'. vfs_alloc_fd v = (Inr fd, v') \<and> vfs_find_file v fd = None \<and> 0 \<le> fd \<and> fd \<le> INT_MAX"
proof -
  let ?s = "if v_next_fd v < 0 then 0 else v_next_fd v"
  have inv: "vfs_inv v" by (rule vfs_reachable_inv[OF assms(1)])
  have "int (length (v_files v)) < fd_count" using assms(2) by (simp add: INT_MAX_def)
  moreover have "0 \<le> ?s" "?s \<le> INT_MAX" using inv by (auto simp: vfs_inv_def INT_MAX_def)
  ultimately have "fst (alloc_fd_loop (Suc (length (v_files v))) v ?s ?s) \<noteq> None"
    by (rule alloc_fd_loop_finds)
  then obtain fd n where "alloc_fd_loop (Suc (length (v_files v))) v ?s ?s = (Some fd, n)"
    by (metis option.exhaust prod.exhaust fst_conv)
  then have "vfs_alloc_fd v = (Inr fd, v\<lparr>v_next_fd := n\<rparr>)"
    unfolding vfs_alloc_fd_def Let_def by (simp only: prod.case option.case)
  with vfs_alloc_fd_fresh[OF this inv] show ?thesis by blast
qed

theorem vfs_alloc_fd_complete_witness: "\<exists>fd v'. vfs_alloc_fd demo3 = (Inr fd, v')"
  using vfs_alloc_fd_complete[OF demo3_reachable] demo3_eq by (auto simp: demo3_def)



subsection \<open>Removal\<close>

text \<open>
  A successful \<open>vfs_unlink\<close> removes exactly the named child: it had no children and was not
  open, it is freed with its name (two blocks), every other child is still found under its name,
  and no other node changes but its parent's list of children.
\<close>

theorem vfs_unlink_removes_child:
  assumes "vfs_reachable v" "vfs_unlink v (Some p) name = (None, v')"
  shows "\<exists>c cn. vfs_find_child_by_name (v_tree v) (Some p) name = Some c \<and> v_node v c = Some cn \<and>
    n_children cn = [] \<and> (\<forall>(fd, f) \<in> set (v_files v). f_node f \<noteq> c) \<and> v_node v' c = None \<and>
    (\<forall>a. a \<noteq> c \<longrightarrow> a \<noteq> p \<longrightarrow> v_node v' a = v_node v a) \<and>
    vfs_find_child_by_name (v_tree v') (Some p) name = None \<and>
    (\<forall>s. s \<noteq> name \<longrightarrow> vfs_find_child_by_name (v_tree v') (Some p) s = vfs_find_child_by_name (v_tree v) (Some p) s) \<and>
    t_live (v_tree v') = t_live (v_tree v) - 2 \<and> v_files v' = v_files v"
proof -
  have ti: "tree_inv (v_tree v)" using vfs_reachable_inv[OF assms(1)] by (simp add: vfs_inv_def)
  from assms(2) obtain c where c: "vfs_find_child_by_name (v_tree v) (Some p) name = Some c"
    "unlink_child v c = (None, v')"
    by (auto simp: vfs_unlink_def split: option.splits if_splits)
  from find_child_Some[OF c(1)] obtain pn cn where p: "v_node v p = Some pn" "c \<in> set (n_children pn)"
    "v_node v c = Some cn" "n_name cn = name" by (metis option.inject)
  from unlink_child_None[OF c(2)] obtain cn' q qn where u: "v_node v c = Some cn'" "n_children cn' = []"
    "n_parent cn' = Some q" "v_node v q = Some qn" "c \<notin> f_node ` snd ` set (v_files v)"
    "v' = v\<lparr>v_tree := free_node c (chain_remove q c (v_tree v))\<rparr>" by metis
  from node_ok_child(2)[OF tree_invD[OF ti p(1)] p(2)] p(3) u(1,3) have q: "q = p" "cn' = cn" by auto
  with u p have qn: "qn = pn" by simp
  have pc: "p \<noteq> c" using node_ok_child(1)[OF tree_invD[OF ti p(1)] p(2)] by simp
  have dist: "distinct (n_children pn)" using tree_invD[OF ti p(1)] by (simp add: node_ok_def)
  have nodes: "t_nodes (v_tree v') = (t_nodes (v_tree v))(p \<mapsto> pn\<lparr>n_children := remove1 c (n_children pn)\<rparr>, c := None)"
    using u(6) q p(1) by (simp add: chain_remove_def n_children_update_eq[of "remove1 c"])
  have live: "t_live (v_tree v') = t_live (v_tree v) - 2" using u(6) by (simp add: chain_remove_def)
  have "tree_inv (v_tree v')"
    using unlink_child_inv[OF vfs_reachable_inv[OF assms(1)] c(2)] by (simp add: vfs_inv_def)
  note find = find_child_remove[OF ti this p(1,2,3) pc dist nodes]
  have other: "v_node v' a = v_node v a" if "a \<noteq> c" "a \<noteq> p" for a using that by (simp add: nodes)
  have closed: "\<forall>(fd, f) \<in> set (v_files v). f_node f \<noteq> c" using u(5) by force
  have kept: "vfs_find_child_by_name (v_tree v') (Some p) s =
    (if s = name then None else vfs_find_child_by_name (v_tree v) (Some p) s)" for s
    using find[of s] p(4) by simp
  have "v_node v' c = None" "v_files v' = v_files v" "n_children cn = []"
    using u(2,6) q by (simp_all add: nodes)
  with c(1) p(3) other closed kept live show ?thesis by (intro exI[of _ c] exI[of _ cn]) simp
qed

theorem vfs_unlink_removes_child_witness:
  "v_node (snd (vfs_unlink demo2 (Some 0) ''m'')) 2 = None"
proof -
  obtain v' where "vfs_unlink demo2 (Some 0) ''m'' = (None, v')"
    by (simp add: vfs_unlink_def unlink_child_def demo2_eq demo_eval demo_root_def demo_f_def demo_m_def)
  from vfs_unlink_removes_child[OF demo2_reachable this] \<open>_ = (None, v')\<close> show ?thesis
    by (auto simp: demo2_eq demo_eval demo_root_def demo_f_def demo_m_def)
qed

text \<open>
  C2: A successful \<open>vfs_umount\<close> frees exactly the mounted tree. For a mountpoint found along an
  uncovered path, on a filesystem without a \<open>umount\<close> callback: no open file was inside the mounted
  tree; every node that was below its root is gone, every other node is still there; the
  mountpoint is no longer covered; the file table is unchanged; and the allocator gets back two
  blocks for each freed node and one for the mount object.
\<close>

theorem vfs_umount_frees_mount:
  assumes "vfs_reachable v" "t_root (v_tree v) = Some r" "Option.bind (v_node v r) n_mnt = None"
    "segs \<noteq> []" "names_valid segs" "mem_ok v" "resolves (v_tree v) r segs mp"
    "v_node v mp = Some n" "n_mnt n = Some m" "v_mounts v m = Some mt" "m_root mt = Some root"
    "Option.bind (m_sops mt) so_umount = None"
    "vfs_umount v (Some (path_of segs)) = (None, v')"
  shows "(\<forall>(fd, f) \<in> set (v_files v). \<not> vfs_node_under_root (v_tree v) (f_node f) (Some root)) \<and>
    (\<forall>a. v_node v a \<noteq> None \<longrightarrow>
       (v_node v' a = None \<longleftrightarrow> vfs_node_under_root (v_tree v) a (Some root))) \<and>
    Option.bind (v_node v' mp) n_mnt = None \<and> v_mounts v' = (v_mounts v)(m := None) \<and>
    v_files v' = v_files v \<and>
    t_live (v_tree v') =
      t_live (v_tree v) - 2 * card {a. v_node v a \<noteq> None \<and> vfs_node_under_root (v_tree v) a (Some root)} - 1"
proof -
  note inv = vfs_reachable_inv[OF assms(1)]
  have ti: "tree_inv (v_tree v)" using inv by (simp add: vfs_inv_def)
  from lookup_node_ex_resolves[OF assms(2-7), of False] obtain e where
    l: "vfs_lookup_node_ex v (path_of segs) False = ((Some mp, None), set_env v e)"
      "t_live (v_tree (set_env v e)) = t_live (v_tree v)" by auto
  let ?v = "set_env v e"
  have nodes: "t_nodes (v_tree ?v) = t_nodes (v_tree v)" "v_mounts ?v = v_mounts v" "v_files ?v = v_files v"
    by simp_all
  have under: "vfs_node_under_root (v_tree ?v) a s = vfs_node_under_root (v_tree v) a s" for a s
  proof -
    have "under_root_upto k (v_tree ?v) n s = under_root_upto k (v_tree v) n s" for k n
      by (induction k arbitrary: n) (simp_all split: option.split)
    then show ?thesis by (simp add: vfs_node_under_root_def)
  qed
  let ?t = "after_umount mp root (v_tree ?v)"
  have out: "\<forall>(fd, f) \<in> set (v_files v). \<not> vfs_node_under_root (v_tree v) (f_node f) (Some root)"
    and v': "v' = v_mfree (?v\<lparr>v_tree := ?t, v_mounts := (v_mounts v)(m := None)\<rparr>)"
    using assms(13) path_of_valid[OF assms(4)] l(1) assms(8-12) under
    by (auto simp: vfs_umount_def Let_def split: if_splits)
  have inv': "vfs_inv ?v" by (rule vfs_inv_env[OF inv])
  then have d: "detaching (v_tree ?v) (v_mounts v) (v_next_mnt ?v) mp m root"
    using assms(8-11) by (auto simp: detaching_def vfs_inv_def)
  have desc: "vfs_node_under_root (v_tree v) a (Some root) \<longleftrightarrow> desc (t_nodes (v_tree v)) root a"
    if "v_node v a \<noteq> None" for a
    using vfs_node_under_root_desc[OF ti] that by auto
  have rl: "v_node v root \<noteq> None"
    using vfs_inv_mount(2)[OF inv assms(10)] assms(11) by (auto simp: mount_ok_def)
  then have set: "{b. desc (t_nodes (v_tree v)) root b} =
      {a. v_node v a \<noteq> None \<and> vfs_node_under_root (v_tree v) a (Some root)}"
    using desc by (auto dest: desc_live)
  have "t_live ?t = t_live (clear_mnt mp (v_tree ?v)) - 2 * card {b. desc (t_nodes (v_tree v)) root b}"
    using detaching_freed[OF d] by (simp add: freed_def)
  then have live: "t_live ?t = t_live (v_tree v) - 2 * card {b. desc (t_nodes (v_tree v)) root b}"
    using l(2) by simp
  have gone: "v_node v' a = None \<longleftrightarrow> vfs_node_under_root (v_tree v) a (Some root)" if "v_node v a \<noteq> None" for a
    using that desc[OF that] detaching_nodes[OF d, of a] clear_mnt_at[of mp "v_tree ?v" a] by (auto simp: v')
  have "Option.bind (v_node v' mp) n_mnt = None"
    using assms(8) detaching_nodes[OF d, of mp] clear_mnt_at[of mp "v_tree ?v" mp] by (auto simp: v')
  with out gone live show ?thesis unfolding set by (auto simp: v' v_mfree_def t_free_live)
qed

theorem vfs_umount_frees_mount_witness:
  "\<exists>v'. vfs_umount (snd demo_mount) (Some ''/m'') = (None, v') \<and> Option.bind (v_node v' 2) n_mnt = None"
proof -
  obtain mt root n where m: "v_mounts (snd demo_mount) 0 = Some mt" "m_root mt = Some root" "m_sops mt = None"
    "v_node (snd demo_mount) 2 = Some n" "n_mnt n = Some 0" "v_files (snd demo_mount) = []"
    "t_root (v_tree (snd demo_mount)) = Some 0" "Option.bind (v_node (snd demo_mount) 0) n_mnt = None"
    "resolves (v_tree (snd demo_mount)) 0 [''m''] 2" by (rule demo_mounted)
  have nv: "names_valid [''m'']" "[''m''] \<noteq> []" "path_of [''m''] = ''/m''"
    by (simp_all add: names_valid_def vfs_name_valid_def)
  from lookup_node_ex_resolves[OF m(7,8) nv(2,1) demo_mount_ok(2) m(9), of False] obtain e where
    "vfs_lookup_node_ex (snd demo_mount) ''/m'' False = ((Some 2, None), set_env (snd demo_mount) e)"
    by (auto simp: nv(3))
  with m obtain v' where u: "vfs_umount (snd demo_mount) (Some (path_of [''m''])) = (None, v')"
    by (simp add: vfs_umount_def vfs_is_path_valid_def Let_def)
  have "Option.bind (m_sops mt) so_umount = None" using m(3) by simp
  from vfs_umount_frees_mount[OF demo_mount_reachable m(7,8) nv(2,1) demo_mount_ok(2) m(9,4,5,1,2) this u] u
  show ?thesis by simp
qed

end
