(* ===== verification/Fs_Theorems.thy ===== *)
theory Fs_Theorems
  imports Vfs_Theorems
begin

text \<open>
  The properties of the filesystem types, of the mount policies and of the device registry below
  them.
\<close>

subsection \<open>sgpart\<close>

text \<open>
  C9: sgpart shows exactly the partition table. Mounted with memory available on a device whose
  content does not change, the root directory lists, newest first, the entries of the table: the
  records from the table offset up to the first one without the magic number, the end of the
  device or 64 records, less those whose name is empty, contains a slash or repeats an earlier
  one; each file carries the offset and size of its record.
\<close>

theorem sgpart_mount_lists_table:
  assumes "vfs_reachable v" "t_ready (v_tree v)" "t_root (v_tree v) \<noteq> None" "t_mem_ok (v_tree v)"
    "dev_image (e_world (v_env v)) dev img"
    "unat off + SGPART_MAX_ENTRIES * PART_INFO_SIZE < 2 ^ 64"
    "sgpart_mount (v_tree v) mnt source (Some (P_sgpart_data (Some dev) off)) = (None, mnt', t')"
  shows "\<exists>root. m_root mnt' = Some root \<and>
    entries t' root = shown dev (table_of SGPART_MAX_ENTRIES (drop (unat off) img)) []"
proof -
  have "tree_inv (v_tree v)" using vfs_reachable_inv[OF assms(1)] by (simp add: vfs_inv_def)
  from sgpart_mount_entries[OF this assms(4,2,3,5,6,7)] show ?thesis by blast
qed

lemma demo_record_drop: "drop 56 (demo_record [a] @ bs) = bs" "length (demo_record [a]) = 56"
  by (simp_all add: demo_record_def)

lemma demo_record_info:
  "take 56 (demo_record [a] @ bs) = demo_record [a]"
  "pi_magic (part_info_of (demo_record [a])) = DPT_MAGIC"
  "c_string (pi_name (part_info_of (demo_record [a]))) = (if a = 0 then [] else [char_of (unat a)])"
  "pi_offset (part_info_of (demo_record [a])) = 112" "pi_size (part_info_of (demo_record [a])) = 3"
  by (simp_all add: demo_record_def part_info_of_def le32_def DPT_MAGIC_def c_string_def)

lemma demo_chars: "char_of (97 :: nat) = CHR ''a''" "char_of (98 :: nat) = CHR ''b''"
  by code_simp+

lemma demo_table: "table_of SGPART_MAX_ENTRIES demo_img =
    [part_info_of (demo_record [97]), part_info_of (demo_record [98])]"
proof -
  have "table_of (Suc (Suc (Suc n))) demo_img =
      [part_info_of (demo_record [97]), part_info_of (demo_record [98])]" for n
    by (simp add: demo_img_def PART_INFO_SIZE_def demo_record_drop demo_record_info)
  from this[of 61] show ?thesis by (simp add: SGPART_MAX_ENTRIES_def eval_nat_numeral)
qed

theorem sgpart_mount_lists_table_witness:
  "\<exists>mnt t root. sgpart_mount (v_tree demo2) (new_mount 2 sgpart_type) None (Some (P_sgpart_data (Some 0) 0)) =
     (None, mnt, t) \<and> m_root mnt = Some root \<and> map fst (entries t root) = [''b'', ''a'']"
proof -
  obtain r mnt t where m: "sgpart_mount (v_tree demo2) (new_mount 2 sgpart_type) None
      (Some (P_sgpart_data (Some 0) 0)) = (r, mnt, t)" by (metis prod.exhaust)
  then have "r = None"
    by (auto simp: demo2_eq sgpart_mount_def t_blk_read_def demo_image demo_image_length
        blk_read_image[where img = demo_img] demo_record_magic PART_INFO_SIZE_def vfs_alloc_dir_node_def demo_eval)
  have ok: "t_ready (v_tree demo2)" "t_root (v_tree demo2) \<noteq> None" "t_mem_ok (v_tree demo2)"
    "dev_image (e_world (v_env demo2)) 0 demo_img"
    "unat (0 :: u64) + SGPART_MAX_ENTRIES * PART_INFO_SIZE < 2 ^ 64"
    by (simp_all add: t_mem_ok_def demo2_eq demo_image SGPART_MAX_ENTRIES_def PART_INFO_SIZE_def)
  from sgpart_mount_lists_table[OF demo2_reachable ok m[unfolded \<open>r = None\<close>]] obtain root where
    "m_root mnt = Some root" "entries t root = shown 0 (table_of SGPART_MAX_ENTRIES demo_img) []" by auto
  then show ?thesis
    using m \<open>r = None\<close> by (simp add: demo_table demo_record_info demo_chars Let_def entry_of_def vfs_name_valid_def)
qed

text \<open>
  Reading a partition through the VFS. A \<open>vfs_read\<close> on an open sgpart file returns the bytes
  of the device at the file position, cut at the end of the partition, and moves the position by
  the number of bytes returned; at the end of the partition it returns no byte.
\<close>

theorem sgpart_vfs_read:
  fixes o32 s32 :: u32
  assumes "vfs_find_file v fd = Some f" "v_node v (f_node f) = Some n" "n_fops n = Some sgpart_fops"
    "n_priv n = Some (P_sgpart_file dev (ucast o32) (ucast s32))" "dev_image (e_world (v_env v)) dev img"
  shows "case vfs_read v fd False len of (r, v') \<Rightarrow>
    r = Inr (take (unat len) (drop (unat (f_pos f)) (take (unat s32) (drop (unat o32) img)))) \<and>
    vfs_find_file v' fd = Some (f\<lparr>f_pos := f_pos f +
      of_nat (length (take (unat len) (drop (unat (f_pos f)) (take (unat s32) (drop (unat o32) img)))))\<rparr>)"
proof -
  let ?bs = "take (unat len) (drop (unat (f_pos f)) (take (unat s32) (drop (unat o32) img)))"
  obtain e where "sgpart_read (v_env v) (n_priv n) f len = (Inr ?bs, e)"
    using sgpart_read_contents[OF assms(5), of o32 s32 f len] assms(4)
    by (cases "sgpart_read (v_env v) (n_priv n) f len") auto
  then have r: "vfs_read v fd False len =
      (Inr ?bs, set_file fd (f\<lparr>f_pos := f_pos f + of_nat (length ?bs)\<rparr>) (set_env v e))"
    using assms(1-3) by (simp add: vfs_read_def file_op_def sgpart_fops_def)
  have "map_of (map (\<lambda>(k, g). if k = fd then (k, x) else (k, g)) fs) fd = (if map_of fs fd = None then None else Some x)"
    for fs :: "(int \<times> fs_priv vfs_file) list" and x
    by (induction fs) auto
  then have "vfs_find_file (set_file fd x (set_env v e)) fd = Some x" for x
    using assms(1) by (simp add: vfs_find_file_def set_file_def)
  with r show ?thesis by simp
qed

theorem sgpart_vfs_read_witness:
  "fst (vfs_read demo3 0 False 2) = Inr [1, 2]"
proof -
  let ?f = "\<lparr>f_node = 1, f_pos = 0, f_flags = 0, f_private = Some (P_sgpart_file 0 112 3)\<rparr> :: fs_priv vfs_file"
  have f: "vfs_find_file demo3 0 = Some ?f" using demo3_eq by (simp add: demo3_def vfs_find_file_def)
  have n: "v_node demo3 (f_node ?f) = Some demo_f" "n_fops demo_f = Some sgpart_fops"
    "n_priv demo_f = Some (P_sgpart_file 0 (ucast (112 :: u32)) (ucast (3 :: u32)))"
    "dev_image (e_world (v_env demo3)) 0 demo_img"
    using demo3_eq by (simp_all add: demo3_def demo2_eq demo_f_def demo_image)
  have "drop 112 demo_img = [1, 2, 3, 4]" by (simp add: demo_img_def demo_record_def)
  with sgpart_vfs_read[OF f n, of 2] show ?thesis by (auto split: prod.splits)
qed

text \<open>
  C10: A read of a partition never touches the device outside of it. Either the position is at or
  past the end and the device is not accessed at all, or there is exactly one device read, of a
  window inside the partition that is no longer than asked; the 64-bit address does not wrap.
\<close>

theorem sgpart_read_window:
  fixes o32 s32 :: u32
  shows "(unat s32 \<le> unat (f_pos file) \<and>
      sgpart_read e (Some (P_sgpart_file dev (ucast o32) (ucast s32))) file len = (Inr [], e)) \<or>
    (\<exists>a n. sgpart_read e (Some (P_sgpart_file dev (ucast o32) (ucast s32))) file len = blk_read dev a n e \<and>
       n \<le> len \<and> unat a = unat o32 + unat (f_pos file) \<and> unat a + unat n \<le> unat o32 + unat s32)"
proof (cases "ucast s32 \<le> f_pos file")
  case True
  then show ?thesis by (simp add: sgpart_read_def word_le_nat_alt)
next
  case False
  from sgpart_read_access[OF False, of len o32 e dev] obtain n where
    "n \<le> len" "unat (ucast o32 + f_pos file :: u64) = unat o32 + unat (f_pos file)"
    "unat (f_pos file) + unat n \<le> unat s32"
    "sgpart_read e (Some (P_sgpart_file dev (ucast o32) (ucast s32))) file len =
      blk_read dev (ucast o32 + f_pos file) n e" by blast
  then show ?thesis by (intro disjI2 exI[of _ "ucast o32 + f_pos file"] exI[of _ n]) simp
qed

subsection \<open>Mount policies\<close>

lemma reachable_mkdir: "vfs_reachable v \<Longrightarrow> vfs_mkdir p name (v_tree v) = (c, t) \<Longrightarrow> vfs_reachable (v\<lparr>v_tree := t\<rparr>)"
  by (rule reach_step[OF _ step_mkdir])

lemma reachable_mkdir_p: "vfs_reachable v \<Longrightarrow> vfs_mkdir_p p (v_tree v) = (c, t) \<Longrightarrow> vfs_reachable (v\<lparr>v_tree := t\<rparr>)"
  by (rule reach_step[OF _ step_mkdir_p])

lemma reachable_mount: "vfs_reachable v \<Longrightarrow> vfs_reachable (snd (vfs_mount v source target fstype data))"
  by (cases "vfs_mount v source target fstype data") (auto intro: reach_step step_mount)

lemma reachable_unlink: "vfs_reachable v \<Longrightarrow> vfs_reachable (snd (vfs_unlink v p name))"
  by (cases "vfs_unlink v p name") (auto intro: reach_step step_unlink)

lemma reachable_env: "vfs_reachable v \<Longrightarrow> vfs_reachable (set_env v e)"
  by (rule reach_step[OF _ step_world])

lemma mount_named_reachable: "vfs_reachable v \<Longrightarrow> vfs_reachable (snd (mount_named dev alias v))"
  by (auto simp: mount_named_def Let_def intro: reachable_mount reachable_mkdir_p
      split: prod.splits option.splits)

lemma mount_anon_reachable:
  assumes "vfs_reachable v" shows "vfs_reachable (snd (mount_anon dev index v))"
proof -
  let ?name = "take 15 (''blk'' @ dec_digits index)"
  obtain c t where m: "vfs_mkdir (vfs_root (v_tree v)) ?name (v_tree v) = (c, t)" by fastforce
  note v1 = reachable_mkdir[OF assms m]
  let ?m = "vfs_mount (v\<lparr>v_tree := t\<rparr>) None (Some (take 23 (''/'' @ ?name))) None (Some (P_blkdev dev))"
  obtain r v2 where r: "?m = (r, v2)" by fastforce
  with reachable_mount[OF v1, of None "Some (take 23 (''/'' @ ?name))" None "Some (P_blkdev dev)"]
  have v2: "vfs_reachable v2" by simp
  show ?thesis
    using m r v1 v2 reachable_unlink[OF v2] by (simp add: mount_anon_def Let_def split: option.split)
qed

lemma automount_loop_reachable: "vfs_reachable v \<Longrightarrow> vfs_reachable (snd (automount_loop ds anon v))"
proof (induction ds anon v rule: automount_loop.induct)
  case (2 d ds anon v)
  show ?case
  proof (cases "dev_alias (e_world (v_env v)) d = []")
    case False
    with 2(1)[OF refl False mount_named_reachable[OF 2(4)]] show ?thesis by (simp add: Let_def)
  next
    case True
    obtain r v1 where r: "mount_anon d anon v = (r, v1)" by fastforce
    with mount_anon_reachable[OF 2(4), of d anon] have "vfs_reachable v1" by simp
    with 2(2)[OF refl _ r[symmetric]] 2(3)[OF refl _ r[symmetric]] True r show ?thesis
      by (auto simp: Let_def split: option.split)
  qed
qed simp

lemma flash_mount_one_reachable: "vfs_reachable v \<Longrightarrow> vfs_reachable (snd (flash_mount_one prop m v))"
  by (auto simp: flash_mount_one_def Let_def intro: reachable_mount reachable_mkdir_p reachable_env
      split: prod.splits option.splits sum.splits)

lemma fold_reachable:
  assumes "\<And>x v. vfs_reachable v \<Longrightarrow> vfs_reachable (f x v)"
  shows "vfs_reachable v \<Longrightarrow> vfs_reachable (fold f xs v)"
  by (induction xs arbitrary: v) (auto intro: assms)



subsection \<open>mtdblock\<close>

text \<open>
  There is at most one block device per MTD. When \<open>mtdblock_create\<close> returns a block device,
  this is the only registered one that wraps the MTD, creating it again returns the same device
  and changes nothing, and reading it reads the MTD.
\<close>

theorem mtdblock_create_idempotent:
  assumes "blk_inv k" "mtdblock_create m k = (Some a, k')"
  shows "{b \<in> set (k_blk_list k'). wraps k' m b} = {a} \<and> mtdblock_create m k' = (Some a, k') \<and>
    blkdev_read a off len k' = mtd_read m off len k'"
proof -
  note inv' = mtdblock_create_inv[OF assms]
  from mtdblock_create_Some[OF assms] have a: "a \<in> set (k_blk_list k')" "wraps k' m a" by auto
  with inv' have only: "{b \<in> set (k_blk_list k'). wraps k' m b} = {a}"
    unfolding blk_inv_def by blast
  then have "List.find (wraps k' m) (k_blk_list k') = Some a"
    using a by (intro find_unique) auto
  then have "mtdblock_create m k' = (Some a, k')"
    by (simp add: mtdblock_create_def mtdblock_find_eq[OF inv'])
  moreover have "blkdev_read a off len k' = mtd_read m off len k'"
    using a(2) by (auto simp: wraps_def blkdev_read_def mtdblock_read_def split: option.splits)
  ultimately show ?thesis using only by blast
qed

lemma demo_blk_inv: "blk_inv demo_kernel"
  by (rule blk_invI) (auto simp: demo_kernel_def wraps_def split: if_splits)

lemma demo_create: "fst (mtdblock_create 1 demo_kernel) \<noteq> None"
  by (rule mtdblock_create_works(1)[OF demo_blk_inv, of 1 "the (k_mtd demo_kernel 1)"])
     (simp_all add: demo_kernel_def)

theorem mtdblock_create_idempotent_witness:
  "\<exists>a k. mtdblock_create 1 demo_kernel = (Some a, k) \<and> mtdblock_create 1 k = (Some a, k)"
proof -
  obtain a k where r: "mtdblock_create 1 demo_kernel = (Some a, k)"
    using demo_create by (cases "mtdblock_create 1 demo_kernel") auto
  from mtdblock_create_idempotent[OF demo_blk_inv r] r show ?thesis by blast
qed

text \<open>
  A failed creation leaves no trace: when \<open>mtdblock_create\<close> returns NULL, whichever of its
  two allocations failed, the device lists, the registry, the devices and the number of blocks in
  use are as before.
\<close>

theorem mtdblock_create_failure:
  assumes "blk_inv k" "mtdblock_create m k = (None, k')"
  shows "k_blk_list k' = k_blk_list k \<and> k_global k' = k_global k \<and> k_blk k' = k_blk k \<and>
    k_dev k' = k_dev k \<and> k_blk_count k' = k_blk_count k \<and> k_live k' = k_live k"
  using mtdblock_create_cases[OF assms] by (auto simp: untouched_def)

theorem mtdblock_create_failure_witness:
  "k_live (snd (mtdblock_create 7 demo_kernel)) = k_live demo_kernel"
proof -
  have "mtdblock_find demo_kernel 7 = None"
    by (simp add: mtdblock_find_eq[OF demo_blk_inv]) (simp add: demo_kernel_def wraps_def)
  then obtain k where "mtdblock_create 7 demo_kernel = (None, k)"
    by (simp add: mtdblock_create_def)
       (simp add: demo_kernel_def blkdev_alloc_def k_malloc_def Let_def blkdev_register_def
        device_set_child_name_def)
  with mtdblock_create_failure[OF demo_blk_inv this] show ?thesis by simp
qed

lemma mtdblock_setup_fold:
  assumes "blk_inv k" "\<forall>n. h_ok (k_heap k) n" "\<forall>m \<in> set ms. \<exists>mt. k_mtd k m = Some mt \<and> mt_total_size mt \<noteq> 0"
    "k' = fold (\<lambda>m k. snd (mtdblock_create m k)) ms k"
  shows "blk_inv k' \<and> (\<forall>m \<in> set ms. \<exists>a \<in> set (k_blk_list k'). wraps k' m a) \<and>
    (\<forall>m. \<forall>a \<in> set (k_blk_list k). wraps k m a \<longrightarrow> a \<in> set (k_blk_list k') \<and> wraps k' m a)"
  using assms
proof (induction ms arbitrary: k)
  case (Cons m ms)
  obtain mt where mt: "k_mtd k m = Some mt" "mt_total_size mt \<noteq> 0" using Cons.prems(3) by auto
  obtain r k1 where r: "mtdblock_create m k = (r, k1)" by fastforce
  note works = mtdblock_create_works[OF Cons.prems(1,2) mt, unfolded r fst_conv snd_conv]
  note inv1 = mtdblock_create_inv[OF Cons.prems(1) r]
  note mtds = mtdblock_create_mtds[OF Cons.prems(1) r]
  from works(1) obtain a where a: "r = Some a" by auto
  with mtdblock_create_Some[OF Cons.prems(1)] r have w: "a \<in> set (k_blk_list k1)" "wraps k1 m a" by auto
  have rest: "blk_inv k' \<and> (\<forall>m \<in> set ms. \<exists>a \<in> set (k_blk_list k'). wraps k' m a) \<and>
    (\<forall>m. \<forall>a \<in> set (k_blk_list k1). wraps k1 m a \<longrightarrow> a \<in> set (k_blk_list k') \<and> wraps k' m a)"
    using Cons.IH[OF inv1 works(2)] Cons.prems(3,4) mtds r by simp
  then have "a \<in> set (k_blk_list k') \<and> wraps k' m a" using w by blast
  moreover have "b \<in> set (k_blk_list k') \<and> wraps k' m' b" if "b \<in> set (k_blk_list k)" "wraps k m' b" for m' b
    using mtdblock_create_keeps[OF Cons.prems(1) r that] rest by blast
  ultimately show ?case using rest by auto
qed simp

text \<open>
  With memory available, \<open>mtdblock_setup\<close> gives every registered MTD of non-zero size exactly
  one block device.
\<close>

theorem mtdblock_setup_wraps_all:
  assumes "blk_inv k" "\<forall>n. h_ok (k_heap k) n" "distinct (k_mtd_list k)"
    "\<forall>m \<in> set (k_mtd_list k). \<exists>mt. k_mtd k m = Some mt \<and> mt_total_size mt \<noteq> 0"
    "m \<in> set (k_mtd_list k)"
  shows "\<exists>a. {b \<in> set (k_blk_list (mtdblock_setup k)). wraps (mtdblock_setup k) m b} = {a}"
proof -
  have "mtdblock_setup k = fold (\<lambda>m k. snd (mtdblock_create m k)) (k_mtd_list k) k"
    by (simp add: mtdblock_setup_def mtd_first_def visit_all[OF assms(3)])
  from mtdblock_setup_fold[OF assms(1,2,4) this] assms(5) show ?thesis
    unfolding blk_inv_def by blast
qed

theorem mtdblock_setup_wraps_all_witness:
  "\<exists>a. {b \<in> set (k_blk_list (mtdblock_setup demo_kernel)). wraps (mtdblock_setup demo_kernel) 1 b} = {a}"
  by (rule mtdblock_setup_wraps_all[OF demo_blk_inv]) (simp_all add: demo_kernel_def)

end
