(* ===== verification/Vfs_Shell.thy ===== *)
theory Vfs_Shell
  imports Vfs
begin

text \<open>
  The shell commands of \<open>common/vfs.c\<close>: \<open>vfstree\<close>, \<open>ls\<close> and \<open>cat\<close>. What a command prints is the
  list of the strings it passes to \<open>printf\<close>.
\<close>

subsection \<open>vfstree\<close>

text \<open>The box characters are UTF-8 strings: three bytes each.\<close>

definition utf8 :: "nat list \<Rightarrow> string" where
  "utf8 bs = map char_of bs"

definition TREE_TE :: string where
  "TREE_TE = utf8 [0xe2, 0x94, 0x9c, 0xe2, 0x94, 0x80, 0xe2, 0x94, 0x80, 0x20]"
definition TREE_EL :: string where
  "TREE_EL = utf8 [0xe2, 0x94, 0x94, 0xe2, 0x94, 0x80, 0xe2, 0x94, 0x80, 0x20]"
definition TREE_PN :: string where
  "TREE_PN = utf8 [0xe2, 0x94, 0x82, 0x20, 0x20, 0x20]"
definition TREE_EM :: string where
  "TREE_EM = ''    ''"

definition node_name :: "('p, 'w) vfs \<Rightarrow> addr \<Rightarrow> string" where
  "node_name v a = (case v_node v a of None \<Rightarrow> ''?'' | Some n \<Rightarrow> n_name n)"

text \<open>
  The recursion ends because the prefix grows by at least four bytes at each level and a prefix of
  256 bytes is not descended with.
\<close>

function vfs_show_tree_recurse :: "('p, 'w) vfs \<Rightarrow> addr \<Rightarrow> string \<Rightarrow> string list" where
  "vfs_show_tree_recurse v parent prefix =
     (case Option.bind (vfs_follow_mount v (Some parent)) (v_node v) of
        None \<Rightarrow> []
      | Some n \<Rightarrow>
          concat (map (\<lambda>(i, child).
            let is_last = (Suc i = length (n_children n));
                branch = (if is_last then TREE_EL else TREE_TE);
                next = prefix @ (if is_last then TREE_EM else TREE_PN)
            in (prefix @ branch @ node_name v child @ ''\<newline>'') #
               (if 256 \<le> length next then [] else vfs_show_tree_recurse v child next))
            (zip [0..<length (n_children n)] (n_children n))))"
  by pat_completeness auto
termination
  by (relation "measure (\<lambda>(_, _, prefix). 256 - length prefix)") (auto simp: TREE_EM_def TREE_PN_def utf8_def)

declare vfs_show_tree_recurse.simps [simp del]

definition vfs_show_tree :: "('p, 'w) vfs \<Rightarrow> string list" where
  "vfs_show_tree v =
     (case t_root (v_tree v) of
        Some r \<Rightarrow>
          (if t_ready (v_tree v) then (node_name v r @ ''\<newline>'') # vfs_show_tree_recurse v r []
           else [''(vfs not ready)\<newline>''])
      | None \<Rightarrow> [''(vfs not ready)\<newline>''])"

definition command_vfstree :: "('p, 'w) vfs \<Rightarrow> string list" where
  "command_vfstree v = vfs_show_tree v"

subsection \<open>ls\<close>

definition ls_line :: "('p, 'w) vfs \<Rightarrow> addr \<Rightarrow> string" where
  "ls_line v c =
     node_name v c @ (if map_option n_type (v_node v c) = Some VFS_NODE_DIR then ''/'' else []) @ ''\<newline>''"

definition command_ls :: "('p, 'w) vfs \<Rightarrow> string list \<Rightarrow> string list \<times> ('p, 'w) vfs" where
  "command_ls v argv =
     (let path = (if 2 \<le> length argv then argv ! 1 else ''/'') in
      if \<not> vfs_is_path_valid (Some path) then ([''ls: '' @ path @ '': invalid path\<newline>''], v)
      else case vfs_lookup_node_ex v path True of
        ((None, _), v1) \<Rightarrow> ([''ls: '' @ path @ '': not found\<newline>''], v1)
      | ((Some a, mnt), v1) \<Rightarrow>
          (if map_option n_type (v_node v1 a) \<noteq> Some VFS_NODE_DIR then ([node_name v1 a @ ''\<newline>''], v1)
           else
             (let v2 = (case Option.bind mnt (v_mounts v1) of
                          None \<Rightarrow> v1
                        | Some m \<Rightarrow>
                            (case Option.bind (m_sops m) so_iterate of
                               None \<Rightarrow> v1
                             | Some f \<Rightarrow> v1\<lparr>v_tree := snd (f (v_tree v1) (m_priv m) a)\<rparr>))
              in (case v_node v2 a of
                    None \<Rightarrow> ([], v2)
                  | Some n \<Rightarrow> (map (ls_line v2) (n_children n), v2)))))"

subsection \<open>cat\<close>

text \<open>What \<open>printf ("%s", buf)\<close> prints of a buffer: the characters before the first NUL.\<close>

definition print_buf :: "u8 list \<Rightarrow> string" where
  "print_buf bs = map (\<lambda>b. char_of (unat b)) (takeWhile (\<lambda>b. b \<noteq> 0) bs)"

text \<open>
  The read loop; it goes on as long as reads return bytes, so a device may keep it from ending,
  which is the result \<open>None\<close>.
\<close>

partial_function (option) cat_loop ::
  "int \<Rightarrow> string \<Rightarrow> ('p, 'w) vfs \<Rightarrow> (string \<times> errno option \<times> ('p, 'w) vfs) option" where
  "cat_loop fd out v =
     (case vfs_read v fd False 127 of
        (Inl e, v1) \<Rightarrow> Some (out, Some e, v1)
      | (Inr bs, v1) \<Rightarrow>
          (if bs = [] then Some (out, None, v1) else cat_loop fd (out @ print_buf bs) v1))"

definition command_cat ::
  "('p, 'w) vfs \<Rightarrow> string list \<Rightarrow> (string \<times> errno option \<times> ('p, 'w) vfs) option" where
  "command_cat v argv =
     (if length argv \<noteq> 2 then Some (''usage: cat /path\<newline>'', None, v)
      else case vfs_open v (Some (argv ! 1)) 0 of
        (Inl e, v1) \<Rightarrow> Some ([], Some e, v1)
      | (Inr fd, v1) \<Rightarrow>
          map_option (\<lambda>(out, err, v2). (out, err, snd (vfs_close v2 fd))) (cat_loop fd [] v1))"

end
