(* ===== verification/Shell_Theorems.thy ===== *)
theory Shell_Theorems
  imports Vfs_Theorems Vfs_Shell
begin

text \<open>The end-to-end property of \<open>cat\<close>: it prints a whole partition, ends and closes its file.\<close>

text \<open>The state of an open sgpart file, at the head of the file table.\<close>

definition cat_state ::
  "(fs_priv, 'h kernel) vfs \<Rightarrow> int \<Rightarrow> fs_priv vfs_file \<Rightarrow> (int \<times> fs_priv vfs_file) list \<Rightarrow>
   addr \<Rightarrow> u32 \<Rightarrow> u32 \<Rightarrow> u8 list \<Rightarrow> bool" where
  "cat_state v fd f fs dev off psize img \<longleftrightarrow>
     v_files v = (fd, f) # fs \<and> fd \<notin> fst ` set fs \<and> dev_image (e_world (v_env v)) dev img \<and>
     (\<exists>n. v_node v (f_node f) = Some n \<and> n_fops n = Some sgpart_fops \<and>
        n_priv n = Some (P_sgpart_file dev (ucast off) (ucast psize)))"

abbreviation part_bytes :: "u32 \<Rightarrow> u32 \<Rightarrow> u8 list \<Rightarrow> u8 list" where
  "part_bytes off psize img \<equiv> take (unat psize) (drop (unat off) img)"

lemma sgpart_read_image_env:
  assumes "dev_image (e_world e) dev img" "sgpart_read e (Some (P_sgpart_file dev o64 s64)) file len = (r, e')"
  shows "dev_image (e_world e') dev img"
  using assms by (auto simp: sgpart_read_def blk_read_image[OF assms(1)] dev_image_heap split: if_splits)

lemma set_file_head: "fd \<notin> fst ` set fs \<Longrightarrow> map (\<lambda>(k, g). if k = fd then (k, x) else (k, g)) fs = fs"
  by (induction fs) auto

lemma cat_read:
  assumes "cat_state v fd f fs dev off psize img" "unat (f_pos f) \<le> length (part_bytes off psize img)"
  obtains v' where
    "vfs_read v fd False len = (Inr (take (unat len) (drop (unat (f_pos f)) (part_bytes off psize img))), v')"
    "cat_state v' fd (f\<lparr>f_pos := f_pos f + of_nat (length (take (unat len)
        (drop (unat (f_pos f)) (part_bytes off psize img))))\<rparr>) fs dev off psize img"
proof -
  let ?bs = "take (unat len) (drop (unat (f_pos f)) (part_bytes off psize img))"
  from assms(1) obtain n where n: "v_files v = (fd, f) # fs" "fd \<notin> fst ` set fs"
    "dev_image (e_world (v_env v)) dev img" "v_node v (f_node f) = Some n" "n_fops n = Some sgpart_fops"
    "n_priv n = Some (P_sgpart_file dev (ucast off) (ucast psize))" by (auto simp: cat_state_def)
  obtain e where e: "sgpart_read (v_env v) (n_priv n) f len = (Inr ?bs, e)"
    using sgpart_read_contents[OF n(3), of off psize f len] n(6)
    by (cases "sgpart_read (v_env v) (n_priv n) f len") auto
  let ?f = "f\<lparr>f_pos := f_pos f + of_nat (length ?bs)\<rparr>"
  have "vfs_read v fd False len = (Inr ?bs, set_file fd ?f (set_env v e))"
    using n e by (simp add: vfs_read_def vfs_find_file_def file_op_def sgpart_fops_def)
  moreover have "cat_state (set_file fd ?f (set_env v e)) fd ?f fs dev off psize img"
    using n sgpart_read_image_env[OF n(3) e[unfolded n(6)]] set_file_head[OF n(2)]
    by (auto simp: cat_state_def set_file_def set_env_def)
  ultimately show thesis by (rule that)
qed

lemma take_drop_rest: "take n (drop p xs) @ drop (p + length (take n (drop p xs))) xs = drop p xs"
proof -
  have "take n ys @ drop (length (take n ys)) ys = ys" for ys :: "'a list"
    by (cases "n \<le> length ys") (simp_all add: min_def)
  from this[of "drop p xs"] show ?thesis by (simp only: drop_drop add.commute)
qed

lemma cat_loop_prints:
  assumes "cat_state v fd f fs dev off psize img" "unat (f_pos f) \<le> length (part_bytes off psize img)"
    "0 \<notin> set (part_bytes off psize img)"
  shows "\<exists>v' f'. cat_loop fd out v =
      Some (out @ map (\<lambda>b. char_of (unat b)) (drop (unat (f_pos f)) (part_bytes off psize img)), None, v') \<and>
    cat_state v' fd f' fs dev off psize img"
  using assms
proof (induction "length (part_bytes off psize img) - unat (f_pos f)" arbitrary: v f out rule: less_induct)
  case less
  let ?P = "part_bytes off psize img"
  let ?bs = "take 127 (drop (unat (f_pos f)) ?P)"
  let ?f = "f\<lparr>f_pos := f_pos f + of_nat (length ?bs)\<rparr>"
  obtain v' where v': "vfs_read v fd False 127 = (Inr ?bs, v')" "cat_state v' fd ?f fs dev off psize img"
    using cat_read[OF less.prems(1,2), of 127] by auto
  show ?case
  proof (cases "?bs = []")
    case True
    then have "drop (unat (f_pos f)) ?P = []" by simp
    with True v' show ?thesis by (subst cat_loop.simps) auto
  next
    case False
    have small: "length ?P < 2 ^ 32"
      using unsigned_less[of psize, where ?'a = nat] by (simp add: min_def)
    have pos: "unat (f_pos ?f) = unat (f_pos f) + length ?bs"
    proof -
      have n: "unat (of_nat (length ?bs) :: u64) = length ?bs"
        by (simp add: unsigned_of_nat take_bit_nat_eq_self min_def)
      have "length ?bs \<le> length ?P - unat (f_pos f)" by (simp only: length_take length_drop min.cobounded2)
      then have "unat (f_pos f) + length ?bs \<le> length ?P" using less.prems(2) by linarith
      moreover have "length ?P < 2 ^ 64" using small by (rule order.strict_trans) simp
      ultimately have "unat (f_pos f) + length ?bs < 2 ^ 64" by (rule order.strict_trans1)
      then show ?thesis using n by (simp add: unat_add_lem[THEN iffD1])
    qed
    have le: "unat (f_pos ?f) \<le> length ?P" and lt: "length ?P - unat (f_pos ?f) < length ?P - unat (f_pos f)"
    proof -
      have "length ?bs \<le> length ?P - unat (f_pos f)" by (simp only: length_take length_drop min.cobounded2)
      moreover have "0 < length ?bs" using False by (simp only: length_greater_0_conv not_False_eq_True)
      ultimately show "unat (f_pos ?f) \<le> length ?P" "length ?P - unat (f_pos ?f) < length ?P - unat (f_pos f)"
        unfolding pos using less.prems(2) by linarith+
    qed
    have "0 \<notin> set ?bs" using less.prems(3) by (meson in_set_dropD in_set_takeD)
    then have pb: "print_buf ?bs = map (\<lambda>b. char_of (unat b)) ?bs"
      by (simp add: print_buf_def takeWhile_neq_all)
    have join: "map (\<lambda>b. char_of (unat b)) ?bs @ map (\<lambda>b. char_of (unat b)) (drop (unat (f_pos ?f)) ?P) =
        map (\<lambda>b. char_of (unat b)) (drop (unat (f_pos f)) ?P) "
      unfolding pos map_append[symmetric] take_drop_rest ..
    have "cat_loop fd out v = cat_loop fd (out @ print_buf ?bs) v'"
      using v'(1) False by (subst cat_loop.simps) simp
    with less.hyps[OF lt v'(2) le less.prems(3), of "out @ print_buf ?bs"] show ?thesis
      unfolding pb append_assoc join by (simp only:)
  qed
qed

text \<open>
  C12: \<open>cat\<close> prints a whole partition and ends. When the path names a file of a mounted sgpart on
  a device whose content does not change, and the partition holds no zero byte, \<open>cat\<close> terminates,
  prints exactly the bytes of the partition in chunks of at most 127, reports no error and leaves
  the file table as it found it.
\<close>

theorem command_cat_prints_partition:
  fixes off psize :: u32
  assumes "vfs_reachable v" "vfs_open v (Some path) 0 = (Inr fd, v1)" "v_files v1 = (fd, f) # fs" "f_pos f = 0"
    "v_node v1 (f_node f) = Some n" "n_fops n = Some sgpart_fops"
    "n_priv n = Some (P_sgpart_file dev (ucast off) (ucast psize))"
    "dev_image (e_world (v_env v1)) dev img"
    "0 \<notin> set (take (unat psize) (drop (unat off) img))"
  shows "\<exists>v2. command_cat v [cmd, path] =
      Some (map (\<lambda>b. char_of (unat b)) (take (unat psize) (drop (unat off) img)), None, v2) \<and>
    v_files v2 = v_files v"
proof -
  from vfs_open_ok[OF vfs_reachable_inv[OF assms(1)] assms(2)] assms(3) have
    fs: "fs = v_files v" "fd \<notin> fst ` set fs" by auto
  with assms have "cat_state v1 fd f fs dev off psize img" by (simp add: cat_state_def)
  from cat_loop_prints[OF this _ assms(9), of "[]"] assms(4) obtain v' f' where
    l: "cat_loop fd [] v1 = Some (map (\<lambda>b. char_of (unat b)) (take (unat psize) (drop (unat off) img)), None, v')"
      "cat_state v' fd f' fs dev off psize img" by auto
  then have "v_files v' = (fd, f') # fs" by (simp add: cat_state_def)
  then have "v_files (snd (vfs_close v' fd)) = fs"
    by (auto simp: vfs_close_def vfs_find_file_def split: prod.split option.split)
  with l(1) assms(2) fs(1) show ?thesis by (simp add: command_cat_def)
qed

theorem command_cat_prints_partition_witness:
  "\<exists>v2. command_cat demo2 [''cat'', ''/f''] = Some (map (\<lambda>b :: u8. char_of (unat b)) [1, 2, 3], None, v2)"
proof -
  let ?f = "\<lparr>f_node = 1, f_pos = 0, f_flags = 0, f_private = Some (P_sgpart_file 0 112 3)\<rparr> :: fs_priv vfs_file"
  have op: "vfs_open demo2 (Some ''/f'') 0 = (Inr 0, demo3)" "v_files demo3 = (0, ?f) # []"
    using demo3_eq by (simp_all add: demo3_def demo2_eq)
  have n: "v_node demo3 (f_node ?f) = Some demo_f" "n_fops demo_f = Some sgpart_fops"
    "n_priv demo_f = Some (P_sgpart_file 0 (ucast (112 :: u32)) (ucast (3 :: u32)))"
    "dev_image (e_world (v_env demo3)) 0 demo_img"
    using demo3_eq by (simp_all add: demo3_def demo2_eq demo_f_def demo_image)
  have d: "drop 112 demo_img = [1, 2, 3, 4]" by (simp add: demo_img_def demo_record_def)
  show ?thesis
    using command_cat_prints_partition[OF demo2_reachable op _ n, of "''cat''"] d by auto
qed

end
