(* ===== verification/Xmodem.thy ===== *)
theory Xmodem
  imports Prelude
begin

text \<open>
  The XMODEM-CRC receiver of \<open>lib/xmodem/xmodem.c\<close> and its checksum.

  The serial line is the list of the polls of \<open>get_char\<close> still to come: what the poll returned
  (\<open>None\<close> when it is negative) and the milliseconds since the start of the wait when the time is
  read after it; after the last poll nothing ever arrives. The bytes sent are collected in order.
  \<open>save\<close> is the callback, a function on a state of its own that returns whether it failed.
\<close>

subsection \<open>The checksum\<close>

definition crc_shift :: "u16 \<Rightarrow> u16" where
  "crc_shift crc = (if crc AND 0x8000 \<noteq> 0 then push_bit 1 crc XOR 0x1021 else push_bit 1 crc)"

definition crc_byte :: "u16 \<Rightarrow> u8 \<Rightarrow> u16" where
  "crc_byte crc b = (crc_shift ^^ 8) (crc XOR push_bit 8 (ucast b))"

definition crc16 :: "u8 list \<Rightarrow> u16" where
  "crc16 buf = fold (\<lambda>b crc. crc_byte crc b) buf 0"

subsection \<open>Receiving\<close>

type_synonym xm_polls = "(u8 option \<times> nat) list"

definition XM_TIMEOUT :: nat where "XM_TIMEOUT = 1000"
definition SOH :: u8 where "SOH = 0x01"
definition STX :: u8 where "STX = 0x02"
definition EOT :: u8 where "EOT = 0x04"
definition ACK :: u8 where "ACK = 0x06"
definition NAK :: u8 where "NAK = 0x15"
definition CAN :: u8 where "CAN = 0x18"
definition CRC :: u8 where "CRC = 0x43"

fun xmodem_uart_recv :: "nat \<Rightarrow> xm_polls \<Rightarrow> u8 option \<times> xm_polls" where
  "xmodem_uart_recv timeout [] = (None, [])"
| "xmodem_uart_recv timeout ((ch, ms) # polls) =
     (case ch of
        Some c \<Rightarrow> (Some c, polls)
      | None \<Rightarrow> if ms \<le> timeout then xmodem_uart_recv timeout polls else (None, polls))"

text \<open>\<open>n\<close> bytes; the -1 of a timeout is stored as the byte 0xff.\<close>

fun recv_bytes :: "nat \<Rightarrow> xm_polls \<Rightarrow> u8 list \<times> xm_polls" where
  "recv_bytes 0 polls = ([], polls)"
| "recv_bytes (Suc n) polls =
     (case xmodem_uart_recv XM_TIMEOUT polls of
        (ch, polls1) \<Rightarrow>
          (case recv_bytes n polls1 of
             (bs, polls2) \<Rightarrow> ((case ch of Some c \<Rightarrow> c | None \<Rightarrow> 0xff) # bs, polls2)))"

text \<open>A packet's data, or the negative code of \<open>recv_pack\<close>.\<close>

datatype xm_pack = XP_data "u8 list" | XP_TMO | XP_EOT | XP_UND | XP_CRC

definition recv_pack :: "xm_polls \<Rightarrow> xm_pack \<times> xm_polls" where
  "recv_pack polls =
     (case xmodem_uart_recv XM_TIMEOUT polls of
        (None, polls1) \<Rightarrow> (XP_TMO, polls1)
      | (Some ch, polls1) \<Rightarrow>
          (if ch = EOT then (XP_EOT, polls1)
           else if ch \<noteq> SOH \<and> ch \<noteq> STX then (XP_UND, polls1)
           else
             (let pack_len = (if ch = SOH then 128 else 1024)
              in case recv_bytes (pack_len + 4) polls1 of
                   (pack, polls2) \<Rightarrow>
                     (if unat (pack ! 0) + unat (pack ! 1) \<noteq> 0xff then (XP_CRC, polls2)
                      else if crc16 (take (pack_len + 2) (drop 2 pack)) = 0
                      then (XP_data (take pack_len (drop 2 pack)), polls2)
                      else (XP_CRC, polls2)))))"

record 's xm_state =
  xm_polls :: xm_polls
  xm_sent :: "u8 list"
  xm_saved :: 's

definition xm_send :: "u8 \<Rightarrow> 's xm_state \<Rightarrow> 's xm_state" where
  "xm_send b x = x\<lparr>xm_sent := xm_sent x @ [b]\<rparr>"

text \<open>
  The receive loop. A silent line keeps it waiting for the first packet, and a line of garbage
  keeps it answering NAK, for ever: it need not end, hence the option.
\<close>

partial_function (option) xmodem_receive_loop ::
  "('s \<Rightarrow> u8 list \<Rightarrow> bool \<times> 's) \<Rightarrow> int \<Rightarrow> 's xm_state \<Rightarrow> (int \<times> 's xm_state) option" where
  "xmodem_receive_loop save recv_len x =
     (let x1 = (if recv_len = 0 then xm_send CRC x else x) in
      case recv_pack (xm_polls x1) of
        (pack, polls) \<Rightarrow>
          (let x2 = x1\<lparr>xm_polls := polls\<rparr> in
           case pack of
             XP_EOT \<Rightarrow> Some (recv_len, xm_send ACK x2)
           | XP_TMO \<Rightarrow>
               (if recv_len = 0 then xmodem_receive_loop save recv_len x2
                else Some (- 1, xm_send CAN (xm_send CAN x2)))
           | XP_UND \<Rightarrow> xmodem_receive_loop save recv_len (xm_send NAK x2)
           | XP_CRC \<Rightarrow> xmodem_receive_loop save recv_len (xm_send NAK x2)
           | XP_data bs \<Rightarrow>
               (case save (xm_saved x2) bs of
                  (failed, s) \<Rightarrow>
                    (if failed then Some (- 1, xm_send CAN (xm_send CAN (x2\<lparr>xm_saved := s\<rparr>)))
                     else xmodem_receive_loop save (recv_len + int (length bs))
                            (xm_send ACK (x2\<lparr>xm_saved := s\<rparr>))))))"

definition xmodem_receive ::
  "('s \<Rightarrow> u8 list \<Rightarrow> bool \<times> 's) \<Rightarrow> 's \<Rightarrow> xm_polls \<Rightarrow> (int \<times> 's xm_state) option" where
  "xmodem_receive save s polls =
     xmodem_receive_loop save 0 \<lparr>xm_polls = polls, xm_sent = [], xm_saved = s\<rparr>"

definition xmodem_init :: "bool \<Rightarrow> bool \<Rightarrow> errno option" where
  "xmodem_init has_get_char has_put_char =
     (if \<not> has_get_char \<or> \<not> has_put_char then Some EINVAL else None)"

end
