(* ===== verification/Xmodem_Props.thy ===== *)
theory Xmodem_Props
  imports Xmodem
begin

text \<open>
  The checksum as a division remainder that a frame cancels, and the receiver against a sender
  that follows the protocol.
\<close>

subsection \<open>The checksum\<close>

lemma crc_shift_bit: "crc_shift x = (if bit x 15 then push_bit 1 x XOR 0x1021 else push_bit 1 x)"
proof -
  have "(0x8000 :: u16) = 2 ^ 15" by simp
  then have "(x AND 0x8000 = 0) = (\<not> bit x 15)" using and_exp_eq_0_iff_not_bit[of x 15] by simp
  then show ?thesis by (simp add: crc_shift_def)
qed

lemma crc_shift_bit0: "bit (crc_shift x) 0 = bit x 15"
proof -
  have "\<not> bit (push_bit 1 x) 0" by (simp only: bit_push_bit_iff) simp
  then show ?thesis by (simp add: crc_shift_bit bit_xor_iff) (simp add: bit_simps)?
qed

lemma inj_crc_shift: "inj crc_shift"
proof (rule injI)
  fix x y assume eq: "crc_shift x = crc_shift y"
  then have msb: "bit x 15 = bit y 15" using crc_shift_bit0[of x] crc_shift_bit0[of y] by simp
  have push: "push_bit 1 x = push_bit 1 y"
  proof (cases "bit x 15")
    case True
    with eq msb have "(push_bit 1 x XOR 0x1021) XOR 0x1021 = (push_bit 1 y XOR 0x1021) XOR 0x1021"
      by (simp add: crc_shift_bit)
    then show ?thesis by (simp only: xor.assoc xor_self_eq xor.right_neutral)
  next
    case False
    with eq msb show ?thesis by (simp add: crc_shift_bit)
  qed
  show "x = y"
  proof (rule bit_word_eqI)
    fix n assume n: "n < LENGTH(16)"
    show "bit x n = bit y n"
    proof (cases "n = 15")
      case False
      with n have "Suc n < LENGTH(16)" by simp
      moreover have "bit (push_bit 1 x) (Suc n) = bit (push_bit 1 y) (Suc n)" by (simp only: push)
      ultimately show ?thesis by (simp only: bit_push_bit_iff possible_bit_word) simp
    qed (simp add: msb)
  qed
qed

lemma inj_crc_shift_8: "inj (crc_shift ^^ 8)"
  by (rule inj_fn[OF inj_crc_shift])

lemma crc_byte_state: "crc_byte c b = crc_byte d b \<longleftrightarrow> c = d"
proof
  assume "crc_byte c b = crc_byte d b"
  then have "c XOR push_bit 8 (ucast b) = d XOR push_bit 8 (ucast b)"
    unfolding crc_byte_def by (rule injD[OF inj_crc_shift_8])
  then have "(c XOR push_bit 8 (ucast b)) XOR push_bit 8 (ucast b) =
    (d XOR push_bit 8 (ucast b)) XOR push_bit 8 (ucast b)" by simp
  then show "c = d" by (simp only: xor.assoc xor_self_eq xor.right_neutral)
qed simp

lemma crc_byte_input: "crc_byte c a = crc_byte c b \<longleftrightarrow> a = b"
proof
  assume "crc_byte c a = crc_byte c b"
  then have "c XOR push_bit 8 (ucast a :: u16) = c XOR push_bit 8 (ucast b)"
    unfolding crc_byte_def by (rule injD[OF inj_crc_shift_8])
  then have "c XOR (c XOR push_bit 8 (ucast a :: u16)) = c XOR (c XOR push_bit 8 (ucast b))" by simp
  then have eq: "push_bit 8 (ucast a :: u16) = push_bit 8 (ucast b)"
    by (simp only: xor.assoc[symmetric] xor_self_eq xor.left_neutral)
  show "a = b"
  proof (rule bit_word_eqI)
    fix n assume "n < LENGTH(8)"
    moreover have "bit (push_bit 8 (ucast a :: u16)) (n + 8) = bit (push_bit 8 (ucast b :: u16)) (n + 8)"
      by (simp only: eq)
    ultimately show "bit a n = bit b n" by (simp add: bit_push_bit_iff bit_ucast_iff)
  qed
qed simp

lemma crc_fold_inj: "fold (\<lambda>b crc. crc_byte crc b) bs c = fold (\<lambda>b crc. crc_byte crc b) bs d \<longleftrightarrow> c = d"
  by (induction bs arbitrary: c d) (simp_all add: crc_byte_state)

text \<open>Two byte strings that differ in one place have different checksums.\<close>

lemma crc16_single_difference: "a \<noteq> b \<Longrightarrow> crc16 (xs @ a # ys) \<noteq> crc16 (xs @ b # ys)"
  by (simp add: crc16_def crc_fold_inj crc_byte_input)

text \<open>Appending the checksum, high byte first, gives checksum 0.\<close>

definition crc_hi :: "u16 \<Rightarrow> u8" where "crc_hi c = ucast (drop_bit 8 c)"
definition crc_lo :: "u16 \<Rightarrow> u8" where "crc_lo c = ucast c"

lemma crc_shifts_small: "k \<le> 8 \<Longrightarrow> (crc_shift ^^ k) (ucast (b :: u8)) = push_bit k (ucast b)"
proof (induction k)
  case (Suc k)
  then have "\<not> bit b (15 - k)" using bit_imp_le_length[of b "15 - k"] by auto
  then have "\<not> bit (push_bit k (ucast b :: u16)) 15" by (simp add: bit_push_bit_iff bit_ucast_iff)
  with Suc show ?case by (simp add: crc_shift_bit)
qed simp

lemma crc_cancel_hi: "c XOR push_bit 8 (ucast (crc_hi c)) = ucast (crc_lo c)"
proof (rule bit_word_eqI)
  fix n assume "n < LENGTH(16)"
  then show "bit (c XOR push_bit 8 (ucast (crc_hi c))) n = bit (ucast (crc_lo c) :: u16) n"
    by (auto simp: crc_hi_def crc_lo_def bit_xor_iff bit_push_bit_iff bit_ucast_iff bit_drop_bit_eq)
qed

lemma crc16_append_crc: "crc16 (bs @ [crc_hi (crc16 bs), crc_lo (crc16 bs)]) = 0"
proof -
  let ?c = "crc16 bs"
  have "crc_byte ?c (crc_hi ?c) = push_bit 8 (ucast (crc_lo ?c))"
    unfolding crc_byte_def crc_cancel_hi by (rule crc_shifts_small) simp
  moreover have "(crc_shift ^^ k) 0 = 0" for k
    by (induction k) (simp_all add: crc_shift_bit)
  ultimately show ?thesis by (simp add: crc16_def[of "bs @ _"] crc16_def[symmetric] crc_byte_def[of _ "crc_lo _"])
qed

subsection \<open>A sender that follows the protocol\<close>

definition on_line :: "u8 list \<Rightarrow> xm_polls" where
  "on_line bs = map (\<lambda>b. (Some b, 0)) bs"

text \<open>A packet with the payload \<open>w\<close>, which for an undamaged packet is the data and its checksum.\<close>

definition xm_packet :: "u8 \<Rightarrow> u8 list \<Rightarrow> u8 list" where
  "xm_packet seq w = (if length w = 130 then SOH else STX) # seq # (255 - seq) # w"

definition xm_payload :: "u8 list \<Rightarrow> u8 list" where
  "xm_payload bs = bs @ [crc_hi (crc16 bs), crc_lo (crc16 bs)]"

definition one_byte_off :: "u8 list \<Rightarrow> u8 list \<Rightarrow> bool" where
  "one_byte_off w w' \<longleftrightarrow> (\<exists>xs a b ys. w = xs @ a # ys \<and> w' = xs @ b # ys \<and> a \<noteq> b)"

lemma on_line_append [simp]: "on_line (as @ bs) = on_line as @ on_line bs"
  by (simp add: on_line_def)

lemma on_line_Cons: "on_line (b # bs) = (Some b, 0) # on_line bs"
  by (simp add: on_line_def)

lemma recv_bytes_on_line: "recv_bytes (length bs) (on_line bs @ rest) = (bs, rest)"
  by (induction bs) (simp_all add: on_line_def)

lemma seq_complement: "unat (seq :: u8) + unat (255 - seq) = 255"
proof -
  have "unat (255 - seq) = 255 - unat seq"
    using unsigned_less[of seq, where ?'a = nat] by (subst unat_sub) (simp_all add: word_le_nat_alt)
  with unsigned_less[of seq, where ?'a = nat] show ?thesis by simp
qed

lemma recv_pack_packet:
  assumes "length w = 130 \<or> length w = 1026"
  shows "recv_pack (on_line (xm_packet seq w) @ rest) =
    ((if crc16 w = 0 then XP_data (take (length w - 2) w) else XP_CRC), rest)"
proof -
  let ?h = "if length w = 130 then SOH else STX"
  have h: "?h \<noteq> EOT" "?h = SOH \<or> ?h = STX" "(?h = SOH) = (length w = 130)"
    by (simp_all add: SOH_def STX_def EOT_def)
  have n: "(if ?h = SOH then 128 else 1024) + 4 = length (seq # (255 - seq) # w)"
    using assms h(3) by auto
  have "recv_bytes ((if ?h = SOH then 128 else 1024) + 4) (on_line (seq # (255 - seq) # w) @ rest) =
      (seq # (255 - seq) # w, rest)"
    unfolding n by (rule recv_bytes_on_line)
  moreover have "take ((if ?h = SOH then 128 else 1024) + 2) w = w"
    "(if ?h = SOH then 128 else 1024) = length w - 2" using assms h(3) by auto
  ultimately show ?thesis
    using h by (auto simp: recv_pack_def xm_packet_def on_line_Cons seq_complement Let_def)
qed

lemma crc16_payload: "crc16 (xm_payload bs) = 0" "length (xm_payload bs) = length bs + 2"
  by (simp_all add: xm_payload_def crc16_append_crc)

lemma crc16_damaged: "one_byte_off (xm_payload bs) w \<Longrightarrow> crc16 w \<noteq> 0 \<and> length w = length bs + 2"
  using crc16_payload[of bs] crc16_single_difference
  by (auto simp: one_byte_off_def) metis+

text \<open>What is on the line for one block: damaged copies, then the undamaged packet.\<close>

definition xm_item :: "u8 list list \<times> u8 \<times> u8 list \<Rightarrow> xm_polls" where
  "xm_item it = (case it of (bads, seq, bs) \<Rightarrow>
     on_line (concat (map (xm_packet seq) bads)) @ on_line (xm_packet seq (xm_payload bs)))"

definition xm_item_ok :: "u8 list list \<times> u8 \<times> u8 list \<Rightarrow> bool" where
  "xm_item_ok it = (case it of (bads, seq, bs) \<Rightarrow>
     (length bs = 128 \<or> length bs = 1024) \<and> (\<forall>w \<in> set bads. one_byte_off (xm_payload bs) w))"

definition xm_block :: "u8 list list \<times> u8 \<times> u8 list \<Rightarrow> u8 list" where
  "xm_block it = snd (snd it)"

lemma xm_item_simps:
  "xm_item (bads, seq, bs) =
     on_line (concat (map (xm_packet seq) bads)) @ on_line (xm_packet seq (xm_payload bs))"
  "xm_item_ok (bads, seq, bs) \<longleftrightarrow>
     (length bs = 128 \<or> length bs = 1024) \<and> (\<forall>w \<in> set bads. one_byte_off (xm_payload bs) w)"
  by (simp_all add: xm_item_def xm_item_ok_def)

lemma xm_send_sel [simp]:
  "xm_polls (xm_send b x) = xm_polls x" "xm_saved (xm_send b x) = xm_saved x"
  "xm_send b (x\<lparr>xm_polls := p\<rparr>) = (xm_send b x)\<lparr>xm_polls := p\<rparr>"
  by (simp_all add: xm_send_def)

text \<open>Damaged packets are answered and dropped.\<close>

lemma receive_damaged:
  assumes "length bs = 128 \<or> length bs = 1024" "\<forall>w \<in> set bads. one_byte_off (xm_payload bs) w"
    "xm_polls x = on_line (concat (map (xm_packet seq) bads)) @ rest"
  shows "\<exists>x'. xmodem_receive_loop save n x = xmodem_receive_loop save n x' \<and>
    xm_polls x' = rest \<and> xm_saved x' = xm_saved x"
  using assms
proof (induction bads arbitrary: x)
  case (Cons w bads)
  let ?rest = "on_line (concat (map (xm_packet seq) bads)) @ rest"
  let ?x1 = "if n = 0 then xm_send CRC x else x"
  from Cons.prems(1,2) crc16_damaged[of bs w] have w: "crc16 w \<noteq> 0" "length w = 130 \<or> length w = 1026" by auto
  have "xm_polls ?x1 = on_line (xm_packet seq w) @ ?rest" using Cons.prems(3) by simp
  with recv_pack_packet[OF w(2), of seq ?rest] w(1) have "recv_pack (xm_polls ?x1) = (XP_CRC, ?rest)" by simp
  then have "xmodem_receive_loop save n x = xmodem_receive_loop save n (xm_send NAK (?x1\<lparr>xm_polls := ?rest\<rparr>))"
    by (subst xmodem_receive_loop.simps) (simp add: Let_def)
  moreover have "xm_polls (xm_send NAK (?x1\<lparr>xm_polls := ?rest\<rparr>)) = ?rest"
    "xm_saved (xm_send NAK (?x1\<lparr>xm_polls := ?rest\<rparr>)) = xm_saved x" by simp_all
  ultimately show ?case using Cons.IH[of "xm_send NAK (?x1\<lparr>xm_polls := ?rest\<rparr>)"] Cons.prems(1,2) by auto
qed (auto simp: on_line_def)

lemma receive_block:
  assumes "length bs = 128 \<or> length bs = 1024" "xm_polls x = on_line (xm_packet seq (xm_payload bs)) @ rest"
    "save (xm_saved x) bs = (False, s)"
  shows "\<exists>x'. xmodem_receive_loop save n x = xmodem_receive_loop save (n + int (length bs)) x' \<and>
    xm_polls x' = rest \<and> xm_saved x' = s"
proof -
  let ?x1 = "if n = 0 then xm_send CRC x else x"
  have l: "length (xm_payload bs) = 130 \<or> length (xm_payload bs) = 1026"
    using assms(1) crc16_payload(2)[of bs] by auto
  have "take (length (xm_payload bs) - 2) (xm_payload bs) = bs"
    by (simp add: crc16_payload(2)) (simp add: xm_payload_def)
  with recv_pack_packet[OF l, of seq rest] assms(2) crc16_payload(1)[of bs]
  have "recv_pack (xm_polls ?x1) = (XP_data bs, rest)" by simp
  then have "xmodem_receive_loop save n x =
      xmodem_receive_loop save (n + int (length bs)) (xm_send ACK (?x1\<lparr>xm_polls := rest, xm_saved := s\<rparr>))"
    using assms(3) by (subst xmodem_receive_loop.simps) (simp add: Let_def)
  then show ?thesis by (intro exI[of _ "xm_send ACK (?x1\<lparr>xm_polls := rest, xm_saved := s\<rparr>)"]) simp
qed

lemma receive_items:
  assumes "\<forall>it \<in> set items. xm_item_ok it" "\<forall>s bs. \<not> fst (save s bs)"
    "xm_polls x = concat (map xm_item items) @ (Some EOT, ms) # rest"
  shows "\<exists>x'. xmodem_receive_loop save n x = Some (n + int (sum_list (map (length \<circ> xm_block) items)), x') \<and>
    xm_saved x' = fold (\<lambda>it s. snd (save s (xm_block it))) items (xm_saved x)"
  using assms(1,3)
proof (induction items arbitrary: n x)
  case Nil
  then have "recv_pack (xm_polls x) = (XP_EOT, rest)" by (simp add: recv_pack_def)
  then show ?case by (subst xmodem_receive_loop.simps) (simp add: Let_def)
next
  case (Cons it items)
  obtain bads seq bs where it: "it = (bads, seq, bs)" by (metis prod.exhaust)
  let ?rest = "concat (map xm_item items) @ (Some EOT, ms) # rest"
  from Cons.prems it have ok: "length bs = 128 \<or> length bs = 1024" "\<forall>w \<in> set bads. one_byte_off (xm_payload bs) w"
    and p: "xm_polls x = on_line (concat (map (xm_packet seq) bads)) @ on_line (xm_packet seq (xm_payload bs)) @ ?rest"
    by (simp_all add: xm_item_simps)
  from receive_damaged[OF ok p, of save n] obtain x1 where x1:
    "xmodem_receive_loop save n x = xmodem_receive_loop save n x1"
    "xm_polls x1 = on_line (xm_packet seq (xm_payload bs)) @ ?rest" "xm_saved x1 = xm_saved x" by blast
  have "save (xm_saved x1) bs = (False, snd (save (xm_saved x1) bs))" using assms(2) by (simp add: prod_eq_iff)
  from receive_block[where save=save and s="snd (save (xm_saved x1) bs)" and x=x1, OF ok(1) x1(2) this, of n] obtain x2 where x2:
    "xmodem_receive_loop save n x1 = xmodem_receive_loop save (n + int (length bs)) x2"
    "xm_polls x2 = ?rest" "xm_saved x2 = snd (save (xm_saved x1) bs)" by blast
  from Cons.IH[OF _ x2(2), of "n + int (length bs)"] Cons.prems(1) x1 x2 show ?case
    by (auto simp: it xm_block_def)
qed

subsection \<open>Properties\<close>

text \<open>
  C14: Every damage confined to one byte is detected. If one byte of a packet's data or checksum is
  replaced by another value, \<open>recv_pack\<close> reports a checksum error and consumes exactly the packet,
  so that the receiver is ready for its retransmission.
\<close>

theorem xmodem_detects_single_byte:
  assumes "length bs = 128 \<or> length bs = 1024" "one_byte_off (xm_payload bs) w"
  shows "recv_pack (on_line (xm_packet seq w) @ rest) = (XP_CRC, rest)"
  using crc16_damaged[OF assms(2)] assms(1) recv_pack_packet[of w seq rest] by auto

theorem xmodem_detects_single_byte_witness:
  "fst (recv_pack (on_line (xm_packet 1 (1 # tl (xm_payload (replicate 128 0)))))) = XP_CRC"
proof -
  have "xm_payload (replicate 128 0) = 0 # tl (xm_payload (replicate 128 0))"
    by (simp add: xm_payload_def numeral_eq_Suc)
  then have "one_byte_off (xm_payload (replicate 128 0)) (1 # tl (xm_payload (replicate 128 0)))"
    unfolding one_byte_off_def by (metis append_Nil zero_neq_one)
  from xmodem_detects_single_byte[OF _ this, of 1 "[]"] show ?thesis by simp
qed



end
