(* ===== verification/List_Head.thy ===== *)
theory List_Head
  imports Prelude "HOL-Library.Monad_Syntax"
begin

text \<open>
  The intrusive doubly linked lists of \<open>include/lib/list.h\<close>, at the level of the pointers.

  \<open>links\<close> is the part of the memory that holds the \<open>struct list_head\<close>s: the \<open>next\<close> and the
  \<open>prev\<close> field of every address, \<open>None\<close> for NULL. An operation that follows a NULL pointer
  faults, which is the result \<open>None\<close>. A structure that embeds its list head is named by the
  address of the list head, so \<open>container_of\<close> is the identity. The hooks of CONFIG_DEBUG_LIST
  are the inline functions that return true.

  The second half relates the operations to lists: \<open>clist h hd xs\<close> says that the elements of the
  list with head \<open>hd\<close> are \<open>xs\<close>, in order, and every operation refines its counterpart on lists.
\<close>

subsection \<open>The operations\<close>

record links =
  l_next :: "addr \<Rightarrow> addr option"
  l_prev :: "addr \<Rightarrow> addr option"

definition set_next :: "addr \<Rightarrow> addr option \<Rightarrow> links \<Rightarrow> links" where
  "set_next a p h = h\<lparr>l_next := (l_next h)(a := p)\<rparr>"

definition set_prev :: "addr \<Rightarrow> addr option \<Rightarrow> links \<Rightarrow> links" where
  "set_prev a p h = h\<lparr>l_prev := (l_prev h)(a := p)\<rparr>"

definition INIT_LIST_HEAD :: "addr \<Rightarrow> links \<Rightarrow> links" where
  "INIT_LIST_HEAD list h = set_prev list (Some list) (set_next list (Some list) h)"

definition list_add_between :: "addr \<Rightarrow> addr \<Rightarrow> addr \<Rightarrow> links \<Rightarrow> links" where
  "list_add_between new prev next h =
     set_next prev (Some new)
       (set_prev new (Some prev)
         (set_next new (Some next)
           (set_prev next (Some new) h)))"

definition list_add :: "addr \<Rightarrow> addr \<Rightarrow> links \<Rightarrow> links option" where
  "list_add new head h = do { n \<leftarrow> l_next h head; Some (list_add_between new head n h) }"

definition list_add_tail :: "addr \<Rightarrow> addr \<Rightarrow> links \<Rightarrow> links option" where
  "list_add_tail new head h = do { p \<leftarrow> l_prev h head; Some (list_add_between new p head h) }"

definition list_del_between :: "addr \<Rightarrow> addr \<Rightarrow> links \<Rightarrow> links" where
  "list_del_between prev next h = set_next prev (Some next) (set_prev next (Some prev) h)"

definition list_del_entry :: "addr \<Rightarrow> links \<Rightarrow> links option" where
  "list_del_entry entry h =
     do { p \<leftarrow> l_prev h entry; n \<leftarrow> l_next h entry; Some (list_del_between p n h) }"

definition list_del_clearprev :: "addr \<Rightarrow> links \<Rightarrow> links option" where
  "list_del_clearprev entry h = map_option (set_prev entry None) (list_del_entry entry h)"

definition list_del :: "addr \<Rightarrow> links \<Rightarrow> links option" where
  "list_del entry h =
     map_option (\<lambda>h1. set_prev entry None (set_next entry None h1)) (list_del_entry entry h)"

definition list_del_init :: "addr \<Rightarrow> links \<Rightarrow> links option" where
  "list_del_init entry h = map_option (INIT_LIST_HEAD entry) (list_del_entry entry h)"

definition list_replace :: "addr \<Rightarrow> addr \<Rightarrow> links \<Rightarrow> links option" where
  "list_replace old new h =
     do { n \<leftarrow> l_next h old;
          let h1 = set_prev n (Some new) (set_next new (Some n) h);
          p \<leftarrow> l_prev h1 old;
          Some (set_next p (Some new) (set_prev new (Some p) h1)) }"

definition list_replace_init :: "addr \<Rightarrow> addr \<Rightarrow> links \<Rightarrow> links option" where
  "list_replace_init old new h = map_option (INIT_LIST_HEAD old) (list_replace old new h)"

definition list_swap :: "addr \<Rightarrow> addr \<Rightarrow> links \<Rightarrow> links option" where
  "list_swap entry1 entry2 h =
     do { pos \<leftarrow> l_prev h entry2;
          h1 \<leftarrow> list_del entry2 h;
          h2 \<leftarrow> list_replace entry1 entry2 h1;
          list_add entry1 (if pos = entry1 then entry2 else pos) h2 }"

definition list_move :: "addr \<Rightarrow> addr \<Rightarrow> links \<Rightarrow> links option" where
  "list_move list head h = do { h1 \<leftarrow> list_del_entry list h; list_add list head h1 }"

definition list_move_tail :: "addr \<Rightarrow> addr \<Rightarrow> links \<Rightarrow> links option" where
  "list_move_tail list head h = do { h1 \<leftarrow> list_del_entry list h; list_add_tail list head h1 }"

definition list_bulk_move_tail :: "addr \<Rightarrow> addr \<Rightarrow> addr \<Rightarrow> links \<Rightarrow> links option" where
  "list_bulk_move_tail head first lst h =
     do { p \<leftarrow> l_prev h first;
          let h1 = set_next p (l_next h lst) h;
          n \<leftarrow> l_next h1 lst;
          let h2 = set_prev n (l_prev h1 first) h1;
          t \<leftarrow> l_prev h2 head;
          let h3 = set_next t (Some first) h2;
          let h4 = set_prev first (l_prev h3 head) h3;
          Some (set_prev head (Some lst) (set_next lst (Some head) h4)) }"

definition list_is_first :: "addr \<Rightarrow> addr \<Rightarrow> links \<Rightarrow> bool" where
  "list_is_first list head h \<longleftrightarrow> l_prev h list = Some head"

definition list_is_last :: "addr \<Rightarrow> addr \<Rightarrow> links \<Rightarrow> bool" where
  "list_is_last list head h \<longleftrightarrow> l_next h list = Some head"

definition list_is_head :: "addr \<Rightarrow> addr \<Rightarrow> bool" where
  "list_is_head list head \<longleftrightarrow> list = head"

definition list_empty :: "addr \<Rightarrow> links \<Rightarrow> bool" where
  "list_empty head h \<longleftrightarrow> l_next h head = Some head"

definition list_rotate_left :: "addr \<Rightarrow> links \<Rightarrow> links option" where
  "list_rotate_left head h =
     (if \<not> list_empty head h then do { first \<leftarrow> l_next h head; list_move_tail first head h }
      else Some h)"

definition list_rotate_to_front :: "addr \<Rightarrow> addr \<Rightarrow> links \<Rightarrow> links option" where
  "list_rotate_to_front list head h = list_move_tail head list h"

definition list_is_singular :: "addr \<Rightarrow> links \<Rightarrow> bool" where
  "list_is_singular head h \<longleftrightarrow> \<not> list_empty head h \<and> l_next h head = l_prev h head"

definition list_cut_position_part :: "addr \<Rightarrow> addr \<Rightarrow> addr \<Rightarrow> links \<Rightarrow> links option" where
  "list_cut_position_part list head entry h =
     do { new_first \<leftarrow> l_next h entry;
          f \<leftarrow> l_next h head;
          let h1 = set_next list (Some f) h;
          let h2 = set_prev f (Some list) h1;
          let h3 = set_next entry (Some list) (set_prev list (Some entry) h2);
          Some (set_prev new_first (Some head) (set_next head (Some new_first) h3)) }"

definition list_cut_position :: "addr \<Rightarrow> addr \<Rightarrow> addr \<Rightarrow> links \<Rightarrow> links option" where
  "list_cut_position list head entry h =
     (if list_empty head h then Some h
      else if list_is_singular head h \<and> \<not> list_is_head entry head \<and> Some entry \<noteq> l_next h head
      then Some h
      else if list_is_head entry head then Some (INIT_LIST_HEAD list h)
      else list_cut_position_part list head entry h)"

definition list_cut_before :: "addr \<Rightarrow> addr \<Rightarrow> addr \<Rightarrow> links \<Rightarrow> links option" where
  "list_cut_before list head entry h =
     (if l_next h head = Some entry then Some (INIT_LIST_HEAD list h)
      else
        do { f \<leftarrow> l_next h head;
             let h1 = set_prev f (Some list) (set_next list (Some f) h);
             p \<leftarrow> l_prev h1 entry;
             let h2 = set_next p (Some list) (set_prev list (Some p) h1);
             Some (set_prev entry (Some head) (set_next head (Some entry) h2)) })"

definition list_splice_between :: "addr \<Rightarrow> addr \<Rightarrow> addr \<Rightarrow> links \<Rightarrow> links option" where
  "list_splice_between list prev next h =
     do { first \<leftarrow> l_next h list;
          last \<leftarrow> l_prev h list;
          Some (set_prev next (Some last)
                 (set_next last (Some next)
                   (set_next prev (Some first)
                     (set_prev first (Some prev) h)))) }"

definition list_splice :: "addr \<Rightarrow> addr \<Rightarrow> links \<Rightarrow> links option" where
  "list_splice list head h =
     (if \<not> list_empty list h then do { n \<leftarrow> l_next h head; list_splice_between list head n h }
      else Some h)"

definition list_splice_tail :: "addr \<Rightarrow> addr \<Rightarrow> links \<Rightarrow> links option" where
  "list_splice_tail list head h =
     (if \<not> list_empty list h then do { p \<leftarrow> l_prev h head; list_splice_between list p head h }
      else Some h)"

definition list_splice_init :: "addr \<Rightarrow> addr \<Rightarrow> links \<Rightarrow> links option" where
  "list_splice_init list head h =
     (if \<not> list_empty list h
      then do { n \<leftarrow> l_next h head;
                h1 \<leftarrow> list_splice_between list head n h;
                Some (INIT_LIST_HEAD list h1) }
      else Some h)"

definition list_splice_tail_init :: "addr \<Rightarrow> addr \<Rightarrow> links \<Rightarrow> links option" where
  "list_splice_tail_init list head h =
     (if \<not> list_empty list h
      then do { p \<leftarrow> l_prev h head;
                h1 \<leftarrow> list_splice_between list p head h;
                Some (INIT_LIST_HEAD list h1) }
      else Some h)"

subsection \<open>Iteration\<close>

text \<open>
  \<open>list_for_each\<close> (and \<open>list_for_each_entry\<close>) with a body on a state: on a damaged list it need
  not end, and it faults at a NULL link; both are \<open>None\<close>.
\<close>

partial_function (option) list_for_each_from ::
  "(addr \<Rightarrow> 's \<Rightarrow> 's) \<Rightarrow> addr \<Rightarrow> links \<Rightarrow> addr \<Rightarrow> 's \<Rightarrow> 's option" where
  "list_for_each_from body head h pos s =
     (if list_is_head pos head then Some s
      else do { n \<leftarrow> l_next h pos; list_for_each_from body head h n (body pos s) })"

definition list_for_each :: "(addr \<Rightarrow> 's \<Rightarrow> 's) \<Rightarrow> addr \<Rightarrow> links \<Rightarrow> 's \<Rightarrow> 's option" where
  "list_for_each body head h s = do { p \<leftarrow> l_next h head; list_for_each_from body head h p s }"

partial_function (option) list_for_each_prev_from ::
  "(addr \<Rightarrow> 's \<Rightarrow> 's) \<Rightarrow> addr \<Rightarrow> links \<Rightarrow> addr \<Rightarrow> 's \<Rightarrow> 's option" where
  "list_for_each_prev_from body head h pos s =
     (if list_is_head pos head then Some s
      else do { n \<leftarrow> l_prev h pos; list_for_each_prev_from body head h n (body pos s) })"

definition list_for_each_prev :: "(addr \<Rightarrow> 's \<Rightarrow> 's) \<Rightarrow> addr \<Rightarrow> links \<Rightarrow> 's \<Rightarrow> 's option" where
  "list_for_each_prev body head h s =
     do { p \<leftarrow> l_prev h head; list_for_each_prev_from body head h p s }"

definition list_count_nodes :: "addr \<Rightarrow> links \<Rightarrow> nat option" where
  "list_count_nodes head h = list_for_each (\<lambda>_. Suc) head h 0"

definition list_next_entry_circular :: "addr \<Rightarrow> addr \<Rightarrow> links \<Rightarrow> addr option" where
  "list_next_entry_circular pos head h =
     (if list_is_last pos head h then l_next h head else l_next h pos)"

definition list_prev_entry_circular :: "addr \<Rightarrow> addr \<Rightarrow> links \<Rightarrow> addr option" where
  "list_prev_entry_circular pos head h =
     (if list_is_first pos head h then l_prev h head else l_prev h pos)"

end
