(* ===== verification/List_Head_Props.thy ===== *)
theory List_Head_Props
  imports List_Head
begin

text \<open>
  What the list operations do to the lists they represent. \<open>seg h a xs b\<close> says that \<open>next\<close> leads
  from \<open>a\<close> over \<open>xs\<close> to \<open>b\<close> and \<open>prev\<close> back; a list with head \<open>q\<close> is a segment from \<open>q\<close> to
  itself. \<open>same_but S\<close> says that an operation wrote at addresses of \<open>S\<close> only, so that every list
  apart from \<open>S\<close> is kept (\<open>clist_frame\<close>).
\<close>

subsection \<open>Segments and lists\<close>

fun seg :: "links \<Rightarrow> addr \<Rightarrow> addr list \<Rightarrow> addr \<Rightarrow> bool" where
  "seg h a [] b \<longleftrightarrow> l_next h a = Some b \<and> l_prev h b = Some a"
| "seg h a (x # xs) b \<longleftrightarrow> l_next h a = Some x \<and> l_prev h x = Some a \<and> seg h x xs b"

definition clist :: "links \<Rightarrow> addr \<Rightarrow> addr list \<Rightarrow> bool" where
  "clist h q xs \<longleftrightarrow> distinct (q # xs) \<and> seg h q xs q"

definition same_but :: "addr set \<Rightarrow> links \<Rightarrow> links \<Rightarrow> bool" where
  "same_but S h h' \<longleftrightarrow> (\<forall>a. a \<notin> S \<longrightarrow> l_next h' a = l_next h a \<and> l_prev h' a = l_prev h a)"

named_theorems link_simps

lemma set_next_sel [simp, link_simps]:
  "l_next (set_next a p h) x = (if x = a then p else l_next h x)"
  "l_prev (set_next a p h) x = l_prev h x"
  by (simp_all add: set_next_def)

lemma set_prev_sel [simp, link_simps]:
  "l_prev (set_prev a p h) x = (if x = a then p else l_prev h x)"
  "l_next (set_prev a p h) x = l_next h x"
  by (simp_all add: set_prev_def)

lemma seg_cong:
  assumes "\<forall>y \<in> insert a (set xs). l_next h' y = l_next h y"
    "\<forall>y \<in> insert b (set xs). l_prev h' y = l_prev h y"
  shows "seg h' a xs b = seg h a xs b"
  using assms by (induction xs arbitrary: a) auto

lemma seg_set_next [simp]: "u \<noteq> a \<Longrightarrow> u \<notin> set xs \<Longrightarrow> seg (set_next u p h) a xs b = seg h a xs b"
  by (rule seg_cong) auto

lemma seg_set_prev [simp]: "u \<noteq> b \<Longrightarrow> u \<notin> set xs \<Longrightarrow> seg (set_prev u p h) a xs b = seg h a xs b"
  by (rule seg_cong) auto

lemma seg_append: "seg h a (xs @ x # ys) b \<longleftrightarrow> seg h a xs x \<and> seg h x ys b"
  by (induction xs arbitrary: a) auto

lemma seg_prev_last: "seg h a xs b \<Longrightarrow> l_prev h b = Some (last (a # xs))"
  by (induction xs arbitrary: a) auto

lemma seg_next_hd: "seg h a xs b \<Longrightarrow> l_next h a = Some (hd (xs @ [b]))"
  by (cases xs) auto

lemma clist_next_prev:
  assumes "clist h q xs"
  shows "l_next h q = Some (hd (xs @ [q]))" "l_prev h q = Some (last (q # xs))"
  using assms seg_next_hd seg_prev_last by (auto simp: clist_def)

lemma clist_split:
  "clist h q (ys @ x # zs) \<longleftrightarrow>
     distinct (q # ys @ x # zs) \<and> seg h q ys x \<and> seg h x zs q"
  by (auto simp: clist_def seg_append)

lemma seg_unique:
  assumes "seg h a xs q" "seg h a ys q" "q \<notin> set xs" "q \<notin> set ys"
  shows "xs = ys"
  using assms
proof (induction xs arbitrary: a ys)
  case Nil
  then show ?case by (cases ys) auto
next
  case (Cons x xs)
  then show ?case by (cases ys) auto
qed

lemma clist_unique: "clist h q xs \<Longrightarrow> clist h q ys \<Longrightarrow> xs = ys"
  using seg_unique by (auto simp: clist_def)

lemma same_but_refl [simp, intro]: "same_but S h h"
  by (simp add: same_but_def)

lemma same_but_trans: "same_but S h h' \<Longrightarrow> same_but S h' h'' \<Longrightarrow> same_but S h h''"
  by (simp add: same_but_def)

lemma same_but_mono: "same_but S h h' \<Longrightarrow> S \<subseteq> T \<Longrightarrow> same_but T h h'"
  by (auto simp: same_but_def)

lemma same_but_set [simp]:
  "a \<in> S \<Longrightarrow> same_but S h (set_next a p h') = same_but S h h'"
  "a \<in> S \<Longrightarrow> same_but S h (set_prev a p h') = same_but S h h'"
  by (auto simp: same_but_def)

lemma clist_frame:
  assumes "same_but S h h'" "S \<inter> set (q # xs) = {}"
  shows "clist h' q xs = clist h q xs"
proof -
  have "\<forall>y \<in> insert q (set xs). l_next h' y = l_next h y \<and> l_prev h' y = l_prev h y"
    using assms by (auto simp: same_but_def)
  then have "seg h' q xs q = seg h q xs q" by (intro seg_cong) auto
  then show ?thesis by (simp add: clist_def)
qed

lemma INIT_LIST_HEAD_clist: "clist (INIT_LIST_HEAD a h) a []"
  by (simp add: clist_def INIT_LIST_HEAD_def)

lemma INIT_LIST_HEAD_same [simp]: "a \<in> S \<Longrightarrow> same_but S h (INIT_LIST_HEAD a h') = same_but S h h'"
  by (simp add: INIT_LIST_HEAD_def)

subsection \<open>The pointer surgery\<close>

lemma seg_ins:
  assumes "seg h a (ys @ zs) c" "distinct (ys @ zs)" "a \<notin> set (ys @ zs)" "c \<notin> set (ys @ zs)"
    "new \<notin> insert a (insert c (set (ys @ zs)))"
  shows "seg (list_add_between new (last (a # ys)) (hd (zs @ [c])) h) a (ys @ new # zs) c"
  using assms
  by (cases ys rule: rev_cases; cases zs) (auto simp: list_add_between_def seg_append)

lemma seg_del:
  assumes "seg h a ys b" "seg h b zs c" "distinct (ys @ b # zs)"
    "a \<notin> set (ys @ b # zs)" "c \<notin> set (ys @ b # zs)"
  shows "seg (list_del_between (last (a # ys)) (hd (zs @ [c])) h) a (ys @ zs) c"
  using assms
  by (cases ys rule: rev_cases; cases zs) (auto simp: list_del_between_def seg_append)

lemma last_in: "last (a # ys) \<in> insert a (set ys)"
  by (induction ys rule: rev_induct) auto

lemma hd_in: "hd (zs @ [c]) \<in> insert c (set zs)"
  by (cases zs) auto

lemma list_add_between_same:
  "{new, p, n} \<subseteq> S \<Longrightarrow> same_but S h (list_add_between new p n h)"
  by (simp add: list_add_between_def)

lemma list_del_between_same: "{p, n} \<subseteq> S \<Longrightarrow> same_but S h (list_del_between p n h)"
  by (simp add: list_del_between_def)

subsection \<open>Insertion and deletion\<close>

lemma list_add_clist:
  assumes "clist h q xs" "new \<notin> set (q # xs)"
  shows "\<exists>h'. list_add new q h = Some h' \<and> clist h' q (new # xs) \<and>
    same_but (set (q # new # xs)) h h'"
proof -
  let ?h = "list_add_between new q (hd (xs @ [q])) h"
  have "seg ?h q (new # xs) q" using seg_ins[of h q "[]" xs q new] assms by (auto simp: clist_def)
  moreover have "same_but (set (q # new # xs)) h ?h"
    by (intro list_add_between_same) (use hd_in[of xs q] in auto)
  ultimately show ?thesis
    using assms clist_next_prev[OF assms(1)] by (auto simp: list_add_def clist_def)
qed

lemma list_add_tail_clist:
  assumes "clist h q xs" "new \<notin> set (q # xs)"
  shows "\<exists>h'. list_add_tail new q h = Some h' \<and> clist h' q (xs @ [new]) \<and>
    same_but (set (q # new # xs)) h h'"
proof -
  let ?h = "list_add_between new (last (q # xs)) q h"
  have "seg ?h q (xs @ [new]) q" using seg_ins[of h q xs "[]" q new] assms by (auto simp: clist_def)
  moreover have "same_but (set (q # new # xs)) h ?h"
    by (intro list_add_between_same) (use last_in[of q xs] in auto)
  ultimately show ?thesis
    using assms clist_next_prev[OF assms(1)] by (auto simp: list_add_tail_def clist_def)
qed

lemma list_del_entry_clist:
  assumes "clist h q (ys @ x # zs)"
  shows "\<exists>h'. list_del_entry x h = Some h' \<and> clist h' q (ys @ zs) \<and>
    same_but (set (q # ys @ zs)) h h'"
proof -
  let ?h = "list_del_between (last (q # ys)) (hd (zs @ [q])) h"
  from assms have s: "seg h q ys x" "seg h x zs q" "distinct (q # ys @ x # zs)"
    by (auto simp: clist_split)
  then have "seg ?h q (ys @ zs) q" using seg_del[of h q ys x zs q] by auto
  moreover have "same_but (set (q # ys @ zs)) h ?h"
    by (intro list_del_between_same) (use last_in[of q ys] hd_in[of zs q] in auto)
  ultimately show ?thesis
    using s seg_prev_last[OF s(1)] seg_next_hd[OF s(2)] by (auto simp: list_del_entry_def clist_def)
qed

text \<open>Writing the links of a node that is on no list.\<close>

lemma clist_set_out:
  "u \<notin> set (q # xs) \<Longrightarrow> clist (set_next u p h) q xs = clist h q xs"
  "u \<notin> set (q # xs) \<Longrightarrow> clist (set_prev u p h) q xs = clist h q xs"
  "u \<notin> set (q # xs) \<Longrightarrow> clist (INIT_LIST_HEAD u h) q xs = clist h q xs"
  by (auto simp: clist_def INIT_LIST_HEAD_def)

lemma list_del_clist:
  assumes "clist h q (ys @ x # zs)"
  shows "\<exists>h'. list_del x h = Some h' \<and> clist h' q (ys @ zs) \<and> l_next h' x = None \<and>
    l_prev h' x = None \<and> same_but (set (q # ys @ x # zs)) h h'"
proof -
  from list_del_entry_clist[OF assms] obtain h1 where h1: "list_del_entry x h = Some h1"
    "clist h1 q (ys @ zs)" "same_but (set (q # ys @ zs)) h h1" by blast
  have "x \<notin> set (q # ys @ zs)" using assms by (auto simp: clist_def)
  moreover have "same_but (set (q # ys @ x # zs)) h h1" by (rule same_but_mono[OF h1(3)]) auto
  ultimately show ?thesis using h1 by (simp add: list_del_def clist_set_out)
qed

lemma list_del_init_clist:
  assumes "clist h q (ys @ x # zs)"
  shows "\<exists>h'. list_del_init x h = Some h' \<and> clist h' q (ys @ zs) \<and> clist h' x [] \<and>
    same_but (set (q # ys @ x # zs)) h h'"
proof -
  from list_del_entry_clist[OF assms] obtain h1 where h1: "list_del_entry x h = Some h1"
    "clist h1 q (ys @ zs)" "same_but (set (q # ys @ zs)) h h1" by blast
  have "x \<notin> set (q # ys @ zs)" using assms by (auto simp: clist_def)
  moreover have "same_but (set (q # ys @ x # zs)) h h1" by (rule same_but_mono[OF h1(3)]) auto
  ultimately show ?thesis using h1 by (simp add: list_del_init_def clist_set_out INIT_LIST_HEAD_clist)
qed

text \<open>A node initialised by \<open>INIT_LIST_HEAD\<close> may be deleted: nothing but its links changes.\<close>

lemma list_del_self:
  assumes "clist h x []"
  shows "\<exists>h'. list_del x h = Some h' \<and> same_but {x} h h'"
  using assms by (auto simp: clist_def list_del_def list_del_entry_def list_del_between_def)

lemma list_empty_clist: "clist h q xs \<Longrightarrow> list_empty q h \<longleftrightarrow> xs = []"
  by (cases xs) (auto simp: clist_def list_empty_def)

lemma list_is_last_clist:
  assumes "clist h q (ys @ x # zs)"
  shows "list_is_last x q h \<longleftrightarrow> zs = []" "list_is_first x q h \<longleftrightarrow> ys = []"
proof -
  from assms have s: "seg h q ys x" "seg h x zs q" "distinct (q # ys @ x # zs)"
    by (auto simp: clist_split)
  show "list_is_last x q h \<longleftrightarrow> zs = []"
    using seg_next_hd[OF s(2)] s(3) by (cases zs) (auto simp: list_is_last_def)
  show "list_is_first x q h \<longleftrightarrow> ys = []"
    using seg_prev_last[OF s(1)] s(3) by (cases ys rule: rev_cases) (auto simp: list_is_first_def)
qed

lemma list_is_singular_clist: "clist h q xs \<Longrightarrow> list_is_singular q h \<longleftrightarrow> length xs = 1"
proof -
  assume c: "clist h q xs"
  show ?thesis
  proof (cases xs)
    case (Cons y ys)
    with c show ?thesis
      by (cases ys rule: rev_cases) (auto simp: clist_def list_is_singular_def list_empty_def seg_append)
  qed (use c in \<open>auto simp: clist_def list_is_singular_def list_empty_def\<close>)
qed

lemma list_next_entry_circular_clist:
  assumes "clist h q (ys @ x # zs)"
  shows "list_next_entry_circular x q h = Some (hd (zs @ ys @ [x]))"
proof (cases zs)
  case Nil
  have "l_next h q = Some (hd ((ys @ x # zs) @ [q]))" by (rule clist_next_prev[OF assms])
  moreover have "hd ((ys @ x # zs) @ [q]) = hd (ys @ [x])" by (cases ys) auto
  ultimately show ?thesis using assms Nil by (simp add: list_next_entry_circular_def list_is_last_clist)
next
  case (Cons z zs')
  with assms show ?thesis by (auto simp: list_next_entry_circular_def list_is_last_def clist_split)
qed

subsection \<open>Moving and replacing\<close>

lemma list_replace_clist:
  assumes "clist h q (ys @ x # zs)" "new \<notin> set (q # ys @ x # zs)"
  shows "\<exists>h'. list_replace x new h = Some h' \<and> clist h' q (ys @ new # zs) \<and>
    same_but (set (q # new # ys @ x # zs)) h h'"
proof -
  from assms have s: "seg h q ys x" "seg h x zs q" "distinct (q # ys @ x # zs)"
    by (auto simp: clist_split)
  let ?p = "last (q # ys)" and ?n = "hd (zs @ [q])"
  let ?h = "set_next ?p (Some new) (set_prev new (Some ?p) (set_prev ?n (Some new) (set_next new (Some ?n) h)))"
  have nx: "?n \<noteq> x" using hd_in[of zs q] s(3) by auto
  have "list_replace x new h = Some ?h"
    using seg_prev_last[OF s(1)] seg_next_hd[OF s(2)] nx assms(2)
    by (auto simp: list_replace_def Let_def)
  moreover have "clist ?h q (ys @ new # zs)"
    using s assms(2) unfolding clist_split
    by (cases ys rule: rev_cases; cases zs) (auto simp: seg_append)
  moreover have "same_but (set (q # new # ys @ x # zs)) h ?h"
    using last_in[of q ys] hd_in[of zs q] by auto
  ultimately show ?thesis by blast
qed

lemma list_move_clist:
  assumes "clist h q (ys @ x # zs)"
  shows "\<exists>h'. list_move x q h = Some h' \<and> clist h' q (x # ys @ zs) \<and>
    same_but (set (q # ys @ x # zs)) h h'"
proof -
  from list_del_entry_clist[OF assms] obtain h1 where h1: "list_del_entry x h = Some h1"
    "clist h1 q (ys @ zs)" "same_but (set (q # ys @ zs)) h h1" by blast
  have "x \<notin> set (q # ys @ zs)" using assms by (auto simp: clist_def)
  from list_add_clist[OF h1(2) this] obtain h2 where h2: "list_add x q h1 = Some h2"
    "clist h2 q (x # ys @ zs)" "same_but (set (q # x # ys @ zs)) h1 h2" by blast
  have "same_but (set (q # ys @ x # zs)) h h2"
    by (rule same_but_trans[OF same_but_mono[OF h1(3)] same_but_mono[OF h2(3)]]) auto
  with h1 h2 show ?thesis by (simp add: list_move_def)
qed

lemma list_move_tail_clist:
  assumes "clist h q (ys @ x # zs)"
  shows "\<exists>h'. list_move_tail x q h = Some h' \<and> clist h' q (ys @ zs @ [x]) \<and>
    same_but (set (q # ys @ x # zs)) h h'"
proof -
  from list_del_entry_clist[OF assms] obtain h1 where h1: "list_del_entry x h = Some h1"
    "clist h1 q (ys @ zs)" "same_but (set (q # ys @ zs)) h h1" by blast
  have "x \<notin> set (q # ys @ zs)" using assms by (auto simp: clist_def)
  from list_add_tail_clist[OF h1(2) this] obtain h2 where h2: "list_add_tail x q h1 = Some h2"
    "clist h2 q (ys @ zs @ [x])" "same_but (set (q # x # ys @ zs)) h1 h2" by auto
  have "same_but (set (q # ys @ x # zs)) h h2"
    by (rule same_but_trans[OF same_but_mono[OF h1(3)] same_but_mono[OF h2(3)]]) auto
  with h1 h2 show ?thesis by (simp add: list_move_tail_def)
qed

lemma list_rotate_left_clist:
  assumes "clist h q xs"
  shows "\<exists>h'. list_rotate_left q h = Some h' \<and> clist h' q (rotate1 xs)"
proof (cases xs)
  case Nil
  with assms show ?thesis by (simp add: list_rotate_left_def list_empty_clist[OF assms])
next
  case (Cons x ys)
  with assms clist_next_prev[OF assms] list_move_tail_clist[of h q "[]" x ys]
  show ?thesis by (auto simp: list_rotate_left_def list_empty_clist[OF assms])
qed

text \<open>A circular list may be entered at any of its nodes.\<close>

lemma clist_turn: "clist h q (ys @ x # zs) \<longleftrightarrow> clist h x (zs @ q # ys)"
  by (auto simp: clist_split)

lemma list_rotate_to_front_clist:
  assumes "clist h q (ys @ x # zs)"
  shows "\<exists>h'. list_rotate_to_front x q h = Some h' \<and> clist h' q (x # zs @ ys)"
proof -
  from assms have "clist h x (zs @ q # ys)" by (simp only: clist_turn)
  from list_move_tail_clist[OF this] obtain h' where h': "list_move_tail q x h = Some h'"
    "clist h' x ((zs @ ys) @ q # [])" by auto
  from h'(2) have "clist h' q ([] @ x # zs @ ys)" by (simp only: clist_turn)
  with h'(1) show ?thesis by (simp add: list_rotate_to_front_def)
qed

subsection \<open>Splicing and cutting\<close>

lemma seg_splice:
  assumes "seg h a (ys @ zs) c" "distinct (ys @ zs)" "a \<notin> set (ys @ zs)" "c \<notin> set (ys @ zs)"
    "clist h l xs" "xs \<noteq> []" "set (l # xs) \<inter> insert a (insert c (set (ys @ zs))) = {}"
  shows "\<exists>h'. list_splice_between l (last (a # ys)) (hd (zs @ [c])) h = Some h' \<and>
    seg h' a (ys @ xs @ zs) c \<and> same_but (insert a (insert c (set (ys @ xs @ zs)))) h h'"
proof -
  let ?p = "last (a # ys)" and ?n = "hd (zs @ [c])" and ?f = "hd xs" and ?l = "last xs"
  let ?h = "set_prev ?n (Some ?l) (set_next ?l (Some ?n) (set_next ?p (Some ?f) (set_prev ?f (Some ?p) h)))"
  from assms(6) obtain x xs' where x: "xs = x # xs'" by (cases xs) auto
  have n: "l_next h l = Some ?f" "l_prev h l = Some ?l"
    using clist_next_prev[OF assms(5)] assms(6) by simp_all
  have e: "list_splice_between l ?p ?n h = Some ?h" using n by (simp add: list_splice_between_def)
  have inner: "\<And>u v. seg h l xs u \<Longrightarrow> distinct xs \<Longrightarrow> u \<notin> set xs \<Longrightarrow> l \<notin> set xs \<Longrightarrow> v \<notin> set xs \<Longrightarrow> w \<notin> set xs \<Longrightarrow>
      seg (set_prev w (Some (last xs)) (set_next (last xs) (Some w) (set_next v (Some (hd xs)) (set_prev (hd xs) (Some v) h)))) v xs w" for w
    unfolding x by (cases xs' rule: rev_cases) (auto simp: seg_append)
  have d: "distinct xs" "l \<notin> set xs" "seg h l xs l" using assms(5) by (auto simp: clist_def)
  have pn: "?p \<notin> set xs" "?n \<notin> set xs" using last_in[of a ys] hd_in[of zs c] assms(7) by auto
  have m: "seg ?h ?p xs ?n" by (rule inner[OF d(3) d(1) d(2) d(2) pn])
  have fl: "?f \<in> set xs" "?l \<in> set xs" using assms(6) by simp_all
  have out: "?f \<notin> insert a (insert c (set (ys @ zs)))" "?l \<notin> insert a (insert c (set (ys @ zs)))"
    using disjoint_iff[THEN iffD1, OF assms(7)] fl by (metis list.set_intros(2))+
  define H where "H = ?h"
  have m': "seg H ?p xs ?n" unfolding H_def by (rule m)
  have fr: "seg H u us v = seg h u us v"
    if "?l \<notin> insert u (set us)" "?p \<notin> insert u (set us)" "?n \<notin> insert v (set us)" "?f \<notin> insert v (set us)"
    for u us v
    by (rule seg_cong) (use that in \<open>auto simp: H_def\<close>)
  have left: "seg H a ys' y" if "ys = ys' @ [y]" for ys' y
    using assms(1-4) that out hd_in[of zs c] by (subst fr) (auto simp: seg_append)
  have right: "seg H z zs' c" if "zs = z # zs'" for z zs'
    using assms(1-4) that out last_in[of a ys] by (subst fr) (auto simp: seg_append)
  have "seg H a (ys @ xs @ zs) c"
  proof (cases ys rule: rev_cases)
    case Nil
    with m' right show ?thesis by (cases zs) (auto simp: seg_append)
  next
    case (snoc ys' y)
    with m' right left[OF snoc] show ?thesis by (cases zs) (auto simp: seg_append)
  qed
  moreover have "same_but (insert a (insert c (set (ys @ xs @ zs)))) h ?h"
    using last_in[of a ys] hd_in[of zs c] fl by auto
  ultimately show ?thesis using e by (auto simp: H_def)
qed

lemma list_splice_clist:
  assumes "clist h q ys" "clist h l xs" "set (l # xs) \<inter> set (q # ys) = {}"
  shows "\<exists>h'. list_splice l q h = Some h' \<and> clist h' q (xs @ ys) \<and> same_but (set (q # xs @ ys)) h h'"
proof (cases "xs = []")
  case False
  from assms seg_splice[of h q "[]" ys q l xs, OF _ _ _ _ assms(2) False] obtain h' where
    "list_splice_between l q (hd (ys @ [q])) h = Some h'" "seg h' q (xs @ ys) q"
    "same_but (set (q # xs @ ys)) h h'" by (auto simp: clist_def)
  with assms False clist_next_prev[OF assms(1)] show ?thesis
    by (auto simp: list_splice_def list_empty_clist[OF assms(2)] clist_def)
qed (use assms in \<open>auto simp: list_splice_def list_empty_clist[OF assms(2)]\<close>)

lemma list_splice_tail_clist:
  assumes "clist h q ys" "clist h l xs" "set (l # xs) \<inter> set (q # ys) = {}"
  shows "\<exists>h'. list_splice_tail l q h = Some h' \<and> clist h' q (ys @ xs) \<and> same_but (set (q # xs @ ys)) h h'"
proof (cases "xs = []")
  case False
  from assms seg_splice[of h q ys "[]" q l xs, OF _ _ _ _ assms(2) False] obtain h' where
    "list_splice_between l (last (q # ys)) q h = Some h'" "seg h' q (ys @ xs) q"
    "same_but (set (q # xs @ ys)) h h'" by (auto simp: clist_def Un_commute)
  with assms False clist_next_prev[OF assms(1)] show ?thesis
    by (auto simp: list_splice_tail_def list_empty_clist[OF assms(2)] clist_def)
qed (use assms in \<open>auto simp: list_splice_tail_def list_empty_clist[OF assms(2)]\<close>)

text \<open>The \<open>_init\<close> forms do the same and empty the spliced list.\<close>

lemma list_splice_init_eq:
  assumes "clist h l xs" "xs \<noteq> []"
  shows "list_splice_init l q h = map_option (INIT_LIST_HEAD l) (list_splice l q h)"
    "list_splice_tail_init l q h = map_option (INIT_LIST_HEAD l) (list_splice_tail l q h)"
  using assms by (auto simp: list_splice_init_def list_splice_tail_init_def list_splice_def
      list_splice_tail_def list_empty_clist[OF assms(1)] map_option_case split: option.splits bind_splits)

lemma list_splice_init_clist:
  assumes "clist h q ys" "clist h l xs" "set (l # xs) \<inter> set (q # ys) = {}"
  shows "\<exists>h'. list_splice_init l q h = Some h' \<and> clist h' q (xs @ ys) \<and> clist h' l []"
    "\<exists>h'. list_splice_tail_init l q h = Some h' \<and> clist h' q (ys @ xs) \<and> clist h' l []"
proof -
  have l: "l \<notin> set (q # xs @ ys)" "l \<notin> set (q # ys @ xs)" using assms by (auto simp: clist_def)
  show "\<exists>h'. list_splice_init l q h = Some h' \<and> clist h' q (xs @ ys) \<and> clist h' l []"
  proof (cases "xs = []")
    case False
    with list_splice_clist[OF assms] l(1) show ?thesis
      by (auto simp: list_splice_init_eq[OF assms(2)] clist_set_out INIT_LIST_HEAD_clist)
  qed (use assms in \<open>auto simp: list_splice_init_def list_empty_clist[OF assms(2)]\<close>)
  show "\<exists>h'. list_splice_tail_init l q h = Some h' \<and> clist h' q (ys @ xs) \<and> clist h' l []"
  proof (cases "xs = []")
    case False
    with list_splice_tail_clist[OF assms] l(2) show ?thesis
      by (auto simp: list_splice_init_eq[OF assms(2)] clist_set_out INIT_LIST_HEAD_clist)
  qed (use assms in \<open>auto simp: list_splice_tail_init_def list_empty_clist[OF assms(2)]\<close>)
qed

lemma list_cut_before_clist:
  assumes "clist h q (xs @ e # ys)" "l \<notin> set (q # xs @ e # ys)"
  shows "\<exists>h'. list_cut_before l q e h = Some h' \<and> clist h' l xs \<and> clist h' q (e # ys)"
proof (cases xs)
  case Nil
  have "l_next h q = Some e" using clist_next_prev[OF assms(1)] Nil by simp
  with assms Nil show ?thesis
    by (auto simp: list_cut_before_def clist_set_out INIT_LIST_HEAD_clist)
next
  case (Cons x xs')
  from assms have s: "seg h q xs e" "seg h e ys q" "distinct (q # xs @ e # ys)"
    by (auto simp: clist_split)
  have n: "l_next h q = Some x" "l_prev h e = Some (last xs)"
    using s(1) seg_prev_last[OF s(1)] Cons by auto
  let ?h = "set_prev e (Some q) (set_next q (Some e) (set_next (last xs) (Some l)
    (set_prev l (Some (last xs)) (set_prev x (Some l) (set_next l (Some x) h)))))"
  have "list_cut_before l q e h = Some ?h"
    using n s(3) assms(2) Cons by (auto simp: list_cut_before_def Let_def)
  moreover have "clist ?h l xs"
    using s assms(2) unfolding clist_def Cons
    by (cases xs' rule: rev_cases) (auto simp: seg_append)
  moreover have "clist ?h q (e # ys)"
  proof -
    have "last xs \<in> set xs" using Cons by simp
    then have "last xs \<notin> set (q # e # ys)" "x \<notin> set (q # e # ys)" using s(3) Cons by auto
    then show ?thesis using s assms(2) by (auto simp: clist_def)
  qed
  ultimately show ?thesis by blast
qed

lemma list_cut_position_clist:
  assumes "clist h q (xs @ e # ys)" "l \<notin> set (q # xs @ e # ys)"
  shows "\<exists>h'. list_cut_position l q e h = Some h' \<and> clist h' l (xs @ [e]) \<and> clist h' q ys"
proof -
  from assms have s: "seg h q xs e" "seg h e ys q" "distinct (q # xs @ e # ys)"
    by (auto simp: clist_split)
  let ?f = "hd (xs @ [e])" and ?n = "hd (ys @ [q])"
  have n: "l_next h q = Some ?f" "l_next h e = Some ?n"
    using seg_next_hd[OF s(1)] seg_next_hd[OF s(2)] by auto
  have f: "?f \<in> set (xs @ [e])" "?n \<in> set (q # ys)" using hd_in[of xs e] hd_in[of ys q] by auto
  have nf: "?n \<notin> set (xs @ [e])" "?f \<notin> set (q # ys)" using f s(3) by auto
  let ?h = "set_prev ?n (Some q) (set_next q (Some ?n) (set_next e (Some l)
    (set_prev l (Some e) (set_prev ?f (Some l) (set_next l (Some ?f) h)))))"
  have sing: "list_is_singular q h \<Longrightarrow> xs = []"
    using list_is_singular_clist[OF assms(1)] by simp
  have "list_cut_position l q e h = Some ?h"
    using n s(3) sing by (auto simp: list_cut_position_def list_cut_position_part_def Let_def
        list_empty_clist[OF assms(1)] list_is_head_def)
  moreover have "clist ?h l (xs @ [e])"
    using s assms(2) f nf unfolding clist_def by (cases xs) (auto simp: seg_append)
  moreover have "clist ?h q ys"
    using s assms(2) f nf unfolding clist_def by (cases ys) auto
  ultimately show ?thesis by blast
qed

subsection \<open>Iteration\<close>

lemma list_for_each_from_head:
  "list_for_each_from body q h q s = Some s" "list_for_each_prev_from body q h q s = Some s"
  by (simp_all add: list_for_each_from.simps[of body q h q s] list_for_each_prev_from.simps[of body q h q s]
      list_is_head_def)

lemma list_for_each_from_seg:
  assumes "seg h a xs q" "q \<notin> set xs" "a \<noteq> q"
  shows "list_for_each_from body q h a s = Some (fold body (a # xs) s)"
  using assms
proof (induction xs arbitrary: a s)
  case Nil
  then have "l_next h a = Some q" by simp
  with Nil.prems(3) show ?case
    by (subst list_for_each_from.simps) (simp add: list_is_head_def list_for_each_from_head)
qed (subst list_for_each_from.simps, auto simp: list_is_head_def)

lemma list_for_each_clist:
  assumes "clist h q xs"
  shows "list_for_each body q h s = Some (fold body xs s)"
proof (cases xs)
  case Nil
  with assms show ?thesis
    by (simp add: list_for_each_def clist_def) (subst list_for_each_from.simps, simp add: list_is_head_def)
next
  case (Cons x ys)
  with assms show ?thesis
    using list_for_each_from_seg[of h x ys q body s] by (auto simp: list_for_each_def clist_def)
qed

lemma list_for_each_prev_from_seg:
  assumes "seg h q xs a" "q \<notin> set xs" "a \<noteq> q"
  shows "list_for_each_prev_from body q h a s = Some (fold body (a # rev xs) s)"
  using assms
proof (induction xs arbitrary: a s rule: rev_induct)
  case Nil
  then have "l_prev h a = Some q" by simp
  with Nil.prems(3) show ?case
    by (subst list_for_each_prev_from.simps) (simp add: list_is_head_def list_for_each_from_head)
next
  case (snoc x xs)
  then show ?case
    by (subst list_for_each_prev_from.simps) (auto simp: list_is_head_def seg_append)
qed

lemma list_for_each_prev_clist:
  assumes "clist h q xs"
  shows "list_for_each_prev body q h s = Some (fold body (rev xs) s)"
proof (cases xs rule: rev_cases)
  case Nil
  with assms show ?thesis
    by (simp add: list_for_each_prev_def clist_def)
      (subst list_for_each_prev_from.simps, simp add: list_is_head_def)
next
  case (snoc ys x)
  with assms show ?thesis
    using list_for_each_prev_from_seg[of h q ys x body s]
    by (auto simp: list_for_each_prev_def clist_def seg_append)
qed

lemma list_count_nodes_clist: "clist h q xs \<Longrightarrow> list_count_nodes q h = Some (length xs)"
proof -
  have "fold (\<lambda>_. Suc) xs n = length xs + n" for n by (induction xs arbitrary: n) auto
  then show "clist h q xs \<Longrightarrow> list_count_nodes q h = Some (length xs)"
    by (simp add: list_count_nodes_def list_for_each_clist)
qed

end
