(* ===== verification/List_Head_Claims.thy ===== *)
theory List_Head_Claims
  imports List_Head_Props
begin

text \<open>The properties of the intrusive lists, for every list whatever its nodes are embedded in.\<close>

definition demo_links :: links where
  "demo_links = \<lparr>l_next = [0 \<mapsto> 1, 1 \<mapsto> 2, 2 \<mapsto> 3, 3 \<mapsto> 0, 8 \<mapsto> 9, 9 \<mapsto> 8],
     l_prev = [1 \<mapsto> 0, 2 \<mapsto> 1, 3 \<mapsto> 2, 0 \<mapsto> 3, 9 \<mapsto> 8, 8 \<mapsto> 9]\<rparr>"

lemma demo_links: "clist demo_links 0 [1, 2, 3]" "clist demo_links 8 [9]"
  by (simp_all add: clist_def demo_links_def)

text \<open>
  C20: The pointer operations implement a queue and leave the other lists alone. On a list with the
  elements \<open>x # xs\<close>, adding a node at the tail and deleting the first one never follows a NULL
  pointer and gives \<open>xs @ [new]\<close>; the links of the deleted node are cleared, and a list that shares
  no node is what it was.
\<close>

theorem list_queue_refines:
  assumes "clist h q (x # xs)" "new \<notin> set (q # x # xs)" "clist h r zs"
    "set (r # zs) \<inter> set (q # new # x # xs) = {}"
  shows "\<exists>h1 h2. list_add_tail new q h = Some h1 \<and> clist h1 q (x # xs @ [new]) \<and>
    list_del x h1 = Some h2 \<and> clist h2 q (xs @ [new]) \<and> l_next h2 x = None \<and> l_prev h2 x = None \<and>
    clist h2 r zs"
proof -
  from list_add_tail_clist[OF assms(1,2)] obtain h1 where h1: "list_add_tail new q h = Some h1"
    "clist h1 q ([] @ x # (xs @ [new]))" "same_but (set (q # new # x # xs)) h h1" by auto
  from list_del_clist[OF h1(2)] obtain h2 where h2: "list_del x h1 = Some h2"
    "clist h2 q (xs @ [new])" "l_next h2 x = None" "l_prev h2 x = None"
    "same_but (set (q # [] @ x # (xs @ [new]))) h1 h2" by auto
  have "same_but (set (q # new # x # xs)) h1 h2" by (rule same_but_mono[OF h2(5)]) auto
  from same_but_trans[OF h1(3) this] have "clist h2 r zs = clist h r zs"
    by (rule clist_frame) (use assms(4) in auto)
  with h1(1,2) h2 assms(3) show ?thesis by auto
qed

theorem list_queue_refines_witness:
  "\<exists>h1 h2. list_add_tail 5 0 demo_links = Some h1 \<and> list_del 1 h1 = Some h2 \<and>
     clist h2 0 [2, 3, 5] \<and> clist h2 8 [9]"
proof -
  from list_queue_refines[OF demo_links(1) _ demo_links(2), of 5] obtain h1 h2 where
    "list_add_tail 5 0 demo_links = Some h1" "list_del 1 h1 = Some h2"
    "clist h2 0 ([2, 3] @ [5])" "clist h2 8 [9]" by auto
  then show ?thesis by (intro exI[of _ h1] exI[of _ h2]) simp
qed

text \<open>
  Cutting a list and splicing the part back restores it. \<open>list_cut_position\<close> moves the elements
  up to and including \<open>e\<close> to the list \<open>l\<close> and keeps the rest; \<open>list_splice_init\<close> puts them back in
  front, in order, and empties \<open>l\<close>.
\<close>

theorem list_cut_splice:
  assumes "clist h q (xs @ e # ys)" "l \<notin> set (q # xs @ e # ys)"
  shows "\<exists>h1 h2. list_cut_position l q e h = Some h1 \<and> clist h1 l (xs @ [e]) \<and> clist h1 q ys \<and>
    list_splice_init l q h1 = Some h2 \<and> clist h2 q (xs @ e # ys) \<and> clist h2 l []"
proof -
  from list_cut_position_clist[OF assms] obtain h1 where h1: "list_cut_position l q e h = Some h1"
    "clist h1 l (xs @ [e])" "clist h1 q ys" by blast
  have "set (l # xs @ [e]) \<inter> set (q # ys) = {}" using assms by (auto simp: clist_def)
  from list_splice_init_clist(1)[OF h1(3,2) this] h1 show ?thesis by auto
qed

theorem list_cut_splice_witness:
  "\<exists>h1 h2. list_cut_position 7 0 2 demo_links = Some h1 \<and> clist h1 7 [1, 2] \<and> clist h1 0 [3] \<and>
     list_splice_init 7 0 h1 = Some h2 \<and> clist h2 0 [1, 2, 3]"
proof -
  have "clist demo_links 0 ([1] @ 2 # [3])" using demo_links(1) by simp
  from list_cut_splice[OF this, of 7] obtain h1 h2 where "list_cut_position 7 0 2 demo_links = Some h1"
    "clist h1 7 ([1] @ [2])" "clist h1 0 [3]" "list_splice_init 7 0 h1 = Some h2" "clist h2 0 ([1] @ 2 # [3])"
    by auto
  then show ?thesis by (intro exI[of _ h1] exI[of _ h2]) simp
qed

text \<open>
  Iteration terminates and visits every element once. \<open>list_for_each\<close> runs its body on the
  elements in order, \<open>list_for_each_prev\<close> in reverse order, and \<open>list_count_nodes\<close> counts them.
\<close>

theorem list_iteration_complete:
  assumes "clist h q xs"
  shows "list_for_each body q h s = Some (fold body xs s) \<and>
    list_for_each_prev body q h s = Some (fold body (rev xs) s) \<and> list_count_nodes q h = Some (length xs)"
  using assms by (simp add: list_for_each_clist list_for_each_prev_clist list_count_nodes_clist)

theorem list_iteration_complete_witness:
  "list_for_each (#) 0 demo_links [] = Some [3, 2, 1] \<and> list_count_nodes 0 demo_links = Some 3"
  using list_iteration_complete[OF demo_links(1), of "(#)" "[]"] by simp

end
