(* ===== verification/Sched.thy ===== *)
theory Sched
  imports List_Head
begin

text \<open>
  Threads and their scheduler: \<open>common/thread.c\<close>, \<open>common/spinlock.c\<close>, the RISC-V part in
  \<open>arch/riscv/src/arch_thread.c\<close> and \<open>arch_spinlock.c\<close>, and the trap entry of
  \<open>arch/riscv/src/trap.c\<close> that calls the scheduler (one hart, CONFIG_MULTI_THREAD).

  The run queue is the intrusive list of \<open>List_Head\<close> in the field \<open>s_links\<close>; a \<open>struct thread\<close> and
  its \<open>list\<close> field share an address, and the static list head is the address \<open>thread_list\<close>.
  The context of a thread is the address of its trap frame (\<open>arch_cpu_ctx.regs\<close>). A fault (a NULL
  pointer followed, a failed \<open>assert\<close>) or a loop that never ends is the result \<open>None\<close>.
\<close>

subsection \<open>State\<close>

datatype thread_state =
    THREAD_STATE_RUNNABLE | THREAD_STATE_RUNNING | THREAD_STATE_BLOCK | THREAD_STATE_DEAD

record thread =
  th_ctx :: u64
  th_priority :: int
  th_state :: thread_state
  th_sleep_time :: u64
  th_exit_code :: int
  th_name :: string
  th_stack_base :: u64
  th_stack_size :: u64
  th_func :: u64
  th_arg :: u64

text \<open>The registers of a trap frame that \<open>arch_thread_create_cpu_ctx\<close> sets; the others are 0.\<close>

record trap_regs =
  tr_ra :: u64
  tr_sp :: u64
  tr_a0 :: u64
  tr_mepc :: u64
  tr_mstatus :: u64

record sched =
  s_links :: links
  s_threads :: "addr \<Rightarrow> thread option"
  s_current :: "addr option"
  s_lock :: bool
  s_preempt :: int
  s_irq :: bool
  s_in_irq :: bool
  s_ticks :: u64
  s_frames :: "u64 \<Rightarrow> trap_regs option"
  s_heap :: heap_st
  s_fresh :: addr

definition thread_list :: addr where "thread_list = 0"

definition s_thread :: "sched \<Rightarrow> addr \<Rightarrow> (thread \<Rightarrow> thread) \<Rightarrow> sched" where
  "s_thread s t f = s\<lparr>s_threads := (s_threads s)(t := map_option f (s_threads s t))\<rparr>"

definition sched_get_current :: "sched \<Rightarrow> addr option" where
  "sched_get_current s = s_current s"

subsection \<open>Preemption and spin locks\<close>

definition arch_preempt_disable :: "sched \<Rightarrow> sched" where
  "arch_preempt_disable s = s\<lparr>s_irq := False\<rparr>"

definition arch_preempt_enable :: "sched \<Rightarrow> sched" where
  "arch_preempt_enable s = s\<lparr>s_irq := True\<rparr>"

definition sched_preempt_disable :: "sched \<Rightarrow> sched" where
  "sched_preempt_disable s =
     (let s1 = arch_preempt_disable s in s1\<lparr>s_preempt := s_preempt s1 + 1\<rparr>)"

definition sched_preempt_enable :: "sched \<Rightarrow> sched" where
  "sched_preempt_enable s =
     (let count = s_preempt s - 1;
          s1 = s\<lparr>s_preempt := count\<rparr>
      in if count = 0 \<and> \<not> s_in_irq s1 then arch_preempt_enable s1 else s1)"

definition spin_lock_check :: "sched \<Rightarrow> bool" where
  "spin_lock_check s = s_lock s"

definition arch_spin_trylock :: "sched \<Rightarrow> bool \<times> sched" where
  "arch_spin_trylock s = (\<not> s_lock s, s\<lparr>s_lock := True\<rparr>)"

definition spin_trylock :: "sched \<Rightarrow> bool \<times> sched" where
  "spin_trylock s =
     (case arch_spin_trylock (sched_preempt_disable s) of
        (True, s1) \<Rightarrow> (True, s1)
      | (False, s1) \<Rightarrow> (False, sched_preempt_enable s1))"

text \<open>With one hart nobody else can release the lock while this loop runs.\<close>

partial_function (option) spin_lock :: "sched \<Rightarrow> sched option" where
  "spin_lock s =
     (if spin_lock_check s then spin_lock s
      else case spin_trylock s of (ok, s1) \<Rightarrow> if ok then Some s1 else spin_lock s1)"

definition spin_unlock :: "sched \<Rightarrow> sched" where
  "spin_unlock s = sched_preempt_enable (s\<lparr>s_lock := False\<rparr>)"

subsection \<open>Scheduling\<close>

definition next_thread :: "addr \<Rightarrow> sched \<Rightarrow> addr option" where
  "next_thread t s =
     (if list_is_last t thread_list (s_links s) then l_next (s_links s) thread_list
      else l_next (s_links s) t)"

definition th_ready :: "thread \<Rightarrow> bool" where
  "th_ready th \<longleftrightarrow> th_state th = THREAD_STATE_RUNNABLE \<or> th_state th = THREAD_STATE_RUNNING"

text \<open>The loop of \<open>sched_thread\<close> over the other threads; \<open>best\<close> holds \<open>next\<close> and \<open>hp\<close>.\<close>

partial_function (option) sched_select ::
  "sched \<Rightarrow> addr \<Rightarrow> addr \<Rightarrow> addr option \<times> int \<Rightarrow> (addr option \<times> int) option" where
  "sched_select s cur t best =
     (if t = cur then Some best
      else do { th \<leftarrow> s_threads s t;
                n \<leftarrow> next_thread t s;
                sched_select s cur n
                  (if th_ready th \<and> th_priority th > snd best then (Some t, th_priority th) else best) })"

definition sched_thread :: "u64 \<Rightarrow> sched \<Rightarrow> (u64 \<times> sched) option" where
  "sched_thread ctx s =
     (case s_current s of
        None \<Rightarrow> Some (ctx, s)
      | Some cur \<Rightarrow>
          do { th \<leftarrow> s_threads s cur;
               let s1 = (if th_state th = THREAD_STATE_RUNNING \<or> th_state th = THREAD_STATE_BLOCK
                         then s_thread s cur (\<lambda>th. th\<lparr>th_ctx := ctx\<rparr>) else s);
               first \<leftarrow> next_thread cur s1;
               best \<leftarrow> sched_select s1 cur first (None, - 1);
               nxt \<leftarrow> (if th_ready th \<and> th_priority th > snd best then Some cur else fst best);
               s2 \<leftarrow> (if th_state th = THREAD_STATE_DEAD
                      then map_option (\<lambda>l. s1\<lparr>s_links := l\<rparr>) (list_del cur (s_links s1))
                      else if th_state th = THREAD_STATE_RUNNING
                      then Some (s_thread s1 cur (\<lambda>th. th\<lparr>th_state := THREAD_STATE_RUNNABLE\<rparr>))
                      else Some s1);
               let s3 = s_thread s2 nxt (\<lambda>th. th\<lparr>th_state := THREAD_STATE_RUNNING\<rparr>);
               new \<leftarrow> s_threads s3 nxt;
               Some (th_ctx new, s3\<lparr>s_current := Some nxt\<rparr>) })"

text \<open>\<open>arch_thread_yield\<close> traps; the trap handler advances the pc and calls the scheduler.\<close>

definition sched_yield :: "u64 \<Rightarrow> sched \<Rightarrow> (u64 \<times> sched) option" where
  "sched_yield ctx s = sched_thread ctx s"

definition thread_end_point :: "int \<Rightarrow> u64 \<Rightarrow> sched \<Rightarrow> (u64 \<times> sched) option" where
  "thread_end_point exit_code ctx s =
     do { s1 \<leftarrow> spin_lock s;
          cur \<leftarrow> s_current s1;
          let s2 = s_thread s1 cur (\<lambda>th. th\<lparr>th_exit_code := exit_code, th_state := THREAD_STATE_DEAD\<rparr>);
          sched_yield ctx (spin_unlock s2) }"

subsection \<open>Creating and destroying threads\<close>

definition TRAP_REGS_SIZE :: u64 where "TRAP_REGS_SIZE = 34 * 8"

definition arch_thread_create_cpu_ctx ::
  "u64 \<Rightarrow> u64 \<Rightarrow> u64 \<Rightarrow> u64 \<Rightarrow> u64 \<Rightarrow> u64 \<Rightarrow> sched \<Rightarrow> u64 option \<times> sched" where
  "arch_thread_create_cpu_ctx mstatus stack_base stack_size func arg end_point s =
     (case malloc (s_heap s) of
        (False, hp) \<Rightarrow> (None, s\<lparr>s_heap := hp\<rparr>)
      | (True, hp) \<Rightarrow>
          (let regs = stack_base + stack_size - TRAP_REGS_SIZE;
               m1 = mstatus OR push_bit 7 (drop_bit 3 mstatus AND 1);
               m2 = m1 OR push_bit 11 3
           in (Some regs,
               s\<lparr>s_heap := hp,
                 s_frames := (s_frames s)(regs \<mapsto>
                   \<lparr>tr_ra = end_point, tr_sp = regs, tr_a0 = arg, tr_mepc = func, tr_mstatus = m2\<rparr>)\<rparr>)))"

definition thread_create ::
  "u64 \<Rightarrow> u64 \<Rightarrow> string \<Rightarrow> u64 \<Rightarrow> u64 \<Rightarrow> u64 \<Rightarrow> u64 \<Rightarrow> sched \<Rightarrow> (addr option \<times> sched) option" where
  "thread_create mstatus end_point name stack_base stack_size func arg s =
     (case malloc (s_heap s) of
        (False, hp) \<Rightarrow> Some (None, s\<lparr>s_heap := hp\<rparr>)
      | (True, hp) \<Rightarrow>
          (case arch_thread_create_cpu_ctx mstatus stack_base stack_size func arg end_point (s\<lparr>s_heap := hp\<rparr>) of
             (None, s1) \<Rightarrow> Some (None, s1\<lparr>s_heap := mfree (s_heap s1)\<rparr>)
           | (Some ctx, s1) \<Rightarrow>
               (let t = s_fresh s1;
                    th = \<lparr>th_ctx = ctx, th_priority = 1, th_state = THREAD_STATE_RUNNABLE, th_sleep_time = 0,
                          th_exit_code = 0, th_name = name, th_stack_base = stack_base,
                          th_stack_size = stack_size, th_func = func, th_arg = arg\<rparr>;
                    s2 = s1\<lparr>s_fresh := Suc t, s_threads := (s_threads s1)(t \<mapsto> th)\<rparr>
                in do { s3 \<leftarrow> spin_lock s2;
                        l \<leftarrow> list_add_tail t thread_list (s_links s3);
                        Some (Some t, spin_unlock (s3\<lparr>s_links := l\<rparr>)) })))"

definition thread_set_priority :: "addr \<Rightarrow> int \<Rightarrow> u64 \<Rightarrow> sched \<Rightarrow> (errno option \<times> u64 \<times> sched) option" where
  "thread_set_priority t p ctx s =
     (if p \<le> 0 then Some (Some EINVAL, ctx, s)
      else map_option (\<lambda>(c, s1). (None, c, s1)) (sched_yield ctx (s_thread s t (\<lambda>th. th\<lparr>th_priority := p\<rparr>))))"

definition thread_destroy :: "addr \<Rightarrow> sched \<Rightarrow> (int \<times> sched) option" where
  "thread_destroy t s =
     do { th \<leftarrow> s_threads s t;
          if th_state th \<noteq> THREAD_STATE_DEAD then None
          else do { s1 \<leftarrow> spin_lock s;
                    Some (th_exit_code th,
                      spin_unlock (s1\<lparr>s_heap := mfree (mfree (s_heap s1)), s_threads := (s_threads s1)(t := None)\<rparr>)) } }"

subsection \<open>Time\<close>

definition sched_tick_hz :: u64 where "sched_tick_hz = 100"

definition tick_thread :: "thread \<Rightarrow> thread" where
  "tick_thread th =
     (if th_sleep_time th \<noteq> 0
      then let n = th_sleep_time th - 1;
               th1 = th\<lparr>th_sleep_time := n\<rparr>
           in if n = 0 then th1\<lparr>th_state := THREAD_STATE_RUNNABLE\<rparr> else th1
      else th)"

definition sched_tick :: "sched \<Rightarrow> sched option" where
  "sched_tick s =
     (let s1 = s\<lparr>s_ticks := s_ticks s + 1\<rparr>
      in list_for_each (\<lambda>t s. s_thread s t tick_thread) thread_list (s_links s1) s1)"

text \<open>Up to the call of \<open>sched_yield\<close>: what the caller of \<open>sched_msleep\<close> sets.\<close>

definition sleep_ticks :: "u64 \<Rightarrow> u64" where
  "sleep_ticks time = time * sched_tick_hz div 1000 + 1"

definition sched_msleep_set :: "u64 \<Rightarrow> sched \<Rightarrow> sched option" where
  "sched_msleep_set time s =
     (if time \<noteq> 0
      then do { cur \<leftarrow> s_current s;
                Some (sched_preempt_enable
                  (s_thread (sched_preempt_disable s) cur
                    (\<lambda>th. th\<lparr>th_sleep_time := sleep_ticks time, th_state := THREAD_STATE_BLOCK\<rparr>))) }
      else Some s)"

definition sched_msleep :: "u64 \<Rightarrow> u64 \<Rightarrow> sched \<Rightarrow> (u64 \<times> sched) option" where
  "sched_msleep time ctx s = do { s1 \<leftarrow> sched_msleep_set time s; sched_yield ctx s1 }"

subsection \<open>Starting\<close>

text \<open>
  \<open>timer_err\<close> is what \<open>timer_enable_irq\<close> returns, \<open>stack\<close> the address of the idle thread's stack.
  All three error labels end in \<open>assert (false)\<close>.
\<close>

definition sched_start ::
  "u64 \<Rightarrow> u64 \<Rightarrow> u64 \<Rightarrow> u64 \<Rightarrow> errno option \<Rightarrow> u64 \<Rightarrow> sched \<Rightarrow> (errno option \<times> u64 \<times> sched) option" where
  "sched_start mstatus end_point idle_func stack timer_err ctx s =
     (if list_empty thread_list (s_links s) then Some (Some EINVAL, ctx, s)
      else case malloc (s_heap s) of
        (False, hp) \<Rightarrow> None
      | (True, hp) \<Rightarrow>
          do { (idle, s1) \<leftarrow> thread_create mstatus end_point ''idle'' stack 4096 idle_func 0 (s\<lparr>s_heap := hp\<rparr>);
               t \<leftarrow> idle;
               let s2 = (s_thread s1 t (\<lambda>th. th\<lparr>th_priority := 0\<rparr>))\<lparr>s_current := Some t\<rparr>;
               if timer_err \<noteq> None then None
               else map_option (\<lambda>(c, s3). (None, c, s3)) (sched_yield ctx s2) })"

subsection \<open>Trap entry\<close>

text \<open>
  \<open>isr\<close> is the interrupt service routine for an exception code (the table of \<open>trap.c\<close>, where only
  codes 1, 3, 5, 7, 9 and 11 have an entry; the others print a message). An exception other than
  an environment call prints and halts.
\<close>

definition isr_codes :: "u64 set" where "isr_codes = {1, 3, 5, 7, 9, 11}"

definition trap_interrupt :: "(u64 \<Rightarrow> sched \<Rightarrow> sched option) \<Rightarrow> u64 \<Rightarrow> sched \<Rightarrow> sched option" where
  "trap_interrupt isr exception_code s =
     (if exception_code < 12 \<and> exception_code \<in> isr_codes then isr exception_code s else Some s)"

definition trap_handler ::
  "(u64 \<Rightarrow> sched \<Rightarrow> sched option) \<Rightarrow> u64 \<Rightarrow> u64 \<Rightarrow> sched \<Rightarrow> (u64 \<times> sched) option" where
  "trap_handler isr mcause regs s =
     (let is_interrupt = bit mcause 63;
          exception_code = mcause AND NOT (push_bit 63 1);
          s1 = s\<lparr>s_in_irq := True\<rparr>
      in do { s2 \<leftarrow> (if is_interrupt then trap_interrupt isr exception_code s1
                     else if exception_code \<noteq> 11 then None
                     else Some (s1\<lparr>s_frames := (s_frames s1)(regs :=
                            map_option (\<lambda>r. r\<lparr>tr_mepc := tr_mepc r + 4\<rparr>) (s_frames s1 regs))\<rparr>));
              sched_thread regs (s2\<lparr>s_in_irq := False\<rparr>) })"

end
