(* ===== verification/Sched_Props.thy ===== *)
theory Sched_Props
  imports Sched List_Head_Props
begin

text \<open>
  The run queue and the choice of the next thread. The scheduler and the \<open>_circular\<close> macros of
  \<open>list.h\<close> walk a circular list by \<open>next\<close>; what such a walk visits is proved once in the locale
  \<open>circular_queue\<close>, which both interpret.
\<close>

subsection \<open>Walking a circular queue\<close>

locale circular_queue =
  fixes elems :: "'h \<Rightarrow> 'a list \<Rightarrow> bool"
    and succ :: "'a \<Rightarrow> 'h \<Rightarrow> 'a option"
  assumes elems_distinct: "elems h xs \<Longrightarrow> distinct xs"
    and succ_circular: "elems h (ys @ x # zs) \<Longrightarrow> succ x h = Some (hd (zs @ ys @ [x]))"
begin

text \<open>Seen from \<open>x\<close>, the others come in the order \<open>zs @ ys\<close> and then \<open>x\<close> itself again.\<close>

lemma succ_in_walk:
  assumes "elems h (ys @ x # zs)" "x # zs @ ys @ [x] = us @ v # w # vs"
  shows "succ v h = Some w"
proof (cases us)
  case Nil
  with assms(2) have "v = x" "zs @ ys @ [x] = w # vs" by auto
  with succ_circular[OF assms(1)] show ?thesis by simp
next
  case (Cons u us')
  with assms(2) have e: "u = x" "zs @ ys @ [x] = us' @ v # w # vs" by auto
  then obtain vs' where vs': "zs @ ys = us' @ v # vs'" "w # vs = vs' @ [x]"
    by (metis (no_types, lifting) append.assoc append_butlast_last_id append_Cons butlast_append
        butlast.simps(2) last_appendR last_ConsR list.distinct(1) butlast_snoc last_snoc)
  then have w: "w = hd (vs' @ [x])" by (metis list.sel(1))
  from vs'(1) consider (z) as where "zs = us' @ v # as" "vs' = as @ ys"
    | (y) as where "ys = as @ v # vs'" "us' = zs @ as"
    by (auto simp: append_eq_append_conv2 Cons_eq_append_conv append_eq_Cons_conv) 
  then show ?thesis
  proof cases
    case z
    then have "elems h ((ys @ x # us') @ v # as)" using assms(1) by simp
    from succ_circular[OF this] have s: "succ v h = Some (hd (as @ (ys @ x # us') @ [v]))" .
    show ?thesis
    proof (cases as)
      case Nil
      with s w z show ?thesis by (cases ys) auto
    qed (use s w z in auto)
  next
    case y
    then have "elems h (as @ v # vs' @ x # zs)" using assms(1) by simp
    from succ_circular[OF this] w show ?thesis by (cases vs') auto
  qed
qed

end

interpretation lh: circular_queue "\<lambda>h xs. clist h q xs" "\<lambda>x h. list_next_entry_circular x q h" for q
  by unfold_locales (auto simp: clist_def[of _ q] list_next_entry_circular_clist)

definition run_queue :: "sched \<Rightarrow> addr list \<Rightarrow> bool" where
  "run_queue s xs \<longleftrightarrow> clist (s_links s) thread_list xs"

lemma next_thread_circular: "next_thread t s = list_next_entry_circular t thread_list (s_links s)"
  by (simp add: next_thread_def list_next_entry_circular_def)

interpretation rq: circular_queue run_queue next_thread
proof
  fix h xs show "run_queue h xs \<Longrightarrow> distinct xs" by (simp add: run_queue_def clist_def)
next
  fix h ys x zs
  show "run_queue h (ys @ x # zs) \<Longrightarrow> next_thread x h = Some (hd (zs @ ys @ [x]))"
    by (simp add: run_queue_def next_thread_circular lh.succ_circular)
qed

subsection \<open>The choice\<close>

definition pick :: "sched \<Rightarrow> addr \<Rightarrow> addr option \<times> int \<Rightarrow> addr option \<times> int" where
  "pick s t best =
     (case s_threads s t of
        None \<Rightarrow> best
      | Some th \<Rightarrow> if th_ready th \<and> th_priority th > snd best then (Some t, th_priority th) else best)"

definition ready :: "sched \<Rightarrow> addr \<Rightarrow> bool" where
  "ready s t \<longleftrightarrow> (case s_threads s t of None \<Rightarrow> False | Some th \<Rightarrow> th_ready th)"

definition prio :: "sched \<Rightarrow> addr \<Rightarrow> int" where
  "prio s t = (case s_threads s t of None \<Rightarrow> 0 | Some th \<Rightarrow> th_priority th)"

text \<open>\<open>t\<close> is the first of the threads of maximal priority among those of \<open>us\<close> that are ready.\<close>

definition best_of :: "sched \<Rightarrow> addr list \<Rightarrow> addr \<Rightarrow> bool" where
  "best_of s us t \<longleftrightarrow>
     (\<exists>a b. us = a @ t # b \<and> ready s t \<and> (\<forall>u \<in> set a. ready s u \<longrightarrow> prio s u < prio s t) \<and>
       (\<forall>u \<in> set b. ready s u \<longrightarrow> prio s u \<le> prio s t))"

lemma pick_simp: "pick s t best = (if ready s t \<and> prio s t > snd best then (Some t, prio s t) else best)"
  by (auto simp: pick_def ready_def prio_def split: option.splits)

lemma fold_pick:
  "fold (pick s) us (b0, h0) = (b, h) \<Longrightarrow>
     (b, h) = (b0, h0) \<and> (\<forall>u \<in> set us. ready s u \<longrightarrow> prio s u \<le> h0) \<or>
     (\<exists>t. b = Some t \<and> h = prio s t \<and> h0 < h \<and> best_of s us t)"
proof (induction us arbitrary: b h rule: rev_induct)
  case (snoc x us)
  obtain b1 h1 where 1: "fold (pick s) us (b0, h0) = (b1, h1)" by (metis prod.exhaust)
  have bh: "(b, h) = (if ready s x \<and> prio s x > h1 then (Some x, prio s x) else (b1, h1))"
    using snoc.prems 1 by (simp add: pick_simp[of s x "(b1, h1)"])
  from snoc.IH[OF 1] show ?case
  proof
    assume o: "(b1, h1) = (b0, h0) \<and> (\<forall>u \<in> set us. ready s u \<longrightarrow> prio s u \<le> h0)"
    show ?thesis
    proof (cases "ready s x \<and> prio s x > h1")
      case True
      with o have "best_of s (us @ [x]) x" unfolding best_of_def by fastforce
      with True bh o show ?thesis by auto
    qed (use bh o in auto)
  next
    assume "\<exists>t. b1 = Some t \<and> h1 = prio s t \<and> h0 < h1 \<and> best_of s us t"
    then obtain t where t: "b1 = Some t" "h1 = prio s t" "h0 < h1" "best_of s us t" by blast
    show ?thesis
    proof (cases "ready s x \<and> prio s x > h1")
      case True
      have "\<forall>u \<in> set us. ready s u \<longrightarrow> prio s u < prio s x"
        using t(2,4) True by (fastforce simp: best_of_def)
      then have "best_of s (us @ [x]) x" using True unfolding best_of_def by fastforce
      with True bh t show ?thesis by auto
    next
      case False
      from t(4) obtain a c where ac: "us = a @ t # c" "ready s t"
        "\<forall>u \<in> set a. ready s u \<longrightarrow> prio s u < prio s t" "\<forall>u \<in> set c. ready s u \<longrightarrow> prio s u \<le> prio s t"
        by (auto simp: best_of_def)
      have "best_of s (us @ [x]) t"
        unfolding best_of_def
        by (rule exI[of _ a], rule exI[of _ "c @ [x]"]) (use ac False t(2) in auto)
      with False bh t show ?thesis by auto
    qed
  qed
qed auto

lemma sched_select_walk:
  assumes "run_queue s (ys @ cur # zs)" "\<forall>t \<in> set (ys @ cur # zs). s_threads s t \<noteq> None"
    "zs @ ys = us @ vs"
  shows "sched_select s cur (hd (vs @ [cur])) best = Some (fold (pick s) vs best)"
  using assms(3)
proof (induction vs arbitrary: us best)
  case (Cons v vs)
  have "distinct (ys @ cur # zs)" by (rule rq.elems_distinct[OF assms(1)])
  moreover have v: "v \<in> set (zs @ ys)" using Cons.prems by simp
  ultimately have "v \<noteq> cur" by auto
  obtain th where th: "s_threads s v = Some th" using assms(2) v by fastforce
  obtain w ws where w: "vs @ [cur] = w # ws" by (cases "vs @ [cur]") auto
  then have "cur # zs @ ys @ [cur] = (cur # us) @ v # w # ws" using arg_cong[OF Cons.prems, of "\<lambda>l. l @ [cur]"] by simp
  from rq.succ_in_walk[OF assms(1) this] have "next_thread v s = Some w" .
  moreover have "sched_select s cur w b = Some (fold (pick s) vs b)" for b
    using Cons.IH[of "us @ [v]" b] Cons.prems w by simp
  ultimately show ?case
    using \<open>v \<noteq> cur\<close> th by (subst sched_select.simps) (simp add: pick_def)
qed (subst sched_select.simps, simp)

lemma s_thread_sel [simp]:
  "s_threads (s_thread s t f) u = (if u = t then map_option f (s_threads s u) else s_threads s u)"
  "s_links (s_thread s t f) = s_links s" "s_current (s_thread s t f) = s_current s"
  "s_lock (s_thread s t f) = s_lock s" "s_fresh (s_thread s t f) = s_fresh s"
  "s_heap (s_thread s t f) = s_heap s" "s_in_irq (s_thread s t f) = s_in_irq s"
  by (simp_all add: s_thread_def)

lemma next_thread_cong: "s_links s' = s_links s \<Longrightarrow> next_thread t s' = next_thread t s"
  by (simp add: next_thread_def)

lemma run_queue_cong: "s_links s' = s_links s \<Longrightarrow> run_queue s' xs = run_queue s xs"
  by (simp add: run_queue_def)

text \<open>What a call of \<open>sched_thread\<close> that chooses \<open>t\<close> does to the structure of the thread \<open>u\<close>.\<close>

definition resched :: "addr \<Rightarrow> u64 \<Rightarrow> addr \<Rightarrow> addr \<Rightarrow> thread \<Rightarrow> thread" where
  "resched cur ctx t u th =
     (let th1 = (if u = cur \<and> (th_state th = THREAD_STATE_RUNNING \<or> th_state th = THREAD_STATE_BLOCK)
                 then th\<lparr>th_ctx := ctx\<rparr> else th);
          th2 = (if u = cur \<and> th_state th = THREAD_STATE_RUNNING
                 then th1\<lparr>th_state := THREAD_STATE_RUNNABLE\<rparr> else th1)
      in if u = t then th2\<lparr>th_state := THREAD_STATE_RUNNING\<rparr> else th2)"

definition dead :: "sched \<Rightarrow> addr \<Rightarrow> bool" where
  "dead s t \<longleftrightarrow> map_option th_state (s_threads s t) = Some THREAD_STATE_DEAD"

lemma best_of_in: "best_of s us t \<Longrightarrow> t \<in> set us \<and> ready s t"
  by (auto simp: best_of_def)

lemma sched_thread_core:
  assumes cur: "s_current s = Some cur" and rq: "run_queue s (ys @ cur # zs)"
    and ths: "\<forall>t \<in> set (ys @ cur # zs). s_threads s t \<noteq> None"
    and i: "i \<in> set (ys @ cur # zs)" "ready s i" "0 \<le> prio s i"
  shows "\<exists>t th s'. best_of s (zs @ ys @ [cur]) t \<and> s_threads s' t = Some th \<and>
    sched_thread ctx s = Some (th_ctx th, s') \<and> s_current s' = Some t \<and>
    run_queue s' (if dead s cur then ys @ zs else ys @ cur # zs) \<and>
    (\<forall>u. s_threads s' u = map_option (resched cur ctx t u) (s_threads s u)) \<and>
    s_lock s' = s_lock s \<and> s_fresh s' = s_fresh s \<and> s_in_irq s' = s_in_irq s"
proof -
  obtain th where th: "s_threads s cur = Some th" using ths by fastforce
  define s1 where "s1 = (if th_state th = THREAD_STATE_RUNNING \<or> th_state th = THREAD_STATE_BLOCK
    then s_thread s cur (\<lambda>th. th\<lparr>th_ctx := ctx\<rparr>) else s)"
  have s1: "s_links s1 = s_links s" "ready s1 = ready s" "prio s1 = prio s"
    "\<And>u. s_threads s1 u = None \<longleftrightarrow> s_threads s u = None"
    by (auto simp: s1_def ready_def prio_def th th_ready_def fun_eq_iff split: option.splits)
  have rq1: "run_queue s1 (ys @ cur # zs)" using rq s1(1) run_queue_cong by blast
  have nx: "next_thread cur s1 = Some (hd ((zs @ ys) @ [cur]))" using rq.succ_circular[OF rq1] by simp
  obtain b h where bh: "fold (pick s1) (zs @ ys) (None, - 1) = (b, h)" by (metis prod.exhaust)
  have sel: "sched_select s1 cur (hd ((zs @ ys) @ [cur])) (None, - 1) = Some (b, h)"
    using sched_select_walk[OF rq1, of "[]" "zs @ ys"] ths s1(4) bh by simp
  define nxt where "nxt = (if th_ready th \<and> th_priority th > h then Some cur else b)"
  have "fold (pick s1) (zs @ ys @ [cur]) (None, - 1) =
      (nxt, if th_ready th \<and> th_priority th > h then th_priority th else h)"
    using bh th fun_cong[OF s1(2), of cur] fun_cong[OF s1(3), of cur]
    by (simp add: pick_simp[of s1 cur "(b, h)"] nxt_def ready_def prio_def)
  from fold_pick[OF this] obtain t where t: "nxt = Some t" "best_of s1 (zs @ ys @ [cur]) t"
    using i s1(2,3) by fastforce
  have bt: "best_of s (zs @ ys @ [cur]) t" using t(2) by (simp add: best_of_def s1(2,3))
  have rt: "ready s t" using best_of_in[OF bt] by simp
  obtain l where l: "th_state th = THREAD_STATE_DEAD \<Longrightarrow>
      list_del cur (s_links s1) = Some l \<and> clist l thread_list (ys @ zs)"
    using list_del_clist[of "s_links s1" thread_list ys cur zs] rq1 by (auto simp: run_queue_def)
  define s2 where "s2 = (if th_state th = THREAD_STATE_DEAD then s1\<lparr>s_links := l\<rparr>
    else if th_state th = THREAD_STATE_RUNNING then s_thread s1 cur (\<lambda>th. th\<lparr>th_state := THREAD_STATE_RUNNABLE\<rparr>) else s1)"
  define s3 where "s3 nxt' = s_thread s2 nxt' (\<lambda>th. th\<lparr>th_state := THREAD_STATE_RUNNING\<rparr>)" for nxt'
  let ?s = "(s3 t)\<lparr>s_current := Some t\<rparr>"
  have thr: "s_threads ?s u = map_option (resched cur ctx t u) (s_threads s u)" for u
  proof (cases "u = cur")
    case True
    with th show ?thesis by (auto simp: s3_def s2_def s1_def resched_def Let_def)
  qed (cases "s_threads s u"; auto simp: s3_def s2_def s1_def resched_def Let_def)
  from rt obtain tht where tht: "s_threads s t = Some tht" by (auto simp: ready_def split: option.splits)
  define thn where "thn = resched cur ctx t t tht"
  have st: "s_threads (s3 t) t = Some thn" using thr[of t] tht by (simp add: thn_def)
  have "sched_thread ctx s =
    do { first \<leftarrow> next_thread cur s1;
         best \<leftarrow> sched_select s1 cur first (None, - 1);
         nxt \<leftarrow> (if th_ready th \<and> th_priority th > snd best then Some cur else fst best);
         s2 \<leftarrow> (if th_state th = THREAD_STATE_DEAD
                then map_option (\<lambda>l. s1\<lparr>s_links := l\<rparr>) (list_del cur (s_links s1))
                else if th_state th = THREAD_STATE_RUNNING
                then Some (s_thread s1 cur (\<lambda>th. th\<lparr>th_state := THREAD_STATE_RUNNABLE\<rparr>))
                else Some s1);
         let s3 = s_thread s2 nxt (\<lambda>th. th\<lparr>th_state := THREAD_STATE_RUNNING\<rparr>);
         new \<leftarrow> s_threads s3 nxt;
         Some (th_ctx new, s3\<lparr>s_current := Some nxt\<rparr>) }"
    unfolding s1_def by (simp only: sched_thread_def cur th option.case Option.bind.simps Let_def)
  then have "sched_thread ctx s = Some (th_ctx thn, ?s)"
    using nx sel t(1) l st by (auto simp: nxt_def s2_def s3_def Let_def)
  moreover have "run_queue ?s (if dead s cur then ys @ zs else ys @ cur # zs)"
    using l rq1 th by (simp add: run_queue_def dead_def s3_def s2_def)
  moreover have "s_lock ?s = s_lock s" "s_fresh ?s = s_fresh s" "s_in_irq ?s = s_in_irq s"
    by (simp_all add: s3_def s2_def s1_def)
  moreover have "s_threads ?s t = Some thn" using st by simp
  ultimately show ?thesis using bt thr by (intro exI[of _ t] exI[of _ thn] exI[of _ ?s]) simp
qed

end
