(* ===== verification/Sched_Reach.thy ===== *)
theory Sched_Reach
  imports Sched_Props
begin

text \<open>
  The reachable states of the scheduler. A step is a whole operation of \<open>common/thread.c\<close>: the
  interrupts that may come between the parts of one are steps of their own, since \<open>sched_msleep\<close> is
  split at the point where preemption is enabled again, and the other operations hold the lock or
  end in a call of the scheduler.
\<close>

subsection \<open>The invariant\<close>

definition sched_ok :: "addr option \<Rightarrow> sched \<Rightarrow> addr list \<Rightarrow> bool" where
  "sched_ok idle s xs \<longleftrightarrow>
     run_queue s xs \<and> \<not> s_lock s \<and> 0 < s_fresh s \<and>
     (\<forall>t. s_threads s t \<noteq> None \<longrightarrow> 0 < t \<and> t < s_fresh s) \<and>
     (\<forall>t \<in> set xs. s_threads s t \<noteq> None) \<and>
     (\<forall>t th. s_threads s t = Some th \<longrightarrow>
        (t \<in> set xs \<longleftrightarrow> th_state th \<noteq> THREAD_STATE_DEAD) \<and>
        (Some t \<noteq> idle \<longrightarrow> 1 \<le> th_priority th) \<and>
        (th_state th = THREAD_STATE_RUNNING \<longrightarrow> s_current s = Some t)) \<and>
     (case s_current s of None \<Rightarrow> idle = None | Some c \<Rightarrow> c \<in> set xs \<and> idle \<noteq> None) \<and>
     (\<forall>i. idle = Some i \<longrightarrow> (\<exists>th. s_threads s i = Some th \<and> th_ready th \<and> th_priority th = 0 \<and> th_sleep_time th = 0))"

lemma spin_lock_free:
  "\<not> s_lock s \<Longrightarrow> spin_lock s = Some ((sched_preempt_disable s)\<lparr>s_lock := True\<rparr>)"
  by (subst spin_lock.simps)
    (simp add: spin_lock_check_def spin_trylock_def arch_spin_trylock_def sched_preempt_disable_def
      arch_preempt_disable_def Let_def)

lemma preempt_sel [simp]:
  "s_links (sched_preempt_disable s) = s_links s" "s_threads (sched_preempt_disable s) = s_threads s"
  "s_current (sched_preempt_disable s) = s_current s" "s_lock (sched_preempt_disable s) = s_lock s"
  "s_fresh (sched_preempt_disable s) = s_fresh s" "s_heap (sched_preempt_disable s) = s_heap s"
  "s_links (sched_preempt_enable s) = s_links s" "s_threads (sched_preempt_enable s) = s_threads s"
  "s_current (sched_preempt_enable s) = s_current s" "s_lock (sched_preempt_enable s) = s_lock s"
  "s_fresh (sched_preempt_enable s) = s_fresh s" "s_heap (sched_preempt_enable s) = s_heap s"
  by (simp_all add: sched_preempt_disable_def sched_preempt_enable_def arch_preempt_disable_def
      arch_preempt_enable_def Let_def)

lemma spin_unlock_sel [simp]:
  "s_links (spin_unlock s) = s_links s" "s_threads (spin_unlock s) = s_threads s"
  "s_current (spin_unlock s) = s_current s" "\<not> s_lock (spin_unlock s)"
  "s_fresh (spin_unlock s) = s_fresh s" "s_heap (spin_unlock s) = s_heap s"
  by (simp_all add: spin_unlock_def)

lemma sched_okD:
  assumes "sched_ok idle s xs"
  shows "run_queue s xs" "\<not> s_lock s" "\<And>t. t \<in> set xs \<Longrightarrow> s_threads s t \<noteq> None"
    "\<And>t th. s_threads s t = Some th \<Longrightarrow> 0 < t \<and> t < s_fresh s"
    "\<And>t th. s_threads s t = Some th \<Longrightarrow> t \<in> set xs \<longleftrightarrow> th_state th \<noteq> THREAD_STATE_DEAD"
  using assms by (auto simp: sched_ok_def)

lemma sched_ok_idle:
  assumes "sched_ok (Some i) s xs"
  shows "i \<in> set xs" "ready s i" "prio s i = 0"
  using assms by (auto simp: sched_ok_def ready_def prio_def th_ready_def)

text \<open>Only the fields the invariant reads matter.\<close>

lemma sched_ok_cong:
  assumes "s_links s' = s_links s" "s_threads s' = s_threads s" "s_current s' = s_current s"
    "s_lock s' = s_lock s" "s_fresh s' = s_fresh s"
  shows "sched_ok idle s' xs = sched_ok idle s xs"
  by (simp add: sched_ok_def run_queue_def assms)

text \<open>
  Scheduling keeps it. The current thread may have just died: then it leaves the queue. This is
  the invariant with the exception of that thread.
\<close>

definition sched_ok_but :: "addr \<Rightarrow> addr \<Rightarrow> sched \<Rightarrow> addr list \<Rightarrow> bool" where
  "sched_ok_but cur i s xs \<longleftrightarrow>
     run_queue s xs \<and> \<not> s_lock s \<and> 0 < s_fresh s \<and> s_current s = Some cur \<and> cur \<in> set xs \<and>
     (\<forall>t. s_threads s t \<noteq> None \<longrightarrow> 0 < t \<and> t < s_fresh s) \<and>
     (\<forall>t \<in> set xs. s_threads s t \<noteq> None) \<and>
     (\<forall>t th. s_threads s t = Some th \<longrightarrow>
        (t \<noteq> cur \<longrightarrow> (t \<in> set xs \<longleftrightarrow> th_state th \<noteq> THREAD_STATE_DEAD)) \<and>
        (t \<noteq> i \<longrightarrow> 1 \<le> th_priority th) \<and> (th_state th = THREAD_STATE_RUNNING \<longrightarrow> t = cur)) \<and>
     (\<exists>th. s_threads s i = Some th \<and> th_ready th \<and> th_priority th = 0 \<and> th_sleep_time th = 0) \<and> i \<in> set xs"

lemma sched_ok_but: 
  assumes "sched_ok (Some i) s xs" "s_current s = Some cur"
  shows "sched_ok_but cur i s xs"
  using assms sched_ok_idle[OF assms(1)] by (auto simp: sched_ok_def sched_ok_but_def)

lemma sched_thread_ok_but:
  assumes ok: "sched_ok_but cur i s (ys @ cur # zs)"
  shows "\<exists>t th s'. best_of s (zs @ ys @ [cur]) t \<and> s_threads s' t = Some th \<and>
    sched_thread ctx s = Some (th_ctx th, s') \<and> s_current s' = Some t \<and>
    (\<forall>u. s_threads s' u = map_option (resched cur ctx t u) (s_threads s u)) \<and>
    sched_ok (Some i) s' (if dead s cur then ys @ zs else ys @ cur # zs)"
proof -
  let ?xs = "if dead s cur then ys @ zs else ys @ cur # zs"
  from ok have ri: "ready s i" "0 \<le> prio s i" by (auto simp: sched_ok_but_def ready_def prio_def)
  from sched_thread_core[of s cur ys zs i ctx] ok ri obtain t th s' where r:
    "best_of s (zs @ ys @ [cur]) t" "s_threads s' t = Some th"
    "sched_thread ctx s = Some (th_ctx th, s')" "s_current s' = Some t" "run_queue s' ?xs"
    "\<And>u. s_threads s' u = map_option (resched cur ctx t u) (s_threads s u)"
    "s_lock s' = s_lock s" "s_fresh s' = s_fresh s" by (auto simp: sched_ok_but_def)
  have t: "t \<in> set (ys @ cur # zs)" "ready s t" using best_of_in[OF r(1)] by auto
  have d: "distinct (ys @ cur # zs)" using ok rq.elems_distinct[of s] by (simp only: sched_ok_but_def)
  have tx: "t \<in> set ?xs" using t by (auto simp: dead_def ready_def th_ready_def)
  have st: "th_state (resched cur ctx t u w) =
      (if u = t then THREAD_STATE_RUNNING
       else if u = cur \<and> th_state w = THREAD_STATE_RUNNING then THREAD_STATE_RUNNABLE else th_state w)" for u w
    by (simp add: resched_def Let_def)
  have same: "th_priority (resched cur ctx t u w) = th_priority w"
    "th_sleep_time (resched cur ctx t u w) = th_sleep_time w" for u w
    by (simp_all add: resched_def Let_def)
  have cx: "\<And>w. s_threads s cur = Some w \<Longrightarrow> dead s cur \<longleftrightarrow> th_state w = THREAD_STATE_DEAD"
    by (simp add: dead_def)
  have okD: "(u \<noteq> cur \<longrightarrow> (u \<in> set (ys @ cur # zs) \<longleftrightarrow> th_state w \<noteq> THREAD_STATE_DEAD)) \<and>
      (u \<noteq> i \<longrightarrow> 1 \<le> th_priority w) \<and> (th_state w = THREAD_STATE_RUNNING \<longrightarrow> u = cur)"
    if "s_threads s u = Some w" for u w
    using ok that unfolding sched_ok_but_def by blast
  have all: "(u \<in> set ?xs \<longleftrightarrow> th_state w \<noteq> THREAD_STATE_DEAD) \<and> (u \<noteq> i \<longrightarrow> 1 \<le> th_priority w) \<and>
      (th_state w = THREAD_STATE_RUNNING \<longrightarrow> t = u)" if "s_threads s' u = Some w" for u w
  proof -
    from that r(6) obtain w0 where w0: "s_threads s u = Some w0" "w = resched cur ctx t u w0" by auto
    have "1 \<le> th_priority w0" if "u \<noteq> i" using okD[OF w0(1)] that by blast
    moreover have "u \<in> set ?xs \<longleftrightarrow> th_state w \<noteq> THREAD_STATE_DEAD"
    proof (cases "u = cur")
      case True
      with w0 cx[of w0] d tx show ?thesis by (auto simp: st)
    next
      case False
      with okD[OF w0(1)] have "u \<in> set (ys @ cur # zs) \<longleftrightarrow> th_state w0 \<noteq> THREAD_STATE_DEAD" by blast
      with False w0 tx show ?thesis by (auto simp: st)
    qed
    moreover have "th_state w = THREAD_STATE_RUNNING \<longrightarrow> t = u"
      using okD[OF w0(1)] w0(2) by (auto simp: st split: if_splits)
    ultimately show ?thesis using w0(2) same by simp
  qed
  from ok obtain wi where wi: "s_threads s i = Some wi" "th_ready wi" "th_priority wi = 0" "th_sleep_time wi = 0"
    by (auto simp: sched_ok_but_def)
  have dom: "\<forall>t. s_threads s t \<noteq> None \<longrightarrow> 0 < t \<and> t < s_fresh s"
    and thx: "\<forall>t \<in> set (ys @ cur # zs). s_threads s t \<noteq> None"
    and lf: "\<not> s_lock s" "0 < s_fresh s" using ok unfolding sched_ok_but_def by blast+
  have "sched_ok (Some i) s' ?xs"
    unfolding sched_ok_def
  proof (intro conjI)
    show "\<forall>t. s_threads s' t \<noteq> None \<longrightarrow> 0 < t \<and> t < s_fresh s'"
      using dom r(6,8) by simp
    show "\<forall>t \<in> set ?xs. s_threads s' t \<noteq> None" using thx r(6) by auto
    show "\<forall>j. Some i = Some j \<longrightarrow> (\<exists>th. s_threads s' j = Some th \<and> th_ready th \<and> th_priority th = 0 \<and> th_sleep_time th = 0)"
      using r(6)[of i] wi by (simp add: same th_ready_def st)
    show "\<forall>u w. s_threads s' u = Some w \<longrightarrow>
        (u \<in> set ?xs \<longleftrightarrow> th_state w \<noteq> THREAD_STATE_DEAD) \<and> (Some u \<noteq> Some i \<longrightarrow> 1 \<le> th_priority w) \<and>
        (th_state w = THREAD_STATE_RUNNING \<longrightarrow> s_current s' = Some u)"
      using all r(4) by simp
  qed (use r(4,5,7,8) lf tx in \<open>simp_all\<close>)
  with r show ?thesis by blast
qed

lemma sched_thread_ok:
  assumes "sched_ok (Some i) s (ys @ cur # zs)" "s_current s = Some cur"
  shows "\<exists>t th s'. best_of s (zs @ ys @ [cur]) t \<and> s_threads s' t = Some th \<and>
    sched_thread ctx s = Some (th_ctx th, s') \<and> s_current s' = Some t \<and>
    (\<forall>u. s_threads s' u = map_option (resched cur ctx t u) (s_threads s u)) \<and>
    sched_ok (Some i) s' (ys @ cur # zs)"
proof -
  have "\<not> dead s cur" using assms(1) by (auto simp: dead_def sched_ok_def)
  with sched_thread_ok_but[OF sched_ok_but[OF assms]] show ?thesis by simp
qed

subsection \<open>The other operations\<close>

lemma arch_thread_create_cpu_ctx_sel:
  "arch_thread_create_cpu_ctx ms sb sz fn ar ep s = (r, s') \<Longrightarrow>
     s_links s' = s_links s \<and> s_threads s' = s_threads s \<and> s_current s' = s_current s \<and>
     s_lock s' = s_lock s \<and> s_fresh s' = s_fresh s"
  by (auto simp: arch_thread_create_cpu_ctx_def Let_def split: prod.splits bool.splits)

lemma malloc_ok: "malloc h = (m, h') \<Longrightarrow> h_ok h' = h_ok h \<and> (m \<or> (\<exists>n. \<not> h_ok h n))"
  by (auto simp: malloc_def split: if_splits)

lemma arch_thread_create_cpu_ctx_ok:
  assumes "arch_thread_create_cpu_ctx ms sb sz fn ar ep s = (r, s')"
  shows "h_ok (s_heap s') = h_ok (s_heap s) \<and> (r \<noteq> None \<or> (\<exists>n. \<not> h_ok (s_heap s) n))"
proof -
  obtain m hp where m: "malloc (s_heap s) = (m, hp)" by (metis prod.exhaust)
  from assms malloc_ok[OF m] show ?thesis
    by (cases m) (auto simp: arch_thread_create_cpu_ctx_def Let_def m)
qed

lemma thread_create_cases:
  assumes ok: "sched_ok idle s xs"
  shows "(\<exists>s'. thread_create ms ep name sb sz fn ar s = Some (None, s') \<and> sched_ok idle s' xs \<and>
       s_current s' = s_current s \<and> (\<exists>n. \<not> h_ok (s_heap s) n)) \<or>
    (\<exists>s' th. thread_create ms ep name sb sz fn ar s = Some (Some (s_fresh s), s') \<and>
       sched_ok idle s' (xs @ [s_fresh s]) \<and> s_threads s' = (s_threads s)(s_fresh s \<mapsto> th) \<and>
       s_fresh s \<notin> set xs \<and> s_current s' = s_current s \<and> th_state th = THREAD_STATE_RUNNABLE \<and> th_sleep_time th = 0 \<and> th_priority th = 1 \<and>
       h_ok (s_heap s') = h_ok (s_heap s))"
proof -
  obtain m hp where m: "malloc (s_heap s) = (m, hp)" by (metis prod.exhaust)
  show ?thesis
  proof (cases m)
    case False
    with m ok show ?thesis using malloc_ok[OF m]
      by (auto simp: thread_create_def sched_ok_cong[of "s\<lparr>s_heap := hp\<rparr>" s])
  next
    case True
    let ?s0 = "s\<lparr>s_heap := hp\<rparr>"
    obtain r s1 where r: "arch_thread_create_cpu_ctx ms sb sz fn ar ep ?s0 = (r, s1)" by (metis prod.exhaust)
    from arch_thread_create_cpu_ctx_sel[OF r] have s1: "s_links s1 = s_links s" "s_threads s1 = s_threads s"
      "s_current s1 = s_current s" "s_lock s1 = s_lock s" "s_fresh s1 = s_fresh s" by simp_all
    show ?thesis
    proof (cases r)
      case None
      with m r True s1 ok arch_thread_create_cpu_ctx_ok[OF r] malloc_ok[OF m] show ?thesis
        by (auto simp: thread_create_def sched_ok_cong[of "s1\<lparr>s_heap := mfree (s_heap s1)\<rparr>" s])
    next
      case (Some ctx)
      define th where "th = \<lparr>th_ctx = ctx, th_priority = 1, th_state = THREAD_STATE_RUNNABLE, th_sleep_time = 0,
        th_exit_code = 0, th_name = name, th_stack_base = sb, th_stack_size = sz, th_func = fn, th_arg = ar\<rparr>"
      let ?t = "s_fresh s"
      let ?s2 = "s1\<lparr>s_fresh := Suc ?t, s_threads := (s_threads s)(?t \<mapsto> th)\<rparr>"
      have f: "?t \<notin> set xs" "?t \<noteq> thread_list" "s_threads s ?t = None"
        using sched_okD(3,4)[OF ok] ok by (fastforce simp: thread_list_def sched_ok_def)+
      from list_add_tail_clist[of "s_links s" thread_list xs ?t] f ok obtain l where
        l: "list_add_tail ?t thread_list (s_links s) = Some l" "clist l thread_list (xs @ [?t])"
        by (auto simp: sched_ok_def run_queue_def)
      let ?s3 = "(sched_preempt_disable ?s2)\<lparr>s_lock := True\<rparr>"
      let ?s4 = "spin_unlock (?s3\<lparr>s_links := l\<rparr>)"
      have "spin_lock ?s2 = Some ?s3" using spin_lock_free[of ?s2] s1(4) ok by (simp add: sched_okD)
      then have e: "thread_create ms ep name sb sz fn ar s = Some (Some ?t, ?s4)"
        using m r True Some s1 l(1) by (simp add: thread_create_def Let_def th_def)
      have "sched_ok idle ?s4 (xs @ [?t])"
        unfolding sched_ok_def
      proof (intro conjI)
        show "\<forall>u w. s_threads ?s4 u = Some w \<longrightarrow>
            (u \<in> set (xs @ [?t]) \<longleftrightarrow> th_state w \<noteq> THREAD_STATE_DEAD) \<and> (Some u \<noteq> idle \<longrightarrow> 1 \<le> th_priority w) \<and>
            (th_state w = THREAD_STATE_RUNNING \<longrightarrow> s_current ?s4 = Some u)"
          using ok f(1) s1(3) by (auto simp: sched_ok_def th_def)
        show "case s_current ?s4 of None \<Rightarrow> idle = None | Some c \<Rightarrow> c \<in> set (xs @ [?t]) \<and> idle \<noteq> None"
          using ok s1(3) by (auto simp: sched_ok_def split: option.splits)
        show "\<forall>t. s_threads ?s4 t \<noteq> None \<longrightarrow> 0 < t \<and> t < s_fresh ?s4"
          using ok by (auto simp: sched_ok_def less_Suc_eq)
        show "\<forall>i. idle = Some i \<longrightarrow> (\<exists>th. s_threads ?s4 i = Some th \<and> th_ready th \<and> th_priority th = 0 \<and> th_sleep_time th = 0)"
          using ok f(3) by (auto simp: sched_ok_def)
      qed (use ok l(2) in \<open>auto simp: sched_ok_def run_queue_def\<close>)
      moreover have "h_ok (s_heap ?s4) = h_ok (s_heap s)"
        using arch_thread_create_cpu_ctx_ok[OF r] malloc_ok[OF m] by simp
      ultimately show ?thesis using e f(1) s1(3) by (auto simp: th_def)
    qed
  qed
qed

lemma fold_s_thread:
  assumes "distinct xs"
  shows "s_threads (fold (\<lambda>t s. s_thread s t f) xs s) u =
      (if u \<in> set xs then map_option f (s_threads s u) else s_threads s u)"
    "s_links (fold (\<lambda>t s. s_thread s t f) xs s) = s_links s"
    "s_current (fold (\<lambda>t s. s_thread s t f) xs s) = s_current s"
    "s_lock (fold (\<lambda>t s. s_thread s t f) xs s) = s_lock s"
    "s_fresh (fold (\<lambda>t s. s_thread s t f) xs s) = s_fresh s"
  using assms by (induction xs arbitrary: s) auto

lemma tick_thread_sel [simp]:
  "th_priority (tick_thread th) = th_priority th" "th_ctx (tick_thread th) = th_ctx th"
  "th_sleep_time th = 0 \<Longrightarrow> tick_thread th = th"
  by (simp_all add: tick_thread_def Let_def)

lemma tick_thread_state:
  "th_state (tick_thread th) = (if th_sleep_time th = 1 then THREAD_STATE_RUNNABLE else th_state th)"
  by (auto simp: tick_thread_def Let_def)

text \<open>A timer tick reaches every thread of the queue once and terminates.\<close>

lemma sched_tick_queue:
  assumes "run_queue s xs"
  shows "\<exists>s'. sched_tick s = Some s' \<and> s_links s' = s_links s \<and> s_current s' = s_current s \<and>
    s_lock s' = s_lock s \<and> s_fresh s' = s_fresh s \<and>
    (\<forall>u. s_threads s' u = (if u \<in> set xs then map_option tick_thread (s_threads s u) else s_threads s u))"
proof -
  let ?s = "s\<lparr>s_ticks := s_ticks s + 1\<rparr>"
  have "distinct xs" using assms by (rule rq.elems_distinct)
  with assms show ?thesis
    by (simp add: sched_tick_def Let_def list_for_each_clist[OF assms[unfolded run_queue_def]] fold_s_thread)
qed

lemma sched_tick_ok:
  assumes ok: "sched_ok idle s xs"
  shows "\<exists>s'. sched_tick s = Some s' \<and> sched_ok idle s' xs \<and> s_current s' = s_current s \<and>
    (\<forall>u. s_threads s' u = (if u \<in> set xs then map_option tick_thread (s_threads s u) else s_threads s u))"
proof -
  from sched_tick_queue[OF sched_okD(1)[OF ok]] obtain s' where s': "sched_tick s = Some s'"
    "s_links s' = s_links s" "s_current s' = s_current s" "s_lock s' = s_lock s" "s_fresh s' = s_fresh s"
    "\<And>u. s_threads s' u = (if u \<in> set xs then map_option tick_thread (s_threads s u) else s_threads s u)"
    by blast
  have th: "\<exists>w. s_threads s u = Some w \<and> th_priority w' = th_priority w \<and>
      (th_state w' = th_state w \<or> u \<in> set xs \<and> th_state w' = THREAD_STATE_RUNNABLE) \<and>
      (th_sleep_time w = 0 \<longrightarrow> w' = w)" if "s_threads s' u = Some w'" for u w'
    using that s'(6)[of u] by (auto simp: tick_thread_state split: if_splits)
  have "sched_ok idle s' xs"
    unfolding sched_ok_def
  proof (intro conjI)
    show "\<forall>u w. s_threads s' u = Some w \<longrightarrow>
        (u \<in> set xs \<longleftrightarrow> th_state w \<noteq> THREAD_STATE_DEAD) \<and> (Some u \<noteq> idle \<longrightarrow> 1 \<le> th_priority w) \<and>
        (th_state w = THREAD_STATE_RUNNING \<longrightarrow> s_current s' = Some u)"
    proof (intro allI impI)
      fix u w assume "s_threads s' u = Some w"
      from th[OF this] obtain w0 where w0: "s_threads s u = Some w0" "th_priority w = th_priority w0"
        "th_state w = th_state w0 \<or> u \<in> set xs \<and> th_state w = THREAD_STATE_RUNNABLE" by blast
      with ok have "(u \<in> set xs \<longleftrightarrow> th_state w0 \<noteq> THREAD_STATE_DEAD) \<and> (Some u \<noteq> idle \<longrightarrow> 1 \<le> th_priority w0) \<and>
        (th_state w0 = THREAD_STATE_RUNNING \<longrightarrow> s_current s = Some u)" unfolding sched_ok_def by blast
      with w0 s'(3) show "(u \<in> set xs \<longleftrightarrow> th_state w \<noteq> THREAD_STATE_DEAD) \<and> (Some u \<noteq> idle \<longrightarrow> 1 \<le> th_priority w) \<and>
        (th_state w = THREAD_STATE_RUNNING \<longrightarrow> s_current s' = Some u)" by auto
    qed
    show "\<forall>i. idle = Some i \<longrightarrow> (\<exists>th. s_threads s' i = Some th \<and> th_ready th \<and> th_priority th = 0 \<and> th_sleep_time th = 0)"
      using ok s'(6) unfolding sched_ok_def by fastforce
    show "\<forall>t. s_threads s' t \<noteq> None \<longrightarrow> 0 < t \<and> t < s_fresh s'" using ok s'(5,6) by (auto simp: sched_ok_def)
    show "\<forall>t \<in> set xs. s_threads s' t \<noteq> None" using ok s'(6) by (auto simp: sched_ok_def)
  qed (use ok s'(2-5) in \<open>auto simp: sched_ok_def run_queue_def\<close>)
  with s' show ?thesis by blast
qed

end
