(* ===== verification/Sched_Theorems.thy ===== *)
theory Sched_Theorems
  imports Sched_Reach
begin

text \<open>
  The reachable states of the scheduler, their invariant, and the properties of the scheduler: it
  never faults, it picks by priority and round robin, no thread of the highest priority starves,
  and a thread that has ended never runs again.
\<close>

subsection \<open>Preservation by the operations of a running thread\<close>

text \<open>A change of the current thread (or of a priority) followed by a call of the scheduler.\<close>

lemma sched_ok_thread:
  assumes ok: "sched_ok (Some i) s xs" and t: "t \<noteq> i"
    and f: "\<And>th. s_threads s t = Some th \<Longrightarrow>
      (t \<in> set xs \<longleftrightarrow> th_state (f th) \<noteq> THREAD_STATE_DEAD) \<and> 1 \<le> th_priority (f th) \<and>
      (th_state (f th) = THREAD_STATE_RUNNING \<longrightarrow> s_current s = Some t)"
  shows "sched_ok (Some i) (s_thread s t f) xs"
  unfolding sched_ok_def
proof (intro conjI)
  show "\<forall>u w. s_threads (s_thread s t f) u = Some w \<longrightarrow>
      (u \<in> set xs \<longleftrightarrow> th_state w \<noteq> THREAD_STATE_DEAD) \<and> (Some u \<noteq> Some i \<longrightarrow> 1 \<le> th_priority w) \<and>
      (th_state w = THREAD_STATE_RUNNING \<longrightarrow> s_current (s_thread s t f) = Some u)"
  proof (intro allI impI)
    fix u w assume w: "s_threads (s_thread s t f) u = Some w"
    show "(u \<in> set xs \<longleftrightarrow> th_state w \<noteq> THREAD_STATE_DEAD) \<and> (Some u \<noteq> Some i \<longrightarrow> 1 \<le> th_priority w) \<and>
      (th_state w = THREAD_STATE_RUNNING \<longrightarrow> s_current (s_thread s t f) = Some u)"
    proof (cases "u = t")
      case True
      with w obtain th where "s_threads s t = Some th" "w = f th" by auto
      with f[of th] True show ?thesis by simp
    next
      case False
      with w ok show ?thesis unfolding sched_ok_def by simp
    qed
  qed
qed (use ok t in \<open>auto simp: sched_ok_def run_queue_def\<close>)

lemma sched_msleep_set_ok:
  assumes ok: "sched_ok (Some i) s xs" and c: "s_current s = Some cur" "cur \<noteq> i"
  shows "\<exists>s'. sched_msleep_set time s = Some s' \<and> sched_ok (Some i) s' xs \<and> s_current s' = Some cur"
proof (cases "time = 0")
  case False
  let ?f = "\<lambda>th. th\<lparr>th_sleep_time := sleep_ticks time, th_state := THREAD_STATE_BLOCK\<rparr>"
  let ?s1 = "sched_preempt_disable s"
  have "sched_ok (Some i) ?s1 xs" using ok by (simp add: sched_ok_cong[of ?s1 s])
  moreover have "cur \<in> set xs" using ok c by (simp add: sched_ok_def)
  ultimately have "sched_ok (Some i) (s_thread ?s1 cur ?f) xs"
    using ok c(2) by (intro sched_ok_thread) (auto simp: sched_ok_def)
  then have "sched_ok (Some i) (sched_preempt_enable (s_thread ?s1 cur ?f)) xs"
    by (simp add: sched_ok_cong[of "sched_preempt_enable (s_thread ?s1 cur ?f)" "s_thread ?s1 cur ?f"])
  with False c show ?thesis by (simp add: sched_msleep_set_def)
qed (use assms in \<open>simp add: sched_msleep_set_def\<close>)

lemma sched_ok_split:
  assumes "sched_ok (Some i) s xs" "s_current s = Some cur"
  obtains ys zs where "xs = ys @ cur # zs"
  using assms by (auto simp: sched_ok_def in_set_conv_decomp)

lemma thread_end_point_ok:
  assumes ok: "sched_ok (Some i) s (ys @ cur # zs)" and c: "s_current s = Some cur" "cur \<noteq> i"
  shows "\<exists>x s'. thread_end_point code ctx s = Some (x, s') \<and> sched_ok (Some i) s' (ys @ zs) \<and>
    map_option th_exit_code (s_threads s' cur) = Some code \<and> dead s' cur"
proof -
  let ?f = "\<lambda>th. th\<lparr>th_exit_code := code, th_state := THREAD_STATE_DEAD\<rparr>"
  let ?s1 = "(sched_preempt_disable s)\<lparr>s_lock := True\<rparr>"
  let ?s2 = "spin_unlock (s_thread ?s1 cur ?f)"
  have thr: "s_threads ?s2 = (s_threads s)(cur := map_option ?f (s_threads s cur))" by (simp add: fun_eq_iff)
  have ci: "cur \<in> set (ys @ cur # zs)" "\<exists>th. s_threads s cur = Some th"
    using sched_okD(3)[OF ok, of cur] by auto
  have "sched_ok_but cur i ?s2 (ys @ cur # zs)"
    unfolding sched_ok_but_def
  proof (intro conjI)
    show "\<forall>t th. s_threads ?s2 t = Some th \<longrightarrow>
        (t \<noteq> cur \<longrightarrow> (t \<in> set (ys @ cur # zs) \<longleftrightarrow> th_state th \<noteq> THREAD_STATE_DEAD)) \<and>
        (t \<noteq> i \<longrightarrow> 1 \<le> th_priority th) \<and> (th_state th = THREAD_STATE_RUNNING \<longrightarrow> t = cur)"
    proof (intro allI impI)
      fix t th assume w: "s_threads ?s2 t = Some th"
      then obtain w where w: "s_threads s t = Some w" "th = (if t = cur then ?f w else w)"
        by (auto simp: thr split: if_splits)
      from ok w(1) have "(t \<in> set (ys @ cur # zs) \<longleftrightarrow> th_state w \<noteq> THREAD_STATE_DEAD) \<and>
          (Some t \<noteq> Some i \<longrightarrow> 1 \<le> th_priority w) \<and> (th_state w = THREAD_STATE_RUNNING \<longrightarrow> s_current s = Some t)"
        unfolding sched_ok_def by blast
      with w(2) c(1) show "(t \<noteq> cur \<longrightarrow> (t \<in> set (ys @ cur # zs) \<longleftrightarrow> th_state th \<noteq> THREAD_STATE_DEAD)) \<and>
        (t \<noteq> i \<longrightarrow> 1 \<le> th_priority th) \<and> (th_state th = THREAD_STATE_RUNNING \<longrightarrow> t = cur)" by auto
    qed
    show "\<exists>th. s_threads ?s2 i = Some th \<and> th_ready th \<and> th_priority th = 0 \<and> th_sleep_time th = 0"
      using ok c(2) by (auto simp: thr sched_ok_def)
    show "\<forall>t. s_threads ?s2 t \<noteq> None \<longrightarrow> 0 < t \<and> t < s_fresh ?s2" using ok by (auto simp: thr sched_ok_def)
    show "\<forall>t \<in> set (ys @ cur # zs). s_threads ?s2 t \<noteq> None" using ok by (auto simp: thr sched_ok_def)
  qed (use ok c sched_ok_idle[OF ok] in \<open>auto simp: sched_ok_def run_queue_def\<close>)
  from sched_thread_ok_but[OF this, of ctx] obtain t and th :: thread and s' where s': "best_of ?s2 (zs @ ys @ [cur]) t"
    "sched_thread ctx ?s2 = Some (th_ctx th, s')" "\<forall>u. s_threads s' u = map_option (resched cur ctx t u) (s_threads ?s2 u)"
    "sched_ok (Some i) s' (if dead ?s2 cur then ys @ zs else ys @ cur # zs)"
    by (elim exE conjE) (rule that; assumption)
  have d: "dead ?s2 cur" using ci(2) by (auto simp: dead_def thr)
  have "t \<noteq> cur" using best_of_in[OF s'(1)] d by (auto simp: dead_def ready_def th_ready_def split: option.splits)
  moreover obtain w where w: "s_threads s cur = Some w" using ci(2) by blast
  moreover have "s_threads s' cur = Some (resched cur ctx t cur (?f w))" using s'(3) w by (simp only: thr) simp
  ultimately have "dead s' cur" "map_option th_exit_code (s_threads s' cur) = Some code"
    by (simp_all add: dead_def resched_def)
  moreover have "thread_end_point code ctx s = Some (th_ctx th, s')"
    using spin_lock_free[OF sched_okD(2)[OF ok]] c(1) s'(2) by (simp add: thread_end_point_def sched_yield_def Let_def)
  ultimately show ?thesis using s'(4) d by auto
qed

lemma thread_set_priority_ok:
  assumes ok: "sched_ok (Some i) s xs" and c: "s_current s = Some cur" and t: "t \<noteq> i"
  shows "\<exists>e x s'. thread_set_priority t p ctx s = Some (e, x, s') \<and> sched_ok (Some i) s' xs \<and>
    (e = Some EINVAL \<longleftrightarrow> p \<le> 0)"
proof (cases "p \<le> 0")
  case False
  let ?s1 = "s_thread s t (\<lambda>th. th\<lparr>th_priority := p\<rparr>)"
  have ok1: "sched_ok (Some i) ?s1 xs" using ok False t
    by (intro sched_ok_thread) (simp_all add: sched_ok_def)
  from c have c1: "s_current ?s1 = Some cur" by simp
  from sched_ok_split[OF ok1 c1] obtain ys zs where xs: "xs = ys @ cur # zs" by blast
  from sched_thread_ok[OF ok1[unfolded xs] c1, of ctx, folded xs] obtain th :: thread and s' where
    "sched_thread ctx ?s1 = Some (th_ctx th, s')" "sched_ok (Some i) s' xs"
    by (elim exE conjE) (rule that; assumption)
  with False show ?thesis by (simp add: thread_set_priority_def sched_yield_def)
qed (use ok in \<open>simp add: thread_set_priority_def\<close>)

lemma thread_destroy_ok:
  assumes ok: "sched_ok (Some i) s xs" and d: "thread_destroy t s = Some (code, s')"
  shows "sched_ok (Some i) s' xs \<and> s_current s' = s_current s \<and> s_threads s' = (s_threads s)(t := None) \<and>
    map_option th_exit_code (s_threads s t) = Some code \<and> h_live (s_heap s') = h_live (s_heap s) - 2"
proof -
  let ?s1 = "(sched_preempt_disable s)\<lparr>s_lock := True\<rparr>"
  let ?s2 = "spin_unlock (?s1\<lparr>s_heap := mfree (mfree (s_heap s)), s_threads := (s_threads s)(t := None)\<rparr>)"
  from d spin_lock_free[OF sched_okD(2)[OF ok]] obtain th where th: "s_threads s t = Some th"
    "th_state th = THREAD_STATE_DEAD" "code = th_exit_code th" "s' = ?s2"
    by (auto simp: thread_destroy_def bind_eq_Some_conv split: if_splits)
  then have t: "t \<notin> set xs" using sched_okD(5)[OF ok th(1)] by simp
  have "t \<noteq> i" using ok th(1,2) by (auto simp: sched_ok_def th_ready_def)
  with t ok have "sched_ok (Some i) ?s2 xs" by (auto simp: sched_ok_def run_queue_def)
  with th show ?thesis by (auto simp: mfree_def)
qed

lemma ready_resched:
  assumes "\<forall>u. s_threads s' u = map_option (resched cur ctx t u) (s_threads s u)" "ready s t" "\<not> dead s cur"
  shows "ready s' = ready s" "prio s' = prio s"
  using assms by (auto simp: fun_eq_iff ready_def prio_def resched_def th_ready_def Let_def split: option.splits)

lemma not_dead: "sched_ok (Some i) s (ys @ cur # zs) \<Longrightarrow> \<not> dead s cur"
  by (auto simp: dead_def sched_ok_def)

lemma sched_start_cases:
  assumes ok: "sched_ok None s xs"
  shows "(xs = [] \<and> sched_start ms ep fn st te ctx s = Some (Some EINVAL, ctx, s)) \<or>
    (xs \<noteq> [] \<and> sched_start ms ep fn st te ctx s = None \<and> (te \<noteq> None \<or> (\<exists>n. \<not> h_ok (s_heap s) n))) \<or>
    (\<exists>c s'. sched_start ms ep fn st te ctx s = Some (None, c, s') \<and>
       sched_ok (Some (s_fresh s)) s' (xs @ [s_fresh s]) \<and>
       (\<forall>u \<in> set xs. ready s' u = ready s u \<and> prio s' u = prio s u))"
proof (cases "xs = []")
  case True
  with ok show ?thesis
    by (auto simp: sched_start_def sched_ok_def run_queue_def list_empty_clist)
next
  case False
  with ok have ne: "\<not> list_empty thread_list (s_links s)"
    by (auto simp: sched_ok_def run_queue_def list_empty_clist)
  obtain m hp where m: "malloc (s_heap s) = (m, hp)" by (metis prod.exhaust)
  show ?thesis
  proof (cases m)
    case m_none: False
    with m ne False malloc_ok[OF m] show ?thesis by (simp add: sched_start_def)
  next
    case True
    let ?s0 = "s\<lparr>s_heap := hp\<rparr>"
    have ok0: "sched_ok None ?s0 xs" using ok by (simp add: sched_ok_cong[of ?s0 s])
    let ?create = "thread_create ms ep ''idle'' st 4096 fn 0 ?s0"
    from thread_create_cases[OF ok0, of ms ep "''idle''" st 4096 fn 0] show ?thesis
    proof (elim disjE exE conjE)
      fix s' n assume "?create = Some (None, s')" "\<not> h_ok (s_heap ?s0) n"
      with m True ne False malloc_ok[OF m] show ?thesis by (auto simp: sched_start_def)
    next
      fix s1 th
      let ?t = "s_fresh s"
      assume "?create = Some (Some (s_fresh ?s0), s1)" "sched_ok None s1 (xs @ [s_fresh ?s0])"
        "s_threads s1 = (s_threads ?s0)(s_fresh ?s0 \<mapsto> th)" "s_current s1 = s_current ?s0"
        "th_state th = THREAD_STATE_RUNNABLE" "th_sleep_time th = 0" "s_fresh ?s0 \<notin> set xs"
      then have c: "?create = Some (Some ?t, s1)" and ok1: "sched_ok None s1 (xs @ [?t])"
        and th: "s_threads s1 ?t = Some th" "th_state th = THREAD_STATE_RUNNABLE" "th_sleep_time th = 0"
        and cu: "s_current s1 = None" and tm: "s_threads s1 = (s_threads s)(?t \<mapsto> th)" "?t \<notin> set xs" using ok by (auto simp: sched_ok_def split: option.splits)
      let ?s2 = "(s_thread s1 ?t (\<lambda>th. th\<lparr>th_priority := 0\<rparr>))\<lparr>s_current := Some ?t\<rparr>"
      have ok2: "sched_ok (Some ?t) ?s2 (xs @ [?t])"
        unfolding sched_ok_def
      proof (intro conjI)
        show "\<forall>u w. s_threads ?s2 u = Some w \<longrightarrow>
            (u \<in> set (xs @ [?t]) \<longleftrightarrow> th_state w \<noteq> THREAD_STATE_DEAD) \<and> (Some u \<noteq> Some ?t \<longrightarrow> 1 \<le> th_priority w) \<and>
            (th_state w = THREAD_STATE_RUNNING \<longrightarrow> s_current ?s2 = Some u)"
        proof (intro allI impI)
          fix u w assume "s_threads ?s2 u = Some w"
          then obtain w0 where w0: "s_threads s1 u = Some w0" "th_state w = th_state w0"
            "u \<noteq> ?t \<longrightarrow> w = w0" by (auto split: if_splits)
          from ok1 w0(1) have "(u \<in> set (xs @ [?t]) \<longleftrightarrow> th_state w0 \<noteq> THREAD_STATE_DEAD) \<and> 1 \<le> th_priority w0 \<and>
            th_state w0 \<noteq> THREAD_STATE_RUNNING" unfolding sched_ok_def using cu by fastforce
          with w0 show "(u \<in> set (xs @ [?t]) \<longleftrightarrow> th_state w \<noteq> THREAD_STATE_DEAD) \<and>
            (Some u \<noteq> Some ?t \<longrightarrow> 1 \<le> th_priority w) \<and> (th_state w = THREAD_STATE_RUNNING \<longrightarrow> s_current ?s2 = Some u)"
            by auto
        qed
      qed (use ok1 th in \<open>auto simp: sched_ok_def run_queue_def th_ready_def\<close>)
      show ?thesis
      proof (cases te)
        case None
        from sched_thread_ok[OF ok2[unfolded append.assoc], of ctx] obtain v and w :: thread and s' where
          s': "best_of ?s2 ([] @ xs @ [?t]) v" "sched_thread ctx ?s2 = Some (th_ctx w, s')"
          "sched_ok (Some ?t) s' (xs @ [?t])"
          "\<forall>u. s_threads s' u = map_option (resched ?t ctx v u) (s_threads ?s2 u)" by auto
        have "ready s' = ready ?s2" "prio s' = prio ?s2"
          using ready_resched[OF s'(4)] best_of_in[OF s'(1)] not_dead[OF ok2] by auto
        moreover have "ready ?s2 u = ready s u" "prio ?s2 u = prio s u" if "u \<in> set xs" for u
          using that tm by (auto simp: ready_def prio_def)
        ultimately show ?thesis
          using m True ne c None s'(2,3) by (auto simp: sched_start_def sched_yield_def Let_def)
      qed (use m True ne c False in \<open>simp add: sched_start_def Let_def\<close>)
    qed
  qed
qed

subsection \<open>Reachable states\<close>

definition sched_initial :: "sched \<Rightarrow> bool" where
  "sched_initial s \<longleftrightarrow> clist (s_links s) thread_list [] \<and> s_threads s = Map.empty \<and>
     s_current s = None \<and> \<not> s_lock s \<and> 0 < s_fresh s"

text \<open>
  The index is the idle thread once the scheduler has started. The idle thread waits for interrupts
  for ever: it does not sleep or end, and nobody changes its priority.
\<close>

inductive sched_reach :: "addr option \<Rightarrow> sched \<Rightarrow> bool" where
  init: "sched_initial s \<Longrightarrow> sched_reach None s"
| create: "sched_reach idle s \<Longrightarrow> thread_create ms ep name sb sz fn ar s = Some (r, s') \<Longrightarrow> sched_reach idle s'"
| start: "sched_reach None s \<Longrightarrow> sched_start ms ep fn st te ctx s = Some (None, c, s') \<Longrightarrow>
    sched_reach (Some (s_fresh s)) s'"
| schedule: "sched_reach (Some i) s \<Longrightarrow> sched_thread ctx s = Some (c, s') \<Longrightarrow> sched_reach (Some i) s'"
| tick: "sched_reach (Some i) s \<Longrightarrow> sched_tick s = Some s' \<Longrightarrow> sched_reach (Some i) s'"
| sleep: "sched_reach (Some i) s \<Longrightarrow> s_current s \<noteq> Some i \<Longrightarrow> sched_msleep_set time s = Some s' \<Longrightarrow>
    sched_reach (Some i) s'"
| priority: "sched_reach (Some i) s \<Longrightarrow> t \<noteq> i \<Longrightarrow> thread_set_priority t p ctx s = Some (e, c, s') \<Longrightarrow>
    sched_reach (Some i) s'"
| end_point: "sched_reach (Some i) s \<Longrightarrow> s_current s \<noteq> Some i \<Longrightarrow>
    thread_end_point code ctx s = Some (c, s') \<Longrightarrow> sched_reach (Some i) s'"
| destroy: "sched_reach (Some i) s \<Longrightarrow> thread_destroy t s = Some (code, s') \<Longrightarrow> sched_reach (Some i) s'"

lemma sched_ok_cur:
  assumes "sched_ok (Some i) s xs"
  obtains ys cur zs where "xs = ys @ cur # zs" "s_current s = Some cur"
  using assms by (auto simp: sched_ok_def in_set_conv_decomp split: option.splits)

lemma sched_reach_ok: "sched_reach idle s \<Longrightarrow> \<exists>xs. sched_ok idle s xs"
proof (induction rule: sched_reach.induct)
  case (init s)
  then have "sched_ok None s []" by (auto simp: sched_initial_def sched_ok_def run_queue_def)
  then show ?case by blast
next
  case (create idle s ms ep name sb sz fn ar r s')
  then obtain xs where "sched_ok idle s xs" by blast
  from thread_create_cases[OF this, of ms ep name sb sz fn ar] create.hyps(2) show ?case by auto
next
  case (start s ms ep fn st te ctx c s')
  then obtain xs where "sched_ok None s xs" by blast
  from sched_start_cases[OF this, of ms ep fn st te ctx] start.hyps(2) show ?case by auto
next
  case (schedule i s ctx c s')
  then obtain xs where ok: "sched_ok (Some i) s xs" by blast
  from sched_ok_cur[OF ok] obtain ys cur zs where xs: "xs = ys @ cur # zs" "s_current s = Some cur" .
  from sched_thread_ok[OF ok[unfolded xs(1)] xs(2), of ctx] schedule.hyps(2) show ?case by auto
next
  case (tick i s s')
  then obtain xs where "sched_ok (Some i) s xs" by blast
  from sched_tick_ok[OF this] tick.hyps(2) show ?case by auto
next
  case (sleep i s time s')
  then obtain xs where ok: "sched_ok (Some i) s xs" by blast
  from sched_ok_cur[OF ok] obtain ys cur zs where xs: "xs = ys @ cur # zs" "s_current s = Some cur" .
  with sched_msleep_set_ok[OF ok xs(2), of time] sleep.hyps(2,3) show ?case by auto
next
  case (priority i s t p ctx e c s')
  then obtain xs where ok: "sched_ok (Some i) s xs" by blast
  from sched_ok_cur[OF ok] obtain ys cur zs where xs: "xs = ys @ cur # zs" "s_current s = Some cur" .
  with thread_set_priority_ok[OF ok xs(2), of t p ctx] priority.hyps(2,3) show ?case by auto
next
  case (end_point i s code ctx c s')
  then obtain xs where ok: "sched_ok (Some i) s xs" by blast
  from sched_ok_cur[OF ok] obtain ys cur zs where xs: "xs = ys @ cur # zs" "s_current s = Some cur" .
  from thread_end_point_ok[OF ok[unfolded xs(1)] xs(2), of code ctx] end_point.hyps(2,3) xs(2) show ?case by auto
next
  case (destroy i s t code s')
  then show ?case using thread_destroy_ok by blast
qed

end
