(* ===== verification/Sched_Claims.thy ===== *)
theory Sched_Claims
  imports Sched_Theorems
begin

text \<open>
  The properties of the scheduler. \<open>sched_run fs\<close> is a series of calls of the scheduler, as the
  timer makes them; \<open>fs\<close> are the trap frames of the threads they interrupt.
\<close>

fun sched_run :: "u64 list \<Rightarrow> sched \<Rightarrow> sched option" where
  "sched_run [] s = Some s"
| "sched_run (ctx # fs) s = do { (c, s1) \<leftarrow> sched_thread ctx s; sched_run fs s1 }"

text \<open>Turning the circular order from one thread to another one.\<close>

lemma turn_order:
  assumes "zs @ ys @ [cur] = a @ t # b" "b \<noteq> []"
  shows "\<exists>ys' zs'. ys @ cur # zs = ys' @ t # zs' \<and> zs' @ ys' @ [t] = b @ a @ [t]"
proof -
  from assms obtain b' where b: "b = b' @ [cur]" "zs @ ys = a @ t # b'"
    by (cases b rule: rev_cases) auto
  from b(2) consider (z) z where "zs = a @ t # z" "b' = z @ ys" | (y) y where "ys = y @ t # b'" "a = zs @ y"
    by (auto simp: append_eq_append_conv2 Cons_eq_append_conv append_eq_Cons_conv)
  then show ?thesis
  proof cases
    case z
    with b(1) have "ys @ cur # zs = (ys @ cur # a) @ t # z" "z @ (ys @ cur # a) @ [t] = b @ a @ [t]" by simp_all
    then show ?thesis by blast
  next
    case y
    with b(1) have "ys @ cur # zs = y @ t # (b' @ cur # zs)" "(b' @ cur # zs) @ y @ [t] = b @ a @ [t]" by simp_all
    then show ?thesis by blast
  qed
qed

lemma best_of_max:
  assumes "best_of s us u" "us = p @ t # r" "ready s t" "\<forall>v \<in> set us. ready s v \<longrightarrow> prio s v \<le> prio s t"
    "t \<noteq> u" "distinct us"
  shows "\<exists>a b. us = a @ u # b @ t # r \<and> length a + length b < length p"
proof -
  from assms(1) obtain a b where ab: "us = a @ u # b" "ready s u" "\<forall>v \<in> set a. ready s v \<longrightarrow> prio s v < prio s u"
    by (auto simp: best_of_def)
  have "prio s u \<le> prio s t" using assms(4) ab(1,2) by simp
  then have "t \<notin> set a" using ab(3) assms(3) by force
  moreover have "t \<in> set us" using assms(2) by simp
  ultimately have "t \<in> set b" using ab(1) assms(5) by auto
  then obtain b1 b2 where b: "b = b1 @ t # b2" by (auto simp: in_set_conv_decomp)
  have "t \<notin> set p" "t \<notin> set r" using assms(2,6) by auto
  then have "p = a @ u # b1 \<and> r = b2"
    using append_Cons_eq_iff[of t p r "a @ u # b1" b2] assms(2) ab(1) b by simp
  with ab(1) b show ?thesis by auto
qed

lemma sched_run_reaches:
  assumes "sched_ok (Some i) s (ys @ cur # zs)" "s_current s = Some cur"
    "zs @ ys @ [cur] = p @ t # r" "ready s t" "\<forall>u \<in> set (ys @ cur # zs). ready s u \<longrightarrow> prio s u \<le> prio s t"
    "length p < length fs"
  shows "\<exists>n \<le> length p. \<exists>s'. sched_run (take (Suc n) fs) s = Some s' \<and> s_current s' = Some t"
  using assms
proof (induction "length p" arbitrary: s ys cur zs p r fs rule: less_induct)
  case less
  from less.prems(6) obtain ctx fs' where fs: "fs = ctx # fs'" by (cases fs) auto
  from sched_thread_ok[OF less.prems(1,2), of ctx] obtain u th s1 where u:
    "best_of s (zs @ ys @ [cur]) u" "sched_thread ctx s = Some (th_ctx (th :: thread), s1)" "s_current s1 = Some u"
    "\<forall>v. s_threads s1 v = map_option (resched cur ctx u v) (s_threads s v)"
    "sched_ok (Some i) s1 (ys @ cur # zs)"
    by (elim exE conjE) (rule that; assumption)
  show ?case
  proof (cases "u = t")
    case True
    with u(2,3) fs show ?thesis by (intro exI[of _ "0::nat"]) simp
  next
    case False
    have ur: "ready s u" using best_of_in[OF u(1)] by simp
    have d: "distinct (zs @ ys @ [cur])"
      using rq.elems_distinct[OF sched_okD(1)[OF less.prems(1)]] by auto
    from best_of_max[OF u(1) less.prems(3,4) _ _ d] False less.prems(5) obtain a b where
      ab: "zs @ ys @ [cur] = a @ u # b @ t # r" "length a + length b < length p" by auto
    from turn_order[OF ab(1)] obtain ys' zs' where t: "ys @ cur # zs = ys' @ u # zs'"
      "zs' @ ys' @ [u] = (b @ t # r) @ a @ [u]" by auto
    note same = ready_resched[OF u(4) ur not_dead[OF less.prems(1)]]
    have "\<exists>n \<le> length b. \<exists>s'. sched_run (take (Suc n) fs') s1 = Some s' \<and> s_current s' = Some t"
    proof (rule less.hyps)
      show "length b < length p" using ab(2) by simp
      show "sched_ok (Some i) s1 (ys' @ u # zs')" using u(5) t(1) by simp
      show "zs' @ ys' @ [u] = b @ t # (r @ a @ [u])" using t(2) by simp
      show "\<forall>v \<in> set (ys' @ u # zs'). ready s1 v \<longrightarrow> prio s1 v \<le> prio s1 t"
        using less.prems(5) t(1) same by simp
      show "length b < length fs'" using ab(2) less.prems(6) fs by simp
    qed (use u(3) less.prems(4) same in auto)
    then obtain n s' where "n \<le> length b" "sched_run (take (Suc n) fs') s1 = Some s'" "s_current s' = Some t" by blast
    with fs u(2) ab(2) show ?thesis by (intro exI[of _ "Suc n"]) simp
  qed
qed

lemma sched_runs_best:
  assumes ok: "sched_ok (Some i) s xs" and t: "t \<in> set xs" "ready s t"
    "\<forall>u \<in> set xs. ready s u \<longrightarrow> prio s u \<le> prio s t" and fs: "length fs = length xs"
  shows "\<exists>n s'. 0 < n \<and> n \<le> length xs \<and> sched_run (take n fs) s = Some s' \<and> s_current s' = Some t"
proof -
  from sched_ok_cur[OF ok] obtain ys cur zs where c: "xs = ys @ cur # zs" "s_current s = Some cur" .
  have "t \<in> set (zs @ ys @ [cur])" using t(1) c(1) by auto
  then obtain p r where pr: "zs @ ys @ [cur] = p @ t # r" by (metis in_set_conv_decomp)
  have l: "length p < length fs" using arg_cong[OF pr, of length] c(1) fs by simp
  from sched_run_reaches[OF ok[unfolded c(1)] c(2) pr t(2) t(3)[unfolded c(1)] l] obtain n s' where
    "n \<le> length p" "sched_run (take (Suc n) fs) s = Some s'" "s_current s' = Some t" by blast
  with l fs show ?thesis by (intro exI[of _ "Suc n"]) auto
qed

lemma sched_reach_run: "sched_reach (Some i) s \<Longrightarrow> sched_run fs s = Some s' \<Longrightarrow> sched_reach (Some i) s'"
  by (induction fs arbitrary: s) (auto simp: bind_eq_Some_conv intro: sched_reach.schedule)

subsection \<open>A small system\<close>

definition sched0 :: sched where
  "sched0 = \<lparr>s_links = INIT_LIST_HEAD thread_list \<lparr>l_next = Map.empty, l_prev = Map.empty\<rparr>,
     s_threads = Map.empty, s_current = None, s_lock = False, s_preempt = 0, s_irq = False,
     s_in_irq = False, s_ticks = 0, s_frames = Map.empty, s_heap = heap_init, s_fresh = 1\<rparr>"

lemma sched0_reach: "sched_reach None sched0" "sched_ok None sched0 []"
proof -
  have "sched_initial sched0" by (simp add: sched_initial_def sched0_def INIT_LIST_HEAD_clist)
  then show "sched_reach None sched0" by (rule sched_reach.init)
  show "sched_ok None sched0 []"
    by (simp add: sched_ok_def sched0_def run_queue_def INIT_LIST_HEAD_clist)
qed

text \<open>The thread 1 and the idle thread 2, just started.\<close>

lemma demo_reach:
  "\<exists>s. sched_reach (Some 2) s \<and> sched_ok (Some 2) s [1, 2] \<and> ready s 1 \<and> prio s 1 = 1"
proof -
  from thread_create_cases[OF sched0_reach(2), of 0 0 "''a''" 0 0 0 0] obtain s1 th where s1:
    "thread_create 0 0 ''a'' 0 0 0 0 sched0 = Some (Some (s_fresh sched0), s1)"
    "sched_ok None s1 ([] @ [s_fresh sched0])" "s_threads s1 = (s_threads sched0)(s_fresh sched0 \<mapsto> th)"
    "th_state th = THREAD_STATE_RUNNABLE" "th_priority th = 1" "h_ok (s_heap s1) = h_ok (s_heap sched0)"
    by (auto simp: sched0_def heap_init_def)
  have r1: "sched_reach None s1" by (rule sched_reach.create[OF sched0_reach(1) s1(1)])
  have f: "s_fresh sched0 = 1" by (simp add: sched0_def)
  have ok1: "sched_ok None s1 [1]" using s1(2) f by simp
  have rd: "ready s1 1" "prio s1 1 = 1" using s1(3-5) f by (simp_all add: ready_def prio_def th_ready_def)
  have f1: "s_fresh s1 = 2"
  proof -
    have "s_fresh s1 = Suc (s_fresh sched0)"
      using s1(1) by (auto simp: thread_create_def arch_thread_create_cpu_ctx_def Let_def sched0_def heap_init_def
          malloc_def bind_eq_Some_conv spin_lock_free)
    then show ?thesis using f by simp
  qed
  from sched_start_cases[OF ok1, of 0 0 0 0 None 0] s1(6) f1 obtain c s' where
    "sched_start 0 0 0 0 None 0 s1 = Some (None, c, s')" "sched_ok (Some 2) s' [1, 2]"
    "ready s' 1" "prio s' 1 = 1"
    using rd by (auto simp: sched0_def heap_init_def)
  with sched_reach.start[OF r1] f1 show ?thesis by fastforce
qed

subsection \<open>A sleep that ends too early\<close>

text \<open>
  \<open>sched_msleep\<close> blocks the current thread and enables preemption before it yields. If the sleep is
  one tick long and the tick comes in this window, \<open>sched_tick\<close> makes the thread RUNNABLE while it is
  still the current one, and \<open>sched_thread\<close>, which saves the frame of a RUNNING or a BLOCK thread
  only, switches away without saving: the thread goes on later from an old frame.
\<close>

lemma sleep_ticks_short: "time < 10 \<Longrightarrow> sleep_ticks time = 1"
proof -
  assume t: "time < 10"
  then have l: "unat time < 10" by (simp add: word_less_nat_alt)
  have "unat (time * 100) = unat time * 100"
    using l by (subst unat_mult_lem[THEN iffD1]) simp_all
  then have "unat (time * 100 div 1000) = 0" using l by (simp add: unat_div)
  then have "time * 100 div 1000 = 0" by (simp only: unat_eq_zero)
  then show ?thesis by (simp add: sleep_ticks_def sched_tick_hz_def)
qed

lemma short_sleep_loses_frame:
  assumes ok: "sched_ok (Some i) s xs" and c: "s_current s = Some t" "t \<noteq> i" and time: "0 < time" "time < 10"
  shows "\<exists>s1 s2 th s3. sched_msleep_set time s = Some s1 \<and> sched_tick s1 = Some s2 \<and>
    sched_thread ctx s2 = Some (th_ctx (th :: thread), s3) \<and>
    map_option th_ctx (s_threads s3 t) = map_option th_ctx (s_threads s t)"
proof -
  from sched_msleep_set_ok[OF ok c, of time] obtain s1 where s1: "sched_msleep_set time s = Some s1"
    "sched_ok (Some i) s1 xs" "s_current s1 = Some t" by blast
  have tx: "t \<in> set xs" using ok c by (auto simp: sched_ok_def)
  then obtain w where w: "s_threads s t = Some w" using sched_okD(3)[OF ok] by blast
  have w1: "s_threads s1 t = Some (w\<lparr>th_sleep_time := 1, th_state := THREAD_STATE_BLOCK\<rparr>)"
  proof -
    have "time \<noteq> 0" using time(1) by auto
    with s1(1) c have "s1 = sched_preempt_enable (s_thread (sched_preempt_disable s) t
        (\<lambda>th. th\<lparr>th_sleep_time := sleep_ticks time, th_state := THREAD_STATE_BLOCK\<rparr>))"
      by (simp add: sched_msleep_set_def)
    with w sleep_ticks_short[OF time(2)] show ?thesis by simp
  qed
  from sched_tick_ok[OF s1(2)] obtain s2 where s2: "sched_tick s1 = Some s2" "sched_ok (Some i) s2 xs"
    "s_current s2 = s_current s1"
    "\<forall>u. s_threads s2 u = (if u \<in> set xs then map_option tick_thread (s_threads s1 u) else s_threads s1 u)" by blast
  have w2: "\<exists>w2. s_threads s2 t = Some w2 \<and> th_state w2 = THREAD_STATE_RUNNABLE \<and> th_ctx w2 = th_ctx w"
    using s2(4) w1 tx by (simp add: tick_thread_state)
  have c2: "s_current s2 = Some t" using s2(3) s1(3) by simp
  from sched_ok_split[OF s2(2) c2] obtain ys zs where xs: "xs = ys @ t # zs" .
  from sched_thread_ok[OF s2(2)[unfolded xs] c2, of ctx] obtain u and th :: thread and s3 where s3:
    "sched_thread ctx s2 = Some (th_ctx th, s3)"
    "\<forall>v. s_threads s3 v = map_option (resched t ctx u v) (s_threads s2 v)"
    by (elim exE conjE) (rule that; assumption)
  from w2 obtain v where v: "s_threads s2 t = Some v" "th_state v = THREAD_STATE_RUNNABLE" "th_ctx v = th_ctx w" by blast
  then have "s_threads s3 t = Some (resched t ctx u t v)" using s3(2) by simp
  with v w have "map_option th_ctx (s_threads s3 t) = map_option th_ctx (s_threads s t)"
    by (simp add: resched_def)
  with s1(1) s2(1) s3(1) show ?thesis by blast
qed

subsection \<open>Properties\<close>

text \<open>
  C15: The scheduler never faults and decides as documented. In every reachable state with a started
  scheduler, a call of \<open>sched_thread\<close> returns, and switches to the first thread of the highest
  priority among the ready threads of the run queue, in the circular order that begins behind the
  current thread and ends with it; that thread is RUNNING, every other is as before, but a
  RUNNING current thread becomes RUNNABLE and its trap frame is saved.
\<close>

theorem sched_thread_picks:
  assumes "sched_reach (Some i) s" "s_current s = Some cur"
  shows "\<exists>ys zs t th s'. run_queue s (ys @ cur # zs) \<and> best_of s (zs @ ys @ [cur]) t \<and>
    sched_thread ctx s = Some (th_ctx th, s') \<and> s_current s' = Some t \<and> s_threads s' t = Some th \<and>
    th_state th = THREAD_STATE_RUNNING \<and> run_queue s' (ys @ cur # zs) \<and>
    (\<forall>u. s_threads s' u = map_option (resched cur ctx t u) (s_threads s u))"
proof -
  from sched_reach_ok[OF assms(1)] obtain xs where ok: "sched_ok (Some i) s xs" by blast
  from sched_ok_split[OF ok assms(2)] obtain ys zs where xs: "xs = ys @ cur # zs" .
  from sched_thread_ok[OF ok[unfolded xs] assms(2), of ctx] obtain t th s' where r:
    "best_of s (zs @ ys @ [cur]) t" "s_threads s' t = Some th" "sched_thread ctx s = Some (th_ctx th, s')"
    "s_current s' = Some t" "\<forall>u. s_threads s' u = map_option (resched cur ctx t u) (s_threads s u)"
    "sched_ok (Some i) s' (ys @ cur # zs)" by (elim exE conjE) (rule that; assumption)
  from r(2,5) have "th_state th = THREAD_STATE_RUNNING" by (auto simp: resched_def)
  with r sched_okD(1)[OF r(6)] sched_okD(1)[OF ok] xs show ?thesis by blast
qed

theorem sched_thread_picks_witness:
  "\<exists>s t th s'. sched_reach (Some 2) s \<and> sched_thread 64 s = Some (th_ctx th, s') \<and>
     s_current s' = Some t \<and> s_threads s' t = Some th \<and> th_state th = THREAD_STATE_RUNNING"
proof -
  obtain s where s: "sched_reach (Some 2) s" "sched_ok (Some 2) s [1, 2]" using demo_reach by blast
  from sched_ok_cur[OF s(2)] obtain ys cur zs where c: "[1, 2] = ys @ cur # zs" "s_current s = Some cur" .
  from sched_thread_picks[OF s(1) c(2), of 64] s(1) show ?thesis by blast
qed

text \<open>
  C16: No thread of the highest priority starves. If a thread of the run queue is ready and no ready
  thread has a higher priority, it runs after at most as many calls of the scheduler as the queue
  has threads, whatever threads of its priority compete with it.
\<close>

theorem sched_round_robin:
  assumes "sched_reach (Some i) s" "run_queue s xs" "t \<in> set xs" "ready s t"
    "\<forall>u \<in> set xs. ready s u \<longrightarrow> prio s u \<le> prio s t" "length fs = length xs"
  shows "\<exists>n s'. 0 < n \<and> n \<le> length xs \<and> sched_run (take n fs) s = Some s' \<and> s_current s' = Some t"
proof -
  from sched_reach_ok[OF assms(1)] obtain xs' where "sched_ok (Some i) s xs'" by blast
  moreover have "xs' = xs" using sched_okD(1)[OF calculation] assms(2) by (auto simp: run_queue_def dest: clist_unique)
  ultimately have ok: "sched_ok (Some i) s xs" by simp
  show ?thesis by (rule sched_runs_best[OF ok assms(3-6)])
qed

theorem sched_round_robin_witness:
  "\<exists>s n s'. sched_reach (Some 2) s \<and> n \<le> 2 \<and> sched_run (take n [64, 64]) s = Some s' \<and> s_current s' = Some 1"
proof -
  obtain s where s: "sched_reach (Some 2) s" "sched_ok (Some 2) s [1, 2]" "ready s 1" "prio s 1 = 1"
    using demo_reach by blast
  from sched_ok_idle(3)[OF s(2)] s(4) have "\<forall>u \<in> set [1, 2]. ready s u \<longrightarrow> prio s u \<le> prio s 1" by simp
  from sched_round_robin[OF s(1) sched_okD(1)[OF s(2)] _ s(3) this, of "[64, 64]"] obtain n s' where
    "n \<le> length [1, 2 :: nat]" "sched_run (take n [64, 64]) s = Some s'" "s_current s' = Some 1" by auto
  with s(1) show ?thesis by (intro exI[of _ s] exI[of _ n] exI[of _ s']) simp
qed

text \<open>
  C17: A thread that has ended never runs again. In every reachable state, after any number of
  calls of the scheduler, the current thread is not one that is DEAD.
\<close>

theorem sched_dead_never_runs:
  assumes "sched_reach (Some i) s" "dead s t" "sched_run fs s = Some s'"
  shows "s_current s' \<noteq> Some t \<and> dead s' t"
  using assms
proof (induction fs arbitrary: s)
  case Nil
  from sched_reach_ok[OF Nil.prems(1)] obtain xs where ok: "sched_ok (Some i) s xs" by blast
  from sched_ok_cur[OF ok] obtain ys cur zs where c: "xs = ys @ cur # zs" "s_current s = Some cur" .
  from not_dead[OF ok[unfolded c(1)]] Nil.prems(2,3) c(2) show ?case by auto
next
  case (Cons ctx fs)
  from sched_reach_ok[OF Cons.prems(1)] obtain xs where ok: "sched_ok (Some i) s xs" by blast
  from sched_ok_cur[OF ok] obtain ys cur zs where c: "xs = ys @ cur # zs" "s_current s = Some cur" .
  from sched_thread_ok[OF ok[unfolded c(1)] c(2), of ctx] obtain u and th :: thread and s1 where r:
    "best_of s (zs @ ys @ [cur]) u" "sched_thread ctx s = Some (th_ctx th, s1)"
    "\<forall>v. s_threads s1 v = map_option (resched cur ctx u v) (s_threads s v)"
    by (elim exE conjE) (rule that; assumption)
  have "u \<noteq> t" using best_of_in[OF r(1)] Cons.prems(2)
    by (auto simp: dead_def ready_def th_ready_def split: option.splits)
  moreover obtain w where "s_threads s t = Some w" "th_state w = THREAD_STATE_DEAD"
    using Cons.prems(2) by (auto simp: dead_def)
  ultimately have "dead s1 t" using r(3)[rule_format, of t] by (simp add: dead_def resched_def)
  moreover have "sched_run fs s1 = Some s'" using Cons.prems(3) r(2) by simp
  ultimately show ?case using Cons.IH sched_reach.schedule[OF Cons.prems(1) r(2)] by blast
qed

theorem sched_dead_never_runs_witness:
  "\<exists>s s'. sched_reach (Some 2) s \<and> dead s 1 \<and> sched_run [64] s = Some s' \<and> s_current s' \<noteq> Some 1"
proof -
  obtain s where s: "sched_reach (Some 2) s" "sched_ok (Some 2) s [1, 2]" "ready s 1" "prio s 1 = 1"
    using demo_reach by blast
  from sched_ok_idle(3)[OF s(2)] s(4) have "\<forall>u \<in> set [1, 2]. ready s u \<longrightarrow> prio s u \<le> prio s 1" by simp
  from sched_runs_best[OF s(2) _ s(3) this, of "[0, 0]"] obtain n s1 where
    n: "sched_run (take n [0, 0]) s = Some s1" "s_current s1 = Some 1" by auto
  have r1: "sched_reach (Some 2) s1" by (rule sched_reach_run[OF s(1) n(1)])
  from sched_reach_ok[OF r1] obtain xs where ok: "sched_ok (Some 2) s1 xs" by blast
  from sched_ok_split[OF ok n(2)] obtain ys zs where xs: "xs = ys @ 1 # zs" .
  from thread_end_point_ok[OF ok[unfolded xs] n(2), of 0 0] obtain c s2 where
    s2: "thread_end_point 0 0 s1 = Some (c, s2)" "dead s2 1" "sched_ok (Some 2) s2 (ys @ zs)" by auto
  have r2: "sched_reach (Some 2) s2" by (rule sched_reach.end_point[OF r1 _ s2(1)]) (simp add: n(2))
  from sched_ok_cur[OF s2(3)] obtain ys' cur zs' where c: "ys @ zs = ys' @ cur # zs'" "s_current s2 = Some cur" .
  from sched_thread_ok[OF s2(3)[unfolded c(1)] c(2), of 64] obtain th :: thread and s3 where
    "sched_thread 64 s2 = Some (th_ctx th, s3)" by (elim exE conjE) (rule that; assumption)
  then have "sched_run [64] s2 = Some s3" by simp
  with sched_dead_never_runs[OF r2 s2(2) this] r2 s2(2) show ?thesis by blast
qed

end
