(* ===== verification/Semaphore.thy ===== *)
theory Semaphore
  imports Sched List_Head_Props
begin

text \<open>
  The counting semaphores of \<open>common/semaphore.c\<close>. The wait list is an intrusive list: its head is
  the address \<open>wait_list\<close>, and the node of the \<open>struct sem_thread\<close> that \<open>sem_wait\<close> keeps on the stack
  of thread \<open>t\<close> is \<open>sem_node t\<close>. What happens between \<open>spin_lock\<close> and \<open>spin_unlock\<close> is one step, since
  preemption is disabled there; between the steps of one thread any other thread may run.
\<close>

subsection \<open>The operations\<close>

definition wait_list :: addr where "wait_list = 0"
definition sem_node :: "addr \<Rightarrow> addr" where "sem_node t = Suc t"
definition node_thread :: "addr \<Rightarrow> addr" where "node_thread n = n - 1"

record sem =
  sem_count :: int
  sem_links :: links

text \<open>The semaphore and what it reads and writes of the threads.\<close>

record sem_sys =
  ss_sem :: sem
  ss_state :: "addr \<Rightarrow> thread_state"
  ss_prio :: "addr \<Rightarrow> int"

definition sem_init :: "int \<Rightarrow> sem \<Rightarrow> sem" where
  "sem_init value s = s\<lparr>sem_count := value, sem_links := INIT_LIST_HEAD wait_list (sem_links s)\<rparr>"

text \<open>The entry of \<open>sem_wait\<close>; then \<open>in_list\<close> is false.\<close>

definition sem_wait_enter :: "addr \<Rightarrow> sem_sys \<Rightarrow> sem_sys" where
  "sem_wait_enter t s =
     s\<lparr>ss_sem := (ss_sem s)\<lparr>sem_links := INIT_LIST_HEAD (sem_node t) (sem_links (ss_sem s))\<rparr>\<rparr>"

text \<open>
  One round of the loop of \<open>sem_wait\<close> in thread \<open>t\<close>, from \<open>spin_lock\<close> to \<open>spin_unlock\<close>: whether it is
  the last one, and the new value of \<open>in_list\<close>.
\<close>

definition sem_wait_round :: "addr \<Rightarrow> bool \<Rightarrow> sem_sys \<Rightarrow> (bool \<times> bool \<times> sem_sys) option" where
  "sem_wait_round t in_list s =
     (let sem = ss_sem s in
      if sem_count sem > 0
      then do { l \<leftarrow> (if in_list then list_del (sem_node t) (sem_links sem) else Some (sem_links sem));
                Some (True, in_list, s\<lparr>ss_sem := \<lparr>sem_count = sem_count sem - 1, sem_links = l\<rparr>\<rparr>) }
      else do { l \<leftarrow> list_add_tail (sem_node t) wait_list (sem_links sem);
                Some (False, True,
                  s\<lparr>ss_state := (ss_state s)(t := THREAD_STATE_BLOCK), ss_sem := sem\<lparr>sem_links := l\<rparr>\<rparr>) })"

definition sem_pick :: "sem_sys \<Rightarrow> addr \<Rightarrow> addr option \<times> int \<Rightarrow> addr option \<times> int" where
  "sem_pick s n best =
     (let t = node_thread n in
      if ss_state s t \<noteq> THREAD_STATE_BLOCK then best
      else if ss_prio s t > snd best then (Some n, ss_prio s t) else best)"

definition sem_post :: "sem_sys \<Rightarrow> sem_sys option" where
  "sem_post s =
     (let s1 = s\<lparr>ss_sem := (ss_sem s)\<lparr>sem_count := sem_count (ss_sem s) + 1\<rparr>\<rparr> in
      do { (best, best_prio) \<leftarrow> list_for_each (sem_pick s1) wait_list (sem_links (ss_sem s1)) (None, - 1);
           case best of
             None \<Rightarrow> Some s1
           | Some n \<Rightarrow>
               map_option (\<lambda>l. s1\<lparr>ss_state := (ss_state s1)(node_thread n := THREAD_STATE_RUNNABLE),
                   ss_sem := (ss_sem s1)\<lparr>sem_links := l\<rparr>\<rparr>)
                 (list_del_init n (sem_links (ss_sem s1))) })"

subsection \<open>Interleavings\<close>

text \<open>
  Where each thread is: outside of \<open>sem_wait\<close>, or before a round of its loop with a value of
  \<open>in_list\<close>. \<open>sem_reach v p n s\<close>: the state \<open>s\<close> is reached from the initial value \<open>v\<close> after \<open>p\<close> posts and
  \<open>n\<close> completed waits. The rule \<open>other\<close> is everything else that goes on: scheduling, sleeping and
  waking outside, changes of priorities. It neither blocks nor wakes a thread inside \<open>sem_wait\<close>,
  and priorities stay non-negative, as \<open>thread_set_priority\<close> and the scheduler guarantee.
\<close>

datatype sem_pc = Outside | Waiting bool

inductive sem_reach :: "int \<Rightarrow> int \<Rightarrow> int \<Rightarrow> (addr \<Rightarrow> sem_pc) \<Rightarrow> sem_sys \<Rightarrow> bool" where
  init: "0 \<le> v \<Longrightarrow> \<forall>t. 0 \<le> ss_prio s t \<Longrightarrow>
    sem_reach v 0 0 (\<lambda>_. Outside) (s\<lparr>ss_sem := sem_init v (ss_sem s)\<rparr>)"
| enter: "sem_reach v p n pc s \<Longrightarrow> pc t = Outside \<Longrightarrow> ss_state s t = THREAD_STATE_RUNNING \<Longrightarrow>
    sem_reach v p n (pc(t := Waiting False)) (sem_wait_enter t s)"
| again: "sem_reach v p n pc s \<Longrightarrow> pc t = Waiting l \<Longrightarrow> ss_state s t \<noteq> THREAD_STATE_BLOCK \<Longrightarrow>
    sem_wait_round t l s = Some (False, l', s') \<Longrightarrow> sem_reach v p n (pc(t := Waiting l')) s'"
| pass: "sem_reach v p n pc s \<Longrightarrow> pc t = Waiting l \<Longrightarrow> ss_state s t \<noteq> THREAD_STATE_BLOCK \<Longrightarrow>
    sem_wait_round t l s = Some (True, l', s') \<Longrightarrow> sem_reach v p (n + 1) (pc(t := Outside)) s'"
| post: "sem_reach v p n pc s \<Longrightarrow> sem_post s = Some s' \<Longrightarrow> sem_reach v (p + 1) n pc s'"
| other: "sem_reach v p n pc s \<Longrightarrow> \<forall>t. 0 \<le> pr t \<Longrightarrow>
    \<forall>t. pc t \<noteq> Outside \<longrightarrow> (st t = THREAD_STATE_BLOCK \<longleftrightarrow> ss_state s t = THREAD_STATE_BLOCK) \<Longrightarrow>
    sem_reach v p n pc (s\<lparr>ss_state := st, ss_prio := pr\<rparr>)"

subsection \<open>The invariant\<close>

definition woken :: "(addr \<Rightarrow> sem_pc) \<Rightarrow> sem_sys \<Rightarrow> addr set" where
  "woken pc s = {t. pc t = Waiting True \<and> ss_state s t \<noteq> THREAD_STATE_BLOCK}"

definition blocked :: "(addr \<Rightarrow> sem_pc) \<Rightarrow> sem_sys \<Rightarrow> addr set" where
  "blocked pc s = {t. pc t \<noteq> Outside \<and> ss_state s t = THREAD_STATE_BLOCK}"

definition sem_ok :: "(addr \<Rightarrow> sem_pc) \<Rightarrow> sem_sys \<Rightarrow> addr list \<Rightarrow> bool" where
  "sem_ok pc s ws \<longleftrightarrow>
     clist (sem_links (ss_sem s)) wait_list (map sem_node ws) \<and>
     set ws = blocked pc s \<and>
     (\<forall>t. pc t = Waiting False \<longrightarrow> ss_state s t \<noteq> THREAD_STATE_BLOCK) \<and>
     (\<forall>t. pc t \<noteq> Outside \<and> t \<notin> set ws \<longrightarrow> clist (sem_links (ss_sem s)) (sem_node t) []) \<and>
     0 \<le> sem_count (ss_sem s) \<and> (\<forall>t. 0 \<le> ss_prio s t) \<and> finite {t. pc t \<noteq> Outside} \<and>
     (ws \<noteq> [] \<longrightarrow> sem_count (ss_sem s) \<le> int (card (woken pc s)))"

lemma node_simps [simp]:
  "sem_node t \<noteq> wait_list" "wait_list \<noteq> sem_node t" "(sem_node t = sem_node u) = (t = u)"
  "node_thread (sem_node t) = t" "(sem_node t \<in> sem_node ` A) = (t \<in> A)"
  by (auto simp: sem_node_def wait_list_def node_thread_def)

text \<open>A list of one's own node, out of reach of an operation on the wait list.\<close>

lemma own_frame:
  assumes "same_but S h h'" "sem_node t \<notin> S"
  shows "clist h' (sem_node t) [] = clist h (sem_node t) []"
  using clist_frame[OF assms(1), of "sem_node t" "[]"] assms(2) by simp

lemma finite_woken: "finite {t. pc t \<noteq> Outside} \<Longrightarrow> finite (woken pc s)"
  by (rule finite_subset[of _ "{t. pc t \<noteq> Outside}"]) (auto simp: woken_def)

lemma sem_ok_init:
  assumes "0 \<le> v" "\<forall>t. 0 \<le> ss_prio s t"
  shows "sem_ok (\<lambda>_. Outside) (s\<lparr>ss_sem := sem_init v (ss_sem s)\<rparr>) []"
  using assms by (simp add: sem_ok_def sem_init_def INIT_LIST_HEAD_clist blocked_def)

lemma sem_ok_enter:
  assumes ok: "sem_ok pc s ws" and t: "pc t = Outside" "ss_state s t = THREAD_STATE_RUNNING"
  shows "sem_ok (pc(t := Waiting False)) (sem_wait_enter t s) ws"
proof -
  let ?h = "sem_links (ss_sem s)" and ?pc = "pc(t := Waiting False)"
  have tw: "t \<notin> set ws" using ok t by (auto simp: sem_ok_def blocked_def)
  have sb: "same_but {sem_node t} ?h (INIT_LIST_HEAD (sem_node t) ?h)" by simp
  have sets: "blocked ?pc (sem_wait_enter t s) = blocked pc s" "woken ?pc (sem_wait_enter t s) = woken pc s"
    using t by (auto simp: blocked_def woken_def sem_wait_enter_def)
  have "{u. ?pc u \<noteq> Outside} = insert t {u. pc u \<noteq> Outside}" by auto
  then have fin: "finite {u. ?pc u \<noteq> Outside}" using ok by (simp add: sem_ok_def)
  have own: "clist (INIT_LIST_HEAD (sem_node t) ?h) (sem_node u) []" if "?pc u \<noteq> Outside" "u \<notin> set ws" for u
    using that ok own_frame[OF sb, of u] by (cases "u = t") (auto simp: INIT_LIST_HEAD_clist sem_ok_def)
  have "clist (INIT_LIST_HEAD (sem_node t) ?h) wait_list (map sem_node ws)"
    using ok tw by (simp add: clist_set_out sem_ok_def)
  with ok sets fin own t(2) show ?thesis
    unfolding sem_ok_def by (simp add: sem_wait_enter_def)
qed

lemma sem_wait_round_pass:
  assumes ok: "sem_ok pc s ws" and t: "pc t = Waiting l" "ss_state s t \<noteq> THREAD_STATE_BLOCK"
    and c: "sem_count (ss_sem s) > 0"
  shows "\<exists>s'. sem_wait_round t l s = Some (True, l, s') \<and> sem_ok (pc(t := Outside)) s' ws \<and>
    sem_count (ss_sem s') = sem_count (ss_sem s) - 1"
proof -
  let ?h = "sem_links (ss_sem s)" and ?pc = "pc(t := Outside)"
  have tw: "t \<notin> set ws" using ok t by (auto simp: sem_ok_def blocked_def)
  have "clist ?h (sem_node t) []" using ok t tw by (simp add: sem_ok_def)
  from list_del_self[OF this] obtain h0 where h0: "list_del (sem_node t) ?h = Some h0" "same_but {sem_node t} ?h h0" by blast
  define h1 where "h1 = (if l then h0 else ?h)"
  have sb: "same_but {sem_node t} ?h h1" using h0 by (simp add: h1_def)
  let ?s = "s\<lparr>ss_sem := \<lparr>sem_count = sem_count (ss_sem s) - 1, sem_links = h1\<rparr>\<rparr>"
  have r: "sem_wait_round t l s = Some (True, l, ?s)"
    using c h0 by (simp add: sem_wait_round_def Let_def h1_def)
  have b: "blocked ?pc ?s = blocked pc s" using t by (auto simp: blocked_def)
  have w: "woken ?pc ?s = woken pc s - {t}" by (auto simp: woken_def)
  have cw: "int (card (woken pc s)) - 1 \<le> int (card (woken pc s - {t}))"
  proof -
    have "finite (woken pc s)" using ok by (intro finite_woken) (simp add: sem_ok_def)
    then show ?thesis by (cases "t \<in> woken pc s") (simp_all add: card_Diff_singleton_if)
  qed
  have "clist h1 wait_list (map sem_node ws) = clist ?h wait_list (map sem_node ws)"
    by (rule clist_frame[OF sb]) (use tw in auto)
  moreover have "clist h1 (sem_node u) [] = clist ?h (sem_node u) []" if "u \<noteq> t" for u
    using that by (intro own_frame[OF sb]) simp
  moreover have "finite {u. ?pc u \<noteq> Outside}"
    by (rule finite_subset[of _ "{u. pc u \<noteq> Outside}"]) (use ok in \<open>auto simp: sem_ok_def\<close>)
  ultimately have "sem_ok ?pc ?s ws"
    using ok b w cw c unfolding sem_ok_def by simp linarith
  with r show ?thesis by simp
qed

lemma sem_wait_round_again:
  assumes ok: "sem_ok pc s ws" and t: "pc t = Waiting l" "ss_state s t \<noteq> THREAD_STATE_BLOCK"
    and c: "\<not> sem_count (ss_sem s) > 0"
  shows "\<exists>s'. sem_wait_round t l s = Some (False, True, s') \<and> sem_ok (pc(t := Waiting True)) s' (ws @ [t]) \<and>
    sem_count (ss_sem s') = sem_count (ss_sem s)"
proof -
  let ?h = "sem_links (ss_sem s)" and ?pc = "pc(t := Waiting True)"
  have tw: "t \<notin> set ws" using ok t by (auto simp: sem_ok_def blocked_def)
  have "clist ?h wait_list (map sem_node ws)" using ok by (simp add: sem_ok_def)
  from list_add_tail_clist[OF this, of "sem_node t"] tw obtain h1 where h1:
    "list_add_tail (sem_node t) wait_list ?h = Some h1" "clist h1 wait_list (map sem_node (ws @ [t]))"
    "same_but (set (wait_list # sem_node t # map sem_node ws)) ?h h1" by auto
  let ?s = "s\<lparr>ss_state := (ss_state s)(t := THREAD_STATE_BLOCK), ss_sem := (ss_sem s)\<lparr>sem_links := h1\<rparr>\<rparr>"
  have r: "sem_wait_round t l s = Some (False, True, ?s)"
    using c h1(1) by (simp add: sem_wait_round_def Let_def)
  have b: "blocked ?pc ?s = insert t (blocked pc s)" by (auto simp: blocked_def)
  have "clist h1 (sem_node u) [] = clist ?h (sem_node u) []" if "u \<notin> set (ws @ [t])" for u
    using that by (intro own_frame[OF h1(3)]) auto
  moreover have "{u. ?pc u \<noteq> Outside} = insert t {u. pc u \<noteq> Outside}" by auto
  ultimately have "sem_ok ?pc ?s (ws @ [t])"
    using ok b c h1(2) unfolding sem_ok_def by (auto split: if_splits)
  with r show ?thesis by simp
qed

text \<open>The waiter a post wakes: the first of those of the highest priority.\<close>

definition sem_best :: "sem_sys \<Rightarrow> addr list \<Rightarrow> addr \<Rightarrow> bool" where
  "sem_best s ws t \<longleftrightarrow> (\<exists>a b. ws = a @ t # b \<and> (\<forall>u \<in> set a. ss_prio s u < ss_prio s t) \<and>
     (\<forall>u \<in> set b. ss_prio s u \<le> ss_prio s t))"

lemma fold_sem_pick:
  assumes "\<forall>t \<in> set ws. ss_state s t = THREAD_STATE_BLOCK \<and> 0 \<le> ss_prio s t" "ws \<noteq> []"
  shows "\<exists>t. fold (sem_pick s) (map sem_node ws) (None, - 1) = (Some (sem_node t), ss_prio s t) \<and> sem_best s ws t"
  using assms
proof (induction ws rule: rev_induct)
  case (snoc x ws)
  show ?case
  proof (cases "ws = []")
    case True
    then have "sem_best s (ws @ [x]) x" unfolding sem_best_def by (intro exI[of _ "[]"]) simp
    with True snoc.prems(1) show ?thesis by (intro exI[of _ x]) (simp add: sem_pick_def Let_def)
  next
    case False
    with snoc obtain t where t: "fold (sem_pick s) (map sem_node ws) (None, - 1) = (Some (sem_node t), ss_prio s t)"
      "sem_best s ws t" by auto
    from t(2) obtain a b where ab: "ws = a @ t # b" "\<forall>u \<in> set a. ss_prio s u < ss_prio s t"
      "\<forall>u \<in> set b. ss_prio s u \<le> ss_prio s t" by (auto simp: sem_best_def)
    have x: "sem_pick s (sem_node x) (Some (sem_node t), ss_prio s t) =
        (if ss_prio s x > ss_prio s t then (Some (sem_node x), ss_prio s x) else (Some (sem_node t), ss_prio s t))"
      using snoc.prems(1) by (simp add: sem_pick_def Let_def)
    show ?thesis
    proof (cases "ss_prio s x > ss_prio s t")
      case True
      with ab have "\<forall>u \<in> set ws. ss_prio s u < ss_prio s x" by fastforce
      then have "sem_best s (ws @ [x]) x" unfolding sem_best_def by (intro exI[of _ ws] exI[of _ "[]"]) simp
      with t(1) x True show ?thesis by (intro exI[of _ x]) simp
    next
      case False
      then have "sem_best s (ws @ [x]) t"
        unfolding sem_best_def by (intro exI[of _ a] exI[of _ "b @ [x]"]) (use ab in auto)
      with t(1) x False show ?thesis by (intro exI[of _ t]) simp
    qed
  qed
qed simp

lemma sem_post_idle:
  assumes ok: "sem_ok pc s []"
  shows "sem_post s = Some (s\<lparr>ss_sem := (ss_sem s)\<lparr>sem_count := sem_count (ss_sem s) + 1\<rparr>\<rparr>) \<and>
    sem_ok pc (s\<lparr>ss_sem := (ss_sem s)\<lparr>sem_count := sem_count (ss_sem s) + 1\<rparr>\<rparr>) []"
  using ok list_for_each_clist[of "sem_links (ss_sem s)" wait_list "[]"
      "sem_pick (s\<lparr>ss_sem := (ss_sem s)\<lparr>sem_count := sem_count (ss_sem s) + 1\<rparr>\<rparr>)" "(None, - 1)"]
  by (auto simp: sem_ok_def sem_post_def Let_def blocked_def)

lemma sem_post_wakes:
  assumes ok: "sem_ok pc s ws" and ne: "ws \<noteq> []"
  shows "\<exists>a t b s'. sem_post s = Some s' \<and> ws = a @ t # b \<and> sem_best s ws t \<and> sem_ok pc s' (a @ b) \<and>
    ss_state s' = (ss_state s)(t := THREAD_STATE_RUNNABLE) \<and>
    sem_count (ss_sem s') = sem_count (ss_sem s) + 1"
proof -
  let ?h = "sem_links (ss_sem s)"
  let ?s1 = "s\<lparr>ss_sem := (ss_sem s)\<lparr>sem_count := sem_count (ss_sem s) + 1\<rparr>\<rparr>"
  have h: "clist ?h wait_list (map sem_node ws)" and wb: "set ws = blocked pc s"
    and pr: "\<forall>t. 0 \<le> ss_prio s t" using ok by (auto simp: sem_ok_def)
  have "\<forall>t \<in> set ws. ss_state ?s1 t = THREAD_STATE_BLOCK \<and> 0 \<le> ss_prio ?s1 t"
    using wb pr by (simp add: blocked_def)
  from fold_sem_pick[OF this ne] obtain t where
    t: "fold (sem_pick ?s1) (map sem_node ws) (None, - 1) = (Some (sem_node t), ss_prio ?s1 t)"
    "sem_best ?s1 ws t" by blast
  have tb: "sem_best s ws t" using t(2) by (simp add: sem_best_def)
  then obtain a b where ab: "ws = a @ t # b" by (auto simp: sem_best_def)
  from list_del_init_clist[of ?h wait_list "map sem_node a" "sem_node t" "map sem_node b"] h ab obtain h1 where h1:
    "list_del_init (sem_node t) ?h = Some h1" "clist h1 wait_list (map sem_node (a @ b))"
    "clist h1 (sem_node t) []" "same_but (set (wait_list # map sem_node ws)) ?h h1" by auto
  let ?s = "?s1\<lparr>ss_state := (ss_state s)(t := THREAD_STATE_RUNNABLE), ss_sem := (ss_sem ?s1)\<lparr>sem_links := h1\<rparr>\<rparr>"
  have e: "sem_post s = Some ?s"
    using list_for_each_clist[OF h, of "sem_pick ?s1" "(None, - 1)"] t(1) h1(1)
    by (simp add: sem_post_def Let_def)
  have d: "distinct ws" using h by (auto simp: clist_def distinct_map)
  have tw: "pc t \<noteq> Outside" "ss_state s t = THREAD_STATE_BLOCK" using wb ab by (auto simp: blocked_def)
  have tW: "pc t = Waiting True"
  proof (cases "pc t")
    case (Waiting l)
    with tw(2) ok show ?thesis by (cases l) (auto simp: sem_ok_def)
  qed (use tw(1) in simp)
  have b: "blocked pc ?s = set (a @ b)"
  proof -
    have "blocked pc ?s = blocked pc s - {t}" by (auto simp: blocked_def)
    then show ?thesis using wb d ab by auto
  qed
  have w: "woken pc ?s = insert t (woken pc s)" "t \<notin> woken pc s" using tW tw(2) by (auto simp: woken_def)
  have fin: "finite (woken pc s)" using ok by (intro finite_woken) (simp add: sem_ok_def)
  have own: "clist h1 (sem_node u) []" if "pc u \<noteq> Outside" "u \<notin> set (a @ b)" for u
  proof (cases "u = t")
    case False
    then have "u \<notin> set ws" using that(2) ab by auto
    then have "clist h1 (sem_node u) [] = clist ?h (sem_node u) []" by (intro own_frame[OF h1(4)]) auto
    with \<open>u \<notin> set ws\<close> that(1) ok show ?thesis by (simp add: sem_ok_def)
  qed (use h1(3) in simp)
  have "sem_count (ss_sem s) \<le> int (card (woken pc s))" using ok ne by (simp add: sem_ok_def)
  then have "sem_ok pc ?s (a @ b)"
    using ok b w fin own h1(2) unfolding sem_ok_def by (auto split: if_splits)
  with e tb ab show ?thesis by (intro exI[of _ a] exI[of _ t] exI[of _ b] exI[of _ ?s]) simp
qed

lemma sem_ok_other:
  assumes ok: "sem_ok pc s ws" and pr: "\<forall>t. 0 \<le> pr t"
    and st: "\<forall>t. pc t \<noteq> Outside \<longrightarrow> (st t = THREAD_STATE_BLOCK \<longleftrightarrow> ss_state s t = THREAD_STATE_BLOCK)"
  shows "sem_ok pc (s\<lparr>ss_state := st, ss_prio := pr\<rparr>) ws"
proof -
  have "blocked pc (s\<lparr>ss_state := st, ss_prio := pr\<rparr>) = blocked pc s"
    "woken pc (s\<lparr>ss_state := st, ss_prio := pr\<rparr>) = woken pc s"
    using st by (auto simp: blocked_def woken_def)
  with ok pr st show ?thesis unfolding sem_ok_def by simp
qed

lemma sem_reach_ok:
  "sem_reach v p n pc s \<Longrightarrow> \<exists>ws. sem_ok pc s ws \<and> sem_count (ss_sem s) = v + p - n"
proof (induction rule: sem_reach.induct)
  case (init v s)
  from sem_ok_init[OF init] show ?case by (auto simp: sem_init_def)
next
  case (enter v p n pc s t)
  then obtain ws where ws: "sem_ok pc s ws" "sem_count (ss_sem s) = v + p - n" by blast
  moreover have "sem_count (ss_sem (sem_wait_enter t s)) = sem_count (ss_sem s)" by (simp add: sem_wait_enter_def)
  ultimately show ?case using sem_ok_enter[OF ws(1) enter.hyps(2,3)] by metis
next
  case (again v p n pc s t l l' s')
  then obtain ws where ws: "sem_ok pc s ws" "sem_count (ss_sem s) = v + p - n" by blast
  have "\<not> sem_count (ss_sem s) > 0"
    using sem_wait_round_pass[OF ws(1) again.hyps(2,3)] again.hyps(4) by auto
  from sem_wait_round_again[OF ws(1) again.hyps(2,3) this] again.hyps(4) ws(2) show ?case
    by (metis option.inject prod.inject)
next
  case (pass v p n pc s t l l' s')
  then obtain ws where ws: "sem_ok pc s ws" "sem_count (ss_sem s) = v + p - n" by blast
  have "sem_count (ss_sem s) > 0"
    using sem_wait_round_again[OF ws(1) pass.hyps(2,3)] pass.hyps(4) by auto
  from sem_wait_round_pass[OF ws(1) pass.hyps(2,3) this] pass.hyps(4)
  have s': "sem_ok (pc(t := Outside)) s' ws" "sem_count (ss_sem s') = sem_count (ss_sem s) - 1"
    by (metis option.inject prod.inject)+
  have "sem_count (ss_sem s') = v + p - (n + 1)" using s'(2) ws(2) by simp
  with s'(1) show ?case by metis
next
  case (post v p n pc s s')
  then obtain ws where ws: "sem_ok pc s ws" "sem_count (ss_sem s) = v + p - n" by blast
  show ?case
  proof (cases "ws = []")
    case True
    with sem_post_idle[of pc s] ws post.hyps(2) show ?thesis by auto
  next
    case False
    from sem_post_wakes[OF ws(1) this] post.hyps(2) ws(2) show ?thesis by auto
  qed
next
  case (other v p n pc s pr st)
  then obtain ws where "sem_ok pc s ws" "sem_count (ss_sem s) = v + p - n" by blast
  with sem_ok_other[OF this(1) other.hyps(2,3)] show ?case by auto
qed

subsection \<open>Properties\<close>

text \<open>A waiter that blocked on the semaphore 0 and a post that has not been taken yet.\<close>

definition sem_sys0 :: sem_sys where
  "sem_sys0 = \<lparr>ss_sem = \<lparr>sem_count = 0, sem_links = \<lparr>l_next = Map.empty, l_prev = Map.empty\<rparr>\<rparr>,
     ss_state = (\<lambda>_. THREAD_STATE_RUNNING), ss_prio = (\<lambda>_. 1)\<rparr>"

lemma sem_demo:
  "\<exists>s. sem_reach 0 0 0 (\<lambda>u. if u = 5 then Waiting True else Outside) s \<and> ss_state s 5 = THREAD_STATE_BLOCK"
proof -
  let ?s0 = "sem_sys0\<lparr>ss_sem := sem_init 0 (ss_sem sem_sys0)\<rparr>"
  have r0: "sem_reach 0 0 0 (\<lambda>_. Outside) ?s0" by (rule sem_reach.init) (simp_all add: sem_sys0_def)
  let ?pc = "(\<lambda>_. Outside)(5 :: addr := Waiting False)"
  have r1: "sem_reach 0 0 0 ?pc (sem_wait_enter 5 ?s0)"
    by (rule sem_reach.enter[OF r0]) (simp_all add: sem_sys0_def)
  from sem_reach_ok[OF r1] obtain ws where ok: "sem_ok ?pc (sem_wait_enter 5 ?s0) ws"
    "sem_count (ss_sem (sem_wait_enter 5 ?s0)) = 0" by auto
  have st: "ss_state (sem_wait_enter 5 ?s0) 5 \<noteq> THREAD_STATE_BLOCK" by (simp add: sem_wait_enter_def sem_sys0_def)
  from sem_wait_round_again[OF ok(1), of 5 False] ok(2) st obtain s' where s':
    "sem_wait_round 5 False (sem_wait_enter 5 ?s0) = Some (False, True, s')" by auto
  have "sem_reach 0 0 0 (?pc(5 := Waiting True)) s'" by (rule sem_reach.again[OF r1 _ st s']) simp
  moreover have "?pc(5 := Waiting True) = (\<lambda>u. if u = 5 then Waiting True else Outside)" by (simp add: fun_eq_iff)
  moreover have "ss_state s' 5 = THREAD_STATE_BLOCK"
    using s' ok(2) by (auto simp: sem_wait_round_def Let_def bind_eq_Some_conv)
  ultimately show ?thesis by auto
qed

text \<open>
  C19: The semaphore counts. In every reachable state the count is the initial value plus the posts
  minus the completed waits and never negative, so never more waits complete than the initial value
  and the posts allow; and no operation faults: a thread that runs inside of \<open>sem_wait\<close> can do its
  next round, and every thread can post.
\<close>

theorem sem_counts:
  assumes "sem_reach v p n pc s"
  shows "sem_count (ss_sem s) = v + p - n \<and> n \<le> v + p \<and> sem_post s \<noteq> None \<and>
    (\<forall>t l. pc t = Waiting l \<and> ss_state s t \<noteq> THREAD_STATE_BLOCK \<longrightarrow> sem_wait_round t l s \<noteq> None)"
proof -
  from sem_reach_ok[OF assms] obtain ws where ws: "sem_ok pc s ws" "sem_count (ss_sem s) = v + p - n" by blast
  have "0 \<le> sem_count (ss_sem s)" using ws(1) by (simp add: sem_ok_def)
  moreover have "sem_post s \<noteq> None"
    using sem_post_idle[of pc s] sem_post_wakes[OF ws(1)] ws(1) by (cases "ws = []") auto
  moreover have "sem_wait_round t l s \<noteq> None" if "pc t = Waiting l" "ss_state s t \<noteq> THREAD_STATE_BLOCK" for t l
    using sem_wait_round_pass[OF ws(1) that] sem_wait_round_again[OF ws(1) that] by fastforce
  ultimately show ?thesis using ws(2) by auto
qed

theorem sem_counts_witness:
  "\<exists>pc s. sem_reach 0 0 0 pc s \<and> sem_count (ss_sem s) = 0 \<and> sem_post s \<noteq> None"
proof -
  from sem_demo obtain s where s: "sem_reach 0 0 0 (\<lambda>u. if u = 5 then Waiting True else Outside) s" by blast
  from sem_counts[OF s] s show ?thesis by auto
qed

text \<open>
  C18: No wake-up is lost. Whenever threads are blocked on the semaphore while its count is positive,
  at least as many threads as the count says have been woken and are on their way to take it.
\<close>

theorem sem_no_lost_wakeup:
  assumes "sem_reach v p n pc s" "pc t = Waiting l" "ss_state s t = THREAD_STATE_BLOCK"
  shows "sem_count (ss_sem s) \<le> int (card (woken pc s))"
proof -
  from sem_reach_ok[OF assms(1)] obtain ws where ws: "sem_ok pc s ws" by blast
  have "t \<in> blocked pc s" using assms(2,3) by (simp add: blocked_def)
  then have "ws \<noteq> []" using ws by (auto simp: sem_ok_def)
  with ws show ?thesis by (simp add: sem_ok_def)
qed

theorem sem_no_lost_wakeup_witness:
  "\<exists>pc s. sem_reach 0 0 0 pc s \<and> ss_state s 5 = THREAD_STATE_BLOCK \<and> sem_count (ss_sem s) \<le> int (card (woken pc s))"
proof -
  from sem_demo obtain s where s: "sem_reach 0 0 0 (\<lambda>u. if u = 5 then Waiting True else Outside) s"
    "ss_state s 5 = THREAD_STATE_BLOCK" by blast
  from sem_no_lost_wakeup[OF s(1) _ s(2), of True] s show ?thesis by auto
qed

text \<open>
  A post wakes the right waiter. If threads are blocked on the semaphore, \<open>sem_post\<close> makes
  exactly one of them RUNNABLE, one that has the highest priority of the blocked ones; otherwise it
  changes no thread.
\<close>

theorem sem_post_wakes_best:
  assumes "sem_reach v p n pc s"
  shows "\<exists>s'. sem_post s = Some s' \<and>
    (if blocked pc s = {} then ss_state s' = ss_state s
     else \<exists>t \<in> blocked pc s. (\<forall>u \<in> blocked pc s. ss_prio s u \<le> ss_prio s t) \<and>
       ss_state s' = (ss_state s)(t := THREAD_STATE_RUNNABLE))"
proof -
  from sem_reach_ok[OF assms] obtain ws where ws: "sem_ok pc s ws" by blast
  then have b: "set ws = blocked pc s" by (simp add: sem_ok_def)
  show ?thesis
  proof (cases "ws = []")
    case True
    with sem_post_idle[of pc s] ws b show ?thesis by auto
  next
    case False
    from sem_post_wakes[OF ws False] obtain t s' where "sem_post s = Some s'" "sem_best s ws t"
      "ss_state s' = (ss_state s)(t := THREAD_STATE_RUNNABLE)" by blast
    moreover from this(2) have "t \<in> set ws" "\<forall>u \<in> set ws. ss_prio s u \<le> ss_prio s t"
      by (auto simp: sem_best_def less_imp_le)
    ultimately show ?thesis using b False by auto
  qed
qed

theorem sem_post_wakes_best_witness:
  "\<exists>pc s s'. sem_reach 0 0 0 pc s \<and> blocked pc s = {5} \<and> sem_post s = Some s' \<and>
     ss_state s' 5 = THREAD_STATE_RUNNABLE"
proof -
  let ?pc = "\<lambda>u :: addr. if u = 5 then Waiting True else Outside"
  from sem_demo obtain s where s: "sem_reach 0 0 0 ?pc s" "ss_state s 5 = THREAD_STATE_BLOCK" by blast
  have b: "blocked ?pc s = {5}" using s(2) by (auto simp: blocked_def)
  from sem_post_wakes_best[OF s(1)] b s(1) show ?thesis by fastforce
qed

end
