(* ===== verification/Libc_String.thy ===== *)
theory Libc_String
  imports Prelude "HOL-Library.Monad_Syntax"
begin

text \<open>
  The string and memory functions of \<open>lib/libc/string.c\<close> and \<open>wchar.c\<close>, on a byte-addressed memory.
  \<open>char\<close> is unsigned on RISC-V. A scan for a NUL byte that is not there never ends; its result is
  \<open>None\<close>. Counts (\<open>size_t\<close>) are natural numbers.
\<close>

type_synonym mem = "u64 \<Rightarrow> u8"

text \<open>A block of bytes written at an address, as drivers do.\<close>

definition place :: "u64 \<Rightarrow> u8 list \<Rightarrow> mem \<Rightarrow> mem" where
  "place base bs m a = (if unat (a - base) < length bs then bs ! unat (a - base) else m a)"

subsection \<open>Comparing and scanning\<close>

partial_function (option) strcmp :: "mem \<Rightarrow> u64 \<Rightarrow> u64 \<Rightarrow> int option" where
  "strcmp m a b =
     (if m a = m b \<and> m a \<noteq> 0 then strcmp m (a + 1) (b + 1)
      else Some (uint (m a) - uint (m b)))"

fun strncmp :: "mem \<Rightarrow> u64 \<Rightarrow> u64 \<Rightarrow> nat \<Rightarrow> int" where
  "strncmp m a b 0 = 0"
| "strncmp m a b (Suc count) =
     (if m a = m b \<and> m a \<noteq> 0 then strncmp m (a + 1) (b + 1) count
      else uint (m a) - uint (m b))"

partial_function (option) strlen_from :: "mem \<Rightarrow> u64 \<Rightarrow> nat \<Rightarrow> nat option" where
  "strlen_from m str ret = (if m str \<noteq> 0 then strlen_from m (str + 1) (Suc ret) else Some ret)"

definition strlen :: "mem \<Rightarrow> u64 \<Rightarrow> nat option" where
  "strlen m str = strlen_from m str 0"

fun strnlen :: "mem \<Rightarrow> u64 \<Rightarrow> nat \<Rightarrow> nat" where
  "strnlen m str 0 = 0"
| "strnlen m str (Suc count) = (if m str \<noteq> 0 then Suc (strnlen m (str + 1) count) else 0)"

text \<open>The result of a search is a pointer, where \<open>Some None\<close> is NULL.\<close>

partial_function (option) strchr_from :: "mem \<Rightarrow> u64 \<Rightarrow> u8 \<Rightarrow> u64 option" where
  "strchr_from m s c = (if m s \<noteq> 0 \<and> m s \<noteq> c then strchr_from m (s + 1) c else Some s)"

definition strchr :: "mem \<Rightarrow> u64 \<Rightarrow> u8 \<Rightarrow> u64 option option" where
  "strchr m s c = do { p \<leftarrow> strchr_from m s c; Some (if m p = 0 then None else Some p) }"

fun strrchr_back :: "mem \<Rightarrow> u64 \<Rightarrow> nat \<Rightarrow> u8 \<Rightarrow> u64" where
  "strrchr_back m s 0 c = s"
| "strrchr_back m s (Suc n) c =
     (if m (s + of_nat (Suc n)) \<noteq> c then strrchr_back m s n c else s + of_nat (Suc n))"

definition strrchr :: "mem \<Rightarrow> u64 \<Rightarrow> u8 \<Rightarrow> u64 option option" where
  "strrchr m s c =
     do { n \<leftarrow> strlen m s;
          let p = strrchr_back m s n c;
          Some (if m p \<noteq> c then None else Some p) }"

fun memcmp :: "mem \<Rightarrow> u64 \<Rightarrow> u64 \<Rightarrow> nat \<Rightarrow> int" where
  "memcmp m s1 s2 0 = 0"
| "memcmp m s1 s2 (Suc count) =
     (if m s1 = m s2 then memcmp m (s1 + 1) (s2 + 1) count else uint (m s1) - uint (m s2))"

fun memchr :: "mem \<Rightarrow> u64 \<Rightarrow> u8 \<Rightarrow> nat \<Rightarrow> u64 option" where
  "memchr m s c 0 = None"
| "memchr m s c (Suc count) = (if c = m s then Some s else memchr m (s + 1) c count)"

text \<open>The inner loop of \<open>strstr\<close>: the index where it stops.\<close>

partial_function (option) strstr_match :: "mem \<Rightarrow> u64 \<Rightarrow> u64 \<Rightarrow> u64 \<Rightarrow> u64 option" where
  "strstr_match m hs ne i =
     (if m (ne + i) \<noteq> 0 \<and> m (hs + i) = m (ne + i) then strstr_match m hs ne (i + 1) else Some i)"

partial_function (option) strstr_from :: "mem \<Rightarrow> u64 \<Rightarrow> u64 \<Rightarrow> u64 option option" where
  "strstr_from m hs ne =
     (if m hs = 0 then Some None
      else if m hs \<noteq> m ne then strstr_from m (hs + 1) ne
      else do { i \<leftarrow> strstr_match m hs ne 1;
                if m (ne + i) = 0 then Some (Some hs) else strstr_from m (hs + 1) ne })"

definition strstr :: "mem \<Rightarrow> u64 \<Rightarrow> u64 \<Rightarrow> u64 option option" where
  "strstr m hs ne = (if m ne = 0 then Some (Some hs) else strstr_from m hs ne)"

subsection \<open>Writing\<close>

text \<open>\<open>strcpy\<close> and \<open>strcat\<close> as they are written: neither stores the terminating NUL byte.\<close>

partial_function (option) strcpy :: "mem \<Rightarrow> u64 \<Rightarrow> u64 \<Rightarrow> mem option" where
  "strcpy m dest src =
     (if m src \<noteq> 0 then strcpy (m(dest := m src)) (dest + 1) (src + 1) else Some m)"

fun strncpy :: "mem \<Rightarrow> u64 \<Rightarrow> u64 \<Rightarrow> nat \<Rightarrow> mem" where
  "strncpy m dest src 0 = m"
| "strncpy m dest src (Suc count) =
     (if m src \<noteq> 0 then strncpy (m(dest := m src)) (dest + 1) (src + 1) count
      else strncpy (m(dest := 0)) (dest + 1) src count)"

partial_function (option) strcat :: "mem \<Rightarrow> u64 \<Rightarrow> u64 \<Rightarrow> mem option" where
  "strcat m s1 s2 = (if m s1 \<noteq> 0 then strcat m (s1 + 1) s2 else strcpy m s1 s2)"

fun memset :: "mem \<Rightarrow> u64 \<Rightarrow> u8 \<Rightarrow> nat \<Rightarrow> mem" where
  "memset m s c 0 = m"
| "memset m s c (Suc count) = memset (m(s := c)) (s + 1) c count"

fun memcpy :: "mem \<Rightarrow> u64 \<Rightarrow> u64 \<Rightarrow> nat \<Rightarrow> mem" where
  "memcpy m dest src 0 = m"
| "memcpy m dest src (Suc count) = memcpy (m(dest := m src)) (dest + 1) (src + 1) count"

fun memcpy_down :: "mem \<Rightarrow> u64 \<Rightarrow> u64 \<Rightarrow> nat \<Rightarrow> mem" where
  "memcpy_down m dest src 0 = m"
| "memcpy_down m dest src (Suc count) = memcpy_down (m(dest := m src)) (dest - 1) (src - 1) count"

definition memmove :: "mem \<Rightarrow> u64 \<Rightarrow> u64 \<Rightarrow> nat \<Rightarrow> mem" where
  "memmove m dest src count =
     (if src = dest then m
      else if dest < src then memcpy m dest src count
      else memcpy_down m (dest + of_nat count - 1) (src + of_nat count - 1) count)"

definition strdup :: "mem \<Rightarrow> u64 option \<Rightarrow> u64 \<Rightarrow> (u64 option \<times> mem) option" where
  "strdup m block str =
     do { n \<leftarrow> strlen m str;
          Some (case block of None \<Rightarrow> (None, m) | Some copy \<Rightarrow> (Some copy, memcpy m copy str (n + 1))) }"

subsection \<open>Characters and numbers\<close>

definition isspace :: "u8 \<Rightarrow> bool" where
  "isspace c \<longleftrightarrow> c = 0x20 \<or> c = 0x0c \<or> c = 0x0a \<or> c = 0x0d \<or> c = 0x09 \<or> c = 0x0b"

definition digit_val :: "u8 \<Rightarrow> nat option" where
  "digit_val c =
     (if 0x30 \<le> c \<and> c \<le> 0x39 then Some (unat c - 0x30)
      else if 0x41 \<le> c \<and> c \<le> 0x5a then Some (unat c - (0x41 - 10))
      else if 0x61 \<le> c \<and> c \<le> 0x7a then Some (unat c - (0x61 - 10))
      else None)"

definition ULONG_MAX :: u64 where "ULONG_MAX = - 1"

partial_function (option) strtoul_loop ::
  "mem \<Rightarrow> nat \<Rightarrow> u64 \<Rightarrow> nat \<Rightarrow> u8 \<Rightarrow> u64 \<Rightarrow> u64 \<Rightarrow> int \<Rightarrow> (u64 \<times> int \<times> u64) option" where
  "strtoul_loop m base cutoff cutlim c s acc any =
     (case digit_val c of
        None \<Rightarrow> Some (acc, any, s)
      | Some d \<Rightarrow>
          (if d \<ge> base then Some (acc, any, s)
           else if any < 0 \<or> acc > cutoff \<or> (acc = cutoff \<and> d > cutlim)
           then strtoul_loop m base cutoff cutlim (m s) (s + 1) acc (- 1)
           else strtoul_loop m base cutoff cutlim (m s) (s + 1) (acc * of_nat base + of_nat d) 1))"

text \<open>The value and the end pointer.\<close>

definition strtoul :: "mem \<Rightarrow> u64 \<Rightarrow> nat \<Rightarrow> (u64 \<times> u64) option" where
  "strtoul m nptr base0 =
     (let c0 = m nptr; s0 = nptr + 1;
          neg = (c0 = 0x2d);
          (c1, s1) = (if c0 = 0x2d \<or> c0 = 0x2b then (m s0, s0 + 1) else (c0, s0));
          (c2, s2, base1) =
            (if (base0 = 0 \<or> base0 = 16) \<and> c1 = 0x30 \<and> (m s1 = 0x78 \<or> m s1 = 0x58)
             then (m (s1 + 1), s1 + 2, 16) else (c1, s1, base0));
          base = (if base1 = 0 then (if c2 = 0x30 then 8 else 10) else base1);
          cutoff = ULONG_MAX div of_nat base;
          cutlim = unat (ULONG_MAX mod of_nat base)
      in do { (acc, any, s) \<leftarrow> strtoul_loop m base cutoff cutlim c2 s2 0 0;
              Some (if any < 0 then ULONG_MAX else if neg then - acc else acc,
                    if any \<noteq> 0 then s - 1 else nptr) })"

text \<open>Wide strings: 16-bit units, little endian.\<close>

definition rd16 :: "mem \<Rightarrow> u64 \<Rightarrow> u16" where
  "rd16 m a = ucast (m a) OR push_bit 8 (ucast (m (a + 1)))"

partial_function (option) wcscmp :: "mem \<Rightarrow> u64 \<Rightarrow> u64 \<Rightarrow> int option" where
  "wcscmp m s1 s2 =
     (if rd16 m s1 \<noteq> 0
      then let c = rd16 m s1 - rd16 m s2
           in if c \<noteq> 0 then Some (uint c) else wcscmp m (s1 + 2) (s2 + 2)
      else Some (uint (rd16 m s1) - uint (rd16 m s2)))"

end
