(* ===== verification/Libc_Props.thy ===== *)
theory Libc_Props
  imports Libc_String
begin

text \<open>
  What the functions of \<open>string.c\<close> compute on NUL-terminated strings: \<open>cstr m p xs\<close> says that the
  memory \<open>m\<close> holds the string \<open>xs\<close> at \<open>p\<close>. Also \<open>memmove\<close> on overlapping blocks and \<open>strtoul\<close> with
  its saturation.
\<close>

subsection \<open>Strings in memory\<close>

fun cstr :: "mem \<Rightarrow> u64 \<Rightarrow> u8 list \<Rightarrow> bool" where
  "cstr m p [] \<longleftrightarrow> m p = 0"
| "cstr m p (x # xs) \<longleftrightarrow> m p = x \<and> x \<noteq> 0 \<and> cstr m (p + 1) xs"

lemma uint_byte [simp]: "uint (a :: u8) = uint b \<longleftrightarrow> a = b" "uint (a :: u8) = 0 \<longleftrightarrow> a = 0"
  by (simp_all add: word_uint_eq_iff)

lemma strlen_from_cstr: "cstr m p xs \<Longrightarrow> strlen_from m p n = Some (n + length xs)"
  by (induction xs arbitrary: p n) (subst strlen_from.simps; simp)+

lemma strlen_cstr: "cstr m p xs \<Longrightarrow> strlen m p = Some (length xs)"
  by (simp add: strlen_def strlen_from_cstr)

lemma strcmp_cstr:
  "cstr m a xs \<Longrightarrow> cstr m b ys \<Longrightarrow> \<exists>r. strcmp m a b = Some r \<and> (r = 0 \<longleftrightarrow> xs = ys)"
proof (induction xs arbitrary: a b ys)
  case Nil
  then show ?case by (subst strcmp.simps) (cases ys; auto)
next
  case (Cons x xs)
  then show ?case
    by (subst strcmp.simps) (cases ys; auto)
qed

lemma strncmp_prefix:
  "cstr m a xs \<Longrightarrow> cstr m b ys \<Longrightarrow>
     strncmp m a b (length xs) = 0 \<longleftrightarrow> take (length xs) ys = xs"
proof (induction xs arbitrary: a b ys)
  case (Cons x xs)
  then show ?case by (cases ys) auto
qed simp

text \<open>The first position of a string in another one.\<close>

fun find_sub :: "u8 list \<Rightarrow> u8 list \<Rightarrow> nat option" where
  "find_sub ne [] = (if ne = [] then Some 0 else None)"
| "find_sub ne (x # xs) =
     (if take (length ne) (x # xs) = ne then Some 0 else map_option Suc (find_sub ne xs))"

lemma strstr_match_cstr:
  assumes "cstr m (hs + i) xs" "cstr m (ne + i) ys"
  shows "\<exists>j. strstr_match m hs ne i = Some j \<and> (m (ne + j) = 0 \<longleftrightarrow> take (length ys) xs = ys)"
  using assms
proof (induction ys arbitrary: i xs)
  case Nil
  then show ?case by (subst strstr_match.simps) simp
next
  case (Cons y ys)
  show ?case
  proof (cases xs)
    case Nil
    with Cons.prems show ?thesis by (subst strstr_match.simps) auto
  next
    case (Cons x xs')
    with Cons.prems Cons.IH[of "i + 1" xs'] show ?thesis
      by (subst strstr_match.simps) (auto simp: add.assoc)
  qed
qed

lemma strstr_from_cstr:
  assumes "cstr m ne (y # ys)" "cstr m hs xs"
  shows "strstr_from m hs ne = Some (map_option (\<lambda>i. hs + of_nat i) (find_sub (y # ys) xs))"
  using assms(2)
proof (induction xs arbitrary: hs)
  case Nil
  then show ?case by (subst strstr_from.simps) simp
next
  case (Cons x xs)
  have IH: "strstr_from m (hs + 1) ne = Some (map_option (\<lambda>i. hs + of_nat i) (map_option Suc (find_sub (y # ys) xs)))"
    using Cons.IH[of "hs + 1"] Cons.prems by (simp add: option.map_comp comp_def add.assoc)
  have ne: "m ne = y" "y \<noteq> 0" "cstr m (ne + 1) ys" using assms(1) by auto
  have hs: "m hs = x" "x \<noteq> 0" "cstr m (hs + 1) xs" using Cons.prems by auto
  show ?case
  proof (cases "x = y")
    case True
    from strstr_match_cstr[OF hs(3) ne(3)] obtain j where j: "strstr_match m hs ne 1 = Some j"
      "m (ne + j) = 0 \<longleftrightarrow> take (length ys) xs = ys" by blast
    show ?thesis
      using IH ne hs True j by (subst strstr_from.simps) auto
  next
    case False
    with IH ne hs show ?thesis by (subst strstr_from.simps) auto
  qed
qed

lemma strstr_cstr:
  assumes "cstr m ne ys" "cstr m hs xs"
  shows "strstr m hs ne = Some (map_option (\<lambda>i. hs + of_nat i) (find_sub ys xs))"
  using assms strstr_from_cstr[of m ne _ _ hs xs] by (cases ys; cases xs) (auto simp: strstr_def)

lemma find_sub_first:
  "find_sub ys xs = Some i \<longleftrightarrow>
     i \<le> length xs \<and> take (length ys) (drop i xs) = ys \<and> (\<forall>j < i. take (length ys) (drop j xs) \<noteq> ys)"
proof (induction xs arbitrary: i)
  case (Cons x xs)
  show ?case
  proof (cases i)
    case (Suc k)
    with Cons.IH[of k] show ?thesis by (auto simp: less_Suc_eq_0_disj)
  qed auto
qed auto

subsection \<open>Copying\<close>

lemma offset_inj:
  fixes d :: u64
  assumes "i < 2 ^ 64" "j < 2 ^ 64"
  shows "d + of_nat i = d + of_nat j \<longleftrightarrow> i = j"
proof
  assume "d + of_nat i = d + of_nat j"
  then have "(of_nat i :: u64) = of_nat j" by simp
  then have "unat (of_nat i :: u64) = unat (of_nat j :: u64)" by simp
  with assms show "i = j" by (simp add: unsigned_of_nat take_bit_nat_eq_self)
qed simp

lemma unat_offset:
  fixes d :: u64
  shows "unat d + i < 2 ^ 64 \<Longrightarrow> unat (d + of_nat i) = unat d + i"
  by (subst unat_add_lem[THEN iffD1]) (simp_all add: unsigned_of_nat take_bit_nat_eq_self)

lemma memcpy_up:
  assumes "n \<le> 2 ^ 64" "\<forall>i j. i < j \<longrightarrow> j < n \<longrightarrow> d + of_nat i \<noteq> s + of_nat j"
  shows "(\<forall>i < n. memcpy m d s n (d + of_nat i) = m (s + of_nat i)) \<and>
    (\<forall>a. (\<forall>i < n. a \<noteq> d + of_nat i) \<longrightarrow> memcpy m d s n a = m a)"
  using assms
proof (induction n arbitrary: m d s)
  case (Suc n)
  let ?m = "m(d := m s)"
  have c: "\<forall>i j. i < j \<longrightarrow> j < n \<longrightarrow> d + 1 + of_nat i \<noteq> s + 1 + of_nat j"
  proof (intro allI impI)
    fix i j assume "i < j" "j < n"
    with Suc.prems(2)[rule_format, of "Suc i" "Suc j"] show "d + 1 + of_nat i \<noteq> s + 1 + of_nat j"
      by (simp add: add.assoc)
  qed
  have "n \<le> 2 ^ 64" using Suc.prems(1) by simp
  note IH0 = Suc.IH[OF this c, of ?m]
  have IH:
    "\<And>i. i < n \<Longrightarrow> memcpy ?m (d + 1) (s + 1) n (d + 1 + of_nat i) = ?m (s + 1 + of_nat i)"
    "\<And>a. (\<forall>i < n. a \<noteq> d + 1 + of_nat i) \<Longrightarrow> memcpy ?m (d + 1) (s + 1) n a = ?m a"
    using IH0 by blast+
  have d0: "\<forall>i < n. d \<noteq> d + 1 + of_nat i"
  proof (intro allI impI)
    fix i assume "i < n"
    then show "d \<noteq> d + 1 + of_nat i"
      using offset_inj[of 0 "Suc i" d] Suc.prems(1) by (simp add: add.assoc)
  qed
  show ?case
  proof (intro conjI allI impI)
    fix i assume i: "i < Suc n"
    show "memcpy m d s (Suc n) (d + of_nat i) = m (s + of_nat i)"
    proof (cases i)
      case 0
      with IH(2)[OF d0] show ?thesis by simp
    next
      case (Suc k)
      have "d \<noteq> s + of_nat (Suc k)" using Suc.prems(2)[rule_format, of 0 "Suc k"] i Suc by simp
      with Suc i IH(1)[of k] show ?thesis by (simp add: add.assoc)
    qed
  next
    fix a assume a: "\<forall>i < Suc n. a \<noteq> d + of_nat i"
    have "\<forall>i < n. a \<noteq> d + 1 + of_nat i"
    proof (intro allI impI)
      fix i assume "i < n"
      with a[rule_format, of "Suc i"] show "a \<noteq> d + 1 + of_nat i" by (simp add: add.assoc)
    qed
    from IH(2)[OF this] a[rule_format, of 0] show "memcpy m d s (Suc n) a = m a" by simp
  qed
qed simp

lemma memcpy_down_eq:
  assumes "n \<le> 2 ^ 64" "\<forall>i j. i < j \<longrightarrow> j < n \<longrightarrow> d - of_nat i \<noteq> s - of_nat j"
  shows "(\<forall>i < n. memcpy_down m d s n (d - of_nat i) = m (s - of_nat i)) \<and>
    (\<forall>a. (\<forall>i < n. a \<noteq> d - of_nat i) \<longrightarrow> memcpy_down m d s n a = m a)"
  using assms
proof (induction n arbitrary: m d s)
  case (Suc n)
  let ?m = "m(d := m s)"
  have c: "\<forall>i j. i < j \<longrightarrow> j < n \<longrightarrow> d - 1 - of_nat i \<noteq> s - 1 - of_nat j"
  proof (intro allI impI)
    fix i j assume "i < j" "j < n"
    with Suc.prems(2)[rule_format, of "Suc i" "Suc j"] show "d - 1 - of_nat i \<noteq> s - 1 - of_nat j"
      by (simp add: algebra_simps)
  qed
  have "n \<le> 2 ^ 64" using Suc.prems(1) by simp
  note IH0 = Suc.IH[OF this c, of ?m]
  have IH:
    "\<And>i. i < n \<Longrightarrow> memcpy_down ?m (d - 1) (s - 1) n (d - 1 - of_nat i) = ?m (s - 1 - of_nat i)"
    "\<And>a. (\<forall>i < n. a \<noteq> d - 1 - of_nat i) \<Longrightarrow> memcpy_down ?m (d - 1) (s - 1) n a = ?m a"
    using IH0 by blast+
  have d0: "\<forall>i < n. d \<noteq> d - 1 - of_nat i"
  proof (intro allI impI)
    fix i assume "i < n"
    then show "d \<noteq> d - 1 - of_nat i"
      using offset_inj[of 0 "Suc i" d] Suc.prems(1) by (auto simp: algebra_simps)
  qed
  show ?case
  proof (intro conjI allI impI)
    fix i assume i: "i < Suc n"
    show "memcpy_down m d s (Suc n) (d - of_nat i) = m (s - of_nat i)"
    proof (cases i)
      case 0
      with IH(2)[OF d0] show ?thesis by simp
    next
      case (Suc k)
      have "d \<noteq> s - of_nat (Suc k)" using Suc.prems(2)[rule_format, of 0 "Suc k"] i Suc by simp
      with Suc i IH(1)[of k] show ?thesis by (simp add: algebra_simps)
    qed
  next
    fix a assume a: "\<forall>i < Suc n. a \<noteq> d - of_nat i"
    have "\<forall>i < n. a \<noteq> d - 1 - of_nat i"
    proof (intro allI impI)
      fix i assume "i < n"
      with a[rule_format, of "Suc i"] show "a \<noteq> d - 1 - of_nat i" by (simp add: algebra_simps)
    qed
    from IH(2)[OF this] a[rule_format, of 0] show "memcpy_down m d s (Suc n) a = m a" by simp
  qed
qed simp

lemma offset_less:
  fixes d s :: u64
  assumes "unat d + i < 2 ^ 64" "unat s + j < 2 ^ 64" "d + of_nat i = s + of_nat j"
  shows "unat d + i = unat s + j"
  using unat_offset[OF assms(1)] unat_offset[OF assms(2)] assms(3) by simp

subsection \<open>Numbers\<close>

text \<open>The digits a number is written with, and its value, most significant digit first.\<close>

definition digits_at :: "mem \<Rightarrow> u64 \<Rightarrow> nat list \<Rightarrow> bool" where
  "digits_at m p ds \<longleftrightarrow> (\<forall>i < length ds. digit_val (m (p + of_nat i)) = Some (ds ! i))"

definition num_val :: "nat \<Rightarrow> nat list \<Rightarrow> nat" where
  "num_val base ds = foldl (\<lambda>a d. a * base + d) 0 ds"

lemma num_val_foldl: "foldl (\<lambda>a d. a * base + d) (a :: nat) ds = a * base ^ length ds + num_val base ds"
proof -
  have "foldl (\<lambda>a d. a * base + d) (a + b) ds = a * base ^ length ds + foldl (\<lambda>a d. a * base + d) b ds" for b
  proof (induction ds arbitrary: a b)
    case (Cons d ds)
    have "foldl (\<lambda>a d. a * base + d) (a + b) (d # ds) = foldl (\<lambda>a d. a * base + d) (a * base + (b * base + d)) ds"
      by (simp add: algebra_simps)
    also have "\<dots> = a * base * base ^ length ds + foldl (\<lambda>a d. a * base + d) (b * base + d) ds"
      by (rule Cons.IH)
    also have "\<dots> = a * base ^ length (d # ds) + foldl (\<lambda>a d. a * base + d) b (d # ds)" by simp
    finally show ?case .
  qed simp
  from this[of 0] show ?thesis by (simp add: num_val_def)
qed

lemma div_mod_bound:
  fixes a M b d :: nat
  assumes "d < b"
  shows "a > M div b \<or> (a = M div b \<and> d > M mod b) \<longleftrightarrow> M < a * b + d"
proof -
  let ?q = "M div b" and ?r = "M mod b"
  have M: "M = ?q * b + ?r" "?r < b" using assms by simp_all
  consider "a < ?q" | "a = ?q" | "a > ?q" by linarith
  then show ?thesis
  proof cases
    case 1
    then have "Suc a * b \<le> ?q * b" by (intro mult_le_mono1) simp
    moreover have "?q * b \<le> M" "Suc a * b = a * b + b" using M by simp_all
    ultimately show ?thesis using 1 assms by linarith
  next
    case 2
    with M show ?thesis by (metis add_less_cancel_left less_irrefl)
  next
    case 3
    then have "Suc ?q * b \<le> a * b" by (intro mult_le_mono1) simp
    moreover have "M < ?q * b + b" using M by linarith
    moreover have "Suc ?q * b = ?q * b + b" by simp
    ultimately show ?thesis using 3 by linarith
  qed
qed

text \<open>What the loop has at the end: the exact value or the mark of an overflow.\<close>

lemma strtoul_loop_digits:
  assumes base: "2 \<le> base" "base \<le> 36"
    and cut: "cutoff = ULONG_MAX div of_nat base" "cutlim = unat (ULONG_MAX mod of_nat base)"
    and ds: "digits_at m (s - 1) ds" "\<forall>d \<in> set ds. d < base"
    and stop: "case digit_val (m (s - 1 + of_nat (length ds))) of None \<Rightarrow> True | Some d \<Rightarrow> base \<le> d"
    and any: "any = - 1 \<or> (any = 0 \<and> unat acc = 0) \<or> any = 1"
  shows "\<exists>acc' any'. strtoul_loop m base cutoff cutlim (m (s - 1)) s acc any =
      Some (acc', any', s + of_nat (length ds)) \<and>
    (if any = - 1 \<or> 2 ^ 64 \<le> unat acc * base ^ length ds + num_val base ds then any' = - 1
     else unat acc' = unat acc * base ^ length ds + num_val base ds \<and> any' = (if ds = [] then any else 1))"
  using ds stop any
proof (induction ds arbitrary: s acc any)
  case Nil
  then have "case digit_val (m (s - 1)) of None \<Rightarrow> True | Some d \<Rightarrow> base \<le> d" by simp
  moreover have "unat acc < 2 ^ 64" using unsigned_less[of acc, where ?'a = nat] by simp
  ultimately show ?case
    by (subst strtoul_loop.simps) (auto simp: num_val_def split: option.splits)
next
  case (Cons d ds)
  let ?M = "2 ^ 64 - 1 :: nat"
  have M: "unat ULONG_MAX = ?M" by (simp add: ULONG_MAX_def unsigned_minus_1_eq_mask mask_eq_exp_minus_1)
  have ub: "unat (of_nat base :: u64) = base" using base by (simp add: unsigned_of_nat take_bit_nat_eq_self)
  have uc: "unat cutoff = ?M div base" using cut(1) M ub by (simp add: unat_div)
  have ul: "cutlim = ?M mod base" using cut(2) M ub by (simp add: unat_mod)
  have d: "digit_val (m (s - 1)) = Some d" "d < base"
    using Cons.prems(1,2) by (auto simp: digits_at_def dest: spec[of _ 0])
  have ds: "digits_at m (s + 1 - 1) ds"
    unfolding digits_at_def
  proof (intro allI impI)
    fix i assume "i < length ds"
    with Cons.prems(1) have "digit_val (m (s - 1 + of_nat (Suc i))) = Some ((d # ds) ! Suc i)"
      unfolding digits_at_def by (metis Suc_less_eq length_Cons)
    then show "digit_val (m (s + 1 - 1 + of_nat i)) = Some (ds ! i)" by (simp add: algebra_simps)
  qed
  have stop: "case digit_val (m (s + 1 - 1 + of_nat (length ds))) of None \<Rightarrow> True | Some d \<Rightarrow> base \<le> d"
    using Cons.prems(3) by (simp add: algebra_simps)
  let ?ov = "any < 0 \<or> acc > cutoff \<or> (acc = cutoff \<and> d > cutlim)"
  have ov: "acc > cutoff \<or> (acc = cutoff \<and> d > cutlim) \<longleftrightarrow> 2 ^ 64 \<le> unat acc * base + d"
  proof -
    have "acc > cutoff \<or> (acc = cutoff \<and> d > cutlim) \<longleftrightarrow>
        unat acc > ?M div base \<or> (unat acc = ?M div base \<and> d > ?M mod base)"
      using uc ul by (auto simp: word_less_nat_alt word_unat_eq_iff)
    also have "\<dots> \<longleftrightarrow> ?M < unat acc * base + d"
      by (rule div_mod_bound[OF d(2)])
    also have "\<dots> \<longleftrightarrow> 2 ^ 64 \<le> unat acc * base + d" by (simp add: less_eq_Suc_le)
    finally show ?thesis .
  qed
  have nv: "unat acc * base ^ length (d # ds) + num_val base (d # ds) =
      (unat acc * base + d) * base ^ length ds + num_val base ds"
    using num_val_foldl[of base "unat acc" "d # ds"] num_val_foldl[of base "unat acc * base + d" ds] by simp
  have step: "strtoul_loop m base cutoff cutlim (m (s - 1)) s acc any =
      (if ?ov then strtoul_loop m base cutoff cutlim (m (s + 1 - 1)) (s + 1) acc (- 1)
       else strtoul_loop m base cutoff cutlim (m (s + 1 - 1)) (s + 1) (acc * of_nat base + of_nat d) 1)"
    using d by (subst strtoul_loop.simps) simp
  show ?case
  proof (cases ?ov)
    case True
    from Cons.IH[OF ds _ stop, where acc = acc and any = "- 1"] Cons.prems(2) obtain acc' any' where r:
      "strtoul_loop m base cutoff cutlim (m (s + 1 - 1)) (s + 1) acc (- 1) = Some (acc', any', s + 1 + of_nat (length ds))"
      "any' = - 1" by auto
    have "any = - 1 \<or> 2 ^ 64 \<le> (unat acc * base + d) * base ^ length ds + num_val base ds"
    proof (cases "any < 0")
      case False
      with True ov have "2 ^ 64 \<le> unat acc * base + d" by blast
      also have "\<dots> \<le> (unat acc * base + d) * base ^ length ds" using base by simp
      finally show ?thesis by simp
    qed (use Cons.prems(4) in auto)
    with r True step nv show ?thesis by (simp add: add.assoc)
  next
    case False
    then have lt: "unat acc * base + d < 2 ^ 64" using ov by (metis not_le)
    have e: "unat (acc * of_nat base + of_nat d :: u64) = unat acc * base + d"
    proof -
      have "unat (acc * of_nat base :: u64) = unat acc * base"
        using lt ub by (subst unat_mult_lem[THEN iffD1]) simp_all
      moreover have "unat (of_nat d :: u64) = d" using lt by (simp add: unsigned_of_nat take_bit_nat_eq_self)
      ultimately show ?thesis using lt by (subst unat_add_lem[THEN iffD1]) simp_all
    qed
    from Cons.IH[OF ds _ stop, where acc = "acc * of_nat base + of_nat d" and any = 1] Cons.prems(2) obtain acc' any' where r:
      "strtoul_loop m base cutoff cutlim (m (s + 1 - 1)) (s + 1) (acc * of_nat base + of_nat d) 1 =
         Some (acc', any', s + 1 + of_nat (length ds))"
      "if 2 ^ 64 \<le> (unat acc * base + d) * base ^ length ds + num_val base ds then any' = - 1
       else unat acc' = (unat acc * base + d) * base ^ length ds + num_val base ds \<and> any' = 1"
      unfolding e by (auto split: if_splits)
    have "any \<noteq> - 1" using False by auto
    with r False step nv show ?thesis by (auto simp: add.assoc split: if_splits)
  qed
qed

subsection \<open>Blocks of bytes\<close>

definition holds :: "mem \<Rightarrow> u64 \<Rightarrow> u8 list \<Rightarrow> bool" where
  "holds m a bs \<longleftrightarrow> (\<forall>i < length bs. m (a + of_nat i) = bs ! i)"

lemma holds_Nil [simp]: "holds m a []"
  by (simp add: holds_def)

lemma holds_Cons [simp]: "holds m a (x # xs) \<longleftrightarrow> m a = x \<and> holds m (a + 1) xs"
  by (auto simp: holds_def All_less_Suc2 add.assoc)

lemma holds_append: "holds m a (xs @ ys) \<longleftrightarrow> holds m a xs \<and> holds m (a + of_nat (length xs)) ys"
  by (induction xs arbitrary: a) (auto simp: add.assoc)

lemma holds_place: "length bs < 2 ^ 64 \<Longrightarrow> holds (place base bs m) base bs"
  by (simp add: holds_def place_def unsigned_of_nat take_bit_nat_eq_self)

end
