(* ===== verification/Libc_Claims.thy ===== *)
theory Libc_Claims
  imports Libc_Props
begin

text \<open>Two properties of the C library functions on which loading and configuration rest.\<close>

text \<open>
  C21: \<open>memmove\<close> moves overlapping blocks correctly. For any two blocks of the address space, wherever
  they lie, every byte of the destination gets the byte the source held before, and no other byte
  of the memory changes.
\<close>

theorem memmove_correct:
  assumes "unat d + n \<le> 2 ^ 64" "unat s + n \<le> 2 ^ 64"
  shows "(\<forall>i < n. memmove m d s n (d + of_nat i) = m (s + of_nat i)) \<and>
    (\<forall>a. (\<forall>i < n. a \<noteq> d + of_nat i) \<longrightarrow> memmove m d s n a = m a)"
proof -
  have n: "n \<le> 2 ^ 64" using assms(1) by linarith
  consider "s = d" | "d < s" | "s < d" by fastforce
  then show ?thesis
  proof cases
    case 1
    then show ?thesis by (simp add: memmove_def)
  next
    case 2
    have "\<forall>i j. i < j \<longrightarrow> j < n \<longrightarrow> d + of_nat i \<noteq> s + of_nat j"
    proof (intro allI impI notI)
      fix i j assume "i < j" "j < n" "d + of_nat i = s + of_nat j"
      with offset_less[of d i s j] assms 2 show False by (simp add: word_less_nat_alt)
    qed
    from memcpy_up[OF n this, of m] 2 show ?thesis by (simp add: memmove_def)
  next
    case 3
    let ?d = "d + of_nat n - 1" and ?s = "s + of_nat n - 1"
    have flip: "x + of_nat n - 1 - of_nat i = x + of_nat (n - 1 - i)" if "i < n" for x :: u64 and i
      using that by (simp add: of_nat_diff algebra_simps)
    have "\<forall>i j. i < j \<longrightarrow> j < n \<longrightarrow> ?d - of_nat i \<noteq> ?s - of_nat j"
    proof (intro allI impI notI)
      fix i j assume ij: "i < j" "j < n" "?d - of_nat i = ?s - of_nat j"
      then have "d + of_nat (n - 1 - i) = s + of_nat (n - 1 - j)" by (simp add: flip)
      moreover have "unat d + (n - 1 - i) < 2 ^ 64" "unat s + (n - 1 - j) < 2 ^ 64" using ij assms by linarith+
      ultimately have "unat d + (n - 1 - i) = unat s + (n - 1 - j)" by (intro offset_less)
      moreover have "unat s < unat d" using 3 by (simp add: word_less_nat_alt)
      ultimately show False using ij by linarith
    qed
    from memcpy_down_eq[OF n this, of m] have r:
      "\<And>i. i < n \<Longrightarrow> memcpy_down m ?d ?s n (?d - of_nat i) = m (?s - of_nat i)"
      "\<And>a. (\<forall>i < n. a \<noteq> ?d - of_nat i) \<Longrightarrow> memcpy_down m ?d ?s n a = m a" by blast+
    have mm: "memmove m d s n = memcpy_down m ?d ?s n" using 3 by (auto simp: memmove_def)
    show ?thesis
    proof (intro conjI allI impI)
      fix i assume "i < n"
      then show "memmove m d s n (d + of_nat i) = m (s + of_nat i)"
        using r(1)[of "n - 1 - i"] flip[of "n - 1 - i"] by (simp add: mm)
    next
      fix a assume a: "\<forall>i < n. a \<noteq> d + of_nat i"
      have "\<forall>i < n. a \<noteq> ?d - of_nat i"
      proof (intro allI impI)
        fix i assume i: "i < n"
        have "a \<noteq> d + of_nat (n - 1 - i)" using a[rule_format, of "n - 1 - i"] i by simp
        with flip[OF i, of d] show "a \<noteq> ?d - of_nat i" by metis
      qed
      then show "memmove m d s n a = m a" using r(2) by (simp add: mm)
    qed
  qed
qed

theorem memmove_correct_witness:
  "memmove (\<lambda>a. ucast a) 12 10 4 15 = (13 :: u8)"
proof -
  have "unat (12 :: u64) + 4 \<le> 2 ^ 64" "unat (10 :: u64) + 4 \<le> 2 ^ 64" by simp_all
  from memmove_correct[OF this, of "\<lambda>a. ucast a", THEN conjunct1, rule_format, of 3] show ?thesis by simp
qed

lemma strtoul_on_digits:
  assumes "2 \<le> base" "base \<le> 36" "ds \<noteq> []" "digits_at m q ds" "\<forall>d \<in> set ds. d < base"
    "case digit_val (m (q + of_nat (length ds))) of None \<Rightarrow> True | Some d \<Rightarrow> base \<le> d"
    "q = p \<and> (base = 16 \<longrightarrow> m p = 0x30 \<longrightarrow> m (p + 1) \<noteq> 0x78 \<and> m (p + 1) \<noteq> 0x58) \<or>
     q = p + 2 \<and> base = 16 \<and> m p = 0x30 \<and> (m (p + 1) = 0x78 \<or> m (p + 1) = 0x58)"
  shows "strtoul m p base =
    Some (if num_val base ds < 2 ^ 64 then of_nat (num_val base ds) else ULONG_MAX, q + of_nat (length ds))"
proof -
  let ?cutoff = "ULONG_MAX div of_nat base" and ?cutlim = "unat (ULONG_MAX mod of_nat base)"
  have first: "digit_val (m q) \<noteq> None" using assms(3,4) by (cases ds) (auto simp: digits_at_def dest: spec[of _ 0])
  have b0: "base \<noteq> 0" using assms(1) by simp
  have sign: "m p \<noteq> 0x2d \<and> m p \<noteq> 0x2b"
    using assms(7) first by (auto simp: digit_val_def)
  have e: "strtoul m p base =
      do { (acc, any, s) \<leftarrow> strtoul_loop m base ?cutoff ?cutlim (m (q + 1 - 1)) (q + 1) 0 0;
           Some (if any < 0 then ULONG_MAX else acc, if any \<noteq> 0 then s - 1 else p) }"
    using assms(7) sign b0 by (auto simp: strtoul_def Let_def add.commute cong: if_cong)
  from strtoul_loop_digits[OF assms(1,2) refl refl, of m "q + 1" ds 0 0] assms(3-6) obtain acc any where r:
    "strtoul_loop m base ?cutoff ?cutlim (m (q + 1 - 1)) (q + 1) 0 0 = Some (acc, any, q + 1 + of_nat (length ds))"
    "if 2 ^ 64 \<le> num_val base ds then any = - 1 else unat acc = num_val base ds \<and> any = 1" by auto
  show ?thesis
  proof (cases "num_val base ds < 2 ^ 64")
    case True
    with r(2) have "unat acc = num_val base ds" by simp
    moreover have "of_nat (unat acc) = acc" by simp
    ultimately have "acc = of_nat (num_val base ds)" by metis
    with True r e show ?thesis by simp
  next
    case False
    with r e show ?thesis by simp
  qed
qed

text \<open>
  C22: \<open>strtoul\<close> reads numbers exactly and saturates. On a string that starts with the digits \<open>ds\<close> of
  the base (after \<open>0x\<close> if the base is 16), up to a character that is no digit of the base, it
  returns their value if this is below \<open>2^64\<close> and \<open>ULONG_MAX\<close> otherwise, with the end pointer behind
  the last digit.
\<close>

theorem strtoul_digits:
  assumes "2 \<le> base" "base \<le> 36" "ds \<noteq> []" "digits_at m q ds" "\<forall>d \<in> set ds. d < base"
    "case digit_val (m (q + of_nat (length ds))) of None \<Rightarrow> True | Some d \<Rightarrow> base \<le> d"
    "q = p \<and> (base = 16 \<longrightarrow> m p = 0x30 \<longrightarrow> m (p + 1) \<noteq> 0x78 \<and> m (p + 1) \<noteq> 0x58) \<or>
     q = p + 2 \<and> base = 16 \<and> m p = 0x30 \<and> (m (p + 1) = 0x78 \<or> m (p + 1) = 0x58)"
  shows "strtoul m p base =
    Some (if num_val base ds < 2 ^ 64 then of_nat (num_val base ds) else ULONG_MAX, q + of_nat (length ds))"
  using assms by (rule strtoul_on_digits)

theorem strtoul_digits_witness:
  "strtoul (\<lambda>a. if a = 0 then 0x31 else if a = 1 then 0x66 else 0) 0 16 = Some (0x1f, 2)"
proof -
  define m :: mem where "m = (\<lambda>a. if a = 0 then 0x31 else if a = 1 then 0x66 else 0)"
  have "digits_at m 0 [1, 15]" by (simp add: digits_at_def All_less_Suc m_def digit_val_def)
  moreover have "digit_val (m (0 + of_nat (length [1 :: nat, 15]))) = None" by (simp add: m_def digit_val_def)
  ultimately have "strtoul m 0 16 = Some (if num_val 16 [1, 15] < 2 ^ 64 then of_nat (num_val 16 [1, 15]) else ULONG_MAX,
      0 + of_nat (length [1 :: nat, 15]))"
    by (intro strtoul_digits) (simp_all add: m_def)
  then show ?thesis by (simp add: m_def num_val_def)
qed

end
