(* ===== verification/Ascii.thy ===== *)
theory Ascii
  imports Libc_String
begin

text \<open>
  Strings of the logic as the bytes that C strings consist of, without the terminating NUL, and
  back.
\<close>

definition bytes :: "string \<Rightarrow> u8 list" where
  "bytes s = map (\<lambda>c. of_nat (of_char c)) s"

definition chars :: "u8 list \<Rightarrow> string" where
  "chars bs = map (\<lambda>b. char_of (unat b)) bs"

lemma chars_bytes: "chars (bytes x) = x"
proof -
  have "char_of (unat (of_nat (of_char c) :: u8)) = c" for c
  proof -
    have "(of_char c :: nat) < 256" by simp
    then have "unat (of_nat (of_char c) :: u8) = of_char c" by (simp add: unsigned_of_nat take_bit_nat_eq_self)
    then show ?thesis by simp
  qed
  then show ?thesis by (simp add: chars_def bytes_def comp_def)
qed

end
