(* ===== verification/Stdio.thy ===== *)
theory Stdio
  imports Libc_String
begin

text \<open>
  Formatted output, \<open>lib/libc/stdio.c\<close>.

  A format is the list of its bytes before the NUL. The buffer that is printed to lies in the
  byte-addressed memory; \<open>printf\<close> goes through the static buffer \<open>console_tbuf\<close>, whose address is a
  parameter, to the output, which is a log of the bytes given to \<open>stdio_output\<close>. The lock around it is taken and given
  back by every caller and not modelled here. An argument of the wrong kind, a missing one and a
  format that ends inside a directive, after which the code reads behind the string, are \<open>None\<close>.
\<close>

subsection \<open>Characters\<close>

definition isprintable :: "u8 \<Rightarrow> bool" where
  "isprintable c = ((31 < c \<and> c < 127) \<or> c = 12 \<or> c = 13 \<or> c = 10 \<or> c = 9)"

text \<open>What \<open>stdio_output\<close> of \<open>common/stdio.c\<close> hands to the registered function, if there is one.\<close>

definition stdio_output :: "bool \<Rightarrow> u8 \<Rightarrow> u8 list" where
  "stdio_output registered ch = (if \<not> registered then [] else if ch = 10 then [13, ch] else [ch])"

record pst =
  p_mem :: mem
  p_out :: u64
  p_len :: "nat option"
  p_log :: "u8 list"

definition CONSOLE_TBUF_MAX :: nat where "CONSOLE_TBUF_MAX = 256"

text \<open>\<open>nputs_all\<close>: one round prints everything.\<close>

definition nputs_all :: "u64 \<Rightarrow> nat \<Rightarrow> pst \<Rightarrow> pst" where
  "nputs_all str len st = st\<lparr>p_log := p_log st @ map (\<lambda>i. p_mem st (str + of_nat i)) [0..<len]\<rparr>"

definition puts :: "u64 \<Rightarrow> pst \<Rightarrow> (nat \<times> pst) option" where
  "puts str st =
     do { len \<leftarrow> strlen (p_mem st) str;
          let st1 = nputs_all str len st;
          Some (len, st1\<lparr>p_log := p_log st1 @ [10]\<rparr>) }"

text \<open>Input: the results of the polls to come, negative without a character; at the end there is none.\<close>

definition poll :: "int list \<Rightarrow> int \<times> int list" where
  "poll ps = (case ps of [] \<Rightarrow> (- 1, []) | p # qs \<Rightarrow> (p, qs))"

fun gets :: "int list \<Rightarrow> u64 \<Rightarrow> int \<Rightarrow> int \<Rightarrow> mem \<Rightarrow> mem \<times> int list" where
  "gets [] s maxwidth endchar m = (m(s := 0), [])"
| "gets (ch # ps) s maxwidth endchar m =
     (if ch \<noteq> endchar \<and> ch \<ge> 0 \<and> maxwidth > 1 then gets ps (s + 1) (maxwidth - 1) endchar (m(s := of_int ch))
      else (m(s := 0), ps))"

fun ngets :: "int list \<Rightarrow> u64 \<Rightarrow> nat \<Rightarrow> nat \<Rightarrow> mem \<Rightarrow> nat \<times> mem \<times> int list" where
  "ngets ps str i 0 m = (i, m, ps)"
| "ngets ps str i (Suc n) m =
     (case poll ps of (ch, qs) \<Rightarrow>
        if ch < 0 then (i, m, qs) else ngets qs str (Suc i) n (m(str + of_nat i := of_int ch)))"

subsection \<open>Printing\<close>

record pad_flags =
  PAD_RIGHT :: bool
  PAD_ZERO :: bool
  PAD_ALTERNATE :: bool

definition no_flags :: pad_flags where "no_flags = \<lparr>PAD_RIGHT = False, PAD_ZERO = False, PAD_ALTERNATE = False\<rparr>"

definition printc :: "u8 \<Rightarrow> pst \<Rightarrow> pst" where
  "printc ch st =
     (let st1 = (if p_len st = None \<or> the (p_len st) > 1
                 then st\<lparr>p_mem := (p_mem st)(p_out st := ch, p_out st + 1 := 0), p_out := p_out st + 1\<rparr>
                 else st)
      in case p_len st of
           None \<Rightarrow> st1
         | Some n \<Rightarrow> (if n > 0 then st1\<lparr>p_len := Some (n - 1)\<rparr> else st1))"

definition printcs :: "u8 list \<Rightarrow> pst \<Rightarrow> pst" where
  "printcs cs st = foldl (\<lambda>st c. printc c st) st cs"

definition prints :: "u8 list \<Rightarrow> int \<Rightarrow> pad_flags \<Rightarrow> pst \<Rightarrow> nat \<times> pst" where
  "prints str width flags st =
     (let padchar = (if width > 0 \<and> PAD_ZERO flags then 48 else 32);
          w = (if width > 0 then (if int (length str) \<ge> width then 0 else width - int (length str)) else width);
          left = (if PAD_RIGHT flags then [] else replicate (nat w) padchar);
          right = (if PAD_RIGHT flags then replicate (nat w) padchar else [])
      in (length left + length str + length right, printcs right (printcs str (printcs left st))))"

text \<open>The digits of a number, with \<open>letbase\<close> for ten. The array of 64 bytes is never full.\<close>

fun udigits :: "nat \<Rightarrow> u8 \<Rightarrow> nat \<Rightarrow> u8 list" where
  "udigits b letbase u =
     (if u = 0 \<or> b < 2 then []
      else udigits b letbase (u div b) @
        [(let t = u mod b in if t \<ge> 10 then of_nat t + letbase - 10 else of_nat t + 48)])"

declare udigits.simps [simp del]

definition printi :: "u64 \<Rightarrow> nat \<Rightarrow> bool \<Rightarrow> int \<Rightarrow> pad_flags \<Rightarrow> u8 \<Rightarrow> pst \<Rightarrow> nat \<times> pst" where
  "printi i b sg width flags letbase st =
     (let neg = (sg \<and> b = 10 \<and> sint i < 0);
          u = unat (if neg then - i else i);
          s1 = (if u = 0 then [48] else udigits b letbase u);
          s2 = (if PAD_ALTERNATE flags
                then 48 # (if b = 16 \<and> letbase = 65 then 88 # s1 else if b = 16 \<and> letbase = 97 then 120 # s1 else s1)
                else s1)
      in if neg \<and> width \<noteq> 0 \<and> PAD_ZERO flags
         then (case prints s2 (width - 1) flags (printc 45 st) of (pc, st1) \<Rightarrow> (Suc pc, st1))
         else prints (if neg then 45 # s2 else s2) width flags st)"

subsection \<open>Formats\<close>

datatype va_arg = A_int u64 | A_str "u8 list option"

text \<open>An integer argument in its register: the bytes that are read of it depend on the type.\<close>

fun va_word :: "va_arg list \<Rightarrow> (u64 \<times> va_arg list) option" where
  "va_word (A_int w # args) = Some (w, args)"
| "va_word _ = None"

definition va_int :: "va_arg list \<Rightarrow> (u64 \<times> va_arg list) option" where
  "va_int args = map_option (\<lambda>(w, r). (scast (ucast w :: u32), r)) (va_word args)"

definition va_uint :: "va_arg list \<Rightarrow> (u64 \<times> va_arg list) option" where
  "va_uint args = map_option (\<lambda>(w, r). (ucast (ucast w :: u32), r)) (va_word args)"

fun va_str :: "va_arg list \<Rightarrow> (u8 list option \<times> va_arg list) option" where
  "va_str (A_str s # args) = Some (s, args)"
| "va_str _ = None"

text \<open>The flags and the width behind the percent sign, and what is left.\<close>

definition eat :: "u8 \<Rightarrow> u8 list \<Rightarrow> bool \<times> u8 list" where
  "eat c f = (case f of d # ds \<Rightarrow> if d = c then (True, ds) else (False, f) | [] \<Rightarrow> (False, f))"

fun get_width :: "int \<Rightarrow> u8 list \<Rightarrow> int \<times> u8 list" where
  "get_width w [] = (w, [])"
| "get_width w (c # cs) = (if 48 \<le> c \<and> c \<le> 57 then get_width (w * 10 + (uint c - 48)) cs else (w, c # cs))"

definition get_flags :: "u8 list \<Rightarrow> va_arg list \<Rightarrow> (pad_flags \<times> int \<times> u8 list \<times> va_arg list) option" where
  "get_flags f args =
     (case eat 45 f of (right, f1) \<Rightarrow>
      case eat 35 f1 of (alt, f2) \<Rightarrow>
      case eat 42 f2 of (star, f3) \<Rightarrow>
        do { (w, args1) \<leftarrow> (if star then map_option (\<lambda>(x, r). (sint x, r)) (va_int args) else Some (0, args));
             let f4 = dropWhile (\<lambda>c. c = 48) f3;
             (case get_width w f4 of (w1, f5) \<Rightarrow>
               Some (\<lparr>PAD_RIGHT = right, PAD_ZERO = (f4 \<noteq> f3), PAD_ALTERNATE = alt\<rparr>, w1, f5, args1)) })"

text \<open>
  One conversion: the number of bytes it counts, the state, what is left of the arguments and of the
  format. An unknown letter is skipped.
\<close>

definition number :: "nat \<Rightarrow> bool \<Rightarrow> u8 \<Rightarrow> pad_flags \<Rightarrow> int \<Rightarrow> u8 list \<Rightarrow> (u64 \<times> va_arg list) option \<Rightarrow> pst \<Rightarrow>
    (nat \<times> pst \<times> va_arg list \<times> u8 list) option" where
  "number b sg letbase flags width rest arg st =
     do { (w, args) \<leftarrow> arg;
          (case printi w b sg width flags letbase st of (pc, st1) \<Rightarrow> Some (pc, st1, args, rest)) }"

definition long_conv :: "pad_flags \<Rightarrow> int \<Rightarrow> u8 list \<Rightarrow> va_arg list \<Rightarrow> pst \<Rightarrow>
    (nat \<times> pst \<times> va_arg list \<times> u8 list) option" where
  "long_conv flags width f args st =
     (case f of
        c # cs \<Rightarrow>
          (if c = 117 then number 10 False 97 flags width cs (va_word args) st
           else if c = 120 then number 16 False 97 flags width cs (va_word args) st
           else if c = 88 then number 16 False 65 flags width cs (va_word args) st
           else if c = 100 then number 10 True 48 flags width cs (va_word args) st
           else number 10 True 48 flags width f (va_word args) st)
      | [] \<Rightarrow> number 10 True 48 flags width f (va_word args) st)"

definition convert :: "pad_flags \<Rightarrow> int \<Rightarrow> u8 list \<Rightarrow> va_arg list \<Rightarrow> pst \<Rightarrow>
    (nat \<times> pst \<times> va_arg list \<times> u8 list) option" where
  "convert flags width f args st =
     (case f of
        [] \<Rightarrow> None
      | c # cs \<Rightarrow>
          (if c = 115
           then do { (s, args1) \<leftarrow> va_str args;
                     (case prints (case s of None \<Rightarrow> [40, 110, 117, 108, 108, 41] | Some x \<Rightarrow> x) width flags st of
                        (pc, st1) \<Rightarrow> Some (pc, st1, args1, cs)) }
           else if c = 100 \<or> c = 105 then number 10 True 48 flags width cs (va_int args) st
           else if c = 120 then number 16 False 97 flags width cs (va_uint args) st
           else if c = 88 then number 16 False 65 flags width cs (va_uint args) st
           else if c = 117 then number 10 False 97 flags width cs (va_uint args) st
           else if c = 112 then number 16 False 97 flags width cs (va_word args) st
           else if c = 80 then number 16 False 65 flags width cs (va_word args) st
           else if c = 108
           then (case cs of
                   d # ds \<Rightarrow> (if d = 108 then long_conv flags width ds args st else long_conv flags width cs args st)
                 | [] \<Rightarrow> long_conv flags width cs args st)
           else if c = 99
           then do { (w, args1) \<leftarrow> va_word args;
                     (case prints (if (ucast w :: u8) = 0 then [] else [ucast w]) width flags st of
                        (pc, st1) \<Rightarrow> Some (pc, st1, args1, cs)) }
           else Some (0, st, args, cs)))"

lemma number_rest: "number b sg l fl w rest arg st = Some (pc, st1, args1, r) \<Longrightarrow> r = rest"
  by (auto simp: number_def split: bind_splits prod.splits)

lemma long_conv_shorter: "long_conv fl w f args st = Some (pc, st1, args1, r) \<Longrightarrow> length r \<le> length f"
  by (auto simp: long_conv_def split: list.splits if_splits dest!: number_rest)

lemma convert_shorter: "convert fl w f args st = Some (pc, st1, args1, r) \<Longrightarrow> length r < length f"
  unfolding convert_def
  by (auto split: list.splits if_splits bind_splits prod.splits dest!: number_rest long_conv_shorter)

lemma get_width_shorter: "get_width w f = (w1, r) \<Longrightarrow> length r \<le> length f"
  by (induction w f rule: get_width.induct) (auto split: if_splits)

lemma eat_shorter: "eat c f = (b, r) \<Longrightarrow> length r \<le> length f"
  by (auto simp: eat_def split: list.splits if_splits)

lemma get_flags_shorter:
  assumes "get_flags f args = Some (fl, w, r, args1)"
  shows "length r \<le> length f"
proof -
  obtain right f1 alt f2 star f3 where e: "eat 45 f = (right, f1)" "eat 35 f1 = (alt, f2)" "eat 42 f2 = (star, f3)"
    by (metis prod.exhaust)
  from assms e obtain w0 where "get_width w0 (dropWhile (\<lambda>c. c = 48) f3) = (w, r)"
    by (auto simp: get_flags_def Let_def split: prod.splits bind_splits)
  from get_width_shorter[OF this] have "length r \<le> length f3" using length_dropWhile_le[of "\<lambda>c. c = 48" f3] by simp
  with eat_shorter[OF e(1)] eat_shorter[OF e(2)] eat_shorter[OF e(3)] show ?thesis by simp
qed

text \<open>
  The loop of \<open>print\<close>: \<open>tbuf\<close> is the address of \<open>console_tbuf\<close> if it is used, \<open>pc\<close> what was counted so
  far.
\<close>

definition flush_full :: "u64 option \<Rightarrow> pst \<Rightarrow> pst" where
  "flush_full tbuf st =
     (case tbuf of
        Some tb \<Rightarrow>
          (if p_len st = Some 0
           then (nputs_all tb CONSOLE_TBUF_MAX st)\<lparr>p_len := Some CONSOLE_TBUF_MAX, p_out := tb\<rparr>
           else st)
      | None \<Rightarrow> st)"

function print_loop :: "u64 option \<Rightarrow> u8 list \<Rightarrow> va_arg list \<Rightarrow> nat \<Rightarrow> pst \<Rightarrow> (nat \<times> pst) option" where
  "print_loop tbuf [] args pc st = Some (pc, st)"
| "print_loop tbuf (c # f) args pc st =
     (let st0 = flush_full tbuf st
      in if c \<noteq> 37 then print_loop tbuf f args (Suc pc) (printc c st0)
         else
           (case f of
              [] \<Rightarrow> Some (pc, st0)
            | d # ds \<Rightarrow>
                (if d = 37 then print_loop tbuf ds args (Suc pc) (printc 37 st0)
                 else
                   (case get_flags f args of
                      None \<Rightarrow> None
                    | Some (flags, width, f1, args1) \<Rightarrow>
                        (case convert flags width f1 args1 st0 of
                           None \<Rightarrow> None
                         | Some (n, st1, args2, f2) \<Rightarrow> print_loop tbuf f2 args2 (pc + n) st1)))))"
  by pat_completeness auto
termination
  by (relation "measure (\<lambda>(_, f, _, _, _). length f)") (auto dest!: convert_shorter get_flags_shorter)

definition sprintf :: "u64 \<Rightarrow> u8 list \<Rightarrow> va_arg list \<Rightarrow> pst \<Rightarrow> (nat \<times> pst) option" where
  "sprintf out format args st =
     (if out = 0 then None else print_loop None format args 0 (st\<lparr>p_out := out, p_len := None\<rparr>))"

definition snprintf :: "u64 \<Rightarrow> nat \<Rightarrow> u8 list \<Rightarrow> va_arg list \<Rightarrow> pst \<Rightarrow> (nat \<times> pst) option" where
  "snprintf out out_sz format args st =
     (if out = 0 \<and> out_sz \<noteq> 0 then None
      else print_loop None format args 0 (st\<lparr>p_out := out, p_len := Some out_sz\<rparr>))"

definition vsnprintf :: "u64 \<Rightarrow> nat \<Rightarrow> u8 list \<Rightarrow> va_arg list \<Rightarrow> pst \<Rightarrow> (nat \<times> pst) option" where
  "vsnprintf str n format ap st = print_loop None format ap 0 (st\<lparr>p_out := str, p_len := Some n\<rparr>)"

text \<open>The rest of the buffer is printed at the end.\<close>

definition printf :: "u64 \<Rightarrow> u8 list \<Rightarrow> va_arg list \<Rightarrow> pst \<Rightarrow> (nat \<times> pst) option" where
  "printf tb format args st =
     do { (pc, st1) \<leftarrow> print_loop (Some tb) format args 0 (st\<lparr>p_out := tb, p_len := Some CONSOLE_TBUF_MAX\<rparr>);
          Some (pc, (case p_len st1 of
                       Some n \<Rightarrow> (if n < CONSOLE_TBUF_MAX then nputs_all tb (CONSOLE_TBUF_MAX - n) st1 else st1)
                     | None \<Rightarrow> st1)) }"

end
