(* ===== verification/Stdio_Claims.thy ===== *)
theory Stdio_Claims
  imports Ascii Stdio Libc_Claims
begin

text \<open>
  What formatted printing stores, and that printed numbers are read back.
\<close>

subsection \<open>The text that is printed\<close>

lemma printcs_Nil [simp]: "printcs [] st = st"
  by (simp add: printcs_def)

lemma printcs_Cons: "printcs (c # cs) st = printcs cs (printc c st)"
  by (simp add: printcs_def)

lemma printcs_append: "printcs (xs @ ys) st = printcs ys (printcs xs st)"
  by (simp add: printcs_def)

definition padded :: "u8 list \<Rightarrow> int \<Rightarrow> pad_flags \<Rightarrow> u8 list" where
  "padded str width flags =
     (let pad = replicate (nat (if width > 0 then max 0 (width - int (length str)) else width))
          (if width > 0 \<and> PAD_ZERO flags then 48 else 32)
      in if PAD_RIGHT flags then str @ pad else pad @ str)"

lemma prints_text: "prints str width flags st = (length (padded str width flags), printcs (padded str width flags) st)"
  by (auto simp: prints_def padded_def printcs_append Let_def max_def)

lemma printi_text: "\<exists>cs. \<forall>st. printi i b sg width flags letbase st = (length cs, printcs cs st)"
proof -
  define neg where "neg = (sg \<and> b = 10 \<and> sint i < 0)"
  define s2 where "s2 = (let u = unat (if neg then - i else i);
          s1 = (if u = 0 then [48] else udigits b letbase u)
      in (if PAD_ALTERNATE flags
                then 48 # (if b = 16 \<and> letbase = 65 then 88 # s1 else if b = 16 \<and> letbase = 97 then 120 # s1 else s1)
                else s1))"
  show ?thesis
  proof (cases "neg \<and> width \<noteq> 0 \<and> PAD_ZERO flags")
    case True
    then have "printi i b sg width flags letbase st =
        (length (45 # padded s2 (width - 1) flags), printcs (45 # padded s2 (width - 1) flags) st)" for st
      by (simp add: printi_def prints_text Let_def s2_def printcs_Cons flip: neg_def)
    then show ?thesis by blast
  next
    case False
    then have "printi i b sg width flags letbase st = prints (if neg then 45 # s2 else s2) width flags st" for st
      by (auto simp: printi_def Let_def s2_def simp flip: neg_def)
    then show ?thesis unfolding prints_text by blast
  qed
qed

text \<open>A step prints a text that does not depend on the buffer.\<close>

definition uniform :: "(pst \<Rightarrow> (nat \<times> pst \<times> 'a) option) \<Rightarrow> bool" where
  "uniform R \<longleftrightarrow> (\<exists>E. \<forall>st. R st = map_option (\<lambda>(cs, x). (length cs, printcs cs st, x)) E)"

lemma uniform_None [intro!]: "uniform (\<lambda>st. None)"
  unfolding uniform_def by (rule exI[of _ None]) simp

lemma uniform_if:
  "uniform A \<Longrightarrow> uniform B \<Longrightarrow> uniform (\<lambda>st. if P then A st else B st)"
  by (cases P) simp_all

lemma uniform_Some: "uniform (\<lambda>st. Some (0, st, x))"
  unfolding uniform_def by (rule exI[of _ "Some ([], x)"]) simp

lemma uniform_prints: "uniform (\<lambda>st. case prints str width flags st of (pc, st1) \<Rightarrow> Some (pc, st1, x))"
  unfolding uniform_def prints_text by (rule exI[of _ "Some (padded str width flags, x)"]) simp

lemma uniform_number: "uniform (number b sg letbase flags width rest arg)"
proof (cases arg)
  case None
  then show ?thesis unfolding uniform_def by (intro exI[of _ None]) (simp add: number_def)
next
  case (Some a)
  obtain w args where a: "a = (w, args)" by (cases a)
  obtain cs where "\<forall>st. printi w b sg width flags letbase st = (length cs, printcs cs st)" using printi_text by blast
  then show ?thesis unfolding uniform_def
    by (intro exI[of _ "Some (cs, args, rest)"]) (simp add: number_def Some a)
qed

lemma uniform_long: "uniform (long_conv flags width f args)"
proof (cases f)
  case Nil
  then have "long_conv flags width f args = number 10 True 48 flags width f (va_word args)"
    by (intro ext) (simp add: long_conv_def)
  then show ?thesis by (simp add: uniform_number)
next
  case (Cons c cs)
  show ?thesis unfolding long_conv_def Cons list.case by (intro uniform_if uniform_number)
qed

lemma uniform_convert: "uniform (convert flags width f args)"
proof (cases f)
  case Nil
  then show ?thesis unfolding uniform_def by (intro exI[of _ None]) (simp add: convert_def)
next
  case (Cons c cs)
  have s: "uniform (\<lambda>st. do { (s, args1) \<leftarrow> va_str args;
       (case prints (case s of None \<Rightarrow> [40, 110, 117, 108, 108, 41] | Some x \<Rightarrow> x) width flags st of
          (pc, st1) \<Rightarrow> Some (pc, st1, args1, cs)) })"
    by (cases "va_str args") (auto simp: uniform_None uniform_prints split: prod.splits)
  have c: "uniform (\<lambda>st. do { (w, args1) \<leftarrow> va_word args;
       (case prints (if (ucast w :: u8) = 0 then [] else [ucast w]) width flags st of
          (pc, st1) \<Rightarrow> Some (pc, st1, args1, cs)) })"
    by (cases "va_word args") (auto simp: uniform_None uniform_prints split: prod.splits)
  have l: "uniform (\<lambda>st. case cs of d # ds \<Rightarrow> (if d = 108 then long_conv flags width ds args st else long_conv flags width cs args st)
      | [] \<Rightarrow> long_conv flags width cs args st)"
  proof (cases cs)
    case Nil
    then show ?thesis by (simp add: uniform_long)
  next
    case (Cons d ds)
    show ?thesis unfolding Cons list.case by (intro uniform_if uniform_long)
  qed
  show ?thesis unfolding Cons convert_def list.case
    by (intro uniform_if uniform_number uniform_Some s c l)
qed

lemma print_loop_uniform:
  "\<exists>E. \<forall>pc st. print_loop None f args pc st = map_option (\<lambda>cs. (pc + length cs, printcs cs st)) E"
proof (induction "length f" arbitrary: f args rule: less_induct)
  case less
  show ?case
  proof (cases f)
    case Nil
    then show ?thesis by (intro exI[of _ "Some []"]) simp
  next
    case (Cons c f1)
    show ?thesis
    proof (cases "c = 37")
      case False
      obtain E where "\<forall>pc st. print_loop None f1 args pc st = map_option (\<lambda>cs. (pc + length cs, printcs cs st)) E"
        using less[of f1 args] Cons by auto
      then show ?thesis using False Cons
        by (intro exI[of _ "map_option ((#) c) E"])
          (simp add: flush_full_def option.map_comp comp_def printcs_Cons)
    next
      case True
      show ?thesis
      proof (cases f1)
        case Nil
        then show ?thesis using True Cons by (intro exI[of _ "Some []"]) (simp add: flush_full_def)
      next
        case (Cons d ds)
        note f = \<open>f = c # f1\<close> this True
        show ?thesis
        proof (cases "d = 37")
          case True
          obtain E where "\<forall>pc st. print_loop None ds args pc st = map_option (\<lambda>cs. (pc + length cs, printcs cs st)) E"
            using less[of ds args] f by auto
          then show ?thesis using True f
            by (intro exI[of _ "map_option ((#) 37) E"])
              (simp add: flush_full_def option.map_comp comp_def printcs_Cons)
        next
          case False
          show ?thesis
          proof (cases "get_flags f1 args")
            case None
            then show ?thesis using False f by (intro exI[of _ None]) (simp add: flush_full_def)
          next
            case (Some q)
            obtain flags width f2 args1 where q: "q = (flags, width, f2, args1)" by (cases q)
            obtain E1 where E1: "\<forall>st. convert flags width f2 args1 st = map_option (\<lambda>(cs, x). (length cs, printcs cs st, x)) E1"
              using uniform_convert unfolding uniform_def by blast
            show ?thesis
            proof (cases E1)
              case None
              then show ?thesis using False f Some q E1 by (intro exI[of _ None]) (simp add: flush_full_def)
            next
              case E1': (Some r)
              obtain cs args2 f3 where r: "r = (cs, args2, f3)" by (cases r)
              have "length f3 < length f2" using convert_shorter[of flags width f2 args1 undefined] E1 E1' r by auto
              moreover have "length f2 \<le> length f1" using get_flags_shorter Some q by blast
              ultimately obtain E where
                "\<forall>pc st. print_loop None f3 args2 pc st = map_option (\<lambda>cs. (pc + length cs, printcs cs st)) E"
                using less[of f3 args2] f by auto
              then show ?thesis using False f Some q E1 E1' r
                by (intro exI[of _ "map_option ((@) cs) E"])
                  (simp add: flush_full_def option.map_comp comp_def printcs_append add.assoc)
            qed
          qed
        qed
      qed
    qed
  qed
qed

subsection \<open>The buffer\<close>

text \<open>
  What is in memory after a text was printed into \<open>n\<close> bytes at \<open>out\<close>: as much of it as fits, with a
  NUL. With room for less than one character, and for an empty text, not even the NUL is stored.
\<close>

definition text_at :: "u64 \<Rightarrow> nat \<Rightarrow> u8 list \<Rightarrow> mem \<Rightarrow> mem" where
  "text_at out n cs m = (if cs = [] \<or> n < 2 then m else place out (take (n - 1) cs @ [0]) m)"

lemma place_Nil [simp]: "place a [] m = m"
  by (simp add: place_def fun_eq_iff)

lemma place_snoc:
  assumes "length cs + 1 < 2 ^ 64"
  shows "(place out (cs @ [0]) m)(out + of_nat (length cs) := c, out + of_nat (length cs) + 1 := 0) =
    place out (cs @ [c, 0]) m"
proof
  fix a
  let ?d = "unat (a - out)"
  have e: "a = out + of_nat k \<longleftrightarrow> ?d = k" if "k < 2 ^ 64" for k
  proof
    assume "a = out + of_nat k"
    then show "?d = k" using that by (simp add: unsigned_of_nat take_bit_nat_eq_self)
  next
    assume "?d = k"
    then have "of_nat k = a - out" by (metis of_nat_unat ucast_id)
    then show "a = out + of_nat k" by simp
  qed
  have "a = out + of_nat (length cs) \<longleftrightarrow> ?d = length cs" "a = out + of_nat (length cs) + 1 \<longleftrightarrow> ?d = Suc (length cs)"
    using e[of "length cs"] e[of "Suc (length cs)"] assms by (simp_all add: add_ac)
  then show "((place out (cs @ [0]) m)(out + of_nat (length cs) := c, out + of_nat (length cs) + 1 := 0)) a =
      place out (cs @ [c, 0]) m a"
    by (auto simp: place_def nth_append nth_Cons')
qed

lemma place_first: "m(out := c, out + 1 := 0) = place out [c, 0] m"
proof
  fix a
  have "a = out \<longleftrightarrow> unat (a - out) = 0" by (simp add: unat_eq_0)
  moreover have "a = out + 1 \<longleftrightarrow> unat (a - out) = 1"
    by (metis add_diff_cancel_left' diff_add_cancel add.commute unat_1 word_unat_eq_iff)
  ultimately show "(m(out := c, out + 1 := 0)) a = place out [c, 0] m a"
    by (auto simp: place_def nth_Cons')
qed

lemma printcs_text:
  assumes "n < 2 ^ 64"
  shows "printcs cs (st\<lparr>p_out := out, p_len := Some n\<rparr>) =
    st\<lparr>p_mem := text_at out n cs (p_mem st), p_out := out + of_nat (min (length cs) (n - 1)), p_len := Some (n - length cs)\<rparr>"
proof (induction cs rule: rev_induct)
  case Nil
  then show ?case by (simp add: text_at_def)
next
  case (snoc c cs)
  let ?st = "st\<lparr>p_mem := text_at out n cs (p_mem st), p_out := out + of_nat (min (length cs) (n - 1)), p_len := Some (n - length cs)\<rparr>"
  have "printcs (cs @ [c]) (st\<lparr>p_out := out, p_len := Some n\<rparr>) = printc c ?st"
    by (simp add: printcs_append printcs_Cons snoc.IH)
  also have "\<dots> = st\<lparr>p_mem := text_at out n (cs @ [c]) (p_mem st),
      p_out := out + of_nat (min (length (cs @ [c])) (n - 1)), p_len := Some (n - length (cs @ [c]))\<rparr>"
  proof (cases "length cs < n - 1")
    case True
    then have "length cs + 1 < 2 ^ 64" using assms by simp
    from place_snoc[OF this, of out "p_mem st" c] place_first[of "p_mem st" out c] True
    have "(text_at out n cs (p_mem st))(out + of_nat (length cs) := c, out + of_nat (length cs) + 1 := 0) =
        text_at out n (cs @ [c]) (p_mem st)"
      by (auto simp: text_at_def)
    with True show ?thesis by (simp add: printc_def min_def Let_def add_ac)
  next
    case False
    then have m: "min (length cs) (n - 1) = n - 1" "min (length (cs @ [c])) (n - 1) = n - 1" by auto
    from False have "text_at out n (cs @ [c]) (p_mem st) = text_at out n cs (p_mem st)"
      by (cases "cs = []") (auto simp: text_at_def)
    then show ?thesis using False unfolding m by (auto simp: printc_def Let_def)
  qed
  finally show ?case .
qed

text \<open>
  C31: \<open>snprintf\<close> is bounded and truncates. For every format and every list of arguments there is one
  text (or the call faults in every buffer) such that a call with a buffer of any size returns the
  length of the whole text, stores as much of it as fits with the terminating NUL, and changes no
  byte outside of the buffer, nothing at all if there is no room for a character.
\<close>
theorem snprintf_bounded:
  "\<exists>E. \<forall>out n st. out \<noteq> 0 \<longrightarrow> n < 2 ^ 64 \<longrightarrow>
     map_option (\<lambda>(k, st'). (k, p_mem st')) (snprintf out n format args st) =
     map_option (\<lambda>cs. (length cs, text_at out n cs (p_mem st))) E \<and>
     (\<forall>cs a. E = Some cs \<longrightarrow> n \<le> unat (a - out) \<longrightarrow> text_at out n cs (p_mem st) a = p_mem st a)"
proof -
  obtain E where E: "\<And>pc st. print_loop None format args pc st = map_option (\<lambda>cs. (pc + length cs, printcs cs st)) E"
    using print_loop_uniform by metis
  have "map_option (\<lambda>(k, st'). (k, p_mem st')) (snprintf out n format args st) =
     map_option (\<lambda>cs. (length cs, text_at out n cs (p_mem st))) E" if "out \<noteq> 0" "n < 2 ^ 64" for out n and st :: pst
    using that by (simp add: snprintf_def E option.map_comp comp_def printcs_text)
  moreover have "text_at out n cs m a = m a" if "n \<le> unat (a - out)" for out n cs m a
    using that by (auto simp: text_at_def place_def)
  ultimately show ?thesis by (intro exI[of _ E]) blast
qed

definition demo_pst :: pst where
  "demo_pst = \<lparr>p_mem = \<lambda>_. 7, p_out = 0, p_len = None, p_log = []\<rparr>"

theorem snprintf_bounded_witness:
  "\<exists>cs. map_option (\<lambda>(k, st'). (k, p_mem st')) (snprintf 16 4 (bytes ''%d'') [A_int 1234] demo_pst) =
     Some (length cs, text_at 16 4 cs (\<lambda>_. 7))"
proof -
  obtain E where E: "\<And>out n st. out \<noteq> 0 \<Longrightarrow> n < 2 ^ 64 \<Longrightarrow>
     map_option (\<lambda>(k, st'). (k, p_mem st')) (snprintf out n (bytes ''%d'') [A_int 1234] st) =
     map_option (\<lambda>cs. (length cs, text_at out n cs (p_mem st))) E"
    using snprintf_bounded[of "bytes ''%d''" "[A_int 1234]"] by blast
  have "snprintf 16 4 (bytes ''%d'') [A_int 1234] demo_pst \<noteq> None"
    by (simp add: snprintf_def bytes_def flush_full_def get_flags_def eat_def convert_def number_def va_int_def split: prod.splits)
  with E[of 16 4 demo_pst] show ?thesis by (cases E) (auto simp: demo_pst_def)
qed

subsection \<open>Numbers\<close>

lemma udigits_step:
  "0 < u \<Longrightarrow> 2 \<le> b \<Longrightarrow> udigits b l u = udigits b l (u div b) @
     [(if u mod b \<ge> 10 then of_nat (u mod b) + l - 10 else of_nat (u mod b) + 48)]"
  by (subst udigits.simps) (simp add: Let_def)

lemma udigits_zero: "udigits b l 0 = []"
  by (subst udigits.simps) simp

lemma digit_val_low: "t < 10 \<Longrightarrow> digit_val (of_nat t + 48) = Some t"
proof -
  assume "t < 10"
  then have "t = 0 \<or> t = 1 \<or> t = 2 \<or> t = 3 \<or> t = 4 \<or> t = 5 \<or> t = 6 \<or> t = 7 \<or> t = 8 \<or> t = 9" by arith
  then show ?thesis by (elim disjE) (simp_all add: digit_val_def)
qed

lemma digit_val_high: "10 \<le> t \<Longrightarrow> t < 16 \<Longrightarrow> l = 97 \<or> l = 65 \<Longrightarrow> digit_val (of_nat t + l - 10) = Some t"
proof -
  assume t: "10 \<le> t" "t < 16" and l: "l = 97 \<or> l = 65"
  from t have "t = 10 \<or> t = 11 \<or> t = 12 \<or> t = 13 \<or> t = 14 \<or> t = 15" by arith
  with l show ?thesis by (elim disjE) (simp_all add: digit_val_def)
qed

text \<open>The digits that are printed are those of the number, with any zeros in front.\<close>

lemma udigits_digits:
  assumes "b = 10 \<or> b = 16 \<and> (l = 97 \<or> l = 65)"
  shows "\<exists>ds. map digit_val (udigits b l u) = map Some ds \<and> num_val b ds = u \<and> (\<forall>d \<in> set ds. d < b)"
proof (induction u rule: less_induct)
  case (less u)
  have b: "2 \<le> b" using assms by auto
  show ?case
  proof (cases "u = 0")
    case True
    then show ?thesis by (intro exI[of _ "[]"]) (simp add: udigits_zero num_val_def)
  next
    case False
    then have "u div b < u" using b by simp
    from less[OF this] obtain ds where ds: "map digit_val (udigits b l (u div b)) = map Some ds"
      "num_val b ds = u div b" "\<forall>d \<in> set ds. d < b" by blast
    let ?c = "if u mod b \<ge> 10 then of_nat (u mod b) + l - 10 else of_nat (u mod b) + 48"
    have lt: "u mod b < b" using b by simp
    have "digit_val ?c = Some (u mod b)"
    proof (cases "u mod b \<ge> 10")
      case True
      then have "b = 16" "l = 97 \<or> l = 65" using assms lt by auto
      then show ?thesis using True lt digit_val_high[of "u mod b" l] by simp
    qed (use digit_val_low in simp)
    then have "map digit_val (udigits b l u) = map Some (ds @ [u mod b])"
      using ds(1) False b by (simp add: udigits_step)
    moreover have "num_val b (ds @ [u mod b]) = u" using ds(2) by (simp add: num_val_def)
    ultimately show ?thesis using ds(3) lt by (intro exI[of _ "ds @ [u mod b]"]) auto
  qed
qed

lemma zeros_digits:
  assumes "map digit_val cs = map Some ds"
  shows "map digit_val (replicate z 48 @ cs) = map Some (replicate z 0 @ ds)"
  using assms digit_val_low[of 0] by simp

lemma num_val_zeros: "num_val b (replicate z 0 @ ds) = num_val b ds"
  by (induction z) (simp_all add: num_val_def)

lemma udigits_length: "u < b ^ k \<Longrightarrow> 2 \<le> b \<Longrightarrow> length (udigits b l u) \<le> k"
proof (induction k arbitrary: u)
  case 0
  then show ?case by (simp add: udigits_zero)
next
  case (Suc k)
  show ?case
  proof (cases "u = 0")
    case False
    have "u div b < b ^ k" using Suc.prems by (simp add: less_mult_imp_div_less mult.commute)
    with Suc.IH[OF this] Suc.prems False show ?thesis by (simp add: udigits_step)
  qed (simp add: udigits_zero)
qed

text \<open>What \<open>snprintf\<close> has stored is held by the memory, with a NUL behind it.\<close>

lemma text_at_holds:
  assumes "cs \<noteq> []" "length cs < n" "n < 2 ^ 64"
  shows "holds (text_at out n cs m) out cs" "text_at out n cs m (out + of_nat (length cs)) = 0"
proof -
  have "2 \<le> n" using assms(1,2) by (cases cs) auto
  then have "text_at out n cs m = place out (cs @ [0]) m" using assms by (simp add: text_at_def)
  then have "holds (text_at out n cs m) out (cs @ [0])" using assms(2,3) by (simp add: holds_place)
  then show "holds (text_at out n cs m) out cs" "text_at out n cs m (out + of_nat (length cs)) = 0"
    by (simp_all add: holds_append)
qed

text \<open>The text of an unsigned number: a prefix, zeros, and digits.\<close>

lemma strtoul_text:
  assumes "map digit_val cs = map Some ds" "cs \<noteq> []" "\<forall>d \<in> set ds. d < base" "num_val base ds = unat (v :: u64)"
    "base = 10 \<or> base = 16" "pre = [] \<or> base = 16 \<and> (pre = [48, 120] \<or> pre = [48, 88])"
    "holds m p (pre @ cs)" "m (p + of_nat (length (pre @ cs))) = 0"
  shows "strtoul m p base = Some (v, p + of_nat (length (pre @ cs)))"
proof -
  let ?q = "p + of_nat (length pre)"
  have len: "length ds = length cs" using arg_cong[OF assms(1), of length] by simp
  have hc: "holds m ?q cs" using assms(7) by (simp add: holds_append)
  have "digits_at m ?q ds"
    unfolding digits_at_def
  proof (intro allI impI)
    fix i assume i: "i < length ds"
    then have "digit_val (cs ! i) = Some (ds ! i)" using assms(1) len by (metis nth_map)
    then show "digit_val (m (?q + of_nat i)) = Some (ds ! i)" using hc i len by (simp add: holds_def)
  qed
  moreover have "digit_val (m (?q + of_nat (length ds))) = None"
    using assms(8) len by (simp add: add.assoc digit_val_def)
  moreover have "ds \<noteq> []" using assms(2) len by auto
  moreover have "?q = p \<and> (base = 16 \<longrightarrow> m p = 0x30 \<longrightarrow> m (p + 1) \<noteq> 0x78 \<and> m (p + 1) \<noteq> 0x58) \<or>
     ?q = p + 2 \<and> base = 16 \<and> m p = 0x30 \<and> (m (p + 1) = 0x78 \<or> m (p + 1) = 0x58)"
  proof (cases "pre = []")
    case True
    have "m (p + 1) \<noteq> 0x78 \<and> m (p + 1) \<noteq> 0x58" if "base = 16"
    proof (cases "length cs = 1")
      case True
      then show ?thesis using assms(8) \<open>pre = []\<close> by simp
    next
      case False
      then have "1 < length cs" using assms(2) by (cases cs) auto
      then have "digit_val (cs ! 1) = Some (ds ! 1)" "ds ! 1 < 16" "m (p + 1) = cs ! 1"
        using assms(1,3) hc[unfolded holds_def, rule_format, of 1] len that \<open>pre = []\<close>
        by (metis nth_map, metis nth_mem, simp)
      then show ?thesis by (auto simp: digit_val_def)
    qed
    then show ?thesis using True by simp
  next
    case False
    then show ?thesis using assms(6,7) by auto
  qed
  ultimately have "strtoul m p base = Some (if num_val base ds < 2 ^ 64 then of_nat (num_val base ds) else ULONG_MAX,
      ?q + of_nat (length ds))"
    using assms(3,5) by (intro strtoul_on_digits) auto
  moreover have "unat v < 2 ^ 64" using unsigned_less[of v, where ?'a = nat] by simp
  ultimately show ?thesis using assms(4) len by (simp add: add.assoc)
qed

definition numeral_text :: "nat \<Rightarrow> u8 \<Rightarrow> u64 \<Rightarrow> u8 list" where
  "numeral_text b l v = (if v = 0 then [48] else udigits b l (unat v))"

lemma printi_unsigned:
  "printi v b False width \<lparr>PAD_RIGHT = False, PAD_ZERO = z, PAD_ALTERNATE = alt\<rparr> l st =
     (let t = padded ((if alt then 48 # (if b = 16 \<and> l = 65 then [88] else if b = 16 \<and> l = 97 then [120] else []) else []) @
        numeral_text b l v) width \<lparr>PAD_RIGHT = False, PAD_ZERO = z, PAD_ALTERNATE = alt\<rparr>
      in (length t, printcs t st))"
  by (simp add: printi_def prints_text numeral_text_def Let_def unat_eq_0)

text \<open>Directives for unsigned numbers, and the base to read the result in.\<close>

definition number_formats :: "(string \<times> nat) list" where
  "number_formats = [(''%lx'', 16), (''%lX'', 16), (''%lu'', 10), (''%llu'', 10), (''%p'', 16), (''%#lx'', 16), (''%#lX'', 16),
     (''%016lx'', 16), (''%020lu'', 10)]"

lemma padded_none: "padded cs 0 fl = cs"
  by (simp add: padded_def)

lemma padded_zeros: "0 < w \<Longrightarrow> padded cs w \<lparr>PAD_RIGHT = False, PAD_ZERO = True, PAD_ALTERNATE = alt\<rparr> =
    replicate (nat (w - int (length cs))) 48 @ cs"
  by (simp add: padded_def max_def)

lemma snprintf_number:
  assumes "(fmt, base) \<in> set number_formats" "out \<noteq> 0" "n < 2 ^ 64"
  shows "\<exists>pre z l st'. snprintf out n (bytes fmt) [A_int v] st =
      Some (length (pre @ replicate z 48 @ numeral_text base l v), st') \<and>
    p_mem st' = text_at out n (pre @ replicate z 48 @ numeral_text base l v) (p_mem st) \<and>
    (pre = [] \<or> base = 16 \<and> (pre = [48, 120] \<or> pre = [48, 88])) \<and>
    (base = 10 \<or> base = 16 \<and> (l = 97 \<or> l = 65)) \<and> z \<le> 20 - length (numeral_text base l v)"
proof -
  have step: "print_loop None (bytes fmt) [A_int v] 0 st0 = Some (length t, printcs t st0)"
    if "bytes fmt = 37 # d # ds" "d \<noteq> 37" "get_flags (d # ds) [A_int v] = Some (fl, w, f, [A_int v])"
      "convert fl w f [A_int v] st0 = Some (length t, printcs t st0, [], [])" for d ds fl w f t st0
    using that by (simp add: flush_full_def)
  have conv: "convert \<lparr>PAD_RIGHT = False, PAD_ZERO = z, PAD_ALTERNATE = alt\<rparr> w f [A_int v] st0 =
      (let t = padded ((if alt then 48 # (if b = 16 \<and> l = 65 then [88] else if b = 16 \<and> l = 97 then [120] else []) else []) @
        numeral_text b l v) w \<lparr>PAD_RIGHT = False, PAD_ZERO = z, PAD_ALTERNATE = alt\<rparr>
       in Some (length t, printcs t st0, [], []))"
    if "f = [108, 120] \<and> b = 16 \<and> l = 97 \<or> f = [108, 88] \<and> b = 16 \<and> l = 65 \<or> f = [108, 117] \<and> b = 10 \<and> l = 97 \<or>
      f = [108, 108, 117] \<and> b = 10 \<and> l = 97 \<or> f = [112] \<and> b = 16 \<and> l = 97" for z alt w f b l st0
    using that by (auto simp: convert_def long_conv_def number_def printi_unsigned Let_def)
  have go: "\<exists>pre z l st'. snprintf out n (bytes fmt) [A_int v] st =
      Some (length (pre @ replicate z 48 @ numeral_text base l v), st') \<and>
    p_mem st' = text_at out n (pre @ replicate z 48 @ numeral_text base l v) (p_mem st) \<and>
    (pre = [] \<or> base = 16 \<and> (pre = [48, 120] \<or> pre = [48, 88])) \<and>
    (base = 10 \<or> base = 16 \<and> (l = 97 \<or> l = 65)) \<and> z \<le> 20 - length (numeral_text base l v)"
    if "bytes fmt = 37 # d # ds" "d \<noteq> 37"
      "get_flags (d # ds) [A_int v] = Some (\<lparr>PAD_RIGHT = False, PAD_ZERO = z, PAD_ALTERNATE = alt\<rparr>, w, f, [A_int v])"
      "f = [108, 120] \<and> base = 16 \<and> l = 97 \<or> f = [108, 88] \<and> base = 16 \<and> l = 65 \<or> f = [108, 117] \<and> base = 10 \<and> l = 97 \<or>
       f = [108, 108, 117] \<and> base = 10 \<and> l = 97 \<or> f = [112] \<and> base = 16 \<and> l = 97"
      "w = 0 \<and> (alt \<longrightarrow> base = 16) \<or> \<not> alt \<and> z \<and> 0 < w \<and> w \<le> 20" for d ds z alt w f and l :: u8
  proof -
    let ?N = "numeral_text base l v"
    define pre where "pre = (if alt then 48 # (if base = 16 \<and> l = 65 then [88] else if base = 16 \<and> l = 97 then [120] else []) else [] :: u8 list)"
    define k where "k = (if w = 0 then 0 else nat (w - int (length ?N)))"
    let ?t = "pre @ replicate k 48 @ ?N"
    have "padded (pre @ ?N) w \<lparr>PAD_RIGHT = False, PAD_ZERO = z, PAD_ALTERNATE = alt\<rparr> = ?t"
      using that(5) by (auto simp: padded_none padded_zeros pre_def k_def)
    then have "convert \<lparr>PAD_RIGHT = False, PAD_ZERO = z, PAD_ALTERNATE = alt\<rparr> w f [A_int v] st0 = Some (length ?t, printcs ?t st0, [], [])" for st0
      using conv[OF that(4)] by (simp add: Let_def flip: pre_def)
    from step[OF that(1-3) this] have "snprintf out n (bytes fmt) [A_int v] st =
        Some (length ?t, printcs ?t (st\<lparr>p_out := out, p_len := Some n\<rparr>))"
      using assms(2) by (simp add: snprintf_def)
    moreover have "p_mem (printcs ?t (st\<lparr>p_out := out, p_len := Some n\<rparr>)) = text_at out n ?t (p_mem st)"
      by (simp only: printcs_text[OF assms(3)]) simp
    moreover have "k \<le> 20 - length ?N" using that(5) by (auto simp: k_def)
    moreover have "pre = [] \<or> base = 16 \<and> (pre = [48, 120] \<or> pre = [48, 88])" "base = 10 \<or> base = 16 \<and> (l = 97 \<or> l = 65)"
      using that(4,5) by (auto simp: pre_def)
    ultimately show ?thesis by blast
  qed
  note ev = bytes_def get_flags_def eat_def
  have "fmt = ''%lx'' \<and> base = 16 \<or> fmt = ''%lX'' \<and> base = 16 \<or> fmt = ''%lu'' \<and> base = 10 \<or> fmt = ''%llu'' \<and> base = 10 \<or>
      fmt = ''%p'' \<and> base = 16 \<or> fmt = ''%#lx'' \<and> base = 16 \<or> fmt = ''%#lX'' \<and> base = 16 \<or> fmt = ''%016lx'' \<and> base = 16 \<or>
      fmt = ''%020lu'' \<and> base = 10"
    using assms(1) by (simp add: number_formats_def)
  then show ?thesis
    using go[of 108 "[120]" False False 0 "[108, 120]" 97]
      go[of 108 "[88]" False False 0 "[108, 88]" 65]
      go[of 108 "[117]" False False 0 "[108, 117]" 97]
      go[of 108 "[108, 117]" False False 0 "[108, 108, 117]" 97]
      go[of 112 "[]" False False 0 "[112]" 97]
      go[of 35 "[108, 120]" False True 0 "[108, 120]" 97]
      go[of 35 "[108, 88]" False True 0 "[108, 88]" 65]
      go[of 48 "[49, 54, 108, 120]" True False 16 "[108, 120]" 97]
      go[of 48 "[50, 48, 108, 117]" True False 20 "[108, 117]" 97]
    by (elim disjE conjE) (simp_all add: ev)
qed



subsection \<open>The buffer of \<open>printf\<close>\<close>

text \<open>
  A string that is longer than the buffer is cut to 255 bytes, and the NUL behind them is printed,
  too.
\<close>

lemma printf_string_cut:
  assumes "256 \<le> length x"
  shows "\<exists>st'. printf tb (bytes ''%s'') [A_str (Some x)] st = Some (length x, st') \<and>
    p_log st' = p_log st @ take 255 x @ [0]"
proof -
  let ?st0 = "st\<lparr>p_out := tb, p_len := Some CONSOLE_TBUF_MAX\<rparr>"
  have loop: "print_loop (Some tb) (bytes ''%s'') [A_str (Some x)] 0 ?st0 = Some (length x, printcs x ?st0)"
    by (simp add: bytes_def get_flags_def eat_def convert_def prints_text padded_none flush_full_def CONSOLE_TBUF_MAX_def)
  have st: "printcs x ?st0 = st\<lparr>p_mem := text_at tb 256 x (p_mem st), p_out := tb + of_nat 255, p_len := Some 0\<rparr>"
    using printcs_text[where n = 256 and cs = x and st = st and out = tb] assms by (simp add: CONSOLE_TBUF_MAX_def min_def)
  have "text_at tb 256 x (p_mem st) = place tb (take 255 x @ [0]) (p_mem st)" using assms by (auto simp: text_at_def)
  then have "holds (text_at tb 256 x (p_mem st)) tb (take 255 x @ [0])" using holds_place assms by simp
  then have "map (\<lambda>i. text_at tb 256 x (p_mem st) (tb + of_nat i)) [0..<256] = take 255 x @ [0]"
    using assms unfolding holds_def by (subst list_eq_iff_nth_eq) simp
  with loop st show ?thesis
    by (simp add: printf_def nputs_all_def CONSOLE_TBUF_MAX_def del: upt_rec_numeral)
qed

end
