(* ===== verification/Efi.thy ===== *)
theory Efi
  imports Libc_String
begin

text \<open>
  The reader of EFI variable stores, \<open>lib/efi/efi.c\<close> with the layouts of \<open>include/lib/efi.h\<close>. A flash
  image is in memory; pointers are its 64-bit addresses, the structures are packed and little
  endian. Each structure of the header is a record here, with the function that reads it.
\<close>

subsection \<open>Little endian fields\<close>

definition rd32 :: "mem \<Rightarrow> u64 \<Rightarrow> u32" where
  "rd32 m a = ucast (rd16 m a) OR push_bit 16 (ucast (rd16 m (a + 2)))"

definition rd64 :: "mem \<Rightarrow> u64 \<Rightarrow> u64" where
  "rd64 m a = ucast (rd32 m a) OR push_bit 32 (ucast (rd32 m (a + 4)))"

definition rd_bytes :: "mem \<Rightarrow> u64 \<Rightarrow> nat \<Rightarrow> u8 list" where
  "rd_bytes m a n = map (\<lambda>i. m (a + of_nat i)) [0..<n]"

definition le16 :: "u16 \<Rightarrow> u8 list" where
  "le16 w = [ucast w, ucast (drop_bit 8 w)]"

definition le32 :: "u32 \<Rightarrow> u8 list" where
  "le32 w = le16 (ucast w) @ le16 (ucast (drop_bit 16 w))"

subsection \<open>Structures\<close>

record efi_guid =
  g_d0 :: u32
  g_d1 :: u16
  g_d2 :: u16
  g_d3 :: "u8 list"

definition guid_bytes :: "efi_guid \<Rightarrow> u8 list" where
  "guid_bytes g = le32 (g_d0 g) @ le16 (g_d1 g) @ le16 (g_d2 g) @ g_d3 g"

definition EFI_SYSTEM_NVDATA_FV_GUID :: efi_guid where
  "EFI_SYSTEM_NVDATA_FV_GUID = \<lparr>g_d0 = 0xFFF12B8D, g_d1 = 0x7696, g_d2 = 0x4C8B,
     g_d3 = [0xA9, 0x85, 0x27, 0x47, 0x07, 0x5B, 0x4F, 0x50]\<rparr>"

definition EFI_VARIABLE_GUID :: efi_guid where
  "EFI_VARIABLE_GUID = \<lparr>g_d0 = 0xddcf3616, g_d1 = 0x3275, g_d2 = 0x4164,
     g_d3 = [0x98, 0xb6, 0xfe, 0x85, 0x70, 0x7f, 0xfe, 0x7d]\<rparr>"

definition EFI_AUTHENTICATED_VARIABLE_GUID :: efi_guid where
  "EFI_AUTHENTICATED_VARIABLE_GUID = \<lparr>g_d0 = 0xaaf32c78, g_d1 = 0x947b, g_d2 = 0x439a,
     g_d3 = [0xa1, 0x80, 0x2e, 0x14, 0x4e, 0xc3, 0x77, 0x92]\<rparr>"

record efi_firmware_volume_header =
  fv_guid :: u64
  fv_volume_len :: u64
  fv_sig :: u32
  fv_attr :: u32
  fv_header_len :: u16
  fv_checksum :: u16
  fv_ext_hdr_off :: u16
  fv_version :: u8

text \<open>A \<open>guid\<close> field stands for its address.\<close>

definition read_fv :: "mem \<Rightarrow> u64 \<Rightarrow> efi_firmware_volume_header" where
  "read_fv m a =
     \<lparr>fv_guid = a + 16, fv_volume_len = rd64 m (a + 32), fv_sig = rd32 m (a + 40), fv_attr = rd32 m (a + 44),
      fv_header_len = rd16 m (a + 48), fv_checksum = rd16 m (a + 50), fv_ext_hdr_off = rd16 m (a + 52),
      fv_version = m (a + 55)\<rparr>"

definition FV_HEADER_SIZE :: u16 where "FV_HEADER_SIZE = 64"

definition EFI_FVH_SIGNATURE :: u32 where
  "EFI_FVH_SIGNATURE = (0x5f OR push_bit 8 0x46) OR push_bit 16 (0x56 OR push_bit 8 0x48)"

record efi_variable_store_header =
  vs_guid :: u64
  vs_size :: u32
  vs_format :: u8
  vs_status :: u8

definition read_vs :: "mem \<Rightarrow> u64 \<Rightarrow> efi_variable_store_header" where
  "read_vs m a = \<lparr>vs_guid = a, vs_size = rd32 m (a + 16), vs_format = m (a + 20), vs_status = m (a + 21)\<rparr>"

definition VS_HEADER_SIZE :: u64 where "VS_HEADER_SIZE = 28"
definition VARIABLE_STORE_FORMATTED :: u8 where "VARIABLE_STORE_FORMATTED = 0x5a"
definition VARIABLE_STORE_HEALTHY :: u8 where "VARIABLE_STORE_HEALTHY = 0xfe"
definition VARIABLE_DATA :: u16 where "VARIABLE_DATA = 0x55AA"
definition VAR_IN_DELETED_TRANSITION :: u8 where "VAR_IN_DELETED_TRANSITION = 0xfe"
definition VAR_ADDED :: u8 where "VAR_ADDED = 0x3f"

text \<open>The two variable headers have the same fields, at different places behind \<open>attr\<close>.\<close>

record efi_variable_header =
  vh_id :: u16
  vh_status :: u8
  vh_attr :: u32
  vh_name_size :: u32
  vh_data_size :: u32
  vh_vendor_guid :: u64

definition read_variable_header :: "mem \<Rightarrow> u64 \<Rightarrow> efi_variable_header" where
  "read_variable_header m a =
     \<lparr>vh_id = rd16 m a, vh_status = m (a + 2), vh_attr = rd32 m (a + 4), vh_name_size = rd32 m (a + 8),
      vh_data_size = rd32 m (a + 12), vh_vendor_guid = a + 16\<rparr>"

definition read_authenticated_variable_header :: "mem \<Rightarrow> u64 \<Rightarrow> efi_variable_header" where
  "read_authenticated_variable_header m a =
     \<lparr>vh_id = rd16 m a, vh_status = m (a + 2), vh_attr = rd32 m (a + 4), vh_name_size = rd32 m (a + 36),
      vh_data_size = rd32 m (a + 40), vh_vendor_guid = a + 44\<rparr>"

definition variable_header_size :: "bool \<Rightarrow> u32" where
  "variable_header_size auth = (if auth then 60 else 32)"

record efi_variable_zone =
  vz_fv :: u64
  vz_vs :: u64
  vz_var :: u64
  vz_end :: u64
  vz_auth :: bool

record efi_variable =
  ev_auth :: bool
  ev_header :: u64

definition HEADER_ALIGN :: "u64 \<Rightarrow> u64" where
  "HEADER_ALIGN h = (h + 4 - 1) AND NOT (4 - 1)"

subsection \<open>The zone\<close>

text \<open>\<open>memcmp\<close> of the structure at \<open>a\<close> with given bytes.\<close>

fun cmp_bytes :: "mem \<Rightarrow> u64 \<Rightarrow> u8 list \<Rightarrow> int" where
  "cmp_bytes m a [] = 0"
| "cmp_bytes m a (b # bs) = (if m a = b then cmp_bytes m (a + 1) bs else uint (m a) - uint b)"

definition compare_guid :: "mem \<Rightarrow> u64 \<Rightarrow> efi_guid \<Rightarrow> int" where
  "compare_guid m g0 g1 = cmp_bytes m g0 (guid_bytes g1)"

fun checksum_words :: "mem \<Rightarrow> u64 \<Rightarrow> nat \<Rightarrow> u16 \<Rightarrow> u16" where
  "checksum_words m a 0 acc = acc"
| "checksum_words m a (Suc n) acc = checksum_words m (a + 2) n (acc + rd16 m a)"

definition checksum :: "mem \<Rightarrow> u64 \<Rightarrow> nat \<Rightarrow> u16" where
  "checksum m data n = checksum_words m data (n div 2) 0"

definition efi_vz_check_fv :: "mem \<Rightarrow> efi_variable_zone \<Rightarrow> errno option" where
  "efi_vz_check_fv m vz =
     (let fv = read_fv m (vz_fv vz) in
      if compare_guid m (fv_guid fv) EFI_SYSTEM_NVDATA_FV_GUID \<noteq> 0 then Some EINVAL
      else if fv_volume_len fv = 0 \<or> fv_volume_len fv = 0xffffffffffffffff then Some EINVAL
      else if fv_sig fv \<noteq> EFI_FVH_SIGNATURE then Some EINVAL
      else if fv_header_len fv < FV_HEADER_SIZE then Some EINVAL
      else if checksum m (vz_fv vz) (unat (fv_header_len fv)) \<noteq> 0 then Some EINVAL
      else None)"

definition efi_vz_check_variable_store :: "mem \<Rightarrow> efi_variable_zone \<Rightarrow> errno option \<times> efi_variable_zone" where
  "efi_vz_check_variable_store m vz =
     (let vs = read_vs m (vz_vs vz);
          fv = read_fv m (vz_fv vz);
          rest = (\<lambda>vz1.
            (if ucast (vs_size vs) > fv_volume_len fv - ucast (fv_header_len fv) then (Some EINVAL, vz1)
             else if vs_format vs \<noteq> VARIABLE_STORE_FORMATTED then (Some EINVAL, vz1)
             else if vs_status vs \<noteq> VARIABLE_STORE_HEALTHY then (Some EINVAL, vz1)
             else (None, vz1)))
      in if compare_guid m (vs_guid vs) EFI_VARIABLE_GUID = 0 then rest (vz\<lparr>vz_auth := False\<rparr>)
         else if compare_guid m (vs_guid vs) EFI_AUTHENTICATED_VARIABLE_GUID = 0 then rest (vz\<lparr>vz_auth := True\<rparr>)
         else (Some EINVAL, vz))"

definition efi_vz_init :: "mem \<Rightarrow> efi_variable_zone \<Rightarrow> u64 \<Rightarrow> errno option \<times> efi_variable_zone" where
  "efi_vz_init m vz fv =
     (let vz1 = vz\<lparr>vz_fv := fv\<rparr> in
      if efi_vz_check_fv m vz1 \<noteq> None then (Some EINVAL, vz1)
      else
        (let vz2 = vz1\<lparr>vz_vs := fv + ucast (fv_header_len (read_fv m fv))\<rparr> in
         case efi_vz_check_variable_store m vz2 of
           (Some e, vz3) \<Rightarrow> (Some EINVAL, vz3)
         | (None, vz3) \<Rightarrow>
             (None, vz3\<lparr>vz_var := HEADER_ALIGN (vz_vs vz3 + VS_HEADER_SIZE),
                        vz_end := vz_vs vz3 + ucast (vs_size (read_vs m (vz_vs vz3)))\<rparr>)))"

subsection \<open>A variable\<close>

definition efi_variable_fields :: "mem \<Rightarrow> efi_variable \<Rightarrow> efi_variable_header" where
  "efi_variable_fields m var =
     (if ev_auth var then read_authenticated_variable_header m (ev_header var)
      else read_variable_header m (ev_header var))"

definition efi_variable_id :: "mem \<Rightarrow> efi_variable \<Rightarrow> u16" where
  "efi_variable_id m var = vh_id (efi_variable_fields m var)"
definition efi_variable_status :: "mem \<Rightarrow> efi_variable \<Rightarrow> u8" where
  "efi_variable_status m var = vh_status (efi_variable_fields m var)"
definition efi_variable_attr :: "mem \<Rightarrow> efi_variable \<Rightarrow> u32" where
  "efi_variable_attr m var = vh_attr (efi_variable_fields m var)"
definition efi_variable_name_size :: "mem \<Rightarrow> efi_variable \<Rightarrow> u32" where
  "efi_variable_name_size m var = vh_name_size (efi_variable_fields m var)"
definition efi_variable_data_size :: "mem \<Rightarrow> efi_variable \<Rightarrow> u32" where
  "efi_variable_data_size m var = vh_data_size (efi_variable_fields m var)"
definition efi_variable_vendor_guid :: "mem \<Rightarrow> efi_variable \<Rightarrow> u64" where
  "efi_variable_vendor_guid m var = vh_vendor_guid (efi_variable_fields m var)"

definition efi_variable_name :: "efi_variable \<Rightarrow> u64" where
  "efi_variable_name var = ev_header var + ucast (variable_header_size (ev_auth var))"

definition efi_variable_data :: "mem \<Rightarrow> efi_variable \<Rightarrow> u64" where
  "efi_variable_data m var = efi_variable_name var + ucast (efi_variable_name_size m var)"

definition efi_variable_size :: "mem \<Rightarrow> efi_variable \<Rightarrow> u32" where
  "efi_variable_size m var =
     variable_header_size (ev_auth var) + efi_variable_name_size m var + efi_variable_data_size m var"

definition efi_variable_valid :: "mem \<Rightarrow> efi_variable \<Rightarrow> bool" where
  "efi_variable_valid m var \<longleftrightarrow> efi_variable_id m var = VARIABLE_DATA"

definition efi_variable_first :: "mem \<Rightarrow> efi_variable_zone \<Rightarrow> errno option \<times> efi_variable" where
  "efi_variable_first m vz =
     (let var = \<lparr>ev_auth = vz_auth vz, ev_header = vz_var vz\<rparr>
      in if \<not> efi_variable_valid m var then (Some ENOENT, var) else (None, var))"

definition efi_variable_next :: "mem \<Rightarrow> efi_variable_zone \<Rightarrow> efi_variable \<Rightarrow> errno option \<times> efi_variable" where
  "efi_variable_next m vz var =
     (let var1 = var\<lparr>ev_header := HEADER_ALIGN (ev_header var + ucast (efi_variable_size m var))\<rparr>
      in if \<not> efi_variable_valid m var1 then (Some ENOENT, var1)
         else if ev_header var1 \<ge> vz_end vz then (Some ENOENT, var1)
         else (None, var1))"

definition efi_variable_live :: "mem \<Rightarrow> efi_variable \<Rightarrow> bool" where
  "efi_variable_live m var \<longleftrightarrow>
     efi_variable_status m var = VAR_ADDED \<or>
     efi_variable_status m var = (VAR_IN_DELETED_TRANSITION AND VAR_ADDED)"

text \<open>
  The search. The sizes of a variable are not checked, and they wrap: on a damaged store the walk
  may come back to where it was and never end, which is \<open>None\<close>.
\<close>

partial_function (option) efi_find_from ::
  "mem \<Rightarrow> efi_variable_zone \<Rightarrow> efi_guid \<Rightarrow> u64 \<Rightarrow> errno option \<times> efi_variable \<Rightarrow> (errno + efi_variable) option" where
  "efi_find_from m vz guid name st =
     (case st of
        (Some e, var) \<Rightarrow> Some (Inl ENOENT)
      | (None, var) \<Rightarrow>
          (if \<not> efi_variable_live m var then efi_find_from m vz guid name (efi_variable_next m vz var)
           else if compare_guid m (efi_variable_vendor_guid m var) guid \<noteq> 0
           then efi_find_from m vz guid name (efi_variable_next m vz var)
           else do { c \<leftarrow> wcscmp m name (efi_variable_name var);
                     if c = 0 then Some (Inr var)
                     else efi_find_from m vz guid name (efi_variable_next m vz var) }))"

definition efi_vz_find_variable ::
  "mem \<Rightarrow> efi_variable_zone \<Rightarrow> efi_guid \<Rightarrow> u64 \<Rightarrow> (errno + efi_variable) option" where
  "efi_vz_find_variable m vz guid name = efi_find_from m vz guid name (efi_variable_first m vz)"

text \<open>The variables \<open>efi_list_variables\<close> shows, with their numbers.\<close>

partial_function (option) efi_list_from ::
  "mem \<Rightarrow> efi_variable_zone \<Rightarrow> nat \<Rightarrow> (nat \<times> efi_variable) list \<Rightarrow> errno option \<times> efi_variable \<Rightarrow>
     (nat \<times> efi_variable) list option" where
  "efi_list_from m vz i out st =
     (case st of
        (Some e, var) \<Rightarrow> Some out
      | (None, var) \<Rightarrow>
          efi_list_from m vz (Suc i) (if efi_variable_live m var then out @ [(i, var)] else out)
            (efi_variable_next m vz var))"

definition efi_list_variables :: "mem \<Rightarrow> efi_variable_zone \<Rightarrow> (nat \<times> efi_variable) list option" where
  "efi_list_variables m vz = efi_list_from m vz 0 [] (efi_variable_first m vz)"

end
