(* ===== verification/Efi_Props.thy ===== *)
theory Efi_Props
  imports Efi Libc_Props
begin

text \<open>
  A variable store as a list of variables, its encoding in bytes, and what the search of \<open>efi.c\<close>
  finds in the encoded store.
\<close>

subsection \<open>Little endian fields\<close>

lemma le16_bytes: "ucast (ucast w :: u8) OR push_bit 8 (ucast (ucast (drop_bit 8 w) :: u8)) = (w :: u16)"
  by (rule bit_word_eqI) (auto simp: bit_simps)

lemma le32_halves: "ucast (ucast w :: u16) OR push_bit 16 (ucast (ucast (drop_bit 16 w) :: u16)) = (w :: u32)"
  by (rule bit_word_eqI) (auto simp: bit_simps)

lemma le_length [simp]: "length (le16 w) = 2" "length (le32 v) = 4"
  by (simp_all add: le16_def le32_def)

lemma rd16_le16: "holds m a (le16 w) \<Longrightarrow> rd16 m a = w"
  by (simp add: le16_def rd16_def le16_bytes)

lemma rd32_le32: "holds m a (le32 w) \<Longrightarrow> rd32 m a = w"
  using rd16_le16[of m a "ucast w"] rd16_le16[of m "a + 2" "ucast (drop_bit 16 w)"] le32_halves[of w]
  by (simp add: le32_def holds_append rd32_def)

lemma cmp_bytes_holds: "cmp_bytes m a bs = 0 \<longleftrightarrow> holds m a bs"
  by (induction bs arbitrary: a) auto

lemma holds_same_length:
  assumes "holds m a xs" "length xs = length ys"
  shows "holds m a ys \<longleftrightarrow> xs = ys"
  using assms by (auto simp: holds_def list_eq_iff_nth_eq)

fun wstr :: "mem \<Rightarrow> u64 \<Rightarrow> u16 list \<Rightarrow> bool" where
  "wstr m a [] \<longleftrightarrow> rd16 m a = 0"
| "wstr m a (w # ws) \<longleftrightarrow> rd16 m a = w \<and> w \<noteq> 0 \<and> wstr m (a + 2) ws"

lemma uint_wide [simp]: "uint (a :: u16) = 0 \<longleftrightarrow> a = 0"
  by (simp add: word_uint_eq_iff)

lemma wcscmp_wstr:
  "wstr m a xs \<Longrightarrow> wstr m b ys \<Longrightarrow> \<exists>c. wcscmp m a b = Some c \<and> (c = 0 \<longleftrightarrow> xs = ys)"
proof (induction xs arbitrary: a b ys)
  case Nil
  then show ?case by (subst wcscmp.simps) (cases ys; auto)
next
  case (Cons x xs)
  show ?case
  proof (cases ys)
    case Nil
    with Cons.prems show ?thesis by (subst wcscmp.simps) (auto simp: Let_def)
  next
    case (Cons y ys')
    with Cons.prems Cons.IH[of "a + 2" "b + 2" ys'] show ?thesis
      by (subst wcscmp.simps) (auto simp: Let_def)
  qed
qed

lemma wstr_holds: "0 \<notin> set ws \<Longrightarrow> holds m a (concat (map le16 (ws @ [0]))) \<Longrightarrow> wstr m a ws"
  by (induction ws arbitrary: a) (auto simp: holds_append rd16_le16)

subsection \<open>Alignment\<close>

lemma and_not_3: "(w :: u64) AND - 4 = w div 4 * 4"
proof -
  have "(mask 2 :: u64) = 3" by (simp add: mask_eq_exp_minus_1)
  then have "(- 4 :: u64) = NOT (mask 2)" by simp
  moreover have "w AND NOT (mask 2) = push_bit 2 (drop_bit 2 w)"
  proof (rule bit_word_eqI)
    fix n assume "n < LENGTH(64)"
    have "2 \<le> n \<Longrightarrow> Suc (Suc (n - 2)) = n" by arith
    then show "bit (w AND NOT (mask 2)) n = bit (push_bit 2 (drop_bit 2 w)) n"
      using \<open>n < LENGTH(64)\<close> by (cases "2 \<le> n") (auto simp: bit_simps)
  qed
  ultimately show ?thesis by (simp add: push_bit_eq_mult drop_bit_eq_div)
qed

lemma HEADER_ALIGN_offset:
  assumes "unat a mod 4 = 0" "unat a + k + 3 < 2 ^ 64"
  shows "HEADER_ALIGN (a + of_nat k) = a + of_nat ((k + 3) div 4 * 4)"
proof -
  have e: "a + of_nat k + 4 - 1 = a + of_nat (k + 3)" by simp
  have u: "unat (a + of_nat (k + 3)) = unat a + (k + 3)" using assms(2) by (intro unat_offset) simp
  have "HEADER_ALIGN (a + of_nat k) = (a + of_nat (k + 3)) AND - 4"
    unfolding HEADER_ALIGN_def e by simp
  then have h: "HEADER_ALIGN (a + of_nat k) = (a + of_nat (k + 3)) div 4 * 4" by (simp only: and_not_3)
  have d: "unat ((a + of_nat (k + 3)) div 4) = (unat a + (k + 3)) div 4" using u by (simp add: unat_div)
  have "(unat a + (k + 3)) div 4 * 4 < 2 ^ 64" using assms(2) by linarith
  then have "unat ((a + of_nat (k + 3)) div 4 * 4) = (unat a + (k + 3)) div 4 * 4"
    using d by (subst unat_mult_lem[THEN iffD1]) simp_all
  also have "\<dots> = unat a + (k + 3) div 4 * 4" using assms(1) by (metis (no_types) add_mult_distrib div_plus_div_distrib_dvd_left dvd_div_mult_self dvd_eq_mod_eq_0)
  also have "\<dots> = unat (a + of_nat ((k + 3) div 4 * 4))"
    using assms(2) by (subst unat_offset) linarith+
  finally show ?thesis unfolding h by (rule unsigned_word_eqI)
qed

subsection \<open>Variables and their encoding\<close>

record efi_var =
  x_status :: u8
  x_attr :: u32
  x_auth :: "u8 list"
  x_guid :: efi_guid
  x_name :: "u16 list"
  x_data :: "u8 list"

definition name_bytes :: "efi_var \<Rightarrow> u8 list" where
  "name_bytes v = concat (map le16 (x_name v @ [0]))"

definition encode_header :: "bool \<Rightarrow> efi_var \<Rightarrow> u8 list" where
  "encode_header auth v =
     le16 VARIABLE_DATA @ [x_status v, 0xff] @ le32 (x_attr v) @ (if auth then x_auth v else []) @
     le32 (of_nat (length (name_bytes v))) @ le32 (of_nat (length (x_data v))) @ guid_bytes (x_guid v)"

definition encode_var :: "bool \<Rightarrow> efi_var \<Rightarrow> u8 list" where
  "encode_var auth v = encode_header auth v @ name_bytes v @ x_data v"

definition padded :: "u8 list \<Rightarrow> u8 list" where
  "padded bs = bs @ replicate ((length bs + 3) div 4 * 4 - length bs) 0xff"

definition encode_store :: "bool \<Rightarrow> efi_var list \<Rightarrow> u8 list" where
  "encode_store auth vs = concat (map (\<lambda>v. padded (encode_var auth v)) vs)"

definition var_ok :: "bool \<Rightarrow> efi_var \<Rightarrow> bool" where
  "var_ok auth v \<longleftrightarrow> length (g_d3 (x_guid v)) = 8 \<and> 0 \<notin> set (x_name v) \<and> (auth \<longrightarrow> length (x_auth v) = 28) \<and>
     length (encode_var auth v) < 2 ^ 32"

definition var_live :: "efi_var \<Rightarrow> bool" where
  "var_live v \<longleftrightarrow> x_status v = VAR_ADDED \<or> x_status v = (VAR_IN_DELETED_TRANSITION AND VAR_ADDED)"

definition var_matches :: "efi_guid \<Rightarrow> u16 list \<Rightarrow> efi_var \<Rightarrow> bool" where
  "var_matches guid name v \<longleftrightarrow> var_live v \<and> guid_bytes (x_guid v) = guid_bytes guid \<and> x_name v = name"

lemma guid_length: "length (g_d3 g) = 8 \<Longrightarrow> length (guid_bytes g) = 16"
  by (simp add: guid_bytes_def)

lemma header_length:
  "var_ok auth v \<Longrightarrow> length (encode_header auth v) = unat (variable_header_size auth)"
  by (auto simp: var_ok_def encode_header_def guid_length variable_header_size_def)

lemma padded_length: "length (padded bs) = (length bs + 3) div 4 * 4"
  by (simp add: padded_def)

text \<open>The fields of an encoded variable.\<close>

lemma fields_encoded:
  assumes ok: "var_ok auth v" and h: "holds m a (encode_var auth v)"
  defines "var \<equiv> \<lparr>ev_auth = auth, ev_header = a\<rparr>"
  shows "efi_variable_valid m var" "efi_variable_status m var = x_status v" "efi_variable_attr m var = x_attr v"
    "efi_variable_name_size m var = of_nat (length (name_bytes v))"
    "efi_variable_data_size m var = of_nat (length (x_data v))"
    "holds m (efi_variable_vendor_guid m var) (guid_bytes (x_guid v))"
    "holds m (efi_variable_name var) (name_bytes v)"
    "efi_variable_name var = a + of_nat (length (encode_header auth v))"
proof -
  have hd: "holds m a (encode_header auth v)"
    and nm: "holds m (a + of_nat (length (encode_header auth v))) (name_bytes v)"
    using h by (simp_all add: encode_var_def holds_append)
  note f = hd[unfolded encode_header_def holds_append]
  have ax: "auth \<Longrightarrow> length (x_auth v) = 28" using ok by (simp add: var_ok_def)
  have fs: "rd16 m a = VARIABLE_DATA" "m (a + 2) = x_status v" "rd32 m (a + 4) = x_attr v"
    using f by (auto simp: rd16_le16 rd32_le32 holds_append add.assoc)
  show "efi_variable_valid m var" "efi_variable_status m var = x_status v" "efi_variable_attr m var = x_attr v"
    using fs by (simp_all add: efi_variable_valid_def efi_variable_id_def efi_variable_status_def
        efi_variable_attr_def efi_variable_fields_def read_authenticated_variable_header_def
        read_variable_header_def var_def)
  show "efi_variable_name_size m var = of_nat (length (name_bytes v))"
    "efi_variable_data_size m var = of_nat (length (x_data v))"
    "holds m (efi_variable_vendor_guid m var) (guid_bytes (x_guid v))"
    using f ax by (auto simp: efi_variable_name_size_def efi_variable_data_size_def efi_variable_vendor_guid_def
        efi_variable_fields_def read_authenticated_variable_header_def read_variable_header_def var_def
        holds_append rd32_le32 add.assoc split: if_splits)
  show n: "efi_variable_name var = a + of_nat (length (encode_header auth v))"
    unfolding header_length[OF ok] by (simp add: efi_variable_name_def var_def)
  show "holds m (efi_variable_name var) (name_bytes v)" unfolding n by (rule nm)
qed

lemma unat_offset32:
  fixes d :: u32
  shows "unat d + i < 2 ^ 32 \<Longrightarrow> unat (d + of_nat i) = unat d + i"
  by (subst unat_add_lem[THEN iffD1]) (simp_all add: unsigned_of_nat take_bit_nat_eq_self)

lemma efi_variable_size_encoded:
  assumes ok: "var_ok auth v" and h: "holds m a (encode_var auth v)"
  shows "unat (efi_variable_size m \<lparr>ev_auth = auth, ev_header = a\<rparr>) = length (encode_var auth v)"
proof -
  let ?h = "variable_header_size auth"
  have l: "unat ?h + length (name_bytes v) + length (x_data v) < 2 ^ 32"
    "length (encode_var auth v) = unat ?h + length (name_bytes v) + length (x_data v)"
    using ok header_length[OF ok] by (simp_all add: var_ok_def encode_var_def)
  have "unat (?h + of_nat (length (name_bytes v)) + of_nat (length (x_data v)) :: u32) =
      unat ?h + length (name_bytes v) + length (x_data v)"
    using l(1) unat_offset32[of ?h "length (name_bytes v)"]
      unat_offset32[of "?h + of_nat (length (name_bytes v))" "length (x_data v)"] by simp
  then show ?thesis
    using l(2) fields_encoded(4,5)[OF ok h] by (simp add: efi_variable_size_def)
qed

subsection \<open>Walking the store\<close>

text \<open>Where the search stops: at the address of the first match.\<close>

fun locate :: "bool \<Rightarrow> efi_guid \<Rightarrow> u16 list \<Rightarrow> efi_var list \<Rightarrow> u64 \<Rightarrow> u64 option" where
  "locate auth guid name [] a = None"
| "locate auth guid name (v # vs) a =
     (if var_matches guid name v then Some a
      else locate auth guid name vs (a + of_nat (length (padded (encode_var auth v)))))"

lemma next_encoded:
  assumes ok: "var_ok auth v" and h: "holds m a (encode_var auth v)"
    and al: "unat a mod 4 = 0" and fit: "unat a + length (padded (encode_var auth v)) + 3 < 2 ^ 64"
  shows "HEADER_ALIGN (a + ucast (efi_variable_size m \<lparr>ev_auth = auth, ev_header = a\<rparr>)) =
    a + of_nat (length (padded (encode_var auth v)))"
proof -
  let ?n = "length (encode_var auth v)"
  have "(ucast (efi_variable_size m \<lparr>ev_auth = auth, ev_header = a\<rparr>) :: u64) = of_nat ?n"
    using efi_variable_size_encoded[OF ok h] by (metis of_nat_unat)
  moreover have "?n \<le> (?n + 3) div 4 * 4" by linarith
  ultimately show ?thesis
    using HEADER_ALIGN_offset[OF al, of ?n] fit by (simp add: padded_length)
qed

lemma find_step:
  assumes ok: "var_ok (vz_auth vz) v" and h: "holds m a (encode_var (vz_auth vz) v)"
    and nm: "wstr m name nm" and g: "length (g_d3 guid) = 8"
  defines "var \<equiv> \<lparr>ev_auth = vz_auth vz, ev_header = a\<rparr>"
  shows "efi_find_from m vz guid name (None, var) =
    (if var_matches guid nm v then Some (Inr var)
     else efi_find_from m vz guid name (efi_variable_next m vz var))"
proof -
  note f = fields_encoded[OF ok h, folded var_def]
  have live: "efi_variable_live m var \<longleftrightarrow> var_live v" by (simp add: efi_variable_live_def var_live_def f(2))
  have "length (guid_bytes (x_guid v)) = length (guid_bytes guid)"
    using ok g by (simp add: var_ok_def guid_length)
  from holds_same_length[OF f(6) this] have guid:
    "compare_guid m (efi_variable_vendor_guid m var) guid = 0 \<longleftrightarrow> guid_bytes (x_guid v) = guid_bytes guid"
    by (simp add: compare_guid_def cmp_bytes_holds)
  have "wstr m (efi_variable_name var) (x_name v)"
    using f(7) ok by (intro wstr_holds) (simp_all add: var_ok_def name_bytes_def)
  from wcscmp_wstr[OF nm this] obtain c where c: "wcscmp m name (efi_variable_name var) = Some c"
    "c = 0 \<longleftrightarrow> x_name v = nm" by auto
  show ?thesis
    by (subst efi_find_from.simps) (auto simp: live guid c var_matches_def)
qed

lemma next_step:
  assumes ok: "var_ok (vz_auth vz) v" and h: "holds m a (encode_var (vz_auth vz) v)"
    and al: "unat a mod 4 = 0" and fit: "unat a + length (padded (encode_var (vz_auth vz) v)) + 3 < 2 ^ 64"
  shows "efi_variable_next m vz \<lparr>ev_auth = vz_auth vz, ev_header = a\<rparr> =
    (let var = \<lparr>ev_auth = vz_auth vz, ev_header = a + of_nat (length (padded (encode_var (vz_auth vz) v)))\<rparr>
     in (if efi_variable_valid m var \<and> ev_header var < vz_end vz then None else Some ENOENT, var))"
  using next_encoded[OF ok h al fit] by (auto simp: efi_variable_next_def Let_def not_le)

lemma id_field: "efi_variable_valid m var \<longleftrightarrow> rd16 m (ev_header var) = VARIABLE_DATA"
  by (simp add: efi_variable_valid_def efi_variable_id_def efi_variable_fields_def
      read_authenticated_variable_header_def read_variable_header_def)

lemma encode_store_Cons:
  "encode_store auth (v # vs) = padded (encode_var auth v) @ encode_store auth vs"
  "encode_store auth [] = []"
  by (simp_all add: encode_store_def)

lemma encoded_pos: "0 < length (padded (encode_var auth v))"
proof -
  have "0 < length (encode_var auth v)" by (simp add: encode_var_def encode_header_def)
  then have "1 \<le> (length (encode_var auth v) + 3) div 4" by linarith
  then show ?thesis by (simp add: padded_length)
qed

lemma efi_find_encoded:
  assumes "holds m a (encode_store (vz_auth vz) (v # vs))" "\<forall>w \<in> set (v # vs). var_ok (vz_auth vz) w"
    "unat a mod 4 = 0" "unat a + length (encode_store (vz_auth vz) (v # vs)) + 3 < 2 ^ 64"
    "unat a + length (encode_store (vz_auth vz) (v # vs)) \<le> unat (vz_end vz)"
    "rd16 m (a + of_nat (length (encode_store (vz_auth vz) (v # vs)))) \<noteq> VARIABLE_DATA \<or>
     vz_end vz \<le> a + of_nat (length (encode_store (vz_auth vz) (v # vs)))"
    "wstr m name nm" "length (g_d3 guid) = 8"
  shows "efi_find_from m vz guid name (None, \<lparr>ev_auth = vz_auth vz, ev_header = a\<rparr>) =
    Some (case locate (vz_auth vz) guid nm (v # vs) a of
            None \<Rightarrow> Inl ENOENT | Some h \<Rightarrow> Inr \<lparr>ev_auth = vz_auth vz, ev_header = h\<rparr>)"
  using assms
proof (induction vs arbitrary: v a)
  case base: Nil
  let ?n = "length (padded (encode_var (vz_auth vz) v))"
  have h: "holds m a (encode_var (vz_auth vz) v)"
    using base.prems(1) by (simp add: encode_store_Cons padded_def holds_append)
  have ok: "var_ok (vz_auth vz) v" using base.prems(2) by simp
  have fit: "unat a + ?n + 3 < 2 ^ 64" using base.prems(4) by (simp add: encode_store_Cons)
  have stop: "\<not> (efi_variable_valid m \<lparr>ev_auth = vz_auth vz, ev_header = a + of_nat ?n\<rparr> \<and> a + of_nat ?n < vz_end vz)"
    using base.prems(6) by (auto simp: encode_store_Cons id_field)
  show ?case
    unfolding find_step[OF ok h base.prems(7,8)] next_step[OF ok h base.prems(3) fit] Let_def
    using stop by (subst efi_find_from.simps) auto
next
  case (Cons w ws)
  let ?n = "length (padded (encode_var (vz_auth vz) v))"
  let ?a = "a + of_nat ?n"
  have h: "holds m a (encode_var (vz_auth vz) v)" "holds m ?a (encode_store (vz_auth vz) (w # ws))"
    using Cons.prems(1) by (simp_all add: encode_store_Cons(1)[of _ v] padded_def holds_append)
  have ok: "var_ok (vz_auth vz) v" "var_ok (vz_auth vz) w" using Cons.prems(2) by simp_all
  let ?k = "length (encode_store (vz_auth vz) (w # ws))"
  have tot: "length (encode_store (vz_auth vz) (v # w # ws)) = ?n + ?k" by (simp add: encode_store_Cons(1)[of _ v])
  have k: "0 < ?k" using encoded_pos by (simp add: encode_store_Cons)
  have fit: "unat a + ?n + 3 < 2 ^ 64" using Cons.prems(4) tot by linarith
  have ua: "unat ?a = unat a + ?n" using fit by (intro unat_offset) simp
  have sum: "?a + of_nat ?k = a + of_nat (?n + ?k)" by (simp add: add.assoc)
  have "4 dvd ?n" by (simp add: padded_length)
  then have al: "unat ?a mod 4 = 0" using ua Cons.prems(3) by (simp add: mod_add_eq dvd_eq_mod_eq_0 mod_add_left_eq[symmetric])
  have "holds m ?a (encode_var (vz_auth vz) w)"
    using h(2) by (simp add: encode_store_Cons padded_def holds_append)
  from fields_encoded(1)[OF ok(2) this] have valid:
    "efi_variable_valid m \<lparr>ev_auth = vz_auth vz, ev_header = ?a\<rparr>" .
  have "unat ?a < unat (vz_end vz)" using ua k Cons.prems(5) tot by linarith
  then have lt: "?a < vz_end vz" by (simp add: word_less_nat_alt)
  have IH: "efi_find_from m vz guid name (None, \<lparr>ev_auth = vz_auth vz, ev_header = ?a\<rparr>) =
      Some (case locate (vz_auth vz) guid nm (w # ws) ?a of
              None \<Rightarrow> Inl ENOENT | Some h \<Rightarrow> Inr \<lparr>ev_auth = vz_auth vz, ev_header = h\<rparr>)"
  proof (rule Cons.IH)
    show "unat ?a + ?k + 3 < 2 ^ 64" "unat ?a + ?k \<le> unat (vz_end vz)"
      using ua tot Cons.prems(4,5) by linarith+
    show "rd16 m (?a + of_nat ?k) \<noteq> VARIABLE_DATA \<or> vz_end vz \<le> ?a + of_nat ?k"
      unfolding sum tot[symmetric] by (rule Cons.prems(6))
  qed (use h(2) Cons.prems(2,7,8) al in simp_all)
  show ?case
    unfolding find_step[OF ok(1) h(1) Cons.prems(7,8)] next_step[OF ok(1) h(1) Cons.prems(3) fit] Let_def
    using valid lt IH by simp
qed

text \<open>The located address holds the first matching variable.\<close>

lemma locate_holds:
  assumes "holds m a (encode_store auth vs)"
  shows "case locate auth guid nm vs a of
      None \<Rightarrow> List.find (var_matches guid nm) vs = None
    | Some h \<Rightarrow> \<exists>v. List.find (var_matches guid nm) vs = Some v \<and> v \<in> set vs \<and> holds m h (encode_var auth v)"
  using assms
proof (induction vs arbitrary: a)
  case (Cons v vs)
  then have "holds m a (encode_var auth v)"
    "holds m (a + of_nat (length (padded (encode_var auth v)))) (encode_store auth vs)"
    by (simp_all add: encode_store_Cons padded_def holds_append)
  with Cons.IH[of "a + of_nat (length (padded (encode_var auth v)))"] show ?case
    by (auto split: option.splits)
qed simp

lemma data_encoded:
  assumes "var_ok auth v" "holds m a (encode_var auth v)"
  defines "var \<equiv> \<lparr>ev_auth = auth, ev_header = a\<rparr>"
  shows "holds m (efi_variable_data m var) (x_data v)" "unat (efi_variable_data_size m var) = length (x_data v)"
proof -
  have l: "length (name_bytes v) < 2 ^ 32" "length (x_data v) < 2 ^ 32"
    using assms(1) by (simp_all add: var_ok_def encode_var_def)
  have n: "ucast (of_nat (length (name_bytes v)) :: u32) = (of_nat (length (name_bytes v)) :: u64)"
    using l(1) by (simp add: unsigned_of_nat take_bit_nat_eq_self)
  have "efi_variable_data m var = a + of_nat (length (encode_header auth v)) + of_nat (length (name_bytes v))"
    using fields_encoded(4,8)[OF assms(1,2)] by (simp add: efi_variable_data_def var_def n)
  then show "holds m (efi_variable_data m var) (x_data v)"
    using assms(2) by (simp add: encode_var_def holds_append add.assoc)
  show "unat (efi_variable_data_size m var) = length (x_data v)"
    using fields_encoded(5)[OF assms(1,2)] l(2) by (simp add: var_def unsigned_of_nat take_bit_nat_eq_self)
qed

end
