(* ===== verification/Efi_Claims.thy ===== *)
theory Efi_Claims
  imports Efi_Props
begin

text \<open>The properties of the reader of EFI variable stores.\<close>

subsection \<open>A damaged store\<close>

text \<open>
  The sizes in a variable header are not checked. If they add up to a multiple of \<open>2^32\<close>, the next
  variable is the same one, and if that is not a live one, the search never ends.
\<close>

lemma efi_find_stuck:
  assumes "efi_find_from m vz guid name st = Some r" "efi_variable_next m vz var = (None, var)"
    "\<not> efi_variable_live m var"
  shows "st \<noteq> (None, var)"
proof -
  have "efi_variable_next m vz var = (None, var) \<longrightarrow> \<not> efi_variable_live m var \<longrightarrow> st \<noteq> (None, var)"
    by (rule efi_find_from.raw_induct[where P =
          "\<lambda>m vz g n st r. efi_variable_next m vz var = (None, var) \<longrightarrow> \<not> efi_variable_live m var \<longrightarrow> st \<noteq> (None, var)",
          OF _ assms(1)]) fastforce
  with assms(2,3) show ?thesis by simp
qed

lemma efi_find_diverges:
  assumes "efi_variable_next m vz var = (None, var)" "\<not> efi_variable_live m var"
  shows "efi_find_from m vz guid name (None, var) = None"
  using efi_find_stuck[OF _ assms] by (metis option.exhaust)

subsection \<open>An encoded store\<close>

text \<open>What the callers do with the variable found: its data, as a slice of the image.\<close>

definition variable_is :: "mem \<Rightarrow> efi_variable \<Rightarrow> efi_var \<Rightarrow> bool" where
  "variable_is m var v \<longleftrightarrow> holds m (efi_variable_data m var) (x_data v) \<and>
     unat (efi_variable_data_size m var) = length (x_data v) \<and> efi_variable_attr m var = x_attr v"

text \<open>
  C23: Finding a variable in an encoded store. Let the zone's variables be the encoding of a list of
  variables (plain or authenticated headers, padded to four bytes as the format asks), followed by
  something that is no variable or by the end of the zone. Then \<open>efi_vz_find_variable\<close> returns for
  every vendor GUID and name: the first live variable of the list with that GUID and name, with
  its data and attributes unchanged, and \<open>ENOENT\<close> exactly when the list has none. In particular
  deleted variables are passed over and the search ends.
\<close>
theorem efi_find_roundtrip:
  assumes "holds m (vz_var vz) (encode_store (vz_auth vz) vs)" "\<forall>v \<in> set vs. var_ok (vz_auth vz) v"
    "unat (vz_var vz) mod 4 = 0" "unat (vz_var vz) + length (encode_store (vz_auth vz) vs) + 3 < 2 ^ 64"
    "unat (vz_var vz) + length (encode_store (vz_auth vz) vs) \<le> unat (vz_end vz)"
    "rd16 m (vz_var vz + of_nat (length (encode_store (vz_auth vz) vs))) \<noteq> VARIABLE_DATA \<or>
     vs \<noteq> [] \<and> vz_end vz \<le> vz_var vz + of_nat (length (encode_store (vz_auth vz) vs))"
    "wstr m name nm" "length (g_d3 guid) = 8"
  shows "case List.find (var_matches guid nm) vs of
      None \<Rightarrow> efi_vz_find_variable m vz guid name = Some (Inl ENOENT)
    | Some v \<Rightarrow> \<exists>var. efi_vz_find_variable m vz guid name = Some (Inr var) \<and> variable_is m var v"
proof (cases vs)
  case Nil
  then have "efi_variable_first m vz = (Some ENOENT, \<lparr>ev_auth = vz_auth vz, ev_header = vz_var vz\<rparr>)"
    using assms(6) by (simp add: efi_variable_first_def id_field encode_store_Cons)
  then show ?thesis
    using Nil by (simp add: efi_vz_find_variable_def efi_find_from.simps)
next
  case (Cons v ws)
  have "efi_vz_find_variable m vz guid name =
      efi_find_from m vz guid name (None, \<lparr>ev_auth = vz_auth vz, ev_header = vz_var vz\<rparr>)"
    using assms(1,2) fields_encoded(1)[of "vz_auth vz" v m "vz_var vz"]
    by (simp add: Cons efi_vz_find_variable_def efi_variable_first_def encode_store_Cons padded_def holds_append)
  also have "\<dots> = Some (case locate (vz_auth vz) guid nm vs (vz_var vz) of
            None \<Rightarrow> Inl ENOENT | Some h \<Rightarrow> Inr \<lparr>ev_auth = vz_auth vz, ev_header = h\<rparr>)"
    using assms(6) unfolding Cons
    by (intro efi_find_encoded assms[unfolded Cons]) auto
  finally have eq: "efi_vz_find_variable m vz guid name = Some (case locate (vz_auth vz) guid nm vs (vz_var vz) of
            None \<Rightarrow> Inl ENOENT | Some h \<Rightarrow> Inr \<lparr>ev_auth = vz_auth vz, ev_header = h\<rparr>)" .
  show ?thesis
  proof (cases "locate (vz_auth vz) guid nm vs (vz_var vz)")
    case None
    then show ?thesis using locate_holds[OF assms(1), of guid nm] eq by simp
  next
    case (Some h)
    then obtain w where w: "List.find (var_matches guid nm) vs = Some w" "w \<in> set vs"
      "holds m h (encode_var (vz_auth vz) w)"
      using locate_holds[OF assms(1), of guid nm] by auto
    with assms(2) data_encoded[of "vz_auth vz" w m h] fields_encoded(3)[of "vz_auth vz" w m h]
    have "variable_is m \<lparr>ev_auth = vz_auth vz, ev_header = h\<rparr> w" by (simp add: variable_is_def)
    with w(1) eq Some show ?thesis by simp
  qed
qed

text \<open>A store with a deleted and a live variable of one name, from address 64.\<close>

definition demo_var :: "u8 \<Rightarrow> u8 \<Rightarrow> efi_var" where
  "demo_var st d = \<lparr>x_status = st, x_attr = 7, x_auth = [], x_guid = EFI_VARIABLE_GUID, x_name = [65], x_data = [d]\<rparr>"

definition demo_vz :: efi_variable_zone where
  "demo_vz = \<lparr>vz_fv = 0, vz_vs = 0, vz_var = 64, vz_end = 4096, vz_auth = False\<rparr>"

definition demo_vars :: "efi_var list" where
  "demo_vars = [demo_var 0x3c 1, demo_var 0x3f 2]"

definition demo_store :: mem where
  "demo_store = place 64 (encode_store False demo_vars) (\<lambda>a. if a = 8 then 65 else 0)"

theorem efi_find_roundtrip_witness:
  "\<exists>var. efi_vz_find_variable demo_store demo_vz EFI_VARIABLE_GUID 8 = Some (Inr var) \<and>
     variable_is demo_store var (demo_var 0x3f 2)"
proof -
  have len: "length (encode_store False demo_vars) = 80"
    by (simp add: demo_vars_def demo_var_def encode_store_def padded_length encode_var_def encode_header_def
        name_bytes_def EFI_VARIABLE_GUID_def guid_bytes_def)
  have ok: "\<forall>v \<in> set demo_vars. var_ok False v"
    by (simp add: demo_vars_def demo_var_def var_ok_def encode_var_def encode_header_def name_bytes_def
        EFI_VARIABLE_GUID_def guid_bytes_def)
  have st: "holds demo_store 64 (encode_store False demo_vars)"
    unfolding demo_store_def by (rule holds_place) (simp add: len)
  have fin: "rd16 demo_store (64 + 80) \<noteq> VARIABLE_DATA"
    by (simp add: demo_store_def place_def len rd16_def VARIABLE_DATA_def)
  have nm: "wstr demo_store 8 [65]" by (simp add: demo_store_def place_def len rd16_def)
  have find: "List.find (var_matches EFI_VARIABLE_GUID [65]) demo_vars = Some (demo_var 0x3f 2)"
    by (simp add: demo_vars_def demo_var_def var_matches_def var_live_def VAR_ADDED_def
        VAR_IN_DELETED_TRANSITION_def)
  have vz: "vz_var demo_vz = 64" "vz_auth demo_vz = False" "vz_end demo_vz = 4096" by (simp_all add: demo_vz_def)
  have guid: "length (g_d3 EFI_VARIABLE_GUID) = 8" by (simp add: EFI_VARIABLE_GUID_def)
  have "case List.find (var_matches EFI_VARIABLE_GUID [65]) demo_vars of
      None \<Rightarrow> efi_vz_find_variable demo_store demo_vz EFI_VARIABLE_GUID 8 = Some (Inl ENOENT)
    | Some v \<Rightarrow> \<exists>var. efi_vz_find_variable demo_store demo_vz EFI_VARIABLE_GUID 8 = Some (Inr var) \<and>
        variable_is demo_store var v"
    by (rule efi_find_roundtrip[OF _ _ _ _ _ _ nm guid]) (use st ok fin in \<open>simp_all add: vz len\<close>)
  then show ?thesis by (simp add: find)
qed

end
