(* ===== verification/Bootdev.thy ===== *)
theory Bootdev
  imports Devices List_Head Libc_String
begin

text \<open>
  Boot devices and their manager, \<open>drivers/boot/bootdev.c\<close> with \<open>include/driver/bootdev.h\<close>: the
  sources files are loaded from, in the order of their priorities.

  The list of the devices is the intrusive list of \<open>List_Head\<close> with the static head
  \<open>boot_list\<close>; \<open>list_head\<close> is the first member of \<open>struct device\<close> and this of \<open>struct bootdev\<close>, so
  that one address names all three and \<open>container_of\<close> keeps NULL. Names and aliases are in the
  \<open>k_dev\<close> of the kernel state, as for the other device classes; the buffers files are
  loaded to are in the memory \<open>bm_mem\<close>. A loop over a damaged list or a
  call through NULL is \<open>None\<close>. The ranges given to \<open>flush_dcache_range\<close> are logged.
\<close>

subsection \<open>State\<close>

text \<open>
  \<open>load\<close> returns the length or a code that is not positive, with the bytes it has stored in the
  buffer (on an error there may be some, too). Both operations get the device's \<open>data\<close>, the only
  field they use, and may change the state of the kernel; a fault is \<open>None\<close>. The private data of
  a device, which nothing else points to, is the value \<open>bt_data\<close> of the driver's type \<open>'d\<close>.
\<close>

record ('h, 'd) bootdev_ops =
  bo_load :: "('d option \<Rightarrow> string \<Rightarrow> 'h kernel \<Rightarrow> ((int \<times> u8 list) \<times> 'h kernel) option) option"
  bo_get_file_size :: "('d option \<Rightarrow> string \<Rightarrow> 'h kernel \<Rightarrow> (int \<times> 'h kernel) option) option"

record 'd bootdev =
  bt_ops :: "nat option"
  bt_size :: u64
  bt_priority :: int
  bt_disabled :: int
  bt_data :: "'d option"

record ('h, 'd) bdm =
  bm_k :: "'h kernel"
  bm_links :: links
  bm_boot :: "addr \<Rightarrow> 'd bootdev option"
  bm_ops :: "nat \<Rightarrow> ('h, 'd) bootdev_ops"
  bm_mem :: mem
  bm_flushed :: "(u64 \<times> u64) list"

definition boot_list :: addr where "boot_list = 0"

definition bm_upd :: "addr \<Rightarrow> ('d bootdev \<Rightarrow> 'd bootdev) \<Rightarrow> ('h, 'd) bdm \<Rightarrow> ('h, 'd) bdm" where
  "bm_upd a f s = s\<lparr>bm_boot := (bm_boot s)(a := map_option f (bm_boot s a))\<rparr>"

subsection \<open>The list\<close>

definition list_first_entry_or_null :: "addr \<Rightarrow> links \<Rightarrow> addr option" where
  "list_first_entry_or_null head h =
     (case l_next h head of None \<Rightarrow> None | Some pos \<Rightarrow> if pos \<noteq> head then Some pos else None)"

definition bootdev_first :: "('h, 'd) bdm \<Rightarrow> addr option" where
  "bootdev_first s = list_first_entry_or_null boot_list (bm_links s)"

definition bootdev_next :: "('h, 'd) bdm \<Rightarrow> addr \<Rightarrow> addr option" where
  "bootdev_next s current =
     (if list_is_last current boot_list (bm_links s) then None else l_next (bm_links s) current)"

definition bootdev_alloc :: "('h, 'd) bdm \<Rightarrow> addr option \<times> ('h, 'd) bdm" where
  "bootdev_alloc s =
     (case k_malloc (bm_k s) of
        (False, k1) \<Rightarrow> (None, s\<lparr>bm_k := k1\<rparr>)
      | (True, k1) \<Rightarrow>
          (let a = k_next k1
           in (Some a,
               s\<lparr>bm_k := k1\<lparr>k_next := Suc a, k_dev := (k_dev k1)(a \<mapsto> zero_device)\<rparr>,
                 bm_links := set_next a None (set_prev a None (bm_links s)),
                 bm_boot := (bm_boot s)(a \<mapsto>
                   \<lparr>bt_ops = None, bt_size = 0, bt_priority = 0, bt_disabled = 0, bt_data = None\<rparr>)\<rparr>)))"

definition bootdev_free :: "addr \<Rightarrow> ('h, 'd) bdm \<Rightarrow> ('h, 'd) bdm" where
  "bootdev_free a s =
     s\<lparr>bm_k := k_mfree ((bm_k s)\<lparr>k_dev := (k_dev (bm_k s))(a := None)\<rparr>), bm_boot := (bm_boot s)(a := None)\<rparr>"

definition bootdev_add :: "addr \<Rightarrow> ('h, 'd) bdm \<Rightarrow> ('h, 'd) bdm option" where
  "bootdev_add a s =
     do { l \<leftarrow> list_add_tail a boot_list (bm_links s);
          Some (s\<lparr>bm_links := l, bm_k := snd (device_register (Some a) (bm_k s))\<rparr>) }"

definition bootdev_remove :: "addr \<Rightarrow> ('h, 'd) bdm \<Rightarrow> ('h, 'd) bdm option" where
  "bootdev_remove a s =
     (let s1 = s\<lparr>bm_k := device_unregister (Some a) (bm_k s)\<rparr>
      in do { l \<leftarrow> list_del a (bm_links s1); Some (s1\<lparr>bm_links := l\<rparr>) })"

definition bootdev_count :: "('h, 'd) bdm \<Rightarrow> nat option" where
  "bootdev_count s = list_count_nodes boot_list (bm_links s)"

text \<open>The loop of \<open>device_find_by_name\<close>, with its early return.\<close>

partial_function (option) find_by_name_from :: "('h, 'd) bdm \<Rightarrow> string \<Rightarrow> addr \<Rightarrow> addr option option" where
  "find_by_name_from s name p =
     (if list_is_head p boot_list then Some None
      else if device_matches (bm_k s) name p then Some (Some p)
      else do { n \<leftarrow> l_next (bm_links s) p; find_by_name_from s name n })"

definition bootdev_find_by_name :: "('h, 'd) bdm \<Rightarrow> string \<Rightarrow> addr option option" where
  "bootdev_find_by_name s name = do { p \<leftarrow> l_next (bm_links s) boot_list; find_by_name_from s name p }"

definition bootdev_set_user_data :: "addr \<Rightarrow> 'd option \<Rightarrow> ('h, 'd) bdm \<Rightarrow> ('h, 'd) bdm" where
  "bootdev_set_user_data a data s = bm_upd a (bt_data_update (\<lambda>_. data)) s"

definition bootdev_get_user_data :: "('h, 'd) bdm \<Rightarrow> addr \<Rightarrow> 'd option" where
  "bootdev_get_user_data s a = Option.bind (bm_boot s a) bt_data"

text \<open>The rows the two listing functions print; \<open>bootdev_list_devices\<close> returns their number.\<close>

record bootdev_row =
  br_index :: nat
  br_name :: string
  br_size :: u64
  br_priority :: int
  br_alias :: string
  br_disabled :: bool

definition bootdev_list_devices :: "('h, 'd) bdm \<Rightarrow> (nat \<times> bootdev_row list) option" where
  "bootdev_list_devices s =
     list_for_each
       (\<lambda>p (i, rows). case (k_dev (bm_k s) p, bm_boot s p) of
          (Some d, Some b) \<Rightarrow>
            (Suc i, rows @ [\<lparr>br_index = i, br_name = d_name d, br_size = bt_size b, br_priority = bt_priority b,
               br_alias = d_alias d, br_disabled = (bt_disabled b \<noteq> 0)\<rparr>])
        | _ \<Rightarrow> (Suc i, rows))
       boot_list (bm_links s) (0, [])"

definition bootdev_register :: "addr \<Rightarrow> ('h, 'd) bdm \<Rightarrow> (errno option \<times> ('h, 'd) bdm) option" where
  "bootdev_register a s =
     (case (k_dev (bm_k s) a, bm_boot s a) of
        (Some d, Some b) \<Rightarrow>
          (if d_name d = [] then Some (Some EINVAL, s)
           else if bt_size b = 0 then Some (Some EINVAL, s)
           else (case bt_ops b of
             None \<Rightarrow> Some (Some EINVAL, s)
           | Some i \<Rightarrow>
             (if bo_get_file_size (bm_ops s i) = None \<or> bo_load (bm_ops s i) = None then Some (Some EINVAL, s)
              else do { s1 \<leftarrow> bootdev_add a s; Some (None, s1) })))
      | _ \<Rightarrow> None)"

definition bootdev_unregister :: "addr \<Rightarrow> ('h, 'd) bdm \<Rightarrow> ('h, 'd) bdm option" where
  "bootdev_unregister a s = bootdev_remove a s"

subsection \<open>Loading from one device\<close>

definition bootdev_load :: "addr \<Rightarrow> string \<Rightarrow> u64 \<Rightarrow> ('h, 'd) bdm \<Rightarrow> (int \<times> ('h, 'd) bdm) option" where
  "bootdev_load a file buf s =
     do { b \<leftarrow> bm_boot s a;
          i \<leftarrow> bt_ops b;
          f \<leftarrow> bo_load (bm_ops s i);
          r \<leftarrow> f (bt_data b) file (bm_k s);
          Some (case r of ((err, bytes), k) \<Rightarrow>
            (let s1 = s\<lparr>bm_k := k, bm_mem := place buf bytes (bm_mem s)\<rparr>
             in if err \<le> 0 then (err, s1)
                else (err, s1\<lparr>bm_flushed := bm_flushed s1 @ [(buf, buf + of_int err)]\<rparr>))) }"

definition bootdev_get_file_size :: "addr \<Rightarrow> string \<Rightarrow> ('h, 'd) bdm \<Rightarrow> (int \<times> ('h, 'd) bdm) option" where
  "bootdev_get_file_size a file s =
     do { b \<leftarrow> bm_boot s a;
          i \<leftarrow> bt_ops b;
          f \<leftarrow> bo_get_file_size (bm_ops s i);
          r \<leftarrow> f (bt_data b) file (bm_k s);
          Some (fst r, s\<lparr>bm_k := snd r\<rparr>) }"

subsection \<open>The boot device manager\<close>

text \<open>\<open>sort_device\<close>: the inner loop finds the first device of smallest priority behind \<open>cur\<close>.\<close>

partial_function (option) smallest_from :: "('h, 'd) bdm \<Rightarrow> addr option \<Rightarrow> addr \<Rightarrow> addr option" where
  "smallest_from s next smallest =
     (case next of
        None \<Rightarrow> Some smallest
      | Some n \<Rightarrow>
          do { b \<leftarrow> bm_boot s n;
               m \<leftarrow> bm_boot s smallest;
               smallest_from s (bootdev_next s n) (if bt_priority b < bt_priority m then n else smallest) })"

partial_function (option) sort_from :: "('h, 'd) bdm \<Rightarrow> addr option \<Rightarrow> ('h, 'd) bdm option" where
  "sort_from s cur =
     (case cur of
        None \<Rightarrow> Some s
      | Some c \<Rightarrow>
          do { smallest \<leftarrow> smallest_from s (bootdev_next s c) c;
               (if smallest \<noteq> c
                then do { l \<leftarrow> list_swap c smallest (bm_links s);
                          let s1 = s\<lparr>bm_links := l\<rparr>;
                          sort_from s1 (bootdev_next s1 smallest) }
                else sort_from s (bootdev_next s c)) })"

definition sort_device :: "('h, 'd) bdm \<Rightarrow> ('h, 'd) bdm option" where
  "sort_device s = sort_from s (bootdev_first s)"

definition bdm_set_disabled :: "string \<Rightarrow> int \<Rightarrow> ('h, 'd) bdm \<Rightarrow> (errno option \<times> ('h, 'd) bdm) option" where
  "bdm_set_disabled devname disabled s =
     do { r \<leftarrow> bootdev_find_by_name s devname;
          Some (case r of
            None \<Rightarrow> (Some ENODEV, s)
          | Some a \<Rightarrow> (None, bm_upd a (bt_disabled_update (\<lambda>_. disabled)) s)) }"

definition bdm_set_priority :: "string \<Rightarrow> int \<Rightarrow> ('h, 'd) bdm \<Rightarrow> (errno option \<times> ('h, 'd) bdm) option" where
  "bdm_set_priority devname priority s =
     do { r \<leftarrow> bootdev_find_by_name s devname;
          (case r of
             None \<Rightarrow> Some (Some ENODEV, s)
           | Some a \<Rightarrow>
               do { s1 \<leftarrow> sort_device (bm_upd a (bt_priority_update (\<lambda>_. priority)) s);
                    Some (None, s1) }) }"

text \<open>\<open>true\<close> is 1: a device whose \<open>disabled\<close> is another non-zero number is still tried.\<close>

partial_function (option) bdm_load_from ::
  "string \<Rightarrow> u64 \<Rightarrow> addr option \<Rightarrow> ('h, 'd) bdm \<Rightarrow> (int \<times> ('h, 'd) bdm) option" where
  "bdm_load_from file buf p s =
     (case p of
        None \<Rightarrow> Some (- errno_val EIO, s)
      | Some a \<Rightarrow>
          do { b \<leftarrow> bm_boot s a;
               (if bt_disabled b = 1 then bdm_load_from file buf (bootdev_next s a) s
                else do { r \<leftarrow> bootdev_load a file buf s;
                          (if fst r > 0 then Some r
                           else bdm_load_from file buf (bootdev_next (snd r) a) (snd r)) }) })"

definition bdm_load :: "string \<Rightarrow> u64 \<Rightarrow> ('h, 'd) bdm \<Rightarrow> (int \<times> ('h, 'd) bdm) option" where
  "bdm_load file buf s = bdm_load_from file buf (bootdev_first s) s"

partial_function (option) file_size_from ::
  "string \<Rightarrow> addr option \<Rightarrow> int \<Rightarrow> ('h, 'd) bdm \<Rightarrow> (int \<times> ('h, 'd) bdm) option" where
  "file_size_from file p max_size s =
     (case p of
        None \<Rightarrow> Some (max_size, s)
      | Some a \<Rightarrow>
          do { r \<leftarrow> bootdev_get_file_size a file s;
               file_size_from file (bootdev_next (snd r) a)
                 (if fst r > max_size then fst r else max_size) (snd r) })"

definition bdm_get_file_size :: "string \<Rightarrow> ('h, 'd) bdm \<Rightarrow> (int \<times> ('h, 'd) bdm) option" where
  "bdm_get_file_size file s = file_size_from file (bootdev_first s) (- errno_val ENOENT) s"

end
