(* ===== verification/Bootdev_Props.thy ===== *)
theory Bootdev_Props
  imports Bootdev List_Head_Props Devices_Props Libc_Props "HOL-Library.Multiset"
begin

text \<open>
  The list of boot devices as a list, the selection sort of \<open>sort_device\<close> on it, and the order in
  which \<open>bdm_load\<close> tries the devices.
\<close>

subsection \<open>Swapping two entries\<close>

lemma list_swap_clist:
  assumes "clist h q (us @ a # ws @ b # vs)"
  shows "\<exists>h'. list_swap a b h = Some h' \<and> clist h' q (us @ b # ws @ a # vs) \<and>
    same_but (set (q # us @ a # ws @ b # vs)) h h'"
proof -
  let ?S = "set (q # us @ a # ws @ b # vs)"
  have c0: "clist h q ((us @ a # ws) @ b # vs)" using assms by simp
  then have "seg h q (us @ a # ws) b" by (simp only: clist_split)
  from seg_prev_last[OF this] have pos: "l_prev h b = Some (last (a # ws))" by simp
  have dist: "distinct (q # us @ a # ws @ b # vs)" using assms by (simp add: clist_def)
  obtain h1 where h1: "list_del b h = Some h1" "clist h1 q (us @ a # ws @ vs)" "same_but ?S h h1"
    using list_del_clist[OF c0] by auto
  have "b \<notin> set (q # us @ a # ws @ vs)" using dist by auto
  from list_replace_clist[OF h1(2) this] obtain h2 where h2: "list_replace a b h1 = Some h2"
    "clist h2 q (us @ b # ws @ vs)" "same_but (set (q # b # us @ a # ws @ vs)) h1 h2" by blast
  have sb2: "same_but ?S h1 h2" by (rule same_but_mono[OF h2(3)]) auto
  let ?p = "last (b # ws)"
  have p: "b # ws @ vs = butlast (b # ws) @ ?p # vs"
    by (metis append.assoc append_Cons append_Nil append_butlast_last_id list.distinct(1))
  from h2(2) have "clist h2 ?p (vs @ q # us @ butlast (b # ws))"
    unfolding p using clist_turn[of h2 q "us @ butlast (b # ws)" ?p vs] by simp
  moreover have "a \<notin> set (?p # vs @ q # us @ butlast (b # ws))"
    using dist in_set_butlastD[of a "b # ws"] last_in_set[of "b # ws"] by auto
  ultimately obtain h3 where h3: "list_add a ?p h2 = Some h3"
    "clist h3 ?p (a # vs @ q # us @ butlast (b # ws))"
    "same_but (set (?p # a # vs @ q # us @ butlast (b # ws))) h2 h3"
    using list_add_clist by blast
  have "set (?p # a # vs @ q # us @ butlast (b # ws)) \<subseteq> ?S"
    using in_set_butlastD[of _ "b # ws"] last_in_set[of "b # ws"] by (auto simp del: butlast.simps last.simps)
  from same_but_mono[OF h3(3) this] have sb: "same_but ?S h2 h3" .
  have "clist h3 q ((us @ butlast (b # ws)) @ ?p # a # vs)"
    using clist_turn[of h3 q "us @ butlast (b # ws)" ?p "a # vs"] h3(2) by simp
  also have "(us @ butlast (b # ws)) @ ?p # a # vs = us @ b # ws @ a # vs"
    by (metis append.assoc append_Cons append_Nil append_butlast_last_id list.distinct(1))
  finally have c3: "clist h3 q (us @ b # ws @ a # vs)" .
  have "last ws \<noteq> a" if "ws \<noteq> []" using that dist last_in_set[OF that] by auto
  then have "(if last (a # ws) = a then b else last (a # ws)) = ?p" by auto
  with h3(1) have "list_add a (if last (a # ws) = a then b else last (a # ws)) h2 = Some h3" by metis
  then have "list_swap a b h = Some h3" unfolding list_swap_def by (simp only: pos h1(1) h2(1) bind.bind_lunit)
  with c3 same_but_trans[OF same_but_trans[OF h1(3) sb2] sb] show ?thesis by blast
qed

subsection \<open>The devices as a list\<close>

definition bm_list :: "('h, 'd) bdm \<Rightarrow> addr list \<Rightarrow> bool" where
  "bm_list s xs \<longleftrightarrow> clist (bm_links s) boot_list xs \<and>
     (\<forall>x \<in> set xs. bm_boot s x \<noteq> None \<and> k_dev (bm_k s) x \<noteq> None)"

definition prio :: "('h, 'd) bdm \<Rightarrow> addr \<Rightarrow> int" where
  "prio s a = (case bm_boot s a of None \<Rightarrow> 0 | Some b \<Rightarrow> bt_priority b)"

lemma bm_list_unique: "bm_list s xs \<Longrightarrow> bm_list s ys \<Longrightarrow> xs = ys"
  by (auto simp: bm_list_def intro: clist_unique)

lemma bootdev_first_list: "bm_list s xs \<Longrightarrow> bootdev_first s = first_in xs"
  by (cases xs) (auto simp: bm_list_def clist_def bootdev_first_def list_first_entry_or_null_def first_in_def)

lemma bootdev_next_list: "bm_list s (ys @ x # zs) \<Longrightarrow> bootdev_next s x = first_in zs"
  using list_is_last_clist(1)[of "bm_links s" boot_list ys x zs]
  by (cases zs) (auto simp: bm_list_def bootdev_next_def clist_split first_in_def)

lemma first_in_simps [simp]: "first_in [] = None" "first_in (a # xs) = Some a"
  by (simp_all add: first_in_def)

lemma find_by_name_from_list:
  assumes "bm_list s (ys @ zs)"
  shows "find_by_name_from s name (hd (zs @ [boot_list])) = Some (List.find (device_matches (bm_k s) name) zs)"
  using assms
proof (induction zs arbitrary: ys)
  case Nil
  then show ?case by (subst find_by_name_from.simps) (simp add: list_is_head_def)
next
  case (Cons z zs)
  then have c: "clist (bm_links s) boot_list (ys @ z # zs)" by (simp add: bm_list_def)
  then have "z \<noteq> boot_list" "l_next (bm_links s) z = Some (hd (zs @ [boot_list]))"
    by (auto simp: clist_split dest: seg_next_hd)
  with Cons.IH[of "ys @ [z]"] Cons.prems show ?case
    by (subst find_by_name_from.simps) (simp add: list_is_head_def)
qed

lemma bootdev_find_by_name_list:
  assumes "bm_list s xs"
  shows "bootdev_find_by_name s name = Some (device_find_by_name (bm_k s) xs name)"
  using find_by_name_from_list[of s "[]" xs name] assms clist_next_prev(1)[of "bm_links s" boot_list xs]
  by (simp add: bootdev_find_by_name_def device_find_by_name_def bm_list_def)

subsection \<open>The sort\<close>

definition least :: "('h, 'd) bdm \<Rightarrow> addr \<Rightarrow> addr list \<Rightarrow> addr" where
  "least s = foldl (\<lambda>m n. if prio s n < prio s m then n else m)"

lemma least_props: "least s m zs \<in> insert m (set zs) \<and> (\<forall>z \<in> insert m (set zs). prio s (least s m zs) \<le> prio s z)"
proof (induction zs arbitrary: m)
  case (Cons z zs)
  let ?m = "if prio s z < prio s m then z else m"
  have "least s m (z # zs) = least s ?m zs" by (simp add: least_def)
  with Cons.IH[of ?m] show ?case by (auto split: if_splits)
qed (simp add: least_def)

lemma smallest_from_list:
  assumes "bm_list s (ys @ zs)" "bm_boot s m \<noteq> None"
  shows "smallest_from s (first_in zs) m = Some (least s m zs)"
  using assms
proof (induction zs arbitrary: ys m)
  case Nil
  show ?case by (subst smallest_from.simps) (simp add: least_def)
next
  case (Cons z zs)
  obtain b where b: "bm_boot s z = Some b" using Cons.prems(1) by (auto simp: bm_list_def)
  obtain c where c: "bm_boot s m = Some c" using Cons.prems(2) by blast
  let ?m = "if prio s z < prio s m then z else m"
  have "bm_list s ((ys @ [z]) @ zs)" "bm_boot s ?m \<noteq> None" using Cons.prems(1) b c by simp_all
  from Cons.IH[OF this] show ?case
    using bootdev_next_list[OF Cons.prems(1)] b c
    by (subst smallest_from.simps) (simp add: least_def prio_def)
qed

lemma sort_from_list:
  assumes "bm_list s (ys @ zs)" "sorted (map (prio s) ys)" "\<forall>y \<in> set ys. \<forall>z \<in> set zs. prio s y \<le> prio s z"
  shows "\<exists>l zs'. sort_from s (first_in zs) = Some (s\<lparr>bm_links := l\<rparr>) \<and> bm_list (s\<lparr>bm_links := l\<rparr>) (ys @ zs') \<and>
    mset zs' = mset zs \<and> sorted (map (prio s) (ys @ zs')) \<and>
    same_but (set (boot_list # ys @ zs)) (bm_links s) l"
  using assms
proof (induction "length zs" arbitrary: s ys zs)
  case 0
  then have "sort_from s (first_in zs) = Some (s\<lparr>bm_links := bm_links s\<rparr>)" by (subst sort_from.simps) simp
  then show ?case using 0 by (intro exI[of _ "bm_links s"] exI[of _ "[]"]) simp
next
  case (Suc n)
  then obtain c rest where zs: "zs = c # rest" by (cases zs) auto
  define m where "m = least s c rest"
  have least: "m \<in> insert c (set rest)" "\<forall>z \<in> insert c (set rest). prio s m \<le> prio s z"
    using least_props[of s c rest] by (simp_all add: m_def)
  have "bm_list s ((ys @ [c]) @ rest)" "bm_boot s c \<noteq> None"
    using Suc.prems(1) zs by (simp_all add: bm_list_def)
  note sm = smallest_from_list[OF this, folded m_def]
  have nx: "bootdev_next s c = first_in rest" using Suc.prems(1) zs by (simp add: bootdev_next_list)
  show ?case
  proof (cases "m = c")
    case True
    have "\<exists>l zs'. sort_from s (first_in rest) = Some (s\<lparr>bm_links := l\<rparr>) \<and>
        bm_list (s\<lparr>bm_links := l\<rparr>) ((ys @ [c]) @ zs') \<and> mset zs' = mset rest \<and>
        sorted (map (prio s) ((ys @ [c]) @ zs')) \<and> same_but (set (boot_list # (ys @ [c]) @ rest)) (bm_links s) l"
      using Suc.prems Suc.hyps(2) least zs True
      by (intro Suc.hyps(1)) (auto simp: sorted_append)
    then obtain l zs' where "sort_from s (first_in rest) = Some (s\<lparr>bm_links := l\<rparr>)"
      "bm_list (s\<lparr>bm_links := l\<rparr>) (ys @ c # zs')" "mset (c # zs') = mset zs"
      "sorted (map (prio s) (ys @ c # zs'))" "same_but (set (boot_list # ys @ zs)) (bm_links s) l"
      by (elim exE conjE) (rule that, simp_all add: zs)
    moreover have "sort_from s (first_in zs) = sort_from s (first_in rest)"
      using sm nx zs True by (subst sort_from.simps) simp
    ultimately show ?thesis by metis
  next
    case False
    with least obtain ws vs where rest: "rest = ws @ m # vs" by (auto simp: in_set_conv_decomp)
    have "clist (bm_links s) boot_list (ys @ c # ws @ m # vs)"
      using Suc.prems(1) zs rest by (simp add: bm_list_def)
    from list_swap_clist[OF this] obtain l where l: "list_swap c m (bm_links s) = Some l"
      "clist l boot_list (ys @ m # ws @ c # vs)"
      "same_but (set (boot_list # ys @ c # ws @ m # vs)) (bm_links s) l" by blast
    let ?s = "s\<lparr>bm_links := l\<rparr>" and ?zs = "ws @ c # vs"
    have set: "set (ys @ zs) = set ((ys @ [m]) @ ?zs)" using zs rest by auto
    have pr: "prio ?s = prio s" by (simp add: prio_def fun_eq_iff)
    have bl: "bm_list ?s ((ys @ [m]) @ ?zs)"
      using l(2) Suc.prems(1) set by (auto simp: bm_list_def)
    have "\<exists>l' zs'. sort_from ?s (first_in ?zs) = Some (?s\<lparr>bm_links := l'\<rparr>) \<and>
        bm_list (?s\<lparr>bm_links := l'\<rparr>) ((ys @ [m]) @ zs') \<and> mset zs' = mset ?zs \<and>
        sorted (map (prio ?s) ((ys @ [m]) @ zs')) \<and>
        same_but (set (boot_list # (ys @ [m]) @ ?zs)) (bm_links ?s) l'"
    proof (rule Suc.hyps(1)[OF _ bl])
      show "n = length ?zs" using Suc.hyps(2) zs rest by (metis length_Cons length_append add_Suc_right nat.inject)
      show "sorted (map (prio ?s) (ys @ [m]))"
        using Suc.prems(2,3) zs rest pr by (simp add: sorted_append)
      show "\<forall>y \<in> set (ys @ [m]). \<forall>z \<in> set ?zs. prio ?s y \<le> prio ?s z"
        using Suc.prems(3) least zs rest pr by auto
    qed
    then obtain l' zs' where l': "sort_from ?s (first_in ?zs) = Some (s\<lparr>bm_links := l'\<rparr>)"
      "bm_list (s\<lparr>bm_links := l'\<rparr>) (ys @ m # zs')" "mset zs' = mset ?zs"
      "sorted (map (prio s) (ys @ m # zs'))"
      "same_but (set (boot_list # (ys @ [m]) @ ?zs)) l l'"
      by (auto simp: pr)
    have "bootdev_next ?s m = first_in ?zs" using bl by (simp add: bootdev_next_list)
    then have "sort_from s (first_in zs) = Some (s\<lparr>bm_links := l'\<rparr>)"
      using sm l(1) l'(1) nx zs False by (subst sort_from.simps) simp
    moreover have "mset (m # zs') = mset zs" using l'(3) zs by (subst zs, subst rest) simp
    moreover have "same_but (set (boot_list # ys @ zs)) (bm_links s) l'"
      using same_but_trans[OF same_but_mono[OF l(3)] same_but_mono[OF l'(5)]] set zs rest
      by (metis (no_types) list.simps(15) set_append order_refl append_Cons)
    ultimately show ?thesis using l'(2,4) by blast
  qed
qed


subsection \<open>Which device a file comes from\<close>

definition loader :: "('h, 'd) bdm \<Rightarrow> addr \<Rightarrow> string \<Rightarrow> 'h kernel \<Rightarrow> ((int \<times> u8 list) \<times> 'h kernel) option" where
  "loader s a file k =
     do { b \<leftarrow> bm_boot s a; i \<leftarrow> bt_ops b; f \<leftarrow> bo_load (bm_ops s i); f (bt_data b) file k }"

definition sizer :: "('h, 'd) bdm \<Rightarrow> addr \<Rightarrow> string \<Rightarrow> 'h kernel \<Rightarrow> (int \<times> 'h kernel) option" where
  "sizer s a file k =
     do { b \<leftarrow> bm_boot s a; i \<leftarrow> bt_ops b; f \<leftarrow> bo_get_file_size (bm_ops s i); f (bt_data b) file k }"

definition enabled :: "('h, 'd) bdm \<Rightarrow> addr \<Rightarrow> bool" where
  "enabled s a \<longleftrightarrow> (\<exists>b. bm_boot s a = Some b \<and> bt_disabled b \<noteq> 1)"

definition set_hw :: "'h \<Rightarrow> 'h kernel \<Rightarrow> 'h kernel" where
  "set_hw h k = k\<lparr>k_hw := h\<rparr>"

lemma set_hw_simps [simp]:
  "set_hw h (set_hw h' k) = set_hw h k" "k_hw (set_hw h k) = h" "set_hw (k_hw k) k = k"
  "k_dev (set_hw h k) = k_dev k" "k_mtd (set_hw h k) = k_mtd k" "k_mtd_ops (set_hw h k) = k_mtd_ops k"
  by (simp_all add: set_hw_def)

text \<open>
  The contract of a driver for one file with contents \<open>c\<close> (empty where the device does not have the
  file): in every state of the hardware, \<open>load\<close> gives the length and stores the contents,
  \<open>get_file_size\<close> gives the length; without the file, neither gives a positive number. Nothing but
  the hardware state changes.
\<close>

definition serves :: "('h, 'd) bdm \<Rightarrow> string \<Rightarrow> addr \<Rightarrow> u8 list \<Rightarrow> bool" where
  "serves s file a c \<longleftrightarrow>
     (\<forall>h. (\<exists>r bs h'. loader s a file (set_hw h (bm_k s)) = Some ((r, bs), set_hw h' (bm_k s)) \<and>
             (if c \<noteq> [] then r = int (length c) \<and> bs = c else r \<le> 0)) \<and>
          (\<exists>r h'. sizer s a file (set_hw h (bm_k s)) = Some (r, set_hw h' (bm_k s)) \<and>
             (if c \<noteq> [] then r = int (length c) else r \<le> 0)))"

text \<open>The states in which nothing but the hardware, the memory and the log of the flushes differs.\<close>

definition io :: "'h \<Rightarrow> mem \<Rightarrow> (u64 \<times> u64) list \<Rightarrow> ('h, 'd) bdm \<Rightarrow> ('h, 'd) bdm" where
  "io h m fl s = s\<lparr>bm_k := set_hw h (bm_k s), bm_mem := m, bm_flushed := fl\<rparr>"

lemma io_simps [simp]:
  "bm_list (io h m fl s) xs = bm_list s xs" "loader (io h m fl s) = loader s"
  "sizer (io h m fl s) = sizer s" "enabled (io h m fl s) = enabled s" "prio (io h m fl s) = prio s"
  "bm_flushed (io h m fl s) = fl" "bm_mem (io h m fl s) = m" "bm_k (io h m fl s) = set_hw h (bm_k s)"
  "io h m fl (io h' m' fl' s) = io h m fl s" "io (k_hw (bm_k s)) (bm_mem s) (bm_flushed s) s = s"
  "bm_boot (io h m fl s) = bm_boot s" "bm_links (io h m fl s) = bm_links s" "bm_ops (io h m fl s) = bm_ops s"
  "serves (io h m fl s) = serves s"
  by (simp_all add: io_def bm_list_def loader_def sizer_def enabled_def prio_def serves_def fun_eq_iff)

lemma bootdev_load_served:
  assumes "serves s file a c"
  shows "\<exists>r bs h. bootdev_load a file buf s = Some (r, io h (place buf bs (bm_mem s))
      (if 0 < r then bm_flushed s @ [(buf, buf + of_int r)] else bm_flushed s) s) \<and>
    (if c \<noteq> [] then r = int (length c) \<and> bs = c else r \<le> 0)"
proof -
  obtain r bs h where l: "loader s a file (set_hw (k_hw (bm_k s)) (bm_k s)) = Some ((r, bs), set_hw h (bm_k s))"
    "if c \<noteq> [] then r = int (length c) \<and> bs = c else r \<le> 0"
    using assms unfolding serves_def by blast
  then have "bootdev_load a file buf s = Some (r, io h (place buf bs (bm_mem s))
      (if 0 < r then bm_flushed s @ [(buf, buf + of_int r)] else bm_flushed s) s)"
    by (auto simp: loader_def bootdev_load_def io_def split: bind_splits)
  with l(2) show ?thesis by blast
qed

lemma bootdev_get_file_size_served:
  assumes "serves s file a c"
  shows "\<exists>r h. bootdev_get_file_size a file s = Some (r, io h (bm_mem s) (bm_flushed s) s) \<and>
    (if c \<noteq> [] then r = int (length c) else r \<le> 0)"
proof -
  obtain r h where l: "sizer s a file (set_hw (k_hw (bm_k s)) (bm_k s)) = Some (r, set_hw h (bm_k s))"
    "if c \<noteq> [] then r = int (length c) else r \<le> 0"
    using assms unfolding serves_def by blast
  then have "bootdev_get_file_size a file s = Some (r, io h (bm_mem s) (bm_flushed s) s)"
    by (auto simp: sizer_def bootdev_get_file_size_def io_def split: bind_splits)
  with l(2) show ?thesis by blast
qed

text \<open>The first enabled device in the list that has the file.\<close>

definition source :: "('h, 'd) bdm \<Rightarrow> (addr \<Rightarrow> u8 list) \<Rightarrow> addr list \<Rightarrow> addr option" where
  "source s c = List.find (\<lambda>a. enabled s a \<and> c a \<noteq> [])"

lemma bdm_load_from_list:
  assumes "bm_list s (ys @ zs)" "\<forall>z \<in> set zs. serves s file z (c z)"
  shows "\<exists>r h m fl. bdm_load_from file buf (first_in zs) s = Some (r, io h m fl s) \<and>
    (case source s c zs of
       None \<Rightarrow> r = - errno_val EIO \<and> fl = bm_flushed s
     | Some a \<Rightarrow> r = int (length (c a)) \<and> (\<exists>m0. m = place buf (c a) m0) \<and>
         fl = bm_flushed s @ [(buf, buf + of_int r)])"
  using assms
proof (induction zs arbitrary: s ys)
  case Nil
  have "bdm_load_from file buf (first_in []) s =
      Some (- errno_val EIO, io (k_hw (bm_k s)) (bm_mem s) (bm_flushed s) s)"
    by (subst bdm_load_from.simps) simp
  then show ?case by (fastforce simp: source_def)
next
  case (Cons z zs)
  obtain b where b: "bm_boot s z = Some b" using Cons.prems(1) by (auto simp: bm_list_def)
  have nx: "bootdev_next (io h m fl s) z = first_in zs" for h m fl
    using Cons.prems(1) by (intro bootdev_next_list[of _ ys]) simp
  have IH: "\<exists>r h m fl. bdm_load_from file buf (first_in zs) (io h0 m0 (bm_flushed s) s) = Some (r, io h m fl s) \<and>
    (case source s c zs of
       None \<Rightarrow> r = - errno_val EIO \<and> fl = bm_flushed s
     | Some a \<Rightarrow> r = int (length (c a)) \<and> (\<exists>m0. m = place buf (c a) m0) \<and>
         fl = bm_flushed s @ [(buf, buf + of_int r)])" for h0 m0
  proof -
    have "bm_list (io h0 m0 (bm_flushed s) s) ((ys @ [z]) @ zs)" "\<forall>z \<in> set zs. serves (io h0 m0 (bm_flushed s) s) file z (c z)"
      using Cons.prems by simp_all
    from Cons.IH[OF this] show ?thesis unfolding source_def io_simps .
  qed
  show ?case
  proof (cases "bt_disabled b = 1")
    case True
    then have "bdm_load_from file buf (first_in (z # zs)) s =
        bdm_load_from file buf (first_in zs) (io (k_hw (bm_k s)) (bm_mem s) (bm_flushed s) s)"
      using b nx[of "k_hw (bm_k s)" "bm_mem s" "bm_flushed s"]
      by (subst bdm_load_from.simps) simp
    moreover have "source s c (z # zs) = source s c zs" using b True by (simp add: source_def enabled_def)
    ultimately show ?thesis using IH[of "k_hw (bm_k s)" "bm_mem s"] by simp
  next
    case False
    then have en: "enabled s z" using b by (simp add: enabled_def)
    from Cons.prems(2) have "serves s file z (c z)" by simp
    from bootdev_load_served[OF this, of buf] obtain r bs h where
      l: "bootdev_load z file buf s = Some (r, io h (place buf bs (bm_mem s))
          (if 0 < r then bm_flushed s @ [(buf, buf + of_int r)] else bm_flushed s) s)"
      "if c z \<noteq> [] then r = int (length (c z)) \<and> bs = c z else r \<le> 0" by blast
    have step: "bdm_load_from file buf (first_in (z # zs)) s = (if 0 < r
        then Some (r, io h (place buf bs (bm_mem s)) (bm_flushed s @ [(buf, buf + of_int r)]) s)
        else bdm_load_from file buf (first_in zs) (io h (place buf bs (bm_mem s)) (bm_flushed s) s))"
      using b False l(1) nx by (subst bdm_load_from.simps) simp
    show ?thesis
    proof (cases "c z = []")
      case True
      then have "source s c (z # zs) = source s c zs" "\<not> 0 < r" using l(2) by (simp_all add: source_def)
      with step IH[of h "place buf bs (bm_mem s)"] show ?thesis by simp
    next
      case False
      then have "source s c (z # zs) = Some z" "r = int (length (c z))" "bs = c z" "0 < r"
        using l(2) en by (simp_all add: source_def)
      with step show ?thesis by fastforce
    qed
  qed
qed

lemma file_size_from_list:
  assumes "bm_list s (ys @ zs)" "\<forall>z \<in> set zs. serves s file z (c z)"
  shows "\<exists>n h. file_size_from file (first_in zs) n0 s = Some (n, io h (bm_mem s) (bm_flushed s) s) \<and> n0 \<le> n \<and>
    (\<forall>z \<in> set zs. c z \<noteq> [] \<longrightarrow> int (length (c z)) \<le> n)"
  using assms
proof (induction zs arbitrary: s ys n0)
  case Nil
  have "file_size_from file (first_in []) n0 s = Some (n0, io (k_hw (bm_k s)) (bm_mem s) (bm_flushed s) s)"
    by (subst file_size_from.simps) simp
  then show ?case by fastforce
next
  case (Cons z zs)
  from Cons.prems(2) have "serves s file z (c z)" by simp
  from bootdev_get_file_size_served[OF this] obtain r h where
    g: "bootdev_get_file_size z file s = Some (r, io h (bm_mem s) (bm_flushed s) s)"
    "if c z \<noteq> [] then r = int (length (c z)) else r \<le> 0" by blast
  have "bm_list (io h (bm_mem s) (bm_flushed s) s) ((ys @ [z]) @ zs)"
    "\<forall>z \<in> set zs. serves (io h (bm_mem s) (bm_flushed s) s) file z (c z)" using Cons.prems by simp_all
  from Cons.IH[OF this, of "if r > n0 then r else n0"] obtain n h' where
    ih: "file_size_from file (first_in zs) (if r > n0 then r else n0) (io h (bm_mem s) (bm_flushed s) s) =
        Some (n, io h' (bm_mem s) (bm_flushed s) s)" "(if r > n0 then r else n0) \<le> n"
      "\<forall>z \<in> set zs. c z \<noteq> [] \<longrightarrow> int (length (c z)) \<le> n" by auto
  have "bootdev_next (io h (bm_mem s) (bm_flushed s) s) z = first_in zs"
    using Cons.prems(1) by (intro bootdev_next_list[of _ ys]) simp
  with ih(1) g(1) have "file_size_from file (first_in (z # zs)) n0 s = Some (n, io h' (bm_mem s) (bm_flushed s) s)"
    by (subst file_size_from.simps) (auto split: if_splits)
  moreover have "n0 \<le> n" "\<forall>x \<in> set (z # zs). c x \<noteq> [] \<longrightarrow> int (length (c x)) \<le> n"
    using ih(2,3) g(2) by (auto split: if_splits)
  ultimately show ?case by blast
qed

subsection \<open>Adding and removing\<close>

lemma bootdev_add_list:
  assumes "bm_list s xs" "bm_boot s a \<noteq> None" "k_dev (bm_k s) a \<noteq> None" "a \<notin> set (boot_list # xs)"
  shows "\<exists>s'. bootdev_add a s = Some s' \<and> bm_list s' (xs @ [a])"
  using list_add_tail_clist[of "bm_links s" boot_list xs a] assms
  by (auto simp: bm_list_def bootdev_add_def device_register_def)

lemma bootdev_remove_list:
  assumes "bm_list s (ys @ a # zs)"
  shows "\<exists>s'. bootdev_remove a s = Some s' \<and> bm_list s' (ys @ zs)"
  using list_del_clist[of "bm_links s" boot_list ys a zs] assms
  by (auto simp: bm_list_def bootdev_remove_def device_unregister_def)

end
