(* ===== verification/Bootdev_Claims.thy ===== *)
theory Bootdev_Claims
  imports Bootdev_Props
begin

text \<open>The properties of the boot device manager.\<close>

lemma set_priority_prio:
  assumes "bm_boot s a \<noteq> None"
  shows "prio (bm_upd a (bt_priority_update (\<lambda>_. p)) s) = (prio s)(a := p)"
  using assms by (auto simp: prio_def bm_upd_def fun_eq_iff)

lemma bm_upd_list: "bm_list (bm_upd a f s) xs = bm_list s xs"
  by (auto simp: bm_upd_def bm_list_def)

lemma prio_links [simp]: "prio (s\<lparr>bm_links := l\<rparr>) = prio s"
  by (simp add: prio_def fun_eq_iff)

lemma set_priority_unknown:
  "bm_list s xs \<Longrightarrow> device_find_by_name (bm_k s) xs name = None \<Longrightarrow> bdm_set_priority name p s = Some (Some ENODEV, s)"
  by (simp add: bdm_set_priority_def bootdev_find_by_name_list)

lemma set_priority_known:
  assumes "bm_list s xs" "device_find_by_name (bm_k s) xs name = Some a"
  shows "\<exists>s' ys. bdm_set_priority name p s = Some (None, s') \<and> bm_list s' ys \<and> mset ys = mset xs \<and>
    prio s' = (prio s)(a := p) \<and> sorted (map (prio s') ys) \<and>
    serves s' = serves s \<and> enabled s' = enabled s \<and> bm_mem s' = bm_mem s \<and> bm_k s' = bm_k s"
proof -
  let ?f = "bm_upd a (bt_priority_update (\<lambda>_. p)) s"
  have "a \<in> set xs" using assms(2) by (auto simp: device_find_by_name_def find_Some_iff)
  then have "bm_boot s a \<noteq> None" using assms(1) by (auto simp: bm_list_def)
  note pr = set_priority_prio[OF this, of p]
  have "bm_list ?f ([] @ xs)" using assms(1) by (simp add: bm_upd_list)
  from sort_from_list[OF this] bootdev_first_list[of ?f xs] this
  obtain l ys where l: "sort_device ?f = Some (?f\<lparr>bm_links := l\<rparr>)"
    "bm_list (?f\<lparr>bm_links := l\<rparr>) ys" "mset ys = mset xs" "sorted (map (prio ?f) ys)"
    by (auto simp: sort_device_def)
  have "bdm_set_priority name p s = Some (None, ?f\<lparr>bm_links := l\<rparr>)"
    using assms l(1) by (simp add: bdm_set_priority_def bootdev_find_by_name_list)
  moreover have "loader (?f\<lparr>bm_links := l\<rparr>) = loader s" "sizer (?f\<lparr>bm_links := l\<rparr>) = sizer s"
    "enabled (?f\<lparr>bm_links := l\<rparr>) = enabled s"
    by (auto simp: loader_def sizer_def enabled_def bm_upd_def fun_eq_iff split: bind_splits)
  moreover from this have "serves (?f\<lparr>bm_links := l\<rparr>) = serves s"
    by (simp add: serves_def bm_upd_def fun_eq_iff)
  moreover have "bm_mem (?f\<lparr>bm_links := l\<rparr>) = bm_mem s" "bm_k (?f\<lparr>bm_links := l\<rparr>) = bm_k s"
    by (simp_all add: bm_upd_def)
  ultimately show ?thesis using l(2-4) pr by (metis prio_links)
qed

text \<open>
  C24: Setting a priority sorts the boot devices. On a well-formed device list, \<open>bdm_set_priority\<close>
  returns: the selection sort on the linked list, which swaps entries by relinking them, ends and
  follows no NULL link. When no device has the name (or alias), \<open>ENODEV\<close> is returned and nothing
  changes. Otherwise the first device with that name gets the priority, no other priority and no \<open>disabled\<close>
  flag changes, and the list afterwards is well-formed again, has the same devices, and is in ascending order of
  the priorities.
\<close>
theorem bdm_set_priority_sorts:
  assumes "bm_list s xs"
  shows "\<exists>r s'. bdm_set_priority name p s = Some (r, s') \<and>
    (case device_find_by_name (bm_k s) xs name of
       None \<Rightarrow> r = Some ENODEV \<and> s' = s
     | Some a \<Rightarrow> r = None \<and> prio s' = (prio s)(a := p) \<and> enabled s' = enabled s \<and>
         (\<exists>ys. bm_list s' ys \<and> mset ys = mset xs \<and> sorted (map (prio s') ys)))"
proof (cases "device_find_by_name (bm_k s) xs name")
  case None
  then show ?thesis using set_priority_unknown[OF assms] by simp
next
  case (Some a)
  from set_priority_known[OF assms this, of p] obtain s' ys where
    "bdm_set_priority name p s = Some (None, s')" "bm_list s' ys" "mset ys = mset xs"
    "prio s' = (prio s)(a := p)" "sorted (map (prio s') ys)" "enabled s' = enabled s" by blast
  with Some show ?thesis by auto
qed

text \<open>
  C25: A file is loaded from the best boot device. Let the driver of each device serve the file with
  contents \<open>c a\<close> (empty where the device \<open>a\<close> does not have it). After a priority has been set
  successfully, \<open>bdm_load\<close> returns. When some enabled device has the file, it comes from one of them
  of smallest priority: its contents, of less than \<open>2^64\<close> bytes, are at the buffer, whatever
  devices tried before have written there, the result is their length, and exactly their cache
  range is flushed; otherwise the result is \<open>-EIO\<close> and nothing is flushed. The result never
  exceeds what \<open>bdm_get_file_size\<close> says, so a buffer of that size takes the file from whatever
  device it comes.
\<close>
theorem bdm_load_prefers:
  assumes "bm_list s xs" "bdm_set_priority name p s = Some (None, s1)"
    "\<forall>a \<in> set xs. serves s file a (c a) \<and> length (c a) < 2 ^ 64"
  shows "\<exists>r s2 n s3. bdm_load file buf s1 = Some (r, s2) \<and> bdm_get_file_size file s1 = Some (n, s3) \<and> r \<le> n \<and>
    (if \<exists>a \<in> set xs. enabled s a \<and> c a \<noteq> []
     then \<exists>a \<in> set xs. enabled s a \<and> c a \<noteq> [] \<and> r = int (length (c a)) \<and>
       (\<forall>b \<in> set xs. enabled s b \<and> c b \<noteq> [] \<longrightarrow> prio s1 a \<le> prio s1 b) \<and>
       holds (bm_mem s2) buf (c a) \<and> bm_flushed s2 = bm_flushed s1 @ [(buf, buf + of_int r)]
     else r = - errno_val EIO \<and> bm_flushed s2 = bm_flushed s1)"
proof -
  obtain a0 where a0: "device_find_by_name (bm_k s) xs name = Some a0"
    using set_priority_unknown[OF assms(1)] assms(2) by (cases "device_find_by_name (bm_k s) xs name") auto
  from set_priority_known[OF assms(1) this, of p] assms(2) obtain ys where l: "bm_list s1 ys" "mset ys = mset xs"
    "sorted (map (prio s1) ys)" and same: "serves s1 = serves s" "enabled s1 = enabled s" by auto
  have set: "set ys = set xs" using l(2) by (metis set_mset_mset)
  have sv: "\<forall>a \<in> set ys. serves s1 file a (c a)" using assms(3) set by (simp add: same)
  have l0: "bm_list s1 ([] @ ys)" using l(1) by simp
  from bdm_load_from_list[OF l0 sv, folded bootdev_first_list[OF l(1)], folded bdm_load_def]
  obtain r h m fl where run: "bdm_load file buf s1 = Some (r, io h m fl s1)"
    and res: "case source s1 c ys of
       None \<Rightarrow> r = - errno_val EIO \<and> fl = bm_flushed s1
     | Some a \<Rightarrow> r = int (length (c a)) \<and> (\<exists>m0. m = place buf (c a) m0) \<and>
         fl = bm_flushed s1 @ [(buf, buf + of_int r)]" by blast
  from file_size_from_list[OF l0 sv, folded bootdev_first_list[OF l(1)], of "- errno_val ENOENT", folded bdm_get_file_size_def]
  obtain n h' where size: "bdm_get_file_size file s1 = Some (n, io h' (bm_mem s1) (bm_flushed s1) s1)"
    "- errno_val ENOENT \<le> n" "\<forall>z \<in> set ys. c z \<noteq> [] \<longrightarrow> int (length (c z)) \<le> n" by blast
  show ?thesis
  proof (cases "source s1 c ys")
    case None
    then have "\<not> (\<exists>a \<in> set xs. enabled s a \<and> c a \<noteq> [])"
      using set by (auto simp: source_def find_None_iff same)
    with res None run size(1,2) show ?thesis by (intro exI[of _ r] exI[of _ "io h m fl s1"] exI[of _ n] exI[of _ "io h' (bm_mem s1) (bm_flushed s1) s1"] conjI) auto
  next
    case (Some a)
    then have "\<exists>i < length ys. (enabled s (ys ! i) \<and> c (ys ! i) \<noteq> []) \<and> a = ys ! i \<and>
        (\<forall>j < i. \<not> (enabled s (ys ! j) \<and> c (ys ! j) \<noteq> []))"
      unfolding source_def find_Some_iff same .
    then obtain i where i: "i < length ys" "enabled s a" "c a \<noteq> []" "a = ys ! i"
      "\<forall>j < i. \<not> (enabled s (ys ! j) \<and> c (ys ! j) \<noteq> [])" by metis
    have a: "a \<in> set xs" unfolding i(4) set[symmetric] by (rule nth_mem[OF i(1)])
    have best: "prio s1 a \<le> prio s1 b" if "b \<in> set xs" "enabled s b" "c b \<noteq> []" for b
    proof -
      from that(1) set obtain j where j: "j < length ys" "b = ys ! j" by (metis in_set_conv_nth)
      then have "i \<le> j" using i(5) that(2,3) by (meson not_le)
      then show ?thesis using l(3) i(4) j by (auto simp: sorted_iff_nth_mono)
    qed
    have "holds m buf (c a)" using res Some assms(3) a by (auto intro: holds_place)
    moreover have "r \<le> n" using res Some size(3) i(3) a set by auto
    ultimately show ?thesis
      using res Some run size(1) a best i(2,3) by (intro exI[of _ r] exI[of _ "io h m fl s1"] exI[of _ n] exI[of _ "io h' (bm_mem s1) (bm_flushed s1) s1"] conjI) auto
  qed
qed

text \<open>Two devices with a file, of lengths 5 and 7; the links are those of a list.\<close>

definition demo_boot :: "(nat, unit) bdm" where
  "demo_boot = \<lparr>
     bm_k = \<lparr>k_heap = \<lparr>h_ok = \<lambda>_. True, h_calls = 0, h_live = 2\<rparr>, k_next = 3,
       k_dev = [1 \<mapsto> \<lparr>d_name = ''boot:sd0'', d_alias = ''sd0'', d_status = DEVICE_STATUS_OK\<rparr>,
                2 \<mapsto> \<lparr>d_name = ''boot:flash0'', d_alias = ''flash0'', d_status = DEVICE_STATUS_OK\<rparr>],
       k_global = [1, 2], k_blk = Map.empty, k_blk_list = [], k_blk_count = 0, k_mtd = Map.empty, k_mtd_list = [],
       k_mtd_count = 0, k_nvmem = Map.empty, k_nvmem_list = [], k_nvmem_count = 0, k_serial = Map.empty,
       k_serial_list = [], k_serial_count = 0, k_serial_stdio = None, k_blk_ops = \<lambda>_. \<lparr>io_read = None, io_write = None\<rparr>,
       k_mtd_ops = \<lambda>_. \<lparr>io_read = None, io_write = None\<rparr>, k_nvmem_ops = \<lambda>_. \<lparr>io_read = None, io_write = None\<rparr>,
       k_serial_ops = \<lambda>_. \<lparr>sio_input = None, sio_output = None, sio_set_speed = None\<rparr>, k_hw = 0\<rparr>,
     bm_links = \<lparr>l_next = [0 \<mapsto> 1, 1 \<mapsto> 2, 2 \<mapsto> 0], l_prev = [0 \<mapsto> 2, 1 \<mapsto> 0, 2 \<mapsto> 1]\<rparr>,
     bm_boot = [1 \<mapsto> \<lparr>bt_ops = Some 5, bt_size = 64, bt_priority = 0, bt_disabled = 0, bt_data = None\<rparr>,
                2 \<mapsto> \<lparr>bt_ops = Some 7, bt_size = 64, bt_priority = 0, bt_disabled = 0, bt_data = None\<rparr>],
     bm_ops = \<lambda>i. \<lparr>bo_load = Some (\<lambda>data file k. Some ((int i, replicate i 42), k\<lparr>k_hw := k_hw k + 1\<rparr>)),
                    bo_get_file_size = Some (\<lambda>data file k. Some (int i, k))\<rparr>,
     bm_mem = \<lambda>_. 0, bm_flushed = []\<rparr>"

lemma demo_boot_list: "bm_list demo_boot [1, 2]"
  by (simp add: bm_list_def demo_boot_def clist_def boot_list_def)

lemma demo_boot_find: "device_find_by_name (bm_k demo_boot) [1, 2] ''flash0'' = Some 2"
  by (simp add: demo_boot_def device_find_by_name_def device_matches_def)

theorem bdm_set_priority_sorts_witness:
  "\<exists>s' ys. bdm_set_priority ''flash0'' (-1) demo_boot = Some (None, s') \<and> bm_list s' ys \<and>
     mset ys = mset [1, 2] \<and> sorted (map (prio s') ys)"
  using bdm_set_priority_sorts[OF demo_boot_list, of "''flash0''" "-1"] unfolding demo_boot_find option.case by blast

theorem bdm_load_prefers_witness:
  "\<exists>s1 s2. bdm_set_priority ''flash0'' (-1) demo_boot = Some (None, s1) \<and>
     bdm_load ''kernel'' 16 s1 = Some (7, s2) \<and> holds (bm_mem s2) 16 (replicate 7 42) \<and>
     bm_flushed s2 = bm_flushed s1 @ [(16, 23)]"
proof -
  obtain s1 where s1: "bdm_set_priority ''flash0'' (-1) demo_boot = Some (None, s1)"
    "prio s1 = (prio demo_boot)(2 := -1)"
    using set_priority_known[OF demo_boot_list demo_boot_find, of "-1"] by blast
  define c :: "addr \<Rightarrow> u8 list" where "c = (\<lambda>a. replicate (if a = 1 then 5 else 7) 42)"
  have sv: "\<forall>a \<in> set [1, 2]. serves demo_boot ''kernel'' a (c a) \<and> length (c a) < 2 ^ 64"
    by (auto simp: serves_def demo_boot_def loader_def sizer_def c_def set_hw_def)
  have en: "enabled demo_boot 1" "enabled demo_boot 2" "prio demo_boot 1 = 0"
    by (simp_all add: enabled_def prio_def demo_boot_def)
  have some: "\<exists>a \<in> set [1, 2]. enabled demo_boot a \<and> c a \<noteq> []" using en by (simp add: c_def)
  from bdm_load_prefers[OF demo_boot_list s1(1) sv, of 16, unfolded if_P[OF some]]
  obtain r s2 a where r: "bdm_load ''kernel'' 16 s1 = Some (r, s2)" "a \<in> set [1, 2]" "r = int (length (c a))"
    "\<forall>b \<in> set [1, 2]. enabled demo_boot b \<and> c b \<noteq> [] \<longrightarrow> prio s1 a \<le> prio s1 b"
    "holds (bm_mem s2) 16 (c a)" "bm_flushed s2 = bm_flushed s1 @ [(16, 16 + of_int r)]" by blast
  have "a = 2" using r(2,4) en s1(2) by (auto simp: c_def)
  then have "r = 7" "c a = replicate 7 42" using r(3) by (simp_all add: c_def)
  with r s1(1) show ?thesis by auto
qed

end
