(* ===== verification/Ini.thy ===== *)
theory Ini
  imports Libc_String
begin

text \<open>
  The INI parser, \<open>lib/ini/ini.c\<close>, with the settings of \<open>include/lib/ini.h\<close>: lines in a buffer of
  200 bytes, multi-line values, byte order mark, inline comments after \<open>;\<close>, no line number for the
  handler, parsing goes on after an error.

  A string is the list of its bytes before the NUL; a pointer into the line buffer is a suffix of
  the line. The handler works on a state of its own and returns whether it accepts the entry.
\<close>

subsection \<open>Strings\<close>

definition rstrip :: "u8 list \<Rightarrow> u8 list" where
  "rstrip s = rev (dropWhile isspace (rev s))"

definition lskip :: "u8 list \<Rightarrow> u8 list" where
  "lskip s = dropWhile isspace s"

text \<open>What is before the place \<open>find_chars_or_comment\<close> returns, and what starts there.\<close>

fun find_chars_or_comment :: "u8 list \<Rightarrow> bool \<Rightarrow> u8 list \<Rightarrow> u8 list \<times> u8 list" where
  "find_chars_or_comment chars was_space [] = ([], [])"
| "find_chars_or_comment chars was_space (c # cs) =
     (if c \<in> set chars \<or> (was_space \<and> c = 59) then ([], c # cs)
      else (case find_chars_or_comment chars (isspace c) cs of (before, from) \<Rightarrow> (c # before, from)))"

definition strncpy0 :: "u8 list \<Rightarrow> nat \<Rightarrow> u8 list" where
  "strncpy0 src n = take (n - 1) src"

definition MAX_SECTION :: nat where "MAX_SECTION = 50"
definition MAX_NAME :: nat where "MAX_NAME = 50"
definition INI_MAX_LINE :: nat where "INI_MAX_LINE = 200"

text \<open>
  \<open>ini_reader_string\<close> with \<open>num - 1\<close> rounds left: the bytes up to the end of the line, which is
  part of it, and the rest of the src.
\<close>

fun ini_reader_string :: "nat \<Rightarrow> u8 list \<Rightarrow> u8 list \<times> u8 list" where
  "ini_reader_string 0 src = ([], src)"
| "ini_reader_string (Suc k) [] = ([], [])"
| "ini_reader_string (Suc k) (c # cs) =
     (if c = 10 \<or> c = 13 then ([c], cs)
      else (case ini_reader_string k cs of (line, rest) \<Rightarrow> (c # line, rest)))"

subsection \<open>A line\<close>

type_synonym 'u ini_handler = "'u \<Rightarrow> u8 list \<Rightarrow> u8 list \<Rightarrow> u8 list \<Rightarrow> bool \<times> 'u"

record 'u ini_st =
  is_section :: "u8 list"
  is_prev_name :: "u8 list"
  is_error :: nat
  is_user :: 'u

definition ini_error :: "nat \<Rightarrow> 'u ini_st \<Rightarrow> 'u ini_st" where
  "ini_error lineno st = (if is_error st = 0 then st\<lparr>is_error := lineno\<rparr> else st)"

definition ini_call :: "'u ini_handler \<Rightarrow> nat \<Rightarrow> u8 list \<Rightarrow> u8 list \<Rightarrow> 'u ini_st \<Rightarrow> 'u ini_st" where
  "ini_call handler lineno name value st =
     (case handler (is_user st) (is_section st) name value of
        (ok, u) \<Rightarrow> (let st1 = st\<lparr>is_user := u\<rparr> in if \<not> ok then ini_error lineno st1 else st1))"

definition has_bom :: "nat \<Rightarrow> u8 list \<Rightarrow> bool" where
  "has_bom lineno line \<longleftrightarrow> lineno = 1 \<and> take 3 line = [0xEF, 0xBB, 0xBF]"

definition ini_line :: "'u ini_handler \<Rightarrow> nat \<Rightarrow> u8 list \<Rightarrow> 'u ini_st \<Rightarrow> 'u ini_st" where
  "ini_line handler lineno line st =
     (let stripped = rstrip (if has_bom lineno line then drop 3 line else line);
          start = lskip stripped;
          moved = (has_bom lineno line \<or> start \<noteq> stripped)
      in case start of
           [] \<Rightarrow> st
         | c # cs \<Rightarrow>
             (if c = 59 \<or> c = 35 then st
              else if is_prev_name st \<noteq> [] \<and> moved
              then ini_call handler lineno (is_prev_name st) (rstrip (fst (find_chars_or_comment [] False start))) st
              else if c = 91
              then (case find_chars_or_comment [93] False cs of
                      (before, e # _) \<Rightarrow>
                        (if e = 93 then st\<lparr>is_section := strncpy0 before MAX_SECTION, is_prev_name := []\<rparr>
                         else ini_error lineno st)
                    | (before, []) \<Rightarrow> ini_error lineno st)
              else
                (case find_chars_or_comment [61, 58] False start of
                   (before, e # after) \<Rightarrow>
                     (if e = 61 \<or> e = 58
                      then
                        (let name = rstrip before;
                             value = rstrip (lskip (fst (find_chars_or_comment [] False after)))
                         in ini_call handler lineno name value (st\<lparr>is_prev_name := strncpy0 name MAX_NAME\<rparr>))
                      else ini_error lineno st)
                 | (before, []) \<Rightarrow> ini_error lineno st)))"

subsection \<open>The text\<close>

lemma ini_reader_string_shorter:
  "src \<noteq> [] \<Longrightarrow> length (snd (ini_reader_string (Suc k) src)) < length src"
proof (induction "Suc k" src arbitrary: k rule: ini_reader_string.induct)
  case (3 k c cs)
  show ?case
  proof (cases k)
    case (Suc k')
    with 3 show ?thesis by (cases cs) (fastforce split: prod.splits)+
  qed (simp split: prod.splits)
qed simp

lemma ini_reader_string_line:
  assumes "src \<noteq> []" "(line, rest) = ini_reader_string (INI_MAX_LINE - 1) src"
  shows "length rest < length src"
proof -
  have "INI_MAX_LINE - 1 = Suc 198" by (simp add: INI_MAX_LINE_def)
  with assms(2) have "rest = snd (ini_reader_string (Suc 198) src)" by (metis snd_conv)
  then show ?thesis using ini_reader_string_shorter[OF assms(1), of 198] by (simp only:)
qed

function ini_parse_stream :: "'u ini_handler \<Rightarrow> nat \<Rightarrow> u8 list \<Rightarrow> 'u ini_st \<Rightarrow> 'u ini_st" where
  "ini_parse_stream handler lineno src st =
     (if src = [] then st
      else (case ini_reader_string (INI_MAX_LINE - 1) src of
              (line, rest) \<Rightarrow>
                ini_parse_stream handler (lineno + 1) rest (ini_line handler (lineno + 1) line st)))"
  by pat_completeness auto
termination
  by (relation "measure (\<lambda>(_, _, src, _). length src)") (auto intro: ini_reader_string_line)

declare ini_parse_stream.simps [simp del]

definition ini_parse_string :: "u8 list \<Rightarrow> 'u ini_handler \<Rightarrow> 'u \<Rightarrow> nat \<times> 'u" where
  "ini_parse_string src handler user =
     (let st = ini_parse_stream handler 0 src \<lparr>is_section = [], is_prev_name = [], is_error = 0, is_user = user\<rparr>
      in (is_error st, is_user st))"

end
