(* ===== verification/Sha256.thy ===== *)
theory Sha256
  imports Prelude
begin

text \<open>
  SHA-256 as the boot loader computes it: \<open>lib/hash/sha256.c\<close> with the \<open>HASH_PROCESS\<close> loop of
  \<open>include/lib/hash/tomcrypt_private.h\<close> and the state of \<open>tomcrypt_hash.h\<close>. Arrays are lists of
  their fixed length; \<open>curlen\<close> and \<open>length\<close> keep their width. The input is the list of its bytes.
\<close>

subsection \<open>Bytes and words\<close>

definition LOAD32H :: "u8 list \<Rightarrow> nat \<Rightarrow> u32" where
  "LOAD32H y i =
     push_bit 24 (ucast (y ! i)) OR push_bit 16 (ucast (y ! (i + 1))) OR
     push_bit 8 (ucast (y ! (i + 2))) OR ucast (y ! (i + 3))"

definition STORE32H :: "u32 \<Rightarrow> u8 list" where
  "STORE32H x = [ucast (drop_bit 24 x), ucast (drop_bit 16 x), ucast (drop_bit 8 x), ucast x]"

definition STORE64H :: "u64 \<Rightarrow> u8 list" where
  "STORE64H x =
     [ucast (drop_bit 56 x), ucast (drop_bit 48 x), ucast (drop_bit 40 x), ucast (drop_bit 32 x),
      ucast (drop_bit 24 x), ucast (drop_bit 16 x), ucast (drop_bit 8 x), ucast x]"

definition ROR :: "u32 \<Rightarrow> nat \<Rightarrow> u32" where
  "ROR x y = drop_bit (y mod 32) x OR push_bit ((32 - y mod 32) mod 32) x"

definition Ch :: "u32 \<Rightarrow> u32 \<Rightarrow> u32 \<Rightarrow> u32" where
  "Ch x y z = z XOR (x AND (y XOR z))"

definition Maj :: "u32 \<Rightarrow> u32 \<Rightarrow> u32 \<Rightarrow> u32" where
  "Maj x y z = ((x OR y) AND z) OR (x AND y)"

definition Sigma0 :: "u32 \<Rightarrow> u32" where "Sigma0 x = ROR x 2 XOR ROR x 13 XOR ROR x 22"
definition Sigma1 :: "u32 \<Rightarrow> u32" where "Sigma1 x = ROR x 6 XOR ROR x 11 XOR ROR x 25"
definition Gamma0 :: "u32 \<Rightarrow> u32" where "Gamma0 x = ROR x 7 XOR ROR x 18 XOR drop_bit 3 x"
definition Gamma1 :: "u32 \<Rightarrow> u32" where "Gamma1 x = ROR x 17 XOR ROR x 19 XOR drop_bit 10 x"

subsection \<open>The compression\<close>

text \<open>The last two arguments of the 64 \<open>RND\<close> lines: their number and their constant.\<close>

definition sha256_rounds :: "(nat \<times> u32) list" where
  "sha256_rounds = [
     (0, 0x428a2f98), (1, 0x71374491), (2, 0xb5c0fbcf), (3, 0xe9b5dba5),
     (4, 0x3956c25b), (5, 0x59f111f1), (6, 0x923f82a4), (7, 0xab1c5ed5),
     (8, 0xd807aa98), (9, 0x12835b01), (10, 0x243185be), (11, 0x550c7dc3),
     (12, 0x72be5d74), (13, 0x80deb1fe), (14, 0x9bdc06a7), (15, 0xc19bf174),
     (16, 0xe49b69c1), (17, 0xefbe4786), (18, 0x0fc19dc6), (19, 0x240ca1cc),
     (20, 0x2de92c6f), (21, 0x4a7484aa), (22, 0x5cb0a9dc), (23, 0x76f988da),
     (24, 0x983e5152), (25, 0xa831c66d), (26, 0xb00327c8), (27, 0xbf597fc7),
     (28, 0xc6e00bf3), (29, 0xd5a79147), (30, 0x06ca6351), (31, 0x14292967),
     (32, 0x27b70a85), (33, 0x2e1b2138), (34, 0x4d2c6dfc), (35, 0x53380d13),
     (36, 0x650a7354), (37, 0x766a0abb), (38, 0x81c2c92e), (39, 0x92722c85),
     (40, 0xa2bfe8a1), (41, 0xa81a664b), (42, 0xc24b8b70), (43, 0xc76c51a3),
     (44, 0xd192e819), (45, 0xd6990624), (46, 0xf40e3585), (47, 0x106aa070),
     (48, 0x19a4c116), (49, 0x1e376c08), (50, 0x2748774c), (51, 0x34b0bcb5),
     (52, 0x391c0cb3), (53, 0x4ed8aa4a), (54, 0x5b9cca4f), (55, 0x682e6ff3),
     (56, 0x748f82ee), (57, 0x78a5636f), (58, 0x84c87814), (59, 0x8cc70208),
     (60, 0x90befffa), (61, 0xa4506ceb), (62, 0xbef9a3f7), (63, 0xc67178f2)]"

definition sha256_K :: "u32 list" where
  "sha256_K = map snd sha256_rounds"

text \<open>
  The lines name the registers of the array \<open>S\<close> in an order that turns by one with every line:
  \<open>reg j i\<close> is the index of the \<open>j\<close>-th register argument of line \<open>i\<close>.
\<close>

definition reg :: "nat \<Rightarrow> nat \<Rightarrow> nat" where
  "reg j i = (j + 8 - i mod 8) mod 8"

definition RND :: "u32 list \<Rightarrow> nat \<Rightarrow> u32 list \<Rightarrow> u32 list" where
  "RND W i S =
     (let a = S ! reg 0 i; b = S ! reg 1 i; c = S ! reg 2 i; d = S ! reg 3 i;
          e = S ! reg 4 i; f = S ! reg 5 i; g = S ! reg 6 i; h = S ! reg 7 i;
          t0 = h + Sigma1 e + Ch e f g + sha256_K ! i + W ! i;
          t1 = Sigma0 a + Maj a b c
      in S[reg 3 i := d + t0, reg 7 i := t0 + t1])"

definition fill_W :: "u32 list \<Rightarrow> nat \<Rightarrow> u32 list" where
  "fill_W W i = W @ [Gamma1 (W ! (i - 2)) + W ! (i - 7) + Gamma0 (W ! (i - 15)) + W ! (i - 16)]"

definition s_sha256_compress :: "u32 list \<Rightarrow> u8 list \<Rightarrow> u32 list" where
  "s_sha256_compress st buf =
     (let W = foldl fill_W (map (\<lambda>i. LOAD32H buf (4 * i)) [0..<16]) [16..<64];
          S = foldl (\<lambda>S i. RND W i S) st [0..<64]
      in map (\<lambda>i. st ! i + S ! i) [0..<8])"

subsection \<open>The hash\<close>

record sha256_state =
  h_length :: u64
  h_state :: "u32 list"
  h_curlen :: u32
  h_buf :: "u8 list"

datatype crypt_err = CRYPT_INVALID_ARG | CRYPT_HASH_OVERFLOW

text \<open>The buffer is not initialised.\<close>

definition sha256_init :: "u8 list \<Rightarrow> sha256_state" where
  "sha256_init garbage =
     \<lparr>h_length = 0,
      h_state = [0x6A09E667, 0xBB67AE85, 0x3C6EF372, 0xA54FF53A, 0x510E527F, 0x9B05688C, 0x1F83D9AB, 0x5BE0CD19],
      h_curlen = 0, h_buf = garbage\<rparr>"

definition put_buf :: "sha256_state \<Rightarrow> u8 list \<Rightarrow> sha256_state" where
  "put_buf md bs =
     (let c = unat (h_curlen md)
      in md\<lparr>h_buf := take c (h_buf md) @ bs @ drop (c + length bs) (h_buf md),
            h_curlen := h_curlen md + of_nat (length bs)\<rparr>)"

definition compress_buf :: "sha256_state \<Rightarrow> sha256_state" where
  "compress_buf md = md\<lparr>h_state := s_sha256_compress (h_state md) (h_buf md)\<rparr>"

function sha256_loop :: "sha256_state \<Rightarrow> u8 list \<Rightarrow> sha256_state" where
  "sha256_loop md inp =
     (if inp = [] then md
      else if h_curlen md = 0 \<and> length inp \<ge> 64
      then sha256_loop
             (md\<lparr>h_state := s_sha256_compress (h_state md) (take 64 inp), h_length := h_length md + 512\<rparr>)
             (drop 64 inp)
      else
        (let n = min (length inp) (unat (64 - h_curlen md));
             md1 = put_buf md (take n inp)
         in if h_curlen md1 = 64
            then sha256_loop ((compress_buf md1)\<lparr>h_length := h_length md1 + 512, h_curlen := 0\<rparr>) (drop n inp)
            else sha256_loop md1 (drop n inp)))"
  by pat_completeness auto

termination
proof (relation "measure (\<lambda>(md, inp). 2 * length inp + (if h_curlen md = 64 then 1 else 0))"; (simp; fail)?)
  fix md :: sha256_state and inp :: "u8 list" and n md1
  assume a: "inp \<noteq> []" "n = min (length inp) (unat (64 - h_curlen md))" "md1 = put_buf md (take n inp)"
  have pos: "0 < n" if "h_curlen md \<noteq> 64"
  proof -
    have "64 - h_curlen md \<noteq> 0" using that by simp
    then have "unat (64 - h_curlen md) \<noteq> 0" by (metis unat_eq_0)
    then show ?thesis using a(1,2) by simp
  qed
  show "((md1, drop n inp), md, inp) \<in> measure (\<lambda>(md, inp). 2 * length inp + (if h_curlen md = 64 then 1 else 0))"
    if "h_curlen md1 \<noteq> 64"
  proof (cases "h_curlen md = 64")
    case True
    then have "n = 0" using a(2) by simp
    then show ?thesis using that a(3) True by (simp add: put_buf_def)
  next
    case False
    with pos a(1) that show ?thesis by simp
  qed
  show "(((compress_buf md1)\<lparr>h_length := h_length md1 + 512, h_curlen := 0\<rparr>, drop n inp), md, inp)
      \<in> measure (\<lambda>(md, inp). 2 * length inp + (if h_curlen md = 64 then 1 else 0))"
    using pos a(1) by (cases "h_curlen md = 64") auto
qed

declare sha256_loop.simps [simp del]

definition sha256_process :: "sha256_state \<Rightarrow> u8 list \<Rightarrow> crypt_err + sha256_state" where
  "sha256_process md inp =
     (if h_curlen md > 64 then Inl CRYPT_INVALID_ARG
      else if h_length md + of_nat (length inp) * 8 < h_length md then Inl CRYPT_HASH_OVERFLOW
      else Inr (sha256_loop md inp))"

text \<open>\<open>while (curlen < to) buf[curlen++] = 0\<close>, as the number of its rounds.\<close>

fun zero_rounds :: "nat \<Rightarrow> sha256_state \<Rightarrow> sha256_state" where
  "zero_rounds 0 md = md"
| "zero_rounds (Suc k) md = zero_rounds k (put_buf md [0])"

definition zero_to :: "nat \<Rightarrow> sha256_state \<Rightarrow> sha256_state" where
  "zero_to to md = zero_rounds (to - unat (h_curlen md)) md"

definition sha256_done :: "sha256_state \<Rightarrow> crypt_err + u8 list" where
  "sha256_done md =
     (if h_curlen md \<ge> 64 then Inl CRYPT_INVALID_ARG
      else
        (let md1 = put_buf (md\<lparr>h_length := h_length md + ucast (h_curlen md * 8)\<rparr>) [0x80];
             md2 = (if h_curlen md1 > 56 then (compress_buf (zero_to 64 md1))\<lparr>h_curlen := 0\<rparr> else md1);
             md3 = zero_to 56 md2;
             md4 = compress_buf (md3\<lparr>h_buf := take 56 (h_buf md3) @ STORE64H (h_length md3)\<rparr>)
         in Inr (concat (map STORE32H (h_state md4)))))"

definition do_sha256 :: "u8 list \<Rightarrow> u8 list \<Rightarrow> crypt_err + u8 list" where
  "do_sha256 garbage msg =
     (case sha256_process (sha256_init garbage) msg of
        Inl e \<Rightarrow> Inl e
      | Inr md \<Rightarrow> sha256_done md)"

end
