(* ===== verification/Sm3.thy ===== *)
theory Sm3
  imports Sha256
begin

text \<open>
  SM3, \<open>lib/hash/sm3.c\<close>, with the curve constants of \<open>lib/hash/ec.c\<close> that the hash of an SM2 key
  takes in. The registers of the unrolled rounds turn as those of SHA-256 (\<open>reg\<close>).
\<close>

subsection \<open>The compression\<close>

definition ROL :: "u32 \<Rightarrow> nat \<Rightarrow> u32" where
  "ROL x y = push_bit (y mod 32) x OR drop_bit ((32 - y mod 32) mod 32) x"

definition P0 :: "u32 \<Rightarrow> u32" where "P0 x = x XOR ROL x 9 XOR ROL x 17"
definition P1 :: "u32 \<Rightarrow> u32" where "P1 x = x XOR ROL x 15 XOR ROL x 23"

text \<open>\<open>FF00\<close> and \<open>FF16\<close>, \<open>GG00\<close> and \<open>GG16\<close>; the first argument is the number of the round.\<close>

definition FF :: "nat \<Rightarrow> u32 \<Rightarrow> u32 \<Rightarrow> u32 \<Rightarrow> u32" where
  "FF j x y z = (if j < 16 then x XOR y XOR z else (x AND y) OR (x AND z) OR (y AND z))"

definition GG :: "nat \<Rightarrow> u32 \<Rightarrow> u32 \<Rightarrow> u32 \<Rightarrow> u32" where
  "GG j x y z = (if j < 16 then x XOR y XOR z else ((y XOR z) AND x) XOR z)"

definition sm3_K :: "u32 list" where
  "sm3_K =
    [0x79cc4519, 0xf3988a32, 0xe7311465, 0xce6228cb, 0x9cc45197, 0x3988a32f,
     0x7311465e, 0xe6228cbc, 0xcc451979, 0x988a32f3, 0x311465e7, 0x6228cbce,
     0xc451979c, 0x88a32f39, 0x11465e73, 0x228cbce6, 0x9d8a7a87, 0x3b14f50f,
     0x7629ea1e, 0xec53d43c, 0xd8a7a879, 0xb14f50f3, 0x629ea1e7, 0xc53d43ce,
     0x8a7a879d, 0x14f50f3b, 0x29ea1e76, 0x53d43cec, 0xa7a879d8, 0x4f50f3b1,
     0x9ea1e762, 0x3d43cec5, 0x7a879d8a, 0xf50f3b14, 0xea1e7629, 0xd43cec53,
     0xa879d8a7, 0x50f3b14f, 0xa1e7629e, 0x43cec53d, 0x879d8a7a, 0x0f3b14f5,
     0x1e7629ea, 0x3cec53d4, 0x79d8a7a8, 0xf3b14f50, 0xe7629ea1, 0xcec53d43,
     0x9d8a7a87, 0x3b14f50f, 0x7629ea1e, 0xec53d43c, 0xd8a7a879, 0xb14f50f3,
     0x629ea1e7, 0xc53d43ce, 0x8a7a879d, 0x14f50f3b, 0x29ea1e76, 0x53d43cec,
     0xa7a879d8, 0x4f50f3b1, 0x9ea1e762, 0x3d43cec5]"

definition sm3_R :: "u32 list \<Rightarrow> nat \<Rightarrow> u32 list \<Rightarrow> u32 list" where
  "sm3_R W j S =
     (let A = S ! reg 0 j; B = S ! reg 1 j; C = S ! reg 2 j; D = S ! reg 3 j;
          E = S ! reg 4 j; F = S ! reg 5 j; G = S ! reg 6 j; H = S ! reg 7 j;
          SS1 = ROL (ROL A 12 + E + sm3_K ! j) 7;
          SS2 = SS1 XOR ROL A 12;
          TT1 = FF j A B C + D + SS2 + (W ! j XOR W ! (j + 4));
          TT2 = GG j E F G + H + SS1 + W ! j
      in S[reg 1 j := ROL B 9, reg 7 j := TT1, reg 5 j := ROL F 19, reg 3 j := P0 TT2])"

definition sm3_fill_W :: "u32 list \<Rightarrow> nat \<Rightarrow> u32 list" where
  "sm3_fill_W W j =
     W @ [P1 (W ! (j - 16) XOR W ! (j - 9) XOR ROL (W ! (j - 3)) 15) XOR ROL (W ! (j - 13)) 7 XOR W ! (j - 6)]"

definition sm3_compress :: "u32 list \<Rightarrow> u8 list \<Rightarrow> u32 list" where
  "sm3_compress digest data =
     (let W = foldl sm3_fill_W (map (\<lambda>j. LOAD32H data (4 * j)) [0..<16]) [16..<68];
          S = foldl (\<lambda>S j. sm3_R W j S) digest [0..<64]
      in map (\<lambda>i. digest ! i XOR S ! i) [0..<8])"

fun sm3_compress_blocks :: "u32 list \<Rightarrow> u8 list \<Rightarrow> nat \<Rightarrow> u32 list" where
  "sm3_compress_blocks digest data 0 = digest"
| "sm3_compress_blocks digest data (Suc n) =
     sm3_compress_blocks (sm3_compress digest (take 64 data)) (drop 64 data) n"

subsection \<open>The hash\<close>

record sm3_state =
  m_digest :: "u32 list"
  m_nblocks :: u64
  m_block :: "u8 list"
  m_num :: nat

definition sm3_init :: sm3_state where
  "sm3_init =
     \<lparr>m_digest = [0x7380166F, 0x4914B2B9, 0x172442D7, 0xDA8A0600, 0xA96F30BC, 0x163138AA, 0xE38DEE4D, 0xB0FB0E4E],
      m_nblocks = 0, m_block = replicate 64 0, m_num = 0\<rparr>"

definition put_block :: "nat \<Rightarrow> u8 list \<Rightarrow> sm3_state \<Rightarrow> sm3_state" where
  "put_block i bs ctx = ctx\<lparr>m_block := take i (m_block ctx) @ bs @ drop (i + length bs) (m_block ctx)\<rparr>"

definition sm3_rest :: "sm3_state \<Rightarrow> u8 list \<Rightarrow> sm3_state" where
  "sm3_rest ctx data =
     (let n = length data div 64;
          rest = drop (64 * n) data
      in put_block 0 rest
           (ctx\<lparr>m_digest := sm3_compress_blocks (m_digest ctx) data n,
                m_nblocks := m_nblocks ctx + of_nat n, m_num := length rest\<rparr>))"

definition sm3_process :: "sm3_state \<Rightarrow> u8 list \<Rightarrow> sm3_state" where
  "sm3_process ctx data =
     (if m_num ctx \<noteq> 0
      then
        (let left = 64 - m_num ctx
         in if length data < left
            then put_block (m_num ctx) data (ctx\<lparr>m_num := m_num ctx + length data\<rparr>)
            else
              (let ctx1 = put_block (m_num ctx) (take left data) ctx
               in sm3_rest
                    (ctx1\<lparr>m_digest := sm3_compress (m_digest ctx1) (m_block ctx1),
                          m_nblocks := m_nblocks ctx1 + 1\<rparr>)
                    (drop left data)))
      else sm3_rest ctx data)"

definition sm3_done :: "sm3_state \<Rightarrow> u8 list" where
  "sm3_done ctx =
     (let ctx1 = put_block (m_num ctx) [0x80] ctx;
          ctx2 = (if m_num ctx + 9 \<le> 64
                  then put_block (m_num ctx + 1) (replicate (64 - m_num ctx - 9) 0) ctx1
                  else
                    (let c = put_block (m_num ctx + 1) (replicate (64 - m_num ctx - 1) 0) ctx1
                     in put_block 0 (replicate 56 0)
                          (c\<lparr>m_digest := sm3_compress (m_digest c) (m_block c)\<rparr>)));
          bits = STORE32H (ucast (drop_bit 23 (m_nblocks ctx))) @
                 STORE32H (ucast (push_bit 9 (m_nblocks ctx) + of_nat (8 * m_num ctx)));
          ctx3 = put_block 56 bits ctx2
      in concat (map STORE32H (sm3_compress (m_digest ctx3) (m_block ctx3))))"

definition do_sm3 :: "u8 list \<Rightarrow> u8 list" where
  "do_sm3 msg = sm3_done (sm3_process sm3_init msg)"

subsection \<open>The hashes of SM2 signatures\<close>

definition sm2p256v1_A :: "u8 list" where
  "sm2p256v1_A =
    [0xFF, 0xFF, 0xFF, 0xFE, 0xFF, 0xFF, 0xFF, 0xFF, 0xFF, 0xFF, 0xFF, 0xFF,
     0xFF, 0xFF, 0xFF, 0xFF, 0xFF, 0xFF, 0xFF, 0xFF, 0x00, 0x00, 0x00, 0x00,
     0xFF, 0xFF, 0xFF, 0xFF, 0xFF, 0xFF, 0xFF, 0xFC]"

definition sm2p256v1_B :: "u8 list" where
  "sm2p256v1_B =
    [0x28, 0xE9, 0xFA, 0x9E, 0x9D, 0x9F, 0x5E, 0x34, 0x4D, 0x5A, 0x9E, 0x4B,
     0xCF, 0x65, 0x09, 0xA7, 0xF3, 0x97, 0x89, 0xF5, 0x15, 0xAB, 0x8F, 0x92,
     0xDD, 0xBC, 0xBD, 0x41, 0x4D, 0x94, 0x0E, 0x93]"

definition sm2p256v1_Gx :: "u8 list" where
  "sm2p256v1_Gx =
    [0x32, 0xC4, 0xAE, 0x2C, 0x1F, 0x19, 0x81, 0x19, 0x5F, 0x99, 0x04, 0x46,
     0x6A, 0x39, 0xC9, 0x94, 0x8F, 0xE3, 0x0B, 0xBF, 0xF2, 0x66, 0x0B, 0xE1,
     0x71, 0x5A, 0x45, 0x89, 0x33, 0x4C, 0x74, 0xC7]"

definition sm2p256v1_Gy :: "u8 list" where
  "sm2p256v1_Gy =
    [0xBC, 0x37, 0x36, 0xA2, 0xF4, 0xF6, 0x77, 0x9C, 0x59, 0xBD, 0xCE, 0xE3,
     0x6B, 0x69, 0x21, 0x53, 0xD0, 0xA9, 0x87, 0x7C, 0xC6, 0x2A, 0x47, 0x40,
     0x02, 0xDF, 0x32, 0xE5, 0x21, 0x39, 0xF0, 0xA0]"

definition user_id :: "u8 list" where
  "user_id =
    [0x31, 0x32, 0x33, 0x34, 0x35, 0x36, 0x37, 0x38, 0x31, 0x32, 0x33, 0x34,
     0x35, 0x36, 0x37, 0x38]"

definition calculate_hmsg :: "u8 list \<Rightarrow> u8 list \<Rightarrow> u8 list" where
  "calculate_hmsg za msg = sm3_done (sm3_process (sm3_process sm3_init za) msg)"

definition calculate_za :: "u8 list \<Rightarrow> u8 list \<Rightarrow> u8 list" where
  "calculate_za pubx puby =
     (let id_length = length user_id * 8
      in sm3_done (foldl sm3_process sm3_init
           [[of_nat (id_length div 256), of_nat id_length], user_id, sm2p256v1_A, sm2p256v1_B,
            sm2p256v1_Gx, sm2p256v1_Gy, pubx, puby]))"

end
