(* ===== verification/Akcipher.thy ===== *)
theory Akcipher
  imports Sm3 Libc_String
begin

text \<open>
  Verification of signed images: \<open>lib/akcipher/akcipher.c\<close> and the registry of algorithms
  \<open>drivers/alg/alg.c\<close>.

  The key file (DER), the image and the signature are in the byte-addressed memory; offsets are
  32-bit numbers as in the code, and no read is bounded by the length of the file. The \<open>key\<close> union
  of \<open>struct akcipher_ctx\<close> is its 512 bytes; a write behind them, which would hit other variables,
  is \<open>None\<close>, as is a loop that never ends. Local arrays that the code does not initialise are in
  \<open>junk\<close>. The modular exponentiation and the curve operation of the PKA hardware are parameters.
\<close>

subsection \<open>State\<close>

datatype alg_id = RSA | SM2

record akcipher_ctx =
  ak_alg :: alg_id
  ak_key_len :: u32
  ak_key :: "u8 list"

definition KEY_SIZE :: nat where "KEY_SIZE = 512"

definition rsa_modulus :: "akcipher_ctx \<Rightarrow> u8 list" where "rsa_modulus ctx = take 256 (ak_key ctx)"
definition rsa_exponent :: "akcipher_ctx \<Rightarrow> u8 list" where "rsa_exponent ctx = drop 256 (ak_key ctx)"
definition sm2_pubx :: "akcipher_ctx \<Rightarrow> u8 list" where "sm2_pubx ctx = take 32 (ak_key ctx)"
definition sm2_puby :: "akcipher_ctx \<Rightarrow> u8 list" where "sm2_puby ctx = take 32 (drop 32 (ak_key ctx))"

record junk =
  j_hash_buf :: "u8 list"
  j_hmsg :: "u8 list"
  j_key_len :: u32
  j_pubx :: "u8 list"
  j_puby :: "u8 list"
  j_r :: "u8 list"
  j_s :: "u8 list"
  j_y :: "u8 list"

text \<open>
  The registered algorithms, in list order; \<open>alg_count\<close> is only ever decremented. The operations:
  \<open>verify\<close> of RSA computes \<open>x^e mod m\<close> into \<open>y\<close>, that of SM2 decides; \<open>None\<close> is a failure.
\<close>

record alg_ops =
  a_rsa :: "u8 list \<Rightarrow> u8 list \<Rightarrow> u8 list \<Rightarrow> u32 \<Rightarrow> u8 list option"
  a_sm2 :: "u8 list \<Rightarrow> u8 list \<Rightarrow> u8 list \<Rightarrow> u8 list \<Rightarrow> u8 list \<Rightarrow> u32 \<Rightarrow> bool"

record akcipher_alg =
  a_name :: string
  a_base_name :: string
  a_ops :: "alg_ops option"

record algs =
  al_list :: "akcipher_alg list"
  al_count :: int

definition alg_find_by_name :: "algs \<Rightarrow> string \<Rightarrow> akcipher_alg option" where
  "alg_find_by_name al name = List.find (\<lambda>a. a_name a = name) (al_list al)"

definition alg_register :: "akcipher_alg \<Rightarrow> algs \<Rightarrow> errno option \<times> algs" where
  "alg_register a al =
     (if a_ops a = None then (Some EINVAL, al) else (None, al\<lparr>al_list := al_list al @ [a]\<rparr>))"

definition alg_unregister :: "akcipher_alg \<Rightarrow> algs \<Rightarrow> algs" where
  "alg_unregister a al = al\<lparr>al_list := remove1 a (al_list al), al_count := al_count al - 1\<rparr>"

subsection \<open>Parsing the public key\<close>

definition byte_at :: "mem \<Rightarrow> u64 \<Rightarrow> u32 \<Rightarrow> u8" where
  "byte_at m data offset = m (data + ucast offset)"

definition mem_bytes :: "mem \<Rightarrow> u64 \<Rightarrow> nat \<Rightarrow> u8 list" where
  "mem_bytes m a n = map (\<lambda>i. m (a + of_nat i)) [0..<n]"

definition rsa_oid :: "u8 list" where
  "rsa_oid = [0x06, 0x09, 0x2a, 0x86, 0x48, 0x86, 0xf7, 0x0d, 0x01, 0x01, 0x01, 0x05, 0x00]"

definition sm2_oid :: "u8 list" where
  "sm2_oid = [0x06, 0x08, 0x2a, 0x81, 0x1c, 0xcf, 0x55, 0x01, 0x82, 0x2d,
     0x06, 0x08, 0x2a, 0x81, 0x1c, 0xcf, 0x55, 0x01, 0x82, 0x2d]"

fun cmp_alg_oid :: "mem \<Rightarrow> u64 \<Rightarrow> u32 \<Rightarrow> u8 list \<Rightarrow> bool" where
  "cmp_alg_oid m data off [] = True"
| "cmp_alg_oid m data off (b # bs) = (if byte_at m data off \<noteq> b then False else cmp_alg_oid m data (off + 1) bs)"

text \<open>The bytes of a long length, shifted in from the left; earlier ones are lost.\<close>

fun length_loop :: "mem \<Rightarrow> u64 \<Rightarrow> nat \<Rightarrow> u32 \<Rightarrow> u32 \<Rightarrow> u32 \<times> u32" where
  "length_loop m data 0 offset len = (offset, len)"
| "length_loop m data (Suc n) offset len =
     length_loop m data n (offset + 1) (push_bit 8 len OR ucast (byte_at m data offset))"

text \<open>
  \<open>parse_seq_length\<close> of the bytes at \<open>data + off\<close>, without and with a place for the length; the
  first result is how far to go on.
\<close>

definition skip_seq_length :: "mem \<Rightarrow> u64 \<Rightarrow> u32 \<Rightarrow> u32" where
  "skip_seq_length m data off =
     (if byte_at m data off AND 0x80 \<noteq> 0 then 1 + ucast (byte_at m data off AND 0x7F) else 1)"

definition parse_seq_length :: "mem \<Rightarrow> u64 \<Rightarrow> u32 \<Rightarrow> u32 \<Rightarrow> u32 \<times> u32" where
  "parse_seq_length m data off ctx_len =
     (if byte_at m data off AND 0x80 \<noteq> 0
      then (case length_loop m (data + ucast off) (unat (byte_at m data off AND 0x7F)) 1 ctx_len of (o1, len) \<Rightarrow> (o1, len))
      else (1, ucast (byte_at m data off)))"

definition parse_alg_oid :: "mem \<Rightarrow> u64 \<Rightarrow> u32 \<Rightarrow> u32 \<Rightarrow> alg_id option" where
  "parse_alg_oid m data off len =
     (if len = 13 then (if cmp_alg_oid m data off rsa_oid then Some RSA else None)
      else if len = 20 then (if cmp_alg_oid m data off sm2_oid then Some SM2 else None)
      else None)"

text \<open>Copying into the key union.\<close>

fun key_put :: "nat \<Rightarrow> u8 list \<Rightarrow> u8 list \<Rightarrow> u8 list option" where
  "key_put i [] key = Some key"
| "key_put i (b # bs) key = (if i < KEY_SIZE then key_put (Suc i) bs (key[i := b]) else None)"

partial_function (option) skip_zeros :: "mem \<Rightarrow> u64 \<Rightarrow> u32 \<Rightarrow> u32 \<Rightarrow> (u32 \<times> u32) option" where
  "skip_zeros m data offset len =
     (if byte_at m data offset = 0 then skip_zeros m data (offset + 1) (len - 1) else Some (offset, len))"

text \<open>
  The extractors return whether they succeed, the key union and the length of the modulus. The
  failing branches before the length is known leave it 0 (RSA) or not set (SM2).
\<close>

definition bytes_at :: "mem \<Rightarrow> u64 \<Rightarrow> u32 \<Rightarrow> nat \<Rightarrow> u8 list" where
  "bytes_at m data off n = map (\<lambda>i. byte_at m data (off + of_nat i)) [0..<n]"

definition extract_rsa_key :: "mem \<Rightarrow> u64 \<Rightarrow> u8 list \<Rightarrow> (bool \<times> u8 list \<times> u32) option" where
  "extract_rsa_key m data key =
     (if byte_at m data 0 \<noteq> 0x30 then Some (False, key, 0)
      else
        (let o1 = 1 + skip_seq_length m data 1
         in if byte_at m data o1 \<noteq> 0x02 then Some (False, key, 0)
            else
              (case parse_seq_length m data (o1 + 1) 0 of (d, mlen) \<Rightarrow>
                do { z \<leftarrow> skip_zeros m data (o1 + 1 + d) mlen;
                     (case z of (o2, modulus_length) \<Rightarrow>
                       do { key1 \<leftarrow> key_put 0 (bytes_at m data o2 (unat modulus_length)) key;
                            (let o3 = o2 + modulus_length
                             in if byte_at m data o3 \<noteq> 0x02 then Some (False, key1, modulus_length)
                                else
                                  (case parse_seq_length m data (o3 + 1) 0 of (d2, elen) \<Rightarrow>
                                    if elen > 256 then None
                                    else
                                      do { key2 \<leftarrow> key_put 256 (replicate (256 - unat elen) 0 @
                                                     bytes_at m data (o3 + 1 + d2) (unat elen)) key1;
                                           Some (True, key2, modulus_length) })) }) })))"

definition extract_sm2_key :: "mem \<Rightarrow> u64 \<Rightarrow> u8 list \<Rightarrow> u32 \<Rightarrow> (bool \<times> u8 list \<times> u32) option" where
  "extract_sm2_key m data key len0 =
     (if byte_at m data 0 \<noteq> 0x04 then Some (False, key, len0)
      else do { key1 \<leftarrow> key_put 0 (bytes_at m data 1 64) key; Some (True, key1, 32) })"

text \<open>\<open>memcmp\<close> of 32 bytes is 0. A failing hash leaves the local array as it was.\<close>

definition sha256_or :: "junk \<Rightarrow> u8 list \<Rightarrow> u8 list" where
  "sha256_or j msg = (case do_sha256 (j_hash_buf j) msg of Inl e \<Rightarrow> j_hmsg j | Inr d \<Rightarrow> d)"

definition pubkey_verify :: "junk \<Rightarrow> u8 list \<Rightarrow> alg_id \<Rightarrow> u8 list \<Rightarrow> bool" where
  "pubkey_verify j der_hash alg der =
     (case alg of
        RSA \<Rightarrow> take 32 der_hash = take 32 (sha256_or j der)
      | SM2 \<Rightarrow> take 32 der_hash = take 32 (do_sm3 der))"

text \<open>\<open>der_len\<close> is a signed \<open>int\<close>; the result is whether the function returns 0.\<close>

definition akcipher_invoke_key ::
  "junk \<Rightarrow> mem \<Rightarrow> akcipher_ctx \<Rightarrow> u64 \<Rightarrow> int \<Rightarrow> u8 list \<Rightarrow> (bool \<times> akcipher_ctx) option" where
  "akcipher_invoke_key j m ctx der der_len der_hash =
     (if der_len < 15 then Some (False, ctx)
      else if byte_at m der 0 \<noteq> 0x30 then Some (False, ctx)
      else
        (let o1 = 1 + skip_seq_length m der 1
         in if byte_at m der o1 \<noteq> 0x30 then Some (False, ctx)
            else
              (case parse_seq_length m der (o1 + 1) 0 of (d, oid_len) \<Rightarrow>
                (let o2 = o1 + 1 + d
                 in case parse_alg_oid m der o2 oid_len of
                      None \<Rightarrow> Some (False, ctx)
                    | Some alg \<Rightarrow>
                        (let ctx1 = ctx\<lparr>ak_alg := alg\<rparr>;
                             o3 = o2 + oid_len
                         in if byte_at m der o3 \<noteq> 0x03 then Some (False, ctx1)
                            else
                              (let o4 = o3 + 1 + (skip_seq_length m der (o3 + 1) + 1);
                                   data = der + ucast o4
                               in do { r \<leftarrow> (case alg of
                                         RSA \<Rightarrow> extract_rsa_key m data (ak_key ctx1)
                                       | SM2 \<Rightarrow> extract_sm2_key m data (ak_key ctx1) (j_key_len j));
                                       (case r of (_, key, key_len) \<Rightarrow>
                                         Some (pubkey_verify j der_hash alg (mem_bytes m der (nat der_len)),
                                               ctx1\<lparr>ak_key := key, ak_key_len := key_len\<rparr>)) }))))))"

subsection \<open>Verifying a signature\<close>

fun buf_put :: "nat \<Rightarrow> nat \<Rightarrow> u8 list \<Rightarrow> u8 list \<Rightarrow> u8 list option" where
  "buf_put n i [] buf = Some buf"
| "buf_put n i (b # bs) buf = (if i < n then buf_put n (Suc i) bs (buf[i := b]) else None)"

text \<open>
  One integer of the signature into a 32-byte array; without the tag nothing is written. The
  numbers are 8 bits wide in the file; a length of 0x21 has a zero byte in front. \<open>len - pad\<close> is
  never negative.
\<close>

definition get_int :: "mem \<Rightarrow> u64 \<Rightarrow> u32 \<Rightarrow> u8 list \<Rightarrow> (u8 list \<times> u32) option" where
  "get_int m sig pos buf =
     (if byte_at m sig pos = 0x02
      then
        (let len = unat (byte_at m sig (pos + 1));
             pad = (if len = 0x21 then 1 else 0)
         in do { buf1 \<leftarrow> buf_put 32 0 (bytes_at m sig (pos + 2 + of_nat pad) (len - pad)) buf;
                 Some (buf1, of_nat len) })
      else Some (buf, 0))"

definition get_s_r :: "junk \<Rightarrow> mem \<Rightarrow> u64 \<Rightarrow> (bool \<times> u8 list \<times> u8 list) option" where
  "get_s_r j m sig =
     (if byte_at m sig 0 \<noteq> 0x30 then Some (False, j_s j, j_r j)
      else do { r \<leftarrow> get_int m sig 2 (j_r j);
                s \<leftarrow> get_int m sig (4 + snd r) (j_s j);
                Some (True, fst s, fst r) })"

text \<open>The result of the verifiers is whether they return 0.\<close>

definition rsa_verify :: "junk \<Rightarrow> algs \<Rightarrow> mem \<Rightarrow> akcipher_ctx \<Rightarrow> u64 \<Rightarrow> u64 \<Rightarrow> u64 \<Rightarrow> bool option" where
  "rsa_verify j al m ctx msg sig msg_len =
     (case alg_find_by_name al ''rsa'' of
        None \<Rightarrow> Some False
      | Some alg \<Rightarrow>
          do { ops \<leftarrow> a_ops alg;
               Some (case a_rsa ops (rsa_modulus ctx) (rsa_exponent ctx) (mem_bytes m sig (unat (ak_key_len ctx))) (ak_key_len ctx) of
                 None \<Rightarrow> False
               | Some y0 \<Rightarrow>
                   (let y = take 256 (y0 @ drop (length y0) (j_y j))
                    in sha256_or j (mem_bytes m msg (unat msg_len)) = drop (256 - 32) y)) })"

definition sm2_verify :: "junk \<Rightarrow> algs \<Rightarrow> mem \<Rightarrow> akcipher_ctx \<Rightarrow> u64 \<Rightarrow> u64 \<Rightarrow> u64 \<Rightarrow> bool option" where
  "sm2_verify j al m ctx msg sig msg_len =
     (case alg_find_by_name al ''sm2'' of
        None \<Rightarrow> Some False
      | Some alg \<Rightarrow>
          do { sr \<leftarrow> get_s_r j m sig;
               ops \<leftarrow> a_ops alg;
               Some (let hmsg = calculate_hmsg (calculate_za (j_pubx j) (j_puby j)) (mem_bytes m msg (unat msg_len))
                     in fst sr \<and>
                        a_sm2 ops hmsg (sm2_pubx ctx) (sm2_puby ctx) (snd (snd sr)) (fst (snd sr)) (ak_key_len ctx)) })"

definition akcipher_verify ::
  "junk \<Rightarrow> algs \<Rightarrow> mem \<Rightarrow> heap_st \<Rightarrow> akcipher_ctx \<Rightarrow> u64 \<Rightarrow> u64 \<Rightarrow> u64 \<Rightarrow> (bool \<times> heap_st) option" where
  "akcipher_verify j al m h ctx msg sig len =
     (case malloc h of
        (False, h1) \<Rightarrow> Some (False, h1)
      | (True, h1) \<Rightarrow>
          do { ok \<leftarrow> (case ak_alg ctx of
                 RSA \<Rightarrow> rsa_verify j al m ctx msg sig len
               | SM2 \<Rightarrow> sm2_verify j al m ctx msg sig len);
               Some (ok, mfree h1) })"

end
