(* ===== verification/Config.thy ===== *)
theory Config
  imports Ascii Ini Efi Bootdev Akcipher
begin

text \<open>
  The configuration of a SG2044 board, \<open>plat/sg2044/mp/zsbl/config.h\<close> and \<open>config.c\<close>: the file
  \<open>conf.ini\<close> from the best boot device and the EFI variable with the reserved memory.

  A \<open>char *\<close> of the configuration is the string it points to, or \<open>None\<close> for NULL. String literals
  and the buffer from \<open>malloc\<close> have fixed addresses, which are parameters (\<open>boot_env\<close>).
\<close>

subsection \<open>The configuration\<close>

record boot_file =
  bf_name :: "string option"
  bf_addr :: u64
  bf_size :: u64

record dram_info =
  dr_vendor :: string
  dr_capacity :: u64
  dr_data_rate :: u64
  dr_channel_number :: u32
  dr_channel_map :: u64

datatype work_mode = CHIP_WORK_MODE_CPU | CHIP_WORK_MODE_SOC | CHIP_WORK_MODE_PCIE

record condition =
  co_tpu :: "bool list"
  co_conner :: "bool list"

record dvfs_entry =
  dv_min :: u64
  dv_max :: u64
  dv_vol :: u64

record op_point =
  op_name :: string
  op_vddr :: u64
  op_cpu_freq :: u64
  op_tpu_freq :: u64
  op_noc_freq :: u64
  op_cond :: condition
  op_dvfs :: "dvfs_entry list"

record config =
  cf_dram :: dram_info
  cf_mode :: work_mode
  cf_bootargs :: "string option"
  cf_reserved_memory_size :: u64
  cf_tpu_avl :: bool
  cf_conner :: int
  cf_op :: "op_point option"
  cf_secure :: bool
  cf_sbi :: boot_file
  cf_kernel :: boot_file
  cf_dtb :: boot_file
  cf_dtbo :: boot_file
  cf_ramfs :: boot_file
  cf_cfg :: boot_file
  cf_akcipher_ctx :: akcipher_ctx

record boot_env =
  be_header :: u64
  be_tail :: u64
  be_fv :: u64
  be_rms_name :: u64
  be_vz :: efi_variable_zone

subsection \<open>The entries of the file\<close>

definition strdup_value :: "u8 list \<Rightarrow> heap_st \<Rightarrow> string option \<times> heap_st" where
  "strdup_value v h =
     (case malloc h of (False, h1) \<Rightarrow> (None, h1) | (True, h1) \<Rightarrow> (Some (chars v), h1))"

text \<open>\<open>strtoul(value, NULL, 16)\<close> on a value that is in memory with its NUL.\<close>

definition strtoul_value :: "u8 list \<Rightarrow> u64" where
  "strtoul_value v = (case strtoul (place 1 (v @ [0]) (\<lambda>_. 0)) 1 16 of None \<Rightarrow> 0 | Some (x, _) \<Rightarrow> x)"

definition handler_img :: "(config \<times> heap_st) ini_handler" where
  "handler_img user section name value =
     (let pconfig = fst user; h = snd user;
          MATCH = (\<lambda>s n. section = bytes s \<and> name = bytes n);
          dup = strdup_value value h;
          num = strtoul_value value
      in if MATCH ''devicetree'' ''name''
         then (True, pconfig\<lparr>cf_dtb := (cf_dtb pconfig)\<lparr>bf_name := fst dup\<rparr>\<rparr>, snd dup)
         else if MATCH ''devicetree'' ''addr''
         then (True, pconfig\<lparr>cf_dtb := (cf_dtb pconfig)\<lparr>bf_addr := num\<rparr>\<rparr>, h)
         else if MATCH ''devicetree-overlay'' ''name''
         then (True, pconfig\<lparr>cf_dtbo := (cf_dtbo pconfig)\<lparr>bf_name := fst dup\<rparr>\<rparr>, snd dup)
         else if MATCH ''devicetree-overlay'' ''addr''
         then (True, pconfig\<lparr>cf_dtbo := (cf_dtbo pconfig)\<lparr>bf_addr := num\<rparr>\<rparr>, h)
         else if MATCH ''kernel'' ''name''
         then (True, pconfig\<lparr>cf_kernel := (cf_kernel pconfig)\<lparr>bf_name := fst dup\<rparr>\<rparr>, snd dup)
         else if MATCH ''kernel'' ''addr''
         then (True, pconfig\<lparr>cf_kernel := (cf_kernel pconfig)\<lparr>bf_addr := num\<rparr>\<rparr>, h)
         else if MATCH ''firmware'' ''name''
         then (True, pconfig\<lparr>cf_sbi := (cf_sbi pconfig)\<lparr>bf_name := fst dup\<rparr>\<rparr>, snd dup)
         else if MATCH ''firmware'' ''addr''
         then (True, pconfig\<lparr>cf_sbi := (cf_sbi pconfig)\<lparr>bf_addr := num\<rparr>\<rparr>, h)
         else if MATCH ''ramfs'' ''name''
         then (True, pconfig\<lparr>cf_ramfs := (cf_ramfs pconfig)\<lparr>bf_name := fst dup\<rparr>\<rparr>, snd dup)
         else if MATCH ''ramfs'' ''addr''
         then (True, pconfig\<lparr>cf_ramfs := (cf_ramfs pconfig)\<lparr>bf_addr := num\<rparr>\<rparr>, h)
         else if MATCH ''boot'' ''cmdline''
         then (True, pconfig\<lparr>cf_bootargs := fst dup\<rparr>, snd dup)
         else (False, pconfig, h))"

subsection \<open>The file\<close>

definition with_heap :: "heap_st \<Rightarrow> ('h, 'd) bdm \<Rightarrow> ('h, 'd) bdm" where
  "with_heap h s = s\<lparr>bm_k := (bm_k s)\<lparr>k_heap := h\<rparr>\<rparr>"

text \<open>
  The result of \<open>bdm_load\<close> is not looked at. The text is what \<open>strlen\<close> finds at the address of
  the file after the byte behind the tail has been cleared. \<open>ini_parse_string\<close> never returns a
  negative number.
\<close>

definition parse_config_file ::
  "boot_env \<Rightarrow> config \<Rightarrow> ('h, 'd) bdm \<Rightarrow> (errno option \<times> config \<times> ('h, 'd) bdm) option" where
  "parse_config_file env cfg s =
     do { file \<leftarrow> bf_name (cf_cfg cfg);
          q \<leftarrow> bdm_get_file_size file s;
          (if fst q \<le> 0 then Some (Some ENOENT, cfg, snd q)
           else
             do { r \<leftarrow> bdm_load file (bf_addr (cf_cfg cfg)) (snd q);
                  (let s1 = snd r; m = bm_mem s1; a = bf_addr (cf_cfg cfg)
                   in if strncmp m (be_header env) a 15 \<noteq> 0 then Some (Some EINVAL, cfg, s1)
                      else
                        do { eof \<leftarrow> strstr m a (be_tail env);
                             (case eof of
                                None \<Rightarrow> Some (Some EINVAL, cfg, s1)
                              | Some p \<Rightarrow>
                                  (let m1 = m(p + 5 := 0)
                                   in do { n \<leftarrow> strlen m1 a;
                                           (case ini_parse_string (mem_bytes m1 a n) handler_img (cfg, k_heap (bm_k s1)) of
                                              (err, cfg1, h) \<Rightarrow>
                                                Some (None, cfg1, with_heap h (s1\<lparr>bm_mem := m1\<rparr>))) })) }) }) }"

subsection \<open>The EFI variable\<close>

definition sophgo_variable_guid :: efi_guid where
  "sophgo_variable_guid = \<lparr>g_d0 = 0x570CF83D, g_d1 = 0x5A8D, g_d2 = 0x4F79,
     g_d3 = [0x91, 0xA9, 0xBA, 0x82, 0x8F, 0x05, 0x79, 0xF6]\<rparr>"

definition EFI_VARIABLE_FIRMWARE_VOLUME_OFFSET :: u64 where
  "EFI_VARIABLE_FIRMWARE_VOLUME_OFFSET = 0x600000 + 0x800000"

definition EFI_VARIABLE_FIRMWARE_VOLUME_SIZE :: u64 where
  "EFI_VARIABLE_FIRMWARE_VOLUME_SIZE = 0x10000"

text \<open>The buffer is never freed.\<close>

definition parse_efi_variable ::
  "boot_env \<Rightarrow> config \<Rightarrow> ('h, 'd) bdm \<Rightarrow> (errno option \<times> config \<times> ('h, 'd) bdm) option" where
  "parse_efi_variable env cfg s =
     (case mtd_find_by_name (bm_k s) ''flash0'' of
        None \<Rightarrow> Some (None, cfg, s)
      | Some mtd \<Rightarrow>
        (case malloc (k_heap (bm_k s)) of
           (False, h) \<Rightarrow> Some (Some ENOMEM, cfg, with_heap h s)
         | (True, h) \<Rightarrow>
             do { q \<leftarrow> mtd_read mtd EFI_VARIABLE_FIRMWARE_VOLUME_OFFSET EFI_VARIABLE_FIRMWARE_VOLUME_SIZE
                         (bm_k (with_heap h s));
                  (case q of
                     (Inl e, k) \<Rightarrow> Some (Some EIO, cfg, s\<lparr>bm_k := k\<rparr>)
                   | (Inr bs, k) \<Rightarrow>
                       (let m = place (be_fv env) bs (bm_mem s); s1 = s\<lparr>bm_k := k, bm_mem := m\<rparr>
                        in case efi_vz_init m (be_vz env) (be_fv env) of
                             (Some e, vz) \<Rightarrow> Some (Some e, cfg, s1)
                           | (None, vz) \<Rightarrow>
                               do { f \<leftarrow> efi_vz_find_variable m vz sophgo_variable_guid (be_rms_name env);
                                    (case f of
                                       Inl e \<Rightarrow> Some (None, cfg, s1)
                                     | Inr var \<Rightarrow>
                                         (let rms_in_gb = rd32 m (efi_variable_data m var);
                                              size = ucast rms_in_gb * 1024 * 1024 * 1024;
                                              cfg1 = cfg\<lparr>cf_reserved_memory_size := size\<rparr>
                                          in Some (None, if size \<noteq> 0 then cfg1\<lparr>cf_mode := CHIP_WORK_MODE_SOC\<rparr> else cfg1,
                                                   s1))) })) }))"

end
