(* ===== verification/Plat.thy ===== *)
theory Plat
  imports Config
begin

text \<open>
  The boot of a SG2044 board, \<open>plat/sg2044/mp/zsbl/plat.c\<close> and \<open>efuse.c\<close>: the configuration from the
  fuses, the operating point, the images and their verification, and what is handed over to the
  next stage.

  Where the code hangs in an endless loop on purpose, the result is \<open>None\<close>, as for a fault. The
  device tree (libfdt), the command line and the start of the other harts are parameters.
\<close>

subsection \<open>The fuses\<close>

definition word_of_le :: "u8 list \<Rightarrow> u32" where
  "word_of_le bs = ucast (bs ! 0) OR push_bit 8 (ucast (bs ! 1)) OR push_bit 16 (ucast (bs ! 2)) OR push_bit 24 (ucast (bs ! 3))"

text \<open>A read into a \<open>uint32_t\<close>: what the driver does not deliver stays. Its result is not looked at.\<close>

definition nvmem_read_u32 :: "addr option \<Rightarrow> u64 \<Rightarrow> u32 \<Rightarrow> 'h kernel \<Rightarrow> (u32 \<times> 'h kernel) option" where
  "nvmem_read_u32 nvmem off old k =
     do { a \<leftarrow> nvmem;
          r \<leftarrow> nvmem_read a off 4 k;
          Some (case r of
            (Inl e, k1) \<Rightarrow> (old, k1)
          | (Inr bs, k1) \<Rightarrow> (word_of_le (take 4 (bs @ drop (length bs) (le32 old))), k1)) }"

definition SCS_CONFIG :: u64 where "SCS_CONFIG = 0x804"
definition PUBKEY_HASH :: u64 where "PUBKEY_HASH = 0x830"
definition EFUSE_MISC_INFO_OFFSET_0 :: u64 where "EFUSE_MISC_INFO_OFFSET_0 = 94 * 4"
definition EFUSE_MISC_INFO_OFFSET_1 :: u64 where "EFUSE_MISC_INFO_OFFSET_1 = (94 + 1) * 4"
definition EFUSE_DRAM_INFO_OFFSET_0 :: u64 where "EFUSE_DRAM_INFO_OFFSET_0 = 88 * 4"
definition EFUSE_DRAM_INFO_OFFSET_1 :: u64 where "EFUSE_DRAM_INFO_OFFSET_1 = (88 + 1) * 4"

definition dram_vendor :: "string list" where
  "dram_vendor = [''Micron'', ''Hynix'', ''CXMT'', '''']"
definition dram_capacity :: "u64 list" where
  "dram_capacity = [16 * 1024 * 1024 * 1024, 8 * 1024 * 1024 * 1024, 0, 0]"
definition dram_data_rate :: "u64 list" where
  "dram_data_rate = [8533 * 1000 * 1000, 9600 * 1000 * 1000, 0, 0]"
definition dram_channel_number :: "u32 list" where
  "dram_channel_number = [8, 4, 0, 0]"
definition dram_channel_map :: "u64 list" where
  "dram_channel_map =
     [push_bit 1 1 OR push_bit 2 1 OR push_bit 5 1 OR push_bit 6 1,
      push_bit 0 1 OR push_bit 3 1 OR push_bit 4 1 OR push_bit 7 1, 0, 0]"

text \<open>\<open>junk\<close> is the value of the variable that is not initialised.\<close>

definition secure_boot :: "u32 \<Rightarrow> 'h kernel \<Rightarrow> (bool \<times> 'h kernel) option" where
  "secure_boot junk k =
     do { r \<leftarrow> nvmem_read_u32 (nvmem_find_by_name k ''efuse0'') SCS_CONFIG junk k;
          Some (drop_bit 2 (fst r AND 0xc) \<noteq> 0, snd r) }"

definition default_dram :: dram_info where
  "default_dram = \<lparr>dr_vendor = ''Micron'', dr_capacity = 16 * 1024 * 1024 * 1024, dr_data_rate = 8533 * 1000 * 1000,
     dr_channel_number = 8, dr_channel_map = 0xff\<rparr>"

definition field :: "u32 \<Rightarrow> nat \<Rightarrow> u32 \<Rightarrow> nat" where
  "field flags n m = unat (drop_bit n flags AND m)"

definition dram_of_flags :: "u32 \<Rightarrow> dram_info" where
  "dram_of_flags flags =
     (if field flags 12 3 = 0 \<or> field flags 12 3 = 3 then default_dram
      else
        (let n = dram_channel_number ! field flags 6 3
         in \<lparr>dr_vendor = dram_vendor ! field flags 0 3, dr_capacity = dram_capacity ! field flags 2 3,
             dr_data_rate = dram_data_rate ! field flags 4 3, dr_channel_number = n,
             dr_channel_map = (if n = 4 then dram_channel_map ! field flags 10 3 else 0xff)\<rparr>))"

definition zero_dram :: dram_info where
  "zero_dram = \<lparr>dr_vendor = [], dr_capacity = 0, dr_data_rate = 0, dr_channel_number = 0, dr_channel_map = 0\<rparr>"

definition CHIP_CONNER_MAX :: int where "CHIP_CONNER_MAX = 5"

definition get_info_in_efuse :: "u32 \<Rightarrow> config \<Rightarrow> 'h kernel \<Rightarrow> (errno option \<times> config \<times> 'h kernel) option" where
  "get_info_in_efuse junk cfg k =
     (case nvmem_find_by_name k ''efuse1'' of
        None \<Rightarrow> Some (Some ENODEV, cfg\<lparr>cf_dram := zero_dram\<rparr>, k)
      | Some nvmem \<Rightarrow>
          do { r0 \<leftarrow> nvmem_read_u32 (Some nvmem) EFUSE_MISC_INFO_OFFSET_0 0 k;
               r1 \<leftarrow> nvmem_read_u32 (Some nvmem) EFUSE_MISC_INFO_OFFSET_1 0 (snd r0);
               let flags = fst r0 OR fst r1;
               let conner = int (field flags 16 0xf);
               let cfg1 = cfg\<lparr>cf_conner := (if conner < 0 \<or> conner \<ge> CHIP_CONNER_MAX then 0 else conner),
                              cf_tpu_avl := (field flags 15 1 = 0)\<rparr>;
               d \<leftarrow> (if field flags 14 1 \<noteq> 0 then Some (default_dram, snd r1)
                     else
                       do { q0 \<leftarrow> nvmem_read_u32 (Some nvmem) EFUSE_DRAM_INFO_OFFSET_0 (fst r0) (snd r1);
                            q1 \<leftarrow> nvmem_read_u32 (Some nvmem) EFUSE_DRAM_INFO_OFFSET_1 (fst r1) (snd q0);
                            Some (dram_of_flags (fst q0 OR fst q1), snd q1) });
               s \<leftarrow> secure_boot junk (snd d);
               Some (None, cfg1\<lparr>cf_dram := fst d, cf_secure := fst s\<rparr>, snd s) })"

definition pubkey_hash :: "u8 list" where
  "pubkey_hash = [0x40, 0xdb, 0xfb, 0x30, 0x89, 0xc4, 0xc7, 0xb6, 0x49, 0x2e, 0x15, 0xd3, 0x2d, 0xf3, 0xa4, 0x5f,
     0x8a, 0x3e, 0xc0, 0xc4, 0xb1, 0x8c, 0xd9, 0x03, 0xf0, 0x57, 0x7e, 0xf9, 0x49, 0x13, 0x3c, 0x5c]"

text \<open>The eight words read from the fuses are overwritten with the constant.\<close>

fun read_hash_words :: "addr option \<Rightarrow> nat \<Rightarrow> 'h kernel \<Rightarrow> 'h kernel option" where
  "read_hash_words nvmem 0 k = Some k"
| "read_hash_words nvmem (Suc n) k =
     do { r \<leftarrow> nvmem_read_u32 nvmem (PUBKEY_HASH + of_nat (7 - n) * 4) 0 k; read_hash_words nvmem n (snd r) }"

definition read_pubkey_hash :: "'h kernel \<Rightarrow> (u8 list \<times> 'h kernel) option" where
  "read_pubkey_hash k =
     do { k1 \<leftarrow> read_hash_words (nvmem_find_by_name k ''efuse0'') 8 k; Some (pubkey_hash, k1) }"

subsection \<open>The operating point\<close>

definition MHz :: "u64 \<Rightarrow> u64" where "MHz f = f * 1000 * 1000"

definition op_point_list :: "op_point list" where
  "op_point_list =
    [\<lparr>op_name = ''[CPU] [TT FF FS SF]'', op_vddr = 850, op_cpu_freq = MHz 2600, op_tpu_freq = 0, op_noc_freq = MHz 2000,
      op_cond = \<lparr>co_tpu = [True, False], co_conner = [True, True, True, True, False]\<rparr>,
      op_dvfs = [\<lparr>dv_min = 0, dv_max = MHz 2600 + 1, dv_vol = 850\<rparr>, \<lparr>dv_min = 0, dv_max = 0, dv_vol = 0\<rparr>]\<rparr>,
     \<lparr>op_name = ''[CPU] [SS]'', op_vddr = 900, op_cpu_freq = MHz 2600, op_tpu_freq = 0, op_noc_freq = MHz 2000,
      op_cond = \<lparr>co_tpu = [True, False], co_conner = [False, False, False, False, True]\<rparr>,
      op_dvfs = [\<lparr>dv_min = 0, dv_max = MHz 2600 + 1, dv_vol = 900\<rparr>, \<lparr>dv_min = 0, dv_max = 0, dv_vol = 0\<rparr>]\<rparr>,
     \<lparr>op_name = ''[SOC]'', op_vddr = 800, op_cpu_freq = MHz 2000, op_tpu_freq = MHz 1000, op_noc_freq = MHz 2000,
      op_cond = \<lparr>co_tpu = [False, True], co_conner = [True, True, True, True, True]\<rparr>,
      op_dvfs = [\<lparr>dv_min = 0, dv_max = MHz 2000 + 1, dv_vol = 800\<rparr>, \<lparr>dv_min = 0, dv_max = 0, dv_vol = 0\<rparr>]\<rparr>,
     \<lparr>op_name = ''[DEFAULT]'', op_vddr = 800, op_cpu_freq = MHz 1000, op_tpu_freq = 0, op_noc_freq = MHz 1000,
      op_cond = \<lparr>co_tpu = [True, True], co_conner = [True, True, True, True, True]\<rparr>,
      op_dvfs = [\<lparr>dv_min = 0, dv_max = MHz 1000 + 1, dv_vol = 800\<rparr>, \<lparr>dv_min = 0, dv_max = 0, dv_vol = 0\<rparr>]\<rparr>]"

definition condition_match :: "condition \<Rightarrow> int \<Rightarrow> work_mode \<Rightarrow> bool" where
  "condition_match c conner mode =
     (if \<not> co_tpu c ! (if mode = CHIP_WORK_MODE_CPU then 0 else 1) then False
      else co_conner c ! (if conner < 0 \<or> conner \<ge> CHIP_CONNER_MAX then 0 else nat conner))"

definition get_op_point :: "int \<Rightarrow> work_mode \<Rightarrow> op_point option" where
  "get_op_point conner mode = List.find (\<lambda>op. condition_match (op_cond op) conner mode) op_point_list"

definition get_work_mode :: "u32 \<Rightarrow> work_mode" where
  "get_work_mode bootsel = (if bootsel AND 4 \<noteq> 0 then CHIP_WORK_MODE_PCIE else CHIP_WORK_MODE_CPU)"

definition ram_base :: "u64 \<Rightarrow> u64" where
  "ram_base ld_program_start = ld_program_start AND NOT (1024 * 1024 * 1024 - 1)"

definition config_init ::
  "u32 \<Rightarrow> u64 \<Rightarrow> u32 \<Rightarrow> config \<Rightarrow> 'h kernel \<Rightarrow> (config \<times> 'h kernel) option" where
  "config_init bootsel ld_program_start junk cfg k =
     (let base = ram_base ld_program_start;
          cfg1 = cfg\<lparr>cf_mode := get_work_mode bootsel,
            cf_sbi := (cf_sbi cfg)\<lparr>bf_name := Some ''fw_dynamic.bin'', bf_addr := base + 0x00000000\<rparr>,
            cf_dtb := (cf_dtb cfg)\<lparr>bf_name := None, bf_addr := base + 0x08000000\<rparr>,
            cf_dtbo := (cf_dtbo cfg)\<lparr>bf_name := Some ''sg2044-evb.dtbo'', bf_addr := base + 0x08800000\<rparr>,
            cf_kernel := (cf_kernel cfg)\<lparr>bf_name := Some ''SG2044.fd'', bf_addr := base + 0x00200000\<rparr>,
            cf_ramfs := (cf_ramfs cfg)\<lparr>bf_name := None, bf_addr := 0\<rparr>,
            cf_cfg := (cf_cfg cfg)\<lparr>bf_name := Some ''conf.ini'', bf_addr := base + 0x09000000\<rparr>,
            cf_conner := 0, cf_tpu_avl := True\<rparr>
      in do { r \<leftarrow> get_info_in_efuse junk cfg1 k; Some (snd r) })"

subsection \<open>The images\<close>

text \<open>
  The addresses of the local arrays \<open>sig_data\<close> (256 bytes) and \<open>pubkey_der\<close> (512 bytes). A file
  that is longer than its array overwrites the stack: \<open>None\<close>.
\<close>

record load_env =
  le_junk :: junk
  le_algs :: algs
  le_sig_data :: u64
  le_pubkey_der :: u64

definition SIG_SIZE :: int where "SIG_SIZE = 256"
definition PUBKEY_DER_SIZE :: int where "PUBKEY_DER_SIZE = 512"

definition wanted :: "boot_file \<Rightarrow> bool" where
  "wanted file \<longleftrightarrow> bf_name file \<noteq> None \<and> bf_addr file \<noteq> 0 \<and> bf_name file \<noteq> Some ''''"

definition load ::
  "load_env \<Rightarrow> config \<Rightarrow> boot_file \<Rightarrow> bool \<Rightarrow> ('h, 'd) bdm \<Rightarrow> (boot_file \<times> ('h, 'd) bdm) option" where
  "load env cfg file need_verify s =
     (if \<not> wanted file then Some (file, s)
      else
        do { name \<leftarrow> bf_name file;
             r \<leftarrow> bdm_load name (bf_addr file) s;
             (if fst r \<le> 0 then None
              else
                (let file1 = file\<lparr>bf_size := of_int (fst r)\<rparr>; s1 = snd r
                 in if \<not> cf_secure cfg \<or> \<not> need_verify then Some (file1, s1)
                    else if length name + length ''.sig'' \<ge> 64 then None
                    else
                      do { q \<leftarrow> bdm_load (name @ ''.sig'') (le_sig_data env) s1;
                           (if fst q \<le> 0 \<or> fst q > SIG_SIZE then None
                            else
                              do { v \<leftarrow> akcipher_verify (le_junk env) (le_algs env) (bm_mem (snd q)) (k_heap (bm_k (snd q)))
                                        (cf_akcipher_ctx cfg) (bf_addr file1) (le_sig_data env) (bf_size file1);
                                   (if \<not> fst v then None else Some (file1, with_heap (snd v) (snd q))) }) })) })"

text \<open>\<open>namelen < strlen(ext)\<close> compares as unsigned numbers.\<close>

definition file_is_dtbo :: "string option \<Rightarrow> bool" where
  "file_is_dtbo name =
     (case name of
        None \<Rightarrow> False
      | Some n \<Rightarrow> (if length n < length ''.dtbo'' then False else drop (length n - length ''.dtbo'') n = ''.dtbo''))"

definition choose_dtbo :: "config \<Rightarrow> config" where
  "choose_dtbo cfg =
     (if file_is_dtbo (bf_name (cf_dtb cfg))
      then cfg\<lparr>cf_dtbo := (cf_dtbo cfg)\<lparr>bf_name := bf_name (cf_dtb cfg)\<rparr>, cf_dtb := (cf_dtb cfg)\<lparr>bf_name := None\<rparr>\<rparr>
      else cfg)"

definition load_pubkey :: "load_env \<Rightarrow> config \<Rightarrow> ('h, 'd) bdm \<Rightarrow> (config \<times> ('h, 'd) bdm) option" where
  "load_pubkey env cfg s =
     do { r \<leftarrow> load env cfg \<lparr>bf_name = Some ''public_key.der'', bf_addr = le_pubkey_der env, bf_size = 0\<rparr> False s;
          (if uint (bf_size (fst r)) > PUBKEY_DER_SIZE then None
           else
             do { h \<leftarrow> read_pubkey_hash (bm_k (snd r));
                  let s1 = (snd r)\<lparr>bm_k := snd h\<rparr>;
                  v \<leftarrow> akcipher_invoke_key (le_junk env) (bm_mem s1) (cf_akcipher_ctx cfg) (le_pubkey_der env)
                        (sint (ucast (bf_size (fst r)) :: u32)) (fst h);
                  (if \<not> fst v then None else Some (cfg\<lparr>cf_akcipher_ctx := snd v\<rparr>, s1)) }) }"

definition load_files :: "load_env \<Rightarrow> config \<Rightarrow> ('h, 'd) bdm \<Rightarrow> (config \<times> ('h, 'd) bdm) option" where
  "load_files env cfg s =
     do { a \<leftarrow> load env cfg (cf_dtb cfg) True s;
          let cfg = cfg\<lparr>cf_dtb := fst a\<rparr>;
          b \<leftarrow> load env cfg (cf_dtbo cfg) True (snd a);
          let cfg = cfg\<lparr>cf_dtbo := fst b\<rparr>;
          c \<leftarrow> load env cfg (cf_sbi cfg) True (snd b);
          let cfg = cfg\<lparr>cf_sbi := fst c\<rparr>;
          d \<leftarrow> load env cfg (cf_kernel cfg) True (snd c);
          let cfg = cfg\<lparr>cf_kernel := fst d\<rparr>;
          e \<leftarrow> load env cfg (cf_ramfs cfg) True (snd d);
          Some (cfg\<lparr>cf_ramfs := fst e\<rparr>, snd e) }"

definition load_images :: "load_env \<Rightarrow> config \<Rightarrow> ('h, 'd) bdm \<Rightarrow> (config \<times> ('h, 'd) bdm) option" where
  "load_images env cfg s =
     (let cfg1 = choose_dtbo cfg
      in if cf_secure cfg1
         then do { r \<leftarrow> load_pubkey env cfg1 s; load_files env (fst r) (snd r) }
         else load_files env cfg1 s)"

subsection \<open>The boot\<close>

record fw_dynamic_info =
  fw_magic :: u64
  fw_version :: u64
  fw_next_addr :: u64
  fw_next_mode :: u64
  fw_boot_hart :: u64

text \<open>\<open>jump_to(sbi, hartid, dtb, info)\<close> on every hart, the current one last.\<close>

record handover =
  ho_entry :: u64
  ho_hartid :: nat
  ho_dtb :: u64

definition CONFIG_SMP_NUM :: nat where "CONFIG_SMP_NUM = 64"

definition boot_next_img :: "nat \<Rightarrow> config \<Rightarrow> handover list" where
  "boot_next_img hartid cfg =
     (let jump = (\<lambda>i. \<lparr>ho_entry = bf_addr (cf_sbi cfg), ho_hartid = i, ho_dtb = bf_addr (cf_dtb cfg)\<rparr>)
      in map jump (filter (\<lambda>i. i \<noteq> hartid) [0..<CONFIG_SMP_NUM]) @ [jump hartid])"

text \<open>
  The constants are those of \<open>arch/riscv/include/sbi.h\<close>; \<open>cli\<close> and \<open>modify_dtb\<close> are parameters. In the
  PCIe mode no operating point has been chosen when \<open>show_config\<close> reads through \<open>cfg->op\<close>: a NULL
  pointer is followed.
\<close>

definition plat_main ::
  "u32 \<Rightarrow> u64 \<Rightarrow> u32 \<Rightarrow> nat \<Rightarrow> boot_env \<Rightarrow> load_env \<Rightarrow>
   (config \<times> ('h, 'd) bdm \<Rightarrow> config \<times> ('h, 'd) bdm) \<Rightarrow> (config \<times> ('h, 'd) bdm \<Rightarrow> ('h, 'd) bdm) \<Rightarrow>
   config \<Rightarrow> ('h, 'd) bdm \<Rightarrow> (config \<times> fw_dynamic_info \<times> handover list \<times> ('h, 'd) bdm) option" where
  "plat_main bootsel ld_program_start junk hartid benv lenv cli modify_dtb cfg s =
     do { i \<leftarrow> config_init bootsel ld_program_start junk cfg (bm_k s);
          let s0 = s\<lparr>bm_k := snd i\<rparr>;
          r \<leftarrow> (if cf_mode (fst i) \<noteq> CHIP_WORK_MODE_PCIE
                then
                  do { p \<leftarrow> parse_config_file benv (fst i) s0;
                       q \<leftarrow> parse_efi_variable benv (fst (snd p)) (snd (snd p));
                       let cfg1 = (fst (snd q))\<lparr>cf_op := get_op_point (cf_conner (fst (snd q))) (cf_mode (fst (snd q)))\<rparr>;
                       l \<leftarrow> load_images lenv cfg1 (snd (snd q));
                       let c = cli l;
                       Some (fst c, modify_dtb c) }
                else None);
          let info = \<lparr>fw_magic = 0x4942534f, fw_version = 2, fw_next_addr = bf_addr (cf_kernel (fst r)),
                      fw_next_mode = 1, fw_boot_hart = - 1\<rparr>;
          Some (fst r, info, boot_next_img hartid (fst r), snd r) }"

end
