(* ===== verification/Sha256_Props.thy ===== *)
theory Sha256_Props
  imports Sha256
begin

text \<open>
  SHA-256 as FIPS 180-4 defines it, and the proof that \<open>sha256.c\<close> computes it: the compression with
  its turning registers is the one of the standard, and the buffered, padded processing hashes the
  blocks of the padded message.
\<close>

subsection \<open>The standard\<close>

definition fips_step :: "u32 list \<Rightarrow> nat \<Rightarrow> u32 list \<Rightarrow> u32 list" where
  "fips_step W t v = (case v of [a, b, c, d, e, f, g, h] \<Rightarrow>
     (let T1 = h + (word_rotr 6 e XOR word_rotr 11 e XOR word_rotr 25 e) + ((e AND f) XOR (NOT e AND g)) +
               sha256_K ! t + W ! t;
          T2 = (word_rotr 2 a XOR word_rotr 13 a XOR word_rotr 22 a) + ((a AND b) XOR (a AND c) XOR (b AND c))
      in [T1 + T2, a, b, c, d + T1, e, f, g]) | _ \<Rightarrow> v)"

fun fips_W :: "u8 list \<Rightarrow> nat \<Rightarrow> u32" where
  "fips_W M t =
     (if t < 16 then LOAD32H M (4 * t)
      else (word_rotr 17 (fips_W M (t - 2)) XOR word_rotr 19 (fips_W M (t - 2)) XOR drop_bit 10 (fips_W M (t - 2))) +
           fips_W M (t - 7) +
           (word_rotr 7 (fips_W M (t - 15)) XOR word_rotr 18 (fips_W M (t - 15)) XOR drop_bit 3 (fips_W M (t - 15))) +
           fips_W M (t - 16))"

declare fips_W.simps [simp del]

definition fips_compress :: "u32 list \<Rightarrow> u8 list \<Rightarrow> u32 list" where
  "fips_compress H M = map2 (+) H (foldl (\<lambda>v t. fips_step (map (fips_W M) [0..<64]) t v) H [0..<64])"

definition fips_H0 :: "u32 list" where
  "fips_H0 = [0x6A09E667, 0xBB67AE85, 0x3C6EF372, 0xA54FF53A, 0x510E527F, 0x9B05688C, 0x1F83D9AB, 0x5BE0CD19]"

definition fips_pad :: "u8 list \<Rightarrow> u8 list" where
  "fips_pad msg = msg @ [0x80] @ replicate ((119 - length msg mod 64) mod 64) 0 @ STORE64H (of_nat (8 * length msg))"

function blocks :: "u8 list \<Rightarrow> u8 list list" where
  "blocks bs = (if length bs < 64 then [] else take 64 bs # blocks (drop 64 bs))"
  by pat_completeness auto
termination by (relation "measure length") auto

declare blocks.simps [simp del]

definition sha256 :: "u8 list \<Rightarrow> u8 list" where
  "sha256 msg = concat (map STORE32H (foldl fips_compress fips_H0 (blocks (fips_pad msg))))"

lemma length_fips_compress: "length H = 8 \<Longrightarrow> length (fips_compress H b) = 8"
proof -
  have "length v = 8 \<Longrightarrow> length (foldl (\<lambda>v t. fips_step W t v) v ts) = 8" for W v ts
  proof (induction ts arbitrary: v)
    case (Cons t ts)
    have "length (fips_step W t v) = length v" by (simp add: fips_step_def Let_def split: list.split)
    then show ?case by (simp add: Cons.IH Cons.prems)
  qed simp
  then show "length H = 8 \<Longrightarrow> length (fips_compress H b) = 8" by (simp add: fips_compress_def)
qed

lemma length_sha256: "length (sha256 msg) = 32"
proof -
  have "length H = 8 \<Longrightarrow> length (foldl fips_compress H bs) = 8" for H bs
    by (induction bs arbitrary: H) (simp_all add: length_fips_compress)
  then have "length (foldl fips_compress fips_H0 bs) = 8" for bs by (simp add: fips_H0_def)
  moreover have "length (concat (map STORE32H ws)) = 4 * length ws" for ws
    by (induction ws) (simp_all add: STORE32H_def)
  ultimately show ?thesis by (simp add: sha256_def)
qed

subsection \<open>The compression\<close>

lemma ROR_rotr: "ROR x n = word_rotr n x"
proof -
  define m where "m = n mod 32"
  have m: "m < 32" by (simp add: m_def)
  have "bit (ROR x n) i = bit (word_rotr n x) i" if i: "i < 32" for i
  proof -
    have idx: "(i + n) mod 32 = (if i + m < 32 then i + m else i + m - 32)"
    proof -
      have "(i + n) mod 32 = (i + m) mod 32" by (simp add: m_def mod_add_right_eq)
      also have "\<dots> = (if i + m < 32 then i + m else i + m - 32)" using i m by (auto simp: le_mod_geq)
      finally show ?thesis .
    qed
    have x: "bit x k \<Longrightarrow> k < 32" for k using bit_imp_le_length[of x k] by simp
    have "bit (ROR x n) i \<longleftrightarrow> bit x (m + i) \<or> (if m = 0 then bit x i else 32 - m \<le> i \<and> bit x (i - (32 - m)))"
      using i m by (cases "m = 0") (auto simp: ROR_def m_def[symmetric] bit_simps)
    also have "\<dots> \<longleftrightarrow> bit x (if i + m < 32 then i + m else i + m - 32)"
      using i m x[of "m + i"] by (auto simp: add.commute)
    also have "\<dots> \<longleftrightarrow> bit (word_rotr n x) i" using i idx by (simp add: bit_word_rotr_iff)
    finally show ?thesis .
  qed
  then show ?thesis by (intro bit_word_eqI) simp
qed

lemma Ch_fips: "Ch x y z = (x AND y) XOR (NOT x AND z)"
  by (rule bit_word_eqI) (auto simp: Ch_def bit_simps)

lemma Maj_fips: "Maj x y z = (x AND y) XOR (x AND z) XOR (y AND z)"
  by (rule bit_word_eqI) (auto simp: Maj_def bit_simps)

text \<open>The schedule.\<close>

lemma fill_W_fips:
  assumes "n \<le> 48"
  shows "foldl fill_W (map (\<lambda>i. LOAD32H M (4 * i)) [0..<16]) [16..<16 + n] = map (fips_W M) [0..<16 + n]"
  using assms
proof (induction n)
  case 0
  have "map (\<lambda>i. LOAD32H M (4 * i)) [0..<16] = map (fips_W M) [0..<16]"
    by (rule map_cong[OF refl]) (subst fips_W.simps, simp)
  then show ?case by simp
next
  case (Suc n)
  have nth: "map (fips_W M) [0..<16 + n] ! j = fips_W M j" if "j < 16 + n" for j
    using that by (metis add_0 diff_zero length_upt nth_map nth_upt)
  have "foldl fill_W (map (\<lambda>i. LOAD32H M (4 * i)) [0..<16]) [16..<16 + Suc n] =
      fill_W (map (fips_W M) [0..<16 + n]) (16 + n)"
    using Suc by (simp only: add_Suc_right upt_Suc_append[of 16 "16 + n"] le_add1 foldl_append foldl_Cons foldl_Nil
        Suc_leD[of n])
  also have "\<dots> = map (fips_W M) [0..<16 + n] @ [fips_W M (16 + n)]"
    using fips_W.simps[of M "16 + n"] by (simp add: fill_W_def Gamma0_def Gamma1_def ROR_rotr nth add_ac)
  finally show ?case by (simp only: add_Suc_right upt_Suc_append[of 16 "16 + n"] upt_Suc_append[of 0 "16 + n"]
      le_add1 le0 map_append list.map)
qed

text \<open>The registers: line \<open>i\<close> of the code works on those of the standard, turned by \<open>i\<close>.\<close>

definition turned :: "nat \<Rightarrow> u32 list \<Rightarrow> u32 list \<Rightarrow> bool" where
  "turned i S v \<longleftrightarrow> length S = 8 \<and> v = map (\<lambda>j. S ! reg j i) [0..<8]"

lemma upt_8: "[0..<8] = [0, 1, 2, 3, 4, 5, 6, 7 :: nat]"
  by (simp add: upt_rec)

lemma length_8: "length S = 8 \<Longrightarrow> \<exists>a b c d e f g h. S = [a, b, c, d, e, f, g, h]"
  by (auto simp: numeral_eq_Suc length_Suc_conv)

lemma turned_step:
  assumes "turned i S v"
  shows "turned (Suc i) (RND W i S) (fips_step W i v)"
proof -
  have len: "length S = 8" and v: "v = map (\<lambda>j. S ! reg j i) [0..<8]" using assms by (simp_all add: turned_def)
  from length_8[OF len] obtain s0 s1 s2 s3 s4 s5 s6 s7 where S: "S = [s0, s1, s2, s3, s4, s5, s6, s7]" by blast
  have "i mod 8 < 8" by simp
  then consider "i mod 8 = 0" | "i mod 8 = 1" | "i mod 8 = 2" | "i mod 8 = 3" | "i mod 8 = 4" | "i mod 8 = 5" |
    "i mod 8 = 6" | "i mod 8 = 7" by linarith
  then show ?thesis
    by cases (simp_all add: turned_def v S RND_def fips_step_def reg_def mod_Suc upt_8 Let_def
        Sigma0_def Sigma1_def ROR_rotr Ch_fips Maj_fips add_ac)
qed

lemma turned_steps:
  assumes "length H = 8"
  shows "turned n (foldl (\<lambda>S i. RND W i S) H [0..<n]) (foldl (\<lambda>v t. fips_step W t v) H [0..<n])"
proof (induction n)
  case 0
  from length_8[OF assms] show ?case by (auto simp: turned_def reg_def upt_8)
qed (simp add: turned_step)

lemma s_sha256_compress_fips:
  assumes "length H = 8"
  shows "s_sha256_compress H M = fips_compress H M"
proof -
  let ?W = "map (fips_W M) [0..<64]"
  let ?S = "foldl (\<lambda>S i. RND ?W i S) H [0..<64]"
  have W: "foldl fill_W (map (\<lambda>i. LOAD32H M (4 * i)) [0..<16]) [16..<64] = ?W"
    using fill_W_fips[of 48 M] by simp
  have "turned 64 ?S (foldl (\<lambda>v t. fips_step ?W t v) H [0..<64])"
    by (rule turned_steps[OF assms])
  moreover have "map (\<lambda>j. ?S ! reg j 64) [0..<8] = ?S" if "length ?S = 8"
    using that by (intro nth_equalityI) (auto simp: reg_def)
  ultimately have "length ?S = 8" "foldl (\<lambda>v t. fips_step ?W t v) H [0..<64] = ?S"
    by (simp_all add: turned_def)
  then show ?thesis
    unfolding s_sha256_compress_def fips_compress_def W Let_def
    using assms by (intro nth_equalityI) simp_all
qed

lemma compress_length [simp]: "length (s_sha256_compress H M) = 8"
  by (simp add: s_sha256_compress_def)

subsection \<open>Blocks\<close>

lemma blocks_append:
  "64 dvd length p \<Longrightarrow> blocks (p @ q) = blocks p @ blocks q"
proof (induction p rule: blocks.induct)
  case (1 p)
  show ?case
  proof (cases "p = []")
    case False
    with 1(2) have ge: "64 \<le> length p" by (auto dest: dvd_imp_le)
    then have "blocks (drop 64 p @ q) = blocks (drop 64 p) @ blocks q"
      using 1(2) by (intro 1(1)) (simp_all add: dvd_diff_nat)
    then show ?thesis
      using ge by (subst (1 2) blocks.simps) (simp add: not_less)
  qed (simp add: blocks.simps[of "[]"])
qed

lemma blocks_one: "length b = 64 \<Longrightarrow> blocks b = [b]"
  by (subst blocks.simps, subst blocks.simps) simp

lemma blocks_short: "length b < 64 \<Longrightarrow> blocks b = []"
  by (subst blocks.simps) simp

definition hash_blocks :: "u8 list \<Rightarrow> u32 list" where
  "hash_blocks p = foldl s_sha256_compress fips_H0 (blocks p)"

lemma foldl_compress_length: "length H = 8 \<Longrightarrow> length (foldl s_sha256_compress H bs) = 8"
  by (induction bs arbitrary: H) simp_all

lemma foldl_compress_fips: "length H = 8 \<Longrightarrow> foldl s_sha256_compress H bs = foldl fips_compress H bs"
  by (induction bs arbitrary: H) (simp_all add: s_sha256_compress_fips[symmetric])

lemma sha256_hash_blocks: "sha256 msg = concat (map STORE32H (hash_blocks (fips_pad msg)))"
  by (simp add: sha256_def hash_blocks_def foldl_compress_fips fips_H0_def)

lemma hash_blocks_snoc:
  "64 dvd length p \<Longrightarrow> length b = 64 \<Longrightarrow> hash_blocks (p @ b) = s_sha256_compress (hash_blocks p) b"
  by (simp add: hash_blocks_def blocks_append blocks_one)

subsection \<open>The buffered processing\<close>

text \<open>
  The state after the bytes \<open>p @ r\<close>, of which the whole blocks \<open>p\<close> are hashed and \<open>r\<close> is in the
  buffer.
\<close>

definition absorbed :: "sha256_state \<Rightarrow> u8 list \<Rightarrow> u8 list \<Rightarrow> bool" where
  "absorbed md p r \<longleftrightarrow> 64 dvd length p \<and> length r < 64 \<and> h_state md = hash_blocks p \<and>
     h_length md = of_nat (8 * length p) \<and> unat (h_curlen md) = length r \<and>
     length (h_buf md) = 64 \<and> take (length r) (h_buf md) = r"

lemma put_buf_take:
  assumes "unat (h_curlen md) = length r" "length (h_buf md) = 64" "take (length r) (h_buf md) = r"
    "length r + length bs \<le> 64"
  shows "unat (h_curlen (put_buf md bs)) = length (r @ bs)" "length (h_buf (put_buf md bs)) = 64"
    "take (length (r @ bs)) (h_buf (put_buf md bs)) = r @ bs"
    "h_state (put_buf md bs) = h_state md" "h_length (put_buf md bs) = h_length md"
proof -
  have "unat (h_curlen md + of_nat (length bs)) = unat (h_curlen md) + unat (of_nat (length bs) :: u32)"
    using assms by (intro unat_add_lem[THEN iffD1]) (simp add: unsigned_of_nat take_bit_nat_eq_self)
  then show "unat (h_curlen (put_buf md bs)) = length (r @ bs)"
    using assms by (simp add: put_buf_def Let_def unsigned_of_nat take_bit_nat_eq_self)
  show "length (h_buf (put_buf md bs)) = 64" "take (length (r @ bs)) (h_buf (put_buf md bs)) = r @ bs"
    "h_state (put_buf md bs) = h_state md" "h_length (put_buf md bs) = h_length md"
    using assms by (simp_all add: put_buf_def Let_def)
qed

lemma unat_u32_eq: "unat (c :: u32) = n \<Longrightarrow> n < 2 ^ 32 \<Longrightarrow> c = of_nat n"
  by auto

lemma sha256_loop_absorbed:
  assumes "absorbed md p r"
  shows "\<exists>p' r'. absorbed (sha256_loop md inp) p' r' \<and> p' @ r' = p @ r @ inp"
  using assms
proof (induction md inp arbitrary: p r rule: sha256_loop.induct)
  case (1 md inp)
  note a = 1(4)[unfolded absorbed_def]
  have cur: "h_curlen md = of_nat (length r)" using a by (intro unat_u32_eq) auto
  show ?case
  proof (cases "inp = []")
    case True
    with 1(4) show ?thesis by (subst sha256_loop.simps) auto
  next
    case ne: False
    show ?thesis
    proof (cases "h_curlen md = 0 \<and> 64 \<le> length inp")
      case True
      then have r: "r = []" using a by simp
      let ?md = "md\<lparr>h_state := s_sha256_compress (h_state md) (take 64 inp), h_length := h_length md + 512\<rparr>"
      have "absorbed ?md (p @ take 64 inp) []"
        using a r True by (simp add: absorbed_def hash_blocks_snoc)
      from 1(1)[OF ne True this] obtain p' r' where "absorbed (sha256_loop ?md (drop 64 inp)) p' r'"
        "p' @ r' = (p @ take 64 inp) @ [] @ drop 64 inp" by blast
      then show ?thesis using ne True r by (subst sha256_loop.simps) auto
    next
      case False
      let ?n = "min (length inp) (unat (64 - h_curlen md))"
      let ?md1 = "put_buf md (take ?n inp)"
      have "unat (64 - h_curlen md) = 64 - length r"
        using a by (subst unat_sub) (simp_all add: word_le_nat_alt)
      then have n: "?n = min (length inp) (64 - length r)" by simp
      have len: "length r + length (take ?n inp) \<le> 64" using a n by auto
      note put = put_buf_take[of md r "take ?n inp", OF _ _ _ len]
      have put': "unat (h_curlen ?md1) = length (r @ take ?n inp)" "length (h_buf ?md1) = 64"
        "take (length (r @ take ?n inp)) (h_buf ?md1) = r @ take ?n inp"
        "h_state ?md1 = h_state md" "h_length ?md1 = h_length md"
        using put a by blast+
      show ?thesis
      proof (cases "h_curlen ?md1 = 64")
        case True
        let ?md2 = "(compress_buf ?md1)\<lparr>h_length := h_length ?md1 + 512, h_curlen := 0\<rparr>"
        have full: "length (r @ take ?n inp) = 64" using True put'(1) by simp
        then have "h_buf ?md1 = r @ take ?n inp" using put'(2,3) by simp
        then have "absorbed ?md2 (p @ r @ take ?n inp) []"
          using a full put' by (simp add: absorbed_def compress_buf_def hash_blocks_snoc add.commute)
        from 1(2)[OF ne False refl refl True this] obtain p' r' where "absorbed (sha256_loop ?md2 (drop ?n inp)) p' r'"
          "p' @ r' = (p @ r @ take ?n inp) @ [] @ drop ?n inp" by blast
        moreover have "sha256_loop md inp = sha256_loop ?md2 (drop ?n inp)"
          by (subst sha256_loop.simps) (simp only: if_not_P[OF ne] if_not_P[OF False] Let_def if_P[OF True])
        ultimately show ?thesis by (auto simp: append_take_drop_id)
      next
        case False': False
        then have "length (r @ take ?n inp) \<noteq> 64" using put'(1) unat_u32_eq[of "h_curlen ?md1" 64] by auto
        then have "absorbed ?md1 p (r @ take ?n inp)" using a put' len by (simp add: absorbed_def)
        from 1(3)[OF ne False refl refl False' this] obtain p' r' where "absorbed (sha256_loop ?md1 (drop ?n inp)) p' r'"
          "p' @ r' = p @ (r @ take ?n inp) @ drop ?n inp" by blast
        moreover have "sha256_loop md inp = sha256_loop ?md1 (drop ?n inp)"
          by (subst sha256_loop.simps) (simp only: if_not_P[OF ne] if_not_P[OF False] Let_def if_not_P[OF False'])
        ultimately show ?thesis by (auto simp: append_take_drop_id)
      qed
    qed
  qed
qed

subsection \<open>The padding\<close>

definition buffered :: "sha256_state \<Rightarrow> u8 list \<Rightarrow> bool" where
  "buffered md r \<longleftrightarrow> unat (h_curlen md) = length r \<and> length (h_buf md) = 64 \<and> take (length r) (h_buf md) = r"

lemma put_buf_buffered:
  "buffered md r \<Longrightarrow> length r + length bs \<le> 64 \<Longrightarrow> buffered (put_buf md bs) (r @ bs)"
  using put_buf_take[of md r bs] by (simp add: buffered_def)

lemma put_buf_same [simp]: "h_state (put_buf md bs) = h_state md" "h_length (put_buf md bs) = h_length md"
  by (simp_all add: put_buf_def Let_def)

lemma zero_rounds_same [simp]:
  "h_state (zero_rounds k md) = h_state md" "h_length (zero_rounds k md) = h_length md"
  by (induction k arbitrary: md) simp_all

lemma zero_rounds_buffered:
  "buffered md r \<Longrightarrow> length r + k \<le> 64 \<Longrightarrow> buffered (zero_rounds k md) (r @ replicate k 0)"
proof (induction k arbitrary: md r)
  case (Suc k)
  have "buffered (put_buf md [0]) (r @ [0])" using Suc.prems by (intro put_buf_buffered) simp_all
  from Suc.IH[OF this] Suc.prems(2) show ?case by (simp add: replicate_app_Cons_same)
qed simp

lemma zero_to_buffered:
  assumes "buffered md r" "length r \<le> n" "n \<le> 64"
  shows "buffered (zero_to n md) (r @ replicate (n - length r) 0)"
    "h_state (zero_to n md) = h_state md" "h_length (zero_to n md) = h_length md"
  using assms zero_rounds_buffered[of md r "n - length r"] by (simp_all add: zero_to_def buffered_def)

lemma buffered_full: "buffered md r \<Longrightarrow> length r = 64 \<Longrightarrow> h_buf md = r"
  by (auto simp: buffered_def)

lemma STORE64H_length [simp]: "length (STORE64H x) = 8"
  by (simp add: STORE64H_def)

text \<open>The padded message ends with one block, or with two when the rest has more than 55 bytes.\<close>

lemma fips_pad_rest:
  assumes "64 dvd length p" "length r < 64"
  shows "fips_pad (p @ r) = (if length r < 56
      then p @ (r @ [0x80] @ replicate (55 - length r) 0 @ STORE64H (of_nat (8 * length (p @ r))))
      else (p @ (r @ [0x80] @ replicate (63 - length r) 0)) @ (replicate 56 0 @ STORE64H (of_nat (8 * length (p @ r)))))"
proof -
  have "length (p @ r) mod 64 = length r" using assms by (auto elim!: dvdE)
  moreover have "(119 - length r) mod 64 = (if length r < 56 then 55 - length r else (63 - length r) + 56)"
    using assms(2) by (auto simp: le_mod_geq)
  moreover have "replicate (63 - length r + 56) (0 :: u8) = replicate (63 - length r) 0 @ replicate 56 0"
    by (rule replicate_add)
  ultimately show ?thesis unfolding fips_pad_def by (cases "length r < 56") (simp_all only: if_True if_False
      not_False_eq_True append_assoc append_Cons append_Nil)
qed

lemma sha256_done_absorbed:
  assumes "absorbed md p r" "length (p @ r) < 2 ^ 61"
  shows "sha256_done md = Inr (sha256 (p @ r))"
proof -
  note a = assms(1)[unfolded absorbed_def]
  have lt: "\<not> h_curlen md \<ge> 64" using a by (simp add: word_le_nat_alt)
  let ?L = "of_nat (8 * length (p @ r)) :: u64"
  let ?md0 = "md\<lparr>h_length := h_length md + ucast (h_curlen md * 8)\<rparr>"
  have "h_curlen md = of_nat (length r)" using a by (intro unat_u32_eq) auto
  then have "h_curlen md * 8 = of_nat (8 * length r)" by (simp add: mult.commute)
  moreover have "ucast (of_nat (8 * length r) :: u32) = (of_nat (8 * length r) :: u64)"
    using a by (simp add: unsigned_of_nat take_bit_nat_eq_self del: of_nat_mult)
  ultimately have "ucast (h_curlen md * 8) = (of_nat (8 * length r) :: u64)" by simp
  then have L: "h_length ?md0 = ?L" using a by (simp add: algebra_simps)
  have b0: "buffered ?md0 r" using a by (simp add: buffered_def)
  let ?md1 = "put_buf ?md0 [0x80]"
  have b1: "buffered ?md1 (r @ [0x80])" using b0 a by (intro put_buf_buffered) simp_all
  then have c1: "h_curlen ?md1 > 56 \<longleftrightarrow> \<not> length r < 56" by (auto simp: buffered_def word_less_nat_alt)
  let ?md2 = "if h_curlen ?md1 > 56 then (compress_buf (zero_to 64 ?md1))\<lparr>h_curlen := 0\<rparr> else ?md1"
  let ?md3 = "zero_to 56 ?md2"
  let ?last = "take 56 (h_buf ?md3) @ STORE64H ?L"
  have L3: "h_length ?md3 = ?L" using L by (simp add: zero_to_def compress_buf_def)
  have res: "sha256_done md = Inr (concat (map STORE32H (s_sha256_compress (h_state ?md3) ?last)))"
    using lt L3 unfolding sha256_done_def Let_def compress_buf_def by simp
  have "s_sha256_compress (h_state ?md3) ?last = hash_blocks (fips_pad (p @ r))"
  proof (cases "length r < 56")
    case True
    then have m2: "?md2 = ?md1" using c1 by simp
    let ?x = "r @ [0x80] @ replicate (55 - length r) 0"
    have "buffered ?md3 ?x" unfolding m2 using zero_to_buffered(1)[OF b1, of 56] True by simp
    then have "take 56 (h_buf ?md3) = ?x" using True by (simp add: buffered_def)
    moreover have "h_state ?md3 = hash_blocks p" unfolding m2 using a by (simp add: zero_to_def)
    moreover have "fips_pad (p @ r) = p @ (?x @ STORE64H ?L)" using fips_pad_rest[of p r] a True by simp
    ultimately show ?thesis
      using a True hash_blocks_snoc[of p "?x @ STORE64H ?L"] by simp
  next
    case False
    then have m2: "?md2 = (compress_buf (zero_to 64 ?md1))\<lparr>h_curlen := 0\<rparr>" using c1 by simp
    let ?x = "r @ [0x80] @ replicate (63 - length r) 0"
    have len: "length ?x = 64" using a False by simp
    have "buffered (zero_to 64 ?md1) ?x" using zero_to_buffered(1)[OF b1, of 64] a by simp
    from buffered_full[OF this len] have buf: "h_buf (zero_to 64 ?md1) = ?x" .
    have st: "h_state ?md2 = s_sha256_compress (hash_blocks p) ?x"
      unfolding m2 using a buf by (simp add: compress_buf_def zero_to_def)
    have "buffered ?md2 []" unfolding m2 using buf len by (simp add: compress_buf_def buffered_def)
    from zero_to_buffered[OF this, of 56] have z: "take 56 (h_buf ?md3) = replicate 56 0" "h_state ?md3 = h_state ?md2"
      by (simp_all add: buffered_def)
    have "fips_pad (p @ r) = (p @ ?x) @ (replicate 56 0 @ STORE64H ?L)" using fips_pad_rest[of p r] a False by simp
    moreover have "hash_blocks ((p @ ?x) @ (replicate 56 0 @ STORE64H ?L)) =
        s_sha256_compress (hash_blocks (p @ ?x)) (replicate 56 0 @ STORE64H ?L)"
      using a len by (intro hash_blocks_snoc) simp_all
    moreover have "hash_blocks (p @ ?x) = s_sha256_compress (hash_blocks p) ?x"
      using a len by (intro hash_blocks_snoc) simp_all
    ultimately show ?thesis using st z by simp
  qed
  with res show ?thesis by (simp add: sha256_hash_blocks)
qed

lemma do_sha256_correct:
  assumes "length msg < 2 ^ 61" "length garbage = 64"
  shows "do_sha256 garbage msg = Inr (sha256 msg)"
proof -
  have "absorbed (sha256_init garbage) [] []"
    using assms(2) by (simp add: absorbed_def sha256_init_def hash_blocks_def blocks_short fips_H0_def)
  from sha256_loop_absorbed[OF this, of msg] obtain p r where a: "absorbed (sha256_loop (sha256_init garbage) msg) p r"
    "p @ r = msg" by auto
  have "sha256_process (sha256_init garbage) msg = Inr (sha256_loop (sha256_init garbage) msg)"
    by (simp add: sha256_process_def sha256_init_def)
  with sha256_done_absorbed[OF a(1)] a(2) assms(1) show ?thesis by (simp add: do_sha256_def)
qed

text \<open>
  C26: \<open>do_sha256\<close> computes SHA-256. For every message of less than \<open>2^61\<close> bytes and whatever is in
  the buffer at the start, the function succeeds with the digest that FIPS 180-4 defines: the
  message schedule, the 64 rounds on eight registers, the Merkle-Damgaard chain over the blocks of
  the padded message. This covers the unrolled rounds with their turning registers, the shortened
  boolean functions, the buffering of partial blocks and both cases of the padding.
\<close>
theorem do_sha256_fips:
  assumes "length msg < 2 ^ 61" "length garbage = 64"
  shows "do_sha256 garbage msg = Inr (sha256 msg)"
  using assms by (rule do_sha256_correct)

theorem do_sha256_fips_witness:
  "do_sha256 (replicate 64 0xaa) (replicate 119 97) = Inr (sha256 (replicate 119 97))"
  by (rule do_sha256_fips) simp_all

end
