(* ===== verification/Plat_Props.thy ===== *)
theory Plat_Props
  imports Plat Sha256_Props Bootdev_Props
begin

text \<open>
  The secure boot: where the loads write, what a passed verification means, and that later loads
  leave the verified images alone.
\<close>

subsection \<open>Regions of memory\<close>

definition inside :: "u64 \<Rightarrow> nat \<Rightarrow> u64 \<Rightarrow> bool" where
  "inside base n x \<longleftrightarrow> unat (x - base) < n"

definition apart :: "u64 \<Rightarrow> nat \<Rightarrow> u64 \<Rightarrow> nat \<Rightarrow> bool" where
  "apart a n b k \<longleftrightarrow> (\<forall>x. \<not> (inside a n x \<and> inside b k x))"

definition same_outside :: "(u64 \<Rightarrow> bool) \<Rightarrow> mem \<Rightarrow> mem \<Rightarrow> bool" where
  "same_outside P m m' \<longleftrightarrow> (\<forall>x. \<not> P x \<longrightarrow> m' x = m x)"

lemma same_outside_refl [simp]: "same_outside P m m"
  by (simp add: same_outside_def)

lemma same_outside_trans: "same_outside P m m' \<Longrightarrow> same_outside P m' m'' \<Longrightarrow> same_outside P m m''"
  by (simp add: same_outside_def)

lemma same_outside_mono: "same_outside P m m' \<Longrightarrow> (\<And>x. P x \<Longrightarrow> Q x) \<Longrightarrow> same_outside Q m m'"
  by (auto simp: same_outside_def)

lemma place_same_outside: "length bs \<le> n \<Longrightarrow> same_outside (inside base n) m (place base bs m)"
  by (auto simp: same_outside_def inside_def place_def)

lemma mem_bytes_same_outside:
  assumes "same_outside P m m'" "\<And>x. inside a n x \<Longrightarrow> \<not> P x" "k \<le> n" "n < 2 ^ 64"
  shows "mem_bytes m' a k = mem_bytes m a k"
proof -
  have "m' (a + of_nat i) = m (a + of_nat i)" if "i < k" for i
    using that assms by (auto simp: same_outside_def inside_def unsigned_of_nat take_bit_nat_eq_self)
  then show ?thesis by (simp add: mem_bytes_def)
qed

lemma inside_twice:
  assumes "inside a n x" "inside b k x"
  shows "unat (b - a) < n \<or> unat (a - b) < k"
proof (cases "unat (x - b) \<le> unat (x - a)")
  case True
  have "b - a = (x - a) - (x - b)" by simp
  with True have "unat (b - a) = unat (x - a) - unat (x - b)" by (simp only: unat_sub word_le_nat_alt)
  then show ?thesis using assms unfolding inside_def by linarith
next
  case False
  have "a - b = (x - b) - (x - a)" by simp
  with False have "unat (a - b) = unat (x - b) - unat (x - a)" by (simp only: unat_sub word_le_nat_alt nat_le_linear)
  then show ?thesis using assms unfolding inside_def by linarith
qed

lemma apartI: "n \<le> unat (b - a) \<Longrightarrow> k \<le> unat (a - b) \<Longrightarrow> apart a n b k"
  unfolding apart_def using inside_twice by fastforce

subsection \<open>What a load writes\<close>

definition fits :: "('h, 'd) bdm \<Rightarrow> string \<Rightarrow> nat \<Rightarrow> bool" where
  "fits s name cap \<longleftrightarrow>
     (\<forall>a k r bs k'. loader s a name k = Some ((r, bs), k') \<longrightarrow> length bs \<le> cap \<and> r \<le> int cap)"

definition same_drivers :: "('h, 'd) bdm \<Rightarrow> ('h, 'd) bdm \<Rightarrow> bool" where
  "same_drivers s s' \<longleftrightarrow> loader s' = loader s"

lemma same_drivers_fits: "same_drivers s s' \<Longrightarrow> fits s' name cap = fits s name cap"
  by (simp add: same_drivers_def fits_def)

lemma same_drivers_trans: "same_drivers s s' \<Longrightarrow> same_drivers s' s'' \<Longrightarrow> same_drivers s s''"
  by (simp add: same_drivers_def)

lemma bootdev_load_writes:
  assumes "bootdev_load a file buf s = Some (r, s')"
  shows "same_drivers s s'"
    "fits s file cap \<Longrightarrow> same_outside (inside buf cap) (bm_mem s) (bm_mem s') \<and> r \<le> int cap"
proof -
  from assms(1) obtain bs k where l: "loader s a file (bm_k s) = Some ((r, bs), k)"
    and s': "bm_boot s' = bm_boot s" "bm_ops s' = bm_ops s" "bm_mem s' = place buf bs (bm_mem s)"
    by (auto simp: bootdev_load_def loader_def Let_def split: bind_splits prod.splits if_splits)
  show "same_drivers s s'"
    by (simp add: same_drivers_def loader_def fun_eq_iff s'(1,2))
  assume "fits s file cap"
  with l have "length bs \<le> cap" "r \<le> int cap" unfolding fits_def by blast+
  then show "same_outside (inside buf cap) (bm_mem s) (bm_mem s') \<and> r \<le> int cap"
    by (simp add: s'(3) place_same_outside)
qed

definition writes_at_most :: "string \<Rightarrow> nat \<Rightarrow> u64 \<Rightarrow> ('h, 'd) bdm \<Rightarrow> int \<times> ('h, 'd) bdm \<Rightarrow> bool" where
  "writes_at_most fname cap buf s res \<longleftrightarrow>
     same_drivers s (snd res) \<and>
     (fits s fname cap \<longrightarrow>
       same_outside (inside buf cap) (bm_mem s) (bm_mem (snd res)) \<and> fst res \<le> int cap)"

lemma bdm_load_from_writes:
  assumes "bdm_load_from fname0 buf0 p0 s0 = Some res0"
  shows "writes_at_most fname0 cap buf0 s0 res0"
proof (rule bdm_load_from.raw_induct[where P = "\<lambda>fname buf p s res. writes_at_most fname cap buf s res", OF _ assms])
  fix rec fname buf p s res
  assume IH: "\<And>fname buf p s res. rec fname buf p s = Some res \<Longrightarrow> writes_at_most fname cap buf s res"
    and step: "(case p of
        None \<Rightarrow> Some (- errno_val EIO, s)
      | Some a \<Rightarrow>
          do { b \<leftarrow> bm_boot s a;
               (if bt_disabled b = 1 then rec fname buf (bootdev_next s a) s
                else do { r \<leftarrow> bootdev_load a fname buf s;
                          (if fst r > 0 then Some r
                           else rec fname buf (bootdev_next (snd r) a) (snd r)) }) }) = Some res"
  show "writes_at_most fname cap buf s res"
  proof (cases p)
    case None
    with step have "snd res = s \<and> fst res = - errno_val EIO" by (cases res) auto
    then show ?thesis by (simp add: writes_at_most_def same_drivers_def)
  next
    case (Some a)
    from step Some obtain b where b: "bm_boot s a = Some b" by (auto split: bind_splits)
    show ?thesis
    proof (cases "bt_disabled b = 1")
      case True
      with step Some b have "rec fname buf (bootdev_next s a) s = Some res" by simp
      then show ?thesis by (rule IH)
    next
      case False
      with step Some b obtain q where "bootdev_load a fname buf s = Some q"
        and "(if fst q > 0 then Some q else rec fname buf (bootdev_next (snd q) a) (snd q)) = Some res"
        by (simp add: Option.bind_eq_Some_conv del: split_paired_Ex) (elim exE conjE)
      then obtain r s1 where r: "bootdev_load a fname buf s = Some (r, s1)"
        and cont: "(if r > 0 then Some (r, s1) else rec fname buf (bootdev_next s1 a) s1) = Some res"
        using that[of "fst q" "snd q"] by (simp only: prod.collapse)
      note w = bootdev_load_writes(1)[OF r] bootdev_load_writes(2)[OF r, of cap]
      show ?thesis
      proof (cases "0 < r")
        case True
        with cont w show ?thesis by (auto simp: writes_at_most_def)
      next
        case False
        with cont have "writes_at_most fname cap buf s1 res" by (intro IH) simp
        with w show ?thesis
          unfolding writes_at_most_def by (metis same_drivers_fits same_drivers_trans same_outside_trans)
      qed
    qed
  qed
qed

lemma bdm_load_writes:
  assumes "bdm_load file buf s = Some (r, s')"
  shows "same_drivers s s'"
    "fits s file cap \<Longrightarrow> same_outside (inside buf cap) (bm_mem s) (bm_mem s') \<and> r \<le> int cap"
  using bdm_load_from_writes[OF assms(1)[unfolded bdm_load_def], of cap] by (simp_all add: writes_at_most_def)

subsection \<open>What a passed verification means\<close>

text \<open>
  The image carries a signature of the key: for RSA, the public operation on some string of the
  length of the key ends in the SHA-256 digest of the image; for SM2, the curve operation accepts
  some pair for the digest of the image.
\<close>

definition signed :: "junk \<Rightarrow> algs \<Rightarrow> akcipher_ctx \<Rightarrow> u8 list \<Rightarrow> bool" where
  "signed j al ctx img \<longleftrightarrow>
     (case ak_alg ctx of
        RSA \<Rightarrow> (\<exists>a ops sig y. alg_find_by_name al ''rsa'' = Some a \<and> a_ops a = Some ops \<and>
                  length sig = unat (ak_key_len ctx) \<and>
                  a_rsa ops (rsa_modulus ctx) (rsa_exponent ctx) sig (ak_key_len ctx) = Some y \<and>
                  drop 224 (take 256 (y @ drop (length y) (j_y j))) = sha256 img)
      | SM2 \<Rightarrow> (\<exists>a ops r s. alg_find_by_name al ''sm2'' = Some a \<and> a_ops a = Some ops \<and>
                  a_sm2 ops (calculate_hmsg (calculate_za (j_pubx j) (j_puby j)) img)
                    (sm2_pubx ctx) (sm2_puby ctx) r s (ak_key_len ctx)))"

lemma akcipher_verify_signed:
  assumes "akcipher_verify j al m h ctx msg sig len = Some (True, h')"
    "unat len < 2 ^ 61" "length (j_hash_buf j) = 64"
  shows "signed j al ctx (mem_bytes m msg (unat len))"
proof (cases "ak_alg ctx")
  case RSA
  have sha: "sha256_or j (mem_bytes m msg (unat len)) = sha256 (mem_bytes m msg (unat len))"
    using assms(2,3) by (simp add: sha256_or_def do_sha256_correct mem_bytes_def)
  from assms(1) RSA have "rsa_verify j al m ctx msg sig len = Some True"
    by (auto simp: akcipher_verify_def split: prod.splits bool.splits bind_splits)
  then obtain a ops y where *: "alg_find_by_name al ''rsa'' = Some a" "a_ops a = Some ops"
    "a_rsa ops (rsa_modulus ctx) (rsa_exponent ctx) (mem_bytes m sig (unat (ak_key_len ctx))) (ak_key_len ctx) = Some y"
    "drop 224 (take 256 (y @ drop (length y) (j_y j))) = sha256 (mem_bytes m msg (unat len))"
    by (auto simp: rsa_verify_def Let_def sha split: option.splits bind_splits)
  have "length (mem_bytes m sig (unat (ak_key_len ctx))) = unat (ak_key_len ctx)" by (simp add: mem_bytes_def)
  with * RSA show ?thesis unfolding signed_def by auto
next
  case SM2
  from assms(1) SM2 have "sm2_verify j al m ctx msg sig len = Some True"
    by (auto simp: akcipher_verify_def split: prod.splits bool.splits bind_splits)
  with SM2 show ?thesis
    by (auto simp: sm2_verify_def signed_def Let_def split: option.splits bind_splits)
qed

subsection \<open>The images\<close>

definition name_of :: "boot_file \<Rightarrow> string" where
  "name_of f = (case bf_name f of None \<Rightarrow> [] | Some n \<Rightarrow> n)"

text \<open>The boot devices deliver at most \<open>cap\<close> bytes for the file and 256 for its signature.\<close>

definition roomy :: "(string \<Rightarrow> nat) \<Rightarrow> ('h, 'd) bdm \<Rightarrow> boot_file \<Rightarrow> bool" where
  "roomy cap s f \<longleftrightarrow> cap (name_of f) < 2 ^ 61 \<and> fits s (name_of f) (cap (name_of f)) \<and>
     fits s (name_of f @ ''.sig'') 256"

text \<open>The memory a file may occupy, and whether a file was verified and still is what was.\<close>

definition region :: "(string \<Rightarrow> nat) \<Rightarrow> boot_file \<Rightarrow> u64 \<Rightarrow> bool" where
  "region cap f x \<longleftrightarrow> wanted f \<and> inside (bf_addr f) (cap (name_of f)) x"

definition genuine :: "load_env \<Rightarrow> akcipher_ctx \<Rightarrow> (string \<Rightarrow> nat) \<Rightarrow> mem \<Rightarrow> boot_file \<Rightarrow> bool" where
  "genuine env ctx cap m f \<longleftrightarrow> (wanted f \<longrightarrow> unat (bf_size f) \<le> cap (name_of f) \<and>
     signed (le_junk env) (le_algs env) ctx (mem_bytes m (bf_addr f) (unat (bf_size f))))"

lemma same_drivers_refl [simp]: "same_drivers s s"
  by (simp add: same_drivers_def)

lemma with_heap_simps [simp]:
  "bm_mem (with_heap h s) = bm_mem s" "same_drivers s (with_heap h s')= same_drivers s s'"
  by (simp_all add: with_heap_def same_drivers_def loader_def fun_eq_iff)

lemma load_writes:
  assumes "load env cfg f True s = Some (f', s')" "cf_secure cfg" "roomy cap s f" "length (j_hash_buf (le_junk env)) = 64"
  shows "bf_name f' = bf_name f" "bf_addr f' = bf_addr f" "same_drivers s s'"
    "same_outside (\<lambda>x. region cap f x \<or> inside (le_sig_data env) 256 x) (bm_mem s) (bm_mem s')"
    "genuine env (cf_akcipher_ctx cfg) cap (bm_mem s') f'"
proof -
  let ?goal = "bf_name f' = bf_name f \<and> bf_addr f' = bf_addr f \<and> same_drivers s s' \<and>
    same_outside (\<lambda>x. region cap f x \<or> inside (le_sig_data env) 256 x) (bm_mem s) (bm_mem s') \<and>
    genuine env (cf_akcipher_ctx cfg) cap (bm_mem s') f'"
  have ?goal
  proof (cases "wanted f")
    case False
    with assms(1) have "f' = f" "s' = s" by (simp_all add: load_def)
    with False show ?thesis by (simp add: genuine_def)
  next
    case True
    then obtain name where n: "bf_name f = Some name" "name_of f = name" by (auto simp: wanted_def name_of_def)
    from assms(1,2) True n(1) obtain r s1 q s2 h where
      l: "bdm_load name (bf_addr f) s = Some (r, s1)" "0 < r" "f' = f\<lparr>bf_size := of_int r\<rparr>"
      and g: "bdm_load (name @ ''.sig'') (le_sig_data env) s1 = Some (q, s2)" "s' = with_heap h s2"
      and v: "akcipher_verify (le_junk env) (le_algs env) (bm_mem s2) (k_heap (bm_k s2)) (cf_akcipher_ctx cfg)
        (bf_addr f') (le_sig_data env) (bf_size f') = Some (True, h)"
      by (auto simp: load_def Let_def split: bind_splits if_splits)
    have fit: "cap name < 2 ^ 61" "fits s name (cap name)" "fits s (name @ ''.sig'') 256"
      using assms(3) n by (simp_all add: roomy_def)
    note w = bdm_load_writes(1)[OF l(1)] bdm_load_writes(2)[OF l(1) fit(2)]
    have "fits s1 (name @ ''.sig'') 256" using fit(3) w(1) by (simp add: same_drivers_fits)
    note w' = bdm_load_writes(1)[OF g(1)] bdm_load_writes(2)[OF g(1) this]
    have sz: "unat (bf_size f') \<le> cap name" "unat (bf_size f') < 2 ^ 61"
    proof -
      have "unat (of_int r :: u64) = nat r"
        using w(2) l(2) fit(1) by (simp add: unat_eq_nat_uint uint_word_of_int)
      then have "unat (bf_size f') = nat r" by (simp add: l(3))
      moreover have "nat r \<le> cap name" using w(2) by auto
      ultimately show "unat (bf_size f') \<le> cap name" "unat (bf_size f') < 2 ^ 61" using fit(1) by simp_all
    qed
    have "same_outside (\<lambda>x. region cap f x \<or> inside (le_sig_data env) 256 x) (bm_mem s) (bm_mem s2)"
      using conjunct1[OF w(2)] conjunct1[OF w'(2)] True n(2) unfolding same_outside_def region_def by metis
    moreover have "signed (le_junk env) (le_algs env) (cf_akcipher_ctx cfg)
        (mem_bytes (bm_mem s2) (bf_addr f') (unat (bf_size f')))"
      by (rule akcipher_verify_signed[OF v sz(2) assms(4)])
    moreover have "same_drivers s s2" using w(1) w'(1) by (rule same_drivers_trans)
    moreover have "name_of f' = name" using l(3) n by (simp add: name_of_def)
    ultimately show ?thesis using l(3) sz(1) g(2) by (simp add: genuine_def)
  qed
  then show "bf_name f' = bf_name f" "bf_addr f' = bf_addr f" "same_drivers s s'"
    "same_outside (\<lambda>x. region cap f x \<or> inside (le_sig_data env) 256 x) (bm_mem s) (bm_mem s')"
    "genuine env (cf_akcipher_ctx cfg) cap (bm_mem s') f'" by blast+
qed

text \<open>The files in the order they are loaded, as a list.\<close>

fun load_all ::
  "load_env \<Rightarrow> config \<Rightarrow> boot_file list \<Rightarrow> ('h, 'd) bdm \<Rightarrow> (boot_file list \<times> ('h, 'd) bdm) option" where
  "load_all env cfg [] s = Some ([], s)"
| "load_all env cfg (f # fs) s =
     do { a \<leftarrow> load env cfg f True s; r \<leftarrow> load_all env cfg fs (snd a); Some (fst a # fst r, snd r) }"

definition images :: "config \<Rightarrow> boot_file list" where
  "images cfg = [cf_dtb cfg, cf_dtbo cfg, cf_sbi cfg, cf_kernel cfg, cf_ramfs cfg]"

lemma load_upd:
  "load env (cfg\<lparr>cf_dtb := f\<rparr>) = load env cfg" "load env (cfg\<lparr>cf_dtbo := f\<rparr>) = load env cfg"
  "load env (cfg\<lparr>cf_sbi := f\<rparr>) = load env cfg" "load env (cfg\<lparr>cf_kernel := f\<rparr>) = load env cfg"
  by (intro ext, simp add: load_def cong del: if_weak_cong)+

lemma load_files_all:
  assumes "load_files env cfg s = Some (cfg', s')"
  shows "load_all env cfg (images cfg) s = Some (images cfg', s')"
proof -
  from assms obtain a b c d e where l:
    "load env cfg (cf_dtb cfg) True s = Some a" "load env cfg (cf_dtbo cfg) True (snd a) = Some b"
    "load env cfg (cf_sbi cfg) True (snd b) = Some c" "load env cfg (cf_kernel cfg) True (snd c) = Some d"
    "load env cfg (cf_ramfs cfg) True (snd d) = Some e"
    "cfg' = cfg\<lparr>cf_dtb := fst a, cf_dtbo := fst b, cf_sbi := fst c, cf_kernel := fst d, cf_ramfs := fst e\<rparr>" "s' = snd e"
    unfolding load_files_def Let_def load_upd config.simps Option.bind_eq_Some_conv option.inject prod.inject
    by (elim exE conjE) (rule that; (simp; fail | rule sym, simp))
  then show ?thesis by (simp add: images_def)
qed

text \<open>Where the files lie.\<close>

definition laid_out :: "load_env \<Rightarrow> (string \<Rightarrow> nat) \<Rightarrow> boot_file list \<Rightarrow> bool" where
  "laid_out env cap fs \<longleftrightarrow>
     sorted_wrt (\<lambda>f g. \<forall>x. \<not> (region cap f x \<and> region cap g x)) fs \<and>
     (\<forall>f \<in> set fs. \<forall>x. \<not> (region cap f x \<and> inside (le_sig_data env) 256 x))"

lemma region_cong: "bf_name f' = bf_name f \<Longrightarrow> bf_addr f' = bf_addr f \<Longrightarrow> region cap f' = region cap f"
  by (simp add: region_def fun_eq_iff wanted_def name_of_def)

lemma genuine_kept:
  assumes "genuine env ctx cap m f" "same_outside P m m'" "\<And>x. region cap f x \<Longrightarrow> \<not> P x" "cap (name_of f) < 2 ^ 61"
  shows "genuine env ctx cap m' f"
proof (cases "wanted f")
  case True
  with assms(1) have "unat (bf_size f) \<le> cap (name_of f)" by (simp add: genuine_def)
  with assms(2-4) True have "mem_bytes m' (bf_addr f) (unat (bf_size f)) = mem_bytes m (bf_addr f) (unat (bf_size f))"
    by (intro mem_bytes_same_outside) (auto simp: region_def)
  with assms(1) show ?thesis by (simp add: genuine_def)
qed (simp add: genuine_def)

lemma load_all_genuine:
  assumes "load_all env cfg fs s = Some (fs', s')" "cf_secure cfg" "length (j_hash_buf (le_junk env)) = 64"
    "\<forall>f \<in> set fs. roomy cap s f" "laid_out env cap fs"
  shows "same_outside (\<lambda>x. (\<exists>f \<in> set fs. region cap f x) \<or> inside (le_sig_data env) 256 x) (bm_mem s) (bm_mem s') \<and>
    (\<forall>f \<in> set fs'. genuine env (cf_akcipher_ctx cfg) cap (bm_mem s') f) \<and>
    map bf_name fs' = map bf_name fs \<and> map bf_addr fs' = map bf_addr fs"
  using assms(1,4,5)
proof (induction fs arbitrary: s fs')
  case Nil
  then show ?case by simp
next
  case (Cons f fs)
  from Cons.prems(1) obtain f1 s1 fs1 where
    l: "load env cfg f True s = Some (f1, s1)" "load_all env cfg fs s1 = Some (fs1, s')" "fs' = f1 # fs1"
    by (auto split: bind_splits)
  have room: "roomy cap s f" using Cons.prems(2) by simp
  note w = load_writes[OF l(1) assms(2) room assms(3)]
  have "\<forall>g \<in> set fs. roomy cap s1 g"
    using Cons.prems(2) w(3) by (simp add: roomy_def same_drivers_fits)
  moreover have "laid_out env cap fs" using Cons.prems(3) by (simp add: laid_out_def)
  ultimately have IH: "same_outside (\<lambda>x. (\<exists>f \<in> set fs. region cap f x) \<or> inside (le_sig_data env) 256 x) (bm_mem s1) (bm_mem s')"
    "\<forall>f \<in> set fs1. genuine env (cf_akcipher_ctx cfg) cap (bm_mem s') f"
    "map bf_name fs1 = map bf_name fs" "map bf_addr fs1 = map bf_addr fs"
    using Cons.IH[OF l(2)] by blast+
  have reg: "region cap f1 = region cap f" using w(1,2) by (rule region_cong)
  have "genuine env (cf_akcipher_ctx cfg) cap (bm_mem s') f1"
  proof (rule genuine_kept[OF w(5) IH(1)])
    fix x
    assume "region cap f1 x"
    then show "\<not> ((\<exists>f \<in> set fs. region cap f x) \<or> inside (le_sig_data env) 256 x)"
      using Cons.prems(3) by (auto simp: reg laid_out_def)
  next
    show "cap (name_of f1) < 2 ^ 61" using room w(1) by (simp add: roomy_def name_of_def)
  qed
  moreover have "same_outside (\<lambda>x. (\<exists>f \<in> set (f # fs). region cap f x) \<or> inside (le_sig_data env) 256 x) (bm_mem s) (bm_mem s')"
    using w(4) IH(1) unfolding same_outside_def by (metis list.set_intros)
  ultimately show ?case using IH(2-4) l(3) w(1,2) by simp
qed

subsection \<open>The configuration of a board\<close>

text \<open>What the fuses can say of the memory: values of the tables that fit together.\<close>

definition dram_ok :: "dram_info \<Rightarrow> bool" where
  "dram_ok d \<longleftrightarrow> dr_vendor d \<in> set dram_vendor \<and> dr_capacity d \<in> set dram_capacity \<and>
     dr_data_rate d \<in> set dram_data_rate \<and> dr_channel_number d \<in> set dram_channel_number \<and>
     (dr_channel_number d = 4 \<longrightarrow> dr_channel_map d \<in> set dram_channel_map) \<and>
     (dr_channel_number d = 8 \<longrightarrow> dr_channel_map d = 0xff)"

text \<open>
  An operating point for a chip and a mode: its conditions hold, the TPU runs only where there is
  one to be used, the first range of the voltage table starts at 0, covers the frequency of the
  CPU and has the voltage of the point, and the second ends the table.
\<close>

definition op_fits :: "op_point \<Rightarrow> int \<Rightarrow> work_mode \<Rightarrow> bool" where
  "op_fits op conner mode \<longleftrightarrow> condition_match (op_cond op) conner mode \<and>
     op_cpu_freq op = (if mode = CHIP_WORK_MODE_CPU then MHz 2600 else MHz 2000) \<and>
     op_tpu_freq op = (if mode = CHIP_WORK_MODE_CPU then 0 else MHz 1000) \<and>
     op_vddr op = (if mode = CHIP_WORK_MODE_CPU then if conner = 4 then 900 else 850 else 800) \<and>
     (\<exists>e rest. op_dvfs op = e # \<lparr>dv_min = 0, dv_max = 0, dv_vol = 0\<rparr> # rest \<and>
        dv_min e = 0 \<and> op_cpu_freq op < dv_max e \<and> dv_vol e = op_vddr op)"

lemma le_4_cases: "0 \<le> c \<Longrightarrow> c < 5 \<Longrightarrow> c = 0 \<or> c = 1 \<or> c = 2 \<or> c = 3 \<or> c = (4::int)"
  by arith

lemma get_op_point_fits:
  assumes "0 \<le> conner" "conner < CHIP_CONNER_MAX"
  shows "\<exists>op. get_op_point conner mode = Some op \<and> op_fits op conner mode"
  using le_4_cases[OF assms[unfolded CHIP_CONNER_MAX_def]]
  by (cases mode) (auto simp: get_op_point_def op_point_list_def condition_match_def op_fits_def CHIP_CONNER_MAX_def
    MHz_def)

lemma field_le: "field flags n m \<le> unat m"
  unfolding field_def word_le_nat_alt[symmetric] by (rule word_and_le1)

lemma dram_of_flags_ok: "dram_ok (dram_of_flags flags)"
proof -
  have nth: "xs ! field flags n 3 \<in> set xs" if "length xs = 4" for xs :: "'a list" and n
    using field_le[of flags n 3] that by (intro nth_mem) simp
  have nums: "length dram_vendor = 4" "length dram_capacity = 4" "length dram_data_rate = 4"
    "length dram_channel_number = 4" "length dram_channel_map = 4"
    by (simp_all add: dram_vendor_def dram_capacity_def dram_data_rate_def dram_channel_number_def dram_channel_map_def)
  have "dram_ok default_dram"
    by (simp add: dram_ok_def default_dram_def dram_vendor_def dram_capacity_def dram_data_rate_def dram_channel_number_def)
  then show ?thesis
    by (simp add: dram_of_flags_def dram_ok_def Let_def nth nums)
qed

lemma zero_dram_ok: "dram_ok zero_dram"
  by (simp add: dram_ok_def zero_dram_def dram_vendor_def dram_capacity_def dram_data_rate_def dram_channel_number_def)

lemma default_dram_ok: "dram_ok default_dram"
  by (simp add: dram_ok_def default_dram_def dram_vendor_def dram_capacity_def dram_data_rate_def dram_channel_number_def)

lemma get_info_in_efuse_ok:
  assumes "get_info_in_efuse junk cfg k = Some (e, cfg', k')" "cf_conner cfg = 0"
  shows "0 \<le> cf_conner cfg'" "cf_conner cfg' < CHIP_CONNER_MAX" "dram_ok (cf_dram cfg')"
    "cf_mode cfg' = cf_mode cfg" "cf_sbi cfg' = cf_sbi cfg" "cf_kernel cfg' = cf_kernel cfg" "cf_dtb cfg' = cf_dtb cfg"
    "cf_dtbo cfg' = cf_dtbo cfg" "cf_ramfs cfg' = cf_ramfs cfg" "cf_cfg cfg' = cf_cfg cfg"
  using assms
  by (auto simp: get_info_in_efuse_def Let_def zero_dram_ok default_dram_ok dram_of_flags_ok CHIP_CONNER_MAX_def
    split: option.splits bind_splits if_splits)

end
