(* ===== verification/Akcipher_Claims.thy ===== *)
theory Akcipher_Claims
  imports Akcipher Libc_Props Sha256_Props
begin

text \<open>
  Reading a public key: a key file in DER form, and what \<open>akcipher_invoke_key\<close> finds in it.
\<close>

subsection \<open>Encoding\<close>

definition der_len :: "nat \<Rightarrow> u8 list" where
  "der_len n = (if n < 128 then [of_nat n] else if n < 256 then [0x81, of_nat n]
     else [0x82, of_nat (n div 256), of_nat (n mod 256)])"

definition tlv :: "u8 \<Rightarrow> u8 list \<Rightarrow> u8 list" where
  "tlv tag body = tag # der_len (length body) @ body"

text \<open>\<open>RSAPublicKey\<close>, with zeros in front of the modulus, and \<open>SubjectPublicKeyInfo\<close>.\<close>

definition rsa_public_key :: "nat \<Rightarrow> u8 list \<Rightarrow> u8 list \<Rightarrow> u8 list" where
  "rsa_public_key z n e = tlv 0x30 (tlv 0x02 (replicate z 0 @ n) @ tlv 0x02 e)"

definition rsa_key_info :: "nat \<Rightarrow> u8 list \<Rightarrow> u8 list \<Rightarrow> u8 list" where
  "rsa_key_info z n e = tlv 0x30 (tlv 0x30 rsa_oid @ tlv 0x03 (0 # rsa_public_key z n e))"

subsection \<open>A position in the file\<close>

definition rest_at :: "mem \<Rightarrow> u64 \<Rightarrow> u32 \<Rightarrow> u8 list \<Rightarrow> bool" where
  "rest_at m data off bs \<longleftrightarrow> holds m (data + ucast off) bs \<and> unat off + length bs < 2 ^ 32"

lemma unat_up: "unat (ucast (off :: u32) :: u64) = unat off"
proof -
  have "unat off < 2 ^ 32" using unsigned_less[of off, where ?'a = nat] by simp
  then have "unat off < 2 ^ 64" by simp
  then show ?thesis by (simp add: unsigned_ucast_eq take_bit_nat_eq_self)
qed

lemma unat_off: "unat (off :: u32) + k < 2 ^ 32 \<Longrightarrow> unat (off + of_nat k) = unat off + k"
  by (subst unat_add_lem[THEN iffD1]) (simp_all add: unsigned_of_nat take_bit_nat_eq_self)

lemma ucast_add:
  assumes "unat (off :: u32) + k < 2 ^ 32"
  shows "(ucast (off + of_nat k) :: u64) = ucast off + of_nat k"
proof -
  have "unat (ucast off + of_nat k :: u64) = unat off + k"
    using assms by (subst unat_offset) (simp_all add: unat_up)
  then show ?thesis using unat_off[OF assms] by (simp add: word_unat_eq_iff unat_up)
qed

lemma rest_at_append:
  assumes "rest_at m data off (xs @ ys)"
  shows "rest_at m data (off + of_nat (length xs)) ys" "holds m (data + ucast off) xs"
    "unat (off + of_nat (length xs)) = unat off + length xs"
proof -
  have "unat off + length xs < 2 ^ 32" using assms by (simp add: rest_at_def)
  from ucast_add[OF this] unat_off[OF this] assms
  show "rest_at m data (off + of_nat (length xs)) ys" "holds m (data + ucast off) xs"
    "unat (off + of_nat (length xs)) = unat off + length xs"
    by (simp_all add: rest_at_def holds_append add.assoc)
qed

lemma rest_at_Cons:
  assumes "rest_at m data off (x # xs)"
  shows "byte_at m data off = x" "rest_at m data (off + 1) xs"
  using rest_at_append[of m data off "[x]" xs] assms by (simp_all add: byte_at_def rest_at_def)

lemma rest_at_bytes:
  assumes "rest_at m data off (xs @ ys)" "n = length xs"
  shows "bytes_at m data off n = xs"
proof -
  have h: "holds m (data + ucast off) xs" and s: "unat off + length xs < 2 ^ 32"
    using assms(1) rest_at_append(2) by (blast, simp add: rest_at_def)
  have "byte_at m data (off + of_nat i) = xs ! i" if "i < length xs" for i
    using h that s ucast_add[of off i] by (simp add: byte_at_def holds_def add.assoc)
  then show ?thesis using assms(2) unfolding bytes_at_def by (subst list_eq_iff_nth_eq) simp
qed

lemma rest_at_shift:
  assumes "rest_at m data off bs"
  shows "rest_at m (data + ucast off) 0 bs"
  using assms by (simp add: rest_at_def)

subsection \<open>Lengths\<close>

lemma length_der_len: "length (der_len n) = (if n < 128 then 1 else if n < 256 then 2 else 3)"
  by (simp add: der_len_def)

lemma high_bit: "n < 128 \<Longrightarrow> (of_nat n :: u8) AND 0x80 = 0"
proof -
  assume "n < 128"
  then have "\<not> bit n 7" by (simp add: bit_iff_odd)
  then have "\<not> bit (of_nat n :: u8) 7" by (simp only: bit_of_nat_iff simp_thms)
  moreover have "(0x80 :: u8) = 2 ^ 7" by simp
  ultimately show ?thesis by (simp only: and_exp_eq_0_iff_not_bit not_False_eq_True)
qed

lemma skip_seq_length_der:
  assumes "rest_at m data off (der_len n @ rest)"
  shows "skip_seq_length m data off = of_nat (length (der_len n))"
proof -
  have "der_len n @ rest = hd (der_len n) # tl (der_len n) @ rest" by (simp add: der_len_def)
  with assms have "byte_at m data off = hd (der_len n)" using rest_at_Cons(1) by metis
  then show ?thesis by (simp add: skip_seq_length_def der_len_def high_bit)
qed

lemma parse_seq_length_der:
  assumes "rest_at m data off (der_len n @ rest)" "n < 65536"
  shows "parse_seq_length m data off 0 = (of_nat (length (der_len n)), of_nat n)"
proof -
  have h: "holds m (data + ucast off) (der_len n)" using rest_at_append(2)[OF assms(1)] .
  consider "n < 128" | "128 \<le> n" "n < 256" | "256 \<le> n" by linarith
  then show ?thesis
  proof cases
    case 1
    then have "unat (of_nat n :: u8) = n" by (simp add: unsigned_of_nat take_bit_nat_eq_self)
    then have "(ucast (of_nat n :: u8) :: u32) = of_nat n" by (metis of_nat_unat)
    with 1 h show ?thesis by (simp add: parse_seq_length_def byte_at_def der_len_def high_bit)
  next
    case 2
    then have "unat (of_nat n :: u8) = n" by (simp add: unsigned_of_nat take_bit_nat_eq_self)
    then have "(ucast (of_nat n :: u8) :: u32) = of_nat n" by (metis of_nat_unat)
    with 2 h show ?thesis by (simp add: parse_seq_length_def byte_at_def der_len_def)
  next
    case 3
    define a b where "a = n div 256" and "b = n mod 256"
    then have ab: "n = a * 256 + b" "a < 256" "b < 256" using assms(2) by auto
    then have "unat (of_nat a :: u8) = a" "unat (of_nat b :: u8) = b" by (simp_all add: unsigned_of_nat take_bit_nat_eq_self)
    then have u: "(ucast (of_nat a :: u8) :: u32) = of_nat a" "(ucast (of_nat b :: u8) :: u32) = of_nat b"
      by (metis of_nat_unat)+
    have "push_bit 8 (of_nat a :: u32) OR of_nat b = of_nat (push_bit 8 a OR b)"
      by (simp only: of_nat_or_eq of_nat_push_bit)
    also have "push_bit 8 a OR b = n"
    proof -
      have "take_bit 8 b = b" using ab(3) by (simp add: take_bit_nat_eq_self)
      then have lt: "bit b k \<Longrightarrow> k < 8" for k by (metis bit_take_bit_iff)
      have "push_bit 8 a + b = push_bit 8 a OR b"
        by (intro disjunctive_add) (metis lt bit_push_bit_iff not_le)
      then show ?thesis using ab(1) by (simp add: push_bit_eq_mult)
    qed
    finally have "push_bit 8 (of_nat a :: u32) OR of_nat b = of_nat n" .
    moreover have "der_len n = [0x82, of_nat a, of_nat b]" using 3 by (simp add: der_len_def a_def b_def)
    moreover have "unat (0x82 AND 0x7F :: u8) = Suc (Suc 0)" by simp
    ultimately show ?thesis using h u
      by (simp only: parse_seq_length_def byte_at_def length_loop.simps holds_Cons)
        (simp add: byte_at_def add.assoc)
  qed
qed

subsection \<open>The parts of a key file\<close>

lemma rest_at_tlv:
  assumes "rest_at m data off (tlv tag body @ rest)" "length body < 65536"
  shows "byte_at m data off = tag"
    "skip_seq_length m data (off + 1) = of_nat (length (der_len (length body)))"
    "parse_seq_length m data (off + 1) 0 = (of_nat (length (der_len (length body))), of_nat (length body))"
    "rest_at m data (off + 1 + of_nat (length (der_len (length body)))) (body @ rest)"
proof -
  have c: "rest_at m data off (tag # der_len (length body) @ body @ rest)" using assms(1) by (simp add: tlv_def)
  note r = rest_at_Cons(2)[OF c]
  show "byte_at m data off = tag" using rest_at_Cons(1)[OF c] .
  show "skip_seq_length m data (off + 1) = of_nat (length (der_len (length body)))"
    using skip_seq_length_der[OF r] .
  show "parse_seq_length m data (off + 1) 0 = (of_nat (length (der_len (length body))), of_nat (length body))"
    using parse_seq_length_der[OF r assms(2)] .
  show "rest_at m data (off + 1 + of_nat (length (der_len (length body)))) (body @ rest)"
    using rest_at_append(1)[OF r] .
qed

lemma skip_zeros_der:
  assumes "rest_at m data off (replicate z 0 @ n @ rest)" "n \<noteq> []" "hd n \<noteq> 0"
  shows "skip_zeros m data off (of_nat (z + k)) = Some (off + of_nat z, of_nat k)"
  using assms(1)
proof (induction z arbitrary: off)
  case 0
  obtain x xs where "n = x # xs" using assms(2) by (cases n) auto
  with 0 have "byte_at m data off = x" "x \<noteq> 0" using rest_at_Cons(1)[of m data off x "xs @ rest"] assms(3) by simp_all
  then show ?case by (subst skip_zeros.simps) simp
next
  case (Suc z)
  have c: "rest_at m data off (0 # replicate z 0 @ n @ rest)" using Suc.prems by simp
  from Suc.IH[OF rest_at_Cons(2)[OF c]] rest_at_Cons(1)[OF c] show ?case
    by (subst skip_zeros.simps) (simp add: add.assoc)
qed

lemma key_put_eq:
  "i + length bs \<le> KEY_SIZE \<Longrightarrow> length key = KEY_SIZE \<Longrightarrow>
    key_put i bs key = Some (take i key @ bs @ drop (i + length bs) key)"
proof (induction bs arbitrary: i key)
  case (Cons b bs)
  then have "key_put i (b # bs) key = Some (take (Suc i) (key[i := b]) @ bs @ drop (Suc i + length bs) (key[i := b]))"
    by simp
  also have "take (Suc i) (key[i := b]) = take i key @ [b]"
    using Cons.prems by (simp add: take_Suc_conv_app_nth)
  finally show ?case by simp
qed simp

lemma cmp_alg_oid_rest: "rest_at m data off (oid @ rest) \<Longrightarrow> cmp_alg_oid m data off oid"
proof (induction oid arbitrary: off)
  case (Cons b bs)
  then have c: "rest_at m data off (b # bs @ rest)" by simp
  with Cons.IH[OF rest_at_Cons(2)[OF c]] rest_at_Cons(1)[OF c] show ?case by simp
qed simp

text \<open>The key as it is kept: the modulus at the start of its array, the exponent at the end of its own.\<close>

definition rsa_key_of :: "u8 list \<Rightarrow> u8 list \<Rightarrow> u8 list \<Rightarrow> u8 list" where
  "rsa_key_of key n e = n @ drop (length n) (take 256 key) @ replicate (256 - length e) 0 @ e"

lemma extract_rsa_key_der:
  assumes "rest_at m data 0 (rsa_public_key z n e @ rest)" "length key = KEY_SIZE"
    "n \<noteq> []" "hd n \<noteq> 0" "length n \<le> 256" "length e \<le> 256" "z < 256"
  shows "extract_rsa_key m data key = Some (True, rsa_key_of key n e, of_nat (length n))"
proof -
  let ?body = "tlv 0x02 (replicate z 0 @ n) @ tlv 0x02 e"
  have lb: "length ?body < 65536" using assms(5-7) by (simp add: tlv_def length_der_len)
  note a = rest_at_tlv[OF assms(1)[unfolded rsa_public_key_def] lb, simplified]
  let ?o1 = "1 + of_nat (length (der_len (length ?body))) :: u32"
  have ln: "length (replicate z 0 @ n) < 65536" "length e < 65536" using assms(5-7) by simp_all
  have r1: "rest_at m data ?o1 (tlv 0x02 (replicate z 0 @ n) @ tlv 0x02 e @ rest)" using a(4) by simp
  note b = rest_at_tlv[OF r1 ln(1)]
  let ?o2 = "?o1 + 1 + of_nat (length (der_len (length (replicate z 0 @ n))))"
  have r2: "rest_at m data ?o2 (replicate z 0 @ n @ tlv 0x02 e @ rest)" using b(4) by simp
  have sz: "skip_zeros m data ?o2 (of_nat (length (replicate z 0 @ n))) = Some (?o2 + of_nat z, of_nat (length n))"
    using skip_zeros_der[OF r2 assms(3,4), of "length n"] by simp
  have r3: "rest_at m data (?o2 + of_nat z) (n @ tlv 0x02 e @ rest)" using rest_at_append(1)[OF r2] by simp
  have un: "unat (of_nat (length n) :: u32) = length n" "unat (of_nat (length e) :: u32) = length e"
    using assms(5,6) by (simp_all add: unsigned_of_nat take_bit_nat_eq_self)
  have k1: "key_put 0 (bytes_at m data (?o2 + of_nat z) (length n)) key = Some (n @ drop (length n) key)"
    using key_put_eq[of 0 n key] assms(2,5) rest_at_bytes[OF r3 refl] by (simp add: KEY_SIZE_def)
  note c = rest_at_tlv[OF rest_at_append(1)[OF r3] ln(2)]
  have eb: "bytes_at m data (?o2 + of_nat z + of_nat (length n) + 1 + of_nat (length (der_len (length e)))) (length e) = e"
    using rest_at_bytes[OF c(4) refl] .
  let ?k1 = "n @ drop (length n) key"
  have lk: "length ?k1 = KEY_SIZE" using assms(2,5) by (simp add: KEY_SIZE_def)
  have "key_put 256 (replicate (256 - length e) 0 @ e) ?k1 = Some (take 256 ?k1 @ replicate (256 - length e) 0 @ e)"
    using key_put_eq[of 256 "replicate (256 - length e) 0 @ e" ?k1, OF _ lk] assms(6) lk by (simp add: KEY_SIZE_def)
  also have "take 256 ?k1 = n @ drop (length n) (take 256 key)"
    using assms(5) by (simp add: drop_take)
  finally have k2: "key_put 256 (replicate (256 - length e) 0 @ e) ?k1 = Some (rsa_key_of key n e)"
    by (simp add: rsa_key_of_def)
  have e: "\<not> (256 < (of_nat (length e) :: u32))" using un(2) assms(6) by (simp add: word_less_nat_alt)
  show ?thesis
    using a(1,2) b(1,3) sz k1 c(1,3) eb k2 e
    by (simp add: extract_rsa_key_def Let_def un add.assoc)
qed

lemma holds_mem_bytes: "holds m a xs \<longleftrightarrow> mem_bytes m a (length xs) = xs"
  unfolding holds_def mem_bytes_def by (subst list_eq_iff_nth_eq) simp

text \<open>
  C30: A public key is read back as it was written. If the DER encoding of an RSA key with modulus
  \<open>n\<close> and exponent \<open>e\<close> of at most 256 bytes (and any number of zeros in front of the modulus) is in
  memory, \<open>akcipher_invoke_key\<close> stores exactly the modulus, without its zeros and with its length, and
  the exponent, padded to 256 bytes, and accepts the key exactly if its SHA-256 digest is the
  expected one. This goes through every form of the lengths that occur.
\<close>
theorem akcipher_invoke_key_der:
  assumes "holds m der (rsa_key_info z n e)" "length (ak_key ctx) = KEY_SIZE" "length (j_hash_buf j) = 64"
    "n \<noteq> []" "hd n \<noteq> 0" "length n \<le> 256" "length e \<le> 256" "z < 256"
  shows "akcipher_invoke_key j m ctx der (int (length (rsa_key_info z n e))) hash =
    Some (take 32 hash = sha256 (rsa_key_info z n e),
      ctx\<lparr>ak_alg := RSA, ak_key := rsa_key_of (ak_key ctx) n e, ak_key_len := of_nat (length n)\<rparr>)"
proof -
  let ?pk = "rsa_public_key z n e"
  let ?body = "tlv 0x30 rsa_oid @ tlv 0x03 (0 # ?pk)" and ?der = "rsa_key_info z n e"
  have lp: "length (0 # ?pk) < 65536" and lb: "length ?body < 65536" and ld: "length ?der < 2 ^ 32" "15 \<le> length ?der"
    using assms(4,6-8) by (simp_all add: rsa_key_info_def rsa_public_key_def tlv_def length_der_len rsa_oid_def)
  have "rest_at m der 0 (tlv 0x30 ?body @ [])"
    using assms(1) ld(1) by (simp add: rest_at_def rsa_key_info_def)
  note a = rest_at_tlv[OF this lb, simplified]
  let ?o1 = "1 + of_nat (length (der_len (length ?body))) :: u32"
  have r1: "rest_at m der ?o1 (tlv 0x30 rsa_oid @ tlv 0x03 (0 # ?pk))" using a(4) by simp
  have "length rsa_oid < 65536" by (simp add: rsa_oid_def)
  note b = rest_at_tlv[OF r1 this]
  let ?o2 = "?o1 + 1 + of_nat (length (der_len (length rsa_oid)))"
  have alg: "parse_alg_oid m der ?o2 (of_nat (length rsa_oid)) = Some RSA"
    using cmp_alg_oid_rest[OF b(4)] by (simp add: parse_alg_oid_def rsa_oid_def)
  let ?o3 = "?o2 + of_nat (length rsa_oid)"
  have r3: "rest_at m der ?o3 (tlv 0x03 (0 # ?pk) @ [])" using rest_at_append(1)[OF b(4)] by simp
  note c = rest_at_tlv[OF r3 lp]
  let ?o4 = "?o3 + 1 + of_nat (length (der_len (length (0 # ?pk))))"
  have "rest_at m der (?o4 + 1) (?pk @ [])" using rest_at_Cons(2)[of m der ?o4 0 "?pk @ []"] c(4) by simp
  from extract_rsa_key_der[OF rest_at_shift[OF this] assms(2,4-8)]
  have key: "extract_rsa_key m (der + ucast (?o4 + 1)) (ak_key ctx) = Some (True, rsa_key_of (ak_key ctx) n e, of_nat (length n))" .
  have "sha256_or j ?der = sha256 ?der" using do_sha256_correct[of ?der "j_hash_buf j"] ld(1) assms(3)
    by (simp add: sha256_or_def)
  then have ver: "pubkey_verify j hash RSA (mem_bytes m der (length ?der)) \<longleftrightarrow> take 32 hash = sha256 ?der"
    using assms(1) by (simp add: pubkey_verify_def holds_mem_bytes length_sha256)
  show ?thesis
    using ld(2) a(1,2) b(1,3) alg c(1,2) key ver
    by (simp add: akcipher_invoke_key_def Let_def add.assoc)
qed

definition demo_junk :: junk where
  "demo_junk = \<lparr>j_hash_buf = replicate 64 0, j_hmsg = [], j_key_len = 0, j_pubx = [], j_puby = [],
     j_r = [], j_s = [], j_y = []\<rparr>"

theorem akcipher_invoke_key_der_witness:
  "akcipher_invoke_key demo_junk (place 0x1000 (rsa_key_info 1 [0xB5, 7] [1, 0, 1]) (\<lambda>_. 0))
      \<lparr>ak_alg = SM2, ak_key_len = 0, ak_key = replicate 512 0\<rparr> 0x1000 (int (length (rsa_key_info 1 [0xB5, 7] [1, 0, 1])))
      (sha256 (rsa_key_info 1 [0xB5, 7] [1, 0, 1])) =
    Some (True, \<lparr>ak_alg = RSA, ak_key_len = 2, ak_key = [0xB5, 7] @ replicate 254 0 @ replicate 253 0 @ [1, 0, 1]\<rparr>)"
proof -
  let ?der = "rsa_key_info 1 [0xB5, 7] [1, 0, 1]" and ?ctx = "\<lparr>ak_alg = SM2, ak_key_len = 0, ak_key = replicate 512 0\<rparr>"
  have "length ?der < 2 ^ 64"
    by (simp add: rsa_key_info_def rsa_public_key_def tlv_def length_der_len rsa_oid_def)
  then have h: "holds (place 0x1000 ?der (\<lambda>_. 0)) 0x1000 ?der" by (rule holds_place)
  have "akcipher_invoke_key demo_junk (place 0x1000 ?der (\<lambda>_. 0)) ?ctx 0x1000 (int (length ?der)) (sha256 ?der) =
    Some (take 32 (sha256 ?der) = sha256 ?der,
      ?ctx\<lparr>ak_alg := RSA, ak_key := rsa_key_of (ak_key ?ctx) [0xB5, 7] [1, 0, 1], ak_key_len := of_nat (length [0xB5, 7 :: u8])\<rparr>)"
    by (rule akcipher_invoke_key_der[OF h]) (simp_all add: KEY_SIZE_def demo_junk_def)
  then show ?thesis by (simp add: length_sha256 rsa_key_of_def)
qed

end
