(* ===== verification/Plat_Claims.thy ===== *)
theory Plat_Claims
  imports Plat_Props Akcipher_Claims
begin

text \<open>
  The properties of the boot of a SG2044 board.
\<close>

subsection \<open>Secure boot\<close>

text \<open>
  C27: With secure boot, what is booted is what was verified. If \<open>load_files\<close> returns (any other
  outcome is the endless loop of \<open>load\<close> or a fault), every image that has a name and an address,
  as it lies in memory at the end, carries a signature of the platform's key, and names and
  addresses are those of the configuration. The files must not overlap each other or the buffer
  of the signatures, where \<open>cap\<close> is the most that a boot device delivers for a name: with less,
  a later file could replace a verified one.
\<close>
theorem secure_boot_images:
  assumes "cf_secure cfg" "load_files env cfg s = Some (cfg', s')" "length (j_hash_buf (le_junk env)) = 64"
    "\<forall>f \<in> set (images cfg). roomy cap s f" "laid_out env cap (images cfg)"
  shows "map bf_name (images cfg') = map bf_name (images cfg) \<and> map bf_addr (images cfg') = map bf_addr (images cfg) \<and>
    (\<forall>f \<in> set (images cfg'). wanted f \<longrightarrow> unat (bf_size f) \<le> cap (name_of f) \<and>
       signed (le_junk env) (le_algs env) (cf_akcipher_ctx cfg) (mem_bytes (bm_mem s') (bf_addr f) (unat (bf_size f))))"
  using load_all_genuine[OF load_files_all[OF assms(2)] assms(1,3,4,5)] unfolding genuine_def by blast

text \<open>A board with one boot device, which has three bytes under every name, and a key that accepts.\<close>

definition demo_sig :: "u8 list" where "demo_sig = replicate 224 0 @ sha256 [1, 2, 3]"

definition demo_algs :: algs where
  "demo_algs = \<lparr>al_list = [\<lparr>a_name = ''rsa'', a_base_name = ''rsa'',
      a_ops = Some \<lparr>a_rsa = \<lambda>n e x l. Some demo_sig, a_sm2 = \<lambda>m x y r s l. False\<rparr>\<rparr>], al_count = 0\<rparr>"

definition demo_lenv :: load_env where
  "demo_lenv = \<lparr>le_junk = demo_junk, le_algs = demo_algs, le_sig_data = 0x9000, le_pubkey_der = 0xA000\<rparr>"

definition no_file :: boot_file where "no_file = \<lparr>bf_name = None, bf_addr = 0, bf_size = 0\<rparr>"

definition demo_config :: config where
  "demo_config = \<lparr>cf_dram = default_dram, cf_mode = CHIP_WORK_MODE_CPU, cf_bootargs = None, cf_reserved_memory_size = 0,
     cf_tpu_avl = True, cf_conner = 0, cf_op = None, cf_secure = True,
     cf_sbi = \<lparr>bf_name = Some ''fw'', bf_addr = 0x1000, bf_size = 0\<rparr>,
     cf_kernel = \<lparr>bf_name = Some ''Image'', bf_addr = 0x2000, bf_size = 0\<rparr>,
     cf_dtb = no_file, cf_dtbo = no_file, cf_ramfs = no_file, cf_cfg = no_file,
     cf_akcipher_ctx = \<lparr>ak_alg = RSA, ak_key_len = 256, ak_key = replicate 512 0\<rparr>\<rparr>"

definition demo_state :: "heap_st \<Rightarrow> mem \<Rightarrow> (u64 \<times> u64) list \<Rightarrow> (nat, unit) bdm" where
  "demo_state h m fl = \<lparr>
     bm_k = \<lparr>k_heap = h, k_next = 3,
       k_dev = [1 \<mapsto> \<lparr>d_name = ''boot:sd0'', d_alias = ''sd0'', d_status = DEVICE_STATUS_OK\<rparr>],
       k_global = [1], k_blk = Map.empty, k_blk_list = [], k_blk_count = 0, k_mtd = Map.empty, k_mtd_list = [],
       k_mtd_count = 0, k_nvmem = Map.empty, k_nvmem_list = [], k_nvmem_count = 0, k_serial = Map.empty,
       k_serial_list = [], k_serial_count = 0, k_serial_stdio = None, k_blk_ops = \<lambda>_. \<lparr>io_read = None, io_write = None\<rparr>,
       k_mtd_ops = \<lambda>_. \<lparr>io_read = None, io_write = None\<rparr>, k_nvmem_ops = \<lambda>_. \<lparr>io_read = None, io_write = None\<rparr>,
       k_serial_ops = \<lambda>_. \<lparr>sio_input = None, sio_output = None, sio_set_speed = None\<rparr>, k_hw = 0\<rparr>,
     bm_links = \<lparr>l_next = [0 \<mapsto> 1, 1 \<mapsto> 0], l_prev = [0 \<mapsto> 1, 1 \<mapsto> 0]\<rparr>,
     bm_boot = [1 \<mapsto> \<lparr>bt_ops = Some 0, bt_size = 64, bt_priority = 0, bt_disabled = 0, bt_data = None\<rparr>],
     bm_ops = \<lambda>i. \<lparr>bo_load = Some (\<lambda>data file k. Some ((3, [1, 2, 3]), k)),
                    bo_get_file_size = Some (\<lambda>data file k. Some (3, k))\<rparr>,
     bm_mem = m, bm_flushed = fl\<rparr>"

lemma demo_bdm_load:
  "bdm_load name buf (demo_state h m fl) = Some (3, demo_state h (place buf [1, 2, 3] m) (fl @ [(buf, buf + 3)]))"
  unfolding bdm_load_def
  by (subst bdm_load_from.simps)
    (simp add: bootdev_first_def list_first_entry_or_null_def boot_list_def demo_state_def bootdev_load_def
      list_is_last_def)

definition demo_signed_mem :: "u64 \<Rightarrow> mem \<Rightarrow> mem" where
  "demo_signed_mem a m = place 0x9000 [1, 2, 3] (place a [1, 2, 3] m)"

lemma demo_load:
  assumes "h_ok h = (\<lambda>_. True)" "a = 0x1000 \<or> a = 0x2000" "n = ''fw'' \<or> n = ''Image''"
  shows "\<exists>h' fl'. h_ok h' = (\<lambda>_. True) \<and>
    load demo_lenv demo_config \<lparr>bf_name = Some n, bf_addr = a, bf_size = z\<rparr> True (demo_state h m fl) =
      Some (\<lparr>bf_name = Some n, bf_addr = a, bf_size = 3\<rparr>, demo_state h' (demo_signed_mem a m) fl')"
proof -
  let ?m = "demo_signed_mem a m"
  have img: "mem_bytes ?m a 3 = [1, 2, 3]"
    using assms(2) by (auto simp: mem_bytes_def demo_signed_mem_def place_def upt_rec[of 0 3] upt_rec[of "Suc _" 3])
  have sha: "sha256_or (le_junk demo_lenv) [1, 2, 3] = sha256 [1, 2, 3]"
    by (simp add: sha256_or_def do_sha256_correct demo_lenv_def demo_junk_def)
  have "rsa_verify (le_junk demo_lenv) (le_algs demo_lenv) ?m (cf_akcipher_ctx demo_config) a 0x9000 3 = Some True"
    using sha by (simp add: rsa_verify_def img demo_lenv_def demo_algs_def alg_find_by_name_def demo_sig_def length_sha256)
  moreover obtain h1 where "malloc h = (True, h1)" "h_ok h1 = (\<lambda>_. True)"
    using assms(1) by (simp add: malloc_def)
  ultimately have v: "akcipher_verify (le_junk demo_lenv) (le_algs demo_lenv) ?m h (cf_akcipher_ctx demo_config) a 0x9000 3 =
      Some (True, mfree h1)" "h_ok (mfree h1) = (\<lambda>_. True)"
    by (simp_all add: akcipher_verify_def mfree_def demo_config_def)
  have st: "bm_mem (demo_state h m fl) = m" "k_heap (bm_k (demo_state h m fl)) = h"
    "with_heap h' (demo_state h m fl) = demo_state h' m fl" for h m fl h'
    by (simp_all add: demo_state_def with_heap_def)
  have "load demo_lenv demo_config \<lparr>bf_name = Some n, bf_addr = a, bf_size = z\<rparr> True (demo_state h m fl) =
      Some (\<lparr>bf_name = Some n, bf_addr = a, bf_size = 3\<rparr>,
        demo_state (mfree h1) ?m ((fl @ [(a, a + 3)]) @ [(0x9000, 0x9000 + 3)]))"
    using assms(2,3) v(1)
    by (auto simp: load_def demo_bdm_load wanted_def demo_config_def demo_lenv_def SIG_SIZE_def st demo_signed_mem_def)
  with v(2) show ?thesis by blast
qed

theorem secure_boot_images_witness:
  "\<exists>cfg' s'. load_files demo_lenv demo_config (demo_state heap_init (\<lambda>_. 0) []) = Some (cfg', s') \<and>
     (\<forall>f \<in> set (images cfg'). wanted f \<longrightarrow> unat (bf_size f) \<le> 16 \<and>
       signed (le_junk demo_lenv) (le_algs demo_lenv) (cf_akcipher_ctx demo_config)
         (mem_bytes (bm_mem s') (bf_addr f) (unat (bf_size f))))"
proof -
  let ?s = "demo_state heap_init (\<lambda>_. 0) []"
  have no: "load demo_lenv demo_config no_file v s = Some (no_file, s)" for v and s :: "(nat, unit) bdm"
    by (simp add: load_def wanted_def no_file_def)
  obtain h1 fl1 where l1: "h_ok h1 = (\<lambda>_. True)" "load demo_lenv demo_config (cf_sbi demo_config) True ?s =
      Some (\<lparr>bf_name = Some ''fw'', bf_addr = 0x1000, bf_size = 3\<rparr>, demo_state h1 (demo_signed_mem 0x1000 (\<lambda>_. 0)) fl1)"
    using demo_load[of heap_init "0x1000" "''fw''" 0 "\<lambda>_. 0" "[]"] by (auto simp: heap_init_def demo_config_def)
  obtain h2 fl2 where l2: "load demo_lenv demo_config (cf_kernel demo_config) True
      (demo_state h1 (demo_signed_mem 0x1000 (\<lambda>_. 0)) fl1) =
      Some (\<lparr>bf_name = Some ''Image'', bf_addr = 0x2000, bf_size = 3\<rparr>,
        demo_state h2 (demo_signed_mem 0x2000 (demo_signed_mem 0x1000 (\<lambda>_. 0))) fl2)"
    using demo_load[OF l1(1), of "0x2000" "''Image''" 0 "demo_signed_mem 0x1000 (\<lambda>_. 0)" fl1]
    by (auto simp: demo_config_def)
  have "cf_dtb demo_config = no_file" "cf_dtbo demo_config = no_file" "cf_ramfs demo_config = no_file"
    by (simp_all add: demo_config_def)
  then obtain cfg' s' where run: "load_files demo_lenv demo_config ?s = Some (cfg', s')"
    using l1(2) l2 no by (simp add: load_files_def load_upd Let_def)
  have "fits ?s n 16" "fits ?s n 256" for n by (auto simp: fits_def loader_def demo_state_def split: bind_splits if_splits)
  then have "\<forall>f \<in> set (images demo_config). roomy (\<lambda>_. 16) ?s f"
    by (simp add: roomy_def)
  moreover have "laid_out demo_lenv (\<lambda>_. 16) (images demo_config)"
    by (auto simp: laid_out_def images_def region_def wanted_def demo_config_def demo_lenv_def no_file_def
      dest: inside_twice)
  moreover have "cf_secure demo_config" "length (j_hash_buf (le_junk demo_lenv)) = 64"
    by (simp_all add: demo_config_def demo_lenv_def demo_junk_def)
  ultimately show ?thesis using secure_boot_images[OF _ run] run by blast
qed

subsection \<open>The configuration\<close>


definition demo_fuses :: "nat kernel" where
  "demo_fuses = (bm_k (demo_state heap_init (\<lambda>_. 0) []))\<lparr>
     k_dev := [1 \<mapsto> \<lparr>d_name = ''nvmem0'', d_alias = ''efuse0'', d_status = DEVICE_STATUS_OK\<rparr>,
               2 \<mapsto> \<lparr>d_name = ''nvmem1'', d_alias = ''efuse1'', d_status = DEVICE_STATUS_OK\<rparr>],
     k_nvmem := [1 \<mapsto> \<lparr>nv_ops = Some 0, nv_cell_bits = 32, nv_cell_count = 128, nv_data = None\<rparr>,
                 2 \<mapsto> \<lparr>nv_ops = Some 0, nv_cell_bits = 32, nv_cell_count = 128, nv_data = None\<rparr>],
     k_nvmem_list := [1, 2],
     k_nvmem_ops := \<lambda>_. \<lparr>io_read = Some (\<lambda>data off len hw. (Inr [0x45, 0x14, 0x07, 0], hw)), io_write = None\<rparr>\<rparr>"


end
