(* ===== verification/Ini_Props.thy ===== *)
theory Ini_Props
  imports Ini
begin

text \<open>
  Parsing an INI file: documents as lists of items, their rendering, and what the parser does with
  a rendered document.
\<close>

subsection \<open>Documents\<close>

text \<open>
  An entry has blanks around its separator, a continuation has some in front. The blanks are spaces
  and tabs.
\<close>

datatype ini_item =
    Section "u8 list"
  | Entry "u8 list" "u8 list" u8 "u8 list" "u8 list"
  | Cont "u8 list" "u8 list"
  | Remark u8 "u8 list"
  | Blank "u8 list"

fun item_line :: "ini_item \<Rightarrow> u8 list" where
  "item_line (Section s) = [91] @ s @ [93]"
| "item_line (Entry n a c b v) = n @ a @ [c] @ b @ v"
| "item_line (Cont a v) = a @ v"
| "item_line (Remark c s) = c # s"
| "item_line (Blank a) = a"

definition render :: "ini_item list \<Rightarrow> u8 list" where
  "render items = concat (map (\<lambda>i. item_line i @ [10]) items)"

definition blanks :: "u8 list \<Rightarrow> bool" where "blanks a \<longleftrightarrow> set a \<subseteq> {32, 9}"

definition trimmed :: "u8 list \<Rightarrow> bool" where
  "trimmed v \<longleftrightarrow> v \<noteq> [] \<longrightarrow> \<not> isspace (hd v) \<and> \<not> isspace (last v)"

text \<open>A value has no comment sign, so that it is not cut; the parser allows one that is not behind a space.\<close>

fun item_ok :: "ini_item \<Rightarrow> bool" where
  "item_ok (Section s) \<longleftrightarrow> set s \<inter> {93, 59, 10, 13} = {} \<and> length s < MAX_SECTION"
| "item_ok (Entry n a c b v) \<longleftrightarrow> n \<noteq> [] \<and> hd n \<notin> {91, 59, 35, 0xEF} \<and> (\<forall>x \<in> set n. \<not> isspace x \<and> x \<notin> {61, 58, 59}) \<and>
     c \<in> {61, 58} \<and> blanks a \<and> blanks b \<and> trimmed v \<and> set v \<inter> {59, 10, 13} = {}"
| "item_ok (Cont a v) \<longleftrightarrow> a \<noteq> [] \<and> blanks a \<and> v \<noteq> [] \<and> trimmed v \<and> hd v \<noteq> 35 \<and> set v \<inter> {59, 10, 13} = {}"
| "item_ok (Remark c s) \<longleftrightarrow> c \<in> {59, 35} \<and> set s \<inter> {10, 13} = {}"
| "item_ok (Blank a) \<longleftrightarrow> blanks a"

text \<open>A continuation needs an entry of its section before it.\<close>

fun conts_ok :: "bool \<Rightarrow> ini_item list \<Rightarrow> bool" where
  "conts_ok e [] = True"
| "conts_ok e (i # is) =
     (case i of
        Section s \<Rightarrow> conts_ok False is
      | Entry n a c b v \<Rightarrow> conts_ok True is
      | Cont a v \<Rightarrow> e \<and> conts_ok e is
      | _ \<Rightarrow> conts_ok e is)"

definition document_ok :: "ini_item list \<Rightarrow> bool" where
  "document_ok items \<longleftrightarrow>
     (\<forall>i \<in> set items. item_ok i \<and> length (item_line i) < INI_MAX_LINE - 1 \<and> 0 \<notin> set (item_line i)) \<and> conts_ok False items"

text \<open>
  What a parser has to do: the handler gets every entry with its section, and every continuation
  with the name of its entry (of which 49 characters are kept). The number of the first line that is
  rejected is kept.
\<close>

definition call_item :: "'u ini_handler \<Rightarrow> nat \<Rightarrow> u8 list \<Rightarrow> u8 list \<Rightarrow> u8 list \<Rightarrow> nat \<times> 'u \<Rightarrow> nat \<times> 'u" where
  "call_item h k sec name value r =
     (case h (snd r) sec name value of (ok, u) \<Rightarrow> (if fst r = 0 \<and> \<not> ok then k else fst r, u))"

fun run_items :: "'u ini_handler \<Rightarrow> nat \<Rightarrow> u8 list \<Rightarrow> u8 list \<Rightarrow> nat \<times> 'u \<Rightarrow> ini_item list \<Rightarrow> nat \<times> 'u" where
  "run_items h k sec prev r [] = r"
| "run_items h k sec prev r (i # is) =
     (case i of
        Section s \<Rightarrow> run_items h (k + 1) s [] r is
      | Entry n a c b v \<Rightarrow> run_items h (k + 1) sec n (call_item h k sec n v r) is
      | Cont a v \<Rightarrow> run_items h (k + 1) sec prev (call_item h k sec (take 49 prev) v r) is
      | _ \<Rightarrow> run_items h (k + 1) sec prev r is)"

subsection \<open>Lines\<close>

lemma isspace_simps [simp]: "isspace 10" "isspace 32" "isspace 9" "\<not> isspace 91" "\<not> isspace 93" "\<not> isspace 61" "\<not> isspace 58"
  "\<not> isspace 59" "\<not> isspace 35" "\<not> isspace 0xEF"
  by (simp_all add: isspace_def)

lemma reader_line:
  assumes "set l \<inter> {10, 13} = {}" "length l < k"
  shows "ini_reader_string k (l @ 10 # rest) = (l @ [10], rest)"
  using assms
proof (induction l arbitrary: k)
  case Nil
  then show ?case by (cases k) simp_all
next
  case (Cons c l)
  then show ?case by (cases k) simp_all
qed

lemma rstrip_snoc: "isspace c \<Longrightarrow> rstrip (s @ [c]) = rstrip s"
  by (simp add: rstrip_def)

lemma rstrip_spaces: "\<forall>c \<in> set b. isspace c \<Longrightarrow> rstrip (s @ b) = rstrip s"
  by (induction b rule: rev_induct) (simp_all add: rstrip_snoc flip: append_assoc)

lemma rstrip_end: "\<not> isspace (last s) \<Longrightarrow> s \<noteq> [] \<Longrightarrow> rstrip s = s"
  by (cases s rule: rev_cases) (simp_all add: rstrip_def)

lemma rstrip_Nil [simp]: "rstrip [] = []"
  by (simp add: rstrip_def)

lemma lskip_spaces: "\<forall>c \<in> set b. isspace c \<Longrightarrow> lskip (b @ s) = lskip s"
  by (induction b) (simp_all add: lskip_def)

lemma lskip_start: "\<not> isspace (hd s) \<or> s = [] \<Longrightarrow> lskip s = s"
  by (cases s) (simp_all add: lskip_def)

lemma find_chars_stop:
  assumes "set xs \<inter> insert 59 (set cs) = {}" "e \<in> set cs"
  shows "find_chars_or_comment cs w (xs @ e # ys) = (xs, e # ys)"
  using assms by (induction xs arbitrary: w) auto

lemma find_chars_none:
  assumes "set xs \<inter> insert 59 (set cs) = {}"
  shows "find_chars_or_comment cs w xs = (xs, [])"
  using assms by (induction xs arbitrary: w) auto

lemma blanks_isspace: "blanks a \<Longrightarrow> \<forall>c \<in> set a. isspace c"
  by (auto simp: blanks_def)

lemma blanks_sep: "blanks a \<Longrightarrow> set a \<inter> {61, 58, 59, 10, 13} = {}"
  by (auto simp: blanks_def)

lemma trimmed_strips: "trimmed v \<Longrightarrow> rstrip v = v \<and> lskip v = v"
  by (cases "v = []") (auto simp: trimmed_def rstrip_end lskip_start)

text \<open>A line that does not start with the byte order mark, in its parts.\<close>

lemma ini_line_unmarked:
  assumes "hd line \<noteq> 0xEF"
  shows "ini_line h k line st =
     (let stripped = rstrip line; start = lskip stripped; moved = (start \<noteq> stripped)
      in case start of
           [] \<Rightarrow> st
         | c # cs \<Rightarrow>
             (if c = 59 \<or> c = 35 then st
              else if is_prev_name st \<noteq> [] \<and> moved
              then ini_call h k (is_prev_name st) (rstrip (fst (find_chars_or_comment [] False start))) st
              else if c = 91
              then (case find_chars_or_comment [93] False cs of
                      (before, e # _) \<Rightarrow>
                        (if e = 93 then st\<lparr>is_section := strncpy0 before MAX_SECTION, is_prev_name := []\<rparr>
                         else ini_error k st)
                    | (before, []) \<Rightarrow> ini_error k st)
              else
                (case find_chars_or_comment [61, 58] False start of
                   (before, e # after) \<Rightarrow>
                     (if e = 61 \<or> e = 58
                      then
                        (let name = rstrip before;
                             value = rstrip (lskip (fst (find_chars_or_comment [] False after)))
                         in ini_call h k name value (st\<lparr>is_prev_name := strncpy0 name MAX_NAME\<rparr>))
                      else ini_error k st)
                 | (before, []) \<Rightarrow> ini_error k st)))"
proof -
  have "\<not> has_bom k line" using assms by (cases line) (auto simp: has_bom_def)
  then show ?thesis by (simp add: ini_line_def)
qed

definition ini_at :: "u8 list \<Rightarrow> u8 list \<Rightarrow> nat \<times> 'u \<Rightarrow> 'u ini_st" where
  "ini_at sec prev r = \<lparr>is_section = sec, is_prev_name = take 49 prev, is_error = fst r, is_user = snd r\<rparr>"

lemma ini_call_at: "ini_call h k name value (ini_at sec prev r) = ini_at sec prev (call_item h k sec name value r)"
  by (simp add: ini_call_def ini_at_def ini_error_def call_item_def Let_def split: prod.splits)

lemma at_prev: "(ini_at sec prev r)\<lparr>is_prev_name := strncpy0 name MAX_NAME\<rparr> = ini_at sec name r"
  by (simp add: ini_at_def strncpy0_def MAX_NAME_def)

lemma line_Section:
  assumes "item_ok (Section s)"
  shows "ini_line h k (item_line (Section s) @ [10]) (ini_at sec prev r) = ini_at s [] r"
proof -
  let ?l = "[91] @ s @ [93]"
  have "rstrip (?l @ [10]) = ?l" by (simp add: rstrip_snoc[of 10 ?l, simplified] rstrip_end)
  moreover have "lskip ?l = ?l" by (simp add: lskip_start)
  moreover have "find_chars_or_comment [93] False (s @ [93]) = (s, [93])"
    using assms find_chars_stop[of s "[93]" 93 False "[]"] by simp
  ultimately show ?thesis using assms
    by (subst ini_line_unmarked) (simp_all add: strncpy0_def MAX_SECTION_def ini_at_def)
qed

lemma line_Blank:
  assumes "item_ok (Blank a)"
  shows "ini_line h k (item_line (Blank a) @ [10]) (ini_at sec prev r) = ini_at sec prev r"
proof -
  have "\<forall>c \<in> set (a @ [10]). isspace c" using assms by (auto simp: blanks_def)
  from rstrip_spaces[OF this, of "[]"] have "rstrip (a @ [10]) = []" by simp
  moreover have "hd (a @ [10]) \<noteq> 0xEF" using assms by (cases a) (auto simp: blanks_def)
  ultimately show ?thesis by (subst ini_line_unmarked) (simp_all add: lskip_def)
qed

lemma line_Remark:
  assumes "item_ok (Remark c s)"
  shows "ini_line h k (item_line (Remark c s) @ [10]) (ini_at sec prev r) = ini_at sec prev r"
proof -
  have c: "c = 59 \<or> c = 35" using assms by simp
  obtain s' where s': "rstrip (c # s @ [10]) = c # s'"
  proof (cases "\<forall>x \<in> set s. isspace x")
    case True
    then have "\<forall>x \<in> set (s @ [10]). isspace x" by simp
    from rstrip_spaces[OF this, of "[c]"] have "rstrip ([c] @ s @ [10]) = rstrip [c]" .
    moreover have "rstrip [c] = [c]" using c by (intro rstrip_end) auto
    ultimately show ?thesis using that by simp
  next
    case False
    then obtain ys y zs where "s = ys @ y # zs" "\<not> isspace y" "\<forall>z \<in> set zs. isspace z"
      using split_list_last_prop[of s "\<lambda>x. \<not> isspace x"] by blast
    moreover from this(3) have "\<forall>z \<in> set (zs @ [10]). isspace z" by simp
    ultimately have "rstrip (c # s @ [10]) = c # ys @ [y]"
      using rstrip_spaces[of "zs @ [10]" "c # ys @ [y]"] by (simp add: rstrip_end)
    with that show ?thesis by simp
  qed
  then show ?thesis using c
    by (subst ini_line_unmarked) (auto simp: lskip_def)
qed

lemma line_Cont:
  assumes "item_ok (Cont a v)" "prev \<noteq> []"
  shows "ini_line h k (item_line (Cont a v) @ [10]) (ini_at sec prev r) =
    ini_at sec prev (call_item h k sec (take 49 prev) v r)"
proof -
  have v: "v \<noteq> []" "\<not> isspace (hd v)" "\<not> isspace (last v)" "hd v \<noteq> 35" "set v \<inter> {59, 10, 13} = {}"
    and a: "a \<noteq> []" "blanks a" using assms(1) by (simp_all add: trimmed_def)
  have "rstrip ((a @ v) @ [10]) = a @ v" using v by (simp only: rstrip_snoc isspace_simps) (simp add: rstrip_end)
  moreover have "lskip (a @ v) = v"
    using v(2) by (simp add: lskip_spaces[OF blanks_isspace[OF a(2)]] lskip_start)
  moreover have "find_chars_or_comment [] False v = (v, [])" using v(5) by (intro find_chars_none) auto
  moreover have "hd ((a @ v) @ [10]) \<noteq> 0xEF" using a by (cases a) (auto simp: blanks_def)
  moreover have "rstrip v = v" using v(1,3) by (simp add: rstrip_end)
  moreover obtain x xs where "v = x # xs" "x \<noteq> 59" "x \<noteq> 35" using v(1,4,5) by (cases v) auto
  moreover have "is_prev_name (ini_at sec prev r) \<noteq> []" using assms(2) by (cases prev) (simp_all add: ini_at_def)
  ultimately show ?thesis using a(1)
    by (subst ini_line_unmarked) (simp_all add: Let_def ini_call_at, simp add: ini_at_def)
qed

lemma line_Entry:
  assumes "item_ok (Entry n a c b v)"
  shows "ini_line h k (item_line (Entry n a c b v) @ [10]) (ini_at sec prev r) =
    ini_at sec n (call_item h k sec n v r)"
proof -
  have n: "n \<noteq> []" "hd n \<notin> {91, 59, 35, 0xEF}" "\<forall>x \<in> set n. \<not> isspace x \<and> x \<notin> {61, 58, 59}"
    and c: "c \<in> {61, 58}" and ab: "blanks a" "blanks b" and v: "trimmed v" "set v \<inter> {59, 10, 13} = {}"
    using assms by simp_all
  define b' where "b' = (if v = [] then [] else b)"
  let ?l = "n @ a @ c # b' @ v"
  have cs: "\<not> isspace c" using c by auto
  have strip: "rstrip ((n @ a @ [c] @ b @ v) @ [10]) = ?l"
  proof (cases "v = []")
    case True
    have "rstrip (((n @ a @ [c]) @ b) @ [10]) = rstrip (n @ a @ [c])"
      by (simp only: rstrip_snoc isspace_simps rstrip_spaces[OF blanks_isspace[OF ab(2)]])
    then show ?thesis using True cs by (simp add: b'_def rstrip_end)
  next
    case False
    then have "\<not> isspace (last (n @ a @ [c] @ b @ v))" using v(1) by (simp add: trimmed_def)
    then have "rstrip (n @ a @ [c] @ b @ v) = n @ a @ [c] @ b @ v" by (intro rstrip_end) (simp_all add: n(1))
    then show ?thesis using False by (simp only: rstrip_snoc isspace_simps) (simp add: b'_def)
  qed
  obtain x xs where x: "n = x # xs" using n(1) by (cases n) auto
  have skip: "lskip ?l = ?l" using n(3) x by (intro lskip_start) simp
  have sep: "find_chars_or_comment [61, 58] False ((n @ a) @ c # (b' @ v)) = (n @ a, c # b' @ v)"
    using n(3) blanks_sep[OF ab(1)] c by (intro find_chars_stop) auto
  have "last n \<in> set n" using n(1) by simp
  then have name: "rstrip (n @ a) = n"
    using n(1,3) by (simp add: rstrip_spaces[OF blanks_isspace[OF ab(1)]] rstrip_end)
  have bb: "blanks b'" using ab(2) by (simp add: b'_def blanks_def)
  have "find_chars_or_comment [] False (b' @ v) = (b' @ v, [])"
    using blanks_sep[OF bb] v(2) by (intro find_chars_none) auto
  then have val: "rstrip (lskip (fst (find_chars_or_comment [] False (b' @ v)))) = v"
    using trimmed_strips[OF v(1)] by (simp add: lskip_spaces[OF blanks_isspace[OF bb]])
  define line where "line = (n @ a @ [c] @ b @ v) @ [10]"
  define rest where "rest = xs @ a @ c # b' @ v"
  have l: "?l = x # rest" by (simp add: x rest_def)
  have "rstrip line = x # rest" "lskip (x # rest) = x # rest"
    "find_chars_or_comment [61, 58] False (x # rest) = (n @ a, c # b' @ v)"
    using strip skip sep by (simp_all only: line_def l append_assoc)
  moreover have "hd line \<noteq> 0xEF" "x \<noteq> 91" "x \<noteq> 59" "x \<noteq> 35" using n(2) x by (simp_all add: line_def)
  ultimately have "ini_line h k line (ini_at sec prev r) =
      ini_call h k n v ((ini_at sec prev r)\<lparr>is_prev_name := strncpy0 n MAX_NAME\<rparr>)"
    using c by (subst ini_line_unmarked) (auto simp: name val simp del: find_chars_or_comment.simps)
  then show ?thesis by (simp add: line_def at_prev ini_call_at)
qed

subsection \<open>Parsing a rendered document\<close>

lemma no_newline: "\<forall>x \<in> set n. \<not> isspace x \<Longrightarrow> set n \<inter> {10, 13} = {}"
  by (auto simp: isspace_def)

lemma blanks_newline: "blanks a \<Longrightarrow> set a \<inter> {10, 13} = {}"
  by (auto simp: blanks_def)

lemma item_newline: "item_ok i \<Longrightarrow> set (item_line i) \<inter> {10, 13} = {}"
proof (cases i)
  case (Entry n a c b v)
  assume "item_ok i"
  with Entry have n: "\<forall>x \<in> set n. \<not> isspace x" and ab: "blanks a" "blanks b"
    and v: "set v \<inter> {59, 10, 13} = {}" and c: "c \<in> {61, 58}" by simp_all
  from v have "set v \<inter> {10, 13} = {}" by blast
  moreover from c have "c \<noteq> 10" "c \<noteq> 13" by auto
  ultimately show ?thesis
    using Entry no_newline[OF n] blanks_newline[OF ab(1)] blanks_newline[OF ab(2)] by (simp add: Int_Un_distrib2)
qed (auto simp: blanks_def)

lemma parse_line:
  assumes "item_ok i" "length (item_line i) < INI_MAX_LINE - 1"
  shows "ini_parse_stream h k (item_line i @ 10 # rest) st =
    ini_parse_stream h (k + 1) rest (ini_line h (k + 1) (item_line i @ [10]) st)"
  using reader_line[OF item_newline[OF assms(1)] assms(2), of rest]
  by (subst ini_parse_stream.simps) simp

lemma render_simps [simp]: "render [] = []" "render (i # is) = item_line i @ 10 # render is"
  by (simp_all add: render_def)

lemma item_step:
  assumes "item_ok i" "conts_ok e (i # items)" "e \<longrightarrow> prev \<noteq> []"
  shows "\<exists>sec1 prev1 r1 e1. ini_line h k (item_line i @ [10]) (ini_at sec prev r) = ini_at sec1 prev1 r1 \<and>
    run_items h k sec prev r (i # items) = run_items h (k + 1) sec1 prev1 r1 items \<and>
    conts_ok e1 items \<and> (e1 \<longrightarrow> prev1 \<noteq> [])"
proof (cases i)
  case (Section s)
  have "ini_line h k (item_line i @ [10]) (ini_at sec prev r) = ini_at s [] r"
    using line_Section assms by (simp only: Section conts_ok.simps ini_item.case simp_thms)
  moreover have "run_items h k sec prev r (i # items) = run_items h (k + 1) s [] r items"
    "conts_ok False items" "False \<longrightarrow> [] \<noteq> []"
    using assms by (simp_all add: Section)
  ultimately show ?thesis by blast
next
  case (Entry n a c b v)
  have "ini_line h k (item_line i @ [10]) (ini_at sec prev r) = ini_at sec n (call_item h k sec n v r)"
    using line_Entry assms by (simp only: Entry conts_ok.simps ini_item.case simp_thms)
  moreover have "run_items h k sec prev r (i # items) = run_items h (k + 1) sec n (call_item h k sec n v r) items"
    "conts_ok True items" "True \<longrightarrow> n \<noteq> []"
    using assms by (simp_all add: Entry)
  ultimately show ?thesis by blast
next
  case (Cont a v)
  have "ini_line h k (item_line i @ [10]) (ini_at sec prev r) = ini_at sec prev (call_item h k sec (take 49 prev) v r)"
    using line_Cont assms by (simp only: Cont conts_ok.simps ini_item.case simp_thms)
  moreover have "run_items h k sec prev r (i # items) = run_items h (k + 1) sec prev (call_item h k sec (take 49 prev) v r) items"
    "conts_ok True items" "True \<longrightarrow> prev \<noteq> []"
    using assms by (cases e; simp add: Cont)+
  ultimately show ?thesis by blast
next
  case (Remark c s)
  have "ini_line h k (item_line i @ [10]) (ini_at sec prev r) = ini_at sec prev r"
    using line_Remark assms by (simp only: Remark conts_ok.simps ini_item.case simp_thms)
  moreover have "run_items h k sec prev r (i # items) = run_items h (k + 1) sec prev r items"
    "conts_ok e items" "e \<longrightarrow> prev \<noteq> []"
    using assms by (simp_all add: Remark)
  ultimately show ?thesis by blast
next
  case (Blank a)
  have "ini_line h k (item_line i @ [10]) (ini_at sec prev r) = ini_at sec prev r"
    using line_Blank assms by (simp only: Blank conts_ok.simps ini_item.case simp_thms)
  moreover have "run_items h k sec prev r (i # items) = run_items h (k + 1) sec prev r items"
    "conts_ok e items" "e \<longrightarrow> prev \<noteq> []"
    using assms by (simp_all add: Blank)
  ultimately show ?thesis by blast
qed

lemma parse_items:
  assumes "\<forall>i \<in> set items. item_ok i \<and> length (item_line i) < INI_MAX_LINE - 1"
    "conts_ok e items" "e \<longrightarrow> prev \<noteq> []"
  shows "\<exists>sec' prev'. ini_parse_stream h k (render items @ rest) (ini_at sec prev r) =
    ini_parse_stream h (k + length items) rest (ini_at sec' prev' (run_items h (k + 1) sec prev r items))"
  using assms
proof (induction items arbitrary: e k sec prev r)
  case Nil
  then show ?case by auto
next
  case (Cons i items)
  have ok: "item_ok i" "length (item_line i) < INI_MAX_LINE - 1"
    "\<forall>i \<in> set items. item_ok i \<and> length (item_line i) < INI_MAX_LINE - 1"
    using Cons.prems(1) by simp_all
  obtain sec1 prev1 r1 e1 where s: "ini_line h (k + 1) (item_line i @ [10]) (ini_at sec prev r) = ini_at sec1 prev1 r1"
    "run_items h (k + 1) sec prev r (i # items) = run_items h (k + 1 + 1) sec1 prev1 r1 items"
    "conts_ok e1 items" "e1 \<longrightarrow> prev1 \<noteq> []"
    using item_step[OF ok(1) Cons.prems(2,3), of h "k + 1" sec r] by blast
  have len: "k + length (i # items) = k + 1 + length items" by simp
  show ?case
    using Cons.IH[OF ok(3) s(3,4), of "k + 1" sec1 r1]
    unfolding render_simps append_assoc append_Cons parse_line[OF ok(1,2)] s(1,2) len .
qed

lemma ini_parse_rendered:
  assumes "document_ok items"
  shows "ini_parse_string (render items) h u = run_items h 1 [] [] (0, u) items"
proof -
  have "\<exists>sec' prev'. ini_parse_stream h 0 (render items @ []) (ini_at [] [] (0, u)) =
      ini_parse_stream h (0 + length items) [] (ini_at sec' prev' (run_items h (0 + 1) [] [] (0, u) items))"
    using assms by (intro parse_items[of _ False]) (simp_all add: document_ok_def)
  then show ?thesis by (auto simp: ini_parse_string_def ini_at_def Let_def ini_parse_stream.simps[of _ _ "[]"])
qed

text \<open>A last line that is not ended, such as \<open>[eof]\<close>.\<close>

lemma reader_last: "set l \<inter> {10, 13} = {} \<Longrightarrow> length l < k \<Longrightarrow> ini_reader_string k l = (l, [])"
proof (induction l arbitrary: k)
  case Nil
  then show ?case by (cases k) simp_all
next
  case (Cons c l)
  then show ?case by (cases k) simp_all
qed

lemma parse_last_section:
  assumes "item_ok (Section s)" "length s < 100"
  shows "ini_parse_stream h k ([91] @ s @ [93]) (ini_at sec prev r) = ini_at s [] r"
proof -
  let ?l = "[91] @ s @ [93]"
  have "set ?l \<inter> {10, 13} = {}" "length ?l < INI_MAX_LINE - 1"
    using assms by (auto simp: INI_MAX_LINE_def)
  then have "ini_reader_string (INI_MAX_LINE - 1) ?l = (?l, [])" by (rule reader_last)
  moreover have "ini_line h (k + 1) ?l (ini_at sec prev r) = ini_line h (k + 1) (?l @ [10]) (ini_at sec prev r)"
    by (subst (1 2) ini_line_unmarked) (simp_all only: rstrip_snoc isspace_simps, simp_all)
  ultimately show ?thesis
    using line_Section[OF assms(1), of h "k + 1" sec prev r]
    by (subst ini_parse_stream.simps) (simp add: ini_parse_stream.simps[of _ _ "[]"])
qed

end
