(* ===== verification/Config_Claims.thy ===== *)
theory Config_Claims
  imports Plat_Claims Ini_Props Akcipher_Claims
begin

text \<open>
  The configuration file of a SG2044 board, from the boot device to the configuration.
\<close>

subsection \<open>Strings that are held in memory\<close>

lemma strncmp_holds: "holds m a xs \<Longrightarrow> holds m b xs \<Longrightarrow> 0 \<notin> set xs \<Longrightarrow> strncmp m a b (length xs) = 0"
  by (induction xs arbitrary: a b) auto

lemma strstr_match_holds:
  assumes "holds m (hs + i) xs" "cstr m (ne + i) ys" "length ys \<le> length xs"
  shows "\<exists>j. strstr_match m hs ne i = Some j \<and> (m (ne + j) = 0 \<longleftrightarrow> take (length ys) xs = ys)"
  using assms
proof (induction ys arbitrary: i xs)
  case Nil
  then show ?case by (subst strstr_match.simps) simp
next
  case (Cons y ys)
  then obtain x xs' where "xs = x # xs'" by (cases xs) auto
  with Cons.prems Cons.IH[of "i + 1" xs'] show ?case
    by (subst strstr_match.simps) (auto simp: add.assoc)
qed

text \<open>\<open>strstr\<close> reads no further than the first occurrence.\<close>

lemma strstr_from_holds:
  assumes "cstr m ne (y # ys)" "holds m hs xs" "0 \<notin> set xs" "find_sub (y # ys) xs = Some i"
  shows "strstr_from m hs ne = Some (Some (hs + of_nat i))"
  using assms(2-4)
proof (induction xs arbitrary: hs i)
  case (Cons x xs)
  have ne: "m ne = y" "y \<noteq> 0" "cstr m (ne + 1) ys" using assms(1) by auto
  have hs: "m hs = x" "x \<noteq> 0" "holds m (hs + 1) xs" using Cons.prems by auto
  show ?case
  proof (cases "take (length (y # ys)) (x # xs) = y # ys")
    case True
    then have "x = y" "take (length ys) xs = ys" "i = 0" using Cons.prems(3) by auto
    moreover from this(2) have "length ys \<le> length xs" by (metis length_take min.cobounded1 min_def)
    from strstr_match_holds[OF hs(3) ne(3) this] obtain j where "strstr_match m hs ne 1 = Some j"
      "m (ne + j) = 0 \<longleftrightarrow> take (length ys) xs = ys" by blast
    ultimately show ?thesis using ne hs by (subst strstr_from.simps) simp
  next
    case False
    then obtain k where k: "find_sub (y # ys) xs = Some k" "i = Suc k"
      using Cons.prems(3) by (auto split: if_splits)
    then have "take (length (y # ys)) (drop k xs) = y # ys" using find_sub_first by blast
    from arg_cong[OF this, of length] have "length (y # ys) \<le> length xs" by simp
    then have "length ys \<le> length xs" by simp
    from strstr_match_holds[OF hs(3) ne(3) this] obtain j where j: "strstr_match m hs ne 1 = Some j"
      "m (ne + j) = 0 \<longleftrightarrow> take (length ys) xs = ys" by blast
    have "strstr_from m (hs + 1) ne = Some (Some (hs + of_nat i))"
      using Cons.IH[OF hs(3) _ k(1)] Cons.prems(2) k(2) by (simp add: add.assoc)
    with False ne hs j show ?thesis by (subst strstr_from.simps) auto
  qed
qed simp

lemma strstr_holds:
  assumes "cstr m ne ys" "ys \<noteq> []" "holds m hs xs" "0 \<notin> set xs" "find_sub ys xs = Some i"
  shows "strstr m hs ne = Some (Some (hs + of_nat i))"
  using assms strstr_from_holds by (cases ys) (auto simp: strstr_def)

lemma holds_cstr: "holds m a xs \<Longrightarrow> 0 \<notin> set xs \<Longrightarrow> m (a + of_nat (length xs)) = 0 \<Longrightarrow> cstr m a xs"
  by (induction xs arbitrary: a) (auto simp: add.assoc)

lemma cstr_holds: "cstr m a xs \<Longrightarrow> holds m a xs \<and> 0 \<notin> set xs"
  by (induction xs arbitrary: a) auto

subsection \<open>The configuration file\<close>

text \<open>
  A configuration file starts with the section \<open>sophgo-config\<close>; what follows \<open>[eof]\<close> is not looked
  at. \<open>[eof]\<close> must not occur earlier (it could, in a value or a remark).
\<close>

definition config_head :: "ini_item list \<Rightarrow> u8 list" where
  "config_head items = render (Section (bytes ''sophgo-config'') # items)"

definition config_text :: "ini_item list \<Rightarrow> u8 list \<Rightarrow> u8 list" where
  "config_text items rest = config_head items @ bytes ''[eof]'' @ rest"

definition config_ok :: "ini_item list \<Rightarrow> bool" where
  "config_ok items \<longleftrightarrow> document_ok items \<and>
     find_sub (bytes ''[eof]'') (config_head items @ bytes ''[eof]'') = Some (length (config_head items))"

lemma eof_bytes: "bytes ''[eof]'' = [91] @ bytes ''eof'' @ [93]" "bytes ''eof'' = [101, 111, 102]"
  by (simp_all add: bytes_def)

lemma header_bytes: "bytes ''[sophgo-config]'' = [91] @ bytes ''sophgo-config'' @ [93]"
  by (simp add: bytes_def)

lemma header_name: "bytes ''sophgo-config'' = [115, 111, 112, 104, 103, 111, 45, 99, 111, 110, 102, 105, 103]"
  by (simp add: bytes_def)

lemma parse_config_text:
  assumes "document_ok items"
  shows "snd (ini_parse_string (config_head items @ bytes ''[eof]'') h u) =
    snd (run_items h 2 (bytes ''sophgo-config'') [] (0, u) items)"
proof -
  let ?items = "Section (bytes ''sophgo-config'') # items"
  have "\<forall>i \<in> set ?items. item_ok i \<and> length (item_line i) < INI_MAX_LINE - 1" "conts_ok False ?items"
    using assms by (auto simp: document_ok_def header_name MAX_SECTION_def INI_MAX_LINE_def)
  then obtain sec' prev' where "ini_parse_stream h 0 (render ?items @ bytes ''[eof]'') (ini_at [] [] (0, u)) =
      ini_parse_stream h (0 + length ?items) (bytes ''[eof]'') (ini_at sec' prev' (run_items h (0 + 1) [] [] (0, u) ?items))"
    using parse_items[of ?items False "[]"] by blast
  also have "\<dots> = ini_at (bytes ''eof'') [] (run_items h (0 + 1) [] [] (0, u) ?items)"
    unfolding eof_bytes(1) by (rule parse_last_section) (simp_all add: eof_bytes MAX_SECTION_def)
  finally show ?thesis by (simp add: ini_parse_string_def config_head_def ini_at_def Let_def numeral_2_eq_2)
qed

lemma config_head_nonzero: "document_ok items \<Longrightarrow> 0 \<notin> set (config_head items @ bytes ''[eof]'')"
  by (auto simp: document_ok_def config_head_def render_def header_name eof_bytes)

text \<open>
  C29: Reading the configuration. Let some boot devices have the file \<open>conf.ini\<close>, each under the
  contract of a driver, and the first of them in the list of the manager contain a rendered
  configuration. Then \<open>parse_config_file\<close> succeeds, and the configuration is what the handler makes of
  the entries one by one, in order, each with its section and its continuations with its name;
  blanks, remarks and what follows \<open>[eof]\<close> have no influence. The file must not be loaded over the two
  literals it is compared with.
\<close>
theorem config_file_roundtrip:
  assumes "bf_name (cf_cfg cfg) = Some fname" "bm_list s xs" "\<forall>a \<in> set xs. serves s fname a (c a)"
    "source s c xs = Some a" "c a = config_text items rest" "config_ok items"
    "fits s fname cap" "length (c a) < 2 ^ 64"
    "cstr (bm_mem s) (be_header env) (bytes ''[sophgo-config]'')" "cstr (bm_mem s) (be_tail env) (bytes ''[eof]'')"
    "\<forall>i \<le> 15. \<not> inside (bf_addr (cf_cfg cfg)) cap (be_header env + of_nat i) \<and>
       \<not> inside (bf_addr (cf_cfg cfg)) cap (be_tail env + of_nat i)"
  shows "\<exists>s'. parse_config_file env cfg s = Some (None,
      fst (snd (run_items handler_img 2 (bytes ''sophgo-config'') [] (0, cfg, k_heap (bm_k s)) items)), s')"
proof -
  let ?a = "bf_addr (cf_cfg cfg)" and ?head = "config_head items" and ?eof = "bytes ''[eof]''"
  let ?txt = "?head @ ?eof"
  have ok: "document_ok items" "find_sub ?eof ?txt = Some (length ?head)" using assms(6) by (simp_all add: config_ok_def)
  note nz = config_head_nonzero[OF ok(1)]
  have a: "a \<in> set xs" "c a \<noteq> []" using find_Some_iff_mem[OF assms(4)[unfolded source_def]] by blast+
  have first: "bootdev_first s = first_in xs" using bootdev_first_list[OF assms(2)] .
  from file_size_from_list[of s "[]" xs fname c "- errno_val ENOENT"] assms(2,3) obtain n h where
    size: "bdm_get_file_size fname s = Some (n, io h (bm_mem s) (bm_flushed s) s)"
      "\<forall>z \<in> set xs. c z \<noteq> [] \<longrightarrow> int (length (c z)) \<le> n"
    by (auto simp: bdm_get_file_size_def first)
  have n: "0 < n" using size(2) a by (metis length_greater_0_conv of_nat_0_less_iff less_le_trans)
  define s0 where "s0 = io h (bm_mem s) (bm_flushed s) s"
  have "bm_list s0 ([] @ xs)" "\<forall>z \<in> set xs. serves s0 fname z (c z)" "source s0 c xs = Some a"
    using assms(2-4) by (simp_all add: s0_def source_def)
  from bdm_load_from_list[OF this(1,2), of ?a] this(3) obtain r h1 m fl m0 where
    l: "bdm_load_from fname ?a (first_in xs) s0 = Some (r, io h1 m fl s0)" "m = place ?a (c a) m0"
    by auto
  have first0: "bootdev_first s0 = first_in xs" using bootdev_first_list[of s0 xs] assms(2) by (simp add: s0_def)
  then have load: "bdm_load fname ?a s0 = Some (r, io h1 m fl s0)" using l(1) by (simp add: bdm_load_def)
  have "fits s0 fname cap" using assms(7) by (simp add: fits_def s0_def)
  from bdm_load_writes(2)[OF load this] have out: "same_outside (inside ?a cap) (bm_mem s) m" by (simp add: s0_def)
  have held: "holds m ?a ?txt"
    using holds_place[OF assms(8), of ?a m0] by (simp add: l(2) assms(5) config_text_def holds_append)
  have lit: "cstr m p ys" if "cstr (bm_mem s) p ys" "\<forall>i \<le> length ys. \<not> inside ?a cap (p + of_nat i)" for p ys
    using that
  proof (induction ys arbitrary: p)
    case Nil
    then show ?case using out by (auto simp: same_outside_def)
  next
    case (Cons y ys)
    have "\<forall>i \<le> length ys. \<not> inside ?a cap (p + 1 + of_nat i)"
    proof (intro allI impI)
      fix i assume "i \<le> length ys"
      then show "\<not> inside ?a cap (p + 1 + of_nat i)" using Cons.prems(2)[rule_format, of "Suc i"] by (simp add: add.assoc)
    qed
    with Cons show ?case using out Cons.prems(2)[rule_format, of 0] by (auto simp: same_outside_def)
  qed
  have len: "length (bytes ''[sophgo-config]'') = 15" "length ?eof = 5" by (simp_all add: bytes_def)
  have hdr: "cstr m (be_header env) (bytes ''[sophgo-config]'')" and tl: "cstr m (be_tail env) ?eof"
    using lit[OF assms(9)] lit[OF assms(10)] assms(11) by (simp_all add: len)
  have "holds m ?a (bytes ''[sophgo-config]'')"
    using held by (simp add: config_head_def header_bytes holds_append)
  with cstr_holds[OF hdr] have cmp: "strncmp m (be_header env) ?a 15 = 0"
    using strncmp_holds[of m "be_header env" "bytes ''[sophgo-config]''" ?a] by (simp add: len)
  have str: "strstr m ?a (be_tail env) = Some (Some (?a + of_nat (length ?head)))"
    using strstr_holds[OF tl _ held nz ok(2)] by (simp add: bytes_def)
  let ?m1 = "m(?a + of_nat (length ?head) + 5 := 0)"
  have end_at: "?a + of_nat (length ?head) + 5 = ?a + of_nat (length ?txt)" by (simp add: len add.assoc)
  have short: "length ?txt < 2 ^ 64" using assms(8) by (simp add: assms(5) config_text_def)
  have "holds ?m1 ?a ?txt"
    unfolding holds_def end_at
  proof (intro allI impI)
    fix i assume i: "i < length ?txt"
    then have "?a + of_nat i \<noteq> ?a + of_nat (length ?txt)" using offset_inj[of i "length ?txt" ?a] short by simp
    with held i show "(m(?a + of_nat (length ?txt) := 0)) (?a + of_nat i) = ?txt ! i" by (simp add: holds_def)
  qed
  then have cs: "cstr ?m1 ?a ?txt" "mem_bytes ?m1 ?a (length ?txt) = ?txt"
    using holds_cstr[OF _ nz] holds_mem_bytes by (simp_all add: end_at)
  have heap: "k_heap (bm_k (io h1 m fl s0)) = k_heap (bm_k s)" by (simp add: s0_def set_hw_def)
  obtain e cfg1 hp where p: "ini_parse_string ?txt handler_img (cfg, k_heap (bm_k s)) = (e, cfg1, hp)"
    by (metis prod.exhaust)
  with parse_config_text[OF ok(1), of handler_img "(cfg, k_heap (bm_k s))"]
  have "cfg1 = fst (snd (run_items handler_img 2 (bytes ''sophgo-config'') [] (0, cfg, k_heap (bm_k s)) items))"
    by (metis fst_conv snd_conv)
  moreover have "parse_config_file env cfg s = Some (None, cfg1, with_heap hp ((io h1 m fl s0)\<lparr>bm_mem := ?m1\<rparr>))"
    using assms(1) size(1) n load cmp str strlen_cstr[OF cs(1)] cs(2) p heap
    by (simp add: parse_config_file_def Let_def flip: s0_def)
  ultimately show ?thesis by blast
qed

text \<open>Two settings on the only device.\<close>

definition demo_items :: "ini_item list" where
  "demo_items = [Section (bytes ''kernel''), Entry (bytes ''name'') [32] 61 [32] (bytes ''Image''),
     Remark 59 (bytes '' no initrd''), Section (bytes ''boot''), Entry (bytes ''cmdline'') [] 61 [] (bytes ''quiet rw'')]"

definition demo_conf :: "u8 list" where "demo_conf = config_text demo_items []"

definition demo_conf_cfg :: config where
  "demo_conf_cfg = demo_config\<lparr>cf_cfg := \<lparr>bf_name = Some ''conf.ini'', bf_addr = 0x4000, bf_size = 0\<rparr>\<rparr>"

definition demo_conf_mem :: mem where
  "demo_conf_mem = place 0x100 (bytes ''[sophgo-config]'') (place 0x200 (bytes ''[eof]'') (\<lambda>_. 0))"

definition demo_conf_env :: boot_env where
  "demo_conf_env = \<lparr>be_header = 0x100, be_tail = 0x200, be_fv = 0, be_rms_name = 0,
     be_vz = \<lparr>vz_fv = 0, vz_vs = 0, vz_var = 0, vz_end = 0, vz_auth = False\<rparr>\<rparr>"

definition demo_conf_state :: "(nat, unit) bdm" where
  "demo_conf_state = (demo_state heap_init demo_conf_mem [])\<lparr>
     bm_ops := \<lambda>i. \<lparr>bo_load = Some (\<lambda>data file k. Some ((int (length demo_conf), demo_conf), k)),
                     bo_get_file_size = Some (\<lambda>data file k. Some (int (length demo_conf), k))\<rparr>\<rparr>"

lemma demo_conf_bytes: "length demo_conf = 79"
  by (simp add: demo_conf_def config_text_def config_head_def render_def demo_items_def bytes_def)

lemma demo_config_ok: "config_ok demo_items"
proof -
  have "document_ok demo_items"
    by (auto simp: document_ok_def demo_items_def bytes_def blanks_def trimmed_def MAX_SECTION_def INI_MAX_LINE_def isspace_def)
  moreover have "find_sub (bytes ''[eof]'') (config_head demo_items @ bytes ''[eof]'') = Some (length (config_head demo_items))"
    by (simp add: config_head_def render_def demo_items_def bytes_def)
  ultimately show ?thesis by (simp add: config_ok_def)
qed

lemma demo_conf_literals:
  "cstr (bm_mem demo_conf_state) 0x100 (bytes ''[sophgo-config]'')" "cstr (bm_mem demo_conf_state) 0x200 (bytes ''[eof]'')"
  by (simp_all add: demo_conf_state_def demo_state_def demo_conf_mem_def place_def bytes_def)

lemma far_away:
  assumes "i \<le> 15" "p = 0x100 \<or> p = 0x200"
  shows "\<not> inside 0x4000 79 (p + of_nat i :: u64)"
proof
  assume "inside 0x4000 79 (p + of_nat i)"
  moreover have "inside p 16 (p + of_nat i)" using assms(1) by (simp add: inside_def unsigned_of_nat take_bit_nat_eq_self)
  ultimately show False using inside_twice assms(2) by fastforce
qed

theorem config_file_roundtrip_witness:
  "\<exists>cfg' s'. parse_config_file demo_conf_env demo_conf_cfg demo_conf_state = Some (None, cfg', s') \<and>
     bf_name (cf_kernel cfg') = Some ''Image'' \<and> cf_bootargs cfg' = Some ''quiet rw''"
proof -
  let ?cfg = demo_conf_cfg and ?s = demo_conf_state
  have l: "bm_list ?s [1]"
    by (simp add: bm_list_def demo_conf_state_def demo_state_def clist_def boot_list_def)
  have sv: "\<forall>a \<in> set [1]. serves ?s ''conf.ini'' a demo_conf"
    using demo_conf_bytes
    by (auto simp: serves_def demo_conf_state_def demo_state_def loader_def sizer_def set_hw_def)
  have src: "source ?s (\<lambda>a. demo_conf) [1] = Some 1"
    using demo_conf_bytes by (auto simp: source_def enabled_def demo_conf_state_def demo_state_def)
  have fit: "fits ?s ''conf.ini'' 79"
    by (auto simp: fits_def demo_conf_state_def demo_state_def loader_def demo_conf_bytes split: bind_splits if_splits)
  have far: "\<forall>i \<le> 15. \<not> inside (bf_addr (cf_cfg ?cfg)) 79 (be_header demo_conf_env + of_nat i) \<and>
      \<not> inside (bf_addr (cf_cfg ?cfg)) 79 (be_tail demo_conf_env + of_nat i)"
    using far_away by (simp add: demo_conf_cfg_def demo_conf_env_def)
  have "bf_name (cf_cfg ?cfg) = Some ''conf.ini''" by (simp add: demo_conf_cfg_def)
  from config_file_roundtrip[OF this l sv src demo_conf_def demo_config_ok fit _ _ _ far] demo_conf_literals demo_conf_bytes
  obtain s' where "parse_config_file demo_conf_env ?cfg ?s = Some (None,
      fst (snd (run_items handler_img 2 (bytes ''sophgo-config'') [] (0, ?cfg, k_heap (bm_k ?s)) demo_items)), s')"
    by (auto simp: demo_conf_env_def)
  moreover have "k_heap (bm_k ?s) = heap_init" by (simp add: demo_conf_state_def demo_state_def)
  moreover have "chars (bytes ''Image'') = ''Image''" "chars (bytes ''quiet rw'') = ''quiet rw''"
    by (rule chars_bytes)+
  ultimately show ?thesis
    by (simp add: demo_items_def call_item_def handler_img_def strdup_value_def malloc_def heap_init_def demo_conf_cfg_def
      bytes_def)
qed

end
