(* ===== verification/Console.thy ===== *)
theory Console
  imports Ascii Stdio "HOL-Library.Monad_Syntax"
begin

text \<open>
  The consoles, \<open>lib/cli/console.c\<close>, \<open>include/lib/console.h\<close>: the state machine that edits and splits the command
  line, the commands of a console, and the output.

  Consoles and commands are structures at addresses. The chain of the commands of a console is kept
  pointer by pointer. A serial device is what its polls will return, negative without a character,
  and what has been sent to it. The line and the array of control sequences are arrays of bytes; a
  pointer into the line is its offset. A callback outside of this theory is a function of the
  command, of the arguments, which are the strings its \<open>argv\<close> points to, and of the state.
\<close>

subsection \<open>Data\<close>

definition EOF :: int where "EOF = - 1"

definition CS_BUFFER_SIZE :: nat where "CS_BUFFER_SIZE = 16"

definition DEFAULT_PROMPT :: "u8 list" where "DEFAULT_PROMPT = [35, 32]"

datatype callback = Built_in_list | Callback nat

record command =
  cm_next :: "addr option"
  cm_console :: "addr option"
  cm_callback :: callback
  cm_hint :: "addr option"
  cm_name :: "u8 list option"

datatype console_mode = CONSOLE_MODE_ANSI

text \<open>The functions the member \<open>state\<close> points to.\<close>

datatype console_state =
  State_start_new_command | State_read_input | State_parse_input |
  State_read_escape_sequence | State_parse_escape_sequence_ansi

record console =
  root :: "addr option"
  arg_line :: "u8 list"
  arg_line_size :: nat
  arg_line_write_index :: nat
  argv :: "nat option list"
  max_argc :: nat
  con_dev :: addr
  snoop_char :: int
  con_state :: console_state
  cs_buffer :: "u8 list"
  cs_write_index :: nat
  f_local_echo :: bool
  con_mode :: console_mode
  prompt :: "u8 list option"

record tty =
  tty_polls :: "int list"
  tty_sent :: "u8 list"

record 'e con_sys =
  s_heap :: heap_st
  s_next :: addr
  s_console :: "addr \<Rightarrow> console option"
  s_command :: "addr \<Rightarrow> command option"
  s_tty :: "addr \<Rightarrow> tty"
  s_env :: 'e

text \<open>Terminal: what is sent for a character and for a string.\<close>

definition serial_out :: "u8 list \<Rightarrow> tty \<Rightarrow> tty" where
  "serial_out bs t = t\<lparr>tty_sent := tty_sent t @ bs\<rparr>"

definition newline_bytes :: "console_mode \<Rightarrow> u8 list" where
  "newline_bytes m = (case m of CONSOLE_MODE_ANSI \<Rightarrow> [13, 10])"

definition backspace_bytes :: "console_mode \<Rightarrow> u8 list" where
  "backspace_bytes m = (case m of CONSOLE_MODE_ANSI \<Rightarrow> [8, 32, 8])"

definition term_put_newline :: "console \<Rightarrow> tty \<Rightarrow> tty" where
  "term_put_newline con t = serial_out (newline_bytes (con_mode con)) t"

definition term_backspace :: "console \<Rightarrow> tty \<Rightarrow> tty" where
  "term_backspace con t = serial_out (backspace_bytes (con_mode con)) t"

definition term_putc :: "console \<Rightarrow> u8 \<Rightarrow> tty \<Rightarrow> tty" where
  "term_putc con c t =
     (if c = 10 then term_put_newline con t else if c = 8 then term_backspace con t else serial_out [c] t)"

definition term_puts :: "console \<Rightarrow> u8 list \<Rightarrow> tty \<Rightarrow> tty" where
  "term_puts con str t = foldl (\<lambda>t c. term_putc con c t) t str"

definition term_puts_raw :: "u8 list \<Rightarrow> tty \<Rightarrow> tty" where
  "term_puts_raw str t = serial_out str t"

definition term_putc_raw :: "u8 \<Rightarrow> tty \<Rightarrow> tty" where
  "term_putc_raw c t = serial_out [c] t"

definition serial_poll :: "tty \<Rightarrow> int \<times> tty" where
  "serial_poll t = (case tty_polls t of [] \<Rightarrow> (- 1, t) | p # ps \<Rightarrow> (p, t\<lparr>tty_polls := ps\<rparr>))"

definition term_getc_raw :: "console \<Rightarrow> tty \<Rightarrow> int \<times> console \<times> tty" where
  "term_getc_raw con t =
     (let ret = snoop_char con; con1 = con\<lparr>snoop_char := EOF\<rparr>
      in if ret = EOF
         then (case serial_poll t of (p, t1) \<Rightarrow> (if p < 0 then EOF else p, con1, t1))
         else (ret, con1, t))"

definition term_set_snoop_char :: "u8 \<Rightarrow> console \<Rightarrow> console" where
  "term_set_snoop_char c con = con\<lparr>snoop_char := uint c\<rparr>"

subsection \<open>Commands of a console\<close>

text \<open>\<open>locate_command\<close>: the first command of that name. A name that is NULL faults in \<open>strcmp\<close>.\<close>

partial_function (option) locate_from :: "'e con_sys \<Rightarrow> u8 list \<Rightarrow> addr option \<Rightarrow> addr option option" where
  "locate_from s name node =
     (case node of
        None \<Rightarrow> Some None
      | Some a \<Rightarrow>
          do { cm \<leftarrow> s_command s a;
               nm \<leftarrow> cm_name cm;
               (if nm = name then Some (Some a) else locate_from s name (cm_next cm)) })"

definition locate_command :: "addr option \<Rightarrow> u8 list \<Rightarrow> 'e con_sys \<Rightarrow> addr option option" where
  "locate_command c name s =
     (case c of
        None \<Rightarrow> Some None
      | Some c \<Rightarrow> do { con \<leftarrow> s_console s c; locate_from s name (root con) })"

partial_function (option) last_from :: "'e con_sys \<Rightarrow> addr option \<Rightarrow> addr option option" where
  "last_from s node =
     (case node of
        None \<Rightarrow> Some None
      | Some a \<Rightarrow> do { cm \<leftarrow> s_command s a; (if cm_next cm = None then Some (Some a) else last_from s (cm_next cm)) })"

definition get_last_command :: "addr option \<Rightarrow> 'e con_sys \<Rightarrow> addr option option" where
  "get_last_command c s =
     (case c of None \<Rightarrow> Some None | Some c \<Rightarrow> do { con \<leftarrow> s_console s c; last_from s (root con) })"

partial_function (option) previous_from :: "'e con_sys \<Rightarrow> addr \<Rightarrow> addr option \<Rightarrow> addr option option" where
  "previous_from s cmd node =
     (case node of
        None \<Rightarrow> Some None
      | Some a \<Rightarrow>
          do { cm \<leftarrow> s_command s a; (if cm_next cm = Some cmd then Some (Some a) else previous_from s cmd (cm_next cm)) })"

definition get_previous_command :: "addr option \<Rightarrow> 'e con_sys \<Rightarrow> addr option option" where
  "get_previous_command cmd s =
     (case cmd of
        None \<Rightarrow> Some None
      | Some a \<Rightarrow>
          do { cm \<leftarrow> s_command s a;
               (case cm_console cm of
                  None \<Rightarrow> Some None
                | Some c \<Rightarrow>
                    do { con \<leftarrow> s_console s c;
                         (if root con = Some a then Some None else previous_from s a (root con)) }) })"

definition put_console :: "addr \<Rightarrow> console \<Rightarrow> 'e con_sys \<Rightarrow> 'e con_sys" where
  "put_console c con s = s\<lparr>s_console := (s_console s)(c \<mapsto> con)\<rparr>"

definition put_command :: "addr \<Rightarrow> command \<Rightarrow> 'e con_sys \<Rightarrow> 'e con_sys" where
  "put_command a cm s = s\<lparr>s_command := (s_command s)(a \<mapsto> cm)\<rparr>"

definition register_command :: "addr option \<Rightarrow> addr \<Rightarrow> 'e con_sys \<Rightarrow> 'e con_sys option" where
  "register_command c a s =
     (case c of
        None \<Rightarrow> Some s
      | Some c \<Rightarrow>
          do { cm \<leftarrow> s_command s a;
               let s1 = put_command a (cm\<lparr>cm_console := Some c, cm_next := None\<rparr>) s;
               l \<leftarrow> get_last_command (Some c) s1;
               (case l of
                  None \<Rightarrow> do { con \<leftarrow> s_console s1 c; Some (put_console c (con\<lparr>root := Some a\<rparr>) s1) }
                | Some b \<Rightarrow> do { bm \<leftarrow> s_command s1 b; Some (put_command b (bm\<lparr>cm_next := Some a\<rparr>) s1) }) })"

definition unregister_command :: "addr option \<Rightarrow> 'e con_sys \<Rightarrow> 'e con_sys option" where
  "unregister_command cmd s =
     (case cmd of
        None \<Rightarrow> Some s
      | Some a \<Rightarrow>
          do { cm \<leftarrow> s_command s a;
               (case cm_console cm of
                  None \<Rightarrow> Some s
                | Some c \<Rightarrow>
                    do { con \<leftarrow> s_console s c;
                         s1 \<leftarrow> (if root con = Some a then Some (put_console c (con\<lparr>root := cm_next cm\<rparr>) s)
                               else do { p \<leftarrow> get_previous_command (Some a) s;
                                         (case p of
                                            None \<Rightarrow> Some s
                                          | Some b \<Rightarrow>
                                              do { bm \<leftarrow> s_command s b;
                                                   Some (put_command b (bm\<lparr>cm_next := cm_next cm\<rparr>) s) }) });
                         cm1 \<leftarrow> s_command s1 a;
                         Some (put_command a (cm1\<lparr>cm_console := None, cm_next := None\<rparr>) s1) }) })"

definition s_malloc :: "'e con_sys \<Rightarrow> addr option \<times> 'e con_sys" where
  "s_malloc s =
     (case malloc (s_heap s) of
        (True, h) \<Rightarrow> (Some (s_next s), s\<lparr>s_heap := h, s_next := s_next s + 1\<rparr>)
      | (False, h) \<Rightarrow> (None, s\<lparr>s_heap := h\<rparr>))"

definition s_free :: "'e con_sys \<Rightarrow> 'e con_sys" where
  "s_free s = s\<lparr>s_heap := mfree (s_heap s)\<rparr>"

text \<open>\<open>strdup\<close> with the string that is copied.\<close>

definition s_strdup :: "u8 list \<Rightarrow> 'e con_sys \<Rightarrow> u8 list option \<times> 'e con_sys" where
  "s_strdup str s = (case s_malloc s of (Some _, s1) \<Rightarrow> (Some str, s1) | (None, s1) \<Rightarrow> (None, s1))"

definition console_alloc_command ::
    "addr option \<Rightarrow> addr option \<Rightarrow> u8 list option \<Rightarrow> callback \<Rightarrow> 'e con_sys \<Rightarrow> (addr option \<times> 'e con_sys) option" where
  "console_alloc_command hint c command_name cb s =
     (case command_name of
        None \<Rightarrow> Some (None, s)
      | Some name \<Rightarrow>
          do { found \<leftarrow> locate_command c name s;
               (if found \<noteq> None then Some (None, s)
                else
                  (case s_malloc s of
                     (None, s1) \<Rightarrow> Some (None, s1)
                   | (Some a, s1) \<Rightarrow>
                       (case s_strdup name s1 of
                          (nm, s2) \<Rightarrow>
                            do { s3 \<leftarrow> register_command c a (put_command a
                                       \<lparr>cm_next = None, cm_console = None, cm_callback = cb, cm_hint = hint, cm_name = nm\<rparr> s2);
                                 Some (Some a, s3) }))) })"

definition console_free_command :: "addr option \<Rightarrow> 'e con_sys \<Rightarrow> 'e con_sys option" where
  "console_free_command cmd s =
     (case cmd of
        None \<Rightarrow> Some s
      | Some a \<Rightarrow>
          do { s1 \<leftarrow> unregister_command (Some a) s;
               cm \<leftarrow> s_command s1 a;
               let s2 = (if cm_name cm = None then s1 else s_free s1);
               Some (s_free (s2\<lparr>s_command := (s_command s2)(a := None)\<rparr>)) })"

definition console_alloc_list_command ::
    "addr option \<Rightarrow> u8 list option \<Rightarrow> 'e con_sys \<Rightarrow> (addr option \<times> 'e con_sys) option" where
  "console_alloc_list_command c command_name s = console_alloc_command c c command_name Built_in_list s"

subsection \<open>Splitting the line\<close>

definition white :: "u8 \<Rightarrow> bool" where
  "white c = (c = 0x20 \<or> c = 0x09 \<or> c = 0x0a \<or> c = 0x0b \<or> c = 0x0c \<or> c = 0x0d)"

text \<open>
  The two searches, on the bytes from a position to the end of the array. The inner result is the
  pointer that is returned, \<open>None\<close> for NULL; the outer \<open>None\<close> is a read behind the array.
\<close>

fun skip_white :: "u8 list \<Rightarrow> nat \<Rightarrow> nat option option" where
  "skip_white [] i = None"
| "skip_white (b # bs) i =
     (if b = 0 then Some None else if white b then skip_white bs (Suc i) else Some (Some i))"

fun skip_black :: "u8 list \<Rightarrow> nat \<Rightarrow> nat option option" where
  "skip_black [] i = None"
| "skip_black (b # bs) i =
     (if b = 0 then Some None else if white b then Some (Some i) else skip_black bs (Suc i))"

definition find_first_non_whitesapce :: "u8 list \<Rightarrow> nat \<Rightarrow> nat option option" where
  "find_first_non_whitesapce line i = skip_white (drop i line) i"

definition find_fist_whitespace :: "u8 list \<Rightarrow> nat \<Rightarrow> nat option option" where
  "find_fist_whitespace line i = skip_black (drop i line) i"

text \<open>At most \<open>n\<close> arguments from a position on: where they start, and the line with the NULs behind them.\<close>

fun split_args :: "nat \<Rightarrow> nat \<Rightarrow> u8 list \<Rightarrow> (nat list \<times> u8 list) option" where
  "split_args 0 i line = Some ([], line)"
| "split_args (Suc n) i line =
     do { start \<leftarrow> find_first_non_whitesapce line i;
          (case start of
             None \<Rightarrow> Some ([], line)
           | Some a \<Rightarrow>
               do { stop \<leftarrow> find_fist_whitespace line a;
                    (case stop of
                       None \<Rightarrow> Some ([a], line)
                     | Some z \<Rightarrow>
                         do { (args, line1) \<leftarrow> split_args n (z + 1) (line[z := 0]); Some (a # args, line1) }) }) }"

text \<open>The string a pointer into the line points to.\<close>

definition line_string :: "u8 list \<Rightarrow> nat \<Rightarrow> u8 list" where
  "line_string line i = takeWhile (\<lambda>b. b \<noteq> 0) (drop i line)"

subsection \<open>The states\<close>

type_synonym 'e extern = "nat \<Rightarrow> addr \<Rightarrow> u8 list list \<Rightarrow> 'e con_sys \<Rightarrow> 'e con_sys option"

text \<open>What a state does with its console and its serial device alone.\<close>

definition on_console :: "(console \<Rightarrow> tty \<Rightarrow> console \<times> tty) \<Rightarrow> addr \<Rightarrow> 'e con_sys \<Rightarrow> 'e con_sys option" where
  "on_console f c s =
     do { con \<leftarrow> s_console s c;
          (case f con (s_tty s (con_dev con)) of
             (con1, t) \<Rightarrow> Some (put_console c con1 (s\<lparr>s_tty := (s_tty s)(con_dev con := t)\<rparr>))) }"

definition state_parse_escape_sequence_ansi :: "console \<Rightarrow> tty \<Rightarrow> console \<times> tty" where
  "state_parse_escape_sequence_ansi con t = (con\<lparr>con_state := State_read_input\<rparr>, t)"

text \<open>The loop that reads a control sequence, and how it ended.\<close>

datatype esc_end = Esc_more | Esc_abort | Esc_parse

fun read_escape_loop :: "nat \<Rightarrow> console \<Rightarrow> tty \<Rightarrow> esc_end \<times> console \<times> tty" where
  "read_escape_loop 0 con t = (Esc_more, con, t)"
| "read_escape_loop (Suc n) con t =
     (case term_getc_raw con t of
        (new_char, con1, t1) \<Rightarrow>
          if new_char = EOF then (Esc_more, con1, t1)
          else
            let ch = of_int new_char; index = cs_write_index con1
            in if ch = 0x18 \<or> ch = 0x1a then (Esc_abort, con1, t1)
               else if index < CS_BUFFER_SIZE
               then (let con2 = con1\<lparr>cs_buffer := (cs_buffer con1)[index := ch], cs_write_index := index + 1\<rparr>
                     in if index = 1 \<and> ch \<noteq> 0x5b \<and> 0x40 \<le> ch \<and> ch \<le> 0x5f then (Esc_parse, con2, t1)
                        else if index > 1 \<and> 0x40 \<le> ch \<and> ch \<le> 0x7e then (Esc_parse, con2, t1)
                        else read_escape_loop n con2 t1)
               else (Esc_abort, term_set_snoop_char ch con1, t1))"

definition read_escape_finish :: "esc_end \<times> console \<times> tty \<Rightarrow> console \<times> tty" where
  "read_escape_finish r =
     (case r of
        (Esc_abort, con, t) \<Rightarrow>
          (con\<lparr>cs_write_index := 0, con_state := State_read_input\<rparr>,
           foldl (\<lambda>t c. term_putc_raw c t) t (take (cs_write_index con) (cs_buffer con)))
      | (Esc_parse, con, t) \<Rightarrow>
          (con\<lparr>con_state := (case con_mode con of CONSOLE_MODE_ANSI \<Rightarrow> State_parse_escape_sequence_ansi)\<rparr>, t)
      | (Esc_more, con, t) \<Rightarrow> (con, t))"

definition state_read_escape_sequence :: "console \<Rightarrow> tty \<Rightarrow> console \<times> tty" where
  "state_read_escape_sequence con t = read_escape_finish (read_escape_loop 8 con t)"

text \<open>One character of the line, other than the carriage return.\<close>

definition read_char :: "u8 \<Rightarrow> console \<Rightarrow> tty \<Rightarrow> console \<times> tty" where
  "read_char ch con t =
     (let i = arg_line_write_index con
      in if ch = 0 then (con, t)
         else if ch = 0x08 \<or> ch = 0x7f
         then (if i > 0 then (con\<lparr>arg_line_write_index := i - 1\<rparr>, term_backspace con t) else (con, t))
         else if ch = 0x1b
         then ((term_set_snoop_char ch con)\<lparr>cs_write_index := 0, con_state := State_read_escape_sequence\<rparr>, t)
         else if 0x1f < ch \<and> i < arg_line_size con
         then (con\<lparr>arg_line := (arg_line con)[i := ch], arg_line_write_index := i + 1\<rparr>,
               if f_local_echo con then term_putc_raw ch t else t)
         else (con, t))"

fun read_input_loop :: "nat \<Rightarrow> console \<Rightarrow> tty \<Rightarrow> console \<times> tty" where
  "read_input_loop 0 con t = (con, t)"
| "read_input_loop (Suc n) con t =
     (case term_getc_raw con t of
        (new_char, con1, t1) \<Rightarrow>
          if new_char = EOF then (con1, t1)
          else if of_int new_char = (0x0d :: u8) then (con1\<lparr>con_state := State_parse_input\<rparr>, term_put_newline con1 t1)
          else (case read_char (of_int new_char) con1 t1 of (con2, t2) \<Rightarrow> read_input_loop n con2 t2))"

definition state_read_input :: "console \<Rightarrow> tty \<Rightarrow> console \<times> tty" where
  "state_read_input con t = read_input_loop 8 con t"

definition state_start_new_command :: "console \<Rightarrow> tty \<Rightarrow> console \<times> tty" where
  "state_start_new_command con t =
     (con\<lparr>arg_line_write_index := 0, argv := replicate (max_argc con) None, con_state := State_read_input\<rparr>,
      term_puts con (case prompt con of None \<Rightarrow> DEFAULT_PROMPT | Some p \<Rightarrow> p) t)"

text \<open>\<open>help\<close>: the names in the order of the chain.\<close>

partial_function (option) list_from :: "'e con_sys \<Rightarrow> console \<Rightarrow> addr option \<Rightarrow> tty \<Rightarrow> tty option" where
  "list_from s con node t =
     (case node of
        None \<Rightarrow> Some t
      | Some a \<Rightarrow>
          do { cm \<leftarrow> s_command s a;
               list_from s con (cm_next cm)
                 (term_put_newline con (case cm_name cm of None \<Rightarrow> t | Some nm \<Rightarrow> term_puts con nm t)) })"

definition built_in_list_command :: "addr \<Rightarrow> 'e con_sys \<Rightarrow> 'e con_sys option" where
  "built_in_list_command cmd s =
     do { cm \<leftarrow> s_command s cmd;
          c \<leftarrow> cm_console cm;
          con \<leftarrow> s_console s c;
          t \<leftarrow> list_from s con (root con) (s_tty s (con_dev con));
          Some (s\<lparr>s_tty := (s_tty s)(con_dev con := t)\<rparr>) }"

definition run_callback :: "'e extern \<Rightarrow> callback \<Rightarrow> addr \<Rightarrow> u8 list list \<Rightarrow> 'e con_sys \<Rightarrow> 'e con_sys option" where
  "run_callback ext cb cmd args s =
     (case cb of Built_in_list \<Rightarrow> built_in_list_command cmd s | Callback n \<Rightarrow> ext n cmd args s)"

definition console_puts :: "addr option \<Rightarrow> u8 list \<Rightarrow> 'e con_sys \<Rightarrow> 'e con_sys option" where
  "console_puts c str s = (case c of None \<Rightarrow> Some s | Some c \<Rightarrow> on_console (\<lambda>con t. (con, term_puts con str t)) c s)"

text \<open>Search for the handler of the arguments, and its call.\<close>

definition dispatch :: "'e extern \<Rightarrow> addr \<Rightarrow> u8 list list \<Rightarrow> 'e con_sys \<Rightarrow> 'e con_sys option" where
  "dispatch ext c args s =
     (case args of
        [] \<Rightarrow> Some s
      | name # _ \<Rightarrow>
          do { cmd \<leftarrow> locate_command (Some c) name s;
               (case cmd of
                  Some a \<Rightarrow> do { cm \<leftarrow> s_command s a; run_callback ext (cm_callback cm) a args s }
                | None \<Rightarrow>
                    do { s1 \<leftarrow> console_puts (Some c) [39] s;
                         s2 \<leftarrow> console_puts (Some c) name s1;
                         console_puts (Some c) (39 # bytes '' not found'' @ [10]) s2 }) })"

definition state_parse_input :: "'e extern \<Rightarrow> addr \<Rightarrow> 'e con_sys \<Rightarrow> 'e con_sys option" where
  "state_parse_input ext c s =
     do { con \<leftarrow> s_console s c;
          (offs, line) \<leftarrow> split_args (max_argc con) 0 ((arg_line con)[arg_line_write_index con := 0]);
          let con1 = con\<lparr>arg_line := line, argv := map Some offs @ replicate (max_argc con - length offs) None\<rparr>;
          s2 \<leftarrow> dispatch ext c (map (line_string line) offs) (put_console c con1 s);
          con2 \<leftarrow> s_console s2 c;
          Some (put_console c (con2\<lparr>con_state := State_start_new_command\<rparr>) s2) }"

definition console_pump_console :: "'e extern \<Rightarrow> addr option \<Rightarrow> 'e con_sys \<Rightarrow> 'e con_sys option" where
  "console_pump_console ext c s =
     (case c of
        None \<Rightarrow> Some s
      | Some c \<Rightarrow>
          do { con \<leftarrow> s_console s c;
               (case con_state con of
                  State_start_new_command \<Rightarrow> on_console state_start_new_command c s
                | State_read_input \<Rightarrow> on_console state_read_input c s
                | State_parse_input \<Rightarrow> state_parse_input ext c s
                | State_read_escape_sequence \<Rightarrow> on_console state_read_escape_sequence c s
                | State_parse_escape_sequence_ansi \<Rightarrow> on_console state_parse_escape_sequence_ansi c s) })"

subsection \<open>Consoles\<close>

definition CONSOLE_SET_LOCAL_ECHO :: nat where "CONSOLE_SET_LOCAL_ECHO = 1"

definition console_configure_console :: "addr option \<Rightarrow> console_mode \<Rightarrow> nat \<Rightarrow> 'e con_sys \<Rightarrow> 'e con_sys option" where
  "console_configure_console c mode flags s =
     (case c of
        None \<Rightarrow> Some s
      | Some c \<Rightarrow>
          on_console (\<lambda>con t. (con\<lparr>con_mode := mode, f_local_echo := (CONSOLE_SET_LOCAL_ECHO AND flags \<noteq> 0)\<rparr>, t)) c s)"

text \<open>
  The structure and its two arrays. The bytes of a fresh line are zero here; they are written before
  they are read.
\<close>

definition fresh_console :: "addr \<Rightarrow> nat \<Rightarrow> nat \<Rightarrow> console" where
  "fresh_console dev line_size argc =
     \<lparr>root = None, arg_line = replicate (line_size + 1) 0, arg_line_size = line_size, arg_line_write_index = 0,
      argv = replicate argc None, max_argc = argc, con_dev = dev, snoop_char = EOF,
      con_state = State_start_new_command, cs_buffer = replicate CS_BUFFER_SIZE 0, cs_write_index = 0,
      f_local_echo = False, con_mode = CONSOLE_MODE_ANSI, prompt = None\<rparr>"

definition console_alloc_console :: "addr \<Rightarrow> nat \<Rightarrow> nat \<Rightarrow> 'e con_sys \<Rightarrow> (addr option \<times> 'e con_sys) option" where
  "console_alloc_console dev max_arg_line_length max_arg_count s =
     (case s_malloc s of
        (None, s1) \<Rightarrow> Some (None, s1)
      | (Some c, s1) \<Rightarrow>
          (let con = fresh_console dev (max max_arg_line_length 16) (max max_arg_count 1)
           in case s_malloc s1 of
                (None, s2) \<Rightarrow> Some (None, s_free s2)
              | (Some _, s2) \<Rightarrow>
                  (case s_malloc s2 of
                     (None, s3) \<Rightarrow> Some (None, s_free (s_free s3))
                   | (Some _, s3) \<Rightarrow>
                       do { s4 \<leftarrow> console_configure_console (Some c) CONSOLE_MODE_ANSI CONSOLE_SET_LOCAL_ECHO
                                    (put_console c con s3);
                            Some (Some c, s4) })))"

partial_function (option) unregister_all :: "addr \<Rightarrow> 'e con_sys \<Rightarrow> 'e con_sys option" where
  "unregister_all c s =
     do { con \<leftarrow> s_console s c;
          (if root con = None then Some s else do { s1 \<leftarrow> unregister_command (root con) s; unregister_all c s1 }) }"

definition console_free_console :: "addr option \<Rightarrow> 'e con_sys \<Rightarrow> 'e con_sys option" where
  "console_free_console c s =
     (case c of
        None \<Rightarrow> Some s
      | Some c \<Rightarrow>
          do { s1 \<leftarrow> unregister_all c s;
               con \<leftarrow> s_console s1 c;
               let s2 = s_free (s_free s1);
               let s3 = (if prompt con = None then s2 else s_free s2);
               Some (s_free (s3\<lparr>s_console := (s_console s3)(c := None)\<rparr>)) })"

definition console_free_prompt :: "addr \<Rightarrow> 'e con_sys \<Rightarrow> 'e con_sys option" where
  "console_free_prompt c s =
     do { con \<leftarrow> s_console s c;
          let s1 = (if prompt con = None then s else s_free s);
          Some (put_console c (con\<lparr>prompt := None\<rparr>) s1) }"

definition console_replace_prompt ::
    "addr option \<Rightarrow> u8 list option \<Rightarrow> 'e con_sys \<Rightarrow> (u8 list option \<times> 'e con_sys) option" where
  "console_replace_prompt c p s =
     (case (c, p) of
        (Some c, Some str) \<Rightarrow>
          do { con \<leftarrow> s_console s c;
               let s1 = (if prompt con = None then s else s_free s);
               (case s_strdup str s1 of
                  (q, s2) \<Rightarrow> Some (q, put_console c (con\<lparr>prompt := q\<rparr>) s2)) }
      | _ \<Rightarrow> Some (None, s))"

definition console_putc :: "addr option \<Rightarrow> u8 \<Rightarrow> 'e con_sys \<Rightarrow> 'e con_sys option" where
  "console_putc c ch s = (case c of None \<Rightarrow> Some s | Some c \<Rightarrow> on_console (\<lambda>con t. (con, term_putc con ch t)) c s)"

definition console_putc_raw :: "addr option \<Rightarrow> u8 \<Rightarrow> 'e con_sys \<Rightarrow> 'e con_sys option" where
  "console_putc_raw c ch s = (case c of None \<Rightarrow> Some s | Some c \<Rightarrow> on_console (\<lambda>con t. (con, term_putc_raw ch t)) c s)"

definition console_getc_raw :: "addr option \<Rightarrow> 'e con_sys \<Rightarrow> (int \<times> 'e con_sys) option" where
  "console_getc_raw c s =
     (case c of
        None \<Rightarrow> Some (EOF, s)
      | Some c \<Rightarrow>
          do { con \<leftarrow> s_console s c;
               (case term_getc_raw con (s_tty s (con_dev con)) of
                  (ch, con1, t) \<Rightarrow> Some (ch, put_console c con1 (s\<lparr>s_tty := (s_tty s)(con_dev con := t)\<rparr>))) })"

definition command_get_console :: "addr \<Rightarrow> 'e con_sys \<Rightarrow> addr option option" where
  "command_get_console cmd s = map_option cm_console (s_command s cmd)"

text \<open>
  \<open>console_printf\<close>: the text goes through a buffer of 256 bytes on the stack, at \<open>buf\<close> in the memory
  \<open>m\<close>, and is read from there as a string.
\<close>

definition console_printf ::
    "mem \<Rightarrow> u64 \<Rightarrow> addr option \<Rightarrow> u8 list \<Rightarrow> va_arg list \<Rightarrow> 'e con_sys \<Rightarrow> (nat \<times> 'e con_sys) option" where
  "console_printf m buf c format args s =
     do { (err, st) \<leftarrow> vsnprintf buf 256 format args \<lparr>p_mem = m, p_out = buf, p_len = None, p_log = []\<rparr>;
          len \<leftarrow> strlen (p_mem st) buf;
          s1 \<leftarrow> console_puts c (map (\<lambda>i. p_mem st (buf + of_nat i)) [0..<len]) s;
          Some (err, s1) }"

end
