(* ===== verification/Timer.thy ===== *)
theory Timer
  imports Prelude "HOL-Library.Monad_Syntax"
begin

text \<open>
  The timer of a hart, \<open>arch/riscv/src/timer.c\<close>: the counter, delays, conversions and the timer
  interrupt. The counter is \<open>clock\<close>, a function of the number of times it was read before; its
  frequency is the constant of the configuration. Writes to the compare register of the CLINT are
  kept in order. The platform device that \<open>timer_probe\<close> gets is the type of its match entry and its
  register base.
\<close>

datatype timer_type = TIMER_TYPE_CLINT | TIMER_TYPE_ACLINT | TIMER_TYPE_SSTC

record timer_isr =
  isr_func :: "nat option"
  isr_data :: u64
  isr_tick :: u64
  isr_mtimecmp :: u64

record timer_ctx =
  ctx_type :: timer_type
  ctx_base :: u64
  ctx_isr :: "nat \<Rightarrow> timer_isr"

record timer_st =
  tm_heap :: heap_st
  tm_reads :: nat
  tm_ctx :: "timer_ctx option"
  tm_writes :: "(u64 \<times> u32) list"
  tm_stimecmp :: u64
  tm_mtie :: bool
  tm_stie :: bool

definition timer_get_tick :: "(nat \<Rightarrow> u64) \<Rightarrow> timer_st \<Rightarrow> u64 \<times> timer_st" where
  "timer_get_tick clock st = (clock (tm_reads st), st\<lparr>tm_reads := tm_reads st + 1\<rparr>)"

partial_function (option) delay_loop :: "(nat \<Rightarrow> u64) \<Rightarrow> u64 \<Rightarrow> u64 \<Rightarrow> timer_st \<Rightarrow> timer_st option" where
  "delay_loop clock start tick st =
     (case timer_get_tick clock st of
        (e, st1) \<Rightarrow> if e - start < tick then delay_loop clock start tick st1 else Some st1)"

definition timer_delay_tick :: "(nat \<Rightarrow> u64) \<Rightarrow> u64 \<Rightarrow> timer_st \<Rightarrow> timer_st option" where
  "timer_delay_tick clock tick st = (case timer_get_tick clock st of (start, st1) \<Rightarrow> delay_loop clock start tick st1)"

definition timer_mdelay :: "u64 \<Rightarrow> (nat \<Rightarrow> u64) \<Rightarrow> u32 \<Rightarrow> timer_st \<Rightarrow> timer_st option" where
  "timer_mdelay freq clock ms st = timer_delay_tick clock (freq * ucast ms div 1000) st"

definition timer_udelay :: "u64 \<Rightarrow> (nat \<Rightarrow> u64) \<Rightarrow> u32 \<Rightarrow> timer_st \<Rightarrow> timer_st option" where
  "timer_udelay freq clock us st = timer_delay_tick clock (freq * ucast us div 1000000) st"

definition timer_tick2us :: "u64 \<Rightarrow> u64 \<Rightarrow> u64" where
  "timer_tick2us freq tick = tick * 1000 * 1000 div freq"

definition timer_tick2ms :: "u64 \<Rightarrow> u64 \<Rightarrow> u64" where
  "timer_tick2ms freq tick = tick * 1000 div freq"

definition timer_tick2s :: "u64 \<Rightarrow> u64 \<Rightarrow> u64" where
  "timer_tick2s freq tick = tick div freq"

definition timer_us2tick :: "u64 \<Rightarrow> u64 \<Rightarrow> u64" where
  "timer_us2tick freq us = freq * us div 1000 div 1000"

definition timer_ms2tick :: "u64 \<Rightarrow> u64 \<Rightarrow> u64" where
  "timer_ms2tick freq ms = freq * ms div 1000"

definition timer_s2tick :: "u64 \<Rightarrow> u64 \<Rightarrow> u64" where
  "timer_s2tick freq s = freq * s"

subsection \<open>The interrupt\<close>

text \<open>A CLINT or, with a null register, the CSR.\<close>

definition setup_next_time :: "u64 \<Rightarrow> u64 \<Rightarrow> timer_st \<Rightarrow> timer_st" where
  "setup_next_time reg next st =
     (if reg \<noteq> 0
      then st\<lparr>tm_writes := tm_writes st @ [(reg + 4, ucast (drop_bit 32 next)), (reg, ucast (next AND 0xffffffff))]\<rparr>
      else st\<lparr>tm_stimecmp := next\<rparr>)"

text \<open>The function the interrupt calls, with its argument; without a context the code faults.\<close>

definition mtimer_isr :: "(nat \<Rightarrow> u64) \<Rightarrow> nat \<Rightarrow> timer_st \<Rightarrow> ((nat \<times> u64) option \<times> timer_st) option" where
  "mtimer_isr clock idx st =
     do { ctx \<leftarrow> tm_ctx st;
          let i = ctx_isr ctx idx;
          (case timer_get_tick clock st of
             (t, st1) \<Rightarrow>
               Some (map_option (\<lambda>f. (f, isr_data i)) (isr_func i), setup_next_time (isr_mtimecmp i) (t + isr_tick i) st1)) }"

definition arch_local_timer_irq :: "bool \<Rightarrow> timer_st \<Rightarrow> timer_st" where
  "arch_local_timer_irq on st = st\<lparr>tm_mtie := on\<rparr>"

definition arch_local_stimer_irq :: "bool \<Rightarrow> timer_st \<Rightarrow> timer_st" where
  "arch_local_stimer_irq on st = st\<lparr>tm_stie := on\<rparr>"

definition timer_irq_switch :: "timer_type \<Rightarrow> bool \<Rightarrow> timer_st \<Rightarrow> timer_st" where
  "timer_irq_switch ty on st = (if ty = TIMER_TYPE_SSTC then arch_local_stimer_irq on st else arch_local_timer_irq on st)"

definition timer_enable_irq :: "(nat \<Rightarrow> u64) \<Rightarrow> nat \<Rightarrow> u64 \<Rightarrow> nat option \<Rightarrow> u64 \<Rightarrow> timer_st \<Rightarrow> errno option \<times> timer_st" where
  "timer_enable_irq clock idx tick isr data st =
     (case tm_ctx st of
        None \<Rightarrow> (Some ENODEV, st)
      | Some ctx \<Rightarrow>
          (let reg = (if ctx_type ctx = TIMER_TYPE_SSTC then 0 else ctx_base ctx + of_nat idx * 8);
               i = \<lparr>isr_func = isr, isr_data = data, isr_tick = tick, isr_mtimecmp = reg\<rparr>;
               st1 = st\<lparr>tm_ctx := Some (ctx\<lparr>ctx_isr := (ctx_isr ctx)(idx := i)\<rparr>)\<rparr>
           in case timer_get_tick clock st1 of
                (t, st2) \<Rightarrow> (None, timer_irq_switch (ctx_type ctx) True (setup_next_time reg (t + tick) st2))))"

definition timer_disable_irq :: "timer_st \<Rightarrow> errno option \<times> timer_st" where
  "timer_disable_irq st =
     (case tm_ctx st of None \<Rightarrow> (Some ENODEV, st) | Some ctx \<Rightarrow> (None, timer_irq_switch (ctx_type ctx) False st))"

definition CLINT_MTIMECMP_OFFSET :: u64 where "CLINT_MTIMECMP_OFFSET = 0x4000"

definition empty_isr :: timer_isr where
  "empty_isr = \<lparr>isr_func = None, isr_data = 0, isr_tick = 0, isr_mtimecmp = 0\<rparr>"

text \<open>\<open>sstc\<close> says if the bit STCE of \<open>menvcfg\<close> reads back as set.\<close>

definition timer_probe :: "bool \<Rightarrow> timer_type option \<Rightarrow> u64 \<Rightarrow> timer_st \<Rightarrow> errno option \<times> timer_st" where
  "timer_probe sstc match_data reg_base st =
     (let ty = (case match_data of Some ty \<Rightarrow> ty | None \<Rightarrow> TIMER_TYPE_CLINT)
      in if ty = TIMER_TYPE_SSTC \<and> \<not> sstc then (Some ENODEV, st)
         else
           (case malloc (tm_heap st) of
              (False, h) \<Rightarrow> (Some ENOMEM, st\<lparr>tm_heap := h\<rparr>)
            | (True, h) \<Rightarrow>
                (let base = (case ty of TIMER_TYPE_CLINT \<Rightarrow> reg_base + CLINT_MTIMECMP_OFFSET
                             | TIMER_TYPE_ACLINT \<Rightarrow> reg_base | TIMER_TYPE_SSTC \<Rightarrow> 0)
                 in (None, timer_irq_switch ty False
                       (st\<lparr>tm_heap := h, tm_ctx := Some \<lparr>ctx_type = ty, ctx_base = base, ctx_isr = \<lambda>_. empty_isr\<rparr>\<rparr>)))))"

subsection \<open>Delays end, and not too early\<close>

lemma delay_loop_returns:
  assumes "tick \<le> clock (tm_reads st + n) - start"
  shows "\<exists>k \<le> n. delay_loop clock start tick st = Some (st\<lparr>tm_reads := tm_reads st + k + 1\<rparr>) \<and>
    tick \<le> clock (tm_reads st + k) - start"
  using assms
proof (induction n arbitrary: st)
  case 0
  then show ?case by (subst delay_loop.simps) (simp add: timer_get_tick_def not_less[symmetric])
next
  case (Suc n)
  show ?case
  proof (cases "clock (tm_reads st) - start < tick")
    case True
    have "tick \<le> clock (tm_reads (st\<lparr>tm_reads := tm_reads st + 1\<rparr>) + n) - start" using Suc.prems by simp
    from Suc.IH[OF this] obtain k where "k \<le> n"
      "delay_loop clock start tick (st\<lparr>tm_reads := tm_reads st + 1\<rparr>) = Some (st\<lparr>tm_reads := tm_reads st + Suc k + 1\<rparr>)"
      "tick \<le> clock (tm_reads st + Suc k) - start" by auto
    with True show ?thesis
      by (intro exI[of _ "Suc k"]) (subst delay_loop.simps, simp add: timer_get_tick_def)
  next
    case False
    then show ?thesis
      by (intro exI[of _ 0]) (subst delay_loop.simps, simp add: timer_get_tick_def)
  qed
qed

lemma timer_delay_tick_returns:
  assumes "tick \<le> clock (tm_reads st + 1 + n) - clock (tm_reads st)"
  shows "\<exists>k. timer_delay_tick clock tick st = Some (st\<lparr>tm_reads := tm_reads st + k + 2\<rparr>) \<and>
    tick \<le> clock (tm_reads st + 1 + k) - clock (tm_reads st)"
proof -
  have "tick \<le> clock (tm_reads (st\<lparr>tm_reads := tm_reads st + 1\<rparr>) + n) - clock (tm_reads st)" using assms by simp
  from delay_loop_returns[where st = "st\<lparr>tm_reads := tm_reads st + 1\<rparr>" and start = "clock (tm_reads st)" and clock = clock
      and tick = tick and n = n, OF this]
  show ?thesis by (auto simp: timer_delay_tick_def timer_get_tick_def)
qed

text \<open>The word that the compare register of a CLINT holds after the two writes.\<close>

lemma setup_next_time_word:
  "(ucast (ucast (drop_bit 32 next) :: u32) :: u64) * 2 ^ 32 + ucast (ucast (next AND 0xffffffff) :: u32) = (next :: u64)"
proof -
  have m: "next AND 0xffffffff = take_bit 32 next" by (simp add: take_bit_eq_mask mask_numeral)
  have "unat (ucast (ucast (drop_bit 32 next) :: u32) :: u64) = unat next div 2 ^ 32"
  proof -
    have "unat next div 2 ^ 32 < 2 ^ 32" using unsigned_less[of "next", where ?'a = nat] by (simp add: less_mult_imp_div_less)
    then show ?thesis by (simp add: unsigned_ucast_eq unsigned_take_bit_eq take_bit_nat_eq_self unsigned_drop_bit_eq drop_bit_eq_div unat_div)
  qed
  then have h: "(ucast (ucast (drop_bit 32 next) :: u32) :: u64) = next div 2 ^ 32"
    by (intro word_unat_eq_iff[THEN iffD2]) (simp add: unat_div)
  have l: "(ucast (ucast (next AND 0xffffffff) :: u32) :: u64) = next mod 2 ^ 32"
    unfolding m by (intro word_unat_eq_iff[THEN iffD2])
      (simp add: unsigned_ucast_eq take_bit_eq_mod unsigned_take_bit_eq unat_mod_distrib)
  show ?thesis unfolding h l by (rule div_mult_mod_eq)
qed

end
