(* ===== verification/Cli.thy ===== *)
theory Cli
  imports Console Timer
begin

text \<open>
  The command line on all serial ports, \<open>lib/cli/cli.c\<close>: the list of consoles, the commands of the
  linker section and the main loop.

  The globals of the file are the environment of the consoles: the list in its order, the structures
  \<open>cli_console\<close>, the flag \<open>run\<close> and the timer. The command table is the list of the entries the
  linker has collected. \<open>m\<close> and \<open>buf\<close> are the stack that \<open>console_printf\<close> uses.
\<close>

record cli_console =
  cc_console :: addr
  cc_dev :: addr

record 'x cli_env =
  cl_list :: "addr list"
  cl_console :: "addr \<Rightarrow> cli_console option"
  cl_run :: bool
  cl_timer :: timer_st
  cl_rest :: 'x

type_synonym 'x cli_sys = "'x cli_env con_sys"

definition cli_console_first :: "'x cli_sys \<Rightarrow> addr option" where
  "cli_console_first s = (case cl_list (s_env s) of [] \<Rightarrow> None | a # _ \<Rightarrow> Some a)"

definition cli_console_next :: "addr \<Rightarrow> 'x cli_sys \<Rightarrow> addr option" where
  "cli_console_next a s =
     (case dropWhile (\<lambda>b. b \<noteq> a) (cl_list (s_env s)) of _ # b # _ \<Rightarrow> Some b | _ \<Rightarrow> None)"

text \<open>The loop over the consoles that every function here has.\<close>

partial_function (option) each_from ::
    "(cli_console \<Rightarrow> 'x cli_sys \<Rightarrow> 'x cli_sys option) \<Rightarrow> addr option \<Rightarrow> 'x cli_sys \<Rightarrow> 'x cli_sys option" where
  "each_from f node s =
     (case node of
        None \<Rightarrow> Some s
      | Some a \<Rightarrow>
          do { cc \<leftarrow> cl_console (s_env s) a;
               s1 \<leftarrow> f cc s;
               each_from f (cli_console_next a s1) s1 })"

definition each_console :: "(cli_console \<Rightarrow> 'x cli_sys \<Rightarrow> 'x cli_sys option) \<Rightarrow> 'x cli_sys \<Rightarrow> 'x cli_sys option" where
  "each_console f s = each_from f (cli_console_first s) s"

definition cli_add_command :: "u8 list option \<Rightarrow> callback \<Rightarrow> addr option \<Rightarrow> 'x cli_sys \<Rightarrow> 'x cli_sys option" where
  "cli_add_command nm fn priv s =
     each_console (\<lambda>cc s. map_option snd (console_alloc_command priv (Some (cc_console cc)) nm fn s)) s"

definition set_run :: "bool \<Rightarrow> 'x cli_sys \<Rightarrow> 'x cli_sys" where
  "set_run b s = s\<lparr>s_env := (s_env s)\<lparr>cl_run := b\<rparr>\<rparr>"

definition cli_exit :: "'x cli_sys \<Rightarrow> bool \<times> 'x cli_sys" where
  "cli_exit s = (cl_run (s_env s), set_run False s)"

definition cli_tick :: "(nat \<Rightarrow> u64) \<Rightarrow> 'x cli_sys \<Rightarrow> u64 \<times> 'x cli_sys" where
  "cli_tick clock s =
     (case timer_get_tick clock (cl_timer (s_env s)) of (t, tm) \<Rightarrow> (t, s\<lparr>s_env := (s_env s)\<lparr>cl_timer := tm\<rparr>\<rparr>))"

subsection \<open>The callbacks of this file\<close>

definition HELLO :: nat where "HELLO = 0"
definition EXIT :: nat where "EXIT = 1"

definition hello :: "mem \<Rightarrow> u64 \<Rightarrow> addr \<Rightarrow> 'x cli_sys \<Rightarrow> 'x cli_sys option" where
  "hello m buf cmd s =
     do { c \<leftarrow> command_get_console cmd s;
          (_, s1) \<leftarrow> console_printf m buf c (bytes ''hello'' @ [10]) [] s;
          Some s1 }"

definition command_exit :: "'x cli_sys \<Rightarrow> 'x cli_sys" where
  "command_exit s = snd (cli_exit s)"

definition cli_callbacks :: "mem \<Rightarrow> u64 \<Rightarrow> 'x cli_env extern \<Rightarrow> 'x cli_env extern" where
  "cli_callbacks m buf ext n cmd args s =
     (if n = HELLO then hello m buf cmd s else if n = EXIT then Some (command_exit s) else ext n cmd args s)"

subsection \<open>The loop\<close>

definition wants_console :: "int \<Rightarrow> bool" where
  "wants_console ch = (ch = 106 \<or> ch = 74)"

text \<open>
  One round of polls of the serial devices, from one console on, which ends at the first \<open>j\<close>: the last
  character that was read.
\<close>

partial_function (option) poll_from :: "addr option \<Rightarrow> int \<Rightarrow> 'x cli_sys \<Rightarrow> (int \<times> 'x cli_sys) option" where
  "poll_from node ch s =
     (case node of
        None \<Rightarrow> Some (ch, s)
      | Some a \<Rightarrow>
          do { cc \<leftarrow> cl_console (s_env s) a;
               (case serial_poll (s_tty s (cc_dev cc)) of
                  (p, t) \<Rightarrow>
                    (let s1 = s\<lparr>s_tty := (s_tty s)(cc_dev cc := t)\<rparr>
                     in if wants_console p then Some (p, s1) else poll_from (cli_console_next a s1) p s1)) })"

partial_function (option) wait_key ::
    "u64 \<Rightarrow> (nat \<Rightarrow> u64) \<Rightarrow> u64 \<Rightarrow> u32 \<Rightarrow> int \<Rightarrow> 'x cli_sys \<Rightarrow> (bool \<times> 'x cli_sys) option" where
  "wait_key freq clock start wait ch s =
     do { (ch1, s1) \<leftarrow> poll_from (cli_console_first s) ch s;
          (if wants_console ch1 then Some (True, s1)
           else
             (case cli_tick clock s1 of
                (t, s2) \<Rightarrow>
                  if timer_tick2us freq (t - start) > ucast wait then Some (False, s2)
                  else wait_key freq clock start wait ch1 s2)) }"

definition pump_all :: "'x cli_env extern \<Rightarrow> 'x cli_sys \<Rightarrow> 'x cli_sys option" where
  "pump_all ext s = each_console (\<lambda>cc s. console_pump_console ext (Some (cc_console cc)) s) s"

partial_function (option) run_loop :: "'x cli_env extern \<Rightarrow> 'x cli_sys \<Rightarrow> 'x cli_sys option" where
  "run_loop ext s =
     (if cl_run (s_env s) then do { s1 \<leftarrow> pump_all ext s; run_loop ext s1 } else Some s)"

definition press_j :: "u8 list" where
  "press_j = bytes ''Press '' @ [39, 106, 39] @ bytes '' enter console'' @ [10]"

definition cli_loop ::
    "u64 \<Rightarrow> (nat \<Rightarrow> u64) \<Rightarrow> mem \<Rightarrow> u64 \<Rightarrow> 'x cli_env extern \<Rightarrow> u32 \<Rightarrow> 'x cli_sys \<Rightarrow> (u64 \<times> 'x cli_sys) option" where
  "cli_loop freq clock m buf ext wait s =
     (case cli_tick clock s of
        (start, s1) \<Rightarrow>
          do { (enter, s2) \<leftarrow>
                 (if wait = 0 then Some (True, s1)
                  else
                    do { s2 \<leftarrow> each_console (\<lambda>cc s. map_option snd (console_printf m buf (Some (cc_console cc)) press_j [] s)) s1;
                         wait_key freq clock start wait 0 s2 });
               (if \<not> enter then Some (ucast wait, s2)
                else
                  do { s3 \<leftarrow> run_loop (cli_callbacks m buf ext) (set_run True s2);
                       (case cli_tick clock s3 of
                          (e, s4) \<Rightarrow> Some (timer_tick2us freq (e - start) + 1, s4)) }) })"

subsection \<open>Start\<close>

fun add_commands :: "(u8 list \<times> callback) list \<Rightarrow> addr \<Rightarrow> 'x cli_sys \<Rightarrow> 'x cli_sys option" where
  "add_commands [] c s = Some s"
| "add_commands ((nm, cb) # table) c s =
     do { (_, s1) \<leftarrow> console_alloc_command None (Some c) (Some nm) cb s; add_commands table c s1 }"

definition init_cli_console :: "(u8 list \<times> callback) list \<Rightarrow> addr \<Rightarrow> 'x cli_sys \<Rightarrow> (addr option \<times> 'x cli_sys) option" where
  "init_cli_console table dev s =
     (case s_malloc s of
        (None, s1) \<Rightarrow> Some (None, s1)
      | (Some cc, s1) \<Rightarrow>
          do { (console, s2) \<leftarrow> console_alloc_console dev 128 10 s1;
               (case console of
                  None \<Rightarrow> Some (None, s2)
                | Some c \<Rightarrow>
                    do { let s3 = s2\<lparr>s_env := (s_env s2)\<lparr>cl_console := (cl_console (s_env s2))
                           (cc \<mapsto> \<lparr>cc_console = c, cc_dev = dev\<rparr>)\<rparr>\<rparr>;
                         (_, s4) \<leftarrow> console_alloc_list_command (Some c) (Some (bytes ''help'')) s3;
                         s5 \<leftarrow> add_commands table c s4;
                         Some (Some cc, s5) }) })"

text \<open>The serial devices in the order of their list.\<close>

fun cli_init :: "(u8 list \<times> callback) list \<Rightarrow> addr list \<Rightarrow> 'x cli_sys \<Rightarrow> 'x cli_sys option" where
  "cli_init table [] s = Some s"
| "cli_init table (dev # devs) s =
     do { (cc, s1) \<leftarrow> init_cli_console table dev s;
          cli_init table devs
            (case cc of None \<Rightarrow> s1 | Some a \<Rightarrow> s1\<lparr>s_env := (s_env s1)\<lparr>cl_list := cl_list (s_env s1) @ [a]\<rparr>\<rparr>) }"

end
