(* ===== verification/Console_Props.thy ===== *)
theory Console_Props
  imports Console
begin

text \<open>
  The line editor: keys as the user presses them, what they do to the line and to the screen, and the
  proof that the state machine of the console, polled in pieces of any size, does this.
\<close>

subsection \<open>Keys\<close>

text \<open>
  A character of the line, a backspace or delete, a control character without effect, an escape
  sequence: the bytes behind the escape.
\<close>

datatype key = Key u8 | Erase u8 | Ignored u8 | Escape "u8 list"

definition escape_ends :: "nat \<Rightarrow> u8 \<Rightarrow> bool" where
  "escape_ends i b = (if i = 1 then b \<noteq> 0x5b \<and> 0x40 \<le> b \<and> b \<le> 0x5f else 0x40 \<le> b \<and> b \<le> 0x7e)"

text \<open>The rest of an escape sequence from index \<open>i\<close> of the buffer on.\<close>

fun escape_ok :: "nat \<Rightarrow> u8 list \<Rightarrow> bool" where
  "escape_ok i [] = False"
| "escape_ok i (b # bs) =
     (i < CS_BUFFER_SIZE \<and> b \<noteq> 0x18 \<and> b \<noteq> 0x1a \<and> (if escape_ends i b then bs = [] else escape_ok (i + 1) bs))"

fun key_code :: "key \<Rightarrow> u8 list" where
  "key_code (Key c) = [c]"
| "key_code (Erase c) = [c]"
| "key_code (Ignored c) = [c]"
| "key_code (Escape bs) = 0x1b # bs"

fun key_ok :: "key \<Rightarrow> bool" where
  "key_ok (Key c) = (0x1f < c \<and> c \<noteq> 0x7f)"
| "key_ok (Erase c) = (c = 0x08 \<or> c = 0x7f)"
| "key_ok (Ignored c) = (c \<le> 0x1f \<and> c \<noteq> 0x08 \<and> c \<noteq> 0x0d \<and> c \<noteq> 0x1b)"
| "key_ok (Escape bs) = escape_ok 1 bs"

fun edit :: "nat \<Rightarrow> u8 list \<Rightarrow> key \<Rightarrow> u8 list" where
  "edit n line (Key c) = (if length line < n then line @ [c] else line)"
| "edit n line (Erase c) = butlast line"
| "edit n line _ = line"

fun key_echo :: "bool \<Rightarrow> nat \<Rightarrow> u8 list \<Rightarrow> key \<Rightarrow> u8 list" where
  "key_echo echo n line (Key c) = (if length line < n \<and> echo then [c] else [])"
| "key_echo echo n line (Erase c) = (if line = [] then [] else [8, 32, 8])"
| "key_echo echo n line _ = []"

fun screen :: "bool \<Rightarrow> nat \<Rightarrow> u8 list \<Rightarrow> key list \<Rightarrow> u8 list" where
  "screen echo n line [] = []"
| "screen echo n line (k # ks) = key_echo echo n line k @ screen echo n (edit n line k) ks"

definition edited :: "nat \<Rightarrow> u8 list \<Rightarrow> key list \<Rightarrow> u8 list" where
  "edited n line ks = foldl (edit n) line ks"

lemma edited_simps [simp]: "edited n line [] = line" "edited n line (k # ks) = edited n (edit n line k) ks"
  by (simp_all add: edited_def)

subsection \<open>One round of the state machine\<close>

text \<open>The characters a serial device has still to deliver.\<close>

definition typed :: "tty \<Rightarrow> u8 list" where
  "typed t = map of_int (filter (\<lambda>p. 0 \<le> p) (tty_polls t))"

definition pump1 :: "console \<times> tty \<Rightarrow> console \<times> tty" where
  "pump1 r =
     (case r of (con, t) \<Rightarrow>
        (case con_state con of
           State_start_new_command \<Rightarrow> state_start_new_command con t
         | State_read_input \<Rightarrow> state_read_input con t
         | State_parse_input \<Rightarrow> (con, t)
         | State_read_escape_sequence \<Rightarrow> state_read_escape_sequence con t
         | State_parse_escape_sequence_ansi \<Rightarrow> state_parse_escape_sequence_ansi con t))"

inductive pumped :: "console \<times> tty \<Rightarrow> console \<times> tty \<Rightarrow> bool" where
  pumped_refl: "pumped r r"
| pumped_step: "con_state (fst r) \<noteq> State_parse_input \<Longrightarrow> pumped (pump1 r) q \<Longrightarrow> pumped r q"

definition con_ok :: "console \<Rightarrow> bool" where
  "con_ok con \<longleftrightarrow> length (arg_line con) = arg_line_size con + 1 \<and> arg_line_write_index con \<le> arg_line_size con \<and>
     length (cs_buffer con) = CS_BUFFER_SIZE"

definition line_of :: "console \<Rightarrow> u8 list" where
  "line_of con = take (arg_line_write_index con) (arg_line con)"

text \<open>What the editor does not change.\<close>

definition same_setup :: "console \<Rightarrow> console \<Rightarrow> bool" where
  "same_setup con con' \<longleftrightarrow> root con' = root con \<and> arg_line_size con' = arg_line_size con \<and>
     max_argc con' = max_argc con \<and> con_dev con' = con_dev con \<and> f_local_echo con' = f_local_echo con \<and>
     con_mode con' = con_mode con \<and> prompt con' = prompt con"

text \<open>At the end of the line, with the line and the screen as typed; \<open>r\<close> gets there.\<close>

definition finished :: "console \<Rightarrow> tty \<Rightarrow> key list \<Rightarrow> u8 list \<Rightarrow> console \<times> tty \<Rightarrow> bool" where
  "finished con t ks rest q \<longleftrightarrow>
     con_state (fst q) = State_parse_input \<and> con_ok (fst q) \<and> same_setup con (fst q) \<and> snoop_char (fst q) = EOF \<and>
     line_of (fst q) = edited (arg_line_size con) (line_of con) ks \<and>
     tty_sent (snd q) = tty_sent t @ screen (f_local_echo con) (arg_line_size con) (line_of con) ks @ [13, 10] \<and>
     typed (snd q) = rest"

definition line_read :: "console \<Rightarrow> tty \<Rightarrow> key list \<Rightarrow> u8 list \<Rightarrow> console \<times> tty \<Rightarrow> bool" where
  "line_read con t ks rest r \<longleftrightarrow> (\<exists>q. pumped r q \<and> finished con t ks rest q)"

text \<open>The loop of the current state with \<open>k\<close> iterations left.\<close>

definition resume :: "nat \<Rightarrow> console \<Rightarrow> tty \<Rightarrow> console \<times> tty" where
  "resume k con t =
     (case con_state con of
        State_read_input \<Rightarrow> read_input_loop k con t
      | State_read_escape_sequence \<Rightarrow> read_escape_finish (read_escape_loop k con t)
      | _ \<Rightarrow> (con, t))"

lemma resume_0 [simp]: "resume 0 con t = (con, t)"
  by (simp add: resume_def read_escape_finish_def split: console_state.splits)

lemma pump1_resume:
  "con_state con = State_read_input \<or> con_state con = State_read_escape_sequence \<Longrightarrow> pump1 (con, t) = resume 8 con t"
  by (auto simp: pump1_def resume_def state_read_input_def state_read_escape_sequence_def)

lemma line_read_step:
  assumes "con_state (fst r) \<noteq> State_parse_input" "line_read con t ks rest (pump1 r)"
  shows "line_read con t ks rest r"
  using assms unfolding line_read_def by (blast intro: pumped_step)

lemma line_read_pump:
  assumes "con_state con' = State_read_input \<or> con_state con' = State_read_escape_sequence"
    "line_read con t ks rest (resume 8 con' t')"
  shows "line_read con t ks rest (con', t')"
  by (rule line_read_step) (use assms in \<open>auto simp: pump1_resume\<close>)

lemma finished_trans:
  assumes "finished con1 t1 ks rest q" "same_setup con con1"
    "line_of con1 = edit (arg_line_size con) (line_of con) k"
    "tty_sent t1 = tty_sent t @ key_echo (f_local_echo con) (arg_line_size con) (line_of con) k"
  shows "finished con t (k # ks) rest q"
  using assms unfolding finished_def same_setup_def by simp

lemma line_read_trans:
  assumes "line_read con1 t1 ks rest r" "same_setup con con1"
    "line_of con1 = edit (arg_line_size con) (line_of con) k"
    "tty_sent t1 = tty_sent t @ key_echo (f_local_echo con) (arg_line_size con) (line_of con) k"
  shows "line_read con t (k # ks) rest r"
  using assms(1) finished_trans[OF _ assms(2-4)] unfolding line_read_def by blast

lemma line_read_same:
  assumes "line_read con1 t1 ks rest r" "same_setup con con1" "line_of con1 = line_of con" "tty_sent t1 = tty_sent t"
  shows "line_read con t ks rest r"
proof -
  have "finished con t ks rest q" if "finished con1 t1 ks rest q" for q
    using that assms(2-4) unfolding finished_def same_setup_def by simp
  with assms(1) show ?thesis unfolding line_read_def by blast
qed

subsection \<open>Escape sequences\<close>

text \<open>After an escape the loop that reads the line does nothing any more: it reads its own character.\<close>

lemma read_input_loop_snooped:
  assumes "snoop_char con = 0x1b" "cs_write_index con = 0" "con_state con = State_read_escape_sequence"
  shows "read_input_loop k con t = (con, t)"
  using assms
proof (induction k)
  case (Suc k)
  then have "read_char 0x1b (con\<lparr>snoop_char := EOF\<rparr>) t = (con, t)"
    by (simp add: read_char_def term_set_snoop_char_def Let_def)
  with Suc show ?case by (simp add: term_getc_raw_def EOF_def Let_def)
qed simp

subsection \<open>One character\<close>

lemma getc_poll:
  assumes "snoop_char con = EOF" "tty_polls t = p # ps"
  shows "term_getc_raw con t = (if p < 0 then EOF else p, con, t\<lparr>tty_polls := ps\<rparr>)"
  using assms by (simp add: term_getc_raw_def serial_poll_def Let_def)

lemma typed_poll:
  assumes "tty_polls t = p # ps"
  shows "typed (t\<lparr>tty_polls := ps\<rparr>) = (if p < 0 then typed t else tl (typed t))"
    "0 \<le> p \<Longrightarrow> typed t = of_int p # typed (t\<lparr>tty_polls := ps\<rparr>)"
  using assms by (simp_all add: typed_def)

lemma take_update_self: "i < length xs \<Longrightarrow> take (Suc i) (xs[i := x]) = take i xs @ [x]"
  by (simp add: take_Suc_conv_app_nth)

lemma butlast_take_pred: "0 < i \<Longrightarrow> i \<le> length xs \<Longrightarrow> butlast (take i xs) = take (i - 1) xs"
  by (simp add: butlast_conv_take)

text \<open>A key other than an escape sequence, read as one character.\<close>

lemma read_key:
  assumes "key_ok k" "key_code k = [ch]" "con_ok con" "con_state con = State_read_input" "snoop_char con = EOF"
    "read_char ch con t = (con2, t2)" "\<forall>bs. k \<noteq> Escape bs"
  shows "con_state con2 = State_read_input" "snoop_char con2 = EOF" "con_ok con2" "same_setup con con2"
    "line_of con2 = edit (arg_line_size con) (line_of con) k"
    "tty_sent t2 = tty_sent t @ key_echo (f_local_echo con) (arg_line_size con) (line_of con) k"
    "tty_polls t2 = tty_polls t"
proof -
  let ?i = "arg_line_write_index con"
  have i: "?i \<le> arg_line_size con" "length (arg_line con) = Suc (arg_line_size con)" using assms(3) by (auto simp: con_ok_def)
  have len: "length (line_of con) = ?i" using i by (simp add: line_of_def)
  have ansi: "con_mode con = CONSOLE_MODE_ANSI" by (cases "con_mode con")
  consider (key) c where "k = Key c" "ch = c" "0x1f < c" "c \<noteq> 0x7f"
    | (erase) c where "k = Erase c" "ch = c" "c = 0x08 \<or> c = 0x7f"
    | (ign) c where "k = Ignored c" "ch = c" "c \<le> 0x1f" "c \<noteq> 0x08" "c \<noteq> 0x0d" "c \<noteq> 0x1b"
    using assms(1,2,7) by (cases k) auto
  then have "con_state con2 = State_read_input \<and> snoop_char con2 = EOF \<and> con_ok con2 \<and> same_setup con con2 \<and>
    line_of con2 = edit (arg_line_size con) (line_of con) k \<and>
    tty_sent t2 = tty_sent t @ key_echo (f_local_echo con) (arg_line_size con) (line_of con) k \<and> tty_polls t2 = tty_polls t"
  proof cases
    case key
    then have ne: "c \<noteq> 0" "c \<noteq> 8" "c \<noteq> 27" by auto
    show ?thesis
    proof (cases "?i < arg_line_size con")
      case True
      with key ne assms(6) have "con2 = con\<lparr>arg_line := (arg_line con)[?i := c], arg_line_write_index := ?i + 1\<rparr>"
        "t2 = (if f_local_echo con then term_putc_raw c t else t)" by (auto simp: read_char_def Let_def)
      with True i len assms(3-5) key(1) show ?thesis
        by (auto simp: con_ok_def same_setup_def line_of_def take_update_self term_putc_raw_def serial_out_def)
    next
      case False
      with key ne assms(6) have "con2 = con" "t2 = t" by (auto simp: read_char_def Let_def)
      with False len assms(3-5) key(1) show ?thesis by (auto simp: same_setup_def)
    qed
  next
    case erase
    then have nz: "c \<noteq> 0" by auto
    show ?thesis
    proof (cases "0 < ?i")
      case True
      with erase nz assms(6) have "con2 = con\<lparr>arg_line_write_index := ?i - 1\<rparr>" "t2 = term_backspace con t"
        by (auto simp: read_char_def Let_def)
      with True i len assms(3-5) erase(1) ansi show ?thesis
        by (auto simp: con_ok_def same_setup_def line_of_def butlast_take_pred term_backspace_def serial_out_def
            backspace_bytes_def)
    next
      case False
      with erase nz assms(6) have "con2 = con" "t2 = t" by (auto simp: read_char_def Let_def)
      with False i len assms(3-5) erase(1) show ?thesis by (auto simp: same_setup_def line_of_def)
    qed
  next
    case ign
    then have "\<not> 0x1f < c" "c \<noteq> 0x7f" by auto
    with ign assms(6) have "con2 = con" "t2 = t" by (auto simp: read_char_def Let_def split: if_splits)
    with assms(3-5) ign(1) show ?thesis by (auto simp: same_setup_def)
  qed
  then show "con_state con2 = State_read_input" "snoop_char con2 = EOF" "con_ok con2" "same_setup con con2"
    "line_of con2 = edit (arg_line_size con) (line_of con) k"
    "tty_sent t2 = tty_sent t @ key_echo (f_local_echo con) (arg_line_size con) (line_of con) k"
    "tty_polls t2 = tty_polls t" by blast+
qed

subsection \<open>The whole line\<close>

definition codes :: "key list \<Rightarrow> u8 list" where
  "codes ks = concat (map key_code ks)"

lemma codes_simps [simp]: "codes [] = []" "codes (k # ks) = key_code k @ codes ks"
  by (simp_all add: codes_def)

text \<open>
  What is proved by induction on the polls: the loop of the line and the loop of an escape sequence,
  with any number of iterations left, lead to the end of the line.
\<close>

definition reads_line :: "int list \<Rightarrow> u8 list \<Rightarrow> bool" where
  "reads_line ps rest \<longleftrightarrow>
     (\<forall>k con t ks. tty_polls t = ps \<and> con_state con = State_read_input \<and> snoop_char con = EOF \<and> con_ok con \<and>
        list_all key_ok ks \<and> typed t = codes ks @ 13 # rest \<longrightarrow> line_read con t ks rest (resume k con t))"

definition reads_escape :: "int list \<Rightarrow> u8 list \<Rightarrow> bool" where
  "reads_escape ps rest \<longleftrightarrow>
     (\<forall>k con t bs ks. tty_polls t = ps \<and> con_state con = State_read_escape_sequence \<and> snoop_char con = EOF \<and> con_ok con \<and>
        0 < cs_write_index con \<and> escape_ok (cs_write_index con) bs \<and> list_all key_ok ks \<and>
        typed t = bs @ codes ks @ 13 # rest \<longrightarrow> line_read con t ks rest (resume k con t))"

lemma reads_lineD:
  assumes "reads_line (tty_polls t) rest" "con_state con = State_read_input" "snoop_char con = EOF" "con_ok con"
    "list_all key_ok ks" "typed t = codes ks @ 13 # rest"
  shows "line_read con t ks rest (resume k con t)"
  using assms unfolding reads_line_def by blast

lemma reads_escapeD:
  assumes "reads_escape (tty_polls t) rest" "con_state con = State_read_escape_sequence" "snoop_char con = EOF" "con_ok con"
    "0 < cs_write_index con" "escape_ok (cs_write_index con) bs" "list_all key_ok ks" "typed t = bs @ codes ks @ 13 # rest"
  shows "line_read con t ks rest (resume k con t)"
  using assms unfolding reads_escape_def by blast

lemma same_setup_refl [simp]: "same_setup con con"
  by (simp add: same_setup_def)

lemma line_end:
  assumes "con_state con = State_read_input" "snoop_char con = EOF" "con_ok con" "typed t1 = rest" "tty_sent t1 = tty_sent t"
  shows "line_read con t [] rest (con\<lparr>con_state := State_parse_input\<rparr>, term_put_newline con t1)"
proof -
  have m: "con_mode con = CONSOLE_MODE_ANSI" by (cases "con_mode con")
  have "finished con t [] rest (con\<lparr>con_state := State_parse_input\<rparr>, term_put_newline con t1)"
    using assms by (simp add: finished_def con_ok_def same_setup_def line_of_def term_put_newline_def serial_out_def
        newline_bytes_def m typed_def)
  then show ?thesis unfolding line_read_def by (blast intro: pumped_refl)
qed

text \<open>The round behind the escape character starts to read the sequence.\<close>

lemma escape_starts:
  assumes "con_state con = State_read_input" "snoop_char con = EOF" "con_ok con" "escape_ok 1 bs" "list_all key_ok ks"
    "typed t = bs @ codes ks @ 13 # rest" "reads_escape (tty_polls t) rest"
  shows "line_read con t ks rest (read_input_loop n (fst (read_char 0x1b con t)) t)"
proof -
  let ?con1 = "con\<lparr>snoop_char := 0x1b, cs_write_index := 0, con_state := State_read_escape_sequence\<rparr>"
  let ?con2 = "con\<lparr>cs_write_index := 1, con_state := State_read_escape_sequence, cs_buffer := (cs_buffer con)[0 := 0x1b]\<rparr>"
  have rc: "fst (read_char 0x1b con t) = ?con1" by (simp add: read_char_def term_set_snoop_char_def Let_def)
  have snoop: "read_input_loop n ?con1 t = (?con1, t)" by (rule read_input_loop_snooped) simp_all
  have con2: "con\<lparr>con_state := State_read_escape_sequence, snoop_char := - 1, cs_buffer := (cs_buffer con)[0 := 0x1b],
      cs_write_index := Suc 0\<rparr> = ?con2"
    using assms(2) by (cases con) (simp add: EOF_def)
  have get: "term_getc_raw ?con1 t = (0x1b, ?con1\<lparr>snoop_char := EOF\<rparr>, t)" by (simp add: term_getc_raw_def EOF_def)
  have "read_escape_loop (Suc 7) ?con1 t = read_escape_loop 7 ?con2 t"
    unfolding read_escape_loop.simps get by (simp add: con2 EOF_def Let_def CS_BUFFER_SIZE_def)
  then have "resume 8 ?con1 t = resume 7 ?con2 t" by (simp add: resume_def)
  moreover have "line_read ?con2 t ks rest (resume 7 ?con2 t)"
    using assms by (intro reads_escapeD[where bs = bs]) (simp_all add: con_ok_def)
  then have "line_read con t ks rest (resume 7 ?con2 t)"
    by (rule line_read_same) (simp_all add: same_setup_def line_of_def)
  ultimately have "line_read con t ks rest (?con1, t)" by (intro line_read_pump) simp_all
  then show ?thesis unfolding rc snoop .
qed

lemma reads_line_step:
  assumes IH: "reads_line ps rest" "reads_escape ps rest"
    and a: "tty_polls t = p # ps" "con_state con = State_read_input" "snoop_char con = EOF" "con_ok con"
      "list_all key_ok ks" "typed t = codes ks @ 13 # rest"
  shows "line_read con t ks rest (read_input_loop (Suc k) con t)"
proof (cases "p < 0")
  case True
  let ?t1 = "t\<lparr>tty_polls := ps\<rparr>"
  have "read_input_loop (Suc k) con t = (con, ?t1)" using True by (simp add: getc_poll[OF a(3,1)])
  moreover have "line_read con ?t1 ks rest (resume 8 con ?t1)"
    using IH a(2-6) typed_poll(1)[OF a(1)] True by (intro reads_lineD) simp_all
  ultimately show ?thesis
    using a(2) line_read_pump[of con con ?t1 ks rest ?t1] line_read_same[of con ?t1 ks rest "(con, ?t1)" con t] by simp
next
  case False
  let ?t1 = "t\<lparr>tty_polls := ps\<rparr>"
  let ?ch = "of_int p :: u8"
  have ty: "?ch # typed ?t1 = codes ks @ 13 # rest" using typed_poll(2)[OF a(1)] False a(6) by simp
  have ne: "p \<noteq> EOF" using False by (simp add: EOF_def)
  have loop: "read_input_loop (Suc k) con t =
      (if ?ch = 13 then (con\<lparr>con_state := State_parse_input\<rparr>, term_put_newline con ?t1)
       else read_input_loop k (fst (read_char ?ch con ?t1)) (snd (read_char ?ch con ?t1)))"
    using ne False by (simp add: getc_poll[OF a(3,1)] split: prod.split)
  show ?thesis
  proof (cases ks)
    case Nil
    then have "?ch = 13" "typed ?t1 = rest" using ty by simp_all
    then show ?thesis unfolding loop Nil using a(2-4) by (simp add: line_end)
  next
    case (Cons key ks')
    then have ok: "key_ok key" "list_all key_ok ks'" using a(5) by simp_all
    show ?thesis
    proof (cases "\<exists>bs. key = Escape bs")
      case True
      then obtain bs where key: "key = Escape bs" by blast
      then have b: "?ch = 0x1b" "typed ?t1 = bs @ codes ks' @ 13 # rest" using ty Cons by simp_all
      have "snd (read_char ?ch con ?t1) = ?t1" by (simp add: b(1) read_char_def Let_def)
      then have "read_input_loop (Suc k) con t = read_input_loop k (fst (read_char 0x1b con ?t1)) ?t1"
        unfolding loop by (simp add: b(1))
      moreover have "line_read con ?t1 ks' rest (read_input_loop k (fst (read_char 0x1b con ?t1)) ?t1)"
        using a(2-4) ok b IH(2) key by (intro escape_starts[where bs = bs]) simp_all
      ultimately show ?thesis unfolding Cons
        by (intro line_read_trans[where ?con1.0 = con and ?t1.0 = ?t1]) (simp_all add: key)
    next
      case False
      then have code: "key_code key = [?ch]" and b: "typed ?t1 = codes ks' @ 13 # rest" using ty Cons by (cases key; simp)+
      have "?ch \<noteq> 13" using code ok(1) by (cases key) auto
      obtain con2 t2 where rc: "read_char ?ch con ?t1 = (con2, t2)" by fastforce
      note r = read_key[OF ok(1) code a(4,2,3) rc] False
      have "line_read con2 t2 ks' rest (read_input_loop k con2 t2)"
        using reads_lineD[of t2 rest con2 ks' k] IH(1) r b ok(2) by (simp add: resume_def typed_def)
      then have "line_read con t (key # ks') rest (read_input_loop k con2 t2)" by (rule line_read_trans) (use r in simp_all)
      with \<open>?ch \<noteq> 13\<close> show ?thesis unfolding loop Cons by (simp add: rc)
    qed
  qed
qed

lemma escape_loop_step:
  assumes "term_getc_raw con t = (p, con, t1)" "p \<noteq> EOF" "of_int p = ch" "ch \<noteq> 0x18" "ch \<noteq> 0x1a"
    "0 < cs_write_index con" "cs_write_index con < CS_BUFFER_SIZE"
    "con2 = con\<lparr>cs_buffer := (cs_buffer con)[cs_write_index con := ch], cs_write_index := cs_write_index con + 1\<rparr>"
  shows "read_escape_loop (Suc k) con t =
    (if escape_ends (cs_write_index con) ch then (Esc_parse, con2, t1) else read_escape_loop k con2 t1)"
  unfolding read_escape_loop.simps assms(1)
  using assms(2-) by (cases "cs_write_index con = 1") (simp_all only: Let_def prod.case escape_ends_def if_True if_False simp_thms
      one_less_numeral_iff less_irrefl, simp_all)

lemma reads_escape_step:
  assumes IH: "reads_line ps rest" "reads_escape ps rest"
    and a: "tty_polls t = p # ps" "con_state con = State_read_escape_sequence" "snoop_char con = EOF" "con_ok con"
      "0 < cs_write_index con" "escape_ok (cs_write_index con) bs" "list_all key_ok ks" "typed t = bs @ codes ks @ 13 # rest"
  shows "line_read con t ks rest (read_escape_finish (read_escape_loop (Suc k) con t))"
proof (cases "p < 0")
  case True
  let ?t1 = "t\<lparr>tty_polls := ps\<rparr>"
  have "read_escape_finish (read_escape_loop (Suc k) con t) = (con, ?t1)"
    using True by (simp add: getc_poll[OF a(3,1)] read_escape_finish_def)
  moreover have "line_read con ?t1 ks rest (resume 8 con ?t1)"
    using IH a(2-8) typed_poll(1)[OF a(1)] True by (intro reads_escapeD[where bs = bs]) simp_all
  ultimately show ?thesis
    using a(2) line_read_pump[of con con ?t1 ks rest ?t1] line_read_same[of con ?t1 ks rest "(con, ?t1)" con t] by simp
next
  case False
  let ?t1 = "t\<lparr>tty_polls := ps\<rparr>" and ?i = "cs_write_index con"
  let ?ch = "of_int p :: u8"
  let ?con2 = "con\<lparr>cs_buffer := (cs_buffer con)[?i := ?ch], cs_write_index := ?i + 1\<rparr>"
  have ne: "p \<noteq> EOF" using False by (simp add: EOF_def)
  obtain bs' where bs: "bs = ?ch # bs'" and ty: "typed ?t1 = bs' @ codes ks @ 13 # rest"
    using typed_poll(2)[OF a(1)] False a(6,8) by (cases bs) auto
  note e = a(6)[unfolded bs, simplified]
  have same: "same_setup con ?con2" "line_of ?con2 = line_of con" by (simp_all add: same_setup_def line_of_def)
  have ok2: "con_ok ?con2" "snoop_char ?con2 = EOF" using a(3,4) by (simp_all add: con_ok_def)
  have step: "read_escape_loop (Suc k) con t =
      (if escape_ends ?i ?ch then (Esc_parse, ?con2, ?t1) else read_escape_loop k ?con2 ?t1)"
    by (rule escape_loop_step) (use e ne False a(5) in \<open>simp_all add: getc_poll[OF a(3,1)]\<close>)
  show ?thesis
  proof (cases "escape_ends ?i ?ch")
    case True
    let ?con3 = "?con2\<lparr>con_state := State_parse_escape_sequence_ansi\<rparr>"
    let ?con4 = "?con2\<lparr>con_state := State_read_input\<rparr>"
    have m: "con_mode con = CONSOLE_MODE_ANSI" by (cases "con_mode con")
    have "read_escape_loop (Suc k) con t = (Esc_parse, ?con2, ?t1)"
      using e True step by simp
    then have r: "read_escape_finish (read_escape_loop (Suc k) con t) = (?con3, ?t1)" by (simp add: read_escape_finish_def m)
    have "line_read ?con4 ?t1 ks rest (resume 8 ?con4 ?t1)"
      using IH ok2 a(7) ty e True by (intro reads_lineD) (simp_all add: con_ok_def)
    then have "line_read ?con4 ?t1 ks rest (?con4, ?t1)" by (intro line_read_pump) simp_all
    then have "line_read ?con4 ?t1 ks rest (?con3, ?t1)"
      by (intro line_read_step[where r = "(?con3, ?t1)"]) (simp_all add: pump1_def state_parse_escape_sequence_ansi_def)
    then show ?thesis unfolding r by (rule line_read_same) (simp_all add: same_setup_def line_of_def)
  next
    case False
    have "read_escape_loop (Suc k) con t = read_escape_loop k ?con2 ?t1"
      using False step by simp
    moreover have "line_read ?con2 ?t1 ks rest (resume k ?con2 ?t1)"
      using IH(2) ok2 a(2,5,7) ty e False by (intro reads_escapeD[where bs = bs']) simp_all
    then have "line_read ?con2 ?t1 ks rest (read_escape_finish (read_escape_loop k ?con2 ?t1))"
      using a(2) by (simp add: resume_def)
    ultimately show ?thesis using line_read_same[OF _ same, of ?t1 ks rest _ t] by simp
  qed
qed

lemma reads_all: "reads_line ps rest \<and> reads_escape ps rest"
proof (induction ps)
  case Nil
  then show ?case by (auto simp: reads_line_def reads_escape_def typed_def)
next
  case (Cons p ps)
  have line: "line_read con t ks rest (resume (Suc k) con t)"
    if "tty_polls t = p # ps" "con_state con = State_read_input" "snoop_char con = EOF" "con_ok con"
      "list_all key_ok ks" "typed t = codes ks @ 13 # rest" for k con t ks
    using reads_line_step[of ps rest t p con ks k] Cons that by (simp only: resume_def console_state.simps)
  have escape: "line_read con t ks rest (resume (Suc k) con t)"
    if "tty_polls t = p # ps" "con_state con = State_read_escape_sequence" "snoop_char con = EOF" "con_ok con"
      "0 < cs_write_index con" "escape_ok (cs_write_index con) bs" "list_all key_ok ks" "typed t = bs @ codes ks @ 13 # rest"
    for k con t bs ks
    using reads_escape_step[of ps rest t p con bs ks k] Cons that by (simp only: resume_def console_state.simps)
  have zero: "line_read con t ks rest (resume k con t)"
    if "con_state con = State_read_input \<or> con_state con = State_read_escape_sequence"
      "\<And>k. line_read con t ks rest (resume (Suc k) con t)" for k con t ks
  proof (cases k)
    case 0
    with that show ?thesis using line_read_pump[OF that(1), of con t ks rest t] that(2)[of 7] by simp
  qed (use that in simp)
  have "reads_line (p # ps) rest"
    unfolding reads_line_def using zero line by blast
  moreover have "reads_escape (p # ps) rest"
    unfolding reads_escape_def using zero escape by blast
  ultimately show ?case by blast
qed

text \<open>From the prompt to the end of the line.\<close>

lemma console_line_read:
  assumes "con_state con = State_read_input" "snoop_char con = EOF" "con_ok con" "list_all key_ok ks"
    "typed t = codes ks @ 13 # rest"
  shows "line_read con t ks rest (con, t)"
  using reads_lineD[of t rest con ks 0] reads_all assms by simp

end
