(* ===== verification/Console_Table.thy ===== *)
theory Console_Table
  imports Console
begin

text \<open>
  The words of a line, which is what the splitting of the line computes, and the commands of a console as
  a list, which is what the operations on the chain compute. The contract of a table of named entries is
  the locale \<open>named_table\<close>; the commands of a console are its interpretation.
\<close>

subsection \<open>Words\<close>

function words :: "u8 list \<Rightarrow> u8 list list" where
  "words bs =
     (let cs = dropWhile white bs
      in if cs = [] then [] else takeWhile (\<lambda>c. \<not> white c) cs # words (dropWhile (\<lambda>c. \<not> white c) cs))"
  by auto
termination
proof (relation "measure length", simp)
  fix bs :: "u8 list" and cs
  assume cs: "cs = dropWhile white bs" "cs \<noteq> []"
  then have "\<not> white (hd cs)" by (metis hd_dropWhile)
  with cs(2) have "length (dropWhile (\<lambda>c. \<not> white c) cs) < length cs"
    by (cases cs) (auto simp: le_imp_less_Suc length_dropWhile_le)
  also have "length cs \<le> length bs" unfolding cs(1) by (rule length_dropWhile_le)
  finally show "(dropWhile (\<lambda>c. \<not> white c) cs, bs) \<in> measure length" by simp
qed

declare words.simps [simp del]

lemma skip_white_scan:
  assumes "0 \<notin> set w" "list_all white w"
  shows "skip_white (w @ c # bs) i = (if c = 0 then Some None else if white c then skip_white bs (Suc (i + length w)) else Some (Some (i + length w)))"
  using assms by (induction w arbitrary: i) auto

lemma skip_black_scan:
  assumes "0 \<notin> set w" "list_all (\<lambda>c. \<not> white c) w"
  shows "skip_black (w @ c # bs) i = (if c = 0 then Some None else if white c then Some (Some (i + length w)) else skip_black bs (Suc (i + length w)))"
  using assms by (induction w arbitrary: i) auto

lemma white_nonzero [simp]: "\<not> white 0"
  by (simp add: white_def)

lemma line_string_text:
  assumes "0 \<notin> set w"
  shows "length pre = i \<Longrightarrow> line_string (pre @ w @ 0 # post) i = w"
  using assms by (simp add: line_string_def takeWhile_neq_append_sep)

text \<open>Splitting a line, from any position on: at most \<open>n\<close> of its words, and nothing before the position changes.\<close>

lemma split_args_words:
  assumes "0 \<notin> set str"
  shows "\<exists>offs line'. split_args n (length pre) (pre @ str @ 0 # post) = Some (offs, pre @ line') \<and>
    length line' = length str + 1 + length post \<and>
    length offs = length (take n (words str)) \<and>
    (\<forall>k < length offs. length pre \<le> offs ! k) \<and>
    map (line_string (pre @ line')) offs = take n (words str)"
  using assms
proof (induction n arbitrary: pre str)
  case 0
  show ?case by (intro exI[of _ "[]"] exI[of _ "str @ 0 # post"]) simp
next
  case (Suc n)
  let ?w = "takeWhile white str" and ?cs = "dropWhile white str"
  have nz: "0 \<notin> set ?w" "0 \<notin> set ?cs" "list_all white ?w"
    using Suc.prems by (auto simp: list_all_iff dest: set_takeWhileD set_dropWhileD)
  have str: "str = ?w @ ?cs" by simp
  let ?i = "length pre + length ?w"
  show ?case
  proof (cases "?cs = []")
    case True
    then have w: "takeWhile white str = str" by (metis append_Nil2 takeWhile_dropWhile_id)
    have "find_first_non_whitesapce (pre @ str @ 0 # post) (length pre) = Some None"
      using skip_white_scan[OF nz(1,3), of 0 post "length pre"] unfolding w by (simp add: find_first_non_whitesapce_def)
    with True show ?thesis
      by (intro exI[of _ "[]"] exI[of _ "str @ 0 # post"]) (simp add: words.simps[of str])
  next
    case False
    then obtain c cs where cs: "?cs = c # cs" by (cases ?cs) auto
    then have c: "\<not> white c" "c \<noteq> 0" using hd_dropWhile[of white str] nz(2) by auto
    let ?v = "takeWhile (\<lambda>c. \<not> white c) ?cs" and ?r = "dropWhile (\<lambda>c. \<not> white c) ?cs"
    have v: "0 \<notin> set ?v" "0 \<notin> set ?r" "list_all (\<lambda>c. \<not> white c) ?v"
      using nz(2) by (auto simp: list_all_iff dest: set_takeWhileD set_dropWhileD)
    have wstr: "words str = ?v # words ?r" using False by (simp add: words.simps[of str] Let_def)
    have full: "pre @ str @ 0 # post = (pre @ ?w) @ ?v @ ?r @ 0 # post"
    proof -
      have "pre @ (?w @ (?v @ ?r)) @ 0 # post = (pre @ ?w) @ ?v @ ?r @ 0 # post" by (simp only: append_assoc)
      then show ?thesis by (simp only: takeWhile_dropWhile_id)
    qed
    have find: "find_first_non_whitesapce (pre @ str @ 0 # post) (length pre) = Some (Some ?i)"
    proof -
      have "drop (length pre) (pre @ str @ 0 # post) = ?w @ c # cs @ 0 # post" by (subst str) (simp add: cs)
      then show ?thesis by (simp only: find_first_non_whitesapce_def skip_white_scan[OF nz(1,3)]) (simp add: c)
    qed
    have drop: "drop ?i (pre @ str @ 0 # post) = ?v @ ?r @ 0 # post" unfolding full by simp
    show ?thesis
    proof (cases ?r)
      case Nil
      then have stop: "find_fist_whitespace (pre @ str @ 0 # post) ?i = Some None"
        by (simp only: find_fist_whitespace_def drop, simp only: Nil append_Nil skip_black_scan[OF v(1,3)]) simp
      have "words ?r = []" unfolding Nil by (simp add: words.simps[of "[]"])
      moreover have "line_string (pre @ str @ 0 # post) ?i = ?v"
        unfolding line_string_def drop Nil using v(1) by (simp add: takeWhile_neq_append_sep)
      ultimately show ?thesis
        by (intro exI[of _ "[?i]"] exI[of _ "str @ 0 # post"]) (simp add: find stop wstr)
    next
      case (Cons d rest)
      then have d: "white d" "d \<noteq> 0" using hd_dropWhile[of "\<lambda>c. \<not> white c" ?cs] v(2) by auto
      let ?z = "?i + length ?v"
      have stop: "find_fist_whitespace (pre @ str @ 0 # post) ?i = Some (Some ?z)"
        by (simp only: find_fist_whitespace_def drop, simp only: Cons append_Cons skip_black_scan[OF v(1,3)]) (simp add: d)
      let ?pre = "pre @ ?w @ ?v @ [0]"
      have upd: "(pre @ str @ 0 # post)[?z := 0] = ?pre @ rest @ 0 # post"
        unfolding full Cons by (simp add: list_update_append)
      have "0 \<notin> set rest" using v(2) Cons by simp
      from Suc.IH[OF this, of ?pre] obtain offs line' where IH:
        "split_args n (length ?pre) (?pre @ rest @ 0 # post) = Some (offs, ?pre @ line')"
        "length line' = length rest + 1 + length post" "length offs = length (take n (words rest))"
        "\<forall>k < length offs. length ?pre \<le> offs ! k"
        "map (line_string (?pre @ line')) offs = take n (words rest)" by blast
      have z: "?z + 1 = length ?pre" by simp
      have "words ?r = words rest" unfolding Cons using d(1) by (simp add: words.simps[of "d # rest"] words.simps[of rest])
      moreover have "line_string (?pre @ line') ?i = ?v"
        using line_string_text[OF v(1), of "pre @ ?w" ?i line'] by simp
      ultimately have strs: "map (line_string (?pre @ line')) (?i # offs) = take (Suc n) (words str)"
        unfolding wstr using IH(5) by simp
      have bnd: "\<forall>k < length (?i # offs). length pre \<le> (?i # offs) ! k"
      proof (intro allI impI)
        fix k assume "k < length (?i # offs)"
        then show "length pre \<le> (?i # offs) ! k" using IH(4) by (cases k) (fastforce)+
      qed
      have split: "split_args (Suc n) (length pre) (pre @ str @ 0 # post) = Some (?i # offs, pre @ ?w @ ?v @ [0] @ line')"
      proof -
        have "split_args (Suc n) (length pre) (pre @ str @ 0 # post) =
          do { (args, line1) \<leftarrow> split_args n (?z + 1) ((pre @ str @ 0 # post)[?z := 0]); Some (?i # args, line1) }"
          by (simp add: find stop)
        then show ?thesis unfolding upd z IH(1) by simp
      qed
      have len: "length (?w @ ?v @ [0] @ line') = length str + 1 + length post"
      proof -
        have "length str = length ?w + length ?v + length ?r" by (metis str length_append takeWhile_dropWhile_id add.assoc)
        then show ?thesis using IH(2) Cons by simp
      qed
      have "length (?i # offs) = length (take (Suc n) (words str))"
        using arg_cong[OF strs, of length] by (simp only: length_map)
      with split len bnd strs show ?thesis
        by (intro exI[of _ "?i # offs"] exI[of _ "?w @ ?v @ [0] @ line'"]) simp
    qed
  qed
qed

subsection \<open>The chain of commands\<close>

fun chain :: "(addr \<Rightarrow> command option) \<Rightarrow> addr option \<Rightarrow> addr list \<Rightarrow> bool" where
  "chain cs p [] \<longleftrightarrow> p = None"
| "chain cs p (a # as) \<longleftrightarrow> p = Some a \<and> (\<exists>cm. cs a = Some cm \<and> chain cs (cm_next cm) as)"

definition name_of :: "(addr \<Rightarrow> command option) \<Rightarrow> addr \<Rightarrow> u8 list" where
  "name_of cs a = the (cm_name (the (cs a)))"

definition named :: "(addr \<Rightarrow> command option) \<Rightarrow> addr \<Rightarrow> bool" where
  "named cs a \<longleftrightarrow> (\<exists>cm nm. cs a = Some cm \<and> cm_name cm = Some nm)"

lemma chain_frame [simp]: "a \<notin> set as \<Longrightarrow> chain (cs(a := x)) p as = chain cs p as"
  by (induction as arbitrary: p) auto

lemma chain_None [simp]: "chain cs None as \<longleftrightarrow> as = []"
  by (cases as) auto

lemma chain_Some: "chain cs (Some a) as \<longleftrightarrow> (\<exists>as' cm. as = a # as' \<and> cs a = Some cm \<and> chain cs (cm_next cm) as')"
  by (cases as) auto

lemma locate_from_chain:
  assumes "chain (s_command s) p as" "\<forall>a \<in> set as. named (s_command s) a"
  shows "locate_from s name p = Some (List.find (\<lambda>a. name_of (s_command s) a = name) as)"
  using assms by (induction as arbitrary: p) (auto simp: locate_from.simps named_def name_of_def)

lemma last_from_chain:
  assumes "chain (s_command s) p as"
  shows "last_from s p = Some (if as = [] then None else Some (last as))"
  using assms
proof (induction as arbitrary: p)
  case Nil
  then show ?case by (simp add: last_from.simps)
next
  case (Cons a as)
  then obtain cm where p: "p = Some a" "s_command s a = Some cm" "chain (s_command s) (cm_next cm) as" by auto
  with Cons.IH[OF p(3)] show ?case by (cases "as = []") (auto simp: last_from.simps[of _ "Some a"])
qed

lemma previous_from_chain:
  assumes "chain (s_command s) p (xs @ b # a # ys)" "a \<notin> set (xs @ [b])"
  shows "previous_from s a p = Some (Some b)"
  using assms
proof (induction xs arbitrary: p)
  case Nil
  then show ?case by (auto simp: previous_from.simps)
next
  case (Cons x xs)
  then obtain cm where p: "p = Some x" "s_command s x = Some cm" "chain (s_command s) (cm_next cm) (xs @ b # a # ys)" by auto
  then have "cm_next cm \<noteq> Some a" using Cons.prems(2) by (cases xs) auto
  with Cons p show ?case by (auto simp: previous_from.simps[of _ _ "Some x"])
qed

lemma chain_append:
  assumes "chain cs p (xs @ [b])" "b \<notin> set xs" "a \<notin> set (xs @ [b])" "cs b = Some bm" "cs a = Some am" "cm_next am = None"
  shows "chain (cs(b \<mapsto> bm\<lparr>cm_next := Some a\<rparr>)) p (xs @ [b, a])"
  using assms by (induction xs arbitrary: p) auto

lemma chain_remove:
  assumes "chain cs p (xs @ b # a # ys)" "distinct (xs @ b # a # ys)" "cs b = Some bm" "cs a = Some am"
  shows "chain (cs(b \<mapsto> bm\<lparr>cm_next := cm_next am\<rparr>)) p (xs @ b # ys)"
  using assms by (induction xs arbitrary: p) auto

subsection \<open>The table of a console\<close>

definition table :: "'e con_sys \<Rightarrow> addr \<Rightarrow> addr list \<Rightarrow> bool" where
  "table s c as \<longleftrightarrow>
     (\<exists>con. s_console s c = Some con \<and> chain (s_command s) (root con) as) \<and> distinct as \<and>
     (\<forall>a \<in> set as. named (s_command s) a \<and> cm_console (the (s_command s a)) = Some c) \<and>
     distinct (map (name_of (s_command s)) as)"

lemma table_locate:
  assumes "table s c as"
  shows "locate_command (Some c) name s = Some (List.find (\<lambda>a. name_of (s_command s) a = name) as)"
  using assms by (auto simp: table_def locate_command_def locate_from_chain)

lemma name_of_upd [simp]: "name_of (cs(a \<mapsto> cm)) b = (if b = a then the (cm_name cm) else name_of cs b)"
  by (simp add: name_of_def)

lemma named_upd [simp]: "named (cs(a \<mapsto> cm)) b \<longleftrightarrow> (if b = a then cm_name cm \<noteq> None else named cs b)"
  by (simp add: named_def)

definition handler_of :: "command \<Rightarrow> callback \<times> addr option" where
  "handler_of cm = (cm_callback cm, cm_hint cm)"

lemma handler_of_upd [simp]:
  "handler_of (cm\<lparr>cm_next := x\<rparr>) = handler_of cm" "handler_of (cm\<lparr>cm_console := y\<rparr>) = handler_of cm"
  by (simp_all add: handler_of_def)

text \<open>Registration appends a command whose name is new.\<close>

lemma register_command_table:
  assumes t: "table s c as" and a: "a \<notin> set as" "s_command s a = Some cm" "cm_name cm = Some nm"
    and new: "nm \<notin> name_of (s_command s) ` set as"
  shows "\<exists>s'. register_command (Some c) a s = Some s' \<and> table s' c (as @ [a]) \<and>
    (\<forall>b. map_option handler_of (s_command s' b) = map_option handler_of (s_command s b)) \<and>
    (\<forall>b. b \<notin> set (a # as) \<longrightarrow> s_command s' b = s_command s b) \<and>
    (\<forall>b \<in> set (as @ [a]). name_of (s_command s') b = name_of (s_command s) b) \<and>
    (\<forall>d. d \<noteq> c \<longrightarrow> s_console s' d = s_console s d) \<and> s_heap s' = s_heap s \<and> s_next s' = s_next s \<and> s_tty s' = s_tty s \<and> s_env s' = s_env s \<and>
    (\<exists>con r. s_console s c = Some con \<and> s_console s' c = Some (con\<lparr>root := r\<rparr>))"
proof -
  obtain con where con: "s_console s c = Some con" "chain (s_command s) (root con) as" using t by (auto simp: table_def)
  let ?cm = "cm\<lparr>cm_console := Some c, cm_next := None\<rparr>"
  let ?s1 = "put_command a ?cm s"
  have cmds: "s_command ?s1 = (s_command s)(a \<mapsto> ?cm)" "s_console ?s1 = s_console s" by (simp_all add: put_command_def)
  have ch: "chain (s_command ?s1) (root con) as" using con(2) a(1) by (simp add: cmds)
  have last: "get_last_command (Some c) ?s1 = Some (if as = [] then None else Some (last as))"
    using last_from_chain[OF ch] con(1) by (simp add: get_last_command_def cmds)
  show ?thesis
  proof (cases as rule: rev_cases)
    case Nil
    let ?s2 = "put_console c (con\<lparr>root := Some a\<rparr>) ?s1"
    have "register_command (Some c) a s = Some ?s2"
      using a(2) last con(1) Nil by (simp add: register_command_def cmds Let_def)
    moreover have "table ?s2 c [a]" using a(3) by (simp add: table_def put_console_def cmds)
    moreover have "\<exists>con r. s_console s c = Some con \<and> s_console ?s2 c = Some (con\<lparr>root := r\<rparr>)"
      using con(1) by (auto simp: put_console_def)
    ultimately show ?thesis using a(2) Nil by (intro exI[of _ ?s2]) (auto simp: put_console_def put_command_def name_of_def)
  next
    case (snoc xs b)
    then have ne: "b \<noteq> a" "b \<notin> set xs" using a(1) t by (auto simp: table_def)
    have "named (s_command s) b" "cm_console (the (s_command s b)) = Some c" using t snoc by (auto simp: table_def)
    then obtain bm bn where bm: "s_command s b = Some bm" "cm_name bm = Some bn" "cm_console bm = Some c"
      by (auto simp: named_def)
    let ?s2 = "put_command b (bm\<lparr>cm_next := Some a\<rparr>) ?s1"
    have reg: "register_command (Some c) a s = Some ?s2"
      using a(2) last ne bm(1) snoc by (simp add: register_command_def cmds Let_def)
    define cs2 where "cs2 = s_command ?s2"
    have ch2: "chain cs2 (root con) (as @ [a])"
      using chain_append[of "s_command ?s1" "root con" xs b a bm ?cm] ch ne a(1) bm(1) snoc
      by (simp add: put_command_def cs2_def)
    have names: "name_of cs2 = name_of (s_command s)"
      using a(2) bm(1) by (intro ext) (simp add: put_command_def name_of_def cs2_def)
    have own: "named cs2 d \<and> cm_console (the (cs2 d)) = Some c" if "d \<in> set (as @ [a])" for d
      using that t a(3) bm(2,3) by (auto simp: put_command_def table_def cs2_def)
    have "nm = name_of (s_command s) a" using a(2,3) by (simp add: name_of_def)
    then have "distinct (map (name_of cs2) (as @ [a]))" using t new by (simp add: names table_def)
    moreover have "s_console ?s2 = s_console s" by (simp add: put_command_def)
    ultimately have "table ?s2 c (as @ [a])"
      unfolding table_def cs2_def[symmetric] using ch2 own con(1) t a(1) by (simp add: table_def)
    moreover have "\<exists>r. con = con\<lparr>root := r\<rparr>" by (rule exI[of _ "root con"]) simp
    ultimately show ?thesis
      using reg con(1) a(2) bm(1) snoc ne by (intro exI[of _ ?s2]) (auto simp: put_command_def name_of_def)
  qed
qed

text \<open>Removal takes a command out and leaves the others in their order.\<close>

lemma unregister_command_table:
  assumes t: "table s c as" and a: "a \<in> set as"
  shows "\<exists>s'. unregister_command (Some a) s = Some s' \<and> table s' c (remove1 a as) \<and>
    name_of (s_command s') = name_of (s_command s) \<and> s_heap s' = s_heap s \<and> s_tty s' = s_tty s \<and>
    (\<exists>cm. s_command s' a = Some cm \<and> cm_console cm = None)"
proof -
  obtain con where con: "s_console s c = Some con" "chain (s_command s) (root con) as" using t by (auto simp: table_def)
  have "named (s_command s) a" "cm_console (the (s_command s a)) = Some c" using t a by (auto simp: table_def)
  then obtain am an where am: "s_command s a = Some am" "cm_name am = Some an" "cm_console am = Some c" by (auto simp: named_def)
  let ?am = "am\<lparr>cm_console := None, cm_next := None\<rparr>"
  have keep: "name_of cs = name_of (s_command s) \<Longrightarrow> \<forall>d. named cs d = named (s_command s) d \<Longrightarrow>
      \<forall>d. d \<noteq> a \<longrightarrow> map_option cm_console (cs d) = map_option cm_console (s_command s d) \<Longrightarrow>
      s_console s' c = Some con' \<Longrightarrow> chain cs (root con') (remove1 a as) \<Longrightarrow> s_command s' = cs \<Longrightarrow> table s' c (remove1 a as)"
    for cs con' and s' :: "'a con_sys"
  proof -
    assume k: "name_of cs = name_of (s_command s)" "\<forall>d. named cs d = named (s_command s) d"
      "\<forall>d. d \<noteq> a \<longrightarrow> map_option cm_console (cs d) = map_option cm_console (s_command s d)"
      "s_console s' c = Some con'" "chain cs (root con') (remove1 a as)" "s_command s' = cs"
    have "cm_console (the (cs d)) = Some c" if d: "d \<in> set (remove1 a as)" for d
    proof -
      have "d \<noteq> a" "d \<in> set as" using d t by (auto simp: table_def)
      moreover then have "named (s_command s) d" "cm_console (the (s_command s d)) = Some c" using t by (auto simp: table_def)
      ultimately show ?thesis using k(2,3) by (fastforce simp: named_def)
    qed
    moreover have "distinct (map (name_of (s_command s)) (remove1 a as))"
      using t by (auto simp: table_def distinct_map intro: inj_on_subset)
    moreover have "\<forall>d \<in> set (remove1 a as). named (s_command s) d" using t set_remove1_subset[of a as] by (auto simp: table_def)
    ultimately show "table s' c (remove1 a as)" unfolding table_def k(6) using k(1,2,4,5) t by (auto simp: table_def)
  qed
  show ?thesis
  proof (cases as)
    case Nil
    with a show ?thesis by simp
  next
    case (Cons b bs)
    show ?thesis
    proof (cases "b = a")
      case True
      let ?s' = "put_command a ?am (put_console c (con\<lparr>root := cm_next am\<rparr>) s)"
      have r: "root con = Some a" "chain (s_command s) (cm_next am) bs" using con(2) am(1) Cons True by auto
      have "unregister_command (Some a) s = Some ?s'"
        using am con(1) r(1) by (simp add: unregister_command_def put_console_def put_command_def)
      moreover have "table ?s' c (remove1 a as)"
        using r(2) t Cons True am
        by (intro keep[of "(s_command s)(a \<mapsto> ?am)" ?s' "con\<lparr>root := cm_next am\<rparr>"])
          (auto simp: put_command_def put_console_def table_def name_of_def named_def)
      ultimately show ?thesis using am by (intro exI[of _ ?s']) (auto simp: put_command_def put_console_def name_of_def)
    next
      case False
      with a Cons obtain xs p ys where split: "as = (xs @ [p]) @ a # ys" "a \<notin> set (xs @ [p])"
        by (metis append_Cons append_butlast_last_id list.sel(1) neq_Nil_conv self_append_conv2 split_list_first hd_append2)
      then have as: "as = xs @ p # a # ys" by simp
      have dist: "distinct (xs @ p # a # ys)" using t as by (simp add: table_def)
      have "named (s_command s) p" using t as by (auto simp: table_def)
      then obtain pm pn where pm: "s_command s p = Some pm" "cm_name pm = Some pn" by (auto simp: named_def)
      have root: "root con \<noteq> Some a" using con(2) Cons False by auto
      have prev: "get_previous_command (Some a) s = Some (Some p)"
        using previous_from_chain[of s "root con" xs p a ys] con as split(2) am root
        by (simp add: get_previous_command_def)
      have ne: "p \<noteq> a" using dist by auto
      let ?s' = "put_command a ?am (put_command p (pm\<lparr>cm_next := cm_next am\<rparr>) s)"
      have "unregister_command (Some a) s = Some ?s'"
        using am con(1) root prev pm(1) ne by (simp add: unregister_command_def put_command_def)
      moreover have "chain (s_command ?s') (root con) (xs @ p # ys)"
        using chain_remove[of "s_command s" "root con" xs p a ys pm am] con(2) dist pm(1) am(1) as
        by (simp add: put_command_def)
      then have "table ?s' c (remove1 a as)"
        using con(1) as split(2) am pm ne
        by (intro keep[of "s_command ?s'" ?s' con]) (auto simp: put_command_def name_of_def named_def remove1_append)
      ultimately show ?thesis using am pm ne by (intro exI[of _ ?s']) (auto simp: put_command_def name_of_def)
    qed
  qed
qed

subsection \<open>Tables of named entries\<close>

text \<open>
  The contract: a name is looked up, and an entry is added unless the name is taken. What follows: after
  a series of additions the first entry of each name is found.
\<close>

locale named_table =
  fixes inv :: "'s \<Rightarrow> bool"
    and look :: "'s \<Rightarrow> 'n \<Rightarrow> 'v option"
    and add :: "'n \<Rightarrow> 'v \<Rightarrow> 's \<Rightarrow> 's option"
  assumes add_ok: "inv s \<Longrightarrow> \<exists>s'. add n v s = Some s' \<and> inv s' \<and> look s' = (if look s n = None then (look s)(n \<mapsto> v) else look s)"
begin

lemma add_found:
  assumes "inv s" "add n v s = Some s'"
  shows "look s' n = (if look s n = None then Some v else look s n)"
  using add_ok[OF assms(1), of n v] assms(2) by auto

lemma add_list:
  assumes "inv s"
  shows "\<exists>s'. foldl (\<lambda>r e. Option.bind r (add (fst e) (snd e))) (Some s) es = Some s' \<and> inv s' \<and> look s' = map_of es ++ look s"
  using assms
proof (induction es arbitrary: s)
  case (Cons e es)
  obtain s1 where s1: "add (fst e) (snd e) s = Some s1" "inv s1"
    "look s1 = (if look s (fst e) = None then (look s)(fst e \<mapsto> snd e) else look s)"
    using add_ok[OF Cons.prems] by blast
  from Cons.IH[OF s1(2)] s1(1) obtain s' where f:
    "foldl (\<lambda>r e. Option.bind r (add (fst e) (snd e))) (Some s) (e # es) = Some s'" "inv s'" "look s' = map_of es ++ look s1"
    by auto
  have "look s' = map_of (e # es) ++ look s"
    unfolding f(3) s1(3) by (rule ext) (auto simp: map_add_def split: option.splits)
  with f(1,2) show ?case by blast
qed simp

end

text \<open>The allocator never fails, and what lies above the next address is unused.\<close>

definition roomy_sys :: "'e con_sys \<Rightarrow> bool" where
  "roomy_sys s \<longleftrightarrow> (\<forall>n. h_ok (s_heap s) n) \<and> (\<forall>a \<ge> s_next s. s_command s a = None \<and> s_console s a = None)"

lemma s_malloc_roomy:
  assumes "roomy_sys s"
  shows "\<exists>h. s_malloc s = (Some (s_next s), s\<lparr>s_heap := h, s_next := s_next s + 1\<rparr>) \<and> (\<forall>n. h_ok h n)"
  using assms by (auto simp: s_malloc_def malloc_def roomy_sys_def)

definition console_handler :: "addr \<Rightarrow> 'e con_sys \<Rightarrow> u8 list \<Rightarrow> (callback \<times> addr option) option" where
  "console_handler c s name =
     (case locate_command (Some c) name s of
        Some (Some a) \<Rightarrow> map_option handler_of (s_command s a)
      | _ \<Rightarrow> None)"

lemma handler_table:
  assumes "table s c as"
  shows "console_handler c s name =
    (case List.find (\<lambda>a. name_of (s_command s) a = name) as of Some a \<Rightarrow> map_option handler_of (s_command s a) | None \<Rightarrow> None)"
  by (simp add: console_handler_def table_locate[OF assms] split: option.splits)

lemma handler_None:
  assumes "table s c as"
  shows "console_handler c s name = None \<longleftrightarrow> name \<notin> name_of (s_command s) ` set as"
proof (cases "List.find (\<lambda>a. name_of (s_command s) a = name) as")
  case None
  then have "console_handler c s name = None" by (simp add: handler_table[OF assms])
  with None show ?thesis by (auto simp: find_None_ball)
next
  case (Some a)
  then have a: "a \<in> set as" "name_of (s_command s) a = name" by (auto dest: find_Some_iff_mem)
  then have "s_command s a \<noteq> None" using assms by (auto simp: table_def named_def)
  with a Some show ?thesis by (auto simp: handler_table[OF assms])
qed

text \<open>What the addition of a command to console \<open>c\<close> leaves alone.\<close>

definition others_kept :: "addr \<Rightarrow> 'e con_sys \<Rightarrow> 'e con_sys \<Rightarrow> bool" where
  "others_kept c s s' \<longleftrightarrow>
     (\<forall>d. d \<noteq> c \<longrightarrow> s_console s' d = s_console s d) \<and> (\<forall>d bs. d \<noteq> c \<longrightarrow> table s d bs \<longrightarrow> table s' d bs \<and> console_handler d s' = console_handler d s) \<and>
     s_tty s' = s_tty s \<and> s_env s' = s_env s \<and> s_next s \<le> s_next s' \<and>
     (\<forall>con. s_console s c = Some con \<longrightarrow> (\<exists>r. s_console s' c = Some (con\<lparr>root := r\<rparr>)))"

lemma others_kept_refl: "others_kept c s s"
  unfolding others_kept_def
proof (intro conjI allI impI)
  fix con assume "s_console s c = Some con"
  then show "\<exists>r. s_console s c = Some (con\<lparr>root := r\<rparr>)" by (intro exI[of _ "root con"]) simp
qed simp_all

lemma others_kept_trans:
  assumes "others_kept c s s1" "others_kept c s1 s2"
  shows "others_kept c s s2"
proof -
  have "\<exists>r. s_console s2 c = Some (con\<lparr>root := r\<rparr>)" if "s_console s c = Some con" for con
    using assms that unfolding others_kept_def by fastforce
  moreover have "table s2 d bs \<and> console_handler d s2 = console_handler d s" if "d \<noteq> c" "table s d bs" for d bs
    using assms that unfolding others_kept_def by metis
  moreover have "s_next s \<le> s_next s2" using assms by (auto simp: others_kept_def intro: le_trans)
  moreover have "s_console s2 d = s_console s d" if "d \<noteq> c" for d using assms that by (simp add: others_kept_def)
  moreover have "s_tty s2 = s_tty s" "s_env s2 = s_env s" using assms by (simp_all add: others_kept_def)
  ultimately show ?thesis unfolding others_kept_def by blast
qed

text \<open>A table and its handlers depend on the commands of the console alone.\<close>

lemma table_cong:
  assumes "table s d bs" "s_console s' d = s_console s d" "\<forall>b \<in> set bs. s_command s' b = s_command s b"
  shows "table s' d bs \<and> console_handler d s' = console_handler d s"
proof -
  have ch: "chain (s_command s') p bs" if "chain (s_command s) p bs" for p
    using that assms(3) by (induction bs arbitrary: p) auto
  have nm: "\<forall>b \<in> set bs. name_of (s_command s') b = name_of (s_command s) b" using assms(3) by (simp add: name_of_def)
  then have mp: "map (name_of (s_command s')) bs = map (name_of (s_command s)) bs" by simp
  have "distinct (map (name_of (s_command s')) bs)" unfolding mp using assms(1) by (simp add: table_def)
  then have t: "table s' d bs"
    using assms ch unfolding table_def by (auto simp: named_def)
  have "List.find (\<lambda>a. name_of (s_command s') a = n) bs = List.find (\<lambda>a. name_of (s_command s) a = n) bs" for n
    using nm by (induction bs) auto
  then have "console_handler d s' n = console_handler d s n" for n
    unfolding handler_table[OF t] handler_table[OF assms(1)]
    using assms(3) by (auto split: option.splits dest: find_Some_iff_mem)
  with t show ?thesis by blast
qed

lemma console_alloc_command_table:
  assumes r: "roomy_sys s" and t: "table s c as"
  shows "\<exists>ret s' bs. console_alloc_command hint (Some c) (Some nm) cb s = Some (ret, s') \<and> roomy_sys s' \<and> table s' c bs \<and>
    others_kept c s s' \<and>
    console_handler c s' = (if console_handler c s nm = None then (console_handler c s)(nm \<mapsto> (cb, hint)) else console_handler c s)"
proof (cases "console_handler c s nm = None")
  case False
  then have "locate_command (Some c) nm s \<noteq> Some None" by (auto simp: console_handler_def)
  then have "console_alloc_command hint (Some c) (Some nm) cb s = Some (None, s)"
    by (auto simp: console_alloc_command_def table_locate[OF t])
  with r t show ?thesis
    using others_kept_refl[of c s] unfolding if_not_P[OF False] by (intro exI[of _ None] exI[of _ s] exI[of _ as]) simp
next
  case True
  then have new: "nm \<notin> name_of (s_command s) ` set as" by (simp add: handler_None[OF t])
  then have loc: "locate_command (Some c) nm s = Some None" by (auto simp: table_locate[OF t] find_None_ball)
  let ?a = "s_next s"
  have below: "\<And>b. s_command s b \<noteq> None \<Longrightarrow> b < ?a" "\<And>d. s_console s d \<noteq> None \<Longrightarrow> d < ?a"
    using r by (auto simp: roomy_sys_def not_less[symmetric])
  have mem: "\<forall>b \<in> set bs. b < ?a" if "table s d bs" for d bs
    using that below by (auto simp: table_def named_def)
  obtain h where h: "s_malloc s = (Some ?a, s\<lparr>s_heap := h, s_next := ?a + 1\<rparr>)" "\<forall>n. h_ok h n"
    using s_malloc_roomy[OF r] by blast
  let ?s1 = "s\<lparr>s_heap := h, s_next := ?a + 1\<rparr>"
  have "roomy_sys ?s1" using r h(2) by (auto simp: roomy_sys_def)
  from s_malloc_roomy[OF this] obtain h2 where h2: "s_malloc ?s1 = (Some (?a + 1), s\<lparr>s_heap := h2, s_next := ?a + 2\<rparr>)" "\<forall>n. h_ok h2 n"
    by auto
  let ?cm = "\<lparr>cm_next = None, cm_console = None, cm_callback = cb, cm_hint = hint, cm_name = Some nm\<rparr>"
  let ?s2 = "put_command ?a ?cm (s\<lparr>s_heap := h2, s_next := ?a + 2\<rparr>)"
  have same: "table ?s2 d bs \<and> console_handler d ?s2 = console_handler d s" if "table s d bs" for d bs
    using that mem[OF that] by (intro table_cong) (auto simp: put_command_def)
  have reg: "table ?s2 c as" "?a \<notin> set as" "s_command ?s2 ?a = Some ?cm" "cm_name ?cm = Some nm"
    "nm \<notin> name_of (s_command ?s2) ` set as"
    using same[OF t] mem[OF t] new by (auto simp: put_command_def)
  obtain s' where s': "register_command (Some c) ?a ?s2 = Some s'" "table s' c (as @ [?a])"
    "\<forall>b. map_option handler_of (s_command s' b) = map_option handler_of (s_command ?s2 b)"
    "\<forall>b. b \<notin> set (?a # as) \<longrightarrow> s_command s' b = s_command ?s2 b"
    "\<forall>b \<in> set (as @ [?a]). name_of (s_command s') b = name_of (s_command ?s2) b"
    "\<forall>d. d \<noteq> c \<longrightarrow> s_console s' d = s_console ?s2 d" "s_heap s' = s_heap ?s2" "s_next s' = s_next ?s2" "s_tty s' = s_tty ?s2" "s_env s' = s_env ?s2"
    "\<exists>con r. s_console ?s2 c = Some con \<and> s_console s' c = Some (con\<lparr>root := r\<rparr>)"
    using register_command_table[OF reg] by blast
  have alloc: "console_alloc_command hint (Some c) (Some nm) cb s = Some (Some ?a, s')"
    using s'(1) by (simp add: console_alloc_command_def loc h(1) s_strdup_def h2(1)[simplified])
  have c: "c < ?a" using t below(2)[of c] by (auto simp: table_def)
  have "s_command s' b = None \<and> s_console s' b = None" if "?a + 2 \<le> b" for b
  proof -
    have "b \<notin> set (?a # as)" "b \<noteq> c" using that mem[OF t] c by auto
    then have "s_command s' b = s_command s b" "s_console s' b = s_console s b"
      using s'(4,6) by (auto simp: put_command_def)
    with that r show ?thesis by (simp add: roomy_sys_def)
  qed
  then have "roomy_sys s'" using h2(2) s'(7,8) by (simp add: roomy_sys_def put_command_def)
  moreover have "others_kept c s s'"
  proof -
    have "table s' d bs \<and> console_handler d s' = console_handler d s" if d: "d \<noteq> c" "table s d bs" for d bs
    proof -
      have "set bs \<inter> set (?a # as) = {}" using d t mem[OF d(2)] by (auto simp: table_def)
      then have "table s' d bs \<and> console_handler d s' = console_handler d ?s2"
        using same[OF d(2)] s'(4,6) d(1) by (intro table_cong) (auto simp: disjoint_iff)
      with same[OF d(2)] show ?thesis by simp
    qed
    then show ?thesis using s'(6,8-11) unfolding others_kept_def by (auto simp: put_command_def)
  qed
  moreover have "console_handler c s' n = ((console_handler c s)(nm \<mapsto> (cb, hint))) n" for n
  proof -
    have nm': "name_of (s_command s') b = (if b = ?a then nm else name_of (s_command s) b)" if "b \<in> set (as @ [?a])" for b
      using that s'(5) by (auto simp: put_command_def)
    have "List.find (\<lambda>a. name_of (s_command s') a = n) (as @ [?a]) =
      (case List.find (\<lambda>a. name_of (s_command s) a = n) as of Some a \<Rightarrow> Some a | None \<Rightarrow> if nm = n then Some ?a else None)"
      using nm' reg(2) by (induction as) auto
    moreover have "List.find (\<lambda>a. name_of (s_command s) a = nm) as = None" using new by (auto simp: find_None_ball)
    moreover have "map_option handler_of (s_command s' b) = map_option handler_of (s_command s b)"
      if "List.find (\<lambda>a. name_of (s_command s) a = n) as = Some b" for b
      using that s'(3) reg(2) by (auto simp: put_command_def dest!: find_Some_iff_mem)
    moreover have "map_option handler_of (s_command s' ?a) = Some (cb, hint)" using s'(3) by (simp add: put_command_def handler_of_def)
    ultimately show ?thesis
      unfolding handler_table[OF s'(2)] handler_table[OF t] fun_upd_apply by (cases "n = nm") (auto split: option.split)
  qed
  then have "console_handler c s' = (console_handler c s)(nm \<mapsto> (cb, hint))" by (rule ext)
  ultimately show ?thesis using alloc s'(2) True by (intro exI[of _ "Some ?a"] exI[of _ s'] exI[of _ "as @ [?a]"]) simp
qed

text \<open>The commands of a console are a table of named entries.\<close>

definition registry :: "addr \<Rightarrow> 'e con_sys \<Rightarrow> bool" where
  "registry c s \<longleftrightarrow> roomy_sys s \<and> (\<exists>as. table s c as)"

definition console_add :: "addr \<Rightarrow> u8 list \<Rightarrow> callback \<times> addr option \<Rightarrow> 'e con_sys \<Rightarrow> 'e con_sys option" where
  "console_add c nm v s = map_option snd (console_alloc_command (snd v) (Some c) (Some nm) (fst v) s)"

interpretation commands: named_table "registry c" "console_handler c" "console_add c" for c
proof
  fix s :: "'a con_sys" and n v
  assume "registry c s"
  then obtain as where "roomy_sys s" "table s c as" by (auto simp: registry_def)
  from console_alloc_command_table[OF this, of "snd v" n "fst v"]
  show "\<exists>s'. console_add c n v s = Some s' \<and> registry c s' \<and>
    console_handler c s' = (if console_handler c s n = None then (console_handler c s)(n \<mapsto> v) else console_handler c s)"
    by (auto simp: console_add_def registry_def)
qed

end
