(* ===== verification/Console_Claims.thy ===== *)
theory Console_Claims
  imports Console_Props Console_Table
begin

text \<open>
  What the user of a console gets: the line that is typed is edited, shown and split, and its command is
  run.
\<close>

subsection \<open>The state machine in the system\<close>

text \<open>Console \<open>c\<close> on device \<open>d\<close> in a given state.\<close>

definition seat :: "addr \<Rightarrow> addr \<Rightarrow> console \<times> tty \<Rightarrow> 'e con_sys \<Rightarrow> 'e con_sys" where
  "seat c d r s = put_console c (fst r) (s\<lparr>s_tty := (s_tty s)(d := snd r)\<rparr>)"

lemma seat_simps [simp]:
  "s_console (seat c d r s) c = Some (fst r)" "s_tty (seat c d r s) d = snd r" "s_command (seat c d r s) = s_command s"
  "s_env (seat c d r s) = s_env s" "seat c d r (seat c d q s) = seat c d r s"
  "e \<noteq> c \<Longrightarrow> s_console (seat c d r s) e = s_console s e" "e \<noteq> d \<Longrightarrow> s_tty (seat c d r s) e = s_tty s e"
  by (simp_all add: seat_def put_console_def)

lemma seat_same: "s_console s c = Some con \<Longrightarrow> seat c d (con, s_tty s d) s = s"
  by (simp add: seat_def put_console_def fun_upd_idem)

lemma read_char_dev: "read_char ch con t = (con1, t1) \<Longrightarrow> con_dev con1 = con_dev con"
  by (auto simp: read_char_def Let_def term_set_snoop_char_def split: if_splits)

lemma getc_dev: "term_getc_raw con t = (p, con1, t1) \<Longrightarrow> con_dev con1 = con_dev con"
  by (auto simp: term_getc_raw_def Let_def split: if_splits prod.splits)

lemma read_input_loop_dev: "read_input_loop k con t = (con1, t1) \<Longrightarrow> con_dev con1 = con_dev con"
  by (induction k con t rule: read_input_loop.induct)
    (fastforce split: prod.splits if_splits dest: read_char_dev getc_dev)+

lemma read_escape_loop_dev: "read_escape_loop k con t = (e, con1, t1) \<Longrightarrow> con_dev con1 = con_dev con"
proof (induction k arbitrary: con t)
  case (Suc k)
  obtain p con2 t2 where g: "term_getc_raw con t = (p, con2, t2)" by (metis prod.exhaust)
  note d = getc_dev[OF g]
  have IH: "con_dev con1 = con_dev con'" if "read_escape_loop k con' t2 = (e, con1, t1)" for con'
    using Suc.IH[OF that] .
  from Suc.prems d show ?case
    by (auto simp: g Let_def term_set_snoop_char_def split: if_splits dest!: IH)
qed simp

lemma read_escape_finish_dev: "read_escape_finish (e, con, t) = (con1, t1) \<Longrightarrow> con_dev con1 = con_dev con"
  by (cases e) (auto simp: read_escape_finish_def)

lemma pump1_dev: "con_dev (fst (pump1 r)) = con_dev (fst r)"
proof -
  obtain con t where r: "r = (con, t)" by (cases r)
  have "con_dev (fst (read_input_loop k con t)) = con_dev con" for k
    using read_input_loop_dev[of k con t] by (cases "read_input_loop k con t") auto
  moreover have "con_dev (fst (read_escape_finish (read_escape_loop k con t))) = con_dev con" for k
  proof -
    obtain e con1 t1 where l: "read_escape_loop k con t = (e, con1, t1)" by (metis prod.exhaust)
    obtain con2 t2 where f: "read_escape_finish (e, con1, t1) = (con2, t2)" by fastforce
    show ?thesis using read_escape_loop_dev[OF l] read_escape_finish_dev[OF f] by (simp add: l f)
  qed
  ultimately show ?thesis
    by (simp add: r pump1_def state_start_new_command_def state_read_input_def state_read_escape_sequence_def
        state_parse_escape_sequence_ansi_def split: console_state.split)
qed

lemma console_pump_seat:
  assumes "con_state (fst r) \<noteq> State_parse_input" "con_dev (fst r) = d"
  shows "console_pump_console ext (Some c) (seat c d r s) = Some (seat c d (pump1 r) s)"
proof -
  have on: "on_console f c (seat c d r s) = Some (seat c d (f (fst r) (snd r)) s)" for f
    using assms(2) by (simp add: on_console_def seat_def put_console_def split: prod.split)
  show ?thesis
    using assms(1)
    by (simp add: console_pump_console_def on pump1_def split: console_state.split prod.split)
qed

text \<open>\<open>n\<close> calls of \<open>console_pump_console\<close>.\<close>

fun pump_times :: "'e extern \<Rightarrow> addr \<Rightarrow> nat \<Rightarrow> 'e con_sys \<Rightarrow> 'e con_sys option" where
  "pump_times ext c 0 s = Some s"
| "pump_times ext c (Suc n) s = do { s1 \<leftarrow> console_pump_console ext (Some c) s; pump_times ext c n s1 }"

lemma pumped_times:
  assumes "pumped r q" "con_dev (fst r) = d"
  shows "(\<exists>n. pump_times ext c n (seat c d r s) = Some (seat c d q s)) \<and> con_dev (fst q) = d"
  using assms
proof (induction rule: pumped.induct)
  case (pumped_refl r)
  then show ?case by (auto intro: exI[of _ 0])
next
  case (pumped_step r q)
  then obtain n where "pump_times ext c n (seat c d (pump1 r) s) = Some (seat c d q s)" "con_dev (fst q) = d"
    using pump1_dev[of r] by auto
  with pumped_step show ?case by (auto simp: console_pump_seat intro!: exI[of _ "Suc n"])
qed

subsection \<open>Running the line\<close>

text \<open>What is sent for a string.\<close>

definition shown :: "u8 list \<Rightarrow> u8 list" where
  "shown str = concat (map (\<lambda>c. if c = 10 then [13, 10] else if c = 8 then [8, 32, 8] else [c]) str)"

lemma term_putc_shown: "term_putc con c t = t\<lparr>tty_sent := tty_sent t @ shown [c]\<rparr>"
  by (cases "con_mode con")
    (simp add: shown_def term_putc_def term_put_newline_def term_backspace_def serial_out_def newline_bytes_def backspace_bytes_def)

lemma term_puts_shown: "term_puts con str t = t\<lparr>tty_sent := tty_sent t @ shown str\<rparr>"
proof (induction str arbitrary: t)
  case Nil
  then show ?case by (simp add: term_puts_def shown_def)
next
  case (Cons c str)
  have "term_puts con (c # str) t = term_puts con str (term_putc con c t)" by (simp add: term_puts_def)
  also have "\<dots> = t\<lparr>tty_sent := tty_sent t @ shown [c] @ shown str\<rparr>" unfolding Cons.IH by (simp add: term_putc_shown)
  also have "shown [c] @ shown str = shown (c # str)" by (simp add: shown_def)
  finally show ?case .
qed

definition prompt_of :: "console \<Rightarrow> u8 list" where
  "prompt_of con = (case prompt con of None \<Rightarrow> DEFAULT_PROMPT | Some p \<Rightarrow> p)"

text \<open>The end of \<open>state_parse_input\<close>, behind the command.\<close>

definition back_to_prompt :: "addr \<Rightarrow> 'e con_sys \<Rightarrow> 'e con_sys option" where
  "back_to_prompt c s = do { con \<leftarrow> s_console s c; Some (put_console c (con\<lparr>con_state := State_start_new_command\<rparr>) s) }"

lemma edited_nonzero:
  assumes "list_all key_ok ks" "0 \<notin> set line"
  shows "0 \<notin> set (edited n line ks)"
  using assms
proof (induction ks arbitrary: line)
  case (Cons k ks)
  have "0 \<notin> set (edit n line k)"
    using Cons.prems by (cases k) (auto dest: in_set_butlastD)
  with Cons show ?case by simp
qed simp

lemma line_terminated:
  assumes "con_ok con"
  shows "(arg_line con)[arg_line_write_index con := 0] = line_of con @ 0 # drop (Suc (arg_line_write_index con)) (arg_line con)"
  using assms by (simp add: con_ok_def line_of_def upd_conv_take_nth_drop)

text \<open>The console at the end of a line runs the command of the words of the line.\<close>

lemma parse_runs_words:
  assumes "con_state con = State_parse_input" "con_ok con" "0 \<notin> set (line_of con)" "s_console s c = Some con"
  shows "\<exists>con2. same_setup con con2 \<and>
    console_pump_console ext (Some c) s =
      Option.bind (dispatch ext c (take (max_argc con) (words (line_of con))) (put_console c con2 s)) (back_to_prompt c)"
proof -
  let ?post = "drop (Suc (arg_line_write_index con)) (arg_line con)"
  obtain offs line' where sp: "split_args (max_argc con) 0 ((arg_line con)[arg_line_write_index con := 0]) = Some (offs, line')"
    "map (line_string line') offs = take (max_argc con) (words (line_of con))"
    using split_args_words[OF assms(3), of "max_argc con" "[]" ?post] unfolding line_terminated[OF assms(2)] by auto
  let ?con2 = "con\<lparr>arg_line := line', argv := map Some offs @ replicate (max_argc con - length offs) None\<rparr>"
  have "same_setup con ?con2" by (simp add: same_setup_def)
  moreover have "console_pump_console ext (Some c) s =
      Option.bind (dispatch ext c (take (max_argc con) (words (line_of con))) (put_console c ?con2 s)) (back_to_prompt c)"
    using assms(1,4) sp by (simp add: console_pump_console_def state_parse_input_def back_to_prompt_def[abs_def] Let_def)
  ultimately show ?thesis by blast
qed

subsection \<open>From the prompt to the command\<close>

lemma edited_length: "length line \<le> n \<Longrightarrow> length (edited n line ks) \<le> n"
proof (induction ks arbitrary: line)
  case (Cons k ks)
  have "length (edit n line k) \<le> n" using Cons.prems by (cases k) auto
  then show ?case using Cons.IH by simp
qed simp

lemma console_line_finished:
  assumes "con_ok con" "con_state con = State_start_new_command" "snoop_char con = EOF"
    "list_all key_ok ks" "typed t = codes ks @ 13 # rest"
  shows "\<exists>con1 t1. pumped (con, t) (con1, t1) \<and> con_state con1 = State_parse_input \<and> con_ok con1 \<and> same_setup con con1 \<and>
    snoop_char con1 = EOF \<and> line_of con1 = edited (arg_line_size con) [] ks \<and> typed t1 = rest \<and>
    tty_sent t1 = tty_sent t @ shown (prompt_of con) @ screen (f_local_echo con) (arg_line_size con) [] ks @ [13, 10]"
proof -
  let ?con0 = "con\<lparr>arg_line_write_index := 0, argv := replicate (max_argc con) None, con_state := State_read_input\<rparr>"
  let ?t0 = "t\<lparr>tty_sent := tty_sent t @ shown (prompt_of con)\<rparr>"
  have first: "pump1 (con, t) = (?con0, ?t0)"
    using assms(2) by (simp add: pump1_def state_start_new_command_def term_puts_shown prompt_of_def)
  have "typed ?t0 = codes ks @ 13 # rest" using assms(5) by (simp add: typed_def)
  then have "line_read ?con0 ?t0 ks rest (?con0, ?t0)"
    using assms(1,3,4) by (intro console_line_read) (simp_all add: con_ok_def)
  then obtain con1 t1 where q: "pumped (?con0, ?t0) (con1, t1)" "finished ?con0 ?t0 ks rest (con1, t1)"
    by (auto simp: line_read_def)
  have "pumped (con, t) (con1, t1)" by (rule pumped_step) (use q(1) first assms(2) in simp_all)
  with q(2) show ?thesis by (auto simp: finished_def same_setup_def line_of_def)
qed

text \<open>
  C33: A typed line runs its command. The characters a serial device delivers may come in pieces of any
  size, with any number of empty polls between them. If they are the codes of keys (characters,
  backspaces and deletes, control characters, escape sequences) and a carriage return, then after some
  calls of \<open>console_pump_console\<close> the console has shown the prompt, the line as it was edited and a new line,
  has read nothing behind the carriage return, and its next call runs the command for the words of the
  edited line, as many as there is room for, and goes back to the prompt.
\<close>
theorem console_runs_typed_line:
  assumes "s_console s c = Some con" "con_ok con" "con_state con = State_start_new_command" "snoop_char con = EOF"
    "d = con_dev con" "list_all key_ok ks" "typed (s_tty s d) = codes ks @ 13 # rest"
  shows "\<exists>n s1 s2 con2. pump_times ext c n s = Some s1 \<and>
    console_pump_console ext (Some c) s1 =
      Option.bind (dispatch ext c (take (max_argc con) (words (edited (arg_line_size con) [] ks))) s2) (back_to_prompt c) \<and>
    tty_sent (s_tty s2 d) =
      tty_sent (s_tty s d) @ shown (prompt_of con) @ screen (f_local_echo con) (arg_line_size con) [] ks @ [13, 10] \<and>
    typed (s_tty s2 d) = rest \<and> s_command s2 = s_command s \<and> s_env s2 = s_env s \<and>
    s_console s2 c = Some con2 \<and> same_setup con con2 \<and>
    (\<forall>e. e \<noteq> c \<longrightarrow> s_console s2 e = s_console s e) \<and> (\<forall>e. e \<noteq> d \<longrightarrow> s_tty s2 e = s_tty s e)"
proof -
  obtain con1 t1 where q: "pumped (con, s_tty s d) (con1, t1)" "con_state con1 = State_parse_input" "con_ok con1"
    "same_setup con con1" "line_of con1 = edited (arg_line_size con) [] ks" "typed t1 = rest"
    "tty_sent t1 = tty_sent (s_tty s d) @ shown (prompt_of con) @ screen (f_local_echo con) (arg_line_size con) [] ks @ [13, 10]"
    using console_line_finished[OF assms(2,3,4,6,7)] by blast
  let ?s1 = "seat c d (con1, t1) s"
  obtain n where n: "pump_times ext c n (seat c d (con, s_tty s d) s) = Some ?s1"
    using pumped_times[OF q(1), of d ext c s] assms(5) by auto
  have "0 \<notin> set (line_of con1)" unfolding q(5) by (rule edited_nonzero[OF assms(6)]) simp
  from parse_runs_words[OF q(2,3) this, of ?s1 c ext] obtain con2 where con2: "same_setup con1 con2"
    "console_pump_console ext (Some c) ?s1 =
      Option.bind (dispatch ext c (take (max_argc con1) (words (line_of con1))) (put_console c con2 ?s1)) (back_to_prompt c)"
    by auto
  have m: "max_argc con1 = max_argc con" using q(4) by (simp add: same_setup_def)
  have "same_setup con con2" using q(4) con2(1) by (simp add: same_setup_def)
  moreover have "s_tty (put_console c con2 ?s1) d = t1" "s_command (put_console c con2 ?s1) = s_command s"
    "s_env (put_console c con2 ?s1) = s_env s" "s_console (put_console c con2 ?s1) c = Some con2"
    "\<forall>e. e \<noteq> c \<longrightarrow> s_console (put_console c con2 ?s1) e = s_console s e"
    "\<forall>e. e \<noteq> d \<longrightarrow> s_tty (put_console c con2 ?s1) e = s_tty s e"
    by (simp_all add: put_console_def seat_def)
  ultimately show ?thesis
    using n[unfolded seat_same[OF assms(1)]] con2(2)[unfolded m q(5)] q(6,7)
    by (intro exI[of _ n] exI[of _ ?s1] exI[of _ "put_console c con2 ?s1"] exI[of _ con2]) simp
qed

text \<open>A console whose user types \<open>hx\<close>, a backspace, the key up, \<open>i\<close>, a blank and \<open>a\<close>, with pauses.\<close>

definition demo_keys :: "key list" where
  "demo_keys = [Key 104, Key 120, Erase 8, Escape [0x5b, 65], Key 105, Key 32, Key 97]"

definition demo_con :: console where
  "demo_con = (fresh_console 7 16 4)\<lparr>f_local_echo := True\<rparr>"

definition demo_sys :: "unit con_sys" where
  "demo_sys = \<lparr>s_heap = heap_init, s_next = 10, s_console = [1 \<mapsto> demo_con], s_command = Map.empty,
     s_tty = (\<lambda>_. \<lparr>tty_polls = [104, - 1, 120, 8, 0x1b, 0x5b, - 1, 65, 105, 32, - 1, 97, 13, 13], tty_sent = []\<rparr>), s_env = ()\<rparr>"

definition demo_ext :: "unit extern" where
  "demo_ext n cmd args s = Some s"

theorem console_runs_typed_line_witness:
  "\<exists>n s1 s2 con2. pump_times demo_ext 1 n demo_sys = Some s1 \<and>
    console_pump_console demo_ext (Some 1) s1 = Option.bind (dispatch demo_ext 1 [[104, 105], [97]] s2) (back_to_prompt 1) \<and>
    tty_sent (s_tty s2 7) = [35, 32, 104, 120, 8, 32, 8, 105, 32, 97, 13, 10] \<and> typed (s_tty s2 7) = [13]"
proof -
  have w: "take 4 (words (edited 16 [] demo_keys)) = [[104, 105], [97]]"
    by (simp add: demo_keys_def words.simps white_def)
  have con: "con_ok demo_con" "con_state demo_con = State_start_new_command" "snoop_char demo_con = EOF" "con_dev demo_con = 7"
    "max_argc demo_con = 4" "arg_line_size demo_con = 16" "f_local_echo demo_con = True" "prompt demo_con = None"
    by (simp_all add: demo_con_def fresh_console_def con_ok_def)
  have keys: "list_all key_ok demo_keys" by (simp add: demo_keys_def CS_BUFFER_SIZE_def escape_ends_def)
  have ty: "typed (s_tty demo_sys 7) = codes demo_keys @ 13 # [13]" by (simp add: demo_sys_def typed_def demo_keys_def)
  have sent: "tty_sent (s_tty demo_sys 7) @ shown (prompt_of demo_con) @ screen True 16 [] demo_keys @ [13, 10] =
    [35, 32, 104, 120, 8, 32, 8, 105, 32, 97, 13, 10]"
    by (simp add: demo_sys_def prompt_of_def con DEFAULT_PROMPT_def shown_def demo_keys_def)
  have at1: "s_console demo_sys 1 = Some demo_con" by (simp add: demo_sys_def)
  from console_runs_typed_line[OF at1 con(1-3) con(4)[symmetric] keys ty, of demo_ext] show ?thesis
    unfolding con(5-7) w sent by blast
qed

end
