(* ===== verification/Cli_Claims.thy ===== *)
theory Cli_Claims
  imports Cli Console_Claims Libc_Props
begin

text \<open>
  The command line as a whole: its start registers every command of the table on every serial device,
  \<open>exit\<close> ends it, and without a key it gives up in time.
\<close>

subsection \<open>Leaving the loop\<close>

lemma each_console_single:
  assumes "cl_list (s_env s) = [a]" "cl_console (s_env s) a = Some cc" "f cc s = Some s1" "cl_list (s_env s1) = [a]"
  shows "each_console f s = Some s1"
  using assms
  by (simp add: each_console_def cli_console_first_def each_from.simps[of _ "Some a"] cli_console_next_def each_from.simps[of _ None])

lemma run_loop_pumped:
  assumes "pumped r q" "con_dev (fst r) = d" "cl_run (s_env s)" "cl_list (s_env s) = [a]"
    "cl_console (s_env s) a = Some \<lparr>cc_console = c, cc_dev = d\<rparr>"
  shows "run_loop ext (seat c d r s) = run_loop ext (seat c d q s) \<and> con_dev (fst q) = d"
  using assms(1,2)
proof (induction rule: pumped.induct)
  case (pumped_step r q)
  have "pump_all ext (seat c d r s) = Some (seat c d (pump1 r) s)"
    unfolding pump_all_def using assms(4,5) pumped_step.hyps(1) pumped_step.prems
    by (intro each_console_single[of _ a "\<lparr>cc_console = c, cc_dev = d\<rparr>"]) (simp_all add: console_pump_seat)
  then have "run_loop ext (seat c d r s) = run_loop ext (seat c d (pump1 r) s)"
    using assms(3) by (subst run_loop.simps) simp
  with pumped_step.IH pumped_step.prems pump1_dev[of r] show ?case by simp
qed simp

lemma dispatch_handler:
  assumes "table s c as" "console_handler c s name = Some (Callback n, h)"
  shows "\<exists>a. dispatch ext c (name # args) s = ext n a (name # args) s"
proof -
  obtain a where a: "List.find (\<lambda>a. name_of (s_command s) a = name) as = Some a"
    "map_option handler_of (s_command s a) = Some (Callback n, h)"
    using assms(2) by (auto simp: handler_table[OF assms(1)] split: option.splits)
  then obtain cm where "s_command s a = Some cm" "cm_callback cm = Callback n" by (auto simp: handler_of_def)
  then show ?thesis
    by (intro exI[of _ a]) (simp add: dispatch_def table_locate[OF assms(1)] a(1) run_callback_def)
qed

text \<open>
  C34: \<open>exit\<close> ends the main loop. On a board with one console, whatever the user types and corrects, if the
  first word of the line is the name of \<open>command_exit\<close>, \<open>cli_loop\<close> returns; it has shown one prompt and
  the line as it was edited, and has read nothing behind its end.
\<close>
theorem cli_loop_exit:
  assumes "cl_list (s_env s) = [a]" "cl_console (s_env s) a = Some \<lparr>cc_console = c, cc_dev = d\<rparr>"
    "s_console s c = Some con" "con_ok con" "con_state con = State_start_new_command" "snoop_char con = EOF"
    "con_dev con = d" "0 < max_argc con" "table s c as" "console_handler c s w = Some (Callback EXIT, h)"
    "list_all key_ok ks" "words (edited (arg_line_size con) [] ks) = w # ws" "typed (s_tty s d) = codes ks @ 13 # rest"
  shows "\<exists>us s'. cli_loop freq clock m buf ext 0 s = Some (us, s') \<and> \<not> cl_run (s_env s') \<and>
    typed (s_tty s' d) = rest \<and>
    tty_sent (s_tty s' d) =
      tty_sent (s_tty s d) @ shown (prompt_of con) @ screen (f_local_echo con) (arg_line_size con) [] ks @ [13, 10]"
proof -
  let ?ext = "cli_callbacks m buf ext"
  obtain start s0 where tick: "cli_tick clock s = (start, s0)" by fastforce
  let ?s1 = "set_run True s0"
  have s1: "s_console ?s1 = s_console s" "s_command ?s1 = s_command s" "s_tty ?s1 = s_tty s" "cl_run (s_env ?s1)"
    "cl_list (s_env ?s1) = [a]" "cl_console (s_env ?s1) a = Some \<lparr>cc_console = c, cc_dev = d\<rparr>"
    using tick assms(1,2) by (auto simp: cli_tick_def set_run_def split: prod.splits)
  obtain con1 t1 where q: "pumped (con, s_tty s d) (con1, t1)" "con_state con1 = State_parse_input" "con_ok con1"
    "same_setup con con1" "line_of con1 = edited (arg_line_size con) [] ks" "typed t1 = rest"
    "tty_sent t1 = tty_sent (s_tty s d) @ shown (prompt_of con) @ screen (f_local_echo con) (arg_line_size con) [] ks @ [13, 10]"
    using console_line_finished[OF assms(4,5,6,11,13)] by blast
  let ?s2 = "seat c d (con1, t1) ?s1"
  have to_line: "run_loop ?ext ?s1 = run_loop ?ext ?s2"
    using run_loop_pumped[OF q(1), of d ?s1 a c ?ext] s1 assms(3,7) by (simp add: seat_same[of ?s1, unfolded s1])
  have "0 \<notin> set (line_of con1)" unfolding q(5) by (rule edited_nonzero[OF assms(11)]) simp
  from parse_runs_words[OF q(2,3) this, of ?s2 c ?ext] obtain con2 where con2: "same_setup con1 con2"
    "console_pump_console ?ext (Some c) ?s2 =
      Option.bind (dispatch ?ext c (take (max_argc con1) (words (line_of con1))) (put_console c con2 ?s2)) (back_to_prompt c)"
    by auto
  let ?s3 = "put_console c con2 ?s2"
  have kept: "same_setup con con2" "max_argc con1 = max_argc con" using q(4) con2(1) by (simp_all add: same_setup_def)
  then have same_root: "root con2 = root con" by (simp add: same_setup_def)
  have t3: "table ?s3 c as"
    using assms(3,9) same_root by (auto simp: table_def put_console_def s1)
  have "console_handler c ?s3 w = console_handler c s w"
    unfolding handler_table[OF t3] handler_table[OF assms(9)] by (simp add: put_console_def s1 split: option.split)
  with t3 obtain b where "dispatch ?ext c (w # take (max_argc con - 1) ws) ?s3 = ?ext EXIT b (w # take (max_argc con - 1) ws) ?s3"
    using dispatch_handler[of ?s3 c as w EXIT h ?ext] assms(10) by metis
  then have "dispatch ?ext c (take (max_argc con1) (words (line_of con1))) ?s3 = Some (set_run False ?s3)"
    using assms(8,12) kept(2) q(5)
    by (simp add: take_Cons' cli_callbacks_def EXIT_def HELLO_def command_exit_def cli_exit_def)
  then have pump: "console_pump_console ?ext (Some c) ?s2 =
      Some (put_console c (con2\<lparr>con_state := State_start_new_command\<rparr>) (set_run False ?s3))"
    unfolding con2(2) by (simp add: back_to_prompt_def set_run_def put_console_def)
  let ?s4 = "put_console c (con2\<lparr>con_state := State_start_new_command\<rparr>) (set_run False ?s3)"
  have "pump_all ?ext ?s2 = Some ?s4"
    unfolding pump_all_def using s1(5,6) pump
    by (intro each_console_single[of _ a "\<lparr>cc_console = c, cc_dev = d\<rparr>"]) (simp_all add: set_run_def put_console_def)
  then have "run_loop ?ext ?s2 = run_loop ?ext ?s4" using s1(4) by (subst run_loop.simps) simp
  also have "\<dots> = Some ?s4" by (subst run_loop.simps) (simp add: set_run_def put_console_def)
  finally have loop: "run_loop ?ext ?s1 = Some ?s4" using to_line by simp
  obtain e s5 where tick2: "cli_tick clock ?s4 = (e, s5)" by fastforce
  have "s_tty s5 = s_tty ?s4" "cl_run (s_env s5) = cl_run (s_env ?s4)"
    using tick2 by (auto simp: cli_tick_def split: prod.splits)
  moreover have "s_tty ?s4 d = t1" "\<not> cl_run (s_env ?s4)" by (simp_all add: set_run_def put_console_def)
  ultimately show ?thesis
    using loop tick tick2 q(6,7) by (intro exI[of _ "timer_tick2us freq (e - start) + 1"] exI[of _ s5]) (simp add: cli_loop_def)
qed

definition demo_exit_keys :: "key list" where
  "demo_exit_keys = [Key 101, Key 120, Key 97, Erase 0x7f, Key 105, Key 116]"

definition demo_timer :: timer_st where
  "demo_timer = \<lparr>tm_heap = heap_init, tm_reads = 0, tm_ctx = None, tm_writes = [], tm_stimecmp = 0, tm_mtie = False, tm_stie = False\<rparr>"

definition demo_cli :: "unit cli_sys" where
  "demo_cli = \<lparr>s_heap = heap_init, s_next = 10, s_console = [1 \<mapsto> demo_con\<lparr>root := Some 2\<rparr>],
     s_command = [2 \<mapsto> \<lparr>cm_next = None, cm_console = Some 1, cm_callback = Callback EXIT, cm_hint = None, cm_name = Some [101, 120, 105, 116]\<rparr>],
     s_tty = (\<lambda>_. \<lparr>tty_polls = [101, 120, 97, - 1, 0x7f, 105, 116, 13, 99], tty_sent = []\<rparr>),
     s_env = \<lparr>cl_list = [5], cl_console = [5 \<mapsto> \<lparr>cc_console = 1, cc_dev = 7\<rparr>], cl_run = False, cl_timer = demo_timer, cl_rest = ()\<rparr>\<rparr>"

theorem cli_loop_exit_witness:
  "\<exists>us s'. cli_loop 50000000 of_nat (\<lambda>_. 0) 64 (\<lambda>_ _ _ _. None) 0 demo_cli = Some (us, s') \<and> \<not> cl_run (s_env s') \<and>
    typed (s_tty s' 7) = [99] \<and> tty_sent (s_tty s' 7) = [35, 32, 101, 120, 97, 8, 32, 8, 105, 116, 13, 10]"
proof -
  let ?con = "demo_con\<lparr>root := Some 2\<rparr>"
  have con: "con_ok ?con" "con_state ?con = State_start_new_command" "snoop_char ?con = EOF" "con_dev ?con = 7"
    "0 < max_argc ?con" "arg_line_size ?con = 16" "f_local_echo ?con = True" "prompt ?con = None"
    by (simp_all add: demo_con_def fresh_console_def con_ok_def)
  have cli: "cl_list (s_env demo_cli) = [5]" "cl_console (s_env demo_cli) 5 = Some \<lparr>cc_console = 1, cc_dev = 7\<rparr>"
    "s_console demo_cli 1 = Some ?con" by (simp_all add: demo_cli_def)
  have tab: "table demo_cli 1 [2]" by (simp add: table_def demo_cli_def named_def)
  have handler: "console_handler 1 demo_cli [101, 120, 105, 116] = Some (Callback EXIT, None)"
    unfolding handler_table[OF tab] by (simp add: demo_cli_def name_of_def handler_of_def)
  have keys: "list_all key_ok demo_exit_keys" by (simp add: demo_exit_keys_def)
  have w: "words (edited (arg_line_size ?con) [] demo_exit_keys) = [101, 120, 105, 116] # []"
    unfolding con(6) by (simp add: demo_exit_keys_def words.simps white_def)
  have ty: "typed (s_tty demo_cli 7) = codes demo_exit_keys @ 13 # [99]" by (simp add: demo_cli_def typed_def demo_exit_keys_def)
  have sent: "tty_sent (s_tty demo_cli 7) @ shown (prompt_of ?con) @ screen True 16 [] demo_exit_keys @ [13, 10] =
    [35, 32, 101, 120, 97, 8, 32, 8, 105, 116, 13, 10]"
    by (simp add: demo_cli_def prompt_of_def con DEFAULT_PROMPT_def shown_def demo_exit_keys_def)
  show ?thesis
    using cli_loop_exit[OF cli con(1-5) tab handler keys w ty, of 50000000 of_nat "\<lambda>_. 0" 64 "\<lambda>_ _ _ _. None"]
    unfolding con(6,7) sent .
qed

subsection \<open>Start\<close>

lemma add_commands_fold:
  "add_commands es c s = foldl (\<lambda>r e. Option.bind r (console_add c (fst e) (snd e))) (Some s) (map (\<lambda>e. (fst e, snd e, None)) es)"
proof -
  have none: "foldl (\<lambda>r e. Option.bind r (f e)) None es = None" for f :: "'b \<Rightarrow> 'c \<Rightarrow> 'c option" and es
    by (induction es) auto
  show ?thesis
  proof (induction es arbitrary: s)
    case (Cons e es)
    obtain nm cb where e: "e = (nm, cb)" by (cases e)
    show ?case
      by (cases "console_alloc_command None (Some c) (Some nm) cb s") (auto simp: e console_add_def Cons.IH none)
  qed simp
qed

lemma add_commands_kept:
  assumes "add_commands es c s = Some s'" "registry c s"
  shows "others_kept c s s'"
  using assms
proof (induction es c s rule: add_commands.induct)
  case (1 c s)
  then show ?case by (simp add: others_kept_refl)
next
  case (2 nm cb es c s)
  obtain as where "roomy_sys s" "table s c as" using "2.prems"(2) by (auto simp: registry_def)
  from console_alloc_command_table[OF this, of None nm cb] obtain ret s1 bs where s1:
    "console_alloc_command None (Some c) (Some nm) cb s = Some (ret, s1)" "roomy_sys s1" "table s1 c bs" "others_kept c s s1"
    by blast
  moreover from this have "others_kept c s1 s'" using "2.IH"[of "(ret, s1)" ret s1] "2.prems"(1) by (auto simp: registry_def)
  ultimately show ?case by (blast intro: others_kept_trans)
qed

text \<open>The console that \<open>init_cli_console\<close> makes: as it starts, and with its commands.\<close>

definition console_ready :: "(u8 list \<times> callback) list \<Rightarrow> addr \<Rightarrow> addr \<Rightarrow> 'e con_sys \<Rightarrow> bool" where
  "console_ready es dev c s \<longleftrightarrow>
     (\<exists>con. s_console s c = Some con \<and> con_ok con \<and> con_state con = State_start_new_command \<and> snoop_char con = EOF \<and>
        con_dev con = dev \<and> arg_line_size con = 128 \<and> max_argc con = 10 \<and> f_local_echo con \<and> prompt con = None) \<and>
     (\<exists>as. table s c as) \<and>
     console_handler c s = map_of (map (\<lambda>e. (fst e, snd e, None)) es) ++ [bytes ''help'' \<mapsto> (Built_in_list, Some c)]"

definition served :: "(u8 list \<times> callback) list \<Rightarrow> addr \<Rightarrow> addr \<Rightarrow> 'x cli_sys \<Rightarrow> bool" where
  "served es dev a s \<longleftrightarrow>
     (\<exists>c. cl_console (s_env s) a = Some \<lparr>cc_console = c, cc_dev = dev\<rparr> \<and> a < s_next s \<and> c < s_next s \<and> console_ready es dev c s)"

lemma ready_cong:
  assumes "console_ready es dev c s" "s_console s' c = s_console s c"
    "\<And>bs. table s c bs \<Longrightarrow> table s' c bs \<and> console_handler c s' = console_handler c s"
  shows "console_ready es dev c s'"
  using assms unfolding console_ready_def by metis

lemma console_alloc_console_roomy:
  assumes r: "roomy_sys s"
  shows "\<exists>s' con. console_alloc_console dev 128 10 s = Some (Some (s_next s), s') \<and> roomy_sys s' \<and>
    s_console s' = (s_console s)(s_next s \<mapsto> con) \<and> s_command s' = s_command s \<and> s_env s' = s_env s \<and> s_next s < s_next s' \<and>
    con = (fresh_console dev 128 10)\<lparr>f_local_echo := True\<rparr>"
proof -
  let ?a = "s_next s"
  obtain h1 where h1: "s_malloc s = (Some ?a, s\<lparr>s_heap := h1, s_next := ?a + 1\<rparr>)" "\<forall>n. h_ok h1 n"
    using s_malloc_roomy[OF r] by blast
  let ?s1 = "s\<lparr>s_heap := h1, s_next := ?a + 1\<rparr>"
  have r1: "roomy_sys ?s1" using r h1(2) by (auto simp: roomy_sys_def)
  obtain h2 where h2: "s_malloc ?s1 = (Some (?a + 1), ?s1\<lparr>s_heap := h2, s_next := ?a + 1 + 1\<rparr>)" "\<forall>n. h_ok h2 n"
    using s_malloc_roomy[OF r1] by auto
  let ?s2 = "?s1\<lparr>s_heap := h2, s_next := ?a + 1 + 1\<rparr>"
  have r2: "roomy_sys ?s2" using r1 h2(2) by (auto simp: roomy_sys_def)
  obtain h3 where h3: "s_malloc ?s2 = (Some (?a + 1 + 1), ?s2\<lparr>s_heap := h3, s_next := ?a + 1 + 1 + 1\<rparr>)" "\<forall>n. h_ok h3 n"
    using s_malloc_roomy[OF r2] by auto
  let ?s3 = "?s2\<lparr>s_heap := h3, s_next := ?a + 1 + 1 + 1\<rparr>"
  let ?con = "(fresh_console dev 128 10)\<lparr>f_local_echo := True\<rparr>"
  have conf: "console_configure_console (Some ?a) CONSOLE_MODE_ANSI CONSOLE_SET_LOCAL_ECHO (put_console ?a (fresh_console dev 128 10) ?s3) =
    Some (put_console ?a ?con ?s3)"
    by (simp add: console_configure_console_def on_console_def put_console_def CONSOLE_SET_LOCAL_ECHO_def fresh_console_def fun_upd_idem)
  have "console_alloc_console dev 128 10 s = Some (Some ?a, put_console ?a ?con ?s3)"
    unfolding console_alloc_console_def h1 by (simp only: prod.case option.case h2 h3 Let_def) (simp add: conf[simplified])
  moreover have "roomy_sys (put_console ?a ?con ?s3)" using r h3(2) by (auto simp: roomy_sys_def put_console_def)
  ultimately show ?thesis
    by (intro exI[of _ "put_console ?a ?con ?s3"] exI[of _ ?con]) (simp add: put_console_def)
qed

lemma init_cli_console_ready:
  assumes r: "roomy_sys s"
  shows "\<exists>a s'. init_cli_console es dev s = Some (Some a, s') \<and> roomy_sys s' \<and> served es dev a s' \<and>
    cl_list (s_env s') = cl_list (s_env s) \<and> (\<forall>dev' b. served es dev' b s \<longrightarrow> served es dev' b s')"
proof -
  let ?a = "s_next s"
  obtain h1 where h1: "s_malloc s = (Some ?a, s\<lparr>s_heap := h1, s_next := ?a + 1\<rparr>)" "\<forall>n. h_ok h1 n"
    using s_malloc_roomy[OF r] by blast
  let ?s1 = "s\<lparr>s_heap := h1, s_next := ?a + 1\<rparr>"
  have r1: "roomy_sys ?s1" using r h1(2) by (auto simp: roomy_sys_def)
  let ?c = "?a + 1" and ?con = "(fresh_console dev 128 10)\<lparr>f_local_echo := True\<rparr>"
  obtain s2 where s2: "console_alloc_console dev 128 10 ?s1 = Some (Some ?c, s2)" "roomy_sys s2"
    "s_console s2 = (s_console s)(?c \<mapsto> ?con)" "s_command s2 = s_command s" "s_env s2 = s_env s" "?c < s_next s2"
    using console_alloc_console_roomy[OF r1, of dev] by auto
  let ?s3 = "s2\<lparr>s_env := (s_env s2)\<lparr>cl_console := (cl_console (s_env s2))(?a \<mapsto> \<lparr>cc_console = ?c, cc_dev = dev\<rparr>)\<rparr>\<rparr>"
  have r3: "roomy_sys ?s3" using s2(2) by (simp add: roomy_sys_def)
  have t3: "table ?s3 ?c []" using s2(3) by (simp add: table_def fresh_console_def)
  have none: "console_handler ?c ?s3 = Map.empty" using handler_table[OF t3] by auto
  obtain ret s4 bs where s4: "console_alloc_command (Some ?c) (Some ?c) (Some (bytes ''help'')) Built_in_list ?s3 = Some (ret, s4)"
    "roomy_sys s4" "table s4 ?c bs" "others_kept ?c ?s3 s4"
    "console_handler ?c s4 = [bytes ''help'' \<mapsto> (Built_in_list, Some ?c)]"
    using console_alloc_command_table[OF r3 t3, of "Some ?c" "bytes ''help''" Built_in_list] none by auto
  have reg4: "registry ?c s4" using s4(2,3) by (auto simp: registry_def)
  from commands.add_list[OF reg4, of "map (\<lambda>e. (fst e, snd e, None)) es"] obtain s5 where s5:
    "add_commands es ?c s4 = Some s5" "registry ?c s5"
    "console_handler ?c s5 = map_of (map (\<lambda>e. (fst e, snd e, None)) es) ++ [bytes ''help'' \<mapsto> (Built_in_list, Some ?c)]"
    unfolding add_commands_fold[symmetric] s4(5) by blast
  have kept: "others_kept ?c ?s3 s5" by (rule others_kept_trans[OF s4(4) add_commands_kept[OF s5(1) reg4]])
  have init: "init_cli_console es dev s = Some (Some ?a, s5)"
    using s2(1) s4(1) s5(1) unfolding init_cli_console_def h1(1)
    by (simp add: console_alloc_list_command_def)
  have env: "s_env s5 = s_env ?s3" and nxt: "s_next s2 \<le> s_next s5" using kept by (simp_all add: others_kept_def)
  obtain rt where con5: "s_console s5 ?c = Some (?con\<lparr>root := rt\<rparr>)" using kept s2(3) by (auto simp: others_kept_def)
  have "console_ready es dev ?c s5"
    unfolding console_ready_def using con5 s5(2,3) by (auto simp: fresh_console_def con_ok_def registry_def)
  then have "served es dev ?a s5" using env nxt s2(6) by (simp add: served_def)
  moreover have "served es dev' b s5" if sv: "served es dev' b s" for dev' b
  proof -
    obtain c where c: "cl_console (s_env s) b = Some \<lparr>cc_console = c, cc_dev = dev'\<rparr>" "b < ?a" "c < ?a" "console_ready es dev' c s"
      using sv by (auto simp: served_def)
    have 3: "table ?s3 c ds \<and> console_handler c ?s3 = console_handler c s" if "table s c ds" for ds
      using that s2(3,4) c(3) by (intro table_cong) auto
    have ne: "c \<noteq> ?c" using c(3) by simp
    have others: "d \<noteq> ?c \<Longrightarrow> table ?s3 d ds \<Longrightarrow> table s5 d ds \<and> console_handler d s5 = console_handler d ?s3" for d ds
      using kept unfolding others_kept_def by blast
    have "console_ready es dev' c s5"
    proof (rule ready_cong[OF c(4)])
      show "s_console s5 c = s_console s c" using kept c(3) s2(3) by (simp add: others_kept_def)
      show "table s5 c ds \<and> console_handler c s5 = console_handler c s" if "table s c ds" for ds
        using 3[OF that] others[of c ds] ne by simp
    qed
    then show ?thesis using c env nxt s2(5,6) by (simp add: served_def)
  qed
  moreover have "roomy_sys s5" using s5(2) by (simp add: registry_def)
  moreover have "cl_list (s_env s5) = cl_list (s_env s)" using env s2(5) by simp
  ultimately show ?thesis using init by blast
qed

lemma served_list_cong:
  fixes s s' :: "'x cli_sys"
  assumes e: "s_next s' = s_next s" "s_console s' = s_console s" "s_command s' = s_command s"
    "cl_console (s_env s') = cl_console (s_env s)"
  shows "served es dev a s' = served es dev a s"
proof -
  have cong: "table s1 c bs \<Longrightarrow> s_console s2 = s_console s1 \<Longrightarrow> s_command s2 = s_command s1 \<Longrightarrow>
    table s2 c bs \<and> console_handler c s2 = console_handler c s1" for s1 s2 :: "'x cli_sys" and c bs
    by (rule table_cong) simp_all
  have "console_ready es dev c s' = console_ready es dev c s" for c
    using ready_cong[of es dev c s s'] ready_cong[of es dev c s' s] cong[of s c _ s'] cong[of s' c _ s] e by metis
  then show ?thesis by (simp add: served_def e)
qed

lemma cli_init_serves:
  assumes "roomy_sys s"
  shows "\<exists>s' as. cli_init es devs s = Some s' \<and> roomy_sys s' \<and> cl_list (s_env s') = cl_list (s_env s) @ as \<and>
    list_all2 (\<lambda>dev a. served es dev a s') devs as \<and> (\<forall>dev b. served es dev b s \<longrightarrow> served es dev b s')"
  using assms
proof (induction devs arbitrary: s)
  case Nil
  then show ?case by simp
next
  case (Cons dev devs)
  obtain a s1 where s1: "init_cli_console es dev s = Some (Some a, s1)" "roomy_sys s1" "served es dev a s1"
    "cl_list (s_env s1) = cl_list (s_env s)" "\<forall>dev' b. served es dev' b s \<longrightarrow> served es dev' b s1"
    using init_cli_console_ready[OF Cons.prems, of es dev] by blast
  let ?s2 = "s1\<lparr>s_env := (s_env s1)\<lparr>cl_list := cl_list (s_env s1) @ [a]\<rparr>\<rparr>"
  have sv: "served es dev' b ?s2 = served es dev' b s1" for dev' b by (rule served_list_cong) simp_all
  have "roomy_sys ?s2" using s1(2) by (simp add: roomy_sys_def)
  from Cons.IH[OF this] obtain s' as where s': "cli_init es devs ?s2 = Some s'" "roomy_sys s'"
    "cl_list (s_env s') = cl_list (s_env ?s2) @ as" "list_all2 (\<lambda>dev a. served es dev a s') devs as"
    "\<forall>dev b. served es dev b ?s2 \<longrightarrow> served es dev b s'" by (elim exE conjE) (rule that)
  have "cli_init es (dev # devs) s = Some s'" using s1(1) s'(1) by simp
  moreover have "served es dev a s'" using s'(5) s1(3) by (simp add: sv)
  moreover have "\<forall>dev b. served es dev b s \<longrightarrow> served es dev b s'" using s1(5) s'(5) by (simp add: sv)
  ultimately show ?case using s'(2-4) s1(4) by (intro exI[of _ s'] exI[of _ "a # as"]) simp
qed

text \<open>
  C35: Every serial device gets a console with every command. After \<open>cli_init\<close>, with memory, the list of
  consoles has one entry per device in the order of the devices. Its console is ready to show the prompt,
  and finds \<open>help\<close> as the built-in list and any other name as the first entry of the linker table with
  that name, and nothing else.
\<close>
theorem cli_init_registers:
  assumes "roomy_sys s" "cl_list (s_env s) = []"
  shows "\<exists>s'. cli_init es devs s = Some s' \<and> length (cl_list (s_env s')) = length devs \<and>
    (\<forall>i < length devs. \<exists>c con. cl_console (s_env s') (cl_list (s_env s') ! i) = Some \<lparr>cc_console = c, cc_dev = devs ! i\<rparr> \<and>
      s_console s' c = Some con \<and> con_ok con \<and> con_state con = State_start_new_command \<and> con_dev con = devs ! i \<and>
      (\<forall>name. console_handler c s' name =
        (if name = bytes ''help'' then Some (Built_in_list, Some c)
         else map_option (\<lambda>cb. (cb, None)) (map_of es name))))"
proof -
  obtain s' as where s': "cli_init es devs s = Some s'" "cl_list (s_env s') = as"
    "list_all2 (\<lambda>dev a. served es dev a s') devs as"
    using cli_init_serves[OF assms(1), of es devs] assms(2) by auto
  have len: "length as = length devs" using s'(3) by (simp add: list_all2_lengthD)
  have h: "(map_of (map (\<lambda>e. (fst e, snd e, None)) es) ++ [bytes ''help'' \<mapsto> v]) n =
    (if n = bytes ''help'' then Some v else map_option (\<lambda>cb. (cb, None)) (map_of es n))" for n and v :: "callback \<times> addr option"
  proof -
    have "map_of (map (\<lambda>e. (fst e, snd e, None :: addr option)) es) n = map_option (\<lambda>cb. (cb, None)) (map_of es n)" by (induction es) auto
    then show ?thesis by (simp add: map_add_def)
  qed
  have "\<exists>c con. cl_console (s_env s') (as ! i) = Some \<lparr>cc_console = c, cc_dev = devs ! i\<rparr> \<and>
      s_console s' c = Some con \<and> con_ok con \<and> con_state con = State_start_new_command \<and> con_dev con = devs ! i \<and>
      (\<forall>name. console_handler c s' name =
        (if name = bytes ''help'' then Some (Built_in_list, Some c) else map_option (\<lambda>cb. (cb, None)) (map_of es name)))"
    if "i < length devs" for i
  proof -
    have "served es (devs ! i) (as ! i) s'" using list_all2_nthD[OF s'(3) that] .
    then obtain c where c: "cl_console (s_env s') (as ! i) = Some \<lparr>cc_console = c, cc_dev = devs ! i\<rparr>"
      "console_ready es (devs ! i) c s'" by (auto simp: served_def)
    show ?thesis using c unfolding console_ready_def h[symmetric] by auto
  qed
  with s'(1,2) len show ?thesis by (intro exI[of _ s']) simp
qed

definition bare_cli :: "unit cli_sys" where
  "bare_cli = \<lparr>s_heap = heap_init, s_next = 1, s_console = Map.empty, s_command = Map.empty,
     s_tty = (\<lambda>_. \<lparr>tty_polls = [], tty_sent = []\<rparr>),
     s_env = \<lparr>cl_list = [], cl_console = Map.empty, cl_run = False, cl_timer = demo_timer, cl_rest = ()\<rparr>\<rparr>"

theorem cli_init_registers_witness:
  "\<exists>s'. cli_init [(bytes ''hello'', Callback HELLO), (bytes ''exit'', Callback EXIT)] [7, 8] bare_cli = Some s' \<and>
    length (cl_list (s_env s')) = 2 \<and>
    (\<exists>c. cl_console (s_env s') (cl_list (s_env s') ! 1) = Some \<lparr>cc_console = c, cc_dev = 8\<rparr> \<and>
      console_handler c s' (bytes ''exit'') = Some (Callback EXIT, None) \<and>
      console_handler c s' (bytes ''help'') = Some (Built_in_list, Some c) \<and> console_handler c s' (bytes ''ls'') = None)"
proof -
  let ?es = "[(bytes ''hello'', Callback HELLO), (bytes ''exit'', Callback EXIT)]"
  have "roomy_sys bare_cli" "cl_list (s_env bare_cli) = []" by (simp_all add: bare_cli_def roomy_sys_def heap_init_def)
  from cli_init_registers[OF this, of ?es "[7, 8]"] obtain s' where s': "cli_init ?es [7, 8] bare_cli = Some s'"
    "length (cl_list (s_env s')) = 2"
    "\<exists>c con. cl_console (s_env s') (cl_list (s_env s') ! 1) = Some \<lparr>cc_console = c, cc_dev = 8\<rparr> \<and>
      s_console s' c = Some con \<and> con_ok con \<and> con_state con = State_start_new_command \<and> con_dev con = 8 \<and>
      (\<forall>name. console_handler c s' name =
        (if name = bytes ''help'' then Some (Built_in_list, Some c) else map_option (\<lambda>cb. (cb, None)) (map_of ?es name)))"
    by fastforce
  then obtain c where c: "cl_console (s_env s') (cl_list (s_env s') ! 1) = Some \<lparr>cc_console = c, cc_dev = 8\<rparr>"
    "\<And>name. console_handler c s' name =
        (if name = bytes ''help'' then Some (Built_in_list, Some c) else map_option (\<lambda>cb. (cb, None)) (map_of ?es name))"
    by blast
  have "console_handler c s' (bytes ''exit'') = Some (Callback EXIT, None)"
    "console_handler c s' (bytes ''help'') = Some (Built_in_list, Some c)" "console_handler c s' (bytes ''ls'') = None"
    unfolding c(2) by (simp_all add: bytes_def)
  with s'(1,2) c(1) show ?thesis by blast
qed

end
