(* ===== verification/Bootsrc.thy ===== *)
theory Bootsrc
  imports Bootdev_Props Part_Table Ascii
begin

text \<open>
  The boot devices on flash: \<open>lib/sgmtd/sgmtd.c\<close>, which loads files that a partition table names, and
  \<open>lib/sgcfg/sgcfg.c\<close>, which has the configuration file between its header and its end mark.

  The private data of a boot device is the structure of its driver; the driver of \<open>sgmtd\<close> is number
  \<open>OPS_SGMTD\<close> in the table of operations, that of \<open>sgcfg\<close> \<open>OPS_SGCFG\<close>. The property of the device tree
  node of a flash device, which \<open>libfdt\<close> finds, is the parameter \<open>fdt\<close>: its bytes, if it is there.
\<close>

record sgmtd =
  sm_mtd :: addr
  sm_offset :: u64

record sgcfg =
  sc_mtd :: addr
  sc_cfg :: "u8 list"
  sc_size :: u64

datatype boot_priv = B_sgmtd sgmtd | B_sgcfg sgcfg

subsection \<open>Files of the partition table\<close>

definition err_int :: "errno \<Rightarrow> int" where "err_int e = - errno_val e"

text \<open>A record and its bytes; a read that fails or is short is \<open>ENOENT\<close>.\<close>

definition get_part_info :: "addr \<Rightarrow> u32 \<Rightarrow> 'h kernel \<Rightarrow> ((errno + u8 list) \<times> 'h kernel) option" where
  "get_part_info m a k =
     do { (r, k1) \<leftarrow> mtd_read m (ucast a) (of_nat PART_INFO_SIZE) k;
          Some (case r of
            Inl _ \<Rightarrow> (Inl ENOENT, k1)
          | Inr bs \<Rightarrow>
              (if length bs \<noteq> PART_INFO_SIZE then (Inl ENOENT, k1)
               else if pi_magic (part_info_of bs) \<noteq> DPT_MAGIC then (Inl EINVAL, k1)
               else (Inr bs, k1))) }"

text \<open>
  \<open>strcmp\<close> of the name in a record, given as its bytes from there on, with a string: whether they are
  equal. Without a NUL in the record it reads behind it, unless a byte differs before.
\<close>

fun same_string :: "u8 list \<Rightarrow> u8 list \<Rightarrow> bool option" where
  "same_string [] cs = None"
| "same_string (b # bs) [] = Some (b = 0)"
| "same_string (b # bs) (c # cs) = (if b = c then same_string bs cs else Some False)"

partial_function (option) get_part_info_by_name ::
    "addr \<Rightarrow> u32 \<Rightarrow> u8 list \<Rightarrow> 'h kernel \<Rightarrow> ((errno + u8 list) \<times> 'h kernel) option" where
  "get_part_info_by_name m a name k =
     do { (r, k1) \<leftarrow> get_part_info m a k;
          (case r of
             Inl e \<Rightarrow> Some (Inl e, k1)
           | Inr bs \<Rightarrow>
               do { same \<leftarrow> same_string (drop 4 bs) name;
                    (if same then Some (Inr bs, k1)
                     else get_part_info_by_name m (a + of_nat PART_INFO_SIZE) name k1) }) }"

definition sgmtd_get_file_size :: "boot_priv option \<Rightarrow> string \<Rightarrow> 'h kernel \<Rightarrow> (int \<times> 'h kernel) option" where
  "sgmtd_get_file_size data name k =
     (case data of
        Some (B_sgmtd sg) \<Rightarrow>
          do { (r, k1) \<leftarrow> get_part_info_by_name (sm_mtd sg) (ucast (sm_offset sg)) (bytes name) k;
               Some (case r of Inl _ \<Rightarrow> err_int ENOENT | Inr bs \<Rightarrow> uint (pi_size (part_info_of bs)), k1) }
      | _ \<Rightarrow> None)"

definition sgmtd_load :: "boot_priv option \<Rightarrow> string \<Rightarrow> 'h kernel \<Rightarrow> ((int \<times> u8 list) \<times> 'h kernel) option" where
  "sgmtd_load data name k =
     (case data of
        Some (B_sgmtd sg) \<Rightarrow>
          do { (r, k1) \<leftarrow> get_part_info_by_name (sm_mtd sg) (ucast (sm_offset sg)) (bytes name) k;
               (case r of
                  Inl _ \<Rightarrow> Some ((err_int ENOENT, []), k1)
                | Inr bs \<Rightarrow>
                    do { (q, k2) \<leftarrow> mtd_read (sm_mtd sg) (ucast (pi_offset (part_info_of bs))) (ucast (pi_size (part_info_of bs))) k1;
                         Some (case q of Inl e \<Rightarrow> (err_int e, []) | Inr c \<Rightarrow> (int (length c), c), k2) }) }
      | _ \<Rightarrow> None)"

definition OPS_SGMTD :: nat where "OPS_SGMTD = 0"
definition OPS_SGCFG :: nat where "OPS_SGCFG = 1"

definition sgmtd_ops :: "('h, boot_priv) bootdev_ops" where
  "sgmtd_ops = \<lparr>bo_load = Some sgmtd_load, bo_get_file_size = Some sgmtd_get_file_size\<rparr>"

text \<open>Big-endian, as in a device tree.\<close>

definition fdt64_to_cpu :: "u8 list \<Rightarrow> u64" where
  "fdt64_to_cpu bs = foldl (\<lambda>w b. push_bit 8 w OR ucast b) 0 (take 8 bs)"

definition bm_kernel :: "('h kernel \<Rightarrow> 'h kernel) \<Rightarrow> ('h, 'd) bdm \<Rightarrow> ('h, 'd) bdm" where
  "bm_kernel f s = s\<lparr>bm_k := f (bm_k s)\<rparr>"

definition sgmtd_create_bootdev ::
    "(addr \<Rightarrow> string \<Rightarrow> u8 list option) \<Rightarrow> addr \<Rightarrow> ('h, boot_priv) bdm \<Rightarrow> (int \<times> ('h, boot_priv) bdm) option" where
  "sgmtd_create_bootdev fdt m s =
     do { mt \<leftarrow> k_mtd (bm_k s) m;
          (case mt_hwdev mt of
             None \<Rightarrow> Some (err_int EINVAL, s)
           | Some hw \<Rightarrow>
               (case fdt hw ''sophgo-boot'' of
                  None \<Rightarrow> Some (err_int ENOENT, s)
                | Some prop \<Rightarrow>
                    if length prop < 8 then Some (err_int EINVAL, s)
                    else
                      (case bootdev_alloc s of
                         (None, s1) \<Rightarrow> Some (err_int ENOMEM, s1)
                       | (Some a, s1) \<Rightarrow>
                           (case k_malloc (bm_k s1) of
                              (False, k) \<Rightarrow> Some (err_int ENOMEM, bootdev_free a (s1\<lparr>bm_k := k\<rparr>))
                            | (True, k) \<Rightarrow>
                                (let s2 = bm_upd a (\<lambda>b. b\<lparr>bt_data := Some (B_sgmtd \<lparr>sm_mtd = m, sm_offset = fdt64_to_cpu prop\<rparr>),
                                            bt_size := mt_total_size mt, bt_ops := Some OPS_SGMTD\<rparr>) (s1\<lparr>bm_k := k\<rparr>);
                                     s3 = bm_kernel (device_set_child_name a m ''boot'') s2
                                 in do { s4 \<leftarrow> bootdev_add a s3; Some (0, s4) }))))) }"

subsection \<open>The configuration file\<close>

definition SGCFG_SIZE_MAX :: nat where "SGCFG_SIZE_MAX = 8 * 1024"

definition conf_ini :: string where "conf_ini = ''conf.ini''"

definition sgcfg_get_file_size :: "boot_priv option \<Rightarrow> string \<Rightarrow> 'h kernel \<Rightarrow> (int \<times> 'h kernel) option" where
  "sgcfg_get_file_size data name k =
     (case data of
        Some (B_sgcfg sg) \<Rightarrow> Some (if name \<noteq> conf_ini then err_int ENOENT else uint (sc_size sg), k)
      | _ \<Rightarrow> None)"

definition sgcfg_load :: "boot_priv option \<Rightarrow> string \<Rightarrow> 'h kernel \<Rightarrow> ((int \<times> u8 list) \<times> 'h kernel) option" where
  "sgcfg_load data name k =
     (case data of
        Some (B_sgcfg sg) \<Rightarrow>
          Some (if name \<noteq> conf_ini then (err_int ENOENT, []) else (uint (sc_size sg), take (unat (sc_size sg)) (sc_cfg sg)), k)
      | _ \<Rightarrow> None)"

definition sgcfg_ops :: "('h, boot_priv) bootdev_ops" where
  "sgcfg_ops = \<lparr>bo_load = Some sgcfg_load, bo_get_file_size = Some sgcfg_get_file_size\<rparr>"

definition cfg_header :: "u8 list" where "cfg_header = bytes ''[sophgo-config]''"
definition cfg_tail :: "u8 list" where "cfg_tail = bytes ''[eof]''"

text \<open>\<open>strstr\<close> in a string: where the needle is found first.\<close>

fun find_sub :: "u8 list \<Rightarrow> u8 list \<Rightarrow> nat option" where
  "find_sub ne hs =
     (if take (length ne) hs = ne then Some 0
      else case hs of [] \<Rightarrow> None | _ # rest \<Rightarrow> map_option Suc (find_sub ne rest))"

declare find_sub.simps [simp del]

text \<open>The size of the file in the buffer, whose string ends at the first NUL.\<close>

definition cfg_size :: "u8 list \<Rightarrow> u64" where
  "cfg_size cfg =
     (let str = takeWhile (\<lambda>b. b \<noteq> 0) cfg
      in if take (length cfg_header) str \<noteq> cfg_header then 0
         else case find_sub cfg_tail str of None \<Rightarrow> 0 | Some i \<Rightarrow> of_nat (i + length cfg_tail))"

text \<open>A short read goes the same way as an error, and its length is what \<open>create_bootdev\<close> returns.\<close>

definition sgcfg_create_bootdev ::
    "(addr \<Rightarrow> string \<Rightarrow> u8 list option) \<Rightarrow> addr \<Rightarrow> ('h, boot_priv) bdm \<Rightarrow> (int \<times> ('h, boot_priv) bdm) option" where
  "sgcfg_create_bootdev fdt m s =
     do { mt \<leftarrow> k_mtd (bm_k s) m;
          (case mt_hwdev mt of
             None \<Rightarrow> Some (err_int EINVAL, s)
           | Some hw \<Rightarrow>
               (case fdt hw ''sophgo-config'' of
                  None \<Rightarrow> Some (err_int ENOENT, s)
                | Some _ \<Rightarrow>
                    (case bootdev_alloc s of
                       (None, s1) \<Rightarrow> Some (err_int ENOMEM, s1)
                     | (Some a, s1) \<Rightarrow>
                         (case k_malloc (bm_k s1) of
                            (False, k) \<Rightarrow> Some (err_int ENOMEM, bootdev_free a (s1\<lparr>bm_k := k\<rparr>))
                          | (True, k) \<Rightarrow>
                              (let s2 = bm_upd a (\<lambda>b. b\<lparr>bt_size := mt_total_size mt, bt_ops := Some OPS_SGCFG\<rparr>) (s1\<lparr>bm_k := k\<rparr>);
                                   s3 = bm_kernel (device_set_child_name a m ''boot'') s2
                               in do { (r, k1) \<leftarrow> mtd_read m 0 (of_nat (SGCFG_SIZE_MAX - 1)) (bm_k s3);
                                       let s4 = s3\<lparr>bm_k := k1\<rparr>;
                                       (case r of
                                          Inl e \<Rightarrow> Some (err_int e, bootdev_free a s4)
                                        | Inr bs \<Rightarrow>
                                            if length bs \<noteq> SGCFG_SIZE_MAX - 1 then Some (int (length bs), bootdev_free a s4)
                                            else
                                              do { let cfg = bs @ [0];
                                                   let s5 = bm_upd a (\<lambda>b. b\<lparr>bt_data :=
                                                     Some (B_sgcfg \<lparr>sc_mtd = m, sc_cfg = cfg, sc_size = cfg_size cfg\<rparr>)\<rparr>) s4;
                                                   s6 \<leftarrow> bootdev_add a s5;
                                                   Some (0, s6) }) }))))) }"

subsection \<open>All flash devices\<close>

text \<open>The loop over the flash devices; an error other than \<open>ENOENT\<close> is collected.\<close>

partial_function (option) create_from ::
    "(addr \<Rightarrow> ('h, boot_priv) bdm \<Rightarrow> (int \<times> ('h, boot_priv) bdm) option) \<Rightarrow> addr option \<Rightarrow> int \<Rightarrow>
     ('h, boot_priv) bdm \<Rightarrow> (int \<times> ('h, boot_priv) bdm) option" where
  "create_from create m err s =
     (case m of
        None \<Rightarrow> Some (err, s)
      | Some a \<Rightarrow>
          do { (tmp, s1) \<leftarrow> create a s;
               create_from create (mtd_next (bm_k s1) a)
                 (if tmp = err_int ENOENT \<or> tmp = 0 then err else err OR tmp) s1 }) "

definition sgmtd_init :: "(addr \<Rightarrow> string \<Rightarrow> u8 list option) \<Rightarrow> ('h, boot_priv) bdm \<Rightarrow> (int \<times> ('h, boot_priv) bdm) option" where
  "sgmtd_init fdt s = create_from (sgmtd_create_bootdev fdt) (mtd_first (bm_k s)) 0 s"

definition sgcfg_init :: "(addr \<Rightarrow> string \<Rightarrow> u8 list option) \<Rightarrow> ('h, boot_priv) bdm \<Rightarrow> (int \<times> ('h, boot_priv) bdm) option" where
  "sgcfg_init fdt s = create_from (sgcfg_create_bootdev fdt) (mtd_first (bm_k s)) 0 s"

end
