(* ===== verification/Bootsrc_Claims.thy ===== *)
theory Bootsrc_Claims
  imports Bootsrc Devices_Props
begin

text \<open>
  The flash drivers keep the contract of a boot device: the locale \<open>boot_source\<close> states what a driver
  promises of the files its private data gives access to, and is interpreted for both drivers.
\<close>

subsection \<open>The contract\<close>

locale boot_source =
  fixes ld :: "'d option \<Rightarrow> string \<Rightarrow> 'h kernel \<Rightarrow> ((int \<times> u8 list) \<times> 'h kernel) option"
    and sz :: "'d option \<Rightarrow> string \<Rightarrow> 'h kernel \<Rightarrow> (int \<times> 'h kernel) option"
    and has :: "'d \<Rightarrow> 'h kernel \<Rightarrow> (string \<Rightarrow> u8 list) \<Rightarrow> bool"
  assumes has_hw: "has d k files \<Longrightarrow> has d (set_hw h k) files"
    and load_file: "has d k files \<Longrightarrow> 0 \<notin> set (bytes f) \<Longrightarrow> \<exists>r bs h. ld (Some d) f k = Some ((r, bs), set_hw h k) \<and>
      (if files f \<noteq> [] then r = int (length (files f)) \<and> bs = files f else r \<le> 0)"
    and size_file: "has d k files \<Longrightarrow> 0 \<notin> set (bytes f) \<Longrightarrow> \<exists>r h. sz (Some d) f k = Some (r, set_hw h k) \<and>
      (if files f \<noteq> [] then r = int (length (files f)) else r \<le> 0)"
begin

lemma serves:
  assumes "bm_boot s a = Some b" "bt_ops b = Some i" "bm_ops s i = \<lparr>bo_load = Some ld, bo_get_file_size = Some sz\<rparr>"
    "bt_data b = Some d" "has d (bm_k s) files" "0 \<notin> set (bytes f)"
  shows "serves s f a (files f)"
proof -
  have l: "loader s a f k = ld (Some d) f k" "sizer s a f k = sz (Some d) f k" for k
    using assms by (simp_all add: loader_def sizer_def)
  have h: "has d (set_hw h (bm_k s)) files" for h using assms(5) by (rule has_hw)
  show ?thesis
    unfolding serves_def l
  proof
    fix h0
    obtain r bs h1 where a: "ld (Some d) f (set_hw h0 (bm_k s)) = Some ((r, bs), set_hw h1 (set_hw h0 (bm_k s)))"
      "if files f \<noteq> [] then r = int (length (files f)) \<and> bs = files f else r \<le> 0"
      using load_file[OF h assms(6)] by blast
    obtain q h2 where b: "sz (Some d) f (set_hw h0 (bm_k s)) = Some (q, set_hw h2 (set_hw h0 (bm_k s)))"
      "if files f \<noteq> [] then q = int (length (files f)) else q \<le> 0"
      using size_file[OF h assms(6)] by blast
    show "(\<exists>r bs h'. ld (Some d) f (set_hw h0 (bm_k s)) = Some ((r, bs), set_hw h' (bm_k s)) \<and>
        (if files f \<noteq> [] then r = int (length (files f)) \<and> bs = files f else r \<le> 0)) \<and>
      (\<exists>r h'. sz (Some d) f (set_hw h0 (bm_k s)) = Some (r, set_hw h' (bm_k s)) \<and>
        (if files f \<noteq> [] then r = int (length (files f)) else r \<le> 0))"
      using a b by auto
  qed
qed

end

subsection \<open>Flash with a fixed content\<close>

text \<open>A read gives what there is of the range, and changes the state of the hardware only.\<close>

definition mtd_image :: "'h kernel \<Rightarrow> addr \<Rightarrow> u8 list \<Rightarrow> bool" where
  "mtd_image k m img \<longleftrightarrow>
     (\<forall>h off len. \<exists>h'. mtd_read m off len (set_hw h k) = Some (Inr (take (unat len) (drop (unat off) img)), set_hw h' k))"

lemma mtd_image_hw [simp]: "mtd_image (set_hw h k) m img = mtd_image k m img"
  by (simp add: mtd_image_def)

lemma mtd_image_read:
  assumes "mtd_image k m img"
  obtains h where "mtd_read m off len k = Some (Inr (take (unat len) (drop (unat off) img)), set_hw h k)"
proof -
  have "\<exists>h. mtd_read m off len (set_hw (k_hw k) k) = Some (Inr (take (unat len) (drop (unat off) img)), set_hw h k)"
    using assms unfolding mtd_image_def by blast
  then show thesis using that by auto
qed

subsection \<open>The configuration file\<close>

definition cfg_files :: "u8 list \<Rightarrow> u64 \<Rightarrow> string \<Rightarrow> u8 list" where
  "cfg_files cfg n f = (if f = conf_ini then take (unat n) cfg else [])"

definition sgcfg_has :: "boot_priv \<Rightarrow> 'h kernel \<Rightarrow> (string \<Rightarrow> u8 list) \<Rightarrow> bool" where
  "sgcfg_has d k files \<longleftrightarrow>
     (case d of B_sgcfg sg \<Rightarrow> unat (sc_size sg) \<le> length (sc_cfg sg) \<and> files = cfg_files (sc_cfg sg) (sc_size sg) | _ \<Rightarrow> False)"

lemma err_int_neg: "err_int ENOENT \<le> 0"
  by (simp add: err_int_def)

interpretation cfg_source: boot_source sgcfg_load sgcfg_get_file_size sgcfg_has
proof
  fix d and k :: "'a kernel" and files f h
  show "sgcfg_has d k files \<Longrightarrow> sgcfg_has d (set_hw h k) files" by (simp add: sgcfg_has_def)
  assume a: "sgcfg_has d k files"
  then obtain sg where sg: "d = B_sgcfg sg" "unat (sc_size sg) \<le> length (sc_cfg sg)" "files = cfg_files (sc_cfg sg) (sc_size sg)"
    by (auto simp: sgcfg_has_def split: boot_priv.splits)
  have len: "int (length (take (unat (sc_size sg)) (sc_cfg sg))) = uint (sc_size sg)" using sg(2) by simp
  have hw: "k = set_hw (k_hw k) k" by simp
  show "\<exists>r bs h. sgcfg_load (Some d) f k = Some ((r, bs), set_hw h k) \<and>
      (if files f \<noteq> [] then r = int (length (files f)) \<and> bs = files f else r \<le> 0)"
    using len err_int_neg by (auto simp: sg(1,3) sgcfg_load_def cfg_files_def intro!: exI[of _ "k_hw k"])
  show "\<exists>r h. sgcfg_get_file_size (Some d) f k = Some (r, set_hw h k) \<and>
      (if files f \<noteq> [] then r = int (length (files f)) else r \<le> 0)"
    using len err_int_neg by (auto simp: sg(1,3) sgcfg_get_file_size_def cfg_files_def intro!: exI[of _ "k_hw k"])
qed

subsection \<open>The partition table\<close>

text \<open>
  The files of a flash with content \<open>img\<close> and \<open>n\<close> records from \<open>off\<close> on: the first record of a name counts.
\<close>

definition table_files :: "nat \<Rightarrow> nat \<Rightarrow> u8 list \<Rightarrow> string \<Rightarrow> u8 list" where
  "table_files n off img f =
     (case List.find (\<lambda>pi. c_string (pi_name pi) = f) (table_of n (drop off img)) of
        None \<Rightarrow> []
      | Some pi \<Rightarrow> take (unat (pi_size pi)) (drop (unat (pi_offset pi)) img))"

text \<open>
  The table ends within \<open>n\<close> records, below 4 GiB; names end with a NUL, and the files lie in the flash.
\<close>

definition table_ok :: "nat \<Rightarrow> nat \<Rightarrow> u8 list \<Rightarrow> bool" where
  "table_ok n off img \<longleftrightarrow>
     off + Suc n * PART_INFO_SIZE < 2 ^ 32 \<and> length (table_of (Suc n) (drop off img)) \<le> n \<and>
     (\<forall>pi \<in> set (table_of n (drop off img)). 0 \<in> set (pi_name pi) \<and> unat (pi_offset pi) + unat (pi_size pi) \<le> length img)"

definition sgmtd_has :: "boot_priv \<Rightarrow> 'h kernel \<Rightarrow> (string \<Rightarrow> u8 list) \<Rightarrow> bool" where
  "sgmtd_has d k files \<longleftrightarrow>
     (case d of
        B_sgmtd sg \<Rightarrow>
          \<exists>n img. mtd_image k (sm_mtd sg) img \<and> table_ok n (unat (sm_offset sg)) img \<and> files = table_files n (unat (sm_offset sg)) img
      | _ \<Rightarrow> False)"

lemma bytes_inject [simp]: "bytes x = bytes y \<longleftrightarrow> x = y"
  by (metis chars_bytes)

lemma same_string_nul:
  assumes "0 \<in> set nm" "0 \<notin> set cs"
  shows "same_string (nm @ rest) cs = Some (takeWhile (\<lambda>b. b \<noteq> 0) nm = cs)"
  using assms
proof (induction nm arbitrary: cs)
  case (Cons b nm)
  then show ?case by (cases cs) auto
qed simp

lemma bytes_chars: "bytes (chars xs) = xs"
proof -
  have "of_nat (of_char (char_of (unat b) :: char)) = b" for b :: u8
  proof -
    have "unat b < 256" using unsigned_less[of b, where ?'a = nat] by simp
    then show ?thesis by simp
  qed
  then show ?thesis by (simp add: bytes_def chars_def comp_def)
qed

lemma c_string_bytes: "c_string nm = f \<longleftrightarrow> takeWhile (\<lambda>b. b \<noteq> 0) nm = bytes f"
  unfolding c_string_def chars_def[symmetric] by (metis bytes_chars chars_bytes)

lemma same_string_record:
  assumes "0 \<in> set (pi_name (part_info_of bs))" "0 \<notin> set (bytes f)"
  shows "same_string (drop 4 bs) (bytes f) = Some (c_string (pi_name (part_info_of bs)) = f)"
proof -
  have "drop 4 bs = pi_name (part_info_of bs) @ drop 32 (drop 4 bs)" by (simp add: part_info_of_def del: drop_drop)
  then show ?thesis unfolding c_string_bytes using same_string_nul[OF assms] by metis
qed

lemma unat_ucast_32_64: "unat (ucast (w :: u32) :: u64) = unat w"
  using unsigned_less[of w, where ?'a = nat] by (simp add: unsigned_ucast_eq take_bit_nat_eq_self)

text \<open>A record is read, or the search ends here.\<close>

definition record_at :: "u8 list \<Rightarrow> nat \<Rightarrow> bool" where
  "record_at img i \<longleftrightarrow> length (take PART_INFO_SIZE (drop i img)) = PART_INFO_SIZE \<and>
     pi_magic (part_info_of (take PART_INFO_SIZE (drop i img))) = DPT_MAGIC"

lemma get_part_info_image:
  assumes "mtd_image k m img"
  obtains h r where "get_part_info m a k = Some (r, set_hw h k)"
    "if record_at img (unat a) then r = Inr (take PART_INFO_SIZE (drop (unat a) img)) else \<exists>e. r = Inl e"
proof -
  have u: "unat (of_nat PART_INFO_SIZE :: u64) = PART_INFO_SIZE" by (simp add: PART_INFO_SIZE_def)
  let ?bs = "take PART_INFO_SIZE (drop (unat a) img)"
  let ?r = "if length ?bs \<noteq> PART_INFO_SIZE then Inl ENOENT
    else if pi_magic (part_info_of ?bs) \<noteq> DPT_MAGIC then Inl EINVAL else Inr ?bs"
  obtain h where "mtd_read m (ucast a) (of_nat PART_INFO_SIZE) k = Some (Inr ?bs, set_hw h k)"
    by (rule mtd_image_read[OF assms, of "ucast a" "of_nat PART_INFO_SIZE", unfolded u unat_ucast_32_64])
  then have "get_part_info m a k = Some (?r, set_hw h k)" by (simp add: get_part_info_def)
  moreover have "if record_at img (unat a) then ?r = Inr ?bs else \<exists>e. ?r = Inl e"
    by (cases "length ?bs = PART_INFO_SIZE"; cases "pi_magic (part_info_of ?bs) = DPT_MAGIC") (simp_all only: record_at_def simp_thms if_True if_False, blast+)
  ultimately show thesis by (rule that)
qed

lemma table_of_record:
  "table_of (Suc i) (drop a img) =
    (if record_at img a then part_info_of (take PART_INFO_SIZE (drop a img)) # table_of i (drop (a + PART_INFO_SIZE) img) else [])"
proof -
  have "record_at img a \<longleftrightarrow> \<not> (length (drop a img) < PART_INFO_SIZE \<or> pi_magic (part_info_of (take PART_INFO_SIZE (drop a img))) \<noteq> DPT_MAGIC)"
    by (auto simp: record_at_def)
  then show ?thesis by (simp add: add.commute)
qed

text \<open>The search gives the first record of the name.\<close>

lemma get_part_info_by_name_table:
  assumes "mtd_image k m img" "unat a + Suc n * PART_INFO_SIZE < 2 ^ 32" "length (table_of (Suc n) (drop (unat a) img)) \<le> n"
    "\<forall>pi \<in> set (table_of n (drop (unat a) img)). 0 \<in> set (pi_name pi)" "0 \<notin> set (bytes f)"
  shows "\<exists>r h. get_part_info_by_name m a (bytes f) k = Some (r, set_hw h k) \<and>
    (case List.find (\<lambda>pi. c_string (pi_name pi) = f) (table_of n (drop (unat a) img)) of
       None \<Rightarrow> \<exists>e. r = Inl e | Some pi \<Rightarrow> \<exists>bs. r = Inr bs \<and> part_info_of bs = pi)"
  using assms
proof (induction n arbitrary: a k)
  case 0
  obtain h r where g: "get_part_info m a k = Some (r, set_hw h k)"
    "if record_at img (unat a) then r = Inr (take PART_INFO_SIZE (drop (unat a) img)) else \<exists>e. r = Inl e"
    by (rule get_part_info_image[OF "0.prems"(1)])
  have "\<not> record_at img (unat a)" using "0.prems"(3) unfolding table_of_record by auto
  with g obtain e where "get_part_info m a k = Some (Inl e, set_hw h k)" by auto
  then show ?case by (subst get_part_info_by_name.simps) auto
next
  case (Suc n)
  let ?bs = "take PART_INFO_SIZE (drop (unat a) img)"
  let ?a = "a + of_nat PART_INFO_SIZE"
  obtain h r where g: "get_part_info m a k = Some (r, set_hw h k)" "if record_at img (unat a) then r = Inr ?bs else \<exists>e. r = Inl e"
    by (rule get_part_info_image[OF Suc.prems(1)])
  show ?case
  proof (cases "record_at img (unat a)")
    case False
    with g obtain e where "get_part_info m a k = Some (Inl e, set_hw h k)" by auto
    then show ?thesis unfolding table_of_record using False by (subst get_part_info_by_name.simps) auto
  next
    case True
    have ua: "unat ?a = unat a + PART_INFO_SIZE"
    proof -
      have "unat (of_nat PART_INFO_SIZE :: u32) = PART_INFO_SIZE" by (simp add: PART_INFO_SIZE_def)
      then show ?thesis using Suc.prems(2) unat_add_lem[of a "of_nat PART_INFO_SIZE"] by simp
    qed
    have tab: "table_of (Suc i) (drop (unat a) img) = part_info_of ?bs # table_of i (drop (unat ?a) img)" for i
      unfolding table_of_record ua using True by simp
    have get: "get_part_info m a k = Some (Inr ?bs, set_hw h k)" using g True by simp
    have same: "same_string (drop 4 ?bs) (bytes f) = Some (c_string (pi_name (part_info_of ?bs)) = f)"
      using Suc.prems(4,5) unfolding tab by (intro same_string_record) simp_all
    show ?thesis
    proof (cases "c_string (pi_name (part_info_of ?bs)) = f")
      case True
      then show ?thesis unfolding tab using get same by (subst get_part_info_by_name.simps) auto
    next
      case False
      have "get_part_info_by_name m a (bytes f) k = get_part_info_by_name m ?a (bytes f) (set_hw h k)"
        using get same False by (subst get_part_info_by_name.simps) simp
      moreover have "\<exists>r h'. get_part_info_by_name m ?a (bytes f) (set_hw h k) = Some (r, set_hw h' (set_hw h k)) \<and>
        (case List.find (\<lambda>pi. c_string (pi_name pi) = f) (table_of n (drop (unat ?a) img)) of
           None \<Rightarrow> \<exists>e. r = Inl e | Some pi \<Rightarrow> \<exists>bs. r = Inr bs \<and> part_info_of bs = pi)"
        using Suc.prems by (intro Suc.IH) (simp_all add: ua tab del: table_of.simps)
      ultimately show ?thesis unfolding tab using False by simp
    qed
  qed
qed

lemma table_ok_bounds:
  assumes "table_ok n (unat off) img" "off32 = (ucast (off :: u64) :: u32)"
  shows "unat off32 = unat off"
  using assms by (simp add: table_ok_def unsigned_ucast_eq take_bit_nat_eq_self)

interpretation table_source: boot_source sgmtd_load sgmtd_get_file_size sgmtd_has
proof
  fix d and k :: "'a kernel" and files f h
  show "sgmtd_has d k files \<Longrightarrow> sgmtd_has d (set_hw h k) files" by (auto simp: sgmtd_has_def split: boot_priv.splits)
  assume a: "sgmtd_has d k files" "0 \<notin> set (bytes f)"
  then obtain sg n img where sg: "d = B_sgmtd sg" "mtd_image k (sm_mtd sg) img" "table_ok n (unat (sm_offset sg)) img"
    "files = table_files n (unat (sm_offset sg)) img" by (auto simp: sgmtd_has_def split: boot_priv.splits)
  let ?a = "ucast (sm_offset sg) :: u32"
  have u: "unat ?a = unat (sm_offset sg)" using sg(3) by (rule table_ok_bounds) simp
  let ?found = "List.find (\<lambda>pi. c_string (pi_name pi) = f) (table_of n (drop (unat (sm_offset sg)) img))"
  obtain r h1 where r: "get_part_info_by_name (sm_mtd sg) ?a (bytes f) k = Some (r, set_hw h1 k)"
    "case ?found of None \<Rightarrow> \<exists>e. r = Inl e | Some pi \<Rightarrow> \<exists>bs. r = Inr bs \<and> part_info_of bs = pi"
    using get_part_info_by_name_table[of k "sm_mtd sg" img ?a n f] sg(2,3) a(2) unfolding u table_ok_def by blast
  have "(\<exists>r bs h. sgmtd_load (Some d) f k = Some ((r, bs), set_hw h k) \<and>
      (if files f \<noteq> [] then r = int (length (files f)) \<and> bs = files f else r \<le> 0)) \<and>
    (\<exists>r h. sgmtd_get_file_size (Some d) f k = Some (r, set_hw h k) \<and>
      (if files f \<noteq> [] then r = int (length (files f)) else r \<le> 0))"
  proof (cases ?found)
    case None
    then obtain e where "r = Inl e" using r(2) by auto
    moreover have "files f = []" by (simp add: sg(4) table_files_def None)
    ultimately show ?thesis using r(1) err_int_neg by (auto simp: sgmtd_load_def sgmtd_get_file_size_def sg(1))
  next
    case (Some pi)
    then obtain bs where bs: "r = Inr bs" "part_info_of bs = pi" using r(2) by auto
    have "pi \<in> set (table_of n (drop (unat (sm_offset sg)) img))" using Some by (auto dest: find_Some_iff_mem)
    then have len: "length (files f) = unat (pi_size pi)" and files: "files f = take (unat (pi_size pi)) (drop (unat (pi_offset pi)) img)"
      using sg(3) Some by (auto simp: sg(4) table_files_def table_ok_def)
    obtain h2 where "mtd_read (sm_mtd sg) (ucast (pi_offset pi)) (ucast (pi_size pi)) (set_hw h1 k) = Some (Inr (files f), set_hw h2 (set_hw h1 k))"
      using mtd_image_read[of "set_hw h1 k" "sm_mtd sg" img "ucast (pi_offset pi)" "ucast (pi_size pi)"] sg(2)
      unfolding files unat_ucast_32_64 mtd_image_hw by blast
    then have "sgmtd_load (Some d) f k = Some ((int (length (files f)), files f), set_hw h2 k)"
      using r(1) by (simp add: sgmtd_load_def sg(1) bs)
    moreover have "sgmtd_get_file_size (Some d) f k = Some (int (length (files f)), set_hw h1 k)"
      using r(1) by (simp add: sgmtd_get_file_size_def sg(1) bs len)
    ultimately show ?thesis by auto
  qed
  then show "\<exists>r bs h. sgmtd_load (Some d) f k = Some ((r, bs), set_hw h k) \<and>
      (if files f \<noteq> [] then r = int (length (files f)) \<and> bs = files f else r \<le> 0)"
    "\<exists>r h. sgmtd_get_file_size (Some d) f k = Some (r, set_hw h k) \<and>
      (if files f \<noteq> [] then r = int (length (files f)) else r \<le> 0)" by blast+
qed

subsection \<open>Loading from flash\<close>

definition flash_device :: "('h, boot_priv) bdm \<Rightarrow> addr \<Rightarrow> (string \<Rightarrow> u8 list) \<Rightarrow> bool" where
  "flash_device s a files \<longleftrightarrow>
     (\<exists>b d. bm_boot s a = Some b \<and> bt_data b = Some d \<and>
        (bt_ops b = Some OPS_SGMTD \<and> sgmtd_has d (bm_k s) files \<or> bt_ops b = Some OPS_SGCFG \<and> sgcfg_has d (bm_k s) files))"

definition flash_drivers :: "('h, boot_priv) bdm \<Rightarrow> bool" where
  "flash_drivers s \<longleftrightarrow> bm_ops s OPS_SGMTD = sgmtd_ops \<and> bm_ops s OPS_SGCFG = sgcfg_ops"

lemma flash_device_serves:
  assumes "flash_drivers s" "flash_device s a files" "0 \<notin> set (bytes f)"
  shows "serves s f a (files f)"
  using assms cfg_source.serves[of s a] table_source.serves[of s a]
  by (auto simp: flash_device_def flash_drivers_def sgmtd_ops_def sgcfg_ops_def)

text \<open>
  Files come from flash. If every boot device is one of the flash drivers on a flash with fixed
  content, \<open>bdm_load\<close> stores the file of the first enabled device in the list that has it: with \<open>sgmtd\<close>
  the range of the flash that the first record of that name in the partition table gives, with \<open>sgcfg\<close>
  the configuration file under its name. It returns the length, flushes exactly this range, and changes
  nothing else; without such a device it returns an error and flushes nothing.
\<close>
lemma boot_from_flash:
  assumes "flash_drivers s" "bm_list s xs" "\<forall>a \<in> set xs. flash_device s a (files a)" "0 \<notin> set (bytes f)"
  shows "\<exists>r h m fl. bdm_load f buf s = Some (r, io h m fl s) \<and>
    (case List.find (\<lambda>a. enabled s a \<and> files a f \<noteq> []) xs of
       None \<Rightarrow> r = - errno_val EIO \<and> fl = bm_flushed s
     | Some a \<Rightarrow> r = int (length (files a f)) \<and> (\<exists>m0. m = place buf (files a f) m0) \<and>
         fl = bm_flushed s @ [(buf, buf + of_int r)])"
proof -
  have "\<forall>a \<in> set xs. serves s f a (files a f)" using flash_device_serves assms by blast
  from bdm_load_from_list[of s "[]" xs f "\<lambda>a. files a f" buf] this assms(2) show ?thesis
    by (simp add: bdm_load_def bootdev_first_list[OF assms(2)] source_def)
qed

subsection \<open>Creating the devices\<close>

text \<open>The list of the boot devices, with memory, and with fresh addresses above \<open>k_next\<close>.\<close>

definition bm_ready :: "('h, 'd) bdm \<Rightarrow> addr list \<Rightarrow> bool" where
  "bm_ready s xs \<longleftrightarrow> bm_list s xs \<and> (\<forall>n. h_ok (k_heap (bm_k s)) n) \<and> boot_list < k_next (bm_k s) \<and>
     (\<forall>a \<in> set xs. a < k_next (bm_k s)) \<and> (\<forall>a \<ge> k_next (bm_k s). bm_boot s a = None)"

text \<open>What the creation of a boot device leaves alone.\<close>

definition flash_kept :: "('h, 'd) bdm \<Rightarrow> ('h, 'd) bdm \<Rightarrow> bool" where
  "flash_kept s s' \<longleftrightarrow> k_mtd (bm_k s') = k_mtd (bm_k s) \<and> k_mtd_ops (bm_k s') = k_mtd_ops (bm_k s) \<and>
     k_mtd_list (bm_k s') = k_mtd_list (bm_k s) \<and> bm_ops s' = bm_ops s \<and> bm_mem s' = bm_mem s \<and> bm_flushed s' = bm_flushed s"

lemma flash_kept_refl: "flash_kept s s"
  by (simp add: flash_kept_def)

lemma flash_kept_trans: "flash_kept s s1 \<Longrightarrow> flash_kept s1 s2 \<Longrightarrow> flash_kept s s2"
  by (simp add: flash_kept_def)

lemma mtd_image_iff:
  "mtd_image k m img \<longleftrightarrow>
    (\<exists>mt f. k_mtd k m = Some mt \<and> Option.bind (mt_ops mt) (\<lambda>i. io_read (k_mtd_ops k i)) = Some f \<and>
      (\<forall>h off len. fst (f (mt_data mt) off len h) = Inr (take (unat len) (drop (unat off) img))))"
  (is "?l \<longleftrightarrow> ?r")
proof
  assume l: ?l
  then obtain h0 where "mtd_read m 0 0 (set_hw (k_hw k) k) = Some (Inr (take (unat (0 :: u64)) (drop (unat (0 :: u64)) img)), set_hw h0 k)"
    unfolding mtd_image_def by blast
  then obtain mt f where f: "k_mtd k m = Some mt" "Option.bind (mt_ops mt) (\<lambda>i. io_read (k_mtd_ops k i)) = Some f"
    by (auto simp: mtd_read_def split: option.splits)
  have "fst (f (mt_data mt) off len h) = Inr (take (unat len) (drop (unat off) img))" for h off len
  proof -
    obtain h' where "mtd_read m off len (set_hw h k) = Some (Inr (take (unat len) (drop (unat off) img)), set_hw h' k)"
      using l unfolding mtd_image_def by blast
    then show ?thesis using f by (auto simp: mtd_read_def split: prod.splits)
  qed
  with f show ?r by blast
next
  assume ?r
  then obtain mt f where f: "k_mtd k m = Some mt" "Option.bind (mt_ops mt) (\<lambda>i. io_read (k_mtd_ops k i)) = Some f"
    "\<forall>h off len. fst (f (mt_data mt) off len h) = Inr (take (unat len) (drop (unat off) img))" by blast
  have "mtd_read m off len (set_hw h k) =
    Some (Inr (take (unat len) (drop (unat off) img)), set_hw (snd (f (mt_data mt) off len h)) k)" for h off len
    using f by (simp add: mtd_read_def set_hw_def split: prod.split) (metis fst_conv snd_conv)
  then show ?l unfolding mtd_image_def by blast
qed

lemma mtd_image_kept: "flash_kept s s' \<Longrightarrow> mtd_image (bm_k s') m img = mtd_image (bm_k s) m img"
  by (simp add: mtd_image_iff flash_kept_def)

lemma flash_device_kept:
  assumes "flash_kept s s'" "bm_boot s' a = bm_boot s a" "flash_device s a files"
  shows "flash_device s' a files"
proof -
  have "sgmtd_has d (bm_k s') files = sgmtd_has d (bm_k s) files" "sgcfg_has d (bm_k s') files = sgcfg_has d (bm_k s) files" for d
    using mtd_image_kept[OF assms(1)] by (auto simp: sgmtd_has_def sgcfg_has_def split: boot_priv.split)
  with assms(2,3) show ?thesis by (simp add: flash_device_def)
qed

lemma bootdev_alloc_ready:
  assumes "bm_ready s xs"
  shows "\<exists>s1. bootdev_alloc s = (Some (k_next (bm_k s)), s1) \<and> flash_kept s s1 \<and> bm_list s1 xs \<and>
    bm_boot s1 = (bm_boot s)(k_next (bm_k s) \<mapsto> \<lparr>bt_ops = None, bt_size = 0, bt_priority = 0, bt_disabled = 0, bt_data = None\<rparr>) \<and>
    k_dev (bm_k s1) (k_next (bm_k s)) \<noteq> None \<and> k_next (bm_k s1) = Suc (k_next (bm_k s)) \<and> (\<forall>n. h_ok (k_heap (bm_k s1)) n)"
proof -
  let ?a = "k_next (bm_k s)"
  have fresh: "?a \<noteq> boot_list" "?a \<notin> set xs" and l: "bm_list s xs" using assms by (auto simp: bm_ready_def)
  have "clist (set_next ?a None (set_prev ?a None (bm_links s))) boot_list xs"
    using l fresh by (simp add: bm_list_def clist_set_out)
  then show ?thesis
    using assms fresh by (auto simp: bootdev_alloc_def k_malloc_def malloc_def bm_ready_def bm_list_def flash_kept_def Let_def)
qed

lemma bootdev_add_ready:
  assumes "bm_list s xs" "bm_boot s a \<noteq> None" "k_dev (bm_k s) a \<noteq> None" "a \<notin> set (boot_list # xs)"
  obtains s' where "bootdev_add a s = Some s'" "bm_list s' (xs @ [a])" "bm_boot s' = bm_boot s" "flash_kept s s'"
    "k_next (bm_k s') = k_next (bm_k s)" "k_heap (bm_k s') = k_heap (bm_k s)"
proof -
  obtain s' where s': "bootdev_add a s = Some s'" "bm_list s' (xs @ [a])" using bootdev_add_list[OF assms] by blast
  then have "bm_boot s' = bm_boot s \<and> flash_kept s s' \<and> k_next (bm_k s') = k_next (bm_k s) \<and> k_heap (bm_k s') = k_heap (bm_k s)"
    by (auto simp: bootdev_add_def device_register_def flash_kept_def split: bind_splits)
  with s' that show thesis by blast
qed

text \<open>
  Creation: one step of the loops. \<open>wanted\<close> are the flash devices that get a boot device, with these
  files; all others are passed over.
\<close>

definition creates ::
    "(addr \<Rightarrow> ('h, boot_priv) bdm \<Rightarrow> (int \<times> ('h, boot_priv) bdm) option) \<Rightarrow> ('h, boot_priv) bdm \<Rightarrow>
     (addr \<Rightarrow> bool) \<Rightarrow> (addr \<Rightarrow> string \<Rightarrow> u8 list) \<Rightarrow> addr \<Rightarrow> bool" where
  "creates create s0 wanted files m \<longleftrightarrow>
     (\<forall>s xs. flash_kept s0 s \<and> bm_ready s xs \<longrightarrow>
        (if wanted m
         then \<exists>s' a. create m s = Some (0, s') \<and> flash_kept s s' \<and> bm_ready s' (xs @ [a]) \<and> flash_device s' a (files m) \<and> enabled s' a \<and>
           (\<forall>b. b \<noteq> a \<longrightarrow> bm_boot s' b = bm_boot s b) \<and> a \<notin> set xs
         else create m s = Some (err_int ENOENT, s)))"

lemma create_from_list:
  assumes "\<forall>m \<in> set ms. creates create s0 wanted files m" "flash_kept s0 s" "bm_ready s xs"
    "k_mtd_list (bm_k s0) = done_ms @ ms" "distinct (done_ms @ ms)"
  shows "\<exists>s' as. create_from create (first_in ms) 0 s = Some (0, s') \<and> flash_kept s s' \<and> bm_ready s' (xs @ as) \<and>
    list_all2 (\<lambda>m a. flash_device s' a (files m) \<and> enabled s' a) (filter wanted ms) as \<and> (\<forall>b \<in> set xs. bm_boot s' b = bm_boot s b)"
  using assms
proof (induction ms arbitrary: s xs done_ms)
  case Nil
  then show ?case by (intro exI[of _ s] exI[of _ "[]"]) (simp add: create_from.simps flash_kept_refl first_in_def)
next
  case (Cons m ms)
  have step: "creates create s0 wanted files m" using Cons.prems(1) by simp
  have nx: "mtd_next (bm_k s1) m = first_in ms" if "flash_kept s0 s1" for s1
    using that Cons.prems(4,5) by (simp add: mtd_next_def flash_kept_def next_in_append)
  have sub: "\<forall>m \<in> set ms. creates create s0 wanted files m" "k_mtd_list (bm_k s0) = (done_ms @ [m]) @ ms" "distinct ((done_ms @ [m]) @ ms)"
    using Cons.prems by simp_all
  show ?case
  proof (cases "wanted m")
    case True
    have "flash_kept s0 s \<and> bm_ready s xs" using Cons.prems(2,3) by blast
    with step have "if wanted m
         then \<exists>s' a. create m s = Some (0, s') \<and> flash_kept s s' \<and> bm_ready s' (xs @ [a]) \<and> flash_device s' a (files m) \<and> enabled s' a \<and>
           (\<forall>b. b \<noteq> a \<longrightarrow> bm_boot s' b = bm_boot s b) \<and> a \<notin> set xs
         else create m s = Some (err_int ENOENT, s)" unfolding creates_def by blast
    then obtain s1 a where s1: "create m s = Some (0, s1)" "flash_kept s s1" "bm_ready s1 (xs @ [a])"
      "flash_device s1 a (files m)" "enabled s1 a" "\<forall>b. b \<noteq> a \<longrightarrow> bm_boot s1 b = bm_boot s b" "a \<notin> set xs"
      unfolding if_P[OF True] by (elim exE conjE) (rule that)
    have k1: "flash_kept s0 s1" by (rule flash_kept_trans[OF Cons.prems(2) s1(2)])
    from Cons.IH[OF sub(1) k1 s1(3) sub(2,3)] obtain s' as where s': "create_from create (first_in ms) 0 s1 = Some (0, s')"
      "flash_kept s1 s'" "bm_ready s' ((xs @ [a]) @ as)" "list_all2 (\<lambda>m a. flash_device s' a (files m) \<and> enabled s' a) (filter wanted ms) as"
      "\<forall>b \<in> set (xs @ [a]). bm_boot s' b = bm_boot s1 b" by (elim exE conjE) (rule that)
    have "create_from create (first_in (m # ms)) 0 s = Some (0, s')"
      using s1(1) s'(1) nx[OF k1] by (subst create_from.simps) (simp add: first_in_def)
    moreover have "flash_device s' a (files m)" by (rule flash_device_kept[OF s'(2) _ s1(4)]) (use s'(5) in simp)
    moreover have "enabled s' a" using s1(5) s'(5) by (simp add: enabled_def)
    moreover have "\<forall>b \<in> set xs. bm_boot s' b = bm_boot s b" using s'(5) s1(6,7) by fastforce
    ultimately show ?thesis
      using True s'(3,4) flash_kept_trans[OF s1(2) s'(2)] by (intro exI[of _ s'] exI[of _ "a # as"]) simp
  next
    case False
    with step Cons.prems(2,3) have "create m s = Some (err_int ENOENT, s)" unfolding creates_def by auto
    then have "create_from create (first_in (m # ms)) 0 s = create_from create (first_in ms) 0 s"
      using nx[OF Cons.prems(2)] by (subst create_from.simps) (simp add: first_in_def)
    with Cons.IH[OF sub(1) Cons.prems(2,3) sub(2,3)] False show ?thesis by simp
  qed
qed

text \<open>The property of a flash device's node.\<close>

definition node_prop :: "(addr \<Rightarrow> string \<Rightarrow> u8 list option) \<Rightarrow> 'h kernel \<Rightarrow> string \<Rightarrow> addr \<Rightarrow> u8 list option" where
  "node_prop fdt k key m = do { mt \<leftarrow> k_mtd k m; hw \<leftarrow> mt_hwdev mt; fdt hw key }"

definition on_platform :: "'h kernel \<Rightarrow> addr \<Rightarrow> bool" where
  "on_platform k m \<longleftrightarrow> (\<exists>mt. k_mtd k m = Some mt \<and> mt_hwdev mt \<noteq> None)"

lemma child_name_kept:
  "flash_kept s (bm_kernel (device_set_child_name a m sys) s)"
  "k_next (bm_k (bm_kernel (device_set_child_name a m sys) s)) = k_next (bm_k s)"
  "k_heap (bm_k (bm_kernel (device_set_child_name a m sys) s)) = k_heap (bm_k s)"
  "bm_boot (bm_kernel (device_set_child_name a m sys) s) = bm_boot s"
  "(k_dev (bm_k (bm_kernel (device_set_child_name a m sys) s)) b \<noteq> None) = (k_dev (bm_k s) b \<noteq> None)"
  "bm_list (bm_kernel (device_set_child_name a m sys) s) xs = bm_list s xs"
  by (auto simp: bm_kernel_def device_set_child_name_def flash_kept_def bm_list_def split: option.splits)

lemma bm_upd_kept:
  "flash_kept s (bm_upd a f s)" "bm_k (bm_upd a f s) = bm_k s" "bm_list (bm_upd a f s) xs = bm_list s xs"
  "bm_boot (bm_upd a f s) b = (if b = a then map_option f (bm_boot s a) else bm_boot s b)"
  by (auto simp: bm_upd_def flash_kept_def bm_list_def)

text \<open>
  The common part of both \<open>create_bootdev\<close>: a device \<open>a\<close> that is allocated and filled in, and its addition
  to the list.
\<close>

definition filled :: "('h, 'd) bdm \<Rightarrow> addr list \<Rightarrow> addr \<Rightarrow> 'd bootdev \<Rightarrow> ('h, 'd) bdm \<Rightarrow> bool" where
  "filled s xs a b s3 \<longleftrightarrow> flash_kept s s3 \<and> bm_list s3 xs \<and> bm_boot s3 = (bm_boot s)(a \<mapsto> b) \<and>
     k_dev (bm_k s3) a \<noteq> None \<and> k_next (bm_k s3) = Suc a \<and> (\<forall>n. h_ok (k_heap (bm_k s3)) n)"

definition zero_boot :: "'d bootdev" where
  "zero_boot = \<lparr>bt_ops = None, bt_size = 0, bt_priority = 0, bt_disabled = 0, bt_data = None\<rparr>"

lemma filled_device:
  assumes "bm_ready s xs"
  obtains s1 k where "bootdev_alloc s = (Some (k_next (bm_k s)), s1)" "k_malloc (bm_k s1) = (True, k)"
    "filled s xs (k_next (bm_k s)) (f zero_boot)
      (bm_kernel (device_set_child_name (k_next (bm_k s)) m sys) (bm_upd (k_next (bm_k s)) f (s1\<lparr>bm_k := k\<rparr>)))"
proof -
  let ?a = "k_next (bm_k s)"
  obtain s1 where s1: "bootdev_alloc s = (Some ?a, s1)" "flash_kept s s1" "bm_list s1 xs" "bm_boot s1 = (bm_boot s)(?a \<mapsto> zero_boot)"
    "k_dev (bm_k s1) ?a \<noteq> None" "k_next (bm_k s1) = Suc ?a" "\<forall>n. h_ok (k_heap (bm_k s1)) n"
    using bootdev_alloc_ready[OF assms] unfolding zero_boot_def by blast
  obtain k where k: "k_malloc (bm_k s1) = (True, k)" "\<forall>n. h_ok (k_heap k) n"
    using s1(7) by (auto simp: k_malloc_def malloc_def)
  let ?s3 = "bm_kernel (device_set_child_name ?a m sys) (bm_upd ?a f (s1\<lparr>bm_k := k\<rparr>))"
  have k_eq: "k_mtd k = k_mtd (bm_k s1)" "k_mtd_ops k = k_mtd_ops (bm_k s1)" "k_mtd_list k = k_mtd_list (bm_k s1)"
    "k_next k = k_next (bm_k s1)" "k_dev k = k_dev (bm_k s1)" using s1(7) k(1) by (auto simp: k_malloc_def malloc_def)
  have kp: "flash_kept s (s1\<lparr>bm_k := k\<rparr>)" using s1(2) k_eq by (simp add: flash_kept_def)
  have "flash_kept s ?s3" by (rule flash_kept_trans[OF flash_kept_trans[OF kp bm_upd_kept(1)] child_name_kept(1)])
  moreover have "bm_list ?s3 xs" using s1(3) k_eq by (simp add: child_name_kept(6) bm_upd_kept(3)) (simp add: bm_list_def)
  moreover have "bm_boot ?s3 = (bm_boot s)(?a \<mapsto> f zero_boot)"
    by (rule ext) (simp add: child_name_kept(4) bm_upd_kept(4) s1(4))
  moreover have "k_dev (bm_k ?s3) ?a \<noteq> None" unfolding child_name_kept(5) using s1(5) k_eq by (simp add: bm_upd_kept(2))
  moreover have "k_next (bm_k ?s3) = Suc ?a" using s1(6) k_eq by (simp add: child_name_kept(2) bm_upd_kept(2))
  moreover have "\<forall>n. h_ok (k_heap (bm_k ?s3)) n" using k(2) by (simp add: child_name_kept(3) bm_upd_kept(2))
  ultimately have "filled s xs ?a (f zero_boot) ?s3" unfolding filled_def by blast
  with s1(1) k(1) show thesis by (rule that)
qed

lemma added_device:
  assumes "bm_ready s xs" "filled s xs (k_next (bm_k s)) b s3"
  obtains s' where "bootdev_add (k_next (bm_k s)) s3 = Some s'" "flash_kept s s'" "bm_ready s' (xs @ [k_next (bm_k s)])"
    "bm_boot s' = (bm_boot s)(k_next (bm_k s) \<mapsto> b)"
proof -
  let ?a = "k_next (bm_k s)"
  note f = assms(2)[unfolded filled_def]
  have fresh: "?a \<notin> set (boot_list # xs)" using assms(1) by (auto simp: bm_ready_def)
  have "bm_list s3 xs" "bm_boot s3 ?a \<noteq> None" "k_dev (bm_k s3) ?a \<noteq> None" using f by simp_all
  from bootdev_add_ready[OF this fresh] obtain s' where s': "bootdev_add ?a s3 = Some s'" "bm_list s' (xs @ [?a])"
    "bm_boot s' = bm_boot s3" "flash_kept s3 s'" "k_next (bm_k s') = k_next (bm_k s3)" "k_heap (bm_k s') = k_heap (bm_k s3)" .
  have "bm_ready s' (xs @ [?a])"
    using assms(1) f s'(2,3,5,6) by (auto simp: bm_ready_def)
  moreover have "flash_kept s s'" using flash_kept_trans[OF _ s'(4)] f by blast
  ultimately show thesis using that[OF s'(1)] s'(3) f by simp
qed

text \<open>Files of the partition tables: \<open>n\<close> bounds the number of records.\<close>

definition boot_files :: "nat \<Rightarrow> (addr \<Rightarrow> string \<Rightarrow> u8 list option) \<Rightarrow> 'h kernel \<Rightarrow> (addr \<Rightarrow> u8 list) \<Rightarrow> addr \<Rightarrow> string \<Rightarrow> u8 list" where
  "boot_files n fdt k imgs m = table_files n (unat (fdt64_to_cpu (the (node_prop fdt k ''sophgo-boot'' m)))) (imgs m)"

lemma sgmtd_creates:
  assumes "on_platform (bm_k s0) m" "mtd_image (bm_k s0) m (imgs m)"
    "\<And>pr. node_prop fdt (bm_k s0) ''sophgo-boot'' m = Some pr \<Longrightarrow>
      8 \<le> length pr \<and> table_ok n (unat (fdt64_to_cpu pr)) (imgs m)"
  shows "creates (sgmtd_create_bootdev fdt) s0 (\<lambda>m. node_prop fdt (bm_k s0) ''sophgo-boot'' m \<noteq> None) (boot_files n fdt (bm_k s0) imgs) m"
  unfolding creates_def
proof (intro allI impI)
  fix s xs assume a: "flash_kept s0 s \<and> bm_ready s xs"
  then have kept: "flash_kept s0 s" and rdy: "bm_ready s xs" by blast+
  obtain mt hw where mt: "k_mtd (bm_k s) m = Some mt" "mt_hwdev mt = Some hw"
    using assms(1) kept by (auto simp: on_platform_def flash_kept_def)
  have np: "node_prop fdt (bm_k s0) ''sophgo-boot'' m = fdt hw ''sophgo-boot''"
    using mt kept by (simp add: node_prop_def flash_kept_def)
  let ?goal = "if fdt hw ''sophgo-boot'' \<noteq> None
    then \<exists>s' a. sgmtd_create_bootdev fdt m s = Some (0, s') \<and> flash_kept s s' \<and> bm_ready s' (xs @ [a]) \<and>
      flash_device s' a (boot_files n fdt (bm_k s0) imgs m) \<and> enabled s' a \<and> (\<forall>b. b \<noteq> a \<longrightarrow> bm_boot s' b = bm_boot s b) \<and> a \<notin> set xs
    else sgmtd_create_bootdev fdt m s = Some (err_int ENOENT, s)"
  have ?goal
  proof (cases "fdt hw ''sophgo-boot''")
    case None
    then show ?thesis by (simp add: sgmtd_create_bootdev_def mt)
  next
    case (Some pr)
    let ?a = "k_next (bm_k s)"
    have pr: "8 \<le> length pr" "table_ok n (unat (fdt64_to_cpu pr)) (imgs m)" using assms(3) np Some by simp_all
    let ?b0 = zero_boot
    let ?sg = "\<lparr>sm_mtd = m, sm_offset = fdt64_to_cpu pr\<rparr>"
    let ?f = "\<lambda>b. b\<lparr>bt_data := Some (B_sgmtd ?sg), bt_size := mt_total_size mt, bt_ops := Some OPS_SGMTD\<rparr>"
    obtain s1 k where s1: "bootdev_alloc s = (Some ?a, s1)" "k_malloc (bm_k s1) = (True, k)"
      "filled s xs ?a (?f ?b0) (bm_kernel (device_set_child_name ?a m ''boot'') (bm_upd ?a ?f (s1\<lparr>bm_k := k\<rparr>)))"
      by (rule filled_device[OF rdy])
    obtain s' where s': "bootdev_add ?a (bm_kernel (device_set_child_name ?a m ''boot'') (bm_upd ?a ?f (s1\<lparr>bm_k := k\<rparr>))) = Some s'"
      "flash_kept s s'" "bm_ready s' (xs @ [?a])" "bm_boot s' = (bm_boot s)(?a \<mapsto> ?f ?b0)"
      by (rule added_device[OF rdy s1(3)])
    have "sgmtd_create_bootdev fdt m s = Some (0, s')"
      using pr(1) s'(1) by (simp add: sgmtd_create_bootdev_def mt Some s1(1,2) Let_def)
    moreover have "mtd_image (bm_k s') m (imgs m)"
      using assms(2) mtd_image_kept[OF flash_kept_trans[OF kept s'(2)]] by simp
    then have "flash_device s' ?a (boot_files n fdt (bm_k s0) imgs m)"
      using s'(4) pr(2) by (auto simp: flash_device_def sgmtd_has_def boot_files_def np Some)
    moreover have "?a \<notin> set xs" using rdy by (auto simp: bm_ready_def)
    moreover have "enabled s' ?a" using s'(4) by (simp add: enabled_def zero_boot_def)
    ultimately show ?thesis using Some s'(2-4) by auto
  qed
  then show "if node_prop fdt (bm_k s0) ''sophgo-boot'' m \<noteq> None
    then \<exists>s' a. sgmtd_create_bootdev fdt m s = Some (0, s') \<and> flash_kept s s' \<and> bm_ready s' (xs @ [a]) \<and>
      flash_device s' a (boot_files n fdt (bm_k s0) imgs m) \<and> enabled s' a \<and> (\<forall>b. b \<noteq> a \<longrightarrow> bm_boot s' b = bm_boot s b) \<and> a \<notin> set xs
    else sgmtd_create_bootdev fdt m s = Some (err_int ENOENT, s)" unfolding np .
qed

subsection \<open>From the flash chips to a file in memory\<close>

lemma find_filter: "List.find P (filter Q xs) = List.find (\<lambda>x. Q x \<and> P x) xs"
  by (induction xs) auto

lemma find_all2:
  assumes "list_all2 (\<lambda>m a. P m = Q a) ms as"
  shows "case List.find P ms of
      None \<Rightarrow> List.find Q as = None
    | Some m \<Rightarrow> \<exists>i < length ms. m = ms ! i \<and> List.find Q as = Some (as ! i)"
  using assms
proof (induction rule: list_all2_induct)
  case (Cons m ms a as)
  show ?case
  proof (cases "P m")
    case True
    then show ?thesis using Cons.hyps(1) by (auto intro: exI[of _ 0])
  next
    case False
    then show ?thesis using Cons.hyps(1) Cons.IH by (auto split: option.splits intro: exI[of _ "Suc _"])
  qed
qed simp

lemma bdm_load_all2:
  assumes "list_all2 (\<lambda>m a. serves s f a (F m) \<and> enabled s a) ms as" "bm_list s as"
  shows "\<exists>r s2. bdm_load f buf s = Some (r, s2) \<and>
    (case List.find (\<lambda>m. F m \<noteq> []) ms of
       None \<Rightarrow> r = - errno_val EIO
     | Some m \<Rightarrow> r = int (length (F m)) \<and> (\<exists>m0. bm_mem s2 = place buf (F m) m0))"
proof -
  have len: "length as = length ms" using assms(1) by (simp add: list_all2_lengthD)
  have dist: "distinct as" using assms(2) by (auto simp: bm_list_def clist_def)
  define c where "c a = (case map_of (zip as ms) a of Some m \<Rightarrow> F m | None \<Rightarrow> [])" for a
  have c: "c (as ! i) = F (ms ! i)" if "i < length ms" for i
    using map_of_zip_nth[of as ms i] len dist that by (simp add: c_def)
  have sv: "serves s f (as ! i) (c (as ! i))" "enabled s (as ! i)" if "i < length ms" for i
    using list_all2_nthD[OF assms(1) that] c[OF that] by simp_all
  then have all: "\<forall>a \<in> set as. serves s f a (c a)" using len by (metis in_set_conv_nth)
  have "list_all2 (\<lambda>m a. (F m \<noteq> []) = (enabled s a \<and> c a \<noteq> [])) ms as"
    using c sv len by (simp add: list_all2_conv_all_nth)
  note f = find_all2[OF this]
  obtain r h m fl where run: "bdm_load f buf s = Some (r, io h m fl s)"
    "case source s c as of
       None \<Rightarrow> r = - errno_val EIO \<and> fl = bm_flushed s
     | Some a \<Rightarrow> r = int (length (c a)) \<and> (\<exists>m0. m = place buf (c a) m0) \<and> fl = bm_flushed s @ [(buf, buf + of_int r)]"
    using bdm_load_from_list[of s "[]" as f c buf] all assms(2) by (auto simp: bdm_load_def bootdev_first_list[OF assms(2)])
  show ?thesis
  proof (cases "List.find (\<lambda>m. F m \<noteq> []) ms")
    case None
    with f run show ?thesis by (auto simp: source_def)
  next
    case (Some x)
    with f obtain i where i: "i < length ms" "x = ms ! i" "source s c as = Some (as ! i)" by (auto simp: source_def)
    with Some run c[OF i(1)] show ?thesis by auto
  qed
qed

lemma boot_from_created:
  assumes "\<forall>m \<in> set (k_mtd_list (bm_k s)). creates create s w F m" "bm_ready s []" "flash_drivers s"
    "distinct (k_mtd_list (bm_k s))" "0 \<notin> set (bytes f)"
  shows "\<exists>s' r s2. create_from create (mtd_first (bm_k s)) 0 s = Some (0, s') \<and> bdm_load f buf s' = Some (r, s2) \<and>
    (case List.find (\<lambda>m. w m \<and> F m f \<noteq> []) (k_mtd_list (bm_k s)) of
       None \<Rightarrow> r = - errno_val EIO
     | Some m \<Rightarrow> r = int (length (F m f)) \<and> (\<exists>m0. bm_mem s2 = place buf (F m f) m0))"
proof -
  let ?ms = "k_mtd_list (bm_k s)"
  from create_from_list[OF assms(1) flash_kept_refl assms(2), of "[]"] assms(4) obtain s' as where s':
    "create_from create (mtd_first (bm_k s)) 0 s = Some (0, s')" "flash_kept s s'" "bm_ready s' as"
    "list_all2 (\<lambda>m a. flash_device s' a (F m) \<and> enabled s' a) (filter w ?ms) as"
    by (auto simp: mtd_first_def)
  have drv: "flash_drivers s'" using assms(3) s'(2) by (simp add: flash_drivers_def flash_kept_def)
  have "list_all2 (\<lambda>m a. serves s' f a (F m f) \<and> enabled s' a) (filter w ?ms) as"
    using s'(4) by (rule list_all2_mono) (use flash_device_serves[OF drv _ assms(5)] in blast)
  from bdm_load_all2[OF this, of buf] s'(3) obtain r s2 where "bdm_load f buf s' = Some (r, s2)"
    "case List.find (\<lambda>m. F m f \<noteq> []) (filter w ?ms) of
       None \<Rightarrow> r = - errno_val EIO
     | Some m \<Rightarrow> r = int (length (F m f)) \<and> (\<exists>m0. bm_mem s2 = place buf (F m f) m0)"
    unfolding bm_ready_def by blast
  moreover have "List.find (\<lambda>m. F m f \<noteq> []) (filter w ?ms) = List.find (\<lambda>m. w m \<and> F m f \<noteq> []) ?ms"
    by (rule find_filter)
  ultimately show ?thesis using s'(1) by (intro exI[of _ s'] exI[of _ r] exI[of _ s2]) simp
qed

text \<open>
  C36: Booting from flash. Let every flash chip be a platform device with fixed content; those whose node has
  the property \<open>sophgo-boot\<close> have there a partition table that ends, with names that end and files that
  lie in the chip. With memory, \<open>sgmtd_init\<close> succeeds, and \<open>bdm_load\<close> then finds a file exactly if one of
  these tables has it: it stores the contents that the first record of that name on the first such chip
  gives, and returns their length.
\<close>
theorem flash_boot:
  assumes "bm_ready s []" "flash_drivers s" "distinct (k_mtd_list (bm_k s))" "0 \<notin> set (bytes f)"
    "\<forall>m \<in> set (k_mtd_list (bm_k s)). on_platform (bm_k s) m \<and> mtd_image (bm_k s) m (imgs m) \<and>
      (\<forall>pr. node_prop fdt (bm_k s) ''sophgo-boot'' m = Some pr \<longrightarrow> 8 \<le> length pr \<and> table_ok n (unat (fdt64_to_cpu pr)) (imgs m))"
  shows "\<exists>s' r s2. sgmtd_init fdt s = Some (0, s') \<and> bdm_load f buf s' = Some (r, s2) \<and>
    (case List.find (\<lambda>m. node_prop fdt (bm_k s) ''sophgo-boot'' m \<noteq> None \<and> boot_files n fdt (bm_k s) imgs m f \<noteq> [])
            (k_mtd_list (bm_k s)) of
       None \<Rightarrow> r = - errno_val EIO
     | Some m \<Rightarrow> r = int (length (boot_files n fdt (bm_k s) imgs m f)) \<and>
         (\<exists>m0. bm_mem s2 = place buf (boot_files n fdt (bm_k s) imgs m f) m0))"
proof -
  let ?ms = "k_mtd_list (bm_k s)" and ?F = "boot_files n fdt (bm_k s) imgs"
  let ?w = "\<lambda>m. node_prop fdt (bm_k s) ''sophgo-boot'' m \<noteq> None"
  have "\<forall>m \<in> set ?ms. creates (sgmtd_create_bootdev fdt) s ?w ?F m"
  proof
    fix m assume "m \<in> set ?ms"
    with assms(5) have "on_platform (bm_k s) m" "mtd_image (bm_k s) m (imgs m)"
      "\<And>pr. node_prop fdt (bm_k s) ''sophgo-boot'' m = Some pr \<Longrightarrow> 8 \<le> length pr \<and> table_ok n (unat (fdt64_to_cpu pr)) (imgs m)"
      by blast+
    then show "creates (sgmtd_create_bootdev fdt) s ?w ?F m" by (rule sgmtd_creates)
  qed
  from boot_from_created[OF this assms(1-4)] show ?thesis unfolding sgmtd_init_def .
qed

text \<open>A chip with a table of one record at 0 and the file \<open>kernel\<close> of three bytes behind it.\<close>

definition demo_record :: "u8 list" where
  "demo_record = [0xaa, 0x55, 0xaa, 0x55, 107, 101, 114, 110, 101, 108, 0, 0, 0, 0, 0, 0, 0, 0, 0, 0, 0, 0, 0, 0, 0, 0, 0, 0, 0, 0, 0, 0, 0, 0, 0, 0,
     112, 0, 0, 0, 3, 0, 0, 0, 0, 0, 0, 0, 0, 0, 0, 0, 0, 0, 0, 0]"

definition demo_chip :: "u8 list" where
  "demo_chip = demo_record @ replicate 56 0xff @ [7, 8, 9]"

definition demo_flash :: "(unit, boot_priv) bdm" where
  "demo_flash = \<lparr>
     bm_k = \<lparr>k_heap = heap_init, k_next = 3,
       k_dev = [2 \<mapsto> \<lparr>d_name = ''flash0'', d_alias = ''flash0'', d_status = DEVICE_STATUS_OK\<rparr>],
       k_global = [2], k_blk = Map.empty, k_blk_list = [], k_blk_count = 0,
       k_mtd = [2 \<mapsto> \<lparr>mt_ops = Some 0, mt_hwdev = Some 1, mt_block_size = 64, mt_total_size = 128, mt_data = None\<rparr>], k_mtd_list = [2],
       k_mtd_count = 1, k_nvmem = Map.empty, k_nvmem_list = [], k_nvmem_count = 0, k_serial = Map.empty,
       k_serial_list = [], k_serial_count = 0, k_serial_stdio = None, k_blk_ops = \<lambda>_. \<lparr>io_read = None, io_write = None\<rparr>,
       k_mtd_ops = \<lambda>_. \<lparr>io_read = Some (\<lambda>data off len h. (Inr (take (unat len) (drop (unat off) demo_chip)), h)), io_write = None\<rparr>,
       k_nvmem_ops = \<lambda>_. \<lparr>io_read = None, io_write = None\<rparr>,
       k_serial_ops = \<lambda>_. \<lparr>sio_input = None, sio_output = None, sio_set_speed = None\<rparr>, k_hw = ()\<rparr>,
     bm_links = \<lparr>l_next = [0 \<mapsto> 0], l_prev = [0 \<mapsto> 0]\<rparr>,
     bm_boot = Map.empty, bm_ops = (\<lambda>i. if i = OPS_SGMTD then sgmtd_ops else sgcfg_ops),
     bm_mem = \<lambda>_. 0, bm_flushed = []\<rparr>"

definition demo_fdt :: "addr \<Rightarrow> string \<Rightarrow> u8 list option" where
  "demo_fdt hw key = (if hw = 1 \<and> key = ''sophgo-boot'' then Some (replicate 8 0) else None)"

lemma boot_record_info:
  "part_info_of demo_record = \<lparr>pi_magic = DPT_MAGIC, pi_name = [107, 101, 114, 110, 101, 108] @ replicate 26 0,
     pi_offset = 112, pi_size = 3, pi_reserve = replicate 4 0, pi_lma = 0\<rparr>"
  by (simp add: demo_record_def part_info_of_def le32_def le64_def DPT_MAGIC_def) (simp add: numeral_eq_Suc)

lemma boot_chip_table: "table_of (Suc (Suc 0)) demo_chip = [part_info_of demo_record]"
proof -
  have len: "length demo_record = PART_INFO_SIZE" by (simp add: demo_record_def PART_INFO_SIZE_def)
  have "table_of (Suc 0) (replicate 56 0xff @ [7, 8, 9]) = []"
  proof -
    have "replicate 4 (0xff :: u8) = [0xff, 0xff, 0xff, 0xff]" by (simp add: eval_nat_numeral)
    then show ?thesis by (simp add: PART_INFO_SIZE_def part_info_of_def le32_def DPT_MAGIC_def)
  qed
  then show ?thesis using len by (simp add: demo_chip_def boot_record_info del: table_of.simps(2)) (subst table_of.simps(2), simp add: boot_record_info)
qed

theorem flash_boot_witness:
  "\<exists>s' s2 m0. sgmtd_init demo_fdt demo_flash = Some (0, s') \<and> bdm_load ''kernel'' 16 s' = Some (3, s2) \<and>
    bm_mem s2 = place 16 [7, 8, 9] m0"
proof -
  let ?k = "bm_k demo_flash" and ?imgs = "\<lambda>_. demo_chip"
  have prop0: "node_prop demo_fdt ?k ''sophgo-boot'' 2 = Some (replicate 8 0)"
    by (simp add: node_prop_def demo_flash_def demo_fdt_def)
  have off: "unat (fdt64_to_cpu (replicate 8 0)) = 0" by (simp add: fdt64_to_cpu_def numeral_eq_Suc)
  have tab: "table_of 1 (drop 0 demo_chip) = [part_info_of demo_record]"
    using boot_chip_table by (simp split: if_splits)
  have len: "length demo_record = 56" by (simp add: demo_record_def)
  have name: "c_string (pi_name (part_info_of demo_record)) = ''kernel''"
    unfolding c_string_bytes by (simp add: boot_record_info bytes_def)
  have contents: "boot_files 1 demo_fdt ?k ?imgs 2 ''kernel'' = [7, 8, 9]"
    unfolding boot_files_def prop0 option.sel off table_files_def tab
    using name len by (simp add: boot_record_info demo_chip_def)
  have "mtd_image ?k 2 demo_chip" by (simp add: mtd_image_iff demo_flash_def)
  moreover have "table_ok 1 0 demo_chip"
    using boot_chip_table tab len by (simp add: table_ok_def PART_INFO_SIZE_def boot_record_info demo_chip_def del: table_of.simps)
  ultimately have chips: "\<forall>m \<in> set (k_mtd_list ?k). on_platform ?k m \<and> mtd_image ?k m (?imgs m) \<and>
      (\<forall>pr. node_prop demo_fdt ?k ''sophgo-boot'' m = Some pr \<longrightarrow> 8 \<le> length pr \<and> table_ok 1 (unat (fdt64_to_cpu pr)) (?imgs m))"
    using prop0 off by (simp add: demo_flash_def on_platform_def)
  have "bm_ready demo_flash []"
    by (simp add: bm_ready_def demo_flash_def bm_list_def clist_def boot_list_def heap_init_def)
  moreover have "flash_drivers demo_flash" by (simp add: flash_drivers_def demo_flash_def OPS_SGMTD_def OPS_SGCFG_def)
  moreover have "distinct (k_mtd_list ?k)" "k_mtd_list ?k = [2]" by (simp_all add: demo_flash_def)
  moreover have "0 \<notin> set (bytes ''kernel'')" by (simp add: bytes_def)
  ultimately show ?thesis
    using flash_boot[of demo_flash "''kernel''" ?imgs demo_fdt 1 16] chips contents prop0 by fastforce
qed

subsection \<open>The configuration chip\<close>

definition cfg_of :: "u8 list \<Rightarrow> u8 list" where
  "cfg_of img = take (SGCFG_SIZE_MAX - 1) img @ [0]"

lemma find_sub_bound: "find_sub ne hs = Some i \<Longrightarrow> i + length ne \<le> length hs"
proof (induction hs arbitrary: i)
  case Nil
  then show ?case by (simp add: find_sub.simps split: if_splits)
next
  case (Cons h hs)
  show ?case
  proof (cases "take (length ne) (h # hs) = ne")
    case True
    then have "length ne \<le> length (h # hs)" by (metis length_take min.cobounded1)
    with Cons.prems True show ?thesis by (simp add: find_sub.simps[of ne "h # hs"])
  next
    case False
    with Cons show ?thesis by (auto simp: find_sub.simps[of ne "h # hs"])
  qed
qed

lemma cfg_size_bound: "length cfg < 2 ^ 64 \<Longrightarrow> unat (cfg_size cfg) \<le> length cfg"
proof -
  assume len: "length cfg < 2 ^ 64"
  let ?str = "takeWhile (\<lambda>b. b \<noteq> 0) cfg"
  have "unat (of_nat (i + length cfg_tail) :: u64) \<le> length cfg" if "find_sub cfg_tail ?str = Some i" for i
  proof -
    have "i + length cfg_tail \<le> length cfg" using find_sub_bound[OF that] length_takeWhile_le[of "\<lambda>b. b \<noteq> 0" cfg] by linarith
    then show ?thesis using len by (simp add: unsigned_of_nat take_bit_nat_eq_self del: of_nat_add)
  qed
  then show ?thesis by (auto simp: cfg_size_def Let_def simp del: of_nat_add split: option.split)
qed

lemma sgcfg_creates:
  assumes "on_platform (bm_k s0) m" "mtd_image (bm_k s0) m (imgs m)"
    "node_prop fdt (bm_k s0) ''sophgo-config'' m \<noteq> None \<Longrightarrow> SGCFG_SIZE_MAX - 1 \<le> length (imgs m)"
  shows "creates (sgcfg_create_bootdev fdt) s0 (\<lambda>m. node_prop fdt (bm_k s0) ''sophgo-config'' m \<noteq> None)
    (\<lambda>m. cfg_files (cfg_of (imgs m)) (cfg_size (cfg_of (imgs m)))) m"
  unfolding creates_def
proof (intro allI impI)
  let ?files = "cfg_files (cfg_of (imgs m)) (cfg_size (cfg_of (imgs m)))"
  fix s xs assume a: "flash_kept s0 s \<and> bm_ready s xs"
  then have kept: "flash_kept s0 s" and rdy: "bm_ready s xs" by blast+
  obtain mt hw where mt: "k_mtd (bm_k s) m = Some mt" "mt_hwdev mt = Some hw"
    using assms(1) kept by (auto simp: on_platform_def flash_kept_def)
  have np: "node_prop fdt (bm_k s0) ''sophgo-config'' m = fdt hw ''sophgo-config''"
    using mt kept by (simp add: node_prop_def flash_kept_def)
  have "if fdt hw ''sophgo-config'' \<noteq> None
    then \<exists>s' a. sgcfg_create_bootdev fdt m s = Some (0, s') \<and> flash_kept s s' \<and> bm_ready s' (xs @ [a]) \<and>
      flash_device s' a ?files \<and> enabled s' a \<and> (\<forall>b. b \<noteq> a \<longrightarrow> bm_boot s' b = bm_boot s b) \<and> a \<notin> set xs
    else sgcfg_create_bootdev fdt m s = Some (err_int ENOENT, s)"
  proof (cases "fdt hw ''sophgo-config''")
    case None
    then show ?thesis by (simp add: sgcfg_create_bootdev_def mt)
  next
    case (Some pr)
    let ?a = "k_next (bm_k s)" and ?img = "imgs m"
    have len: "length (take (SGCFG_SIZE_MAX - 1) ?img) = SGCFG_SIZE_MAX - 1" using assms(3) np Some by simp
    let ?f = "\<lambda>b. b\<lparr>bt_size := mt_total_size mt, bt_ops := Some OPS_SGCFG\<rparr>"
    let ?cfg = "cfg_of ?img"
    let ?sg = "\<lparr>sc_mtd = m, sc_cfg = ?cfg, sc_size = cfg_size ?cfg\<rparr>"
    let ?g = "\<lambda>b. b\<lparr>bt_data := Some (B_sgcfg ?sg)\<rparr>"
    obtain s1 k where s1: "bootdev_alloc s = (Some ?a, s1)" "k_malloc (bm_k s1) = (True, k)"
      "filled s xs ?a (?f zero_boot) (bm_kernel (device_set_child_name ?a m ''boot'') (bm_upd ?a ?f (s1\<lparr>bm_k := k\<rparr>)))"
      by (rule filled_device[OF rdy])
    let ?s3 = "bm_kernel (device_set_child_name ?a m ''boot'') (bm_upd ?a ?f (s1\<lparr>bm_k := k\<rparr>))"
    have "mtd_image (bm_k ?s3) m ?img"
      using assms(2) mtd_image_kept[OF flash_kept_trans[OF kept]] s1(3)[unfolded filled_def] by blast
    moreover have "unat (0 :: u64) = 0" "unat (of_nat (SGCFG_SIZE_MAX - 1) :: u64) = SGCFG_SIZE_MAX - 1"
      by (simp_all add: SGCFG_SIZE_MAX_def)
    ultimately obtain h where rd: "mtd_read m 0 (of_nat (SGCFG_SIZE_MAX - 1)) (bm_k ?s3) =
        Some (Inr (take (SGCFG_SIZE_MAX - 1) ?img), set_hw h (bm_k ?s3))"
      using mtd_image_read[of "bm_k ?s3" m ?img 0 "of_nat (SGCFG_SIZE_MAX - 1)"] by (metis drop0)
    let ?s5 = "bm_upd ?a ?g (?s3\<lparr>bm_k := set_hw h (bm_k ?s3)\<rparr>)"
    have "filled s xs ?a (?g (?f zero_boot)) ?s5"
      using s1(3) unfolding filled_def flash_kept_def bm_list_def bm_upd_kept(2)
      by (auto simp: bm_upd_def set_hw_def)
    then obtain s' where s': "bootdev_add ?a ?s5 = Some s'"
      "flash_kept s s'" "bm_ready s' (xs @ [?a])" "bm_boot s' = (bm_boot s)(?a \<mapsto> ?g (?f zero_boot))"
      by (rule added_device[OF rdy])
    have "sgcfg_create_bootdev fdt m s = Some (0, s')"
      using s'(1) len by (simp add: sgcfg_create_bootdev_def mt Some s1(1,2) rd[simplified] Let_def cfg_of_def)
    moreover have "unat (cfg_size ?cfg) \<le> length ?cfg" by (rule cfg_size_bound) (simp add: cfg_of_def SGCFG_SIZE_MAX_def)
    then have "flash_device s' ?a ?files"
      using s'(4) by (auto simp: flash_device_def sgcfg_has_def)
    moreover have "?a \<notin> set xs" using rdy by (auto simp: bm_ready_def)
    moreover have "enabled s' ?a" using s'(4) by (simp add: enabled_def zero_boot_def)
    ultimately show ?thesis using Some s'(2-4) by auto
  qed
  then show "if node_prop fdt (bm_k s0) ''sophgo-config'' m \<noteq> None
    then \<exists>s' a. sgcfg_create_bootdev fdt m s = Some (0, s') \<and> flash_kept s s' \<and> bm_ready s' (xs @ [a]) \<and>
      flash_device s' a ?files \<and> enabled s' a \<and> (\<forall>b. b \<noteq> a \<longrightarrow> bm_boot s' b = bm_boot s b) \<and> a \<notin> set xs
    else sgcfg_create_bootdev fdt m s = Some (err_int ENOENT, s)" unfolding np .
qed

text \<open>\<open>find_sub\<close> gives the first place.\<close>

lemma find_sub_least:
  "find_sub ne hs = Some i \<longleftrightarrow> take (length ne) (drop i hs) = ne \<and> i \<le> length hs \<and> (\<forall>j < i. take (length ne) (drop j hs) \<noteq> ne)"
proof (induction hs arbitrary: i)
  case Nil
  then show ?case by (auto simp: find_sub.simps[of ne "[]"])
next
  case (Cons h hs)
  show ?case
  proof (cases "take (length ne) (h # hs) = ne")
    case True
    then show ?thesis by (auto simp: find_sub.simps[of ne "h # hs"] intro: gr0I)
  next
    case False
    then show ?thesis
    proof (cases i)
      case (Suc k)
      have "(\<forall>j < Suc k. take (length ne) (drop j (h # hs)) \<noteq> ne) \<longleftrightarrow> (\<forall>j < k. take (length ne) (drop j hs) \<noteq> ne)"
        using False by (auto simp: less_Suc_eq_0_disj)
      then show ?thesis using False Cons.IH[of k] Suc by (simp add: find_sub.simps[of ne "h # hs"])
    qed (simp add: find_sub.simps[of ne "h # hs"])
  qed
qed

lemma find_sub_none: "find_sub ne hs = None \<longleftrightarrow> (\<forall>b r. hs \<noteq> b @ ne @ r)"
proof -
  have "find_sub ne hs = None \<longleftrightarrow> (\<forall>b r. hs \<noteq> b @ ne @ r)"
  proof (induction hs)
    case Nil
    then show ?case by (simp add: find_sub.simps[of ne "[]"])
  next
    case (Cons h hs)
    have "(\<forall>b r. h # hs \<noteq> b @ ne @ r) \<longleftrightarrow> (\<forall>r. h # hs \<noteq> ne @ r) \<and> (\<forall>b r. hs \<noteq> b @ ne @ r)"
      by (metis append_Cons append_Nil list.exhaust list.inject)
    moreover have "(\<forall>r. h # hs \<noteq> ne @ r) \<longleftrightarrow> take (length ne) (h # hs) \<noteq> ne"
      by (metis append_eq_conv_conj append_take_drop_id)
    ultimately show ?case using Cons.IH by (simp add: find_sub.simps[of ne "h # hs"])
  qed
  then show ?thesis .
qed

text \<open>
  The configuration file of a chip with content \<open>img\<close>, as the format has it: from the header at the start to
  the end of the first end mark, before any NUL; nothing if one of them is missing.
\<close>

definition config_is :: "u8 list \<Rightarrow> u8 list \<Rightarrow> bool" where
  "config_is img t \<longleftrightarrow>
     (let str = takeWhile (\<lambda>b. b \<noteq> 0) (take (SGCFG_SIZE_MAX - 1) img)
      in if \<exists>b r. str = cfg_header @ b @ cfg_tail @ r
         then \<exists>b r. t = cfg_header @ b @ cfg_tail \<and> str = t @ r \<and> (\<forall>b' r'. str = b' @ cfg_tail @ r' \<longrightarrow> length cfg_header + length b \<le> length b')
         else t = [])"

lemma cfg_lengths: "length cfg_header = 15" "length cfg_tail = 5"
  by (simp_all add: cfg_header_def cfg_tail_def bytes_def)

text \<open>An end mark cannot begin in the header.\<close>

lemma tail_not_in_header:
  assumes "cfg_header @ x = b @ cfg_tail @ r"
  shows "length cfg_header \<le> length b"
proof (rule ccontr)
  assume "\<not> ?thesis"
  then have l: "length b < 15" by (simp add: cfg_lengths)
  have at: "(cfg_header @ x) ! (length b + j) = cfg_tail ! j" if "j < 5" for j
    using that unfolding assms by (simp add: nth_append cfg_lengths)
  have "cfg_header ! length b = cfg_tail ! 0" using at[of 0] l by (simp add: nth_append cfg_lengths)
  moreover have "cfg_tail ! 0 \<notin> set (drop 1 cfg_header)" by (simp add: cfg_header_def cfg_tail_def bytes_def)
  moreover have "cfg_header ! length b \<in> set (drop 1 cfg_header)" if "length b \<noteq> 0"
    using nth_mem[of "length b - 1" "drop 1 cfg_header"] that l by (simp add: cfg_lengths)
  ultimately have "length b = 0" by metis
  moreover from this have "cfg_header ! 1 = cfg_tail ! 1" using at[of 1] by (simp add: nth_append cfg_lengths)
  ultimately show False by (simp add: cfg_header_def cfg_tail_def bytes_def)
qed

lemma cfg_size_file:
  assumes "config_is img t" "SGCFG_SIZE_MAX - 1 \<le> length img"
  shows "cfg_files (cfg_of img) (cfg_size (cfg_of img)) f = (if f = conf_ini then t else [])"
proof -
  let ?buf = "take (SGCFG_SIZE_MAX - 1) img"
  let ?str = "takeWhile (\<lambda>b. b \<noteq> 0) ?buf"
  have str: "takeWhile (\<lambda>b. b \<noteq> 0) (cfg_of img) = ?str"
    unfolding cfg_of_def by (simp add: takeWhile_append takeWhile_eq_all_conv[THEN iffD2])
  have pre: "take (length ?str) (cfg_of img) = ?str" using takeWhile_eq_take str by metis
  have lstr: "length ?str < 2 ^ 64"
    using length_takeWhile_le[of "\<lambda>b. b \<noteq> 0" ?buf] by (simp add: SGCFG_SIZE_MAX_def)
  show ?thesis
  proof (cases "\<exists>b r. ?str = cfg_header @ b @ cfg_tail @ r")
    case True
    with assms(1) obtain b r where t: "t = cfg_header @ b @ cfg_tail" "?str = t @ r"
      "\<And>b' r'. ?str = b' @ cfg_tail @ r' \<Longrightarrow> length cfg_header + length b \<le> length b'"
      unfolding config_is_def Let_def if_P[OF True] by blast
    let ?i = "length cfg_header + length b"
    have "find_sub cfg_tail ?str = Some ?i"
      unfolding find_sub_least
    proof (intro conjI allI impI)
      show "take (length cfg_tail) (drop ?i ?str) = cfg_tail" unfolding t(1,2) by simp
      show "?i \<le> length ?str" unfolding t(1,2) by simp
      fix j assume "j < ?i"
      show "take (length cfg_tail) (drop j ?str) \<noteq> cfg_tail"
      proof
        assume "take (length cfg_tail) (drop j ?str) = cfg_tail"
        then have "?str = take j ?str @ cfg_tail @ drop (length cfg_tail) (drop j ?str)" by (metis append_take_drop_id)
        from t(3)[OF this] \<open>j < ?i\<close> show False by simp
      qed
    qed
    moreover have "take (length cfg_header) ?str = cfg_header" unfolding t(1,2) by simp
    ultimately have sz: "cfg_size (cfg_of img) = of_nat (length t)" unfolding cfg_size_def str t(1) by (simp add: Let_def add.assoc)
    have lt: "length t \<le> length ?str" unfolding t(2) by simp
    then have "unat (cfg_size (cfg_of img)) = length t" using lstr unfolding sz by (simp add: unsigned_of_nat take_bit_nat_eq_self)
    moreover have "take (length t) (cfg_of img) = t"
    proof -
      have "take (length t) (cfg_of img) = take (length t) (take (length ?str) (cfg_of img))" using lt by (simp add: min_absorb1)
      also have "\<dots> = t" unfolding pre by (subst t(2)) simp
      finally show ?thesis .
    qed
    ultimately show ?thesis by (simp add: cfg_files_def)
  next
    case False
    then have t: "t = []" using assms(1) unfolding config_is_def Let_def by (subst (asm) if_not_P) auto
    have "cfg_size (cfg_of img) = 0"
    proof (cases "take (length cfg_header) ?str = cfg_header")
      case True
      then obtain x where x: "?str = cfg_header @ x" by (metis append_take_drop_id)
      have "find_sub cfg_tail ?str = None"
        unfolding find_sub_none
      proof (intro allI notI)
        fix b r assume o: "?str = b @ cfg_tail @ r"
        then have "length cfg_header \<le> length b" using x tail_not_in_header by metis
        then have "b = cfg_header @ drop (length cfg_header) b"
          using x o by (metis append_eq_append_conv_if append_take_drop_id)
        then show False using False o by (metis append_assoc)
      qed
      then show ?thesis by (simp add: cfg_size_def str Let_def)
    qed (simp add: cfg_size_def str Let_def)
    then show ?thesis by (simp add: cfg_files_def t)
  qed
qed

text \<open>
  C37: The configuration from flash. Let every flash chip be a platform device with fixed content, and those whose
  node has the property \<open>sophgo-config\<close> be of at least \<open>SGCFG_SIZE_MAX - 1\<close> bytes. With memory,
  \<open>sgcfg_init\<close> succeeds; \<open>bdm_load\<close> of \<open>conf.ini\<close> then stores the text from the header at the start to the
  end of the first end mark of the first such chip that has one, and returns its length; if there is none,
  and for every other name, it fails.
\<close>
theorem config_boot:
  assumes "bm_ready s []" "flash_drivers s" "distinct (k_mtd_list (bm_k s))" "0 \<notin> set (bytes f)"
    "\<forall>m \<in> set (k_mtd_list (bm_k s)). on_platform (bm_k s) m \<and> mtd_image (bm_k s) m (imgs m) \<and>
      (node_prop fdt (bm_k s) ''sophgo-config'' m \<noteq> None \<longrightarrow> SGCFG_SIZE_MAX - 1 \<le> length (imgs m) \<and> config_is (imgs m) (cfg m))"
  shows "\<exists>s' r s2. sgcfg_init fdt s = Some (0, s') \<and> bdm_load f buf s' = Some (r, s2) \<and>
    (case List.find (\<lambda>m. node_prop fdt (bm_k s) ''sophgo-config'' m \<noteq> None \<and> f = conf_ini \<and> cfg m \<noteq> []) (k_mtd_list (bm_k s)) of
       None \<Rightarrow> r = - errno_val EIO
     | Some m \<Rightarrow> r = int (length (cfg m)) \<and> (\<exists>m0. bm_mem s2 = place buf (cfg m) m0))"
proof -
  let ?ms = "k_mtd_list (bm_k s)"
  let ?w = "\<lambda>m. node_prop fdt (bm_k s) ''sophgo-config'' m \<noteq> None"
  let ?F = "\<lambda>m f. if ?w m then if f = conf_ini then cfg m else [] else cfg_files (cfg_of (imgs m)) (cfg_size (cfg_of (imgs m))) f"
  have "\<forall>m \<in> set ?ms. creates (sgcfg_create_bootdev fdt) s ?w ?F m"
  proof
    fix m assume "m \<in> set ?ms"
    with assms(5) have m: "on_platform (bm_k s) m" "mtd_image (bm_k s) m (imgs m)"
      "?w m \<Longrightarrow> SGCFG_SIZE_MAX - 1 \<le> length (imgs m)" "?w m \<Longrightarrow> config_is (imgs m) (cfg m)" by blast+
    have F: "?F m = cfg_files (cfg_of (imgs m)) (cfg_size (cfg_of (imgs m)))"
      using cfg_size_file[OF m(4,3)] by (auto intro!: ext)
    show "creates (sgcfg_create_bootdev fdt) s ?w ?F m"
      using sgcfg_creates[of s m imgs fdt, OF m(1,2)] m(3) unfolding creates_def F by blast
  qed
  from boot_from_created[OF this assms(1-4), of buf] obtain s' r s2 where r: "sgcfg_init fdt s = Some (0, s')"
    "bdm_load f buf s' = Some (r, s2)"
    "case List.find (\<lambda>m. ?w m \<and> ?F m f \<noteq> []) ?ms of None \<Rightarrow> r = - errno_val EIO
     | Some m \<Rightarrow> r = int (length (?F m f)) \<and> (\<exists>m0. bm_mem s2 = place buf (?F m f) m0)"
    unfolding sgcfg_init_def by blast
  have eq: "(\<lambda>m. ?w m \<and> ?F m f \<noteq> []) = (\<lambda>m. ?w m \<and> f = conf_ini \<and> cfg m \<noteq> [])" by auto
  have "?F m f = cfg m" if "List.find (\<lambda>m. ?w m \<and> f = conf_ini \<and> cfg m \<noteq> []) ?ms = Some m" for m
    using that by (auto simp: find_Some_iff)
  with r show ?thesis
    unfolding eq
    by (cases "List.find (\<lambda>m. ?w m \<and> f = conf_ini \<and> cfg m \<noteq> []) ?ms") auto
qed

text \<open>A chip with a configuration, and others' data behind it.\<close>

definition demo_config :: "u8 list" where
  "demo_config = cfg_header @ [10] @ cfg_tail @ replicate 9000 0xff"

definition demo_config_flash :: "(unit, boot_priv) bdm" where
  "demo_config_flash = demo_flash\<lparr>bm_k := (bm_k demo_flash)\<lparr>
     k_mtd_ops := \<lambda>_. \<lparr>io_read = Some (\<lambda>data off len h. (Inr (take (unat len) (drop (unat off) demo_config)), h)), io_write = None\<rparr>\<rparr>\<rparr>"

definition demo_config_fdt :: "addr \<Rightarrow> string \<Rightarrow> u8 list option" where
  "demo_config_fdt hw key = (if hw = 1 \<and> key = ''sophgo-config'' then Some [] else None)"

lemma demo_config_is: "config_is demo_config (cfg_header @ [10] @ cfg_tail)"
proof -
  let ?t = "cfg_header @ [10] @ cfg_tail"
  have nz: "\<forall>b \<in> set ?t. b \<noteq> 0" by (simp add: cfg_header_def cfg_tail_def bytes_def)
  have str: "takeWhile (\<lambda>b. b \<noteq> 0) (take (SGCFG_SIZE_MAX - 1) demo_config) = ?t @ replicate (SGCFG_SIZE_MAX - 22) 0xff"
  proof -
    have "take (SGCFG_SIZE_MAX - 1) demo_config = ?t @ replicate (SGCFG_SIZE_MAX - 22) 0xff"
      by (simp add: demo_config_def cfg_lengths SGCFG_SIZE_MAX_def)
    moreover have "takeWhile (\<lambda>b. b \<noteq> 0) (?t @ replicate (SGCFG_SIZE_MAX - 22) 0xff) = ?t @ replicate (SGCFG_SIZE_MAX - 22) 0xff"
      using nz by (subst takeWhile_eq_all_conv) auto
    ultimately show ?thesis by (simp only:)
  qed
  have "length cfg_header + length [10 :: u8] \<le> length b"
    if o: "?t @ replicate (SGCFG_SIZE_MAX - 22) 0xff = b @ cfg_tail @ r" for b r
  proof (rule ccontr)
    assume "\<not> ?thesis"
    moreover have "15 \<le> length b" using tail_not_in_header[of _ b r] o cfg_lengths by (metis append_assoc)
    ultimately have l: "length b = 15" by (simp add: cfg_lengths)
    have "(b @ cfg_tail @ r) ! 15 = cfg_tail ! 0" using l by (simp add: nth_append cfg_lengths)
    moreover have "(?t @ replicate (SGCFG_SIZE_MAX - 22) 0xff) ! 15 = 10" by (simp add: nth_append cfg_lengths)
    ultimately show False using o by (simp add: cfg_tail_def bytes_def)
  qed
  then have "\<exists>b r. ?t = cfg_header @ b @ cfg_tail \<and> ?t @ replicate (SGCFG_SIZE_MAX - 22) 0xff = ?t @ r \<and>
      (\<forall>b' r'. ?t @ replicate (SGCFG_SIZE_MAX - 22) 0xff = b' @ cfg_tail @ r' \<longrightarrow> length cfg_header + length b \<le> length b')"
    by (intro exI[of _ "[10]"] exI[of _ "replicate (SGCFG_SIZE_MAX - 22) 0xff"]) blast
  moreover have "\<exists>b r. ?t @ replicate (SGCFG_SIZE_MAX - 22) 0xff = cfg_header @ b @ cfg_tail @ r"
    by (intro exI[of _ "[10]"] exI[of _ "replicate (SGCFG_SIZE_MAX - 22) 0xff"]) simp
  ultimately show ?thesis unfolding config_is_def Let_def str by (simp only: if_P)
qed

theorem config_boot_witness:
  "\<exists>s' s2 m0. sgcfg_init demo_config_fdt demo_config_flash = Some (0, s') \<and> bdm_load ''conf.ini'' 16 s' = Some (21, s2) \<and>
    bm_mem s2 = place 16 (bytes (''[sophgo-config]'' @ [CHR 0x0A] @ ''[eof]'')) m0"
proof -
  let ?s = demo_config_flash and ?t = "cfg_header @ [10] @ cfg_tail"
  have np: "node_prop demo_config_fdt (bm_k ?s) ''sophgo-config'' 2 = Some []"
    by (simp add: node_prop_def demo_config_flash_def demo_flash_def demo_config_fdt_def)
  have "mtd_image (bm_k ?s) 2 demo_config" by (simp add: mtd_image_iff demo_config_flash_def demo_flash_def)
  moreover have "SGCFG_SIZE_MAX - 1 \<le> length demo_config" by (simp add: demo_config_def cfg_lengths SGCFG_SIZE_MAX_def)
  ultimately have chips: "\<forall>m \<in> set (k_mtd_list (bm_k ?s)). on_platform (bm_k ?s) m \<and> mtd_image (bm_k ?s) m demo_config \<and>
      (node_prop demo_config_fdt (bm_k ?s) ''sophgo-config'' m \<noteq> None \<longrightarrow> SGCFG_SIZE_MAX - 1 \<le> length demo_config \<and> config_is demo_config ?t)"
    using demo_config_is by (simp add: demo_config_flash_def demo_flash_def on_platform_def)
  have "bm_ready ?s []"
    by (simp add: bm_ready_def demo_config_flash_def demo_flash_def bm_list_def clist_def boot_list_def heap_init_def)
  moreover have "flash_drivers ?s" by (simp add: flash_drivers_def demo_config_flash_def demo_flash_def OPS_SGMTD_def OPS_SGCFG_def)
  moreover have "distinct (k_mtd_list (bm_k ?s))" "k_mtd_list (bm_k ?s) = [2]" by (simp_all add: demo_config_flash_def demo_flash_def)
  moreover have "0 \<notin> set (bytes ''conf.ini'')" by (simp add: bytes_def)
  moreover have "?t \<noteq> []" "length ?t = 21" "bytes (''[sophgo-config]'' @ [CHR 0x0A] @ ''[eof]'') = ?t"
    by (simp_all add: cfg_lengths) (simp_all add: cfg_header_def cfg_tail_def bytes_def)
  ultimately show ?thesis
    using config_boot[of ?s "''conf.ini''" "\<lambda>_. demo_config" demo_config_fdt "\<lambda>_. ?t" 16] chips np
    by (fastforce simp: conf_ini_def)
qed

end
