(* ===== verification/Irq.thy ===== *)
theory Irq
  imports Prelude List_Head
begin

text \<open>
  Interrupts: the registry of interrupt chips and handlers \<open>drivers/irqchip/interrupt.c\<close>, the chips
  \<open>plic/plic.c\<close> and \<open>ictl/ictl.c\<close> with the older controller \<open>intc/intc.c\<close>, and the test device
  \<open>mtli/mtli.c\<close>.

  Both registries are intrusive lists of \<open>List_Head\<close> with the static heads \<open>irq_chip_list\<close> and
  \<open>irq_data_list\<close>. The hardware is a state \<open>'h\<close> behind 32-bit reads and writes (\<open>mmio\<close>); a handler is a
  number into \<open>iq_handlers\<close> and works on this state only: handlers that add or remove handlers while the
  list is walked are not in the code.
\<close>

subsection \<open>Registers\<close>

record 'h mmio =
  readl :: "u64 \<Rightarrow> 'h \<Rightarrow> u32 \<times> 'h"
  writel :: "u32 \<Rightarrow> u64 \<Rightarrow> 'h \<Rightarrow> 'h"

text \<open>Read, change, write back.\<close>

definition update_reg :: "'h mmio \<Rightarrow> u64 \<Rightarrow> (u32 \<Rightarrow> u32) \<Rightarrow> 'h \<Rightarrow> 'h" where
  "update_reg io reg f h = (case readl io reg h of (v, h1) \<Rightarrow> writel io (f v) reg h1)"

subsection \<open>State\<close>

record irq_chip =
  ic_ops :: nat
  ic_priv :: u64
  ic_hwirq_start :: u32
  ic_irq_count :: u32
  ic_irq_start :: u32
  ic_name :: string
  ic_alias :: string
  ic_pdev :: "string option"

text \<open>An operation gets the chip's private data; for the PLIC this is its register base.\<close>

record 'h irq_chip_ops =
  co_enable :: "(u64 \<Rightarrow> u32 \<Rightarrow> 'h \<Rightarrow> 'h) option"
  co_disable :: "(u64 \<Rightarrow> u32 \<Rightarrow> 'h \<Rightarrow> 'h) option"
  co_ack :: "(u64 \<Rightarrow> u32 \<Rightarrow> 'h \<Rightarrow> 'h) option"
  co_eoi :: "(u64 \<Rightarrow> u32 \<Rightarrow> 'h \<Rightarrow> 'h) option"
  co_retrigger :: "(u64 \<Rightarrow> u32 \<Rightarrow> 'h \<Rightarrow> 'h) option"
  co_claim :: "(u64 \<Rightarrow> 'h \<Rightarrow> u32 \<times> 'h) option"

record irq_data =
  id_hwirq :: u32
  id_irq :: u32
  id_parent :: addr
  id_handler :: "nat option"
  id_data :: u64

record 'h irqs =
  iq_chips :: "addr \<Rightarrow> irq_chip option"
  iq_datas :: "addr \<Rightarrow> irq_data option"
  iq_links :: links
  iq_end :: u32
  iq_next :: addr
  iq_heap :: heap_st
  iq_ops :: "nat \<Rightarrow> 'h irq_chip_ops"
  iq_handlers :: "nat \<Rightarrow> irq_data \<Rightarrow> u64 \<Rightarrow> 'h \<Rightarrow> int \<times> 'h"
  iq_installed :: bool
  iq_meie :: bool
  iq_hw :: 'h

definition irq_chip_list :: addr where "irq_chip_list = 0"
definition irq_data_list :: addr where "irq_data_list = 1"

definition IRQ_HANDLED :: int where "IRQ_HANDLED = 1"

subsection \<open>Numbers\<close>

definition alloc_irq :: "u32 \<Rightarrow> 'h irqs \<Rightarrow> u32 \<times> 'h irqs" where
  "alloc_irq count s = (iq_end s, s\<lparr>iq_end := iq_end s + count\<rparr>)"

definition irq_get :: "irq_chip \<Rightarrow> u32 \<Rightarrow> u32" where
  "irq_get c hwirq = ic_irq_start c + hwirq - ic_hwirq_start c"

partial_function (option) find_irq_chip_from :: "'h irqs \<Rightarrow> u32 \<Rightarrow> addr \<Rightarrow> (addr \<times> u32) option option" where
  "find_irq_chip_from s irq p =
     (if list_is_head p irq_chip_list then Some None
      else do { c \<leftarrow> iq_chips s p;
                (if irq \<ge> ic_irq_start c \<and> irq < ic_irq_start c + ic_irq_count c
                 then Some (Some (p, ic_hwirq_start c + (irq - ic_irq_start c)))
                 else do { n \<leftarrow> l_next (iq_links s) p; find_irq_chip_from s irq n }) })"

definition find_irq_chip :: "u32 \<Rightarrow> 'h irqs \<Rightarrow> (addr \<times> u32) option option" where
  "find_irq_chip irq s = do { p \<leftarrow> l_next (iq_links s) irq_chip_list; find_irq_chip_from s irq p }"

text \<open>A call of an operation of a chip; a missing operation is a call through NULL.\<close>

definition chip_call :: "('h irq_chip_ops \<Rightarrow> (u64 \<Rightarrow> u32 \<Rightarrow> 'h \<Rightarrow> 'h) option) \<Rightarrow> addr \<Rightarrow> u32 \<Rightarrow> 'h irqs \<Rightarrow> 'h irqs option" where
  "chip_call sel a hwirq s =
     do { c \<leftarrow> iq_chips s a; f \<leftarrow> sel (iq_ops s (ic_ops c)); Some (s\<lparr>iq_hw := f (ic_priv c) hwirq (iq_hw s)\<rparr>) }"

text \<open>A call of an operation that the code checks for NULL.\<close>

definition chip_call_opt :: "('h irq_chip_ops \<Rightarrow> (u64 \<Rightarrow> u32 \<Rightarrow> 'h \<Rightarrow> 'h) option) \<Rightarrow> addr \<Rightarrow> u32 \<Rightarrow> 'h irqs \<Rightarrow> 'h irqs option" where
  "chip_call_opt sel a hwirq s =
     do { c \<leftarrow> iq_chips s a; if sel (iq_ops s (ic_ops c)) = None then Some s else chip_call sel a hwirq s }"

subsection \<open>Registration\<close>

text \<open>The error of a name is for one length only.\<close>

definition irq_register_chip :: "addr \<Rightarrow> 'h irqs \<Rightarrow> (errno option \<times> 'h irqs) option" where
  "irq_register_chip a s =
     do { c \<leftarrow> iq_chips s a;
          (case ic_pdev c of
             None \<Rightarrow> Some (Some EINVAL, s)
           | Some pname \<Rightarrow>
               if ic_irq_count c = 0 then Some (Some EINVAL, s)
               else
                 (let full = ''irq:'' @ pname;
                      c1 = c\<lparr>ic_name := take 127 full\<rparr>
                  in if length full = 128 then Some (Some ENOMEM, s\<lparr>iq_chips := (iq_chips s)(a \<mapsto> c1)\<rparr>)
                     else
                       (case alloc_irq (ic_irq_count c) s of
                          (start, s1) \<Rightarrow>
                            (let s2 = s1\<lparr>iq_chips := (iq_chips s1)(a \<mapsto> c1\<lparr>ic_irq_start := start\<rparr>)\<rparr>
                             in do { l \<leftarrow> list_add_tail a irq_chip_list (iq_links s2); Some (None, s2\<lparr>iq_links := l\<rparr>) })))) }"

partial_function (option) find_chip_name_from :: "'h irqs \<Rightarrow> string \<Rightarrow> addr \<Rightarrow> addr option option" where
  "find_chip_name_from s name p =
     (if list_is_head p irq_chip_list then Some None
      else do { c \<leftarrow> iq_chips s p;
                (if ic_name c = name \<or> ic_alias c = name then Some (Some p)
                 else do { n \<leftarrow> l_next (iq_links s) p; find_chip_name_from s name n }) })"

definition irq_get_chip_by_name :: "string \<Rightarrow> 'h irqs \<Rightarrow> addr option option" where
  "irq_get_chip_by_name name s = do { p \<leftarrow> l_next (iq_links s) irq_chip_list; find_chip_name_from s name p }"

text \<open>The result is NULL on every path.\<close>

definition irq_request :: "u32 \<Rightarrow> nat option \<Rightarrow> u64 \<Rightarrow> 'h irqs \<Rightarrow> (addr option \<times> 'h irqs) option" where
  "irq_request irq func priv s =
     (case malloc (iq_heap s) of
        (False, hp) \<Rightarrow> Some (None, s\<lparr>iq_heap := hp\<rparr>)
      | (True, hp) \<Rightarrow>
          (let a = iq_next s;
               s1 = s\<lparr>iq_heap := hp, iq_next := Suc a, iq_links := set_next a None (set_prev a None (iq_links s))\<rparr>
           in do { found \<leftarrow> find_irq_chip irq s1;
                   (case found of
                      None \<Rightarrow> Some (None, s1)
                    | Some (c, hwirq) \<Rightarrow>
                        (let d = \<lparr>id_hwirq = hwirq, id_irq = irq, id_parent = c, id_handler = func, id_data = priv\<rparr>;
                             s2 = s1\<lparr>iq_datas := (iq_datas s1)(a \<mapsto> d)\<rparr>
                         in do { l \<leftarrow> list_add_tail a irq_data_list (iq_links s2);
                                 s3 \<leftarrow> chip_call co_enable c hwirq (s2\<lparr>iq_links := l\<rparr>);
                                 Some (None, s3) })) }))"

text \<open>The search; at the end of the list the cursor is the list head.\<close>

partial_function (option) find_data_from :: "'h irqs \<Rightarrow> u32 \<Rightarrow> nat option \<Rightarrow> u64 \<Rightarrow> addr \<Rightarrow> addr option" where
  "find_data_from s irq func priv p =
     (if list_is_head p irq_data_list then Some p
      else do { d \<leftarrow> iq_datas s p;
                (if id_irq d = irq \<and> id_handler d = func \<and> id_data d = priv then Some p
                 else do { n \<leftarrow> l_next (iq_links s) p; find_data_from s irq func priv n }) })"

definition irq_free :: "u32 \<Rightarrow> nat option \<Rightarrow> u64 \<Rightarrow> 'h irqs \<Rightarrow> 'h irqs option" where
  "irq_free irq func priv s =
     do { p \<leftarrow> l_next (iq_links s) irq_data_list;
          a \<leftarrow> find_data_from s irq func priv p;
          l \<leftarrow> list_del a (iq_links s);
          Some (s\<lparr>iq_links := l\<rparr>) }"

definition on_irq :: "('h irq_chip_ops \<Rightarrow> (u64 \<Rightarrow> u32 \<Rightarrow> 'h \<Rightarrow> 'h) option) \<Rightarrow> u32 \<Rightarrow> 'h irqs \<Rightarrow> 'h irqs option" where
  "on_irq sel irq s =
     do { found \<leftarrow> find_irq_chip irq s;
          (case found of None \<Rightarrow> Some s | Some (c, hwirq) \<Rightarrow> chip_call sel c hwirq s) }"

definition irq_enable :: "u32 \<Rightarrow> 'h irqs \<Rightarrow> 'h irqs option" where "irq_enable = on_irq co_enable"
definition irq_disable :: "u32 \<Rightarrow> 'h irqs \<Rightarrow> 'h irqs option" where "irq_disable = on_irq co_disable"
definition irq_retrigger :: "u32 \<Rightarrow> 'h irqs \<Rightarrow> 'h irqs option" where "irq_retrigger = on_irq co_retrigger"

subsection \<open>An interrupt\<close>

text \<open>The first chip that has one: its address and the number there.\<close>

partial_function (option) claim_from :: "addr \<Rightarrow> 'h irqs \<Rightarrow> ((addr \<times> u32) option \<times> 'h irqs) option" where
  "claim_from p s =
     (if list_is_head p irq_chip_list then Some (None, s)
      else do { c \<leftarrow> iq_chips s p;
                f \<leftarrow> co_claim (iq_ops s (ic_ops c));
                (case f (ic_priv c) (iq_hw s) of
                   (hwirq, h) \<Rightarrow>
                     (let s1 = s\<lparr>iq_hw := h\<rparr>
                      in if 0 \<le> sint hwirq then Some (Some (p, hwirq), s1)
                         else do { n \<leftarrow> l_next (iq_links s1) p; claim_from n s1 })) })"

text \<open>The handlers of a number, until one has handled it; whether one did.\<close>

partial_function (option) handlers_from :: "u32 \<Rightarrow> addr \<Rightarrow> 'h irqs \<Rightarrow> (bool \<times> 'h irqs) option" where
  "handlers_from irq p s =
     (if list_is_head p irq_data_list then Some (False, s)
      else do { d \<leftarrow> iq_datas s p;
                (case (if id_irq d = irq then id_handler d else None) of
                   None \<Rightarrow> do { n \<leftarrow> l_next (iq_links s) p; handlers_from irq n s }
                 | Some f \<Rightarrow>
                     (case iq_handlers s f d (id_data d) (iq_hw s) of
                        (r, h) \<Rightarrow>
                          (let s1 = s\<lparr>iq_hw := h\<rparr>
                           in if r = IRQ_HANDLED then Some (True, s1)
                              else do { n \<leftarrow> l_next (iq_links s1) p; handlers_from irq n s1 }))) })"

definition irq_handler :: "'h irqs \<Rightarrow> 'h irqs option" where
  "irq_handler s =
     do { p \<leftarrow> l_next (iq_links s) irq_chip_list;
          (claimed, s1) \<leftarrow> claim_from p s;
          (case claimed of
             None \<Rightarrow> Some s1
           | Some (a, hwirq) \<Rightarrow>
               do { c \<leftarrow> iq_chips s1 a;
                    s2 \<leftarrow> chip_call_opt co_ack a hwirq s1;
                    q \<leftarrow> l_next (iq_links s2) irq_data_list;
                    (hd_done, s3) \<leftarrow> handlers_from (irq_get c hwirq) q s2;
                    (if hd_done then Some s3 else chip_call_opt co_eoi a hwirq s3) }) }"

definition irq_init :: "'h irqs \<Rightarrow> 'h irqs" where
  "irq_init s = s\<lparr>iq_installed := True, iq_meie := True\<rparr>"

subsection \<open>The PLIC\<close>

definition PLIC_SP_OFFSET :: u64 where "PLIC_SP_OFFSET = 0"
definition PLIC_IP_OFFSET :: u64 where "PLIC_IP_OFFSET = 0x1000"
definition PLIC_IE_OFFSET :: u64 where "PLIC_IE_OFFSET = 0x2000"
definition PLIC_TC_OFFSET :: u64 where "PLIC_TC_OFFSET = 0x200000"

definition set_interrupt_source_priority :: "'h mmio \<Rightarrow> u64 \<Rightarrow> u32 \<Rightarrow> u32 \<Rightarrow> 'h \<Rightarrow> 'h" where
  "set_interrupt_source_priority io base hwirq priority h = writel io priority (base + PLIC_SP_OFFSET + ucast (hwirq * 4)) h"

text \<open>Registers of the context of hart \<open>cpu\<close> in machine mode.\<close>

definition plic_context :: "u64 \<Rightarrow> u32 \<Rightarrow> u64" where
  "plic_context base cpu = base + PLIC_TC_OFFSET + ucast (cpu * 0x2000)"

definition set_contex_threshold :: "'h mmio \<Rightarrow> u64 \<Rightarrow> u32 \<Rightarrow> u32 \<Rightarrow> 'h \<Rightarrow> 'h" where
  "set_contex_threshold io base cpu threshold h = writel io threshold (plic_context base cpu) h"

definition put_bit :: "nat \<Rightarrow> bool \<Rightarrow> u32 \<Rightarrow> u32" where
  "put_bit b on w = (if on then w OR push_bit b 1 else w AND NOT (push_bit b 1))"

definition set_interrupt_pending :: "'h mmio \<Rightarrow> u64 \<Rightarrow> u32 \<Rightarrow> bool \<Rightarrow> 'h \<Rightarrow> 'h" where
  "set_interrupt_pending io base hwirq pending h =
     update_reg io (base + PLIC_IP_OFFSET + ucast (hwirq div 32 * 4)) (put_bit (unat (hwirq mod 32)) pending) h"

text \<open>The hart does not enter: the bits are those of the first context.\<close>

definition plic_ie_reg :: "u64 \<Rightarrow> u32 \<Rightarrow> u64" where
  "plic_ie_reg base hwirq = base + PLIC_IE_OFFSET + ucast (hwirq div 32 * 4)"

definition set_interrupt_enable :: "'h mmio \<Rightarrow> u64 \<Rightarrow> u32 \<Rightarrow> bool \<Rightarrow> 'h \<Rightarrow> 'h" where
  "set_interrupt_enable io base hwirq enable h =
     update_reg io (plic_ie_reg base hwirq) (put_bit (unat (hwirq mod 32)) enable) h"

definition get_claim :: "'h mmio \<Rightarrow> u32 \<Rightarrow> u64 \<Rightarrow> 'h \<Rightarrow> u32 \<times> 'h" where
  "get_claim io cpu base h = readl io (plic_context base cpu + 4) h"

definition set_claim :: "'h mmio \<Rightarrow> u32 \<Rightarrow> u64 \<Rightarrow> u32 \<Rightarrow> 'h \<Rightarrow> 'h" where
  "set_claim io cpu base hwirq h = writel io hwirq (plic_context base cpu + 4) h"

definition plic_enable_irq :: "'h mmio \<Rightarrow> u32 \<Rightarrow> u64 \<Rightarrow> u32 \<Rightarrow> 'h \<Rightarrow> 'h" where
  "plic_enable_irq io cpu base hwirq h =
     set_interrupt_enable io base hwirq True
       (set_contex_threshold io base cpu 0 (set_interrupt_source_priority io base hwirq 1 h))"

definition plic_disable_irq :: "'h mmio \<Rightarrow> u64 \<Rightarrow> u32 \<Rightarrow> 'h \<Rightarrow> 'h" where
  "plic_disable_irq io base hwirq h = set_interrupt_enable io base hwirq False h"

definition plic_retrigger_irq :: "'h mmio \<Rightarrow> u64 \<Rightarrow> u32 \<Rightarrow> 'h \<Rightarrow> 'h" where
  "plic_retrigger_irq io base hwirq h = set_interrupt_pending io base hwirq False (set_interrupt_pending io base hwirq True h)"

definition plic_claim_irq :: "'h mmio \<Rightarrow> u32 \<Rightarrow> u64 \<Rightarrow> 'h \<Rightarrow> u32 \<times> 'h" where
  "plic_claim_irq io cpu base h = (case get_claim io cpu base h of (hwirq, h1) \<Rightarrow> (if hwirq = 0 then -1 else hwirq, h1))"

definition plic_ops :: "'h mmio \<Rightarrow> u32 \<Rightarrow> 'h irq_chip_ops" where
  "plic_ops io cpu =
     \<lparr>co_enable = Some (plic_enable_irq io cpu), co_disable = Some (plic_disable_irq io),
      co_ack = Some (\<lambda>_ _ h. h), co_eoi = Some (set_claim io cpu),
      co_retrigger = Some (plic_retrigger_irq io), co_claim = Some (plic_claim_irq io cpu)\<rparr>"

definition OPS_PLIC :: nat where "OPS_PLIC = 0"

text \<open>The platform device is its name and the base of its registers.\<close>

definition plic_probe :: "string \<Rightarrow> u64 \<Rightarrow> 'h irqs \<Rightarrow> (errno option \<times> 'h irqs) option" where
  "plic_probe pname base s =
     (case malloc (iq_heap s) of
        (False, hp) \<Rightarrow> Some (Some ENOMEM, s\<lparr>iq_heap := hp\<rparr>)
      | (True, hp) \<Rightarrow>
          (let a = iq_next s;
               c = \<lparr>ic_ops = OPS_PLIC, ic_priv = base, ic_hwirq_start = 1, ic_irq_count = 1023, ic_irq_start = 0,
                    ic_name = [], ic_alias = [], ic_pdev = Some pname\<rparr>;
               s1 = s\<lparr>iq_heap := hp, iq_next := Suc a, iq_chips := (iq_chips s)(a \<mapsto> c),
                      iq_links := set_next a None (set_prev a None (iq_links s))\<rparr>
           in do { (r, s2) \<leftarrow> irq_register_chip a s1;
                   Some (case r of
                     None \<Rightarrow> (None, s2)
                   | Some e \<Rightarrow> (Some e, s2\<lparr>iq_chips := (iq_chips s2)(a := None), iq_heap := mfree (iq_heap s2)\<rparr>)) }))"

subsection \<open>The test device\<close>

record mtli_st =
  ml_base :: u64

definition mtli_set_pending :: "'h mmio \<Rightarrow> mtli_st \<Rightarrow> int \<Rightarrow> 'h \<Rightarrow> 'h" where
  "mtli_set_pending io m n h = writel io 1 (ml_base m + of_int (n * 4)) h"

definition mtli_clear_pending :: "'h mmio \<Rightarrow> mtli_st \<Rightarrow> int \<Rightarrow> 'h \<Rightarrow> 'h" where
  "mtli_clear_pending io m n h = writel io 0 (ml_base m + of_int (n * 4)) h"

definition mtli_trigger_pending :: "'h mmio \<Rightarrow> mtli_st \<Rightarrow> int \<Rightarrow> 'h \<Rightarrow> 'h" where
  "mtli_trigger_pending io m n h = mtli_clear_pending io m n (mtli_set_pending io m n h)"

definition mtli_probe :: "u32 \<Rightarrow> u64 \<Rightarrow> nat \<Rightarrow> mtli_st \<Rightarrow> 'h irqs \<Rightarrow> (mtli_st \<times> 'h irqs) option" where
  "mtli_probe irq base func m s = do { (_, s1) \<leftarrow> irq_request irq (Some func) 0 s; Some (m\<lparr>ml_base := base\<rparr>, s1) }"

end
