(* ===== verification/Irq_Props.thy ===== *)
theory Irq_Props
  imports Irq List_Head_Props
begin

text \<open>
  The registries of interrupt chips and handlers as lists, the numbers of the chips as an interval each,
  and what every operation does to them. \<open>irq_step\<close> is the transition system of the operations;
  \<open>irqs_ok\<close> is its invariant.
\<close>

subsection \<open>The registries as lists\<close>

text \<open>The chips have the numbers from \<open>n\<close> to below \<open>m\<close>, one after the other.\<close>

fun laid_out :: "irq_chip list \<Rightarrow> nat \<Rightarrow> nat \<Rightarrow> bool" where
  "laid_out [] n m \<longleftrightarrow> n = m"
| "laid_out (c # cs) n m \<longleftrightarrow>
     unat (ic_irq_start c) = n \<and> ic_irq_count c \<noteq> 0 \<and> laid_out cs (n + unat (ic_irq_count c)) m"

lemma laid_out_append: "laid_out (cs @ ds) n m \<longleftrightarrow> (\<exists>k. laid_out cs n k \<and> laid_out ds k m)"
  by (induction cs arbitrary: n) auto

lemma laid_out_le: "laid_out cs n m \<Longrightarrow> n \<le> m"
  by (induction cs arbitrary: n) fastforce+

definition chips_at :: "'h irqs \<Rightarrow> addr list \<Rightarrow> irq_chip list" where
  "chips_at s as = map (\<lambda>a. the (iq_chips s a)) as"

definition datas_at :: "'h irqs \<Rightarrow> addr list \<Rightarrow> irq_data list" where
  "datas_at s as = map (\<lambda>a. the (iq_datas s a)) as"

definition registry :: "'h irqs \<Rightarrow> addr list \<Rightarrow> addr list \<Rightarrow> bool" where
  "registry s as bs \<longleftrightarrow>
     clist (iq_links s) irq_chip_list as \<and> clist (iq_links s) irq_data_list bs \<and>
     set (irq_chip_list # as) \<inter> set (irq_data_list # bs) = {} \<and>
     (\<forall>a \<in> set as. a < iq_next s) \<and> (\<forall>b \<in> set bs. b < iq_next s) \<and> 2 \<le> iq_next s \<and>
     (\<forall>a \<in> set as. iq_chips s a \<noteq> None) \<and> (\<forall>b \<in> set bs. iq_datas s b \<noteq> None)"

text \<open>The abstract state: the chips and the handlers, in order of their registration.\<close>

definition irqs_are :: "'h irqs \<Rightarrow> irq_chip list \<Rightarrow> irq_data list \<Rightarrow> bool" where
  "irqs_are s cs ds \<longleftrightarrow> (\<exists>as bs. registry s as bs \<and> cs = chips_at s as \<and> ds = datas_at s bs)"

text \<open>Chips are complete, and their numbers laid out.\<close>

definition complete_ops :: "'h irq_chip_ops \<Rightarrow> bool" where
  "complete_ops ops \<longleftrightarrow> co_enable ops \<noteq> None \<and> co_disable ops \<noteq> None \<and> co_retrigger ops \<noteq> None \<and> co_claim ops \<noteq> None"

definition irqs_ok :: "'h irqs \<Rightarrow> irq_chip list \<Rightarrow> irq_data list \<Rightarrow> bool" where
  "irqs_ok s cs ds \<longleftrightarrow> irqs_are s cs ds \<and> laid_out cs 0 (unat (iq_end s)) \<and> (\<forall>c \<in> set cs. complete_ops (iq_ops s (ic_ops c)))"

subsection \<open>Walks\<close>

text \<open>A walk that goes on from node to node as long as \<open>stop\<close> has no result.\<close>

lemma walk_find:
  assumes eq: "\<And>p. w p = (if p = q then Some e else do { x \<leftarrow> f p; (if P x then Some (r p x) else do { n \<leftarrow> l_next h p; w n }) })"
    and "seg h a xs q" "q \<notin> set xs" "\<forall>x \<in> set xs. f x \<noteq> None"
  shows "do { n \<leftarrow> l_next h a; w n } =
    Some (case List.find (\<lambda>x. P (the (f x))) xs of None \<Rightarrow> e | Some x \<Rightarrow> r x (the (f x)))"
  using assms(2-)
proof (induction xs arbitrary: a)
  case Nil
  then show ?case by (subst eq) simp
next
  case (Cons x xs)
  then have n: "l_next h a = Some x" "seg h x xs q" by auto
  obtain y where y: "f x = Some y" using Cons.prems(3) by auto
  have "x \<noteq> q" using Cons.prems(2) by auto
  then have "w x = (if P y then Some (r x y) else do { n \<leftarrow> l_next h x; w n })" using eq[of x] y by simp
  then show ?case using Cons.IH[OF n(2)] Cons.prems n(1) y by simp
qed

definition in_range :: "u32 \<Rightarrow> irq_chip \<Rightarrow> bool" where
  "in_range irq c \<longleftrightarrow> irq \<ge> ic_irq_start c \<and> irq < ic_irq_start c + ic_irq_count c"

lemma in_range_laid:
  assumes "laid_out (c # cs) n m" "m < 2 ^ 32"
  shows "in_range irq c \<longleftrightarrow> n \<le> unat irq \<and> unat irq < n + unat (ic_irq_count c)"
proof -
  have "n + unat (ic_irq_count c) \<le> m" using assms(1) laid_out_le by auto
  then have "unat (ic_irq_start c + ic_irq_count c) = n + unat (ic_irq_count c)"
    using assms unat_add_lem[of "ic_irq_start c" "ic_irq_count c"] by simp
  then show ?thesis using assms(1) by (auto simp: in_range_def word_le_nat_alt word_less_nat_alt)
qed

text \<open>A number below the end is that of exactly one chip.\<close>

lemma laid_out_find:
  assumes "laid_out cs n m" "m < 2 ^ 32" "n \<le> unat irq"
  shows "List.find (in_range irq) cs = None \<longleftrightarrow> m \<le> unat irq"
  using assms
proof (induction cs arbitrary: n)
  case (Cons c cs)
  note r = in_range_laid[OF Cons.prems(1,2), of irq]
  show ?case
  proof (cases "in_range irq c")
    case True
    then show ?thesis using r Cons.prems laid_out_le[of cs "n + unat (ic_irq_count c)" m] by auto
  next
    case False
    then have "n + unat (ic_irq_count c) \<le> unat irq" using r Cons.prems(3) by simp
    then show ?thesis using Cons.IH[of "n + unat (ic_irq_count c)"] Cons.prems False by simp
  qed
qed auto

lemma laid_out_number:
  assumes "laid_out cs n m" "m < 2 ^ 32" "i < length cs" "k < ic_irq_count (cs ! i)"
  shows "List.find (in_range (ic_irq_start (cs ! i) + k)) cs = Some (cs ! i) \<and>
    n \<le> unat (ic_irq_start (cs ! i) + k) \<and>
    (\<forall>j < length cs. in_range (ic_irq_start (cs ! i) + k) (cs ! j) \<longrightarrow> j = i)"
  using assms
proof (induction cs arbitrary: n i)
  case (Cons c cs)
  have u: "unat (ic_irq_start d + k) = unat (ic_irq_start d) + unat k"
    if "laid_out (d # ds) u m" "k < ic_irq_count d" for d ds u
    using that Cons.prems(2) laid_out_le[of ds] unat_add_lem[of "ic_irq_start d" k] by (fastforce simp: word_less_nat_alt)
  have later: "n + unat (ic_irq_count c) \<le> unat (ic_irq_start (cs ! j))" if "j < length cs" for j
  proof -
    have "laid_out (take j cs @ cs ! j # drop (Suc j) cs) (n + unat (ic_irq_count c)) m"
      using Cons.prems(1) that by (simp add: id_take_nth_drop[symmetric])
    then show ?thesis unfolding laid_out_append using laid_out_le[of "take j cs"] by auto
  qed
  note r = in_range_laid[OF Cons.prems(1,2)]
  show ?case
  proof (cases i)
    case 0
    have k: "unat (ic_irq_start c + k) = n + unat k" using u[OF Cons.prems(1)] Cons.prems(1,4) 0 by simp
    have "\<not> in_range (ic_irq_start c + k) (cs ! j)" if "j < length cs" for j
    proof -
      have "unat (ic_irq_start c + k) < n + unat (ic_irq_count c)" using k Cons.prems(4) 0 by (simp add: word_less_nat_alt)
      then show ?thesis using later[OF that] by (auto simp: in_range_def word_le_nat_alt)
    qed
    moreover have "in_range (ic_irq_start c + k) c" using r k Cons.prems(4) 0 by (simp add: word_less_nat_alt)
    moreover have "j = 0" if "j < Suc (length cs)" "in_range (ic_irq_start c + k) ((c # cs) ! j)" for j
      using that calculation(1) by (cases j) auto
    ultimately show ?thesis using 0 k by auto
  next
    case (Suc i')
    have IH: "List.find (in_range (ic_irq_start (cs ! i') + k)) cs = Some (cs ! i') \<and>
      n + unat (ic_irq_count c) \<le> unat (ic_irq_start (cs ! i') + k) \<and>
      (\<forall>j < length cs. in_range (ic_irq_start (cs ! i') + k) (cs ! j) \<longrightarrow> j = i')"
      using Cons.IH[of "n + unat (ic_irq_count c)" i'] Cons.prems Suc by simp
    then have out: "\<not> in_range (ic_irq_start (cs ! i') + k) c" using r by auto
    have "j = i" if "j < Suc (length cs)" "in_range (ic_irq_start (cs ! i') + k) ((c # cs) ! j)" for j
      using that out IH Suc by (cases j) auto
    then show ?thesis using IH out Suc by simp
  qed
qed simp

subsection \<open>What an interrupt does\<close>

text \<open>The first of the chips that claims a number; the claims before it have their effects, too.\<close>

fun claim_spec :: "(nat \<Rightarrow> 'h irq_chip_ops) \<Rightarrow> irq_chip list \<Rightarrow> 'h \<Rightarrow> (nat \<times> u32) option \<times> 'h" where
  "claim_spec ops [] h = (None, h)"
| "claim_spec ops (c # cs) h =
     (case the (co_claim (ops (ic_ops c))) (ic_priv c) h of
        (n, h1) \<Rightarrow>
          if 0 \<le> sint n then (Some (0, n), h1)
          else (case claim_spec ops cs h1 of (r, h2) \<Rightarrow> (map_option (\<lambda>(i, n). (Suc i, n)) r, h2)))"

text \<open>The handlers of a number, up to the first that has handled it.\<close>

fun run_spec :: "(nat \<Rightarrow> irq_data \<Rightarrow> u64 \<Rightarrow> 'h \<Rightarrow> int \<times> 'h) \<Rightarrow> u32 \<Rightarrow> irq_data list \<Rightarrow> 'h \<Rightarrow> bool \<times> 'h" where
  "run_spec call irq [] h = (False, h)"
| "run_spec call irq (d # ds) h =
     (if id_irq d = irq \<and> id_handler d \<noteq> None
      then (case call (the (id_handler d)) d (id_data d) h of
              (r, h1) \<Rightarrow> if r = IRQ_HANDLED then (True, h1) else run_spec call irq ds h1)
      else run_spec call irq ds h)"

definition opt_call :: "(u64 \<Rightarrow> u32 \<Rightarrow> 'h \<Rightarrow> 'h) option \<Rightarrow> irq_chip \<Rightarrow> u32 \<Rightarrow> 'h \<Rightarrow> 'h" where
  "opt_call f c n h = (case f of None \<Rightarrow> h | Some g \<Rightarrow> g (ic_priv c) n h)"

text \<open>Claim, acknowledge, run the handlers, and complete if nobody has handled it.\<close>

definition interrupt_spec ::
    "(nat \<Rightarrow> 'h irq_chip_ops) \<Rightarrow> (nat \<Rightarrow> irq_data \<Rightarrow> u64 \<Rightarrow> 'h \<Rightarrow> int \<times> 'h) \<Rightarrow> irq_chip list \<Rightarrow> irq_data list \<Rightarrow> 'h \<Rightarrow> 'h" where
  "interrupt_spec ops call cs ds h =
     (case claim_spec ops cs h of
        (None, h1) \<Rightarrow> h1
      | (Some (i, n), h1) \<Rightarrow>
          (let c = cs ! i
           in case run_spec call (irq_get c n) ds (opt_call (co_ack (ops (ic_ops c))) c n h1) of
                (done_by_one, h2) \<Rightarrow> if done_by_one then h2 else opt_call (co_eoi (ops (ic_ops c))) c n h2))"

lemma claim_spec_index: "claim_spec ops cs h = (Some (i, n), h1) \<Longrightarrow> i < length cs"
  by (induction cs arbitrary: h i) (fastforce split: prod.splits if_splits)+

lemma claim_from_list:
  assumes "seg (iq_links s) p as irq_chip_list" "irq_chip_list \<notin> set as"
    "\<forall>a \<in> set as. iq_chips s a \<noteq> None \<and> co_claim (iq_ops s (ic_ops (the (iq_chips s a)))) \<noteq> None"
  shows "do { n \<leftarrow> l_next (iq_links s) p; claim_from n s } =
    (case claim_spec (iq_ops s) (chips_at s as) (iq_hw s) of
       (r, h) \<Rightarrow> Some (map_option (\<lambda>(i, n). (as ! i, n)) r, s\<lparr>iq_hw := h\<rparr>))"
  using assms
proof (induction as arbitrary: p s)
  case Nil
  then show ?case by (subst claim_from.simps) (simp add: chips_at_def list_is_head_def)
next
  case (Cons a as)
  then have n: "l_next (iq_links s) p = Some a" "seg (iq_links s) a as irq_chip_list" "a \<noteq> irq_chip_list" by auto
  obtain c f where c: "iq_chips s a = Some c" "co_claim (iq_ops s (ic_ops c)) = Some f" using Cons.prems(3) by auto
  obtain k h where k: "f (ic_priv c) (iq_hw s) = (k, h)" by (cases "f (ic_priv c) (iq_hw s)")
  let ?s = "s\<lparr>iq_hw := h\<rparr>"
  have IH: "do { n \<leftarrow> l_next (iq_links ?s) a; claim_from n ?s } =
    (case claim_spec (iq_ops ?s) (chips_at ?s as) (iq_hw ?s) of
       (r, h) \<Rightarrow> Some (map_option (\<lambda>(i, n). (as ! i, n)) r, ?s\<lparr>iq_hw := h\<rparr>))"
    using Cons.IH[of ?s a] Cons.prems n(2) by simp
  have sp: "claim_spec (iq_ops s) (chips_at s (a # as)) (iq_hw s) =
    (if 0 \<le> sint k then (Some (0, k), h)
     else (case claim_spec (iq_ops s) (chips_at s as) h of (r, h2) \<Rightarrow> (map_option (\<lambda>(i, n). (Suc i, n)) r, h2)))"
    using c k by (simp add: chips_at_def)
  have st: "do { n \<leftarrow> l_next (iq_links s) p; claim_from n s } =
    (if 0 \<le> sint k then Some (Some (a, k), ?s) else do { n \<leftarrow> l_next (iq_links ?s) a; claim_from n ?s })"
    using n c k by (simp add: claim_from.simps[of a s] list_is_head_def)
  show ?case
  proof (cases "0 \<le> sint k")
    case True
    then show ?thesis unfolding st sp by simp
  next
    case False
    have ch: "chips_at ?s as = chips_at s as" by (simp add: chips_at_def)
    have "map_option (\<lambda>(i, n). ((a # as) ! i, n)) (map_option (\<lambda>(i, n). (Suc i, n)) r) = map_option (\<lambda>(i, n). (as ! i, n)) r"
      for r :: "(nat \<times> u32) option" by (cases r) auto
    with False IH show ?thesis unfolding st sp by (simp add: ch split: prod.split)
  qed
qed

lemma handlers_from_list:
  assumes "seg (iq_links s) p bs irq_data_list" "irq_data_list \<notin> set bs" "\<forall>b \<in> set bs. iq_datas s b \<noteq> None"
  shows "do { n \<leftarrow> l_next (iq_links s) p; handlers_from irq n s } =
    (case run_spec (iq_handlers s) irq (datas_at s bs) (iq_hw s) of (r, h) \<Rightarrow> Some (r, s\<lparr>iq_hw := h\<rparr>))"
  using assms
proof (induction bs arbitrary: p s)
  case Nil
  then show ?case by (subst handlers_from.simps) (simp add: datas_at_def list_is_head_def)
next
  case (Cons b bs)
  then have n: "l_next (iq_links s) p = Some b" "seg (iq_links s) b bs irq_data_list" "b \<noteq> irq_data_list" by auto
  obtain d where d: "iq_datas s b = Some d" using Cons.prems(3) by auto
  have IH: "do { n \<leftarrow> l_next (iq_links s) b; handlers_from irq n (s\<lparr>iq_hw := h\<rparr>) } =
    (case run_spec (iq_handlers s) irq (datas_at s bs) h of (r, h) \<Rightarrow> Some (r, s\<lparr>iq_hw := h\<rparr>))" for h
    using Cons.IH[of "s\<lparr>iq_hw := h\<rparr>" b] Cons.prems n(2) by (simp add: datas_at_def)
  show ?case
    using n d IH[of "iq_hw s"] IH
    by (cases "id_irq d = irq"; cases "id_handler d")
      (simp_all add: handlers_from.simps[of irq b s] list_is_head_def datas_at_def split: prod.split)
qed

subsection \<open>The operations on the registries\<close>

lemma registry_cong:
  assumes "iq_links s' = iq_links s" "iq_chips s' = iq_chips s" "iq_datas s' = iq_datas s" "iq_next s \<le> iq_next s'"
    "registry s as bs"
  shows "registry s' as bs"
  using assms by (auto simp: registry_def intro: less_le_trans)

lemma irqs_ok_cong:
  assumes "iq_links s' = iq_links s" "iq_chips s' = iq_chips s" "iq_datas s' = iq_datas s" "iq_next s' = iq_next s"
    "iq_end s' = iq_end s" "iq_ops s' = iq_ops s"
  shows "irqs_ok s' cs ds = irqs_ok s cs ds"
  using assms by (simp add: irqs_ok_def irqs_are_def registry_def chips_at_def datas_at_def)

lemma irqs_ok_hw [simp]: "irqs_ok (s\<lparr>iq_hw := h\<rparr>) cs ds = irqs_ok s cs ds"
  by (rule irqs_ok_cong) simp_all

lemma find_irq_chip_at:
  assumes "registry s as bs"
  shows "find_irq_chip irq s = Some (map_option (\<lambda>a. (a, ic_hwirq_start (the (iq_chips s a)) + (irq - ic_irq_start (the (iq_chips s a)))))
    (List.find (\<lambda>a. in_range irq (the (iq_chips s a))) as))"
proof -
  have r: "seg (iq_links s) irq_chip_list as irq_chip_list" "irq_chip_list \<notin> set as" "\<forall>a \<in> set as. iq_chips s a \<noteq> None"
    using assms by (auto simp: registry_def clist_def)
  have eq: "find_irq_chip_from s irq p = (if p = irq_chip_list then Some None
      else do { c \<leftarrow> iq_chips s p; (if in_range irq c then Some (Some (p, ic_hwirq_start c + (irq - ic_irq_start c)))
        else do { n \<leftarrow> l_next (iq_links s) p; find_irq_chip_from s irq n }) })" for p
    by (subst find_irq_chip_from.simps) (simp add: list_is_head_def in_range_def)
  show ?thesis unfolding find_irq_chip_def by (subst walk_find[OF eq r]) (simp split: option.split)
qed

lemma find_map: "List.find P (map f xs) = map_option f (List.find (\<lambda>x. P (f x)) xs)"
  by (induction xs) auto

text \<open>Adding a node to one of the lists.\<close>

lemma registry_add_data:
  assumes "registry s as bs" "a \<notin> set as" "a \<notin> set bs" "a \<noteq> irq_chip_list" "a \<noteq> irq_data_list" "a < n" "iq_next s \<le> n"
  obtains l where "list_add_tail a irq_data_list (set_next a None (set_prev a None (iq_links s))) = Some l"
    "\<And>hp h. registry (s\<lparr>iq_heap := hp, iq_next := n, iq_links := l, iq_datas := (iq_datas s)(a \<mapsto> d), iq_hw := h\<rparr>) as (bs @ [a])"
proof -
  let ?l0 = "set_next a None (set_prev a None (iq_links s))"
  have c: "clist ?l0 irq_chip_list as" "clist ?l0 irq_data_list bs"
    using assms by (simp_all add: registry_def clist_set_out)
  from list_add_tail_clist[OF c(2), of a] assms obtain l where l: "list_add_tail a irq_data_list ?l0 = Some l"
    "clist l irq_data_list (bs @ [a])" "same_but (set (irq_data_list # a # bs)) ?l0 l" by auto
  have "clist l irq_chip_list as"
    using clist_frame[OF l(3), of irq_chip_list as] assms c(1) by (auto simp: registry_def)
  then show thesis using l(1,2) assms by (intro that[OF l(1)]) (auto simp: registry_def intro: less_le_trans)
qed

lemma registry_add_chip:
  assumes "registry s as bs" "a \<notin> set as" "a \<notin> set bs" "a \<noteq> irq_chip_list" "a \<noteq> irq_data_list" "a < iq_next s"
  obtains l where "list_add_tail a irq_chip_list (iq_links s) = Some l"
    "\<And>e. registry (s\<lparr>iq_end := e, iq_chips := (iq_chips s)(a \<mapsto> c), iq_links := l\<rparr>) (as @ [a]) bs"
proof -
  have c: "clist (iq_links s) irq_chip_list as" "clist (iq_links s) irq_data_list bs"
    using assms by (simp_all add: registry_def)
  from list_add_tail_clist[OF c(1), of a] assms obtain l where l: "list_add_tail a irq_chip_list (iq_links s) = Some l"
    "clist l irq_chip_list (as @ [a])" "same_but (set (irq_chip_list # a # as)) (iq_links s) l" by auto
  have "clist l irq_data_list bs"
    using clist_frame[OF l(3), of irq_data_list bs] assms c(2) by (auto simp: registry_def)
  then show thesis using l(1,2) assms by (intro that[OF l(1)]) (auto simp: registry_def)
qed

lemma registry_fresh:
  "registry s as bs \<Longrightarrow> iq_next s \<notin> set as \<and> iq_next s \<notin> set bs \<and> iq_next s \<noteq> irq_chip_list \<and> iq_next s \<noteq> irq_data_list"
  by (auto simp: registry_def irq_chip_list_def irq_data_list_def)

lemma chip_call_ok:
  assumes "iq_chips s a = Some c" "sel (iq_ops s (ic_ops c)) = Some f"
  shows "chip_call sel a n s = Some (s\<lparr>iq_hw := f (ic_priv c) n (iq_hw s)\<rparr>)"
  using assms by (simp add: chip_call_def)

text \<open>\<open>irq_request\<close>: the handler is appended, and the interrupt enabled at its chip.\<close>

definition hw_number :: "irq_chip \<Rightarrow> u32 \<Rightarrow> u32" where
  "hw_number c irq = ic_hwirq_start c + (irq - ic_irq_start c)"

lemma irq_request_ok:
  assumes "irqs_ok s cs ds"
  shows "\<exists>s'. irq_request irq func priv s = Some (None, s') \<and> iq_ops s' = iq_ops s \<and> iq_handlers s' = iq_handlers s \<and> iq_end s' = iq_end s \<and>
    (case (if fst (malloc (iq_heap s)) then List.find (in_range irq) cs else None) of
       None \<Rightarrow> irqs_ok s' cs ds \<and> iq_hw s' = iq_hw s
     | Some c \<Rightarrow> (\<exists>p. irqs_ok s' cs (ds @ [\<lparr>id_hwirq = hw_number c irq, id_irq = irq, id_parent = p, id_handler = func, id_data = priv\<rparr>])) \<and>
         iq_hw s' = the (co_enable (iq_ops s (ic_ops c))) (ic_priv c) (hw_number c irq) (iq_hw s))"
proof -
  obtain as bs where r: "registry s as bs" "cs = chips_at s as" "ds = datas_at s bs"
    and lay: "laid_out cs 0 (unat (iq_end s))" and ops: "\<forall>c \<in> set cs. complete_ops (iq_ops s (ic_ops c))"
    using assms by (auto simp: irqs_ok_def irqs_are_def)
  obtain ok hp where m: "malloc (iq_heap s) = (ok, hp)" by (cases "malloc (iq_heap s)")
  show ?thesis
  proof (cases ok)
    case False
    then show ?thesis using m assms irqs_ok_cong[of "s\<lparr>iq_heap := hp\<rparr>" s] by (simp add: irq_request_def)
  next
    case True
    let ?a = "iq_next s"
    let ?s1 = "s\<lparr>iq_heap := hp, iq_next := Suc ?a, iq_links := set_next ?a None (set_prev ?a None (iq_links s))\<rparr>"
    note fr = registry_fresh[OF r(1)]
    have r1: "registry ?s1 as bs" using r(1) fr by (auto simp: registry_def clist_set_out intro: less_SucI)
    have f1: "find_irq_chip irq ?s1 = Some (map_option (\<lambda>a. (a, hw_number (the (iq_chips s a)) irq))
        (List.find (\<lambda>a. in_range irq (the (iq_chips s a))) as))"
      using find_irq_chip_at[OF r1, of irq] by (simp add: hw_number_def)
    have f2: "List.find (in_range irq) cs = map_option (\<lambda>a. the (iq_chips s a)) (List.find (\<lambda>a. in_range irq (the (iq_chips s a))) as)"
      unfolding r(2) chips_at_def find_map ..
    show ?thesis
    proof (cases "List.find (\<lambda>a. in_range irq (the (iq_chips s a))) as")
      case None
      have "irqs_ok ?s1 cs ds" using r1 r lay ops by (auto simp: irqs_ok_def irqs_are_def chips_at_def datas_at_def)
      then show ?thesis using m True f1 f2 None by (simp add: irq_request_def Let_def)
    next
      case (Some p)
      have p: "p \<in> set as" using Some by (auto simp: find_Some_iff)
      obtain c where c: "iq_chips s p = Some c" using p r(1) by (auto simp: registry_def)
      then have cin: "c \<in> set cs" using p r(2) by (force simp: chips_at_def)
      let ?d = "\<lparr>id_hwirq = hw_number c irq, id_irq = irq, id_parent = p, id_handler = func, id_data = priv\<rparr>"
      obtain f where f: "co_enable (iq_ops s (ic_ops c)) = Some f" using ops cin by (auto simp: complete_ops_def)
      obtain l where l: "list_add_tail ?a irq_data_list (iq_links ?s1) = Some l"
        "\<And>hp h. registry (s\<lparr>iq_heap := hp, iq_next := Suc ?a, iq_links := l, iq_datas := (iq_datas s)(?a \<mapsto> ?d), iq_hw := h\<rparr>) as (bs @ [?a])"
        using registry_add_data[OF r(1), of ?a "Suc ?a" ?d] fr by auto
      let ?s2 = "s\<lparr>iq_heap := hp, iq_next := Suc ?a, iq_datas := (iq_datas s)(?a \<mapsto> ?d), iq_links := l\<rparr>"
      let ?s' = "?s2\<lparr>iq_hw := f (ic_priv c) (hw_number c irq) (iq_hw s)\<rparr>"
      have "irq_request irq func priv s = Some (None, ?s')"
        using m True f1 Some l(1) c f by (simp add: irq_request_def Let_def chip_call_def)
      moreover have "irqs_ok ?s' cs (ds @ [?d])"
      proof -
        have "registry ?s' as (bs @ [?a])"
          using l(2)[where hp = hp and h = "iq_hw ?s'"] by (rule registry_cong[rotated 4]) simp_all
        moreover have "datas_at ?s' (bs @ [?a]) = ds @ [?d]" "chips_at ?s' as = cs"
          using fr r(2,3) by (auto simp: datas_at_def chips_at_def)
        ultimately have "irqs_are ?s' cs (ds @ [?d])" unfolding irqs_are_def by metis
        then show ?thesis using lay ops by (simp add: irqs_ok_def)
      qed
      moreover have "List.find (in_range irq) cs = Some c" using f2 Some c by simp
      ultimately show ?thesis using m True f by (intro exI[of _ ?s']) auto
    qed
  qed
qed

text \<open>\<open>irq_free\<close>: the first match goes; without a match the list loses its head.\<close>

fun remove_first :: "('a \<Rightarrow> bool) \<Rightarrow> 'a list \<Rightarrow> 'a list" where
  "remove_first P [] = []"
| "remove_first P (x # xs) = (if P x then xs else x # remove_first P xs)"

lemma remove_first_split:
  "\<exists>x \<in> set xs. P x \<Longrightarrow> \<exists>ys y zs. xs = ys @ y # zs \<and> P y \<and> (\<forall>x \<in> set ys. \<not> P x) \<and> remove_first P xs = ys @ zs"
proof (induction xs)
  case (Cons x xs)
  show ?case
  proof (cases "P x")
    case True
    then show ?thesis by (intro exI[of _ "[]"] exI[of _ x] exI[of _ xs]) simp
  next
    case False
    with Cons obtain ys y zs where "xs = ys @ y # zs" "P y" "\<forall>x \<in> set ys. \<not> P x" "remove_first P xs = ys @ zs" by auto
    with False show ?thesis by (intro exI[of _ "x # ys"] exI[of _ y] exI[of _ zs]) simp
  qed
qed simp

lemma remove_first_map: "remove_first P (map f xs) = map f (remove_first (\<lambda>x. P (f x)) xs)"
  by (induction xs) auto

definition data_is :: "u32 \<Rightarrow> nat option \<Rightarrow> u64 \<Rightarrow> irq_data \<Rightarrow> bool" where
  "data_is irq func priv d \<longleftrightarrow> id_irq d = irq \<and> id_handler d = func \<and> id_data d = priv"

lemma find_data_at:
  assumes "registry s as bs"
  shows "do { p \<leftarrow> l_next (iq_links s) irq_data_list; find_data_from s irq func priv p } =
    Some (case List.find (\<lambda>b. data_is irq func priv (the (iq_datas s b))) bs of None \<Rightarrow> irq_data_list | Some b \<Rightarrow> b)"
proof -
  have r: "seg (iq_links s) irq_data_list bs irq_data_list" "irq_data_list \<notin> set bs" "\<forall>b \<in> set bs. iq_datas s b \<noteq> None"
    using assms by (auto simp: registry_def clist_def)
  have eq: "find_data_from s irq func priv p = (if p = irq_data_list then Some irq_data_list
      else do { d \<leftarrow> iq_datas s p; (if data_is irq func priv d then Some p
        else do { n \<leftarrow> l_next (iq_links s) p; find_data_from s irq func priv n }) })" for p
    by (subst find_data_from.simps) (simp add: list_is_head_def data_is_def)
  show ?thesis by (rule walk_find[OF eq r])
qed

lemma irq_free_ok:
  assumes "irqs_ok s cs ds" "\<exists>d \<in> set ds. data_is irq func priv d"
  shows "\<exists>s'. irq_free irq func priv s = Some s' \<and> irqs_ok s' cs (remove_first (data_is irq func priv) ds) \<and>
    iq_hw s' = iq_hw s \<and> iq_ops s' = iq_ops s \<and> iq_handlers s' = iq_handlers s \<and> iq_end s' = iq_end s"
proof -
  let ?P = "\<lambda>b. data_is irq func priv (the (iq_datas s b))"
  obtain as bs where r: "registry s as bs" "cs = chips_at s as" "ds = datas_at s bs"
    and lay: "laid_out cs 0 (unat (iq_end s))" and ops: "\<forall>c \<in> set cs. complete_ops (iq_ops s (ic_ops c))"
    using assms(1) by (auto simp: irqs_ok_def irqs_are_def)
  from assms(2) have "\<exists>b \<in> set bs. ?P b" by (auto simp: r(3) datas_at_def)
  from remove_first_split[OF this] obtain ys b zs where sp: "bs = ys @ b # zs" "?P b" "\<forall>y \<in> set ys. \<not> ?P y"
    "remove_first ?P bs = ys @ zs" by blast
  have fnd: "List.find ?P bs = Some b" using sp(1-3) by (induction ys arbitrary: bs) auto
  have c: "clist (iq_links s) irq_data_list (ys @ b # zs)" "clist (iq_links s) irq_chip_list as"
    using r(1) sp(1) by (simp_all add: registry_def)
  from list_del_clist[OF c(1)] obtain l where l: "list_del b (iq_links s) = Some l" "clist l irq_data_list (ys @ zs)"
    "same_but (set (irq_data_list # ys @ b # zs)) (iq_links s) l" by blast
  have "clist l irq_chip_list as"
    using clist_frame[OF l(3), of irq_chip_list as] r(1) sp(1) c(2) by (auto simp: registry_def)
  then have "registry (s\<lparr>iq_links := l\<rparr>) as (ys @ zs)" using r(1) sp(1) l(2) by (auto simp: registry_def)
  moreover have "remove_first (data_is irq func priv) ds = datas_at (s\<lparr>iq_links := l\<rparr>) (ys @ zs)"
    unfolding r(3) datas_at_def remove_first_map sp(4) by simp
  ultimately have "irqs_ok (s\<lparr>iq_links := l\<rparr>) cs (remove_first (data_is irq func priv) ds)"
    using r(2) lay ops by (auto simp: irqs_ok_def irqs_are_def chips_at_def)
  moreover have "irq_free irq func priv s = Some (s\<lparr>iq_links := l\<rparr>)"
    using find_data_at[OF r(1), of irq func priv] fnd l(1) by (auto simp: irq_free_def simp flip: bind_assoc)
  ultimately show ?thesis by auto
qed

lemma list_del_head:
  assumes "clist h q xs"
  shows "\<exists>h'. list_del q h = Some h' \<and> l_next h' q = None \<and> same_but (set (q # xs)) h h'"
proof -
  have "hd (xs @ [q]) \<in> set (q # xs)" "last (q # xs) \<in> set (q # xs)" using hd_in[of xs q] last_in[of q xs] by simp_all
  then have "same_but (set (q # xs)) h (list_del_between (last (q # xs)) (hd (xs @ [q])) h)" by (intro list_del_between_same) simp
  then show ?thesis using clist_next_prev[OF assms] by (auto simp: list_del_def list_del_entry_def)
qed

text \<open>The other operations.\<close>

lemma on_irq_ok:
  assumes "irqs_ok s cs ds" "\<And>c. c \<in> set cs \<Longrightarrow> sel (iq_ops s (ic_ops c)) \<noteq> None"
  shows "on_irq sel irq s = Some (s\<lparr>iq_hw := (case List.find (in_range irq) cs of
    None \<Rightarrow> iq_hw s | Some c \<Rightarrow> the (sel (iq_ops s (ic_ops c))) (ic_priv c) (hw_number c irq) (iq_hw s))\<rparr>)"
proof -
  obtain as bs where r: "registry s as bs" "cs = chips_at s as" using assms(1) by (auto simp: irqs_ok_def irqs_are_def)
  have f2: "List.find (in_range irq) cs = map_option (\<lambda>a. the (iq_chips s a)) (List.find (\<lambda>a. in_range irq (the (iq_chips s a))) as)"
    unfolding r(2) chips_at_def find_map ..
  show ?thesis
  proof (cases "List.find (\<lambda>a. in_range irq (the (iq_chips s a))) as")
    case None
    then show ?thesis using find_irq_chip_at[OF r(1), of irq] f2 by (simp add: on_irq_def)
  next
    case (Some p)
    then have p: "p \<in> set as" by (auto simp: find_Some_iff)
    obtain c where c: "iq_chips s p = Some c" using p r(1) by (auto simp: registry_def)
    then have "c \<in> set cs" using p r(2) by (force simp: chips_at_def)
    with assms(2) obtain f where "sel (iq_ops s (ic_ops c)) = Some f" by auto
    then show ?thesis using find_irq_chip_at[OF r(1), of irq] f2 Some c by (simp add: on_irq_def chip_call_def hw_number_def)
  qed
qed

lemma irq_handler_ok:
  assumes "irqs_ok s cs ds"
  shows "irq_handler s = Some (s\<lparr>iq_hw := interrupt_spec (iq_ops s) (iq_handlers s) cs ds (iq_hw s)\<rparr>)"
proof -
  obtain as bs where r: "registry s as bs" "cs = chips_at s as" "ds = datas_at s bs"
    and ops: "\<forall>c \<in> set cs. complete_ops (iq_ops s (ic_ops c))" using assms by (auto simp: irqs_ok_def irqs_are_def)
  have chips: "seg (iq_links s) irq_chip_list as irq_chip_list" "irq_chip_list \<notin> set as"
    "\<forall>a \<in> set as. iq_chips s a \<noteq> None \<and> co_claim (iq_ops s (ic_ops (the (iq_chips s a)))) \<noteq> None"
    using r(1) ops by (auto simp: registry_def clist_def r(2) chips_at_def complete_ops_def)
  have datas: "seg (iq_links s) irq_data_list bs irq_data_list" "irq_data_list \<notin> set bs" "\<forall>b \<in> set bs. iq_datas s b \<noteq> None"
    using r(1) by (auto simp: registry_def clist_def)
  obtain cl h1 where cl: "claim_spec (iq_ops s) cs (iq_hw s) = (cl, h1)" by (cases "claim_spec (iq_ops s) cs (iq_hw s)")
  have claim: "do { n \<leftarrow> l_next (iq_links s) irq_chip_list; claim_from n s } =
      Some (map_option (\<lambda>(i, n). (as ! i, n)) cl, s\<lparr>iq_hw := h1\<rparr>)"
    using claim_from_list[OF chips] cl r(2) by simp
  obtain p where p: "l_next (iq_links s) irq_chip_list = Some p" "claim_from p s = Some (map_option (\<lambda>(i, n). (as ! i, n)) cl, s\<lparr>iq_hw := h1\<rparr>)"
    using claim by (auto simp: bind_eq_Some_conv)
  show ?thesis
  proof (cases cl)
    case None
    then show ?thesis using p cl by (simp add: irq_handler_def interrupt_spec_def)
  next
    case (Some x)
    obtain i n where x: "cl = Some (i, n)" using Some by (cases x) auto
    have i: "i < length as" using claim_spec_index[of "iq_ops s" cs "iq_hw s" i n h1] cl x r(2) by (simp add: chips_at_def)
    then obtain c where c: "iq_chips s (as ! i) = Some c" using r(1) nth_mem[OF i] unfolding registry_def by blast
    have ci: "cs ! i = c" using c i by (simp add: r(2) chips_at_def)
    let ?h2 = "opt_call (co_ack (iq_ops s (ic_ops c))) c n h1"
    have opt: "chip_call_opt sel (as ! i) n (s\<lparr>iq_hw := h\<rparr>) = Some (s\<lparr>iq_hw := opt_call (sel (iq_ops s (ic_ops c))) c n h\<rparr>)" for sel h
      using c by (cases "sel (iq_ops s (ic_ops c))") (simp_all add: chip_call_opt_def chip_call_def opt_call_def)
    obtain b h3 where run: "run_spec (iq_handlers s) (irq_get c n) ds ?h2 = (b, h3)" by (cases "run_spec (iq_handlers s) (irq_get c n) ds ?h2")
    have "do { m \<leftarrow> l_next (iq_links s) irq_data_list; handlers_from (irq_get c n) m (s\<lparr>iq_hw := ?h2\<rparr>) } = Some (b, s\<lparr>iq_hw := h3\<rparr>)"
      using handlers_from_list[of "s\<lparr>iq_hw := ?h2\<rparr>" irq_data_list bs "irq_get c n"] datas run r(3) by (simp add: datas_at_def)
    then obtain q where "l_next (iq_links s) irq_data_list = Some q" "handlers_from (irq_get c n) q (s\<lparr>iq_hw := ?h2\<rparr>) = Some (b, s\<lparr>iq_hw := h3\<rparr>)"
      by (auto simp: bind_eq_Some_conv)
    then show ?thesis using p x c opt cl ci run by (simp add: irq_handler_def interrupt_spec_def)
  qed
qed

text \<open>With the head out of the list, an interrupt finds no first handler.\<close>

lemma irq_free_unknown:
  assumes "irqs_ok s cs ds" "\<not> (\<exists>d \<in> set ds. data_is irq func priv d)"
  shows "\<exists>s'. irq_free irq func priv s = Some s' \<and>
    (\<forall>h. fst (claim_spec (iq_ops s) cs h) \<noteq> None \<longrightarrow> irq_handler (s'\<lparr>iq_hw := h\<rparr>) = None)"
proof -
  obtain as bs where r: "registry s as bs" "cs = chips_at s as" "ds = datas_at s bs"
    and ops: "\<forall>c \<in> set cs. complete_ops (iq_ops s (ic_ops c))" using assms(1) by (auto simp: irqs_ok_def irqs_are_def)
  have "List.find (\<lambda>b. data_is irq func priv (the (iq_datas s b))) bs = None"
    using assms(2) by (auto simp: r(3) datas_at_def find_None_iff)
  with find_data_at[OF r(1), of irq func priv]
  have f: "do { p \<leftarrow> l_next (iq_links s) irq_data_list; find_data_from s irq func priv p } = Some irq_data_list" by simp
  have c: "clist (iq_links s) irq_data_list bs" "clist (iq_links s) irq_chip_list as" using r(1) by (simp_all add: registry_def)
  from list_del_head[OF c(1)] obtain l where l: "list_del irq_data_list (iq_links s) = Some l" "l_next l irq_data_list = None"
    "same_but (set (irq_data_list # bs)) (iq_links s) l" by blast
  have "clist l irq_chip_list as" using clist_frame[OF l(3), of irq_chip_list as] r(1) c(2) by (auto simp: registry_def)
  then have seg: "seg l irq_chip_list as irq_chip_list" "irq_chip_list \<notin> set as" by (auto simp: clist_def)
  have chips: "\<forall>a \<in> set as. iq_chips s a \<noteq> None \<and> co_claim (iq_ops s (ic_ops (the (iq_chips s a)))) \<noteq> None"
    using r(1) ops by (auto simp: registry_def r(2) chips_at_def complete_ops_def)
  have "irq_handler (s\<lparr>iq_links := l, iq_hw := h\<rparr>) = None" if some: "fst (claim_spec (iq_ops s) cs h) \<noteq> None" for h
  proof -
    obtain i n h1 where cl: "claim_spec (iq_ops s) cs h = (Some (i, n), h1)" using some by (cases "claim_spec (iq_ops s) cs h") auto
    let ?s = "s\<lparr>iq_links := l, iq_hw := h\<rparr>"
    have "chips_at ?s as = cs" by (simp add: r(2) chips_at_def)
    then have "do { m \<leftarrow> l_next (iq_links ?s) irq_chip_list; claim_from m ?s } = Some (Some (as ! i, n), ?s\<lparr>iq_hw := h1\<rparr>)"
      using claim_from_list[of ?s irq_chip_list as] seg chips cl by simp
    then obtain m where m: "l_next (iq_links ?s) irq_chip_list = Some m" "claim_from m ?s = Some (Some (as ! i, n), ?s\<lparr>iq_hw := h1\<rparr>)"
      by (auto simp: bind_eq_Some_conv)
    have "chip_call_opt sel a n t = Some u \<Longrightarrow> iq_links u = iq_links t" for sel a t and u :: "'a irqs"
      by (auto simp: chip_call_opt_def chip_call_def bind_eq_Some_conv split: if_splits)
    then have nx: "chip_call_opt co_ack (as ! i) n (s\<lparr>iq_links := l, iq_hw := h1\<rparr>) = Some u \<Longrightarrow> l_next (iq_links u) irq_data_list = None" for u
      using l(2) by fastforce
    show ?thesis
      using m nx
      by (cases "chip_call_opt co_ack (as ! i) n (s\<lparr>iq_links := l, iq_hw := h1\<rparr>)"; cases "iq_chips s (as ! i)")
        (simp_all add: irq_handler_def)
  qed
  moreover have "irq_free irq func priv s = Some (s\<lparr>iq_links := l\<rparr>)"
    using f l(1) by (auto simp: irq_free_def bind_eq_Some_conv)
  ultimately show ?thesis by (intro exI[of _ "s\<lparr>iq_links := l\<rparr>"]) simp
qed

text \<open>Registration takes the next numbers.\<close>

lemma irq_register_chip_ok:
  assumes "irqs_ok s cs ds" "iq_chips s a = Some c" "a < iq_next s" "a \<noteq> irq_chip_list" "a \<noteq> irq_data_list"
    "\<forall>as bs. registry s as bs \<longrightarrow> a \<notin> set as \<union> set bs"
    "ic_pdev c = Some pname" "length pname \<noteq> 124" "ic_irq_count c \<noteq> 0" "unat (iq_end s) + unat (ic_irq_count c) < 2 ^ 32"
    "complete_ops (iq_ops s (ic_ops c))"
  shows "\<exists>s'. irq_register_chip a s = Some (None, s') \<and>
    irqs_ok s' (cs @ [c\<lparr>ic_name := take 127 (''irq:'' @ pname), ic_irq_start := iq_end s\<rparr>]) ds \<and>
    iq_end s' = iq_end s + ic_irq_count c \<and> iq_hw s' = iq_hw s \<and> iq_ops s' = iq_ops s \<and> iq_handlers s' = iq_handlers s"
proof -
  let ?c = "c\<lparr>ic_name := take 127 (''irq:'' @ pname), ic_irq_start := iq_end s\<rparr>"
  obtain as bs where r: "registry s as bs" "cs = chips_at s as" "ds = datas_at s bs"
    and lay: "laid_out cs 0 (unat (iq_end s))" and ops: "\<forall>c \<in> set cs. complete_ops (iq_ops s (ic_ops c))"
    using assms(1) by (auto simp: irqs_ok_def irqs_are_def)
  have out: "a \<notin> set as" "a \<notin> set bs" using assms(6) r(1) by auto
  obtain l where l: "list_add_tail a irq_chip_list (iq_links s) = Some l"
    "\<And>e. registry (s\<lparr>iq_end := e, iq_chips := (iq_chips s)(a \<mapsto> ?c), iq_links := l\<rparr>) (as @ [a]) bs"
    using registry_add_chip[OF r(1) out assms(4,5,3), of ?c] by auto
  let ?s' = "s\<lparr>iq_end := iq_end s + ic_irq_count c, iq_chips := (iq_chips s)(a \<mapsto> ?c), iq_links := l\<rparr>"
  have "irq_register_chip a s = Some (None, ?s')"
    using assms(2,7-9) l(1) by (simp add: irq_register_chip_def alloc_irq_def Let_def)
  moreover have "chips_at ?s' (as @ [a]) = cs @ [?c]" "datas_at ?s' bs = ds"
    using r(2,3) out by (auto simp: chips_at_def datas_at_def)
  then have "irqs_are ?s' (cs @ [?c]) ds" unfolding irqs_are_def using l(2) by metis
  moreover have "unat (iq_end s + ic_irq_count c) = unat (iq_end s) + unat (ic_irq_count c)"
    using assms(10) unat_add_lem[of "iq_end s" "ic_irq_count c"] by simp
  then have "laid_out (cs @ [?c]) 0 (unat (iq_end ?s'))" using lay assms(9) by (auto simp: laid_out_append)
  ultimately show ?thesis using ops assms(11) by (intro exI[of _ ?s']) (simp add: irqs_ok_def)
qed

text \<open>The chip that \<open>plic_probe\<close> registers.\<close>

definition plic_chip :: "string \<Rightarrow> u64 \<Rightarrow> u32 \<Rightarrow> irq_chip" where
  "plic_chip pname base start = \<lparr>ic_ops = OPS_PLIC, ic_priv = base, ic_hwirq_start = 1, ic_irq_count = 1023, ic_irq_start = start,
     ic_name = take 127 (''irq:'' @ pname), ic_alias = [], ic_pdev = Some pname\<rparr>"

lemma plic_probe_ok:
  assumes "irqs_ok s cs ds" "length pname \<noteq> 124" "unat (iq_end s) + 1023 < 2 ^ 32" "complete_ops (iq_ops s OPS_PLIC)"
  shows "\<exists>r s'. plic_probe pname base s = Some (r, s') \<and> iq_hw s' = iq_hw s \<and> iq_ops s' = iq_ops s \<and> iq_handlers s' = iq_handlers s \<and>
    (if fst (malloc (iq_heap s)) then r = None \<and> irqs_ok s' (cs @ [plic_chip pname base (iq_end s)]) ds
     else r = Some ENOMEM \<and> irqs_ok s' cs ds)"
proof -
  obtain ok hp where m: "malloc (iq_heap s) = (ok, hp)" by (cases "malloc (iq_heap s)")
  show ?thesis
  proof (cases ok)
    case False
    then show ?thesis using m assms(1) irqs_ok_cong[of "s\<lparr>iq_heap := hp\<rparr>" s] by (simp add: plic_probe_def)
  next
    case True
    let ?a = "iq_next s"
    let ?c = "\<lparr>ic_ops = OPS_PLIC, ic_priv = base, ic_hwirq_start = 1, ic_irq_count = 1023, ic_irq_start = 0,
                    ic_name = [], ic_alias = [], ic_pdev = Some pname\<rparr>"
    let ?s1 = "s\<lparr>iq_heap := hp, iq_next := Suc ?a, iq_chips := (iq_chips s)(?a \<mapsto> ?c),
                      iq_links := set_next ?a None (set_prev ?a None (iq_links s))\<rparr>"
    obtain as bs where r: "registry s as bs" "cs = chips_at s as" "ds = datas_at s bs"
      and lay: "laid_out cs 0 (unat (iq_end s))" and ops: "\<forall>c \<in> set cs. complete_ops (iq_ops s (ic_ops c))"
      using assms(1) by (auto simp: irqs_ok_def irqs_are_def)
    note fr = registry_fresh[OF r(1)]
    have r1: "registry ?s1 as bs" using r(1) fr by (auto simp: registry_def clist_set_out intro: less_SucI)
    moreover have "chips_at ?s1 as = cs" "datas_at ?s1 bs = ds" using fr r(2,3) by (auto simp: chips_at_def datas_at_def)
    ultimately have ok1: "irqs_ok ?s1 cs ds" using lay ops unfolding irqs_ok_def irqs_are_def by (auto simp del: fun_upd_apply)
    have "\<forall>as' bs'. registry ?s1 as' bs' \<longrightarrow> ?a \<notin> set as' \<union> set bs'"
    proof (intro allI impI)
      fix as' bs' assume "registry ?s1 as' bs'"
      then have "clist (iq_links ?s1) irq_chip_list as'" "clist (iq_links ?s1) irq_data_list bs'" by (simp_all add: registry_def)
      then have "as' = as" "bs' = bs" using r1 clist_unique unfolding registry_def by blast+
      then show "?a \<notin> set as' \<union> set bs'" using fr by auto
    qed
    from irq_register_chip_ok[OF ok1 _ _ _ _ this, of ?c pname] assms(2-4) fr obtain s' where
      "irq_register_chip ?a ?s1 = Some (None, s')" "irqs_ok s' (cs @ [plic_chip pname base (iq_end s)]) ds"
      "iq_hw s' = iq_hw s" "iq_ops s' = iq_ops s" "iq_handlers s' = iq_handlers s"
      by (auto simp: plic_chip_def)
    then show ?thesis using m True by (simp add: plic_probe_def Let_def)
  qed
qed

end
