(* ===== verification/Irq_Claims.thy ===== *)
theory Irq_Claims
  imports Irq_Props
begin

text \<open>
  Reachable states of the interrupt registry, its properties, and the bits of the PLIC.
\<close>

subsection \<open>Reachable states\<close>

text \<open>The static lists are empty; the PLIC is the one driver that registers chips.\<close>

definition irq_start :: "'h mmio \<Rightarrow> u32 \<Rightarrow> 'h irqs \<Rightarrow> bool" where
  "irq_start io cpu s \<longleftrightarrow>
     iq_links s = INIT_LIST_HEAD irq_data_list (INIT_LIST_HEAD irq_chip_list \<lparr>l_next = Map.empty, l_prev = Map.empty\<rparr>) \<and>
     iq_end s = 0 \<and> 2 \<le> iq_next s \<and> iq_ops s OPS_PLIC = plic_ops io cpu"

inductive irq_step :: "'h irqs \<Rightarrow> 'h irqs \<Rightarrow> bool" where
  step_probe: "plic_probe pname base s = Some (r, s') \<Longrightarrow> length pname \<noteq> 124 \<Longrightarrow> unat (iq_end s) + 1023 < 2 ^ 32 \<Longrightarrow> irq_step s s'"
| step_request: "irq_request irq func priv s = Some (r, s') \<Longrightarrow> irq_step s s'"
| step_free: "irqs_are s cs ds \<Longrightarrow> \<exists>d \<in> set ds. data_is irq func priv d \<Longrightarrow> irq_free irq func priv s = Some s' \<Longrightarrow> irq_step s s'"
| step_enable: "irq_enable irq s = Some s' \<Longrightarrow> irq_step s s'"
| step_disable: "irq_disable irq s = Some s' \<Longrightarrow> irq_step s s'"
| step_retrigger: "irq_retrigger irq s = Some s' \<Longrightarrow> irq_step s s'"
| step_interrupt: "irq_handler s = Some s' \<Longrightarrow> irq_step s s'"
| step_init: "irq_step s (irq_init s)"
| step_hardware: "irq_step s (s\<lparr>iq_hw := h\<rparr>)"

inductive irq_reach :: "'h mmio \<Rightarrow> u32 \<Rightarrow> 'h irqs \<Rightarrow> bool" for io cpu where
  reach_start: "irq_start io cpu s \<Longrightarrow> irq_reach io cpu s"
| reach_step: "irq_reach io cpu s \<Longrightarrow> irq_step s s' \<Longrightarrow> irq_reach io cpu s'"

definition is_plic :: "irq_chip \<Rightarrow> bool" where
  "is_plic c \<longleftrightarrow> (\<exists>pname base start. c = plic_chip pname base start)"

definition irq_inv :: "'h mmio \<Rightarrow> u32 \<Rightarrow> 'h irqs \<Rightarrow> bool" where
  "irq_inv io cpu s \<longleftrightarrow> iq_ops s OPS_PLIC = plic_ops io cpu \<and> (\<exists>cs ds. irqs_ok s cs ds \<and> (\<forall>c \<in> set cs. is_plic c))"

lemma irqs_are_unique:
  assumes "irqs_are s cs ds" "irqs_are s cs' ds'"
  shows "cs' = cs" "ds' = ds"
proof -
  obtain as bs as' bs' where r: "registry s as bs" "cs = chips_at s as" "ds = datas_at s bs"
    "registry s as' bs'" "cs' = chips_at s as'" "ds' = datas_at s bs'" using assms by (auto simp: irqs_are_def)
  have "as' = as" "bs' = bs" using r(1,4) clist_unique unfolding registry_def by blast+
  then show "cs' = cs" "ds' = ds" using r by simp_all
qed

lemma plic_complete [simp]: "complete_ops (plic_ops io cpu)"
  by (simp add: complete_ops_def plic_ops_def)

lemma irq_inv_start: "irq_start io cpu s \<Longrightarrow> irq_inv io cpu s"
proof -
  assume a: "irq_start io cpu s"
  then have "registry s [] []" by (auto simp: irq_start_def registry_def clist_def INIT_LIST_HEAD_def irq_chip_list_def irq_data_list_def)
  then have "irqs_are s [] []" by (force simp: irqs_are_def chips_at_def datas_at_def)
  then show ?thesis using a unfolding irq_inv_def irq_start_def irqs_ok_def by (intro conjI exI[of _ "[]"]) simp_all
qed

lemma irq_inv_step:
  assumes "irq_inv io cpu s" "irq_step s s'"
  shows "irq_inv io cpu s'"
proof -
  obtain cs ds where ok: "irqs_ok s cs ds" "\<forall>c \<in> set cs. is_plic c" and ops: "iq_ops s OPS_PLIC = plic_ops io cpu"
    using assms(1) by (auto simp: irq_inv_def)
  have complete: "\<And>c. c \<in> set cs \<Longrightarrow> complete_ops (iq_ops s (ic_ops c))" using ok(1) by (simp add: irqs_ok_def)
  have hw: "irq_inv io cpu (s\<lparr>iq_hw := h\<rparr>)" for h using assms(1) by (simp add: irq_inv_def)
  have on: "irq_inv io cpu s'" if o: "on_irq sel irq s = Some s'" and t: "\<And>c. c \<in> set cs \<Longrightarrow> sel (iq_ops s (ic_ops c)) \<noteq> None" for sel irq
  proof -
    obtain h where "on_irq sel irq s = Some (s\<lparr>iq_hw := h\<rparr>)" using on_irq_ok[of s cs ds sel irq, OF ok(1) t] by blast
    then show ?thesis using o hw by simp
  qed
  from assms(2) show ?thesis
  proof cases
    case (step_probe pname base r)
    with plic_probe_ok[OF ok(1), of pname base] ops have
      "irqs_ok s' (cs @ [plic_chip pname base (iq_end s)]) ds \<or> irqs_ok s' cs ds" "iq_ops s' = iq_ops s"
      by (auto split: if_splits)
    moreover have "\<forall>c \<in> set (cs @ [plic_chip pname base (iq_end s)]). is_plic c" using ok(2) by (auto simp: is_plic_def)
    ultimately show ?thesis using ops ok(2) unfolding irq_inv_def by metis
  next
    case (step_request irq func priv r)
    with irq_request_ok[OF ok(1), of irq func priv] ops ok(2) show ?thesis
      by (auto simp: irq_inv_def split: option.splits)
  next
    case (step_free cs' ds' irq func priv)
    have "ds' = ds" using irqs_are_unique(2)[of s cs ds cs' ds'] step_free(1) ok(1) by (simp add: irqs_ok_def)
    with irq_free_ok[OF ok(1), of irq func priv] step_free ops ok(2) show ?thesis by (auto simp: irq_inv_def)
  next
    case (step_enable irq)
    then show ?thesis using complete by (intro on[of co_enable irq]) (auto simp: irq_enable_def complete_ops_def)
  next
    case (step_disable irq)
    then show ?thesis using complete by (intro on[of co_disable irq]) (auto simp: irq_disable_def complete_ops_def)
  next
    case (step_retrigger irq)
    then show ?thesis using complete by (intro on[of co_retrigger irq]) (auto simp: irq_retrigger_def complete_ops_def)
  next
    case step_interrupt
    then show ?thesis using irq_handler_ok[OF ok(1)] hw by auto
  next
    case step_init
    have "irqs_ok (irq_init s) cs ds = irqs_ok s cs ds" by (rule irqs_ok_cong) (simp_all add: irq_init_def)
    then show ?thesis using step_init ops ok by (auto simp: irq_inv_def irq_init_def)
  next
    case (step_hardware h)
    then show ?thesis using hw by simp
  qed
qed

lemma irq_reach_inv: "irq_reach io cpu s \<Longrightarrow> irq_inv io cpu s"
  by (induction rule: irq_reach.induct) (auto intro: irq_inv_start irq_inv_step)

subsection \<open>The properties\<close>

text \<open>
  C40: Interrupt numbers. In every state the boot loader can reach by probing PLICs, requesting and
  releasing handlers, switching interrupts and serving them, while the hardware does what it likes: every
  input \<open>k + 1\<close> of every chip has a number, from which \<open>find_irq_chip\<close> gives back this chip and this input,
  and no two inputs share one; a number that was not given out is found nowhere.
\<close>
theorem irq_numbers_roundtrip:
  assumes "irq_reach io cpu s"
  shows "\<exists>cs ds. irqs_are s cs ds \<and>
    (\<forall>i < length cs. \<forall>k < 1023.
       (\<exists>a. find_irq_chip (irq_get (cs ! i) (k + 1)) s = Some (Some (a, k + 1)) \<and> iq_chips s a = Some (cs ! i)) \<and>
       (\<forall>j < length cs. \<forall>k' < 1023. irq_get (cs ! i) (k + 1) = irq_get (cs ! j) (k' + 1) \<longrightarrow> i = j \<and> k = k')) \<and>
    (\<forall>irq \<ge> iq_end s. find_irq_chip irq s = Some None)"
proof -
  obtain cs ds where ok: "irqs_ok s cs ds" and plic: "\<forall>c \<in> set cs. is_plic c"
    using irq_reach_inv[OF assms] by (auto simp: irq_inv_def)
  obtain as bs where r: "registry s as bs" "cs = chips_at s as" "irqs_are s cs ds" and lay: "laid_out cs 0 (unat (iq_end s))"
    using ok by (auto simp: irqs_ok_def irqs_are_def)
  have bound: "unat (iq_end s) < 2 ^ 32" using unsigned_less[of "iq_end s", where ?'a = nat] by simp
  have at: "find_irq_chip irq s = Some (map_option (\<lambda>a. (a, hw_number (the (iq_chips s a)) irq)) (List.find (\<lambda>a. in_range irq (the (iq_chips s a))) as))"
    and fm: "List.find (in_range irq) cs = map_option (\<lambda>a. the (iq_chips s a)) (List.find (\<lambda>a. in_range irq (the (iq_chips s a))) as)" for irq
    using find_irq_chip_at[OF r(1)] by (simp_all add: hw_number_def r(2) chips_at_def find_map)
  have c: "ic_hwirq_start (cs ! i) = 1" "ic_irq_count (cs ! i) = 1023" if "i < length cs" for i
    using plic nth_mem[OF that] by (auto simp: is_plic_def plic_chip_def)
  have get: "irq_get (cs ! i) (k + 1) = ic_irq_start (cs ! i) + k" if "i < length cs" for i k using c[OF that] by (simp add: irq_get_def)
  have num: "List.find (in_range (irq_get (cs ! i) (k + 1))) cs = Some (cs ! i)"
    "\<forall>j < length cs. in_range (irq_get (cs ! i) (k + 1)) (cs ! j) \<longrightarrow> j = i" if "i < length cs" "k < 1023" for i k
    using laid_out_number[OF lay bound that(1), of k] that(2) c[OF that(1)] get[OF that(1)] by auto
  have found: "\<exists>a. find_irq_chip (irq_get (cs ! i) (k + 1)) s = Some (Some (a, k + 1)) \<and> iq_chips s a = Some (cs ! i)"
    if ik: "i < length cs" "k < 1023" for i k
  proof -
    obtain a where a: "List.find (\<lambda>a. in_range (irq_get (cs ! i) (k + 1)) (the (iq_chips s a))) as = Some a" "the (iq_chips s a) = cs ! i"
      using num(1)[OF ik] fm by auto
    have "a \<in> set as" using a(1) by (auto simp: find_Some_iff)
    then have "iq_chips s a = Some (cs ! i)" using r(1) a(2) by (auto simp: registry_def)
    moreover have "hw_number (cs ! i) (irq_get (cs ! i) (k + 1)) = k + 1" using c[OF ik(1)] get[OF ik(1)] by (simp add: hw_number_def)
    ultimately show ?thesis using at a by simp
  qed
  have uniq: "i = j \<and> k = k'" if "i < length cs" "k < 1023" "j < length cs" "k' < 1023" "irq_get (cs ! i) (k + 1) = irq_get (cs ! j) (k' + 1)" for i j k k'
  proof -
    have "cs ! i = cs ! j" using num(1)[OF that(1,2)] num(1)[OF that(3,4)] that(5) by simp
    moreover have "in_range (irq_get (cs ! i) (k + 1)) (cs ! j)" using num(1)[OF that(3,4)] that(5) by (auto simp: find_Some_iff)
    ultimately show ?thesis using num(2)[OF that(1,2)] that get by auto
  qed
  have "find_irq_chip irq s = Some None" if "iq_end s \<le> irq" for irq
  proof -
    have "List.find (in_range irq) cs = None" using laid_out_find[OF lay bound, of irq] that by (simp add: word_le_nat_alt)
    then show ?thesis using at fm by simp
  qed
  with r(3) found uniq show ?thesis by blast
qed

text \<open>A register file, and two PLICs.\<close>

definition reg_io :: "(u64 \<Rightarrow> u32) mmio" where
  "reg_io = \<lparr>readl = (\<lambda>a h. (h a, h)), writel = (\<lambda>v a h. h(a := v))\<rparr>"

definition demo_irqs :: "(u64 \<Rightarrow> u32) irqs" where
  "demo_irqs = \<lparr>iq_chips = Map.empty, iq_datas = Map.empty,
     iq_links = INIT_LIST_HEAD irq_data_list (INIT_LIST_HEAD irq_chip_list \<lparr>l_next = Map.empty, l_prev = Map.empty\<rparr>),
     iq_end = 0, iq_next = 2, iq_heap = heap_init, iq_ops = (\<lambda>_. plic_ops reg_io 0),
     iq_handlers = (\<lambda>f d p h. (int f, h(0 := h 0 + ucast p))), iq_installed = False, iq_meie = False, iq_hw = (\<lambda>_. 0)\<rparr>"

lemma demo_irqs_start: "irq_start reg_io 0 demo_irqs"
  by (simp add: irq_start_def demo_irqs_def)

lemma demo_plic:
  obtains s where "irq_reach reg_io 0 s" "irqs_ok s [plic_chip ''plic'' 0x70000000 0] []" "iq_handlers s = iq_handlers demo_irqs"
    "iq_ops s = iq_ops demo_irqs" "fst (malloc (iq_heap s))"
proof -
  have reach: "irq_reach reg_io 0 demo_irqs" by (rule reach_start[OF demo_irqs_start])
  have "registry demo_irqs [] []"
    by (simp add: demo_irqs_def registry_def clist_def INIT_LIST_HEAD_def irq_chip_list_def irq_data_list_def)
  then have "irqs_are demo_irqs [] []" by (force simp: irqs_are_def chips_at_def datas_at_def)
  then have "irqs_ok demo_irqs [] []" by (simp add: irqs_ok_def demo_irqs_def)
  from plic_probe_ok[OF this, of "''plic''" "0x70000000"] obtain r s where
    s: "plic_probe ''plic'' 0x70000000 demo_irqs = Some (r, s)" "irqs_ok s [plic_chip ''plic'' 0x70000000 0] []"
    "iq_handlers s = iq_handlers demo_irqs" "iq_ops s = iq_ops demo_irqs"
    by (auto simp: demo_irqs_def malloc_def heap_init_def)
  have "irq_reach reg_io 0 s" by (rule reach_step[OF reach step_probe[OF s(1)]]) (simp_all add: demo_irqs_def)
  moreover have "fst (malloc (iq_heap s))" 
    using s(1) by (auto simp: plic_probe_def irq_register_chip_def demo_irqs_def malloc_def heap_init_def Let_def alloc_irq_def
        mfree_def list_add_tail_def bind_eq_Some_conv split: if_splits option.splits)
  ultimately show thesis using s(2-4) by (intro that)
qed

theorem irq_numbers_roundtrip_witness:
  "\<exists>s a. irq_reach reg_io 0 s \<and> find_irq_chip (irq_get (plic_chip ''plic'' 0x70000000 0) 5) s = Some (Some (a, 5)) \<and>
    find_irq_chip 1023 s = Some None"
proof -
  obtain s where s: "irq_reach reg_io 0 s" "irqs_ok s [plic_chip ''plic'' 0x70000000 0] []" by (rule demo_plic)
  from irq_numbers_roundtrip[OF s(1)] obtain cs ds where c: "irqs_are s cs ds"
    "\<forall>i < length cs. \<forall>k < 1023. \<exists>a. find_irq_chip (irq_get (cs ! i) (k + 1)) s = Some (Some (a, k + 1)) \<and> iq_chips s a = Some (cs ! i)"
    "\<forall>irq \<ge> iq_end s. find_irq_chip irq s = Some None" by auto
  have cs: "cs = [plic_chip ''plic'' 0x70000000 0]" using irqs_are_unique(1)[of s "[plic_chip ''plic'' 0x70000000 0]" "[]" cs ds] c(1) s(2) by (simp add: irqs_ok_def)
  have "unat (iq_end s) = 1023" using s(2) by (simp add: irqs_ok_def plic_chip_def)
  then have "iq_end s \<le> 1023" by (simp add: word_le_nat_alt)
  then have "find_irq_chip 1023 s = Some None" using c(3) by blast
  moreover have "\<exists>a. find_irq_chip (irq_get (plic_chip ''plic'' 0x70000000 0) 5) s = Some (Some (a, 5))"
    using c(2)[rule_format, of 0 4] cs by auto
  ultimately show ?thesis using s(1) by blast
qed

text \<open>
  C39: The interrupt registry refines lists of chips and handlers. An interrupt is that of the first chip
  that claims one: it is acknowledged, the handlers of its number run in the order of their
  registration until one says that it has handled it, and only if none does the chip is told the end.
  \<open>irq_request\<close> appends a handler and enables the interrupt, unless there is no memory or no chip.
  \<open>irq_free\<close> removes the first handler with these arguments; if there is none, it takes the head out of the
  list, and the next interrupt follows a NULL pointer.
\<close>
theorem irq_registry_refines:
  assumes "irqs_ok s cs ds"
  shows "irq_handler s = Some (s\<lparr>iq_hw := interrupt_spec (iq_ops s) (iq_handlers s) cs ds (iq_hw s)\<rparr>) \<and>
    (\<exists>s'. irq_request irq func priv s = Some (None, s') \<and> iq_ops s' = iq_ops s \<and> iq_handlers s' = iq_handlers s \<and> iq_end s' = iq_end s \<and>
      (case (if fst (malloc (iq_heap s)) then List.find (in_range irq) cs else None) of
         None \<Rightarrow> irqs_ok s' cs ds \<and> iq_hw s' = iq_hw s
       | Some c \<Rightarrow>
           (\<exists>p. irqs_ok s' cs (ds @ [\<lparr>id_hwirq = hw_number c irq, id_irq = irq, id_parent = p, id_handler = func, id_data = priv\<rparr>])) \<and>
           iq_hw s' = the (co_enable (iq_ops s (ic_ops c))) (ic_priv c) (hw_number c irq) (iq_hw s))) \<and>
    (\<exists>s'. irq_free irq func priv s = Some s' \<and>
      (if \<exists>d \<in> set ds. data_is irq func priv d
       then irqs_ok s' cs (remove_first (data_is irq func priv) ds) \<and> iq_hw s' = iq_hw s
       else \<forall>h. fst (claim_spec (iq_ops s) cs h) \<noteq> None \<longrightarrow> irq_handler (s'\<lparr>iq_hw := h\<rparr>) = None))"
proof (intro conjI)
  show "irq_handler s = Some (s\<lparr>iq_hw := interrupt_spec (iq_ops s) (iq_handlers s) cs ds (iq_hw s)\<rparr>)" using assms by (rule irq_handler_ok)
  show "\<exists>s'. irq_free irq func priv s = Some s' \<and>
      (if \<exists>d \<in> set ds. data_is irq func priv d
       then irqs_ok s' cs (remove_first (data_is irq func priv) ds) \<and> iq_hw s' = iq_hw s
       else \<forall>h. fst (claim_spec (iq_ops s) cs h) \<noteq> None \<longrightarrow> irq_handler (s'\<lparr>iq_hw := h\<rparr>) = None)"
    using irq_free_ok[OF assms, of irq func priv] irq_free_unknown[OF assms, of irq func priv]
    by (cases "\<exists>d \<in> set ds. data_is irq func priv d") (simp only: if_True if_False, blast)+
qed (rule irq_request_ok[OF assms])

text \<open>A handler of input 5 that has handled it: the PLIC is not told the end.\<close>

theorem irq_registry_refines_witness:
  "\<exists>s s1. irq_reach reg_io 0 s \<and> irq_request 4 (Some 1) 7 s = Some (None, s1) \<and>
    (let h = (iq_hw s1)(plic_context 0x70000000 0 + 4 := 5)
     in irq_handler (s1\<lparr>iq_hw := h\<rparr>) = Some (s1\<lparr>iq_hw := h(0 := h 0 + 7)\<rparr>))"
proof -
  let ?c = "plic_chip ''plic'' 0x70000000 0"
  obtain s where s: "irq_reach reg_io 0 s" "irqs_ok s [?c] []" "iq_handlers s = iq_handlers demo_irqs"
    "iq_ops s = iq_ops demo_irqs" "fst (malloc (iq_heap s))" by (rule demo_plic)
  have rng: "List.find (in_range 4) [?c] = Some ?c" by (simp add: in_range_def plic_chip_def)
  obtain s1 p where s1: "irq_request 4 (Some 1) 7 s = Some (None, s1)" "iq_ops s1 = iq_ops s" "iq_handlers s1 = iq_handlers s"
    "irqs_ok s1 [?c] [\<lparr>id_hwirq = hw_number ?c 4, id_irq = 4, id_parent = p, id_handler = Some 1, id_data = 7\<rparr>]"
    using irq_registry_refines[OF s(2), of 4 "Some 1" 7, THEN conjunct2, THEN conjunct1] rng s(5) by auto
  let ?h = "(iq_hw s1)(plic_context 0x70000000 0 + 4 := 5)"
  let ?ds = "[\<lparr>id_hwirq = hw_number ?c 4, id_irq = 4, id_parent = p, id_handler = Some 1, id_data = 7\<rparr>]"
  have "interrupt_spec (iq_ops s1) (iq_handlers s1) [?c] ?ds ?h = ?h(0 := ?h 0 + 7)"
    by (simp add: interrupt_spec_def s1(2,3) s(3,4) demo_irqs_def plic_ops_def plic_claim_irq_def get_claim_def reg_io_def
        plic_chip_def opt_call_def irq_get_def IRQ_HANDLED_def Let_def)
  then have "irq_handler (s1\<lparr>iq_hw := ?h\<rparr>) = Some (s1\<lparr>iq_hw := ?h(0 := ?h 0 + 7)\<rparr>)"
    using irq_registry_refines[THEN conjunct1, of "s1\<lparr>iq_hw := ?h\<rparr>" "[?c]" ?ds] s1(4) by simp
  with s(1) s1(1) show ?thesis by (intro exI[of _ s] exI[of _ s1]) (simp add: Let_def)
qed

end
