(* ===== verification/Mac.thy ===== *)
theory Mac
  imports Config Stdio
begin

text \<open>
  MAC addresses, \<open>lib/mac/mac.c\<close>, and the two formats of numbers that the boards print. A string is the
  list of its bytes without the NUL.
\<close>

definition isxdigit :: "u8 \<Rightarrow> bool" where
  "isxdigit c \<longleftrightarrow> 48 \<le> c \<and> c \<le> 57 \<or> 65 \<le> c \<and> c \<le> 70 \<or> 97 \<le> c \<and> c \<le> 102"

text \<open>Byte \<open>i\<close> of a little-endian number is assigned.\<close>

definition set_byte :: "nat \<Rightarrow> u8 \<Rightarrow> u64 \<Rightarrow> u64" where
  "set_byte i b w = (w AND NOT (push_bit (8 * i) 0xff)) OR push_bit (8 * i) (ucast b)"

definition str2mac :: "u8 list option \<Rightarrow> u64" where
  "str2mac s =
     (case s of
        None \<Rightarrow> 0
      | Some str \<Rightarrow>
          if 58 \<notin> set str then strtoul_value str
          else
            (let p = dropWhile (\<lambda>c. \<not> isxdigit c) str
             in if length p < 17 then 0
                else fold (\<lambda>i mac. set_byte (5 - i) (ucast (strtoul_value (drop (3 * i) p))) mac) [0..<6] 0))"

definition mac_byte :: "u64 \<Rightarrow> nat \<Rightarrow> u8" where
  "mac_byte mac i = ucast (drop_bit (40 - 8 * i) mac AND 0xff)"

text \<open>\<open>%02llx\<close> and \<open>%llx\<close>.\<close>

definition hex_of :: "u64 \<Rightarrow> u8 list" where
  "hex_of u = (if u = 0 then [48] else udigits 16 97 (unat u))"

definition hex2_of :: "u64 \<Rightarrow> u8 list" where
  "hex2_of u = replicate (2 - length (hex_of u)) 48 @ hex_of u"

definition mac2str :: "u64 \<Rightarrow> u8 list" where
  "mac2str mac =
     hex2_of (drop_bit 40 mac AND 0xff) @ [58] @ hex2_of (drop_bit 32 mac AND 0xff) @ [58] @
     hex2_of (drop_bit 24 mac AND 0xff) @ [58] @ hex2_of (drop_bit 16 mac AND 0xff) @ [58] @
     hex2_of (drop_bit 8 mac AND 0xff) @ [58] @ hex2_of (mac AND 0xff)"

definition mac2byte :: "u64 \<Rightarrow> u8 list" where
  "mac2byte mac = map (mac_byte mac) [0..<6]"

end
