(* ===== verification/Dtb.thy ===== *)
theory Dtb
  imports Mac Plat
begin

text \<open>
  The edits of the device tree on a SG2044 board, \<open>plat/sg2044/mp/zsbl/plat.c\<close>. A device tree in memory is
  a value \<open>'t\<close>; what libfdt does with it is the parameter \<open>fdt_ops\<close>, with the results of its functions. The
  value of a property is the list of its bytes.
\<close>

subsection \<open>libfdt\<close>

text \<open>
  \<open>fo_open_into src dst size\<close> gives what is then at the destination; \<open>fo_overlay_apply\<close> changes the
  first tree.
\<close>

record 't fdt_ops =
  fo_totalsize :: "'t \<Rightarrow> u32"
  fo_open_into :: "'t \<Rightarrow> 't \<Rightarrow> u32 \<Rightarrow> int \<times> 't"
  fo_overlay_apply :: "'t \<Rightarrow> 't \<Rightarrow> int \<times> 't"
  fo_path_offset :: "'t \<Rightarrow> string \<Rightarrow> int"
  fo_del_node :: "'t \<Rightarrow> int \<Rightarrow> int \<times> 't"
  fo_add_subnode :: "'t \<Rightarrow> int \<Rightarrow> string \<Rightarrow> int \<times> 't"
  fo_setprop :: "'t \<Rightarrow> int \<Rightarrow> string \<Rightarrow> u8 list \<Rightarrow> int \<times> 't"
  fo_getprop :: "'t \<Rightarrow> int \<Rightarrow> string \<Rightarrow> u8 list option"
  fo_appendprop_addrrange :: "'t \<Rightarrow> int \<Rightarrow> int \<Rightarrow> string \<Rightarrow> u64 \<Rightarrow> u64 \<Rightarrow> int \<times> 't"

definition be32 :: "u32 \<Rightarrow> u8 list" where
  "be32 w = map (\<lambda>i. ucast (drop_bit (8 * (3 - i)) w)) [0..<4]"

definition be64 :: "u64 \<Rightarrow> u8 list" where
  "be64 w = map (\<lambda>i. ucast (drop_bit (8 * (7 - i)) w)) [0..<8]"

definition fdt_setprop_string :: "'t fdt_ops \<Rightarrow> 't \<Rightarrow> int \<Rightarrow> string \<Rightarrow> string \<Rightarrow> int \<times> 't" where
  "fdt_setprop_string ops t off name s = fo_setprop ops t off name (bytes s @ [0])"

definition fdt_setprop_u32 :: "'t fdt_ops \<Rightarrow> 't \<Rightarrow> int \<Rightarrow> string \<Rightarrow> u32 \<Rightarrow> int \<times> 't" where
  "fdt_setprop_u32 ops t off name v = fo_setprop ops t off name (be32 v)"

definition fdt_setprop_u64 :: "'t fdt_ops \<Rightarrow> 't \<Rightarrow> int \<Rightarrow> string \<Rightarrow> u64 \<Rightarrow> int \<times> 't" where
  "fdt_setprop_u64 ops t off name v = fo_setprop ops t off name (be64 v)"

subsection \<open>The tree and its overlay\<close>

text \<open>\<open>ROUND_UP(tree + overlay + 16 * 1024, 8)\<close> in 32 bits.\<close>

definition dtb_space :: "u32 \<Rightarrow> u32 \<Rightarrow> u32" where
  "dtb_space dtb_size dtbo_size = (dtb_size + dtbo_size + 16 * 1024 + 7) AND NOT 7"

text \<open>\<open>dtb\<close> is what is at the address of the tree, \<open>builtin\<close> the tree of \<open>dtb_get_base\<close>, \<open>dtbo\<close> the overlay.\<close>

definition sg2044_load_dtbs :: "'t fdt_ops \<Rightarrow> config \<Rightarrow> 't \<Rightarrow> 't \<Rightarrow> 't \<Rightarrow> 't" where
  "sg2044_load_dtbs ops cfg builtin dtbo dtb =
     (let dtbi = (if bf_name (cf_dtb cfg) \<noteq> None then dtb else builtin);
          dtbo_size = (if bf_addr (cf_dtbo cfg) \<noteq> 0 then fo_totalsize ops dtbo else 0)
      in snd (fo_open_into ops dtbi dtb (dtb_space (fo_totalsize ops dtbi) dtbo_size)))"

definition merge_dtbs :: "'t fdt_ops \<Rightarrow> boot_file \<Rightarrow> 't \<Rightarrow> 't \<Rightarrow> 't" where
  "merge_dtbs ops dtbo_file dtbo dtb =
     (if bf_addr dtbo_file = 0 \<or> bf_name dtbo_file = None \<or> bf_name dtbo_file = Some [] then dtb
      else snd (fo_overlay_apply ops dtb dtbo))"

subsection \<open>Memory, performance, kernel arguments\<close>

partial_function (option) del_memory_nodes :: "'t fdt_ops \<Rightarrow> 't \<Rightarrow> 't option" where
  "del_memory_nodes ops t =
     (let off = fo_path_offset ops t ''/memory''
      in if off \<ge> 0 then del_memory_nodes ops (snd (fo_del_node ops t off)) else Some t)"

definition dram_base :: u64 where "dram_base = 0x80000000"

definition system_memory_size :: "config \<Rightarrow> u64" where
  "system_memory_size cfg = ucast (dr_channel_number (cf_dram cfg)) * dr_capacity (cf_dram cfg) - cf_reserved_memory_size cfg"

definition modify_memory_node :: "'t fdt_ops \<Rightarrow> config \<Rightarrow> 't \<Rightarrow> 't option" where
  "modify_memory_node ops cfg t =
     do { t1 \<leftarrow> del_memory_nodes ops t;
          let root = fo_path_offset ops t1 ''/'';
          let (off, t2) = fo_add_subnode ops t1 root (''memory@'' @ chars (hex_of dram_base));
          (if off < 0 then Some t2
           else
             (let (r, t3) = fo_appendprop_addrrange ops t2 root off ''reg'' dram_base (system_memory_size cfg)
              in if r \<noteq> 0 then Some t3 else Some (snd (fdt_setprop_string ops t3 off ''device_type'' ''memory'')))) }"

definition DVFS_ENTRY_MAX :: nat where "DVFS_ENTRY_MAX = 16"

text \<open>Up to the first entry without a voltage.\<close>

definition dvfs_used :: "dvfs_entry list \<Rightarrow> dvfs_entry list" where
  "dvfs_used es = takeWhile (\<lambda>e. dv_vol e \<noteq> 0) es"

definition dvfs_bytes :: "dvfs_entry \<Rightarrow> u8 list" where
  "dvfs_bytes e = be64 (dv_min e) @ be64 (dv_max e) @ be64 (dv_vol e)"

text \<open>The result of adding the node is not looked at.\<close>

definition add_cppc_node :: "'t fdt_ops \<Rightarrow> config \<Rightarrow> 't \<Rightarrow> 't option" where
  "add_cppc_node ops cfg t =
     (let soc = fo_path_offset ops t ''/soc''
      in if soc < 0 then Some t
         else
           do { op \<leftarrow> cf_op cfg;
                let (off, t1) = fo_add_subnode ops t soc ''cppc@0'';
                let t2 = snd (fdt_setprop_string ops t1 off ''compatible'' ''sophgo,sg2044-cppc'');
                let t3 = snd (fdt_setprop_u64 ops t2 off ''min-frequency'' (MHz 1000));
                let t4 = snd (fdt_setprop_u64 ops t3 off ''max-frequency'' (op_cpu_freq op));
                let t5 = snd (fdt_setprop_u64 ops t4 off ''step'' (MHz 25));
                let t6 = snd (fdt_setprop_string ops t5 off ''clock-names'' ''mpll1-clock'');
                let es = dvfs_used (op_dvfs op);
                (if length es = length (op_dvfs op) \<and> length es \<ge> DVFS_ENTRY_MAX then None
                 else if es = [] then Some t6
                 else Some (snd (fo_setprop ops t6 off ''frequency-voltage-relationship'' (concat (map dvfs_bytes es))))) })"

definition of_get_chosen :: "'t fdt_ops \<Rightarrow> 't \<Rightarrow> int \<times> 't" where
  "of_get_chosen ops t =
     (let node = fo_path_offset ops t ''/chosen''
      in if node < 0
         then
           (let root = fo_path_offset ops t ''/''; (n, t1) = fo_add_subnode ops t root ''chosen''
            in if n < 0 then (-1, t1) else (n, t1))
         else (node, t))"

definition modify_initramfs :: "'t fdt_ops \<Rightarrow> config \<Rightarrow> 't \<Rightarrow> int \<times> 't" where
  "modify_initramfs ops cfg t =
     (if bf_name (cf_ramfs cfg) = None then (0, t)
      else
        (let start = bf_addr (cf_ramfs cfg); size = bf_size (cf_ramfs cfg); (node, t1) = of_get_chosen ops t
         in if node < 0 then (node, t1)
            else
              (let (r, t2) = fdt_setprop_u64 ops t1 node ''linux,initrd-start'' start
               in if r < 0 then (-1, t2)
                  else
                    (let (r, t3) = fdt_setprop_u64 ops t2 node ''linux,initrd-end'' (start + size)
                     in if r < 0 then (-1, t3) else (0, t3)))))"

definition modify_bootargs :: "'t fdt_ops \<Rightarrow> config \<Rightarrow> 't \<Rightarrow> int \<times> 't" where
  "modify_bootargs ops cfg t =
     (case cf_bootargs cfg of
        None \<Rightarrow> (0, t)
      | Some args \<Rightarrow>
          (let (node, t1) = of_get_chosen ops t
           in if node < 0 then (node, t1)
              else (let (r, t2) = fdt_setprop_string ops t1 node ''bootargs'' args in if r < 0 then (-1, t2) else (0, t2))))"

definition modify_dtb :: "'t fdt_ops \<Rightarrow> config \<Rightarrow> 't \<Rightarrow> 't \<Rightarrow> 't \<Rightarrow> 't option" where
  "modify_dtb ops cfg builtin dtbo dtb =
     do { t1 \<leftarrow> modify_memory_node ops cfg (merge_dtbs ops (cf_dtbo cfg) dtbo (sg2044_load_dtbs ops cfg builtin dtbo dtb));
          t2 \<leftarrow> add_cppc_node ops cfg t1;
          Some (snd (modify_bootargs ops cfg (snd (modify_initramfs ops cfg t2)))) }"

end
