(* ===== verification/Sg2042.thy ===== *)
theory Sg2042
  imports Dtb
begin

text \<open>
  The boot of a SG2042 board, \<open>plat/sg2042/mp/zsbl/config.h\<close>, \<open>config.c\<close> and \<open>plat.c\<close>: one or two chips with four
  memory channels each, the configuration, the images, the device tree and the handover.

  A register is read through the parameter \<open>rd\<close>. As on the SG2044, where the code hangs on purpose the
  result is \<open>None\<close>, as for a fault; libfdt and the command line are parameters. \<open>USE_LINUX_BOOT\<close> is the
  parameter \<open>linux\<close>.
\<close>

subsection \<open>The configuration\<close>

record ddr_info =
  dd_base :: u64
  dd_size :: u64

record config42 =
  c2_mac0 :: u64
  c2_mac1 :: u64
  c2_sbi :: boot_file
  c2_kernel :: boot_file
  c2_dtb :: boot_file
  c2_dtbo :: boot_file
  c2_ramfs :: boot_file
  c2_board_type :: int
  c2_bootargs :: "string option"
  c2_multi_socket_mode :: bool
  c2_ddr :: "nat \<Rightarrow> nat \<Rightarrow> ddr_info"

definition MAX_CHIP_NUM :: nat where "MAX_CHIP_NUM = 2"
definition DDR_CHANNEL_NUM :: nat where "DDR_CHANNEL_NUM = 4"
definition CLUSTER_PER_CHIP :: nat where "CLUSTER_PER_CHIP = 16"
definition CORES_PER_CLUSTER :: nat where "CORES_PER_CLUSTER = 4"
definition MAX_PHY_ADDR_WIDTH :: u64 where "MAX_PHY_ADDR_WIDTH = 40"
definition CHIP_ADDR_SPACE :: u64 where "CHIP_ADDR_SPACE = push_bit 39 1"
definition DDR_SIZE_ZERO :: u64 where "DDR_SIZE_ZERO = 41"
definition TOP_BASE :: u64 where "TOP_BASE = 0x7030010000"
definition BOOT_SEL_ADDR :: u64 where "BOOT_SEL_ADDR = TOP_BASE + 0x4"
definition DDR_SIZE_ADDR :: u64 where "DDR_SIZE_ADDR = TOP_BASE + 0x54"
definition BOARD_TYPE_REG :: u64 where "BOARD_TYPE_REG = TOP_BASE + 0x23C"
definition MP0_STATUS_ADDR :: u64 where "MP0_STATUS_ADDR = TOP_BASE + 0x380"
definition MP0_CONTROL_ADDR :: u64 where "MP0_CONTROL_ADDR = TOP_BASE + 0x384"
definition TOP_RESET_BASE :: u64 where "TOP_RESET_BASE = 0x7030013000"
definition SD_RESET_INDEX :: nat where "SD_RESET_INDEX = 28"

definition sg2042_config_init :: "bool \<Rightarrow> config42 \<Rightarrow> config42" where
  "sg2042_config_init linux cfg =
     cfg\<lparr>c2_sbi := (c2_sbi cfg)\<lparr>bf_name := Some ''fw_dynamic.bin'', bf_addr := 0\<rparr>,
       c2_dtb := (c2_dtb cfg)\<lparr>bf_name := None, bf_addr := 0x20000000\<rparr>,
       c2_dtbo := (if linux then (c2_dtbo cfg)\<lparr>bf_name := None, bf_addr := 0\<rparr>
                   else (c2_dtbo cfg)\<lparr>bf_name := Some ''mango-sophgo-pisces.dtbo'', bf_addr := 0x28000000\<rparr>),
       c2_kernel := (c2_kernel cfg)\<lparr>bf_name := Some (if linux then ''riscv64_Image'' else ''SRA1-20.fd''), bf_addr := 0x02000000\<rparr>,
       c2_ramfs := (c2_ramfs cfg)\<lparr>bf_name := (if linux then Some ''initrd.img'' else None), bf_addr := 0x30000000\<rparr>\<rparr>"

subsection \<open>Memory channels\<close>

text \<open>The byte of the channel says how many bits fewer than the physical addresses its size has; RISC-V shifts by the low six bits of a count.\<close>

definition get_ddr_size :: "u64 \<Rightarrow> nat \<Rightarrow> u64" where
  "get_ddr_size ddr_reg_size ddr_channel =
     (let b = drop_bit (8 * ddr_channel) (push_bit (8 * ddr_channel) 0xff AND ddr_reg_size)
      in if b = DDR_SIZE_ZERO then 0 else push_bit (unat ((MAX_PHY_ADDR_WIDTH - b) AND 63)) 1)"

definition set_ddr :: "nat \<Rightarrow> nat \<Rightarrow> ddr_info \<Rightarrow> config42 \<Rightarrow> config42" where
  "set_ddr i j d cfg = cfg\<lparr>c2_ddr := (c2_ddr cfg)(i := (c2_ddr cfg i)(j := d))\<rparr>"

text \<open>The channels of a chip, from channel \<open>j\<close> on, at \<open>base\<close>.\<close>

fun ddr_channels :: "u64 \<Rightarrow> nat \<Rightarrow> nat list \<Rightarrow> u64 \<Rightarrow> config42 \<Rightarrow> config42" where
  "ddr_channels raw chip [] base cfg = cfg"
| "ddr_channels raw chip (j # js) base cfg =
     (let size = get_ddr_size raw j
      in ddr_channels raw chip js (base + size) (set_ddr chip j \<lparr>dd_base = base, dd_size = size\<rparr> cfg))"

definition build_ddr_info :: "(u64 \<Rightarrow> u32) \<Rightarrow> nat \<Rightarrow> config42 \<Rightarrow> config42" where
  "build_ddr_info rd chip cfg =
     ddr_channels (ucast (rd (of_nat chip * 0x8000000000 + DDR_SIZE_ADDR))) chip [0..<DDR_CHANNEL_NUM] (dd_base (c2_ddr cfg chip 0)) cfg"

definition dtb_names :: "string list" where
  "dtb_names = [''mango-sophgo-x8evb.dtb'', ''mango-milkv-pioneer.dtb'', ''mango-sophgo-pisces.dtb'', ''mango-sophgo-x4evb.dtb'']"

definition kernel_names :: "string list" where
  "kernel_names = [''SG2042-EVB.fd'', ''MilkV-Pioneer.fd'', ''SRA1-20.fd'', ''SG2042-EVB.fd'']"

definition BOARD_TYPE_MIN :: int where "BOARD_TYPE_MIN = 2"
definition BOARD_TYPE_MAX :: int where "BOARD_TYPE_MAX = 5"

definition name_board :: "bool \<Rightarrow> config42 \<Rightarrow> config42" where
  "name_board linux cfg =
     (let b = c2_board_type cfg
      in if b \<ge> BOARD_TYPE_MIN \<and> b \<le> BOARD_TYPE_MAX
         then
           (let cfg1 = cfg\<lparr>c2_dtb := (c2_dtb cfg)\<lparr>bf_name := Some (dtb_names ! nat (b - BOARD_TYPE_MIN))\<rparr>\<rparr>
            in if linux then cfg1
               else cfg1\<lparr>c2_kernel := (c2_kernel cfg1)\<lparr>bf_name := Some (kernel_names ! nat (b - BOARD_TYPE_MIN))\<rparr>\<rparr>)
         else cfg)"

text \<open>The chips that are there.\<close>

definition chip_num :: "config42 \<Rightarrow> nat" where
  "chip_num cfg = (if c2_multi_socket_mode cfg then MAX_CHIP_NUM else 1)"

definition build_board_info :: "bool \<Rightarrow> (u64 \<Rightarrow> u32) \<Rightarrow> config42 \<Rightarrow> config42" where
  "build_board_info linux rd cfg =
     (let cfg1 = name_board linux (cfg\<lparr>c2_multi_socket_mode := bit (rd BOOT_SEL_ADDR) 15, c2_board_type := sint (rd BOARD_TYPE_REG)\<rparr>);
          cfg2 = fold (\<lambda>i c. set_ddr i 0 ((c2_ddr c i 0)\<lparr>dd_base := CHIP_ADDR_SPACE * of_nat i\<rparr>) c) [0..<MAX_CHIP_NUM] cfg1
      in fold (build_ddr_info rd) [0..<chip_num cfg2] cfg2)"

subsection \<open>The file\<close>

text \<open>
  As the second group begins with an \<open>if\<close> of its own, an entry of the first group is taken and then
  reported as not accepted.
\<close>

definition sg2042_handler_img :: "(config42 \<times> heap_st) ini_handler" where
  "sg2042_handler_img user section name value =
     (let pconfig = fst user; h = snd user;
          MATCH = (\<lambda>s n. section = bytes s \<and> name = bytes n);
          dup = strdup_value value h;
          num = strtoul_value value;
          mac = str2mac (Some value)
      in if MATCH ''devicetree'' ''name''
         then (False, pconfig\<lparr>c2_dtb := (c2_dtb pconfig)\<lparr>bf_name := fst dup\<rparr>\<rparr>, snd dup)
         else if MATCH ''devicetree'' ''addr''
         then (False, pconfig\<lparr>c2_dtb := (c2_dtb pconfig)\<lparr>bf_addr := num\<rparr>\<rparr>, h)
         else if MATCH ''devicetree-overlay'' ''name''
         then (True, pconfig\<lparr>c2_dtbo := (c2_dtbo pconfig)\<lparr>bf_name := fst dup\<rparr>\<rparr>, snd dup)
         else if MATCH ''devicetree-overlay'' ''addr''
         then (True, pconfig\<lparr>c2_dtbo := (c2_dtbo pconfig)\<lparr>bf_addr := num\<rparr>\<rparr>, h)
         else if MATCH ''kernel'' ''name''
         then (True, pconfig\<lparr>c2_kernel := (c2_kernel pconfig)\<lparr>bf_name := fst dup\<rparr>\<rparr>, snd dup)
         else if MATCH ''kernel'' ''addr''
         then (True, pconfig\<lparr>c2_kernel := (c2_kernel pconfig)\<lparr>bf_addr := num\<rparr>\<rparr>, h)
         else if MATCH ''firmware'' ''name''
         then (True, pconfig\<lparr>c2_sbi := (c2_sbi pconfig)\<lparr>bf_name := fst dup\<rparr>\<rparr>, snd dup)
         else if MATCH ''firmware'' ''addr''
         then (True, pconfig\<lparr>c2_sbi := (c2_sbi pconfig)\<lparr>bf_addr := num\<rparr>\<rparr>, h)
         else if MATCH ''ramfs'' ''name''
         then (True, pconfig\<lparr>c2_ramfs := (c2_ramfs pconfig)\<lparr>bf_name := fst dup\<rparr>\<rparr>, snd dup)
         else if MATCH ''ramfs'' ''addr''
         then (True, pconfig\<lparr>c2_ramfs := (c2_ramfs pconfig)\<lparr>bf_addr := num\<rparr>\<rparr>, h)
         else if MATCH ''mac-address'' ''mac0'' then (True, pconfig\<lparr>c2_mac0 := mac\<rparr>, h)
         else if MATCH ''mac-address'' ''mac1'' then (True, pconfig\<lparr>c2_mac1 := mac\<rparr>, h)
         else if MATCH ''boot'' ''cmdline''
         then (True, pconfig\<lparr>c2_bootargs := fst dup\<rparr>, snd dup)
         else (False, pconfig, h))"

text \<open>
  The pointer from \<open>malloc\<close> (the parameter \<open>buf\<close>, or address 0 when it fails) is not checked; the result of \<open>bdm_load\<close> is
  not looked at. The buffer is freed on the last path only.
\<close>

definition sg2042_parse_config_file ::
  "boot_env \<Rightarrow> u64 \<Rightarrow> config42 \<Rightarrow> ('h, 'd) bdm \<Rightarrow> (errno option \<times> config42 \<times> ('h, 'd) bdm) option" where
  "sg2042_parse_config_file env buf cfg s =
     do { q \<leftarrow> bdm_get_file_size ''conf.ini'' s;
          (if fst q \<le> 0 then Some (Some ENOENT, cfg, snd q)
           else
             (let (ok, h) = malloc (k_heap (bm_k (snd q)));
                  a = (if ok then buf else 0)
              in do { r \<leftarrow> bdm_load ''conf.ini'' a (with_heap h (snd q));
                      (let s1 = snd r; m = bm_mem s1
                       in if strncmp m (be_header env) a 15 \<noteq> 0 then Some (Some EINVAL, cfg, s1)
                          else
                            do { eof \<leftarrow> strstr m a (be_tail env);
                                 (case eof of
                                    None \<Rightarrow> Some (Some EINVAL, cfg, s1)
                                  | Some p \<Rightarrow>
                                      (let m1 = m(p := 0)
                                       in do { n \<leftarrow> strlen m1 a;
                                               (case ini_parse_string (mem_bytes m1 a n) sg2042_handler_img (cfg, k_heap (bm_k s1)) of
                                                  (err, cfg1, h1) \<Rightarrow>
                                                    Some (None, cfg1,
                                                      with_heap (if ok then mfree h1 else h1) (s1\<lparr>bm_mem := m1\<rparr>))) })) }) })) }"

subsection \<open>The images\<close>

definition sg2042_load :: "boot_file \<Rightarrow> ('h, 'd) bdm \<Rightarrow> (boot_file \<times> ('h, 'd) bdm) option" where
  "sg2042_load file s =
     (case bf_name file of
        None \<Rightarrow> Some (file, s)
      | Some name \<Rightarrow>
          if name = [] then Some (file, s)
          else
            do { r \<leftarrow> bdm_load name (bf_addr file) s;
                 (if fst r \<le> 0 then None else Some (file\<lparr>bf_size := of_int (fst r)\<rparr>, snd r)) })"

definition sg2042_choose_dtbo :: "config42 \<Rightarrow> config42" where
  "sg2042_choose_dtbo cfg =
     (if bf_name (c2_dtb cfg) = None then cfg
      else if file_is_dtbo (bf_name (c2_dtb cfg))
      then cfg\<lparr>c2_dtbo := (c2_dtbo cfg)\<lparr>bf_name := bf_name (c2_dtb cfg)\<rparr>, c2_dtb := (c2_dtb cfg)\<lparr>bf_name := None\<rparr>\<rparr>
      else cfg\<lparr>c2_dtbo := (c2_dtbo cfg)\<lparr>bf_name := None\<rparr>\<rparr>)"

definition sg2042_load_images :: "config42 \<Rightarrow> ('h, 'd) bdm \<Rightarrow> (config42 \<times> ('h, 'd) bdm) option" where
  "sg2042_load_images cfg0 s =
     (let cfg = sg2042_choose_dtbo cfg0
      in do { a \<leftarrow> sg2042_load (c2_sbi cfg) s;
              b \<leftarrow> sg2042_load (c2_kernel cfg) (snd a);
              c \<leftarrow> sg2042_load (c2_dtb cfg) (snd b);
              d \<leftarrow> sg2042_load (c2_dtbo cfg) (snd c);
              e \<leftarrow> sg2042_load (c2_ramfs cfg) (snd d);
              Some (cfg\<lparr>c2_sbi := fst a, c2_kernel := fst b, c2_dtb := fst c, c2_dtbo := fst d, c2_ramfs := fst e\<rparr>, snd e) })"

subsection \<open>The device tree\<close>

definition sg2042_load_dtbs :: "'t fdt_ops \<Rightarrow> config42 \<Rightarrow> 't \<Rightarrow> 't \<Rightarrow> 't \<Rightarrow> 't" where
  "sg2042_load_dtbs ops cfg builtin dtbo dtb =
     (let dtbi = (if bf_name (c2_dtb cfg) \<noteq> None then dtb else builtin);
          dtbo_size = (if bf_name (c2_dtbo cfg) \<noteq> None then fo_totalsize ops dtbo else 0)
      in snd (fo_open_into ops dtbi dtb (dtb_space (fo_totalsize ops dtbi) dtbo_size)))"

definition add_memory_node :: "'t fdt_ops \<Rightarrow> u64 \<Rightarrow> u64 \<Rightarrow> nat \<Rightarrow> 't \<Rightarrow> 't" where
  "add_memory_node ops start len numa t =
     (if len = 0 then t
      else
        (let root = fo_path_offset ops t ''/'';
             (off, t1) = fo_add_subnode ops t root (''memory@'' @ chars (hex_of start))
         in if off < 0 then t1
            else
              (let t2 = snd (fdt_setprop_string ops t1 off ''device_type'' ''memory'');
                   t3 = snd (fo_appendprop_addrrange ops t2 root off ''reg'' start len)
               in snd (fdt_setprop_u32 ops t3 off ''numa-node-id'' (of_nat numa)))))"

text \<open>The window for the PCIe switch, cut out of the first channel.\<close>

definition reserved_start :: u64 where "reserved_start = 0xc0000000"
definition reserved_size :: u64 where "reserved_size = 0x40000000"

definition modify_channel :: "'t fdt_ops \<Rightarrow> config42 \<Rightarrow> nat \<Rightarrow> nat \<Rightarrow> 't \<Rightarrow> 't" where
  "modify_channel ops cfg i j t =
     (let start = dd_base (c2_ddr cfg i j);
          size = dd_size (c2_ddr cfg i j);
          numa = (if i = 0 then j else i * DDR_CHANNEL_NUM + j)
      in if i = 0 \<and> j = 0 \<and> reserved_start \<ge> start \<and> reserved_start + reserved_size \<le> start + size
         then
           (let t1 = add_memory_node ops start (reserved_start - start) numa t;
                size1 = (start + size) - (reserved_start + reserved_size);
                start1 = reserved_start + reserved_size
            in add_memory_node ops start1 size1 numa t1)
         else add_memory_node ops start size numa t)"

text \<open>The channels of a chip, up to the first without memory.\<close>

fun modify_channels :: "'t fdt_ops \<Rightarrow> config42 \<Rightarrow> nat \<Rightarrow> nat list \<Rightarrow> 't \<Rightarrow> 't" where
  "modify_channels ops cfg i [] t = t"
| "modify_channels ops cfg i (j # js) t =
     (if dd_size (c2_ddr cfg i j) = 0 then t else modify_channels ops cfg i js (modify_channel ops cfg i j t))"

definition modify_ddr_node :: "'t fdt_ops \<Rightarrow> config42 \<Rightarrow> 't \<Rightarrow> 't" where
  "modify_ddr_node ops cfg t = fold (\<lambda>i. modify_channels ops cfg i [0..<DDR_CHANNEL_NUM]) [0..<chip_num cfg] t"

definition BOOTARGS_SIZE :: nat where "BOOTARGS_SIZE = 256"

text \<open>
  \<open>sprintf\<close> into the array of 256 bytes; a longer text, or a property without a NUL, is a fault.
\<close>

definition sg2042_modify_bootargs :: "'t fdt_ops \<Rightarrow> config42 \<Rightarrow> 't \<Rightarrow> (int \<times> 't) option" where
  "sg2042_modify_bootargs ops cfg t =
     (if bf_name (c2_ramfs cfg) = None then Some (0, t)
      else
        (let append = bytes ''root=/dev/ram0 rw initrd=0x'' @ hex_of (bf_addr (c2_ramfs cfg)) @ bytes '',32M'';
             node0 = fo_path_offset ops t ''/chosen'';
             (node, t1) = (if node0 < 0 then fo_add_subnode ops t (fo_path_offset ops t ''/'') ''chosen'' else (node0, t))
         in if node < 0 then Some (-1, t1)
            else
              (case fo_getprop ops t1 node ''bootargs'' of
                 Some old \<Rightarrow>
                   if length old > BOOTARGS_SIZE - length append - 1 then Some (-1, t1)
                   else if 0 \<notin> set old then None
                   else
                     (let args = takeWhile (\<lambda>b. b \<noteq> 0) old @ [32] @ append
                      in if length args \<ge> BOOTARGS_SIZE then None
                         else Some (fo_setprop ops t1 node ''bootargs'' (args @ [0])))
               | None \<Rightarrow> Some (fo_setprop ops t1 node ''bootargs'' (bytes ''console=ttyS0,115200 earlycon '' @ append @ [0])))))"

text \<open>
  \<open>of_modify_prop\<close> (of \<open>lib/fdt\<close>) gets a tree, its size, a node, a property and a value; here it is the parameter
  \<open>ofp\<close>. A name of a node that does not fit into its array is a fault.
\<close>

type_synonym 't of_prop = "'t \<Rightarrow> u64 \<Rightarrow> string \<Rightarrow> string \<Rightarrow> u8 list \<Rightarrow> 't"

definition cpu_node :: "u32 \<Rightarrow> u8 list" where
  "cpu_node cpu_id =
     bytes ''/cpus/cpu@'' @ (if sint cpu_id < 0 then 45 # udigits 10 97 (nat (- sint cpu_id)) else if cpu_id = 0 then [48] else udigits 10 97 (unat cpu_id)) @ bytes ''/''"

definition disable_cpu :: "'t of_prop \<Rightarrow> config42 \<Rightarrow> u32 \<Rightarrow> 't \<Rightarrow> 't option" where
  "disable_cpu ofp cfg cpu_id t =
     (if length (cpu_node cpu_id) \<ge> 16 then None
      else Some (ofp t (bf_size (c2_dtb cfg)) (chars (cpu_node cpu_id)) ''status'' (bytes ''dis'' @ [0])))"

fun disable_cpus :: "'t of_prop \<Rightarrow> config42 \<Rightarrow> u32 list \<Rightarrow> 't \<Rightarrow> 't option" where
  "disable_cpus ofp cfg [] t = Some t"
| "disable_cpus ofp cfg (c # cs) t = do { t1 \<leftarrow> disable_cpu ofp cfg c t; disable_cpus ofp cfg cs t1 }"

text \<open>The harts of the clusters of a chip that are switched off.\<close>

definition dead_cpus :: "(u64 \<Rightarrow> u32) \<Rightarrow> nat \<Rightarrow> u32 list" where
  "dead_cpus rd chip =
     concat (map (\<lambda>i.
       (let cluster_id = rd (of_nat chip * CHIP_ADDR_SPACE + MP0_STATUS_ADDR + of_nat (8 * i));
            cluster_status = rd (of_nat chip * CHIP_ADDR_SPACE + MP0_CONTROL_ADDR + of_nat (8 * i))
        in if cluster_status = 0 then map (\<lambda>j. cluster_id * of_nat CORES_PER_CLUSTER + of_nat j) [0..<CORES_PER_CLUSTER] else []))
       [0..<CLUSTER_PER_CHIP])"

definition modify_cpu_node :: "'t of_prop \<Rightarrow> (u64 \<Rightarrow> u32) \<Rightarrow> config42 \<Rightarrow> 't \<Rightarrow> 't option" where
  "modify_cpu_node ofp rd cfg t = disable_cpus ofp cfg (concat (map (dead_cpus rd) [0..<chip_num cfg])) t"

definition modify_eth_node :: "'t of_prop \<Rightarrow> config42 \<Rightarrow> 't \<Rightarrow> 't" where
  "modify_eth_node ofp cfg t =
     (let t1 = (if c2_mac0 cfg \<noteq> 0
                then ofp t (bf_size (c2_dtb cfg)) ''/soc/ethernet@7040026000/'' ''local-mac-address'' (mac2byte (c2_mac0 cfg)) else t)
      in if c2_mac1 cfg \<noteq> 0 \<and> c2_multi_socket_mode cfg
         then ofp t1 (bf_size (c2_dtb cfg)) ''/soc/ethernet@f040026000/'' ''local-mac-address'' (mac2byte (c2_mac1 cfg)) else t1)"

definition sg2042_modify_dtb ::
    "'t fdt_ops \<Rightarrow> 't of_prop \<Rightarrow> (u64 \<Rightarrow> u32) \<Rightarrow> config42 \<Rightarrow> 't \<Rightarrow> 't \<Rightarrow> 't \<Rightarrow> 't option" where
  "sg2042_modify_dtb ops ofp rd cfg builtin dtbo dtb =
     do { r \<leftarrow> sg2042_modify_bootargs ops cfg
                 (modify_ddr_node ops cfg (merge_dtbs ops (c2_dtbo cfg) dtbo (sg2042_load_dtbs ops cfg builtin dtbo dtb)));
          t \<leftarrow> modify_cpu_node ofp rd cfg (snd r);
          Some (modify_eth_node ofp cfg t) }"

subsection \<open>The boot\<close>

definition SG2042_RP_CORE_NUM :: nat where "SG2042_RP_CORE_NUM = 128"

definition sg2042_boot_next_img :: "nat \<Rightarrow> config42 \<Rightarrow> handover list" where
  "sg2042_boot_next_img hartid cfg =
     (let jump = (\<lambda>i. \<lparr>ho_entry = bf_addr (c2_sbi cfg), ho_hartid = i, ho_dtb = bf_addr (c2_dtb cfg)\<rparr>)
      in map jump (filter (\<lambda>i. i \<noteq> hartid) [0..<SG2042_RP_CORE_NUM]) @ [jump hartid])"

text \<open>The two values written to the reset register.\<close>

definition reset_device :: "nat \<Rightarrow> u32 \<Rightarrow> (u64 \<times> u32) list" where
  "reset_device index ret =
     (let off = ret AND NOT (push_bit index 1) in [(TOP_RESET_BASE, off), (TOP_RESET_BASE, off OR push_bit index 1)])"

text \<open>
  \<open>show_config\<close> prints the MAC addresses from an array of 7 bytes, into which each is written with its NUL;
  \<open>slack\<close> is the number of bytes behind the array that nothing else uses.
\<close>

definition sg2042_show_config :: "nat \<Rightarrow> config42 \<Rightarrow> unit option" where
  "sg2042_show_config slack cfg =
     (if length (mac2str (c2_mac0 cfg)) + 1 > 7 + slack \<or> length (mac2str (c2_mac1 cfg)) + 1 > 7 + slack then None else Some ())"

text \<open>
  Trees come from the memory (\<open>tree_at\<close>) and go back to it (\<open>put_tree\<close>); the results of setting the
  priorities and of reading the file are not looked at.
\<close>

definition sg2042_plat_main ::
  "nat \<Rightarrow> bool \<Rightarrow> (u64 \<Rightarrow> u32) \<Rightarrow> nat \<Rightarrow> boot_env \<Rightarrow> u64 \<Rightarrow> 't fdt_ops \<Rightarrow> 't of_prop \<Rightarrow> 't \<Rightarrow> (mem \<Rightarrow> u64 \<Rightarrow> 't) \<Rightarrow>
   (u64 \<Rightarrow> 't \<Rightarrow> mem \<Rightarrow> mem) \<Rightarrow> (('h, 'd) bdm \<Rightarrow> ('h, 'd) bdm) \<Rightarrow> config42 \<Rightarrow> ('h, 'd) bdm \<Rightarrow>
   (config42 \<times> fw_dynamic_info \<times> (u64 \<times> u32) list \<times> handover list \<times> ('h, 'd) bdm) option" where
  "sg2042_plat_main slack linux rd hartid env buf ops ofp builtin tree_at put_tree cli cfg s =
     do { let cfg1 = build_board_info linux rd (sg2042_config_init linux cfg);
          a \<leftarrow> bdm_set_priority ''sd0'' 0 s;
          b \<leftarrow> bdm_set_priority ''flash1'' 1 (snd a);
          c \<leftarrow> bdm_set_priority ''flash0'' 2 (snd b);
          p \<leftarrow> sg2042_parse_config_file env buf cfg1 (snd c);
          _ \<leftarrow> sg2042_show_config slack (fst (snd p));
          l \<leftarrow> sg2042_load_images (fst (snd p)) (snd (snd p));
          let cfg2 = fst l;
          let s1 = cli (snd l);
          t \<leftarrow> sg2042_modify_dtb ops ofp rd cfg2 builtin (tree_at (bm_mem s1) (bf_addr (c2_dtbo cfg2)))
                 (tree_at (bm_mem s1) (bf_addr (c2_dtb cfg2)));
          let info = \<lparr>fw_magic = 0x4942534f, fw_version = 2, fw_next_addr = bf_addr (c2_kernel cfg2), fw_next_mode = 1, fw_boot_hart = - 1\<rparr>;
          Some (cfg2, info, reset_device SD_RESET_INDEX (rd TOP_RESET_BASE), sg2042_boot_next_img hartid cfg2,
                s1\<lparr>bm_mem := put_tree (bf_addr (c2_dtb cfg2)) t (bm_mem s1)\<rparr>) }"

end
