(* ===== verification/Mac_Props.thy ===== *)
theory Mac_Props
  imports Mac Stdio_Claims
begin

text \<open>A MAC address that is printed is read back.\<close>

definition hexdig :: "nat \<Rightarrow> u8" where
  "hexdig t = (if t \<ge> 10 then of_nat t + 97 - 10 else of_nat t + 48)"

lemma hexdig_cases:
  assumes "t < 16"
  shows "digit_val (hexdig t) = Some t \<and> isxdigit (hexdig t) \<and> hexdig t \<noteq> 0x78 \<and> hexdig t \<noteq> 0x58 \<and> hexdig t \<noteq> 58"
proof -
  from assms have "t = 0 \<or> t = 1 \<or> t = 2 \<or> t = 3 \<or> t = 4 \<or> t = 5 \<or> t = 6 \<or> t = 7 \<or> t = 8 \<or> t = 9 \<or>
    t = 10 \<or> t = 11 \<or> t = 12 \<or> t = 13 \<or> t = 14 \<or> t = 15" by arith
  then show ?thesis by (elim disjE) (simp_all add: hexdig_def digit_val_def isxdigit_def)
qed

lemma hex2_of_digits:
  assumes "unat w < 256"
  shows "hex2_of w = [hexdig (unat w div 16), hexdig (unat w mod 16)]"
proof -
  let ?u = "unat w"
  have d: "udigits 16 97 u = [hexdig u]" if "0 < u" "u < 16" for u
    using that by (simp add: udigits_step udigits_zero hexdig_def)
  have u: "udigits 16 97 ?u = udigits 16 97 (?u div 16) @ [hexdig (?u mod 16)]" if "w \<noteq> 0"
    using that by (subst udigits_step) (simp_all add: hexdig_def unat_gt_0)
  show ?thesis
  proof (cases "w = 0")
    case True
    then show ?thesis by (simp add: hex2_of_def hex_of_def hexdig_def)
  next
    case nz: False
    show ?thesis
    proof (cases "?u < 16")
      case True
      then show ?thesis using u[OF nz] nz by (simp add: hex2_of_def hex_of_def udigits_zero) (simp add: hexdig_def)
    next
      case False
      then have "0 < ?u div 16" "?u div 16 < 16" using assms by auto
      then show ?thesis using u[OF nz] d nz by (simp add: hex2_of_def hex_of_def)
    qed
  qed
qed

lemma strtoul_value_hex2:
  assumes "a < 16" "b < 16" "rest = [] \<or> hd rest = 58"
  shows "strtoul_value (hexdig a # hexdig b # rest) = of_nat (a * 16 + b)"
proof -
  define m where "m = place 1 (hexdig a # hexdig b # rest @ [0]) (\<lambda>_. 0)"
  have m: "m 1 = hexdig a" "m 2 = hexdig b" "m 3 = (case rest of [] \<Rightarrow> 0 | c # _ \<Rightarrow> c)"
    by (simp_all add: m_def place_def nth_Cons' split: list.split)
  have "digits_at m 1 [a, b]"
    using m hexdig_cases[OF assms(1)] hexdig_cases[OF assms(2)] by (simp add: digits_at_def All_less_Suc)
  moreover have "digit_val (m 3) = None" using m(3) assms(3) by (cases rest) (auto simp: digit_val_def)
  ultimately have "strtoul m 1 16 = Some (if num_val 16 [a, b] < 2 ^ 64 then of_nat (num_val 16 [a, b]) else ULONG_MAX, 1 + of_nat (length [a, b]))"
    using assms(1,2) m hexdig_cases[OF assms(2)] by (intro strtoul_on_digits) simp_all
  then show ?thesis using assms(1,2) by (simp add: strtoul_value_def num_val_def m_def)
qed

lemma bit_ff: "bit (0xff :: int) k \<longleftrightarrow> k < 8"
proof -
  have "(0xff :: int) = mask 8" by (simp add: mask_eq_exp_minus_1)
  moreover have "bit (mask 8 :: int) k \<longleftrightarrow> k < 8" by (auto simp: bit_mask_iff)
  ultimately show ?thesis by (simp only:)
qed

lemma bit_set_byte:
  "n < 64 \<Longrightarrow> bit (set_byte i b w) n = (if 8 * i \<le> n \<and> n < 8 * i + 8 then bit b (n - 8 * i) else bit w n)"
  by (auto simp: set_byte_def bit_simps bit_ff not_less dest: bit_imp_le_length)

lemma and_ff_less: "unat (w AND 0xff :: u64) < 256"
proof -
  have "w AND 0xff \<le> 0xff" by (rule word_and_le1)
  then show ?thesis by (simp add: word_le_nat_alt)
qed

theorem mac_roundtrip: "str2mac (Some (mac2str mac)) = mac AND mask 48"
proof -
  let ?b = "\<lambda>i. drop_bit (40 - 8 * i) mac AND 0xff"
  let ?h = "\<lambda>i. hexdig (unat (?b i) div 16)" and ?l = "\<lambda>i. hexdig (unat (?b i) mod 16)"
  note hex = hex2_of_digits[OF and_ff_less]
  have s: "mac2str mac = [?h 0, ?l 0, 58, ?h 1, ?l 1, 58, ?h 2, ?l 2, 58, ?h 3, ?l 3, 58, ?h 4, ?l 4, 58, ?h 5, ?l 5]"
    unfolding mac2str_def hex by simp
  have lt: "unat (?b i) div 16 < 16" "unat (?b i) mod 16 < 16" for i using and_ff_less[of "drop_bit (40 - 8 * i) mac"] by auto
  have val: "strtoul_value (?h i # ?l i # rest) = ?b i" if "rest = [] \<or> hd rest = 58" for i rest
    using strtoul_value_hex2[OF lt that, of i i] by simp
  note vals = val[where i = 0, simplified] val[where i = 1, simplified] val[where i = 2, simplified]
    val[where i = 3, simplified] val[where i = 4, simplified] val[where i = 5, simplified]
  have x: "isxdigit (?h 0)" using hexdig_cases[OF lt(1)[of 0]] by simp
  have "fold (\<lambda>i mac'. set_byte (5 - i) (ucast (strtoul_value (drop (3 * i) (mac2str mac)))) mac') [0..<6] 0 =
    fold (\<lambda>i mac'. set_byte (5 - i) (ucast (?b i)) mac') [0..<6] 0"
  proof (rule fold_cong[OF refl refl])
    fix i assume "i \<in> set [0..<6 :: nat]"
    then have "i = 0 \<or> i = 1 \<or> i = 2 \<or> i = 3 \<or> i = 4 \<or> i = 5" by auto
    then have "strtoul_value (drop (3 * i) (mac2str mac)) = ?b i"
      unfolding s by (elim disjE) (simp_all add: vals del: One_nat_def)
    then show "(\<lambda>mac'. set_byte (5 - i) (ucast (strtoul_value (drop (3 * i) (mac2str mac)))) mac') = (\<lambda>mac'. set_byte (5 - i) (ucast (?b i)) mac')"
      by simp
  qed
  moreover have "dropWhile (\<lambda>c. \<not> isxdigit c) (mac2str mac) = mac2str mac" using x by (simp add: s)
  moreover have "58 \<in> set (mac2str mac)" "length (mac2str mac) = 17" by (simp_all add: s)
  ultimately have e: "str2mac (Some (mac2str mac)) = fold (\<lambda>i mac'. set_byte (5 - i) (ucast (?b i)) mac') [0..<6] 0"
    by (simp add: str2mac_def Let_def)
  have six: "[0..<6] = [0, 1, 2, 3, 4, 5 :: nat]" by (simp add: upt_rec)
  show ?thesis
  proof (rule bit_word_eqI)
    fix n assume n: "n < LENGTH(64)"
    show "bit (str2mac (Some (mac2str mac))) n = bit (mac AND mask 48) n"
      using n unfolding e six by (auto simp: bit_set_byte bit_simps bit_ff)
  qed
qed

end
