(* ===== verification/Sg2042_Claims.thy ===== *)
theory Sg2042_Claims
  imports Sg2042 Mac_Props
begin

text \<open>
  The memory nodes that a SG2042 board gets, and the other edits of its device tree.
\<close>

subsection \<open>The ranges of the memory nodes\<close>

text \<open>Start, length and NUMA node of every call of \<open>add_memory_node\<close> that adds a node.\<close>

definition channel_ranges :: "config42 \<Rightarrow> nat \<Rightarrow> nat \<Rightarrow> (u64 \<times> u64 \<times> nat) list" where
  "channel_ranges cfg i j =
     (let start = dd_base (c2_ddr cfg i j); size = dd_size (c2_ddr cfg i j); numa = i * DDR_CHANNEL_NUM + j
      in filter (\<lambda>(a, l, n). l \<noteq> 0)
        (if i = 0 \<and> j = 0 \<and> reserved_start \<ge> start \<and> reserved_start + reserved_size \<le> start + size
         then [(start, reserved_start - start, numa),
               (reserved_start + reserved_size, (start + size) - (reserved_start + reserved_size), numa)]
         else [(start, size, numa)]))"

definition populated :: "config42 \<Rightarrow> nat \<Rightarrow> nat list" where
  "populated cfg i = takeWhile (\<lambda>j. dd_size (c2_ddr cfg i j) \<noteq> 0) [0..<DDR_CHANNEL_NUM]"

definition memory_ranges :: "config42 \<Rightarrow> (u64 \<times> u64 \<times> nat) list" where
  "memory_ranges cfg = concat (map (\<lambda>i. concat (map (channel_ranges cfg i) (populated cfg i))) [0..<chip_num cfg])"

definition add_ranges :: "'t fdt_ops \<Rightarrow> (u64 \<times> u64 \<times> nat) list \<Rightarrow> 't \<Rightarrow> 't" where
  "add_ranges ops rs t = fold (\<lambda>(a, l, n). add_memory_node ops a l n) rs t"

lemma add_ranges_append: "add_ranges ops (rs @ ss) t = add_ranges ops ss (add_ranges ops rs t)"
  by (simp add: add_ranges_def)

lemma add_ranges_nonempty: "add_ranges ops (filter (\<lambda>(a, l, n). l \<noteq> 0) rs) t = add_ranges ops rs t"
  by (induction rs arbitrary: t) (auto simp: add_ranges_def add_memory_node_def)

lemma modify_channel_ranges: "modify_channel ops cfg i j t = add_ranges ops (channel_ranges cfg i j) t"
  unfolding channel_ranges_def Let_def add_ranges_nonempty modify_channel_def
  by (cases "i = 0"; cases "j = 0") (simp_all add: add_ranges_def)

lemma modify_channels_ranges:
  "modify_channels ops cfg i js t =
    add_ranges ops (concat (map (channel_ranges cfg i) (takeWhile (\<lambda>j. dd_size (c2_ddr cfg i j) \<noteq> 0) js))) t"
  by (induction js arbitrary: t) (simp_all add: add_ranges_append modify_channel_ranges, simp_all add: add_ranges_def)

lemma fold_add_ranges: "fold (\<lambda>i. add_ranges ops (f i)) is t = add_ranges ops (concat (map f is)) t"
  by (induction "is" arbitrary: t) (simp_all add: add_ranges_append, simp add: add_ranges_def)

lemma modify_ddr_node_ranges: "modify_ddr_node ops cfg t = add_ranges ops (memory_ranges cfg) t"
proof -
  have "modify_channels ops cfg i [0..<DDR_CHANNEL_NUM] = add_ranges ops (concat (map (channel_ranges cfg i) (populated cfg i)))" for i
    by (rule ext) (simp add: modify_channels_ranges populated_def)
  then show ?thesis by (simp add: modify_ddr_node_def memory_ranges_def fold_add_ranges)
qed

subsection \<open>The channels of a chip\<close>

lemma ddr_channels_other:
  "i \<noteq> chip \<or> j \<notin> set js \<Longrightarrow> c2_ddr (ddr_channels raw chip js base cfg) i j = c2_ddr cfg i j"
  "c2_multi_socket_mode (ddr_channels raw chip js base cfg) = c2_multi_socket_mode cfg"
  by (induction js arbitrary: base cfg) (auto simp: Let_def set_ddr_def)

lemma ddr_channels_at:
  assumes "distinct js" "k < length js"
  shows "c2_ddr (ddr_channels raw chip js base cfg) chip (js ! k) =
    \<lparr>dd_base = base + (\<Sum>m<k. get_ddr_size raw (js ! m)), dd_size = get_ddr_size raw (js ! k)\<rparr>"
  using assms
proof (induction js arbitrary: base cfg k)
  case (Cons j js)
  show ?case
  proof (cases k)
    case 0
    then show ?thesis using Cons.prems by (simp add: Let_def ddr_channels_other set_ddr_def)
  next
    case (Suc k')
    have "(\<Sum>m<Suc k'. get_ddr_size raw ((j # js) ! m)) = get_ddr_size raw j + (\<Sum>m<k'. get_ddr_size raw (js ! m))"
      unfolding sum.lessThan_Suc_shift by simp
    then show ?thesis using Cons Suc by (simp add: Let_def add.assoc)
  qed
qed simp

definition raw_sizes :: "(u64 \<Rightarrow> u32) \<Rightarrow> nat \<Rightarrow> u64" where
  "raw_sizes rd i = ucast (rd (of_nat i * 0x8000000000 + DDR_SIZE_ADDR))"

lemma build_ddr_info_at:
  assumes "j < DDR_CHANNEL_NUM"
  shows "c2_ddr (build_ddr_info rd i cfg) i j =
    \<lparr>dd_base = dd_base (c2_ddr cfg i 0) + (\<Sum>m<j. get_ddr_size (raw_sizes rd i) m), dd_size = get_ddr_size (raw_sizes rd i) j\<rparr>"
proof -
  have "(\<Sum>m<j. get_ddr_size (raw_sizes rd i) ([0..<DDR_CHANNEL_NUM] ! m)) = (\<Sum>m<j. get_ddr_size (raw_sizes rd i) m)"
    by (rule sum.cong) (use assms in auto)
  then show ?thesis
    using assms ddr_channels_at[of "[0..<DDR_CHANNEL_NUM]" j "raw_sizes rd i" i "dd_base (c2_ddr cfg i 0)" cfg]
    by (simp add: build_ddr_info_def raw_sizes_def)
qed

lemma build_ddr_info_other: "i' \<noteq> i \<Longrightarrow> c2_ddr (build_ddr_info rd i cfg) i' = c2_ddr cfg i'"
  by (rule ext) (simp add: build_ddr_info_def ddr_channels_other)

lemma build_ddr_info_multi: "c2_multi_socket_mode (build_ddr_info rd i cfg) = c2_multi_socket_mode cfg"
  by (simp add: build_ddr_info_def ddr_channels_other)

text \<open>The layout of a board: the chips start at multiples of their address space.\<close>

lemma build_board_info_ddr:
  fixes linux rd cfg0
  defines "cfg \<equiv> build_board_info linux rd cfg0"
  assumes "i < chip_num cfg" "j < DDR_CHANNEL_NUM"
  shows "c2_ddr cfg i j =
    \<lparr>dd_base = CHIP_ADDR_SPACE * of_nat i + (\<Sum>m<j. get_ddr_size (raw_sizes rd i) m), dd_size = get_ddr_size (raw_sizes rd i) j\<rparr>"
proof -
  define c1 where "c1 = name_board linux (cfg0\<lparr>c2_multi_socket_mode := bit (rd BOOT_SEL_ADDR) 15, c2_board_type := sint (rd BOARD_TYPE_REG)\<rparr>)"
  define c2 where "c2 = set_ddr 1 0 ((c2_ddr (set_ddr 0 0 ((c2_ddr c1 0 0)\<lparr>dd_base := 0\<rparr>) c1) 1 0)\<lparr>dd_base := CHIP_ADDR_SPACE\<rparr>)
    (set_ddr 0 0 ((c2_ddr c1 0 0)\<lparr>dd_base := 0\<rparr>) c1)"
  have cfg: "cfg = fold (build_ddr_info rd) [0..<chip_num c2] c2"
    unfolding cfg_def build_board_info_def c1_def[symmetric] Let_def MAX_CHIP_NUM_def
    by (simp add: c2_def numeral_2_eq_2)
  have base: "dd_base (c2_ddr c2 0 0) = 0" "dd_base (c2_ddr c2 1 0) = CHIP_ADDR_SPACE" by (simp_all add: c2_def set_ddr_def)
  show ?thesis
  proof (cases "c2_multi_socket_mode c2")
    case True
    have two: "cfg = build_ddr_info rd 1 (build_ddr_info rd 0 c2)"
      using cfg True by (simp add: chip_num_def MAX_CHIP_NUM_def numeral_2_eq_2)
    then have "i = 0 \<or> i = 1" using assms(2) by (auto simp: chip_num_def MAX_CHIP_NUM_def split: if_splits)
    then show ?thesis
      using assms(3) base by (auto simp: two build_ddr_info_at build_ddr_info_other)
  next
    case False
    have one: "cfg = build_ddr_info rd 0 c2" using cfg False by (simp add: chip_num_def)
    have "i = 0" using assms(2) False by (simp add: one chip_num_def build_ddr_info_multi)
    then show ?thesis using assms(3) base by (simp add: one build_ddr_info_at)
  qed
qed

subsection \<open>The nodes cover the memory\<close>

definition before :: "u64 \<times> u64 \<times> nat \<Rightarrow> u64 \<times> u64 \<times> nat \<Rightarrow> bool" where
  "before r r' \<longleftrightarrow> unat (fst r) + unat (fst (snd r)) \<le> unat (fst r')"

definition inside :: "nat \<Rightarrow> nat \<Rightarrow> u64 \<times> u64 \<times> nat \<Rightarrow> bool" where
  "inside lo hi r \<longleftrightarrow> lo \<le> unat (fst r) \<and> unat (fst r) + unat (fst (snd r)) \<le> hi"

lemma sorted_concat:
  assumes "\<forall>k \<in> set ks. sorted_wrt before (f k) \<and> (\<forall>r \<in> set (f k). inside (lo k) (hi k) r)"
    "sorted_wrt (\<lambda>k k'. hi k \<le> lo k') ks"
  shows "sorted_wrt before (concat (map f ks))"
  using assms
proof (induction ks)
  case (Cons k ks)
  have "before r r'" if r: "r \<in> set (f k)" "k' \<in> set ks" "r' \<in> set (f k')" for r k' r'
  proof -
    have "inside (lo k) (hi k) r" "inside (lo k') (hi k') r'" "hi k \<le> lo k'" using Cons.prems r by auto
    then show ?thesis by (simp add: before_def inside_def)
  qed
  then show ?case using Cons by (auto simp: sorted_wrt_append)
qed simp

text \<open>Sizes and starts of the channels as numbers; the sizes of a chip fit into its address space.\<close>

definition channel_size :: "(u64 \<Rightarrow> u32) \<Rightarrow> nat \<Rightarrow> nat \<Rightarrow> nat" where
  "channel_size rd i j = unat (get_ddr_size (raw_sizes rd i) j)"

definition channel_base :: "(u64 \<Rightarrow> u32) \<Rightarrow> nat \<Rightarrow> nat \<Rightarrow> nat" where
  "channel_base rd i j = 2 ^ 39 * i + (\<Sum>m<j. channel_size rd i m)"

definition sizes_fit :: "(u64 \<Rightarrow> u32) \<Rightarrow> nat \<Rightarrow> bool" where
  "sizes_fit rd i \<longleftrightarrow> (\<Sum>m<DDR_CHANNEL_NUM. channel_size rd i m) \<le> 2 ^ 39"

lemma channel_end:
  assumes "sizes_fit rd i" "j < DDR_CHANNEL_NUM"
  shows "channel_base rd i j + channel_size rd i j \<le> 2 ^ 39 * Suc i"
proof -
  have "(\<Sum>m<Suc j. channel_size rd i m) \<le> (\<Sum>m<DDR_CHANNEL_NUM. channel_size rd i m)"
    by (rule sum_mono2) (use assms(2) in auto)
  then show ?thesis using assms(1) by (simp add: channel_base_def sizes_fit_def)
qed

lemma unat_sum_words:
  fixes f :: "nat \<Rightarrow> u64"
  assumes "(\<Sum>m<j. unat (f m)) < 2 ^ 64"
  shows "unat (\<Sum>m<j. f m) = (\<Sum>m<j. unat (f m))"
  using assms
proof (induction j)
  case (Suc j)
  then have "unat (\<Sum>m<j. f m) = (\<Sum>m<j. unat (f m))" by simp
  then show ?case using Suc.prems unat_add_lem[of "\<Sum>m<j. f m" "f j"] by simp
qed simp

lemma unat_channel_base:
  assumes "sizes_fit rd i" "i < MAX_CHIP_NUM" "j < DDR_CHANNEL_NUM"
  shows "unat (CHIP_ADDR_SPACE * of_nat i + (\<Sum>m<j. get_ddr_size (raw_sizes rd i) m)) = channel_base rd i j"
proof -
  let ?s = "\<Sum>m<j. get_ddr_size (raw_sizes rd i) m"
  have le: "(\<Sum>m<j. channel_size rd i m) \<le> 2 ^ 39"
    using channel_end[OF assms(1,3)] by (simp add: channel_base_def)
  then have s: "unat ?s = (\<Sum>m<j. channel_size rd i m)"
    unfolding channel_size_def by (intro unat_sum_words) simp
  have "i = 0 \<or> i = 1" using assms(2) by (auto simp: MAX_CHIP_NUM_def)
  then have c: "unat (CHIP_ADDR_SPACE * of_nat i) = 2 ^ 39 * i" by (auto simp: CHIP_ADDR_SPACE_def)
  show ?thesis
    using unat_add_lem[of "CHIP_ADDR_SPACE * of_nat i" ?s] c s le \<open>i = 0 \<or> i = 1\<close> by (auto simp: channel_base_def)
qed

definition pcie_window :: "(u64 \<Rightarrow> u32) \<Rightarrow> nat set" where
  "pcie_window rd = (if 2 ^ 32 \<le> channel_size rd 0 0 then {0xc0000000..<2 ^ 32} else {})"

definition span :: "u64 \<times> u64 \<times> nat \<Rightarrow> nat set" where
  "span r = {unat (fst r)..<unat (fst r) + unat (fst (snd r))}"

definition channel_span :: "(u64 \<Rightarrow> u32) \<Rightarrow> nat \<Rightarrow> nat \<Rightarrow> nat set" where
  "channel_span rd i j = {channel_base rd i j..<channel_base rd i j + channel_size rd i j} - (if i = 0 \<and> j = 0 then pcie_window rd else {})"

lemma channel_ranges_ok:
  assumes "c2_ddr cfg i j = \<lparr>dd_base = b, dd_size = z\<rparr>" "unat b = channel_base rd i j" "unat z = channel_size rd i j"
    "channel_base rd i j + channel_size rd i j \<le> 2 ^ 40"
  shows "sorted_wrt before (channel_ranges cfg i j)"
    "\<forall>r \<in> set (channel_ranges cfg i j). inside (channel_base rd i j) (channel_base rd i j + channel_size rd i j) r \<and>
      snd (snd r) = i * DDR_CHANNEL_NUM + j \<and> fst (snd r) \<noteq> 0"
    "(\<Union>r \<in> set (channel_ranges cfg i j). span r) = channel_span rd i j"
proof -
  let ?n = "i * DDR_CHANNEL_NUM + j"
  have bz: "unat (b + z) = unat b + unat z" using assms(2-4) unat_add_lem[of b z] by simp
  have all: "sorted_wrt before (channel_ranges cfg i j) \<and>
    (\<forall>r \<in> set (channel_ranges cfg i j). inside (channel_base rd i j) (channel_base rd i j + channel_size rd i j) r \<and>
      snd (snd r) = ?n \<and> fst (snd r) \<noteq> 0) \<and> (\<Union>r \<in> set (channel_ranges cfg i j). span r) = channel_span rd i j"
  proof (cases "i = 0 \<and> j = 0")
    case False
    then have "channel_ranges cfg i j = (if z = 0 then [] else [(b, z, ?n)])"
      using assms(1) by (auto simp: channel_ranges_def)
    then show ?thesis using assms(2,3) False by (auto simp: channel_span_def span_def inside_def simp flip: unat_eq_0)
  next
    case True
    have b0: "b = 0" using assms(2) True by (simp add: channel_base_def unat_eq_0)
    have win: "reserved_start + reserved_size \<le> b + z \<longleftrightarrow> 2 ^ 32 \<le> channel_size rd 0 0"
      using assms(3) True b0 by (simp add: reserved_start_def reserved_size_def word_le_nat_alt)
    show ?thesis
    proof (cases "2 ^ 32 \<le> channel_size rd 0 0")
      case fits: True
      let ?z1 = "z - 0x100000000"
      have z1: "unat ?z1 = channel_size rd 0 0 - 2 ^ 32"
        using fits assms(3) True by (subst unat_sub) (simp_all add: word_le_nat_alt)
      have "channel_ranges cfg i j = (0, 0xc0000000, ?n) # (if ?z1 = 0 then [] else [(0x100000000, ?z1, ?n)])"
        using assms(1) True b0 win fits by (simp add: channel_ranges_def reserved_start_def reserved_size_def)
      then show ?thesis
        using z1 fits True
        by (auto simp: channel_span_def channel_base_def span_def inside_def before_def pcie_window_def simp flip: unat_eq_0)
    next
      case fits: False
      then have "channel_ranges cfg i j = (if z = 0 then [] else [(b, z, ?n)])"
        using assms(1) win by (auto simp: channel_ranges_def)
      then show ?thesis using assms(2,3) True fits
        by (auto simp: channel_span_def span_def inside_def pcie_window_def simp flip: unat_eq_0)
    qed
  qed
  then show "sorted_wrt before (channel_ranges cfg i j)"
    "\<forall>r \<in> set (channel_ranges cfg i j). inside (channel_base rd i j) (channel_base rd i j + channel_size rd i j) r \<and>
      snd (snd r) = ?n \<and> fst (snd r) \<noteq> 0"
    "(\<Union>r \<in> set (channel_ranges cfg i j). span r) = channel_span rd i j" by blast+
qed

lemma set_takeWhile_upt: "j \<in> set (takeWhile P [0..<n]) \<longleftrightarrow> j < n \<and> (\<forall>k \<le> j. P k)"
proof (induction n)
  case (Suc n)
  show ?case
  proof (cases "\<forall>k < n. P k")
    case True
    then have "takeWhile P [0..<Suc n] = [0..<n] @ (if P n then [n] else [])" by (simp add: takeWhile_append)
    then show ?thesis using True by (auto simp: le_less less_Suc_eq)
  next
    case False
    then have "takeWhile P [0..<Suc n] = takeWhile P [0..<n]" by (auto simp: takeWhile_append)
    then show ?thesis using Suc False by (auto simp: less_Suc_eq)
  qed
qed simp

definition has_memory :: "(u64 \<Rightarrow> u32) \<Rightarrow> nat \<Rightarrow> nat \<Rightarrow> bool" where
  "has_memory rd i j \<longleftrightarrow> j < DDR_CHANNEL_NUM \<and> (\<forall>k \<le> j. channel_size rd i k \<noteq> 0)"

lemma sorted_wrt_upt_takeWhile: "sorted_wrt (<) (takeWhile P [0..<n])"
  by (metis sorted_wrt_append sorted_wrt_upt takeWhile_dropWhile_id)

text \<open>
  C38: The memory of a SG2042 board in its device tree. For whatever the size registers say, as long as the
  channels of a chip fit into its address space, \<open>modify_ddr_node\<close> adds one node per non-empty range,
  in ascending order and disjoint; together they are exactly the memory of the channels up to the first
  empty one of each chip, without the PCIe window if the first channel reaches over it, and each range
  has the number of its channel as its NUMA node.
\<close>
theorem sg2042_memory_nodes:
  assumes "cfg = build_board_info linux rd cfg0" "\<forall>i < chip_num cfg. sizes_fit rd i"
  shows "\<exists>rs. modify_ddr_node ops cfg t = fold (\<lambda>(a, l, n). add_memory_node ops a l n) rs t \<and>
    sorted_wrt (\<lambda>(a, l, n) (a', l', n'). unat a + unat l \<le> unat a') rs \<and> (\<forall>(a, l, n) \<in> set rs. l \<noteq> 0) \<and>
    (\<forall>n x. (\<exists>a l. (a, l, n) \<in> set rs \<and> x \<in> {unat a..<unat a + unat l}) \<longleftrightarrow>
      (\<exists>i < chip_num cfg. \<exists>j. has_memory rd i j \<and> n = i * DDR_CHANNEL_NUM + j \<and>
         x \<in> {channel_base rd i j..<channel_base rd i j + channel_size rd i j} - (if i = 0 \<and> j = 0 then pcie_window rd else {})))"
proof -
  have two: "i < MAX_CHIP_NUM" if "i < chip_num cfg" for i using that by (auto simp: chip_num_def MAX_CHIP_NUM_def split: if_splits)
  have ddr: "c2_ddr cfg i j = \<lparr>dd_base = CHIP_ADDR_SPACE * of_nat i + (\<Sum>m<j. get_ddr_size (raw_sizes rd i) m), dd_size = get_ddr_size (raw_sizes rd i) j\<rparr>"
    if "i < chip_num cfg" "j < DDR_CHANNEL_NUM" for i j
    using build_board_info_ddr[of i linux rd cfg0 j] that assms(1) by simp
  have fin: "channel_base rd i j + channel_size rd i j \<le> 2 ^ 39 * Suc i" if "i < chip_num cfg" "j < DDR_CHANNEL_NUM" for i j
    using channel_end assms(2) that by blast
  have ok: "sorted_wrt before (channel_ranges cfg i j)"
    "\<forall>r \<in> set (channel_ranges cfg i j). inside (channel_base rd i j) (channel_base rd i j + channel_size rd i j) r \<and>
      snd (snd r) = i * DDR_CHANNEL_NUM + j \<and> fst (snd r) \<noteq> 0"
    "(\<Union>r \<in> set (channel_ranges cfg i j). span r) = channel_span rd i j" if ij: "i < chip_num cfg" "j < DDR_CHANNEL_NUM" for i j
  proof -
    have "channel_base rd i j + channel_size rd i j \<le> 2 ^ 40" 
    proof -
      have "i = 0 \<or> i = 1" using two[OF ij(1)] by (auto simp: MAX_CHIP_NUM_def)
      then show ?thesis using fin[OF ij] by auto
    qed
    note r = channel_ranges_ok[OF ddr[OF ij] _ _ this]
    have "unat (CHIP_ADDR_SPACE * of_nat i + (\<Sum>m<j. get_ddr_size (raw_sizes rd i) m)) = channel_base rd i j"
      using unat_channel_base assms(2) two ij by blast
    then show "sorted_wrt before (channel_ranges cfg i j)"
      "\<forall>r \<in> set (channel_ranges cfg i j). inside (channel_base rd i j) (channel_base rd i j + channel_size rd i j) r \<and>
        snd (snd r) = i * DDR_CHANNEL_NUM + j \<and> fst (snd r) \<noteq> 0"
      "(\<Union>r \<in> set (channel_ranges cfg i j). span r) = channel_span rd i j"
      using r by (simp_all add: channel_size_def)
  qed
  have pop: "j \<in> set (populated cfg i) \<longleftrightarrow> has_memory rd i j" if "i < chip_num cfg" for i j
  proof -
    have "dd_size (c2_ddr cfg i k) = get_ddr_size (raw_sizes rd i) k" if "k < DDR_CHANNEL_NUM" for k
      using ddr \<open>i < chip_num cfg\<close> that by simp
    then show ?thesis by (auto simp: populated_def set_takeWhile_upt has_memory_def channel_size_def unat_eq_0)
  qed
  let ?chip = "\<lambda>i. concat (map (channel_ranges cfg i) (populated cfg i))"
  have chip: "sorted_wrt before (?chip i) \<and> (\<forall>r \<in> set (?chip i). inside (2 ^ 39 * i) (2 ^ 39 * Suc i) r)" if i: "i < chip_num cfg" for i
  proof
    have lt: "j < DDR_CHANNEL_NUM" if "j \<in> set (populated cfg i)" for j using that pop[OF i] by (simp add: has_memory_def)
    have "sorted_wrt (\<lambda>j j'. channel_base rd i j + channel_size rd i j \<le> channel_base rd i j') (populated cfg i)"
    proof (rule sorted_wrt_mono_rel)
      show "sorted_wrt (<) (populated cfg i)" unfolding populated_def by (rule sorted_wrt_upt_takeWhile)
      fix j j' :: nat assume "j < j'"
      then have "(\<Sum>m<Suc j. channel_size rd i m) \<le> (\<Sum>m<j'. channel_size rd i m)" by (intro sum_mono2) auto
      then show "channel_base rd i j + channel_size rd i j \<le> channel_base rd i j'" by (simp add: channel_base_def)
    qed
    then show "sorted_wrt before (?chip i)"
      by (rule sorted_concat[rotated]) (use ok(1,2)[OF i lt] in blast)
    have "inside (2 ^ 39 * i) (2 ^ 39 * Suc i) r" if "j \<in> set (populated cfg i)" "r \<in> set (channel_ranges cfg i j)" for j r
    proof -
      have "inside (channel_base rd i j) (channel_base rd i j + channel_size rd i j) r" using ok(2)[OF i lt] that by blast
      then show ?thesis using fin[OF i lt[OF that(1)]] by (auto simp: inside_def channel_base_def)
    qed
    then show "\<forall>r \<in> set (?chip i). inside (2 ^ 39 * i) (2 ^ 39 * Suc i) r" by auto
  qed
  have "sorted_wrt before (memory_ranges cfg)"
    unfolding memory_ranges_def
    by (rule sorted_concat[where lo = "\<lambda>i. 2 ^ 39 * i" and hi = "\<lambda>i. 2 ^ 39 * Suc i"])
      (use chip in \<open>auto simp: sorted_wrt_iff_nth_less\<close>)
  then have sorted: "sorted_wrt (\<lambda>(a, l, n) (a', l', n'). unat a + unat l \<le> unat a') (memory_ranges cfg)"
    by (rule sorted_wrt_mono_rel[rotated]) (auto simp: before_def)
  have mem: "r \<in> set (memory_ranges cfg) \<longleftrightarrow> (\<exists>i < chip_num cfg. \<exists>j. has_memory rd i j \<and> r \<in> set (channel_ranges cfg i j))" for r
  proof -
    have "r \<in> set (memory_ranges cfg) \<longleftrightarrow> (\<exists>i \<in> {0..<chip_num cfg}. \<exists>j \<in> set (populated cfg i). r \<in> set (channel_ranges cfg i j))"
      by (simp add: memory_ranges_def)
    then show ?thesis using pop by (metis atLeastLessThan_iff le0)
  qed
  have ne: "\<forall>(a, l, n) \<in> set (memory_ranges cfg). l \<noteq> 0"
    using mem ok(2) by (fastforce simp: has_memory_def)
  have cover: "(\<exists>a l. (a, l, n) \<in> set (memory_ranges cfg) \<and> x \<in> {unat a..<unat a + unat l}) \<longleftrightarrow>
      (\<exists>i < chip_num cfg. \<exists>j. has_memory rd i j \<and> n = i * DDR_CHANNEL_NUM + j \<and> x \<in> channel_span rd i j)" for n x
  proof
    assume "\<exists>a l. (a, l, n) \<in> set (memory_ranges cfg) \<and> x \<in> {unat a..<unat a + unat l}"
    then obtain a l i j where r: "(a, l, n) \<in> set (channel_ranges cfg i j)" "x \<in> span (a, l, n)" "i < chip_num cfg" "has_memory rd i j"
      unfolding mem by (auto simp: span_def)
    note o = ok[OF r(3), of j] and h = r(4)[unfolded has_memory_def]
    have "n = i * DDR_CHANNEL_NUM + j" using o(2) h r(1) by fastforce
    moreover have "x \<in> channel_span rd i j" using o(3) h r(1,2) by blast
    ultimately show "\<exists>i < chip_num cfg. \<exists>j. has_memory rd i j \<and> n = i * DDR_CHANNEL_NUM + j \<and> x \<in> channel_span rd i j"
      using r(3,4) by blast
  next
    assume "\<exists>i < chip_num cfg. \<exists>j. has_memory rd i j \<and> n = i * DDR_CHANNEL_NUM + j \<and> x \<in> channel_span rd i j"
    then obtain i j where r: "i < chip_num cfg" "has_memory rd i j" "n = i * DDR_CHANNEL_NUM + j" "x \<in> channel_span rd i j" by blast
    note o = ok[OF r(1), of j] and h = r(2)[unfolded has_memory_def]
    obtain p where p: "p \<in> set (channel_ranges cfg i j)" "x \<in> span p" using o(3) h r(4) by blast
    then have "snd (snd p) = n" using o(2) h r(3) by blast
    then show "\<exists>a l. (a, l, n) \<in> set (memory_ranges cfg) \<and> x \<in> {unat a..<unat a + unat l}"
      using p mem r(1,2) by (cases p) (auto simp: span_def)
  qed
  show ?thesis
    using modify_ddr_node_ranges[of ops cfg t] sorted ne cover
    by (intro exI[of _ "memory_ranges cfg"]) (simp add: add_ranges_def channel_span_def)
qed

subsection \<open>The array for a MAC address\<close>

text \<open>Printing the configuration needs 11 bytes more than its array has.\<close>

lemma length_mac2str: "length (mac2str mac) = 17"
  unfolding mac2str_def hex2_of_digits[OF and_ff_less] by simp

lemma sg2042_show_config_room: "sg2042_show_config slack cfg = (if slack < 11 then None else Some ())"
  by (simp add: sg2042_show_config_def length_mac2str)

lemma sg2042_boot_overflows:
  assumes "slack < 11"
  shows "sg2042_plat_main slack linux rd hartid env buf ops ofp builtin tree_at put_tree cli cfg s = None"
  unfolding sg2042_plat_main_def sg2042_show_config_room if_P[OF assms] Let_def
  by (simp add: bind_eq_None_conv)

subsection \<open>Kernel arguments\<close>

text \<open>The arguments always fit into their array, if the property in the tree is a string.\<close>

lemma takeWhile_strict: "0 \<in> set xs \<Longrightarrow> length (takeWhile (\<lambda>b. b \<noteq> 0) xs) < length (xs :: u8 list)"
  by (induction xs) auto

lemma sg2042_bootargs_fit:
  assumes "\<And>t node v. fo_getprop ops t node ''bootargs'' = Some v \<Longrightarrow> 0 \<in> set v"
  shows "sg2042_modify_bootargs ops cfg t \<noteq> None"
proof -
  have "length (takeWhile (\<lambda>b. b \<noteq> 0) old) + 1 + n < BOOTARGS_SIZE"
    if "0 \<in> set old" "length old \<le> BOOTARGS_SIZE - n - 1" for old :: "u8 list" and n
    using takeWhile_strict[OF that(1)] that(2) by (simp add: BOOTARGS_SIZE_def)
  note fits = this
  let ?append = "bytes ''root=/dev/ram0 rw initrd=0x'' @ hex_of (bf_addr (c2_ramfs cfg)) @ bytes '',32M''"
  have "(case fo_getprop ops t1 node ''bootargs'' of
      Some old \<Rightarrow> if length old > BOOTARGS_SIZE - length ?append - 1 then Some (- 1, t1)
        else if 0 \<notin> set old then None
        else (let args = takeWhile (\<lambda>b. b \<noteq> 0) old @ [32] @ ?append
              in if length args \<ge> BOOTARGS_SIZE then None else Some (fo_setprop ops t1 node ''bootargs'' (args @ [0])))
    | None \<Rightarrow> Some (fo_setprop ops t1 node ''bootargs'' (bytes ''console=ttyS0,115200 earlycon '' @ ?append @ [0]))) \<noteq> None" for t1 node
  proof (cases "fo_getprop ops t1 node ''bootargs''")
    case (Some old)
    have z: "0 \<in> set old" using assms[OF Some] .
    show ?thesis
      using fits[OF z, of "length ?append"] z Some
      by (cases "length old > BOOTARGS_SIZE - length ?append - 1") (simp_all add: Let_def not_less del: length_append, simp)
  qed simp
  then show ?thesis unfolding sg2042_modify_bootargs_def Let_def by (simp split: prod.split)
qed

text \<open>A board with one chip and four channels of 4 GiB each.\<close>

definition demo_rd :: "u64 \<Rightarrow> u32" where
  "demo_rd a = (if a = DDR_SIZE_ADDR then 0x08080808 else 0)"

definition demo_boot_file :: boot_file where
  "demo_boot_file = \<lparr>bf_name = None, bf_addr = 0, bf_size = 0\<rparr>"

definition demo_board :: config42 where
  "demo_board = \<lparr>c2_mac0 = 0, c2_mac1 = 0, c2_sbi = demo_boot_file, c2_kernel = demo_boot_file, c2_dtb = demo_boot_file,
     c2_dtbo = demo_boot_file, c2_ramfs = demo_boot_file, c2_board_type = 0, c2_bootargs = None, c2_multi_socket_mode = False,
     c2_ddr = (\<lambda>_ _. \<lparr>dd_base = 0, dd_size = 0\<rparr>)\<rparr>"

definition demo_tree_ops :: "nat fdt_ops" where
  "demo_tree_ops = \<lparr>fo_totalsize = (\<lambda>_. 0), fo_open_into = (\<lambda>s d n. (0, s)), fo_overlay_apply = (\<lambda>t o1. (0, t)),
     fo_path_offset = (\<lambda>t p. 0), fo_del_node = (\<lambda>t n. (0, t)), fo_add_subnode = (\<lambda>t n x. (1, Suc t)), fo_setprop = (\<lambda>t n x v. (0, t)),
     fo_getprop = (\<lambda>t n x. None), fo_appendprop_addrrange = (\<lambda>t p n x a l. (0, t))\<rparr>"

lemma demo_sizes: "channel_size demo_rd 0 j = 2 ^ 32" if "j < 4" for j
proof -
  have "j = 0 \<or> j = 1 \<or> j = 2 \<or> j = 3" using that by auto
  then have "get_ddr_size 0x08080808 j = 0x100000000" by (auto simp: get_ddr_size_def DDR_SIZE_ZERO_def MAX_PHY_ADDR_WIDTH_def)
  then show ?thesis by (simp add: channel_size_def raw_sizes_def demo_rd_def)
qed

theorem sg2042_memory_nodes_witness:
  "\<exists>rs. modify_ddr_node demo_tree_ops (build_board_info False demo_rd demo_board) 0 = fold (\<lambda>(a, l, n). add_memory_node demo_tree_ops a l n) rs 0 \<and>
    (\<exists>a l. (a, l, 0) \<in> set rs \<and> (0x80000000 :: nat) \<in> {unat a..<unat a + unat l}) \<and>
    \<not> (\<exists>a l. (a, l, 0) \<in> set rs \<and> (0xc0000000 :: nat) \<in> {unat a..<unat a + unat l}) \<and>
    (\<exists>a l. (a, l, 1) \<in> set rs \<and> (0x100000000 :: nat) \<in> {unat a..<unat a + unat l})"
proof -
  let ?cfg = "build_board_info False demo_rd demo_board"
  have num: "chip_num ?cfg = 1"
    by (simp add: build_board_info_def Let_def name_board_def demo_rd_def demo_board_def chip_num_def MAX_CHIP_NUM_def
        BOARD_TYPE_MIN_def BOOT_SEL_ADDR_def BOARD_TYPE_REG_def DDR_SIZE_ADDR_def TOP_BASE_def numeral_2_eq_2 set_ddr_def build_ddr_info_multi)
  have sum: "(\<Sum>m<j. channel_size demo_rd 0 m) = j * 2 ^ 32" if "j \<le> 4" for j
    using that by (induction j) (simp_all add: demo_sizes)
  have fit: "\<forall>i < chip_num ?cfg. sizes_fit demo_rd i" using num sum[of 4] by (simp add: sizes_fit_def DDR_CHANNEL_NUM_def)
  have mem: "has_memory demo_rd 0 0" "has_memory demo_rd 0 1"
    by (auto simp: has_memory_def DDR_CHANNEL_NUM_def demo_sizes)
  have base: "channel_base demo_rd 0 0 = 0" "channel_base demo_rd 0 1 = 0x100000000"
    using sum[of 0] sum[of 1] by (simp_all add: channel_base_def)
  from sg2042_memory_nodes[OF refl fit, of demo_tree_ops 0] obtain rs where rs:
    "modify_ddr_node demo_tree_ops ?cfg 0 = fold (\<lambda>(a, l, n). add_memory_node demo_tree_ops a l n) rs 0"
    "\<And>n x. (\<exists>a l. (a, l, n) \<in> set rs \<and> x \<in> {unat a..<unat a + unat l}) \<longleftrightarrow>
      (\<exists>i < chip_num ?cfg. \<exists>j. has_memory demo_rd i j \<and> n = i * DDR_CHANNEL_NUM + j \<and>
         x \<in> {channel_base demo_rd i j..<channel_base demo_rd i j + channel_size demo_rd i j} - (if i = 0 \<and> j = 0 then pcie_window demo_rd else {}))"
    by (elim exE conjE) (rule that, blast+)
  have ex: "\<exists>a l. (a, l, j) \<in> set rs \<and> x \<in> {unat a..<unat a + unat l}"
    if "has_memory demo_rd 0 j" "x \<in> {channel_base demo_rd 0 j..<channel_base demo_rd 0 j + channel_size demo_rd 0 j} - pcie_window demo_rd" for j x
    unfolding rs(2) num by (intro exI[of _ 0] exI[of _ j]) (use that in auto)
  have "\<exists>a l. (a, l, 0) \<in> set rs \<and> (0x80000000 :: nat) \<in> {unat a..<unat a + unat l}"
    using ex[OF mem(1), of "0x80000000"] base demo_sizes by (simp add: pcie_window_def)
  moreover have "\<exists>a l. (a, l, 1) \<in> set rs \<and> (0x100000000 :: nat) \<in> {unat a..<unat a + unat l}"
    using ex[OF mem(2), of "0x100000000"] base demo_sizes by (simp add: pcie_window_def)
  moreover have "\<not> (\<exists>a l. (a, l, 0) \<in> set rs \<and> (0xc0000000 :: nat) \<in> {unat a..<unat a + unat l})"
    unfolding rs(2) num using demo_sizes by (auto simp: pcie_window_def DDR_CHANNEL_NUM_def)
  ultimately show ?thesis using rs(1) by blast
qed

end
