(* ===== verification/Spec2Isabelle.thy ===== *)
theory Spec2Isabelle
  imports Fs_Theorems Shell_Theorems Xmodem_Props List_Head_Claims Sched_Claims Semaphore Libc_Claims Stdio_Claims Efi_Claims Bootdev_Claims Config_Claims
    Cli_Claims Bootsrc_Claims Irq_Claims Sg2042_Claims
begin

text \<open>
  A model of the zero stage boot loader of the Sophgo RISC-V boards.

  \<^bold>\<open>The program.\<close> The boot loader runs from the boot flash of an SG2042, SG2044 or BM1690. It brings up
  its drivers, looks for a configuration, loads the firmware, a kernel and device trees from the
  boot devices into memory, verifies them if the fuses say so, and jumps to the firmware on every
  hart. Around this there is a small operating system: device classes, a virtual filesystem, threads
  with semaphores, a shell on the serial ports and a C library of its own.

  \<^bold>\<open>The theories and the code.\<close> Paths are relative to \<open>src/\<close>.

  \<^item> \<open>Prelude\<close>: error numbers, the allocator as its clients see it (it hands out a block or NULL and
    counts the blocks that are out), lemmas on lists.
  \<^item> \<open>Devices\<close>: \<open>drivers/base/device.c\<close>, the classes \<open>blkdev\<close>, \<open>mtd\<close>, \<open>nvmem\<close> and \<open>serial\<close>, and the
    wrapper \<open>mtdblock\<close>. The state is the record \<open>kernel\<close>; a driver's operations are parameters that
    work on a hardware state \<open>k_hw\<close>. \<open>Devices_Props\<close> has the lemmas on registration and \<open>mtdblock\<close>.
  \<^item> \<open>Vfs\<close>: \<open>common/vfs.c\<close>. Nodes, mounts and open files are finite maps over addresses.
    \<open>Vfs_Inv\<close> has the invariant, \<open>Vfs_Reach\<close> the reachable states, \<open>Vfs_Tree\<close>, \<open>Vfs_Free\<close>, \<open>Vfs_Paths\<close>
    and \<open>Vfs_Safety\<close> the lemmas on the tree, on freeing, on paths and on open files, \<open>Vfs_Contracts\<close>
    the interfaces as locales with their interpretations, \<open>Vfs_Demo\<close> the concrete states of the
    witnesses, \<open>Vfs_Props\<close> and \<open>Vfs_Theorems\<close> the properties. \<open>Vfs_Shell\<close> and \<open>Shell_Theorems\<close> are
    the commands \<open>ls\<close>, \<open>cat\<close> and \<open>vfstree\<close>.
  \<^item> \<open>Fs\<close>: the filesystem \<open>fs/sgpart.c\<close> on the partition table of the flash, \<open>fs/sysfs.c\<close>, and the
    policies \<open>fs/automount.c\<close> and \<open>fs/flashmount.c\<close>; \<open>Fs_Table\<close> is the table as an abstract list of
    entries, \<open>Fs_Props\<close> and \<open>Fs_Theorems\<close> the properties.
  \<^item> \<open>Xmodem\<close> (\<open>lib/xmodem/xmodem.c\<close>): the receiver as a function of the polls of the serial line.
  \<^item> \<open>List_Head\<close> (\<open>include/lib/list.h\<close>): the intrusive lists, pointer by pointer.
  \<^item> \<open>Sched\<close> (\<open>common/thread.c\<close>, \<open>common/spinlock.c\<close>, \<open>arch/riscv/src/trap.c\<close>, \<open>arch_thread.c\<close>): the
    scheduler with its run queue, spin locks with preemption control, the trap that calls the
    scheduler. \<open>Sched_Props\<close> and \<open>Sched_Reach\<close> have the step relation and its invariant,
    \<open>Sched_Theorems\<close> and \<open>Sched_Claims\<close> the properties. \<open>Semaphore\<close> is \<open>common/semaphore.c\<close>, round by
    round, with every interleaving of its operations as a step relation.
  \<^item> \<open>Libc_String\<close> (\<open>lib/libc/string.c\<close>, \<open>wchar.c\<close>): strings and blocks in a byte-addressed memory, where
    pointers are 64-bit words that wrap.
  \<^item> \<open>Stdio\<close> (\<open>lib/libc/stdio.c\<close>, \<open>common/stdio.c\<close>): formatted output into that memory and, through the
    buffer of \<open>printf\<close>, to the console; \<open>Ascii\<close> relates string literals and bytes.
  \<^item> \<open>Console\<close> (\<open>lib/cli/console.c\<close>), \<open>Cli\<close> (\<open>lib/cli/cli.c\<close>), \<open>Timer\<close> (\<open>arch/riscv/src/timer.c\<close>): the
    command line. A serial device is the polls to come and the bytes sent. \<open>Console_Props\<close> has keys,
    what they do to the line and to the screen, and that the state machine does this; \<open>Console_Table\<close>
    the words of a line, the chain of commands as a list, and the contract \<open>named_table\<close>;
    \<open>Console_Claims\<close> and \<open>Cli_Claims\<close> the properties.
  \<^item> \<open>Efi\<close> (\<open>lib/efi/efi.c\<close>): the variable store of an EFI firmware volume in that memory.
  \<^item> \<open>Bootdev\<close> (\<open>drivers/boot/bootdev.c\<close>): boot devices and their manager on the lists of \<open>List_Head\<close>.
    \<open>Bootdev_Props\<close> has the contract \<open>serves\<close> of a driver for a file.
  \<^item> \<open>Bootsrc\<close> (\<open>lib/sgmtd/sgmtd.c\<close>, \<open>lib/sgcfg/sgcfg.c\<close>): the boot devices on flash, one that serves the files of a
    partition table and one that serves the configuration file. \<open>Bootsrc_Claims\<close> has the contract
    \<open>boot_source\<close> with its interpretations for both drivers. \<open>Part_Table\<close> is the format of the records,
    which \<open>Fs\<close> shares.
  \<^item> \<open>Sha256\<close>, \<open>Sm3\<close> (\<open>lib/hash\<close>), \<open>Akcipher\<close> (\<open>lib/akcipher/akcipher.c\<close>, \<open>drivers/alg/alg.c\<close>): the hash
    functions, the parsers of keys and signatures and the verification. \<open>Sha256_Props\<close> has SHA-256 as
    FIPS 180-4 defines it; \<open>Akcipher_Claims\<close> the DER encoding of a key.
  \<^item> \<open>Ini\<close> (\<open>lib/ini/ini.c\<close>): the parser of INI files; \<open>Ini_Props\<close> documents and their rendering.
  \<^item> \<open>Config\<close>, \<open>Plat\<close> (\<open>plat/sg2044/mp/zsbl\<close>): configuration, fuses, operating point, loading and
    verification of the images, handover. \<open>Plat_Props\<close>, \<open>Plat_Claims\<close> and \<open>Config_Claims\<close> have the
    properties, which rest on those of the boot devices, the strings, the hash and the parser.
    \<open>Dtb\<close> is the editing of the device tree, with libfdt as the record \<open>fdt_ops\<close> of its operations.
  \<^item> \<open>Mac\<close> (\<open>lib/mac/mac.c\<close>): MAC addresses; \<open>Mac_Props\<close> that reading gives back what was printed.
  \<^item> \<open>Sg2042\<close> (\<open>plat/sg2042/mp/zsbl\<close>): the boot of an SG2042, from the registers of the board to the
    handover; \<open>Sg2042_Claims\<close> has the memory it describes to the kernel.
  \<^item> \<open>Irq\<close> (\<open>drivers/irqchip/interrupt.c\<close>, \<open>plic/plic.c\<close>, \<open>mtli/mtli.c\<close>): the registry of interrupt chips and
    handlers on the lists of \<open>List_Head\<close>, and two drivers on memory mapped registers. \<open>Irq_Props\<close>
    has the registry as two lists, \<open>Irq_Claims\<close> its reachable states and the properties.

  \<^bold>\<open>Conventions.\<close> A fault (a NULL pointer that is followed, a call through NULL, a write behind an
  array, a loop that never ends) is the value \<open>None\<close> of an option type; error numbers that functions
  return are values of \<open>errno\<close> in a sum or an option. Loops that may not end are
  \<open>partial_function (option)\<close>, all others are recursive functions with a termination proof, without
  fuel; only the bounded retry loops of the code count down. Integers are words of their width
  where their wrapping can be seen, natural numbers or integers where the code compares them only.
  Output to the log is left out.

  \<^bold>\<open>What the properties show\<close>, by part. Filesystem: in every reachable state the tree is well formed,
  mounts do not stack, open files are live, closing and unmounting give back what opening and
  mounting took; the partition filesystem refines its table and never reads outside a partition.
  Threads: the scheduler picks the first
  ready thread of the highest priority and is fair among equals, semaphores lose no wakeup. Interrupts:
  every input of every chip has its own number, and an interrupt runs the handlers of its number in order. Lists:
  the pointer operations refine a queue. XMODEM: damage is detected, and a transfer with
  retransmissions ends with exactly the file. Library: \<open>memmove\<close> and \<open>strtoul\<close> at their limits, \<open>snprintf\<close>
  is bounded and its numbers are read back. Console: a typed line runs its command however the
  characters arrive, every command is found on every console, \<open>exit\<close> ends the loop. EFI: a search finds the first live variable of an encoded store. Boot: priorities are kept sorted, files
  come from the best device, the flash drivers serve what the flash contains, a configuration file is applied entry by entry, the configuration is
  well formed for any fuses, a SG2042 describes to the kernel exactly the memory its channels have up to the first
  empty one, SHA-256 is SHA-256, a key is read back from DER, and with secure boot
  every image in memory at the end is one whose signature was accepted.

  \<^bold>\<open>Not modelled\<close>: FatFs (\<open>lib/fat32\<close>), libfdt (\<open>lib/fdt\<close>), the allocator (\<open>lib/libc/stdlib.c\<close>) and
  \<open>getopt\<close> are vendored; \<open>scripts/\<close> are tools of the build; \<open>test/\<close> are programs for the boards; the
  drivers of the flash, SD, eMMC, virtio, PKA and UART hardware consist of register
  accesses. What of them the modelled code calls is a parameter. Functions that only print are left
  out. The BM1690 boots after the same plan as the other boards; the interrupt controllers \<open>intc\<close> and \<open>ictl\<close>
  are never initialised.
\<close>

end
